(* ===== verification/Prelude.thy ===== *)
theory Prelude
  imports Complex_Main "HOL-Library.Multiset"
begin

text \<open>
  Shared vocabulary of the development: the error values of the C and C++ sources, the
  result type of fallible operations with its sequencing combinator, the vector operations
  the C++ code performs (\<open>resize\<close>), and the generic lemmas on lists that several
  components use.

  A C++ \<open>throw\<close>, a PostgreSQL \<open>elog(ERROR)\<close> or \<open>ereport(ERROR)\<close> leaves the running
  operation, so it is a value \<open>Inl e\<close> of a result type; \<open>Undefined\<close> marks the executions
  for which the C standard gives no meaning (an index outside an array, a write past a
  buffer), so that a theorem which shows \<open>Inr\<close> also shows that they cannot happen.
\<close>

section \<open>Errors and results\<close>

datatype error =
    Elog string            \<comment> \<open>\<open>elog(ERROR, ...)\<close> and \<open>ereport(ERROR, ...)\<close>\<close>
  | Runtime_error string   \<comment> \<open>\<open>throw std::runtime_error(...)\<close>\<close>
  | Out_of_range           \<comment> \<open>\<open>std::out_of_range\<close>, raised by \<open>std::map::at\<close>\<close>
  | Not_finite string      \<comment> \<open>an IEEE infinity or NaN, outside the real-number model\<close>
  | Undefined string       \<comment> \<open>undefined behaviour of C or C++\<close>

type_synonym 'a res = "error + 'a"

definition res_bind :: "'a res \<Rightarrow> ('a \<Rightarrow> 'b res) \<Rightarrow> 'b res" where
  "res_bind m f = (case m of Inl e \<Rightarrow> Inl e | Inr x \<Rightarrow> f x)"

definition res_map :: "('a \<Rightarrow> 'b) \<Rightarrow> 'a res \<Rightarrow> 'b res" where
  "res_map f m = (case m of Inl e \<Rightarrow> Inl e | Inr x \<Rightarrow> Inr (f x))"

text \<open>Run an operation for each element of a list, threading a state; stop at the first error.\<close>

fun res_fold :: "('a \<Rightarrow> 's \<Rightarrow> 's res) \<Rightarrow> 'a list \<Rightarrow> 's \<Rightarrow> 's res" where
  "res_fold f [] s = Inr s"
| "res_fold f (x # xs) s = res_bind (f x s) (res_fold f xs)"

text \<open>\<open>std::map::at\<close>: the value of a key, or an exception.\<close>

definition map_at :: "('k \<Rightarrow> 'v option) \<Rightarrow> 'k \<Rightarrow> 'v res" where
  "map_at m k = (case m k of None \<Rightarrow> Inl Out_of_range | Some v \<Rightarrow> Inr v)"

section \<open>Vectors\<close>

text \<open>\<open>std::vector::resize(n, d)\<close>: cut to \<open>n\<close> elements or pad with \<open>d\<close>.\<close>

definition resize :: "nat \<Rightarrow> 'a \<Rightarrow> 'a list \<Rightarrow> 'a list" where
  "resize n d xs = take n xs @ replicate (n - length xs) d"

section \<open>Lemma collections\<close>

named_theorems res_simps \<open>evaluation of the result combinators\<close>

lemma res_bind_simps [simp, res_simps]:
  "res_bind (Inl e) f = Inl e"
  "res_bind (Inr x) f = f x"
  by (simp_all add: res_bind_def)

lemma res_map_simps [simp, res_simps]:
  "res_map g (Inl e) = Inl e"
  "res_map g (Inr x) = Inr (g x)"
  by (simp_all add: res_map_def)

lemma res_bind_eq_Inr [res_simps]:
  "res_bind m f = Inr y \<longleftrightarrow> (\<exists>x. m = Inr x \<and> f x = Inr y)"
  by (cases m) simp_all

lemma res_map_eq_Inr [res_simps]:
  "res_map f m = Inr y \<longleftrightarrow> (\<exists>x. m = Inr x \<and> f x = y)"
  by (cases m) auto

lemma map_at_Some [simp]: "m k = Some v \<Longrightarrow> map_at m k = Inr v"
  by (simp add: map_at_def)

lemma map_at_eq_Inr [res_simps]: "map_at m k = Inr v \<longleftrightarrow> m k = Some v"
  by (cases "m k") (simp_all add: map_at_def)

lemma res_fold_append:
  "res_fold f (xs @ ys) s = res_bind (res_fold f xs s) (res_fold f ys)"
proof (induction xs arbitrary: s)
  case (Cons x xs)
  then show ?case by (cases "f x s") simp_all
qed simp

text \<open>An invariant kept by every step is kept by the loop.\<close>

lemma res_fold_invariant:
  assumes "res_fold f xs s = Inr t" and "P s"
    and "\<And>x s s'. x \<in> set xs \<Longrightarrow> P s \<Longrightarrow> f x s = Inr s' \<Longrightarrow> P s'"
  shows "P t"
  using assms
proof (induction xs arbitrary: s)
  case (Cons x xs)
  from Cons.prems(1) obtain s' where s': "f x s = Inr s'" and rest: "res_fold f xs s' = Inr t"
    by (auto simp: res_simps)
  have "P s'" using Cons.prems(2,3) s' by auto
  then show ?case using Cons.IH [OF rest] Cons.prems(3) by auto
qed simp

lemma length_resize [simp]: "length (resize n d xs) = n"
  by (simp add: resize_def)

lemma nth_resize: "i < n \<Longrightarrow> resize n d xs ! i = (if i < length xs then xs ! i else d)"
  by (auto simp: resize_def nth_append)

lemma resize_ge: "length xs \<le> n \<Longrightarrow> resize n d xs = xs @ replicate (n - length xs) d"
  by (simp add: resize_def)

lemma resize_le: "n \<le> length xs \<Longrightarrow> resize n d xs = take n xs"
  by (simp add: resize_def)

lemma resize_length [simp]: "resize (length xs) d xs = xs"
  by (simp add: resize_def)

lemma zip_map_same: "zip (map f xs) (map g xs) = map (\<lambda>x. (f x, g x)) xs"
  by (induction xs) auto

lemma sorted_wrt_replicate: "P x x \<Longrightarrow> sorted_wrt P (replicate n x)"
  by (induction n) auto

lemma concat_map_filter_if: "concat (map f (filter P xs)) = concat (map (\<lambda>x. if P x then f x else []) xs)"
  by (induction xs) auto

section \<open>Sums over lists\<close>

lemma sum_list_update:
  fixes xs :: "'a::ab_group_add list"
  shows "i < length xs \<Longrightarrow> sum_list (xs[i := v]) = sum_list xs - xs ! i + v"
  by (induction xs arbitrary: i) (auto split: nat.split simp: algebra_simps)

lemma sum_list_replicate_zero [simp]: "sum_list (replicate n (0 :: 'a::comm_monoid_add)) = 0"
  by (induction n) auto

lemma sum_list_resize_ge:
  fixes xs :: "'a::comm_monoid_add list"
  shows "length xs \<le> n \<Longrightarrow> sum_list (resize n 0 xs) = sum_list xs"
  by (simp add: resize_ge)

lemma sum_list_filter_rev_upt:
  fixes f :: "nat \<Rightarrow> 'a::comm_monoid_add"
  shows "sum_list (map f (filter P (rev [0..<n]))) = (\<Sum>i<n. if P i then f i else 0)"
  by (induction n) (auto simp: add.commute)

lemma sum_list_nonneg_real: "(\<forall>x \<in> set xs. 0 \<le> x) \<Longrightarrow> 0 \<le> sum_list (xs :: real list)"
  by (induction xs) auto

end
