(* ===== verification/EqualSet.thy ===== *)
theory EqualSet
  imports Prelude "HOL-Library.List_Lexorder" "HOL-Library.Char_ord" "HOL-Library.Sublist"
begin

text \<open>
  The equal sets of \<^verbatim>\<open>duckdb/src/include/duckdb/starce/equalset.hpp\<close>: a set of
  table columns that a query equates. The statistics of StarCE are keyed by them.

  \<open>std::string\<close> is \<open>string\<close>, compared byte by byte (\<open>Char_ord\<close>, \<open>List_Lexorder\<close>);
  \<open>std::set<TableColumn>\<close> is the strictly ascending list of its elements, in which order
  the C++ code iterates over it, and its \<open>operator<\<close> compares these sequences
  lexicographically. \<open>1 << Entries.size()\<close> is an \<open>int\<close>: the subset loops are defined
  for at most 30 entries, which the guard of the model states.
\<close>

section \<open>Columns and their order\<close>

datatype TableColumn = TableColumn (TableName: string) (ColumnName: string)

definition TableColumn_less :: "TableColumn \<Rightarrow> TableColumn \<Rightarrow> bool" where
  "TableColumn_less a b =
     (if TableName a \<noteq> TableName b then TableName a < TableName b
      else ColumnName a < ColumnName b)"

instantiation TableColumn :: linorder
begin

definition less_TableColumn :: "TableColumn \<Rightarrow> TableColumn \<Rightarrow> bool" where
  "less_TableColumn = TableColumn_less"

definition less_eq_TableColumn :: "TableColumn \<Rightarrow> TableColumn \<Rightarrow> bool" where
  "less_eq_TableColumn a b = (a < b \<or> a = b)"

instance
proof
  fix x y z :: TableColumn
  show "(x < y) = (x \<le> y \<and> \<not> y \<le> x)"
    by (auto simp: less_eq_TableColumn_def less_TableColumn_def TableColumn_less_def split: if_splits)
  show "x \<le> x" by (simp add: less_eq_TableColumn_def)
  show "x \<le> y \<Longrightarrow> y \<le> z \<Longrightarrow> x \<le> z"
    by (auto simp: less_eq_TableColumn_def less_TableColumn_def TableColumn_less_def split: if_splits)
  show "x \<le> y \<Longrightarrow> y \<le> x \<Longrightarrow> x = y"
    by (auto simp: less_eq_TableColumn_def less_TableColumn_def TableColumn_less_def split: if_splits)
  show "x \<le> y \<or> y \<le> x"
    by (cases x; cases y) (auto simp: less_eq_TableColumn_def less_TableColumn_def TableColumn_less_def)
qed

end

lemma less_TableColumn_iff:
  "a < b \<longleftrightarrow> (if TableName a \<noteq> TableName b then TableName a < TableName b else ColumnName a < ColumnName b)"
  by (simp add: less_TableColumn_def TableColumn_less_def)

section \<open>\<open>std::set\<close> as an ascending list\<close>

definition std_set :: "'a::linorder list \<Rightarrow> bool" where
  "std_set xs \<longleftrightarrow> sorted_wrt (<) xs"

fun set_insert :: "'a::linorder \<Rightarrow> 'a list \<Rightarrow> 'a list" where
  "set_insert x [] = [x]"
| "set_insert x (y # ys) =
     (if x < y then x # y # ys else if x = y then y # ys else y # set_insert x ys)"

definition set_of_list :: "'a::linorder list \<Rightarrow> 'a list" where
  "set_of_list xs = fold set_insert xs []"

text \<open>\<open>m[k] = v\<close> on a \<open>std::map\<close>, the list of its entries in ascending order of the keys.\<close>

fun map_put :: "'k::linorder \<Rightarrow> 'v \<Rightarrow> ('k \<times> 'v) list \<Rightarrow> ('k \<times> 'v) list" where
  "map_put k v [] = [(k, v)]"
| "map_put k v ((k', v') # kvs) =
     (if k < k' then (k, v) # (k', v') # kvs
      else if k = k' then (k, v) # kvs
      else (k', v') # map_put k v kvs)"

section \<open>\<open>EqualSet\<close>\<close>

datatype EqualSet = EqualSet (Entries: "TableColumn list")

definition EqualSet_less :: "EqualSet \<Rightarrow> EqualSet \<Rightarrow> bool" where
  "EqualSet_less a b = (Entries a < Entries b)"

instantiation EqualSet :: linorder
begin

definition less_EqualSet :: "EqualSet \<Rightarrow> EqualSet \<Rightarrow> bool" where
  "less_EqualSet = EqualSet_less"

definition less_eq_EqualSet :: "EqualSet \<Rightarrow> EqualSet \<Rightarrow> bool" where
  "less_eq_EqualSet a b = (a < b \<or> a = b)"

instance
proof
  fix x y z :: EqualSet
  show "(x < y) = (x \<le> y \<and> \<not> y \<le> x)"
    by (auto simp: less_eq_EqualSet_def less_EqualSet_def EqualSet_less_def)
  show "x \<le> x" by (simp add: less_eq_EqualSet_def)
  show "x \<le> y \<Longrightarrow> y \<le> z \<Longrightarrow> x \<le> z"
    by (auto simp: less_eq_EqualSet_def less_EqualSet_def EqualSet_less_def)
  show "x \<le> y \<Longrightarrow> y \<le> x \<Longrightarrow> x = y"
    by (auto simp: less_eq_EqualSet_def less_EqualSet_def EqualSet_less_def)
  show "x \<le> y \<or> y \<le> x"
    by (cases x; cases y) (auto simp: less_eq_EqualSet_def less_EqualSet_def EqualSet_less_def)
qed

end

text \<open>A set of one column is replaced by the table with an empty column name.\<close>

definition collapse_singleton :: "TableColumn list \<Rightarrow> TableColumn list" where
  "collapse_singleton es =
     (if length es = 1 then [TableColumn (TableName (hd es)) ''''] else es)"

text \<open>The entries at the positions \<open>i\<close> with \<open>s & (1 << i)\<close>, in order.\<close>

fun pick_bits :: "nat \<Rightarrow> nat \<Rightarrow> TableColumn list \<Rightarrow> TableColumn list \<Rightarrow> TableColumn list" where
  "pick_bits s i [] eset = eset"
| "pick_bits s i (e # es) eset =
     pick_bits s (Suc i) es (if bit s i then set_insert e eset else eset)"

definition GetAllSubset :: "EqualSet \<Rightarrow> EqualSet list res" where
  "GetAllSubset e =
     (if length (Entries e) \<le> 30
      then Inr (map (\<lambda>s. EqualSet (collapse_singleton (pick_bits s 0 (Entries e) [])))
                 [0..<2 ^ length (Entries e)])
      else Inl (Undefined ''1 << Entries.size()''))"

definition GetAllSubsetLimitSize :: "EqualSet \<Rightarrow> nat \<Rightarrow> EqualSet list res" where
  "GetAllSubsetLimitSize e sizeLimit =
     (if length (Entries e) \<le> 30
      then Inr (map (\<lambda>es. EqualSet (collapse_singleton es))
                 (filter (\<lambda>es. \<not> length es > sizeLimit)
                   (map (\<lambda>s. pick_bits s 0 (Entries e) []) [0..<2 ^ length (Entries e)])))
      else Inl (Undefined ''1 << Entries.size()''))"

text \<open>
  The loop of \<open>Split\<close>: \<open>es\<close> is the rest of the iteration, \<open>remain\<close> the counter the code
  keeps beside it (an \<open>int\<close>, which ends at or below zero).
\<close>

function (sequential) Split_loop :: "int \<Rightarrow> TableColumn list \<Rightarrow> int \<Rightarrow> EqualSet list" where
  "Split_loop maxSize [] remain = []"
| "Split_loop maxSize (e # es) remain =
     (if maxSize < 3 then []
      else
        let n = (if remain - maxSize = 1 then nat (maxSize - 1) else nat maxSize);
            piece = fold set_insert (take n (e # es)) []
        in EqualSet (collapse_singleton piece)
             # Split_loop maxSize (drop n (e # es)) (remain - int n))"
  by pat_completeness auto
termination
  by (relation "measure (\<lambda>(m, es, r). length es)") auto

definition Split :: "EqualSet \<Rightarrow> int \<Rightarrow> EqualSet list res" where
  "Split e maxSize =
     (if maxSize < 3 then Inl (Runtime_error ''maxSize must be at least 3'')
      else Inr (Split_loop maxSize (Entries e) (int (length (Entries e)))))"

definition GetTableList :: "EqualSet \<Rightarrow> string list" where
  "GetTableList e = map TableName (Entries e)"

declare Split_loop.simps [simp del]

section \<open>Lemmas on \<open>std::set\<close>\<close>

lemma set_set_insert [simp]: "set (set_insert x xs) = insert x (set xs)"
  by (induction xs) auto

lemma std_set_insert [intro]: "std_set xs \<Longrightarrow> std_set (set_insert x xs)"
  unfolding std_set_def by (induction xs) auto

lemma set_insert_snoc: "\<forall>y \<in> set xs. y < x \<Longrightarrow> set_insert x xs = xs @ [x]"
  by (induction xs) auto

lemma set_insert_mem: "std_set xs \<Longrightarrow> x \<in> set xs \<Longrightarrow> set_insert x xs = xs"
  unfolding std_set_def by (induction xs) auto

lemma fold_set_insert_sorted:
  "sorted_wrt (<) (ys @ xs) \<Longrightarrow> fold set_insert xs ys = ys @ xs"
  by (induction xs arbitrary: ys) (auto simp: set_insert_snoc sorted_wrt_append)

lemma set_of_list_sorted: "std_set xs \<Longrightarrow> set_of_list xs = xs"
  by (simp add: set_of_list_def std_set_def fold_set_insert_sorted)

lemma set_fold_set_insert [simp]: "set (fold set_insert xs ys) = set xs \<union> set ys"
  by (induction xs arbitrary: ys) auto

lemma std_set_fold: "std_set ys \<Longrightarrow> std_set (fold set_insert xs ys)"
  by (induction xs arbitrary: ys) auto

lemma std_set_set_of_list [simp, intro]: "std_set (set_of_list xs)"
  by (simp add: set_of_list_def std_set_fold std_set_def [of "[]"])

lemma set_set_of_list [simp]: "set (set_of_list xs) = set xs"
  by (simp add: set_of_list_def)

lemma std_set_Nil [simp]: "std_set []"
  by (simp add: std_set_def)

lemma std_set_distinct: "std_set xs \<Longrightarrow> distinct xs"
  by (simp add: std_set_def strict_sorted_iff)

lemma std_set_eqI: "std_set xs \<Longrightarrow> std_set ys \<Longrightarrow> set xs = set ys \<Longrightarrow> xs = ys"
  by (simp add: std_set_def strict_sorted_equal)

lemma std_set_take_drop:
  "std_set xs \<Longrightarrow> std_set (take n xs) \<and> std_set (drop n xs)"
  by (simp add: std_set_def sorted_wrt_take sorted_wrt_drop)

section \<open>Subset enumeration\<close>

text \<open>The sublist at the set bits of \<open>s\<close>: what \<open>pick_bits\<close> computes on an ascending list.\<close>

fun bits_sub :: "nat \<Rightarrow> 'a list \<Rightarrow> 'a list" where
  "bits_sub s [] = []"
| "bits_sub s (x # xs) = (if odd s then x # bits_sub (s div 2) xs else bits_sub (s div 2) xs)"

lemma set_bits_sub: "set (bits_sub s xs) \<subseteq> set xs"
  by (induction xs arbitrary: s) (auto split: if_splits)

lemma pick_bits_eq:
  "sorted_wrt (<) (acc @ es) \<Longrightarrow> pick_bits s i es acc = acc @ bits_sub (s div 2 ^ i) es"
proof (induction es arbitrary: i acc)
  case (Cons e es)
  have e: "set_insert e acc = acc @ [e]"
    using Cons.prems by (intro set_insert_snoc) (auto simp: sorted_wrt_append)
  have s: "sorted_wrt (<) ((acc @ [e]) @ es)" "sorted_wrt (<) (acc @ es)"
    using Cons.prems by (auto simp: sorted_wrt_append)
  have d: "s div 2 ^ i div 2 = s div (2 * 2 ^ i)"
    by (metis div_mult2_eq mult.commute)
  show ?case
    using Cons.IH [OF s(1), of "Suc i"] Cons.IH [OF s(2), of "Suc i"] e d
    by (simp add: bit_iff_odd)
qed simp

lemma bits_sub_small: "\<exists>t < 2 ^ length xs. bits_sub s xs = bits_sub t xs"
proof (induction xs arbitrary: s)
  case (Cons x xs)
  obtain t where t: "t < 2 ^ length xs" "bits_sub (s div 2) xs = bits_sub t xs"
    using Cons.IH by blast
  have "bits_sub s (x # xs) = bits_sub (2 * t + s mod 2) (x # xs)"
    using t(2) by (simp add: odd_iff_mod_2_eq_one)
  moreover have "2 * t + s mod 2 < 2 ^ length (x # xs)"
    using t(1) by simp
  ultimately show ?case by blast
qed simp

lemma bits_sub_Cons_iff:
  "(\<exists>s. ys = bits_sub s (x # xs)) \<longleftrightarrow>
   (\<exists>t. ys = bits_sub t xs) \<or> (\<exists>t. ys = x # bits_sub t xs)"
proof
  assume "\<exists>s. ys = bits_sub s (x # xs)"
  then show "(\<exists>t. ys = bits_sub t xs) \<or> (\<exists>t. ys = x # bits_sub t xs)"
    by (auto split: if_splits)
next
  assume "(\<exists>t. ys = bits_sub t xs) \<or> (\<exists>t. ys = x # bits_sub t xs)"
  then obtain t where "ys = bits_sub (2 * t) (x # xs) \<or> ys = bits_sub (2 * t + 1) (x # xs)"
    by auto
  then show "\<exists>s. ys = bits_sub s (x # xs)" by blast
qed

lemma bits_sub_subseqs: "ys \<in> set (subseqs xs) \<longleftrightarrow> (\<exists>s. ys = bits_sub s xs)"
proof (induction xs arbitrary: ys)
  case (Cons x xs)
  then show ?case
    by (auto simp: Let_def image_iff bits_sub_Cons_iff simp del: bits_sub.simps(2))
qed simp

lemma bits_sub_subseq: "subseq ys xs \<longleftrightarrow> (\<exists>s. ys = bits_sub s xs)"
  using bits_sub_subseqs by simp

lemma pick_bits_subsets:
  assumes "std_set es"
  shows "(\<lambda>s. pick_bits s 0 es []) ` {0..<2 ^ length es} = {ys. subseq ys es}"
proof -
  have "pick_bits s 0 es [] = bits_sub s es" for s
    using assms pick_bits_eq [of "[]" es s 0] by (simp add: std_set_def)
  then show ?thesis
    using bits_sub_small [of es] by (auto simp: bits_sub_subseq image_iff) fastforce
qed

lemma pick_bits_inj:
  assumes "std_set es" "s < 2 ^ length es" "t < 2 ^ length es"
    and "pick_bits s 0 es [] = pick_bits t 0 es []"
  shows "s = t"
proof -
  have "distinct xs \<Longrightarrow> s < 2 ^ length xs \<Longrightarrow> t < 2 ^ length xs \<Longrightarrow>
      bits_sub s xs = bits_sub t xs \<Longrightarrow> s = t" for xs :: "TableColumn list" and s t :: nat
  proof (induction xs arbitrary: s t)
    case (Cons x xs)
    have d: "s div 2 < 2 ^ length xs" "t div 2 < 2 ^ length xs"
      using Cons.prems(2,3) by auto
    have x: "x \<notin> set (bits_sub u xs)" for u
      using Cons.prems(1) set_bits_sub [of u xs] by auto
    have "odd s = odd t \<and> bits_sub (s div 2) xs = bits_sub (t div 2) xs"
      using Cons.prems(4) x by (auto split: if_splits) (metis list.set_intros(1))+
    then have "odd s = odd t" "s div 2 = t div 2"
      using Cons.IH [OF _ d] Cons.prems(1) by auto
    then show ?case by presburger
  qed simp
  moreover have "pick_bits u 0 es [] = bits_sub u es" for u
    using assms(1) pick_bits_eq [of "[]" es u 0] by (simp add: std_set_def)
  ultimately show ?thesis using assms std_set_distinct [OF assms(1)] by metis
qed

section \<open>Splitting\<close>

lemma Split_loop_correct:
  assumes "3 \<le> maxSize" "std_set es" "length es \<noteq> 1"
  shows "concat (map Entries (Split_loop maxSize es (int (length es)))) = es \<and>
    (\<forall>p \<in> set (Split_loop maxSize es (int (length es))).
       std_set (Entries p) \<and> 2 \<le> length (Entries p) \<and> int (length (Entries p)) \<le> maxSize)"
  using assms
proof (induction "length es" arbitrary: es rule: less_induct)
  case less
  show ?case
  proof (cases es)
    case Nil
    then show ?thesis by (simp add: Split_loop.simps)
  next
    case (Cons e es')
    define n where "n = (if int (length es) - maxSize = 1 then nat (maxSize - 1) else nat maxSize)"
    have n: "2 \<le> n" "int n \<le> maxSize" "length (drop n es) \<noteq> 1"
      using less.prems by (auto simp: n_def)
    have step: "Split_loop maxSize es (int (length es)) =
      EqualSet (collapse_singleton (take n es)) #
        Split_loop maxSize (drop n es) (int (length es) - int n)"
      using less.prems(1,2) Cons
      by (simp add: Split_loop.simps(2) n_def [symmetric] Let_def fold_set_insert_sorted
            std_set_def sorted_wrt_take del: take.simps drop.simps)
         (simp add: n_def)
    have "2 \<le> length (take n es)"
      using Cons less.prems(3) n(1) by (cases es') auto
    then have col: "collapse_singleton (take n es) = take n es"
      by (auto simp: collapse_singleton_def)
    have rest: "Split_loop maxSize (drop n es) (int (length es) - int n) =
        Split_loop maxSize (drop n es) (int (length (drop n es)))"
    proof (cases "n \<le> length es")
      case False
      then show ?thesis by (simp add: Split_loop.simps)
    qed simp
    have "length (drop n es) < length es" using n(1) Cons by simp
    from less.hyps [OF this less.prems(1) _ n(3)] std_set_take_drop [OF less.prems(2)]
    show ?thesis
      using step rest col \<open>2 \<le> length (take n es)\<close> n(2) by auto
  qed
qed

section \<open>Properties\<close>

text \<open>
  \<open>EqualSet::Split\<close> cuts an equal set of at least two columns into consecutive pieces:
  their concatenation is the set again, each piece is an ascending set of at least two and at
  most \<open>maxSize\<close> columns, so no piece is the single column the comment wants to avoid.
\<close>

theorem Split_pieces:
  assumes "3 \<le> maxSize" "std_set (Entries e)" "2 \<le> length (Entries e)"
  shows "\<exists>ps. Split e maxSize = Inr ps \<and> concat (map Entries ps) = Entries e \<and>
    (\<forall>p \<in> set ps. std_set (Entries p) \<and> 2 \<le> length (Entries p) \<and>
       int (length (Entries p)) \<le> maxSize)"
  using Split_loop_correct [OF assms(1,2)] assms by (auto simp: Split_def)

definition four_columns :: EqualSet where
  "four_columns = EqualSet [TableColumn ''a'' ''i'', TableColumn ''b'' ''i'', TableColumn ''c'' ''i'', TableColumn ''d'' ''i'']"

theorem Split_pieces_witness:
  "\<exists>ps. Split four_columns 3 = Inr ps \<and> concat (map Entries ps) = Entries four_columns \<and>
    (\<forall>p \<in> set ps. std_set (Entries p) \<and> 2 \<le> length (Entries p) \<and> int (length (Entries p)) \<le> 3)"
proof (rule Split_pieces)
  show "std_set (Entries four_columns)"
    by (simp add: four_columns_def std_set_def less_TableColumn_iff)
  show "2 \<le> length (Entries four_columns)" by (simp add: four_columns_def)
qed simp

text \<open>
  C31: \<open>EqualSet::GetAllSubset\<close> enumerates every subset of an equal set of at most 30 columns
  exactly once: the result has \<open>2 ^ n\<close> elements, and they are the subsequences of the
  columns in the order of the bit masks, with single columns replaced by their table; the
  size-limited variant keeps exactly the subsets of at most \<open>sizeLimit\<close> columns.
\<close>

theorem GetAllSubset_enumerates:
  assumes "std_set (Entries e)" "length (Entries e) \<le> 30"
  shows "\<exists>subs. distinct subs \<and> set subs = {ys. subseq ys (Entries e)} \<and>
    length subs = 2 ^ length (Entries e) \<and>
    GetAllSubset e = Inr (map (\<lambda>ys. EqualSet (collapse_singleton ys)) subs) \<and>
    GetAllSubsetLimitSize e n =
      Inr (map (\<lambda>ys. EqualSet (collapse_singleton ys)) (filter (\<lambda>ys. length ys \<le> n) subs))"
proof (intro exI conjI)
  let ?subs = "map (\<lambda>s. pick_bits s 0 (Entries e) []) [0..<2 ^ length (Entries e)]"
  show "distinct ?subs"
    using pick_bits_inj [OF assms(1)] by (auto simp: distinct_map inj_on_def)
  show "set ?subs = {ys. subseq ys (Entries e)}"
    using pick_bits_subsets [OF assms(1)] by simp
  show "GetAllSubset e = Inr (map (\<lambda>ys. EqualSet (collapse_singleton ys)) ?subs)"
    using assms(2) by (simp add: GetAllSubset_def)
  show "GetAllSubsetLimitSize e n =
      Inr (map (\<lambda>ys. EqualSet (collapse_singleton ys)) (filter (\<lambda>ys. length ys \<le> n) ?subs))"
    using assms(2) by (simp add: GetAllSubsetLimitSize_def not_less)
qed simp

theorem GetAllSubset_enumerates_witness:
  "\<exists>subs. distinct subs \<and> set subs = {ys. subseq ys (Entries four_columns)} \<and>
    length subs = 2 ^ length (Entries four_columns) \<and>
    GetAllSubset four_columns = Inr (map (\<lambda>ys. EqualSet (collapse_singleton ys)) subs) \<and>
    GetAllSubsetLimitSize four_columns 2 =
      Inr (map (\<lambda>ys. EqualSet (collapse_singleton ys)) (filter (\<lambda>ys. length ys \<le> 2) subs))"
proof (rule GetAllSubset_enumerates)
  show "std_set (Entries four_columns)"
    by (simp add: four_columns_def std_set_def less_TableColumn_iff)
  show "length (Entries four_columns) \<le> 30" by (simp add: four_columns_def)
qed

end
