(* ===== verification/ExnState.thy ===== *)
theory ExnState
  imports Prelude
begin

text \<open>
  Operations that change an object and may throw. A C++ method that throws keeps the changes
  it made before the \<open>throw\<close>, so its model is a function from the state to a result
  together with the state at the end, whether it returned or threw.
\<close>

type_synonym ('s, 'a) sx = "'s \<Rightarrow> 'a res \<times> 's"

definition sx_ret :: "'a \<Rightarrow> ('s, 'a) sx" where
  "sx_ret x s = (Inr x, s)"

definition sx_throw :: "error \<Rightarrow> ('s, 'a) sx" where
  "sx_throw e s = (Inl e, s)"

definition sx_bind :: "('s, 'a) sx \<Rightarrow> ('a \<Rightarrow> ('s, 'b) sx) \<Rightarrow> ('s, 'b) sx" where
  "sx_bind m f s = (case m s of (Inl e, t) \<Rightarrow> (Inl e, t) | (Inr x, t) \<Rightarrow> f x t)"

text \<open>A computation that reads the state and may fail, and an update of the state.\<close>

definition sx_read :: "('s \<Rightarrow> 'a res) \<Rightarrow> ('s, 'a) sx" where
  "sx_read f s = (f s, s)"

definition sx_mod :: "('s \<Rightarrow> 's) \<Rightarrow> ('s, unit) sx" where
  "sx_mod f s = (Inr (), f s)"

text \<open>A loop over a list that carries a value.\<close>

fun sx_for :: "('x \<Rightarrow> 'a \<Rightarrow> ('s, 'a) sx) \<Rightarrow> 'x list \<Rightarrow> 'a \<Rightarrow> ('s, 'a) sx" where
  "sx_for f [] acc = sx_ret acc"
| "sx_for f (x # xs) acc = sx_bind (f x acc) (sx_for f xs)"

section \<open>Evaluation\<close>

named_theorems sx_simps \<open>evaluation of the operations with state and exceptions\<close>

lemma sx_eval [sx_simps]:
  "sx_ret x s = (Inr x, s)"
  "sx_throw e s = (Inl e, s)"
  "sx_read g s = (g s, s)"
  "sx_mod h s = (Inr (), h s)"
  by (simp_all add: sx_ret_def sx_throw_def sx_read_def sx_mod_def)

lemma sx_bind_eval [sx_simps]:
  "m s = (Inl e, t) \<Longrightarrow> sx_bind m f s = (Inl e, t)"
  "m s = (Inr x, t) \<Longrightarrow> sx_bind m f s = f x t"
  by (simp_all add: sx_bind_def)

lemma sx_bind_unfold:
  "sx_bind m f s = (case fst (m s) of Inl e \<Rightarrow> (Inl e, snd (m s)) | Inr x \<Rightarrow> f x (snd (m s)))"
  by (cases "m s") (simp add: sx_bind_def split: sum.split)

lemma sx_bind_prim [sx_simps]:
  "sx_bind (sx_ret x) f s = f x s"
  "sx_bind (sx_throw e) f s = (Inl e, s)"
  "sx_bind (sx_mod h) k s = k () (h s)"
  "sx_bind (sx_read g) f s = (case g s of Inl e \<Rightarrow> (Inl e, s) | Inr x \<Rightarrow> f x s)"
  by (simp_all add: sx_bind_def sx_ret_def sx_throw_def sx_mod_def sx_read_def split: sum.split)

section \<open>Frames\<close>

text \<open>
  \<open>sx_keeps P m\<close>: whether \<open>m\<close> returns or throws, the state it leaves is related to the
  state it found. A reflexive and transitive \<open>P\<close> (an equality of some fields) composes.
\<close>

definition sx_keeps :: "('s \<Rightarrow> 's \<Rightarrow> bool) \<Rightarrow> ('s, 'a) sx \<Rightarrow> bool" where
  "sx_keeps P m \<longleftrightarrow> (\<forall>s. P s (snd (m s)))"

locale frame =
  fixes P :: "'s \<Rightarrow> 's \<Rightarrow> bool"
  assumes frame_refl: "P s s"
    and frame_trans: "P s t \<Longrightarrow> P t u \<Longrightarrow> P s u"
begin

lemma keeps_prim:
  "sx_keeps P (sx_ret x)" "sx_keeps P (sx_throw e)" "sx_keeps P (sx_read g)"
  by (simp_all add: sx_keeps_def sx_eval frame_refl)

lemma keeps_mod: "(\<And>s. P s (h s)) \<Longrightarrow> sx_keeps P (sx_mod h)"
  by (simp add: sx_keeps_def sx_eval)

lemma keeps_bind:
  assumes "sx_keeps P m" "\<And>x. sx_keeps P (f x)"
  shows "sx_keeps P (sx_bind m f)"
  unfolding sx_keeps_def sx_bind_unfold
proof
  fix s
  have "P s (snd (m s))" using assms(1) by (simp add: sx_keeps_def)
  moreover have "P (snd (m s)) (snd (f x (snd (m s))))" for x
    using assms(2) [of x] by (simp add: sx_keeps_def)
  ultimately show "P s (snd (case fst (m s) of Inl e \<Rightarrow> (Inl e, snd (m s)) | Inr x \<Rightarrow> f x (snd (m s))))"
    by (auto split: sum.split intro: frame_trans)
qed

lemma keeps_for:
  assumes "\<And>x acc. sx_keeps P (f x acc)"
  shows "sx_keeps P (sx_for f xs acc)"
  using assms by (induction xs arbitrary: acc) (simp_all add: keeps_prim keeps_bind)

lemma keeps_if: "sx_keeps P m \<Longrightarrow> sx_keeps P n \<Longrightarrow> sx_keeps P (if b then m else n)"
  by simp

lemmas keeps_intros = keeps_prim keeps_bind keeps_for keeps_if

end

section \<open>Success\<close>

text \<open>
  \<open>sx_wp m Q s\<close>: from the state \<open>s\<close> the operation returns (it does not throw), and \<open>Q\<close> holds of its
  value and of the state it leaves.
\<close>

definition sx_wp :: "('s, 'a) sx \<Rightarrow> ('a \<Rightarrow> 's \<Rightarrow> bool) \<Rightarrow> 's \<Rightarrow> bool" where
  "sx_wp m Q s = (case m s of (Inl e, t) \<Rightarrow> False | (Inr x, t) \<Rightarrow> Q x t)"

named_theorems sx_wp \<open>success of composed operations\<close>

lemma sx_wp_ret [sx_wp]: "sx_wp (sx_ret x) Q s \<longleftrightarrow> Q x s"
  by (simp add: sx_wp_def sx_eval)

lemma sx_wp_mod [sx_wp]: "sx_wp (sx_mod h) Q s \<longleftrightarrow> Q () (h s)"
  by (simp add: sx_wp_def sx_eval)

lemma sx_wp_read: "sx_wp (sx_read g) Q s \<longleftrightarrow> (\<exists>x. g s = Inr x \<and> Q x s)"
  by (cases "g s") (simp_all add: sx_wp_def sx_eval)

lemma sx_wp_bind [sx_wp]: "sx_wp (sx_bind m f) Q s \<longleftrightarrow> sx_wp m (\<lambda>x. sx_wp (f x) Q) s"
  by (simp add: sx_wp_def sx_bind_def split: prod.split sum.split)

lemma sx_wp_mono: "sx_wp m P s \<Longrightarrow> (\<And>x t. P x t \<Longrightarrow> Q x t) \<Longrightarrow> sx_wp m Q s"
  by (auto simp: sx_wp_def split: prod.splits sum.splits)

lemma sx_wp_result: "sx_wp m Q s \<longleftrightarrow> (\<exists>x t. m s = (Inr x, t) \<and> Q x t)"
  by (cases "m s"; cases "fst (m s)") (auto simp: sx_wp_def)

lemma sx_wp_keeps: "sx_keeps P m \<Longrightarrow> sx_wp m Q s \<Longrightarrow> sx_wp m (\<lambda>x t. Q x t \<and> P s t) s"
  unfolding sx_wp_result by (metis sx_keeps_def snd_conv)

lemma sx_wp_for:
  assumes "I [] acc s"
    and "\<And>done x rest acc s. xs = done @ x # rest \<Longrightarrow> I done acc s \<Longrightarrow> sx_wp (f x acc) (I (done @ [x])) s"
  shows "sx_wp (sx_for f xs acc) (I xs) s"
proof -
  have "xs = done @ rest \<Longrightarrow> I done acc s \<Longrightarrow> sx_wp (sx_for f rest acc) (I xs) s" for "done" rest acc s
  proof (induction rest arbitrary: "done" acc s)
    case (Cons x rest)
    have "sx_wp (sx_for f rest acc') (I xs) t" if "I (done @ [x]) acc' t" for acc' t
      using Cons.IH [of "done @ [x]"] Cons.prems(1) that by simp
    then show ?case
      using sx_wp_mono [OF assms(2) [OF Cons.prems]] by (simp add: sx_wp_bind)
  qed (simp add: sx_wp_ret)
  from this [of "[]" xs acc s] assms(1) show ?thesis by simp
qed

lemma sx_wp_for_keep:
  assumes "I s" "\<And>x s. x \<in> set xs \<Longrightarrow> I s \<Longrightarrow> sx_wp (f x ()) (\<lambda>_. I) s"
  shows "sx_wp (sx_for f xs ()) (\<lambda>_. I) s"
  using sx_wp_for [where I = "\<lambda>_ _. I" and xs = xs and f = f and acc = "()"] assms by simp

text \<open>The same for a loop that is known to have returned.\<close>

lemma sx_for_run:
  assumes "sx_for f xs acc s = (Inr y, t)" "I [] acc s"
    and "\<And>done x rest acc s acc' s'. xs = done @ x # rest \<Longrightarrow> I done acc s \<Longrightarrow> f x acc s = (Inr acc', s') \<Longrightarrow>
      I (done @ [x]) acc' s'"
  shows "I xs y t"
proof -
  have "xs = done @ rest \<Longrightarrow> I done acc s \<Longrightarrow> sx_for f rest acc s = (Inr y, t) \<Longrightarrow> I xs y t" for "done" rest acc s
  proof (induction rest arbitrary: "done" acc s)
    case (Cons x rest)
    obtain acc' s' where "f x acc s = (Inr acc', s')" "sx_for f rest acc' s' = (Inr y, t)"
      using Cons.prems(3) by (cases "f x acc s"; cases "fst (f x acc s)") (auto simp: sx_bind_def)
    with Cons.IH [of "done @ [x]" acc' s'] Cons.prems(1) assms(3) [OF Cons.prems(1,2)] show ?case by simp
  qed (simp add: sx_eval)
  from this [of "[]" xs acc s] assms(1,2) show ?thesis by simp
qed

end
