(* ===== verification/SqlText.thy ===== *)
theory SqlText
  imports EqualSet ExnState
begin

text \<open>
  The text processing of \<open>StatisticManager\<close>
  (\<^verbatim>\<open>duckdb/src/include/duckdb/starce/starce.hpp\<close>): \<open>ParsePredicate\<close> and the string
  operations it shares with \<open>GetSubquery\<close> and \<open>GetSingleQuery\<close>. A \<open>std::string\<close> is a list
  of characters. The three regular expressions of the code are written out as scanners:
  in each of them a greedy repetition is followed by a character outside its class, so the
  matcher of \<open>std::regex\<close> has one way to match at a given start.
\<close>

section \<open>Strings\<close>

fun str_find :: "string \<Rightarrow> string \<Rightarrow> nat option" where
  "str_find pat [] = (if pat = [] then Some 0 else None)"
| "str_find pat (c # cs) =
     (if prefix pat (c # cs) then Some 0 else map_option Suc (str_find pat cs))"

text \<open>The loop \<open>while (find(pat)) replace(...)\<close>: all occurrences, left to right.\<close>

function (sequential) replace_all :: "string \<Rightarrow> string \<Rightarrow> string \<Rightarrow> string" where
  "replace_all pat rep [] = []"
| "replace_all pat rep (c # cs) =
     (if pat \<noteq> [] \<and> prefix pat (c # cs) then rep @ replace_all pat rep (drop (length pat) (c # cs))
      else c # replace_all pat rep cs)"
  by pat_completeness auto
termination
  by (relation "measure (\<lambda>(p, r, s). length s)") (auto simp: neq_Nil_conv)

declare replace_all.simps [simp del]

text \<open>The loop that cuts a conjunction at each \<open>" AND "\<close>; an empty rest is dropped.\<close>

lemma str_find_le: "str_find pat s = Some p \<Longrightarrow> p + length pat \<le> length s"
proof (induction s arbitrary: p)
  case (Cons c cs)
  show ?case
  proof (cases "prefix pat (c # cs)")
    case True
    then show ?thesis using Cons.prems prefix_length_le by fastforce
  next
    case False
    then show ?thesis using Cons by (auto simp del: prefix_Cons)
  qed
qed (auto split: if_splits)

function (sequential) split_and :: "string \<Rightarrow> string list" where
  "split_and s =
     (case str_find '' AND '' s of
        None \<Rightarrow> if s = [] then [] else [s]
      | Some pos \<Rightarrow> take pos s # split_and (drop (pos + 5) s))"
  by pat_completeness auto
termination
  by (relation "measure length") (auto dest!: str_find_le)

declare split_and.simps [simp del]

section \<open>The regular expressions\<close>

definition is_word :: "char \<Rightarrow> bool" where  \<comment> \<open>\<open>\w\<close>\<close>
  "is_word c \<longleftrightarrow>
     (let n = of_char c :: nat
      in 48 \<le> n \<and> n \<le> 57 \<or> 65 \<le> n \<and> n \<le> 90 \<or> 97 \<le> n \<and> n \<le> 122 \<or> n = 95)"

definition is_space :: "char \<Rightarrow> bool" where  \<comment> \<open>\<open>\s\<close>\<close>
  "is_space c \<longleftrightarrow> (let n = of_char c :: nat in n = 32 \<or> 9 \<le> n \<and> n \<le> 13)"

text \<open>\<open>(\w+)\.\<close> at the start of a string: the rest after the dot.\<close>

definition word_dot :: "string \<Rightarrow> string option" where
  "word_dot s =
     (case dropWhile is_word s of
        [] \<Rightarrow> None
      | c # r \<Rightarrow> if takeWhile is_word s \<noteq> [] \<and> c = CHR ''.'' then Some r else None)"

text \<open>\<open>(\w+)\.(\w+)\s*=\s*(\w+)\.(\w+)\<close> at the start of a string, and anywhere in it.\<close>

definition join_at :: "string \<Rightarrow> bool" where
  "join_at s =
     (case word_dot s of None \<Rightarrow> False
      | Some r \<Rightarrow>
          takeWhile is_word r \<noteq> [] \<and>
          (case dropWhile is_space (dropWhile is_word r) of [] \<Rightarrow> False
           | c # r' \<Rightarrow>
               c = CHR ''='' \<and>
               (case word_dot (dropWhile is_space r') of None \<Rightarrow> False
                | Some r'' \<Rightarrow> takeWhile is_word r'' \<noteq> [])))"

fun join_search :: "string \<Rightarrow> bool" where
  "join_search [] = False"
| "join_search (c # cs) = (join_at (c # cs) \<or> join_search cs)"

text \<open>The optional group \<open>(?:\s[aA][sS]\s+(\w+))?\<close>: the alias and the rest.\<close>

fun alias_part :: "string \<Rightarrow> (string \<times> string) option" where
  "alias_part (s # a # b # t # r) =
     (if is_space s \<and> (a = CHR ''a'' \<or> a = CHR ''A'') \<and> (b = CHR ''s'' \<or> b = CHR ''S'') \<and> is_space t
      then let r' = dropWhile is_space r
           in if takeWhile is_word r' = [] then None
              else Some (takeWhile is_word r', dropWhile is_word r')
      else None)"
| "alias_part _ = None"

lemma alias_part_length: "alias_part s = Some (a, r) \<Longrightarrow> length r \<le> length s"
proof (induction s rule: alias_part.induct)
  case (1 s a b t r')
  have "length (dropWhile is_word (dropWhile is_space r')) \<le> length r'"
    by (metis length_dropWhile_le le_trans)
  then show ?case using 1 by (auto simp: Let_def split: if_splits)
qed auto

text \<open>All matches of \<open>(\w+)(?:\s[aA][sS]\s+(\w+))?\<close>, as \<open>std::sregex_iterator\<close> yields them.\<close>

function (sequential) table_matches :: "string \<Rightarrow> (string \<times> string option) list" where
  "table_matches [] = []"
| "table_matches (c # cs) =
     (if is_word c then
        (case alias_part (dropWhile is_word cs) of
           Some (a, r) \<Rightarrow> (c # takeWhile is_word cs, Some a) # table_matches r
         | None \<Rightarrow> (c # takeWhile is_word cs, None) # table_matches (dropWhile is_word cs))
      else table_matches cs)"
  by pat_completeness auto
termination
proof (relation "measure length")
  fix c cs x a r
  assume "alias_part (dropWhile is_word cs) = Some x" "(a, r) = x"
  then have "length r \<le> length (dropWhile is_word cs)" by (auto dest: alias_part_length)
  also have "\<dots> \<le> length cs" by (rule length_dropWhile_le)
  finally show "(r, c # cs) \<in> measure length" by simp
qed (auto simp: length_dropWhile_le le_imp_less_Suc)

text \<open>\<open>regex_replace\<close> of \<open>" alias\.(\w+)"\<close> by \<open>" __table_name.$1"\<close>.\<close>

function (sequential) alias_replace :: "string \<Rightarrow> string \<Rightarrow> string" where
  "alias_replace table_alias [] = []"
| "alias_replace table_alias (c # cs) =
     (let key = '' '' @ table_alias @ ''.'';
          r = drop (length key) (c # cs)
      in if prefix key (c # cs) \<and> takeWhile is_word r \<noteq> []
         then '' __table_name.'' @ takeWhile is_word r @ alias_replace table_alias (dropWhile is_word r)
         else c # alias_replace table_alias cs)"
  by pat_completeness auto
termination
proof (relation "measure (\<lambda>(a, s). length s)")
  fix ta :: string and c cs and key r :: string
  assume "key = '' '' @ ta @ ''.''" "r = drop (length key) (c # cs)"
  then have "length r \<le> length cs" by simp
  then have "length (dropWhile is_word r) \<le> length cs" by (meson length_dropWhile_le le_trans)
  then show "((ta, dropWhile is_word r), ta, c # cs) \<in> measure (\<lambda>(a, s). length s)" by simp
qed auto

declare alias_replace.simps [simp del]

section \<open>\<open>ParsePredicate\<close>\<close>

text \<open>The inner loop of one table: its predicates, joined, and the marks of the used ones.\<close>

fun table_predicates :: "string \<Rightarrow> string list \<Rightarrow> bool list \<Rightarrow> string \<Rightarrow> bool \<Rightarrow> (bool list \<times> string) res" where
  "table_predicates table_alias (p # ps) (v # vs) conj_pred first =
     (let predicate = '' '' @ p
      in if str_find ('' '' @ table_alias @ ''.'') predicate \<noteq> None then
           if v then Inl (Runtime_error ''Duplicate table for predicate'')
           else
             res_map (\<lambda>(vs', c). (True # vs', c))
               (table_predicates table_alias ps vs
                 ((if first then conj_pred else conj_pred @ '' AND '') @
                    drop 1 (alias_replace table_alias predicate)) False)
         else res_map (\<lambda>(vs', c). (v # vs', c)) (table_predicates table_alias ps vs conj_pred first))"
| "table_predicates table_alias _ vs conj_pred first = Inr (vs, conj_pred)"

text \<open>The loop over the tables of the FROM clause, which fills \<open>filterString\<close>.\<close>

fun filter_loop :: "nat \<Rightarrow> string list \<Rightarrow> string list \<Rightarrow> bool list \<Rightarrow> (nat \<rightharpoonup> string, unit) sx" where
  "filter_loop i [] predicates visited = sx_ret ()"
| "filter_loop i (table_alias # as) predicates visited =
     sx_bind (sx_read (\<lambda>_. table_predicates table_alias predicates visited '''' True)) (\<lambda>(visited', conj_pred).
     sx_bind (sx_mod (\<lambda>m. m(i \<mapsto> conj_pred))) (\<lambda>_.
       filter_loop (Suc i) as predicates visited'))"

fun table_aliases :: "(string \<times> string option) list \<Rightarrow> string list res" where
  "table_aliases [] = Inr []"
| "table_aliases ((t, None) # ms) = Inl (Runtime_error ''Table alias is required in FROM clause'')"
| "table_aliases ((t, Some a) # ms) = res_map (Cons a) (table_aliases ms)"

text \<open>
  The clauses. \<open>substr(from_pos + 4, where_pos - from_pos - 4)\<close> computes its length in
  \<open>size_t\<close>: when WHERE stands before FROM the length wraps and the rest of the statement is
  taken. \<open>substr(where_pos + 6)\<close> throws when WHERE ends the statement.
\<close>

definition sql_from_clause :: "string \<Rightarrow> nat \<Rightarrow> nat \<Rightarrow> string" where
  "sql_from_clause sql from_pos where_pos =
     (if from_pos + 4 \<le> where_pos
      then take (where_pos - from_pos - 4) (drop (from_pos + 4) sql)
      else drop (from_pos + 4) sql)"

definition sql_where_clause :: "string \<Rightarrow> nat \<Rightarrow> string res" where
  "sql_where_clause sql where_pos =
     (if where_pos + 6 > length sql then Inl Out_of_range
      else
        let w = drop (where_pos + 6) sql
        in if w = [] then Inl (Undefined ''*--where_clause.end()'')
           else Inr (if last w = CHR '';'' then butlast w else w))"

definition parse_predicate :: "string \<Rightarrow> (nat \<rightharpoonup> string, unit) sx" where
  "parse_predicate sql =
     sx_bind (sx_mod (\<lambda>_. Map.empty)) (\<lambda>_.
       case str_find ''WHERE'' sql of
         None \<Rightarrow> sx_ret ()
       | Some where_pos \<Rightarrow>
           (case str_find ''FROM'' sql of
              None \<Rightarrow> sx_throw (Runtime_error ''Invalid SQL: no FROM clause found'')
            | Some from_pos \<Rightarrow>
                sx_bind (sx_read (\<lambda>_. sql_where_clause sql where_pos)) (\<lambda>where_clause.
                  let predicates = filter (\<lambda>p. \<not> join_search p) (split_and where_clause)
                  in sx_bind (sx_read (\<lambda>_. table_aliases (table_matches (sql_from_clause sql from_pos where_pos))))
                       (\<lambda>as. filter_loop 0 as predicates (replicate (length predicates) False)))))"

end
