(* ===== verification/DegreeSeq.thy ===== *)
theory DegreeSeq
  imports Prelude
begin

text \<open>
  Class \<open>DegreeSequence\<close> of \<^verbatim>\<open>duckdb/src/include/duckdb/starce/statistic.hpp\<close>: the
  compressed degree sequence of a join column. The three vectors of the class are three
  lists of the record. A \<open>double\<close> is a real number (rounding is not modelled), an
  \<open>int64_t\<close> count is an \<open>int\<close> (counts are at most the number of rows of a table).

  A degree goes to the bucket \<open>\<lceil>log\<^sub>p degree\<rceil>\<close>; a bucket keeps the largest degree, the
  number of keys and, during collection only, the sum of the degrees. After
  \<open>FinishCollection\<close> the buckets stand in descending order and a bucket stands for
  \<open>count\<close> keys of degree \<open>maxDegree\<close>.
\<close>

section \<open>The class\<close>

record DegreeSequence =
  ds_maxDegree :: "real list"
  ds_count :: "int list"
  ds_sum :: "real list"

definition empty_DS :: DegreeSequence where
  "empty_DS = \<lparr>ds_maxDegree = [], ds_count = [], ds_sum = []\<rparr>"

text \<open>The bucket of a degree: \<open>ceil(log(degree) / log(precision))\<close>, 0 for degrees up to 1.\<close>

definition bucket_pos :: "real \<Rightarrow> real \<Rightarrow> nat" where
  "bucket_pos degree precision =
     (if degree > 1 then
        if precision \<le> 1 then 0 else nat \<lceil>ln degree / ln precision\<rceil>
      else 0)"

definition AddDegree :: "real \<Rightarrow> int \<Rightarrow> real \<Rightarrow> DegreeSequence \<Rightarrow> DegreeSequence" where
  "AddDegree degree cnt precision ds =
     (let pos = bucket_pos degree precision;
          ds1 = (if pos \<ge> length (ds_maxDegree ds)
                 then \<lparr>ds_maxDegree = resize (pos + 1) 0 (ds_maxDegree ds),
                       ds_count = resize (pos + 1) 0 (ds_count ds),
                       ds_sum = resize (pos + 1) 0 (ds_sum ds)\<rparr>
                 else ds)
      in \<lparr>ds_maxDegree = (ds_maxDegree ds1)[pos := max (ds_maxDegree ds1 ! pos) degree],
          ds_count = (ds_count ds1)[pos := ds_count ds1 ! pos + cnt],
          ds_sum = (ds_sum ds1)[pos := ds_sum ds1 ! pos + degree * of_int cnt]\<rparr>)"

definition adjust_count :: "real \<Rightarrow> real \<Rightarrow> int \<Rightarrow> int" where
  "adjust_count s m c =
     (let adjusted = \<lceil>s / m\<rceil> in if adjusted < c then adjusted else c)"

text \<open>
  Reverse the three vectors, erase the positions with a zero count or a zero degree, tighten
  the counts with the sums, and clear the sums.
\<close>

definition FinishCollection :: "DegreeSequence \<Rightarrow> DegreeSequence" where
  "FinishCollection ds =
     (let bs = filter (\<lambda>(m, c, s). \<not> (c = 0 \<or> m = 0))
                 (zip (rev (ds_maxDegree ds)) (zip (rev (ds_count ds)) (rev (ds_sum ds))))
      in \<lparr>ds_maxDegree = map (\<lambda>(m, c, s). m) bs,
          ds_count = map (\<lambda>(m, c, s). adjust_count s m c) bs,
          ds_sum = []\<rparr>)"

text \<open>The buckets as the code reads them: position \<open>i\<close> of \<open>count\<close> and \<open>maxDegree\<close>.\<close>

definition buckets :: "DegreeSequence \<Rightarrow> (int \<times> real) list" where
  "buckets ds = zip (ds_count ds) (ds_maxDegree ds)"

text \<open>
  The loop that \<open>DegreeSequence::dot\<close> and \<open>DSStatistic::Merge\<close> share: two cursors over
  bucket lists, each fetching its next bucket when its current count is used up, and a
  body run on the aligned count and the two degrees.
\<close>

fun fetch :: "(int \<times> real) list \<Rightarrow> int \<Rightarrow> real \<Rightarrow> ((int \<times> real) list \<times> int \<times> real) option" where
  "fetch xs cnt degree =
     (if cnt = 0
      then (case xs of [] \<Rightarrow> None | (c, d) # xs' \<Rightarrow> Some (xs', c, d))
      else Some (xs, cnt, degree))"

function pair_loop ::
  "(int \<Rightarrow> real \<Rightarrow> real \<Rightarrow> 's \<Rightarrow> 's) \<Rightarrow> (int \<times> real) list \<Rightarrow> int \<Rightarrow> real \<Rightarrow>
   (int \<times> real) list \<Rightarrow> int \<Rightarrow> real \<Rightarrow> 's \<Rightarrow> 's" where
  "pair_loop body xs count1 degree1 ys count2 degree2 st =
     (case fetch xs count1 degree1 of None \<Rightarrow> st
      | Some (xs', c1, d1) \<Rightarrow>
        (case fetch ys count2 degree2 of None \<Rightarrow> st
         | Some (ys', c2, d2) \<Rightarrow>
           pair_loop body xs' (c1 - min c1 c2) d1 ys' (c2 - min c1 c2) d2
             (body (min c1 c2) d1 d2 st)))"
  by pat_completeness auto
termination
  by (relation "measure (\<lambda>(b, xs, c1, d1, ys, c2, d2, s).
        length xs + length ys + (if c1 \<noteq> 0 \<and> c2 \<noteq> 0 then 1 else 0))")
     (auto split: if_splits list.splits)

declare pair_loop.simps [simp del]

definition dot :: "DegreeSequence \<Rightarrow> DegreeSequence \<Rightarrow> real \<Rightarrow> DegreeSequence" where
  "dot ds other precision =
     FinishCollection
       (pair_loop (\<lambda>c d1 d2 result. AddDegree (d1 * d2) c precision result)
          (buckets ds) 0 0 (buckets other) 0 0 empty_DS)"

fun AverageWithTruncation_loop ::
  "real \<Rightarrow> int \<Rightarrow> real \<Rightarrow> real \<Rightarrow> (int \<times> real) list \<Rightarrow> int \<Rightarrow> DegreeSequence \<Rightarrow> DegreeSequence" where
  "AverageWithTruncation_loop filter_coeff filtered_card k precision [] pos result = result"
| "AverageWithTruncation_loop filter_coeff filtered_card k precision ((c, d) # bs) pos result =
     (let overlap = (if pos < filtered_card then min c (filtered_card - pos) else 0);
          result1 = (if pos < filtered_card
                     then AddDegree (d * (filter_coeff * k + (1 - k))) overlap precision result
                     else result);
          tail = c - overlap;
          result2 = (if tail > 0 then AddDegree (d * filter_coeff * k) tail precision result1
                     else result1)
      in AverageWithTruncation_loop filter_coeff filtered_card k precision bs (pos + c) result2)"

definition AverageWithTruncation :: "DegreeSequence \<Rightarrow> real \<Rightarrow> int \<Rightarrow> real \<Rightarrow> real \<Rightarrow> DegreeSequence" where
  "AverageWithTruncation ds filter_coeff filtered_card k precision =
     FinishCollection
       (AverageWithTruncation_loop filter_coeff filtered_card k precision (buckets ds) 0 empty_DS)"

fun bucket_sum :: "(int \<times> real) list \<Rightarrow> real" where
  "bucket_sum [] = 0"
| "bucket_sum ((c, d) # bs) = of_int c * d + bucket_sum bs"

definition GetCard :: "DegreeSequence \<Rightarrow> real" where
  "GetCard ds = bucket_sum (buckets ds)"

definition GetNDV :: "DegreeSequence \<Rightarrow> int" where
  "GetNDV ds = sum_list (ds_count ds)"

section \<open>Well-formedness\<close>

text \<open>
  During collection the three vectors have one length, so every index of \<open>AddDegree\<close> is
  in range; after collection the first two do.
\<close>

definition ds_collecting :: "DegreeSequence \<Rightarrow> bool" where
  "ds_collecting ds \<longleftrightarrow>
     length (ds_count ds) = length (ds_maxDegree ds) \<and>
     length (ds_sum ds) = length (ds_maxDegree ds)"

definition ds_wf :: "DegreeSequence \<Rightarrow> bool" where
  "ds_wf ds \<longleftrightarrow> length (ds_count ds) = length (ds_maxDegree ds)"

lemma empty_DS_collecting [simp]: "ds_collecting empty_DS"
  by (simp add: ds_collecting_def empty_DS_def)

lemma AddDegree_collecting [simp]:
  "ds_collecting ds \<Longrightarrow> ds_collecting (AddDegree d c p ds)"
  by (simp add: AddDegree_def ds_collecting_def Let_def)

lemma FinishCollection_wf [simp]: "ds_wf (FinishCollection ds)"
  by (simp add: ds_wf_def FinishCollection_def Let_def)

lemma dot_wf [simp]: "ds_wf (dot a b p)"
  by (simp add: dot_def)

section \<open>The alignment of two bucket lists\<close>

text \<open>The counts and degrees on which the shared loop runs its body, in order.\<close>

definition align :: "(int \<times> real) list \<Rightarrow> int \<Rightarrow> real \<Rightarrow> (int \<times> real) list \<Rightarrow> int \<Rightarrow> real \<Rightarrow>
    (int \<times> real \<times> real) list" where
  "align xs c1 d1 ys c2 d2 =
     pair_loop (\<lambda>c d1 d2 l. l @ [(c, d1, d2)]) xs c1 d1 ys c2 d2 []"

lemma pair_loop_None1: "fetch xs c1 d1 = None \<Longrightarrow> pair_loop body xs c1 d1 ys c2 d2 st = st"
  by (subst pair_loop.simps) (simp del: fetch.simps)

lemma pair_loop_None2: "fetch ys c2 d2 = None \<Longrightarrow> pair_loop body xs c1 d1 ys c2 d2 st = st"
  by (subst pair_loop.simps) (simp del: fetch.simps split: option.split)

lemma pair_loop_Some:
  "fetch xs c1 d1 = Some (xs', e1, f1) \<Longrightarrow> fetch ys c2 d2 = Some (ys', e2, f2) \<Longrightarrow>
   pair_loop body xs c1 d1 ys c2 d2 st =
     pair_loop body xs' (e1 - min e1 e2) f1 ys' (e2 - min e1 e2) f2 (body (min e1 e2) f1 f2 st)"
  by (subst pair_loop.simps) (simp del: fetch.simps)

lemma pair_loop_induct [case_names stop1 stop2 step]:
  fixes P :: "(int \<times> real) list \<Rightarrow> int \<Rightarrow> real \<Rightarrow> (int \<times> real) list \<Rightarrow> int \<Rightarrow> real \<Rightarrow> bool"
  assumes "\<And>xs c1 d1 ys c2 d2. fetch xs c1 d1 = None \<Longrightarrow> P xs c1 d1 ys c2 d2"
    and "\<And>xs c1 d1 ys c2 d2. fetch ys c2 d2 = None \<Longrightarrow> P xs c1 d1 ys c2 d2"
    and "\<And>xs c1 d1 ys c2 d2 xs' e1 f1 ys' e2 f2.
      fetch xs c1 d1 = Some (xs', e1, f1) \<Longrightarrow> fetch ys c2 d2 = Some (ys', e2, f2) \<Longrightarrow>
      P xs' (e1 - min e1 e2) f1 ys' (e2 - min e1 e2) f2 \<Longrightarrow> P xs c1 d1 ys c2 d2"
  shows "P xs c1 d1 ys c2 d2"
proof (induction "\<lambda>(c::int) (d1::real) (d2::real) s. s :: unit" xs c1 d1 ys c2 d2 "()"
    rule: pair_loop.induct)
  case (1 xs c1 d1 ys c2 d2)
  show ?case
  proof (cases "fetch xs c1 d1")
    case None
    then show ?thesis by (rule assms(1))
  next
    case (Some t1)
    obtain xs' e1 f1 where t1: "t1 = (xs', e1, f1)" by (cases t1)
    show ?thesis
    proof (cases "fetch ys c2 d2")
      case None
      then show ?thesis by (rule assms(2))
    next
      case (Some t2)
      obtain ys' e2 f2 where t2: "t2 = (ys', e2, f2)" by (cases t2)
      show ?thesis
        using "1" [OF \<open>fetch xs c1 d1 = Some t1\<close> t1 [symmetric] refl Some t2 [symmetric] refl] assms(3)
          \<open>fetch xs c1 d1 = Some t1\<close> Some t1 t2 by auto
    qed
  qed
qed

lemma pair_loop_append:
  "pair_loop (\<lambda>c d1 d2 l. l @ [(c, d1, d2)]) xs c1 d1 ys c2 d2 (l0 @ l) =
   l0 @ pair_loop (\<lambda>c d1 d2 l. l @ [(c, d1, d2)]) xs c1 d1 ys c2 d2 l"
proof (induction xs c1 d1 ys c2 d2 arbitrary: l rule: pair_loop_induct)
  case (step xs c1 d1 ys c2 d2 xs' e1 f1 ys' e2 f2)
  then show ?case by (simp add: pair_loop_Some)
qed (simp_all add: pair_loop_None1 pair_loop_None2)

lemma align_simps:
  "fetch xs c1 d1 = None \<Longrightarrow> align xs c1 d1 ys c2 d2 = []"
  "fetch ys c2 d2 = None \<Longrightarrow> align xs c1 d1 ys c2 d2 = []"
  "fetch xs c1 d1 = Some (xs', e1, f1) \<Longrightarrow> fetch ys c2 d2 = Some (ys', e2, f2) \<Longrightarrow>
   align xs c1 d1 ys c2 d2 =
     (min e1 e2, f1, f2) # align xs' (e1 - min e1 e2) f1 ys' (e2 - min e1 e2) f2"
  using pair_loop_append [of xs' "e1 - min e1 e2" f1 ys' "e2 - min e1 e2" f2 "[(min e1 e2, f1, f2)]" "[]"]
  by (simp_all add: align_def pair_loop_None1 pair_loop_None2 pair_loop_Some)

lemma pair_loop_fold:
  "pair_loop body xs c1 d1 ys c2 d2 st =
     fold (\<lambda>(c, d1, d2). body c d1 d2) (align xs c1 d1 ys c2 d2) st"
proof (induction xs c1 d1 ys c2 d2 arbitrary: st rule: pair_loop_induct)
  case (step xs c1 d1 ys c2 d2 xs' e1 f1 ys' e2 f2)
  then show ?case by (simp add: pair_loop_Some align_simps)
qed (simp_all add: pair_loop_None1 pair_loop_None2 align_simps)

section \<open>Evaluating the bucket of a degree\<close>

text \<open>The bucket as the least exponent whose power reaches the degree, which evaluates.\<close>

lemma power_reaches_iff:
  fixes d p :: real
  assumes "1 < p" "0 < d"
  shows "d \<le> p ^ n \<longleftrightarrow> nat \<lceil>ln d / ln p\<rceil> \<le> n"
proof -
  have "0 < p ^ n" using assms(1) by simp
  then have "d \<le> p ^ n \<longleftrightarrow> ln d \<le> ln (p ^ n)" using assms(2) by simp
  also have "\<dots> \<longleftrightarrow> ln d / ln p \<le> of_nat n"
    using assms by (simp add: ln_realpow divide_le_eq mult.commute)
  also have "\<dots> \<longleftrightarrow> nat \<lceil>ln d / ln p\<rceil> \<le> n"
    by (simp add: ceiling_le_iff nat_le_iff)
  finally show ?thesis .
qed

function bucket_search :: "real \<Rightarrow> real \<Rightarrow> nat \<Rightarrow> nat" where
  "bucket_search d p n = (if p \<le> 1 \<or> d \<le> p ^ n then n else bucket_search d p (Suc n))"
  by pat_completeness auto
termination
proof (relation "measure (\<lambda>(d, p, n). nat \<lceil>ln d / ln p\<rceil> - n)")
  fix d p :: real and n
  assume a: "\<not> (p \<le> 1 \<or> d \<le> p ^ n)"
  moreover have "0 < d" using a zero_less_power [of p n] by linarith
  ultimately have "\<not> nat \<lceil>ln d / ln p\<rceil> \<le> n" using power_reaches_iff [of p d n] by (meson not_le)
  then have "nat \<lceil>ln d / ln p\<rceil> - Suc n < nat \<lceil>ln d / ln p\<rceil> - n" by (metis diff_less_mono2 lessI not_le)
  then show "((d, p, Suc n), d, p, n) \<in> measure (\<lambda>(d, p, n). nat \<lceil>ln d / ln p\<rceil> - n)" by simp
qed simp

declare bucket_search.simps [simp del]

lemma bucket_search_eq:
  "1 < p \<Longrightarrow> 0 < d \<Longrightarrow> n \<le> nat \<lceil>ln d / ln p\<rceil> \<Longrightarrow> bucket_search d p n = nat \<lceil>ln d / ln p\<rceil>"
proof (induction d p n rule: bucket_search.induct)
  case (1 d p n)
  define b where "b = nat \<lceil>ln d / ln p\<rceil>"
  have r: "d \<le> p ^ n \<longleftrightarrow> b \<le> n" unfolding b_def using 1 by (intro power_reaches_iff)
  have IH: "\<not> (p \<le> 1 \<or> d \<le> p ^ n) \<Longrightarrow> Suc n \<le> b \<Longrightarrow> bucket_search d p (Suc n) = b" and "n \<le> b"
    using 1 unfolding b_def by blast+
  then have "bucket_search d p n = b"
    using r "1.prems"(1) by (subst bucket_search.simps) auto
  then show ?case by (simp add: b_def)
qed

declare bucket_pos_def [code del]

lemma bucket_pos_code [code]:
  "bucket_pos degree precision =
     (if degree > 1 then if precision \<le> 1 then 0 else bucket_search degree precision 0 else 0)"
  by (simp add: bucket_pos_def bucket_search_eq)

end
