(* ===== verification/DSStat.thy ===== *)
theory DSStat
  imports DegreeSeq
begin

text \<open>
  Class \<open>DSStatistic\<close> of \<^verbatim>\<open>duckdb/src/include/duckdb/starce/statistic.hpp\<close>: the star
  degree summary of an equal set. \<open>std::map<Table, DegreeSequence>\<close> is a partial map; the
  code iterates over it through the vector \<open>tables\<close>. An operation that can throw
  (\<open>map::at\<close>), overflow an \<open>int64_t\<close> or read a vector out of range returns a result.
\<close>

type_synonym Table = string

record DSStatistic =
  st_card :: real
  st_precision :: real
  st_centralDs :: DegreeSequence
  st_ds :: "Table \<Rightarrow> DegreeSequence option"
  st_tables :: "Table list"

section \<open>Constructors\<close>

definition DSStatistic_tables :: "Table list \<Rightarrow> real \<Rightarrow> DSStatistic" where
  "DSStatistic_tables ts precision =
     \<lparr>st_card = 0, st_precision = precision, st_centralDs = empty_DS,
      st_ds = fold (\<lambda>t m. m(t \<mapsto> empty_DS)) ts Map.empty, st_tables = ts\<rparr>"

definition trunc :: "real \<Rightarrow> int" where  \<comment> \<open>conversion of a \<open>double\<close> to \<open>int64_t\<close>\<close>
  "trunc x = (if 0 \<le> x then \<lfloor>x\<rfloor> else \<lceil>x\<rceil>)"

definition DSStatistic_single :: "Table \<Rightarrow> real \<Rightarrow> real \<Rightarrow> DSStatistic" where
  "DSStatistic_single table crd precision =
     \<lparr>st_card = crd, st_precision = precision, st_centralDs = empty_DS,
      st_ds = [table \<mapsto> AddDegree 1 (trunc crd) precision empty_DS], st_tables = [table]\<rparr>"

text \<open>
  The renaming constructor: the tables become the decimal strings of their relation
  indices. \<open>centralDs\<close> stays default-constructed, as in the code. \<open>to_string\<close> is
  \<open>std::to_string\<close>.
\<close>

fun digits_of :: "nat \<Rightarrow> string" where
  "digits_of n = (if n < 10 then [char_of (48 + n)] else digits_of (n div 10) @ [char_of (48 + n mod 10)])"

declare digits_of.simps [simp del]

definition to_string :: "nat \<Rightarrow> string" where
  "to_string n = digits_of n"

definition DSStatistic_rename :: "DSStatistic \<Rightarrow> (Table \<Rightarrow> nat option) \<Rightarrow> DSStatistic res" where
  "DSStatistic_rename other tableIdx =
     res_fold (\<lambda>table s.
         res_bind (map_at tableIdx table) (\<lambda>i.
         res_bind (map_at (st_ds other) table) (\<lambda>d.
           Inr (s\<lparr>st_ds := (st_ds s)(to_string i \<mapsto> d),
                  st_tables := st_tables s @ [to_string i]\<rparr>))))
       (st_tables other)
       \<lparr>st_card = st_card other, st_precision = st_precision other, st_centralDs = empty_DS,
        st_ds = Map.empty, st_tables = []\<rparr>"

section \<open>Collection\<close>

definition int64 :: "int \<Rightarrow> bool" where
  "int64 x \<longleftrightarrow> - (2 ^ 63) \<le> x \<and> x < 2 ^ 63"

text \<open>\<open>ds[table]\<close>: the entry, default-constructed when missing.\<close>

definition ds_at :: "DSStatistic \<Rightarrow> Table \<Rightarrow> DegreeSequence" where
  "ds_at s t = (case st_ds s t of None \<Rightarrow> empty_DS | Some d \<Rightarrow> d)"

definition upd_ds :: "Table \<Rightarrow> (DegreeSequence \<Rightarrow> DegreeSequence) \<Rightarrow> DSStatistic \<Rightarrow> DSStatistic" where
  "upd_ds t f s = s\<lparr>st_ds := (st_ds s)(t \<mapsto> f (ds_at s t))\<rparr>"

text \<open>The product of the counts; \<open>None\<close> is the early return for a missing or zero count.\<close>

fun count_product :: "(Table \<Rightarrow> int option) \<Rightarrow> Table list \<Rightarrow> int \<Rightarrow> int option res" where
  "count_product cnt [] product = Inr (Some product)"
| "count_product cnt (t # ts) product =
     (case cnt t of None \<Rightarrow> Inr None
      | Some c \<Rightarrow>
          if c = 0 then Inr None
          else if int64 (product * c) then count_product cnt ts (product * c)
          else Inl (Undefined ''int64 overflow''))"

definition stat_AddDegree :: "(Table \<Rightarrow> int option) \<Rightarrow> int \<Rightarrow> DSStatistic \<Rightarrow> DSStatistic res" where
  "stat_AddDegree cnt count_count s =
     res_bind (count_product cnt (st_tables s) 1) (\<lambda>prod_opt.
       case prod_opt of None \<Rightarrow> Inr s
       | Some product \<Rightarrow>
           if product = 0 then Inr s
           else
             let s1 = fold (\<lambda>t. upd_ds t (AddDegree (of_int product / of_int (the (cnt t)))
                                   (the (cnt t) * count_count) (st_precision s)))
                        (st_tables s) s
             in Inr (s1\<lparr>st_centralDs := AddDegree (of_int product) count_count (st_precision s)
                           (st_centralDs s1),
                        st_card := st_card s1 + of_int product * of_int count_count\<rparr>))"

text \<open>
  \<open>LimitDsToCard\<close>: cut the sequence where its running sum passes \<open>card\<close>. The function
  walks the buckets with the running sum and returns the buckets that remain.
\<close>

fun limit_buckets :: "real \<Rightarrow> real \<Rightarrow> (int \<times> real) list \<Rightarrow> (int \<times> real) list" where
  "limit_buckets crd s [] = []"
| "limit_buckets crd s ((c, d) # bs) =
     (if s + of_int c * d \<le> crd then (c, d) # limit_buckets crd (s + of_int c * d) bs
      else if crd - s \<le> 1 / 10 ^ 6 then []
      else if crd - s < d then [(1, crd - s)]
      else
        let c' = \<lfloor>(crd - s) / d\<rfloor>; newDegree = crd - s - of_int c' * d
        in if newDegree \<le> 1 / 10 ^ 6 then [(c', d)] else [(c', d), (1, newDegree)])"

definition LimitDsToCard :: "real \<Rightarrow> DegreeSequence \<Rightarrow> DegreeSequence" where
  "LimitDsToCard crd ds =
     ds\<lparr>ds_count := map fst (limit_buckets crd 0 (buckets ds)),
        ds_maxDegree := map snd (limit_buckets crd 0 (buckets ds))\<rparr>"

definition LimitAllDsToCard :: "DSStatistic \<Rightarrow> DSStatistic" where
  "LimitAllDsToCard s = fold (\<lambda>t s. upd_ds t (LimitDsToCard (st_card s)) s) (st_tables s) s"

text \<open>
  \<open>FinishCollection\<close> of the statistic. A sequence whose \<open>sum\<close> vector is shorter than its
  \<open>count\<close> vector (one that was finished before) would be read out of range.
\<close>

definition stat_FinishCollection :: "DSStatistic \<Rightarrow> DSStatistic res" where
  "stat_FinishCollection s =
     res_bind
       (res_fold (\<lambda>t s. if ds_collecting (ds_at s t) then Inr (upd_ds t FinishCollection s)
                        else Inl (Undefined ''sum[i]''))
          (st_tables s) s) (\<lambda>s1.
     if \<not> ds_collecting (st_centralDs s1) then Inl (Undefined ''sum[i]'')
     else
       let s2 = LimitAllDsToCard (s1\<lparr>st_centralDs := FinishCollection (st_centralDs s1)\<rparr>)
       in Inr (s2\<lparr>st_centralDs := LimitDsToCard (st_card s2) (st_centralDs s2)\<rparr>))"

section \<open>Merging two statistics over a shared table\<close>

text \<open>The per-edge cursors of \<open>Merge\<close>: one entry of each of the four vectors.\<close>

record edge =
  e_pos :: nat
  e_curDegree :: real
  e_remainRow :: real
  e_remainCount :: int

definition edge_init :: edge where
  "edge_init = \<lparr>e_pos = 0, e_curDegree = 0, e_remainRow = 0, e_remainCount = 0\<rparr>"

text \<open>
  One iteration of the bucket loop of \<open>MergeEdgeDegreeSequences\<close>: either the loop goes on
  with \<open>pos++\<close> (normal end or \<open>continue\<close>), or it breaks, possibly after a \<open>pos++\<close> of its own.
\<close>

datatype edge_outcome =
    Next real edge DegreeSequence
  | Break edge DegreeSequence

definition edge_fresh :: "real \<Rightarrow> real \<Rightarrow> real \<Rightarrow> int \<Rightarrow> real \<Rightarrow> edge \<Rightarrow> DegreeSequence \<Rightarrow> edge_outcome" where
  "edge_fresh precision degree rownum cnt maxd e newDs =
     (if rownum \<ge> of_int cnt * maxd
      then Next (rownum - of_int cnt * maxd) e (AddDegree (maxd * degree) cnt precision newDs)
      else
        let usedCount = \<lfloor>rownum / maxd\<rfloor>;
            usedRow = rownum - of_int usedCount * maxd;
            newDs1 = (if usedCount > 0 then AddDegree (maxd * degree) usedCount precision newDs else newDs);
            e1 = e\<lparr>e_remainCount := cnt - usedCount\<rparr>
        in Break (if usedRow > 1 / 10 ^ 6
                  then e1\<lparr>e_remainCount := e_remainCount e1 - 1,
                          e_remainRow := maxd - usedRow,
                          e_curDegree := e_curDegree e1 + usedRow * degree\<rparr>
                  else e1) newDs1)"

definition edge_counts :: "real \<Rightarrow> real \<Rightarrow> real \<Rightarrow> int \<Rightarrow> real \<Rightarrow> edge \<Rightarrow> DegreeSequence \<Rightarrow> edge_outcome" where
  "edge_counts precision degree rownum cnt maxd e newDs =
     (if e_remainCount e > 0 then
        if rownum > of_int (e_remainCount e) * maxd
        then Next (rownum - of_int (e_remainCount e) * maxd) (e\<lparr>e_remainCount := 0\<rparr>)
               (AddDegree (maxd * degree) (e_remainCount e) precision newDs)
        else
          let usedCount = \<lfloor>rownum / maxd\<rfloor>;
              usedRow = rownum - of_int usedCount * maxd;
              e1 = e\<lparr>e_remainCount := e_remainCount e - usedCount\<rparr>;
              newDs1 = (if usedCount > 0 then AddDegree (maxd * degree) usedCount precision newDs else newDs);
              e2 = (if usedRow > 1 / 10 ^ 6
                    then e1\<lparr>e_remainCount := e_remainCount e1 - 1,
                            e_remainRow := maxd - usedRow,
                            e_curDegree := e_curDegree e1 + usedRow * degree\<rparr>
                    else e1)
          in Break (if e_remainCount e2 = 0 \<and> e_remainRow e2 = 0
                    then e2\<lparr>e_pos := e_pos e2 + 1\<rparr> else e2) newDs1
      else edge_fresh precision degree rownum cnt maxd e newDs)"

definition edge_step :: "real \<Rightarrow> real \<Rightarrow> real \<Rightarrow> int \<Rightarrow> real \<Rightarrow> edge \<Rightarrow> DegreeSequence \<Rightarrow> edge_outcome" where
  "edge_step precision degree rownum cnt maxd e newDs =
     (if e_remainRow e > 0 then
        if rownum > e_remainRow e then
          let rownum1 = rownum - e_remainRow e;
              newDs1 = AddDegree (e_curDegree e + e_remainRow e * degree) 1 precision newDs;
              e1 = e\<lparr>e_remainRow := 0, e_curDegree := 0\<rparr>
          in if e_remainCount e = 0 then Next rownum1 e1 newDs1
             else edge_counts precision degree rownum1 cnt maxd e1 newDs1
        else
          let e1 = e\<lparr>e_remainRow := e_remainRow e - rownum,
                     e_curDegree := e_curDegree e + rownum * degree\<rparr>
          in if e_remainRow e1 = 0 then
               Break (if e_remainCount e1 = 0
                      then e1\<lparr>e_curDegree := 0, e_pos := e_pos e1 + 1\<rparr>
                      else e1\<lparr>e_curDegree := 0\<rparr>)
                 (AddDegree (e_curDegree e1) 1 precision newDs)
             else Break e1 newDs
      else edge_counts precision degree rownum cnt maxd e newDs)"

text \<open>The bucket loop; \<open>bs\<close> are the buckets of \<open>oldDs\<close> from \<open>e_pos e\<close> on.\<close>

fun edge_loop :: "real \<Rightarrow> real \<Rightarrow> real \<Rightarrow> (int \<times> real) list \<Rightarrow> edge \<Rightarrow> DegreeSequence \<Rightarrow> edge \<times> DegreeSequence" where
  "edge_loop precision degree rownum [] e newDs = (e, newDs)"
| "edge_loop precision degree rownum ((cnt, maxd) # bs) e newDs =
     (case edge_step precision degree rownum cnt maxd e newDs of
        Next rownum' e' newDs' \<Rightarrow>
          edge_loop precision degree rownum' bs (e'\<lparr>e_pos := e_pos e' + 1\<rparr>) newDs'
      | Break e' newDs' \<Rightarrow> (e', newDs'))"

text \<open>The loop over the tables other than the merge table, with one cursor per table.\<close>

fun MergeEdge_loop :: "real \<Rightarrow> real \<Rightarrow> DSStatistic \<Rightarrow> Table list \<Rightarrow> edge list \<Rightarrow> DSStatistic \<Rightarrow>
    (edge list \<times> DSStatistic) res" where
  "MergeEdge_loop selfRowNum degree oldStat [] es newStat = Inr (es, newStat)"
| "MergeEdge_loop selfRowNum degree oldStat (t # ts) [] newStat = Inl (Undefined ''positions[i]'')"
| "MergeEdge_loop selfRowNum degree oldStat (t # ts) (e # es) newStat =
     res_bind (map_at (st_ds oldStat) t) (\<lambda>oldDs.
       let (e', newDs) = edge_loop (st_precision newStat) degree selfRowNum
                           (drop (e_pos e) (buckets oldDs)) e (ds_at newStat t)
       in res_map (\<lambda>(es', s). (e' # es', s))
            (MergeEdge_loop selfRowNum degree oldStat ts es (upd_ds t (\<lambda>_. newDs) newStat)))"

definition MergeEdgeDegreeSequences ::
  "DSStatistic \<Rightarrow> Table \<Rightarrow> real \<Rightarrow> real \<Rightarrow> edge list \<Rightarrow> DSStatistic \<Rightarrow> (edge list \<times> DSStatistic) res" where
  "MergeEdgeDegreeSequences oldStat mergeTable selfRowNum degree es newStat =
     MergeEdge_loop selfRowNum degree oldStat
       (filter (\<lambda>t. t \<noteq> mergeTable) (st_tables oldStat)) es newStat"

fun AddCurDegree_loop :: "Table list \<Rightarrow> edge list \<Rightarrow> DSStatistic \<Rightarrow> DSStatistic res" where
  "AddCurDegree_loop [] es newStat = Inr newStat"
| "AddCurDegree_loop (t # ts) [] newStat = Inl (Undefined ''curDegrees[i]'')"
| "AddCurDegree_loop (t # ts) (e # es) newStat =
     AddCurDegree_loop ts es
       (upd_ds t (AddDegree (e_curDegree e) 1 (st_precision newStat)) newStat)"

definition AddCurDegree :: "DSStatistic \<Rightarrow> Table \<Rightarrow> edge list \<Rightarrow> DSStatistic \<Rightarrow> DSStatistic res" where
  "AddCurDegree oldStat mergeTable es newStat =
     AddCurDegree_loop (filter (\<lambda>t. t \<noteq> mergeTable) (st_tables oldStat)) es newStat"

record merge_state =
  m_card :: real
  m_stat :: DSStatistic
  m_edges1 :: "edge list"
  m_edges2 :: "edge list"

definition Merge_body :: "DSStatistic \<Rightarrow> DSStatistic \<Rightarrow> Table \<Rightarrow> int \<Rightarrow> real \<Rightarrow> real \<Rightarrow>
    merge_state \<Rightarrow> merge_state res" where
  "Merge_body this other table cnt degree1 degree2 m =
     (let stat1 = upd_ds table (AddDegree (degree1 * degree2) cnt (st_precision (m_stat m))) (m_stat m)
      in res_bind (MergeEdgeDegreeSequences this table (degree1 * of_int cnt) degree2 (m_edges1 m) stat1)
           (\<lambda>(es1, stat2).
         res_bind (MergeEdgeDegreeSequences other table (degree2 * of_int cnt) degree1 (m_edges2 m) stat2)
           (\<lambda>(es2, stat3).
             Inr \<lparr>m_card = m_card m + of_int cnt * degree1 * degree2,
                  m_stat = stat3, m_edges1 = es1, m_edges2 = es2\<rparr>)))"

text \<open>The tables of the result: those of \<open>this\<close>, then the new ones of \<open>other\<close>.\<close>

definition merge_tables :: "Table list \<Rightarrow> Table list \<Rightarrow> Table list" where
  "merge_tables ts ts' = fold (\<lambda>t acc. if t \<in> set acc then acc else acc @ [t]) ts' ts"

definition Merge :: "DSStatistic \<Rightarrow> DSStatistic \<Rightarrow> Table \<Rightarrow> DSStatistic res" where
  "Merge this other table =
     (let newStat = DSStatistic_tables (merge_tables (st_tables this) (st_tables other)) (st_precision this);
          newStat = upd_ds table (\<lambda>d. d) newStat
      in res_bind (map_at (st_ds this) table) (\<lambda>ds1.
         res_bind (map_at (st_ds other) table) (\<lambda>ds2.
         if st_tables this = [] \<or> st_tables other = []
         then Inl (Runtime_error ''std::length_error'')
         else
         res_bind
           (pair_loop (\<lambda>c d1 d2 r. res_bind r (Merge_body this other table c d1 d2))
              (buckets ds1) 0 0 (buckets ds2) 0 0
              (Inr \<lparr>m_card = 0, m_stat = newStat,
                    m_edges1 = replicate (length (st_tables this) - 1) edge_init,
                    m_edges2 = replicate (length (st_tables other) - 1) edge_init\<rparr>)) (\<lambda>m.
         res_bind (AddCurDegree this table (m_edges1 m) (m_stat m)) (\<lambda>s1.
         res_bind (AddCurDegree other table (m_edges2 m) s1) (\<lambda>s2.
         res_bind (stat_FinishCollection (s2\<lparr>st_card := m_card m\<rparr>)) (\<lambda>s3.
           Inr (LimitAllDsToCard s3))))))))"

text \<open>\<open>MergeByCenter\<close> merges over a temporary table that carries the central sequences.\<close>

definition center_table :: Table where
  "center_table = ''__star_center''"

definition with_center :: "DSStatistic \<Rightarrow> DSStatistic" where
  "with_center s = s\<lparr>st_tables := st_tables s @ [center_table],
                     st_ds := (st_ds s)(center_table \<mapsto> st_centralDs s)\<rparr>"

definition MergeByCenter :: "DSStatistic \<Rightarrow> DSStatistic \<Rightarrow> DSStatistic res" where
  "MergeByCenter this other =
     res_bind (Merge (with_center this) (with_center other) center_table) (\<lambda>s.
       Inr (s\<lparr>st_tables := remove1 center_table (st_tables s),
              st_ds := (st_ds s)(center_table := None)\<rparr>))"

section \<open>Adjustments\<close>

definition adjust_ds :: "real \<Rightarrow> int \<Rightarrow> real \<Rightarrow> DegreeSequence \<Rightarrow> DegreeSequence" where
  "adjust_ds crd n k ds =
     (let avgDegree = crd / of_int n;
          zero_count = n - sum_list (take (length (ds_maxDegree ds)) (ds_count ds));
          ms = map (\<lambda>d. d * k + avgDegree * (1 - k)) (ds_maxDegree ds)
      in if zero_count > 0 \<and> avgDegree * (1 - k) > 0
         then ds\<lparr>ds_maxDegree := ms @ [avgDegree * (1 - k)], ds_count := ds_count ds @ [zero_count]\<rparr>
         else ds\<lparr>ds_maxDegree := ms\<rparr>)"

definition AdjustToAverage :: "(Table \<Rightarrow> int option) \<Rightarrow> real \<Rightarrow> DSStatistic \<Rightarrow> DSStatistic res" where
  "AdjustToAverage ndv k s =
     res_map LimitAllDsToCard
       (res_fold (\<lambda>t s. res_bind (map_at ndv t) (\<lambda>n.
            if n = 0 then Inl (Not_finite ''card / ndv'')
            else Inr (upd_ds t (adjust_ds (st_card s) n k) s)))
          (st_tables s) s)"

definition normalize_bucket :: "int \<times> real \<Rightarrow> int \<times> real" where
  "normalize_bucket b =
     (if snd b < 1 then (max 1 \<lceil>of_int (fst b) * snd b\<rceil>, 1) else b)"

definition map_buckets :: "(int \<times> real \<Rightarrow> int \<times> real) \<Rightarrow> DegreeSequence \<Rightarrow> DegreeSequence" where
  "map_buckets f ds =
     ds\<lparr>ds_count := map (\<lambda>b. fst (f b)) (buckets ds), ds_maxDegree := map (\<lambda>b. snd (f b)) (buckets ds)\<rparr>"

definition NormalizeSubOneDegrees :: "DSStatistic \<Rightarrow> DSStatistic" where
  "NormalizeSubOneDegrees s =
     (let s1 = fold (\<lambda>t. upd_ds t (map_buckets normalize_bucket)) (st_tables s) s
      in s1\<lparr>st_centralDs := map_buckets normalize_bucket (st_centralDs s1)\<rparr>)"

definition filter_bucket :: "real \<Rightarrow> int \<times> real \<Rightarrow> int \<times> real" where
  "filter_bucket coeff b =
     (let d = snd b * coeff
      in if d < 1 then ((let c = trunc (of_int (fst b) * d) in if c < 1 then 1 else c), 1)
         else (fst b, d))"

definition ApplyFilterCoefficient :: "real \<Rightarrow> DSStatistic \<Rightarrow> DSStatistic" where
  "ApplyFilterCoefficient coeff s =
     (let s1 = fold (\<lambda>t. upd_ds t (map_buckets (filter_bucket coeff))) (st_tables s) s;
          c = st_card s1 * coeff
      in s1\<lparr>st_card := (if c < 1 then 1 else c),
            st_centralDs := map_buckets (filter_bucket coeff) (st_centralDs s1)\<rparr>)"

end
