(* ===== verification/StatManager.thy ===== *)
theory StatManager
  imports SqlText DSStat "HOL-Library.Product_Lexorder"
begin

text \<open>
  Class \<open>StatisticManager\<close> of \<^verbatim>\<open>duckdb/src/include/duckdb/starce/starce.hpp\<close>: it owns the
  statistics, collects them per equal set, and estimates the cardinality of a set of
  relations during the optimization of a query.

  The object is a record; a method that changes it or may throw is an operation with state
  and exceptions (\<open>ExnState\<close>). A \<open>std::map\<close> is a partial map, a \<open>std::set\<close> an ascending
  list, an \<open>idx_t\<close> a natural number. \<open>subsetStatistics[s]\<close> is a pointer to an object that
  \<open>statistics\<close> owns, or null: it is the key of that object, or \<open>None\<close>. The output compiled
  under \<open>DEBUG\<close> is left out.
\<close>

section \<open>The object\<close>

type_synonym Attribute = "nat \<times> nat"
type_synonym AttrEset = "Attribute list"

record StatisticManager =
  sm_statistics :: "EqualSet \<Rightarrow> DSStatistic option"
  sm_eset :: EqualSet
  sm_subset :: "EqualSet list"
  sm_subsetStatistics :: "EqualSet option list"
  sm_skip :: "bool list"
  sm_singleDS :: "string \<Rightarrow> DegreeSequence option"
  sm_attrEsets :: "AttrEset list"
  sm_tableName :: "nat \<Rightarrow> string option"
  sm_columnName :: "Attribute \<Rightarrow> string option"
  sm_tabelCard :: "nat \<Rightarrow> nat option"
  sm_filterString :: "nat \<Rightarrow> string option"
  sm_relNDV :: "string \<Rightarrow> int option"
  sm_AdjustRate :: real
  sm_PredicateAdjustRate :: real
  sm_rateSum :: real
  sm_rateCount :: int
  sm_IsRecordingSubquery :: bool
  sm_IsRecordEstimateTime :: bool
  sm_RecordingSubqueryTimes :: "string \<Rightarrow> real option"
  sm_IsRecordingSingleQuery :: bool
  sm_SubqueryOutputGroupByMain :: bool
  sm_CurrentMainQueryId :: int
  sm_CurrentMainQuerySql :: string
  sm_Subqueries :: "string set"
  sm_RecordingSubqueryCards :: "string \<Rightarrow> real option"
  sm_SubqueriesByMainQuery :: "int \<Rightarrow> (string \<times> (string \<times> real) list) option"
  sm_SingleQueries :: "string set"
  sm_EnableStarCE :: bool
  sm_UseSubqueryCard :: bool
  sm_UseSingleTableCard :: bool
  sm_subqueryCard :: "string \<Rightarrow> int option"
  sm_singleQueryCard :: "string \<Rightarrow> int option"
  sm_IsCollectingRelErr :: bool
  sm_CompressPrecision :: real
  sm_realCard :: "string \<Rightarrow> int option"
  sm_query_id :: int
  sm_relErr :: "(int \<times> real) list"
  sm_prepared :: bool
  sm_EnableStarSplit :: bool
  sm_MaxStarSize :: int
  sm_esetSizeCount :: "nat \<Rightarrow> int option"
  sm_PredMethod :: int

definition StatisticManager_init :: StatisticManager where
  "StatisticManager_init =
     \<lparr>sm_statistics = Map.empty, sm_eset = EqualSet [], sm_subset = [], sm_subsetStatistics = [],
      sm_skip = [], sm_singleDS = Map.empty, sm_attrEsets = [], sm_tableName = Map.empty,
      sm_columnName = Map.empty, sm_tabelCard = Map.empty, sm_filterString = Map.empty,
      sm_relNDV = Map.empty, sm_AdjustRate = 1 / 10, sm_PredicateAdjustRate = 1 / 10,
      sm_rateSum = 0, sm_rateCount = 0, sm_IsRecordingSubquery = False,
      sm_IsRecordEstimateTime = False, sm_RecordingSubqueryTimes = Map.empty,
      sm_IsRecordingSingleQuery = True, sm_SubqueryOutputGroupByMain = False,
      sm_CurrentMainQueryId = 0, sm_CurrentMainQuerySql = '''', sm_Subqueries = {},
      sm_RecordingSubqueryCards = Map.empty, sm_SubqueriesByMainQuery = Map.empty,
      sm_SingleQueries = {}, sm_EnableStarCE = False, sm_UseSubqueryCard = False,
      sm_UseSingleTableCard = False,
      sm_subqueryCard = Map.empty, sm_singleQueryCard = Map.empty, sm_IsCollectingRelErr = False,
      sm_CompressPrecision = 2, sm_realCard = Map.empty, sm_query_id = 0, sm_relErr = [],
      sm_prepared = False, sm_EnableStarSplit = False, sm_MaxStarSize = 3,
      sm_esetSizeCount = Map.empty, sm_PredMethod = 0\<rparr>"

type_synonym 'a smx = "(StatisticManager, 'a) sx"

section \<open>Collection\<close>

definition CalcAdjustRate :: "StatisticManager \<Rightarrow> StatisticManager" where
  "CalcAdjustRate sm =
     (if sm_rateCount sm > 0
      then sm\<lparr>sm_AdjustRate := sm_rateSum sm / of_int (sm_rateCount sm),
              sm_PredicateAdjustRate := sm_rateSum sm / of_int (sm_rateCount sm)\<rparr>
      else sm)"

text \<open>
  \<open>PrepareCollection\<close>: enumerate the subsets, and allocate a statistic for each one that has
  none yet. Two subsets with one key (single columns of one table) share the first object,
  and the second is skipped. \<open>GetAllSubsetLimitSize\<close> receives \<open>MaxStarSize\<close> as a \<open>size_t\<close>.
\<close>

definition size_t_of_int :: "int \<Rightarrow> nat" where
  "size_t_of_int i = nat (i mod 2 ^ 64)"

definition prepare_subset :: "EqualSet \<Rightarrow> StatisticManager \<Rightarrow> StatisticManager" where
  "prepare_subset sub sm =
     (if sm_statistics sm sub \<noteq> None
      then sm\<lparr>sm_subsetStatistics := sm_subsetStatistics sm @ [None], sm_skip := sm_skip sm @ [True]\<rparr>
      else sm\<lparr>sm_subsetStatistics := sm_subsetStatistics sm @ [Some sub],
              sm_skip := sm_skip sm @ [False],
              sm_statistics := (sm_statistics sm)
                (sub \<mapsto> DSStatistic_tables (GetTableList sub) (sm_CompressPrecision sm))\<rparr>)"

definition PrepareCollection :: "EqualSet \<Rightarrow> unit smx" where
  "PrepareCollection es =
     sx_bind (sx_mod (\<lambda>sm. sm\<lparr>sm_eset := es\<rparr>)) (\<lambda>_.
     sx_bind (sx_read (\<lambda>sm. if sm_EnableStarSplit sm
                            then GetAllSubsetLimitSize es (size_t_of_int (sm_MaxStarSize sm))
                            else GetAllSubset es)) (\<lambda>subs.
     sx_mod (\<lambda>sm.
       let sm1 = fold prepare_subset subs (sm\<lparr>sm_subset := subs, sm_subsetStatistics := [], sm_skip := []\<rparr>)
       in sm1\<lparr>sm_singleDS := fold (\<lambda>e m. m(TableName e \<mapsto> empty_DS)) (Entries es) Map.empty\<rparr>)))"

text \<open>
  The counts of one key, a \<open>std::map<Table, int64_t>\<close>, as the list of its entries in
  order of the tables, which is how \<open>AddDegreeForSingleDS\<close> walks it.
\<close>

type_synonym counts = "(Table \<times> int) list"

definition AddDegreeForSingleDS :: "counts \<Rightarrow> int \<Rightarrow> unit smx" where
  "AddDegreeForSingleDS cnt count_count =
     sx_for (\<lambda>(t, c) _.
         if c = 0 then sx_ret ()
         else sx_bind (sx_read (\<lambda>sm. case sm_singleDS sm t of
                 None \<Rightarrow> Inl (Runtime_error ''Table not found in singleDS'')
               | Some d \<Rightarrow> Inr d)) (\<lambda>d.
           sx_mod (\<lambda>sm. sm\<lparr>sm_singleDS := (sm_singleDS sm)
             (t \<mapsto> AddDegree (of_int c) count_count (sm_CompressPrecision sm) d)\<rparr>)))
       cnt ()"

text \<open>Apply an operation of \<open>DSStatistic\<close> to the object a pointer of \<open>subsetStatistics\<close> names.\<close>

definition upd_statistic :: "(DSStatistic \<Rightarrow> DSStatistic res) \<Rightarrow> EqualSet option \<Rightarrow> unit smx" where
  "upd_statistic f p =
     (case p of
        None \<Rightarrow> sx_throw (Undefined ''null pointer'')
      | Some key \<Rightarrow>
          sx_bind (sx_read (\<lambda>sm. case sm_statistics sm key of
                               None \<Rightarrow> Inl (Undefined ''dangling pointer'')
                             | Some st \<Rightarrow> f st)) (\<lambda>st.
            sx_mod (\<lambda>sm. sm\<lparr>sm_statistics := (sm_statistics sm)(key \<mapsto> st)\<rparr>)))"

definition subset_slots :: "StatisticManager \<Rightarrow> (EqualSet \<times> bool \<times> EqualSet option) list" where
  "subset_slots sm = zip (sm_subset sm) (zip (sm_skip sm) (sm_subsetStatistics sm))"

definition for_subsets :: "(DSStatistic \<Rightarrow> DSStatistic res) \<Rightarrow> unit smx" where
  "for_subsets f =
     sx_bind (sx_read (\<lambda>sm. Inr (subset_slots sm))) (\<lambda>slots.
       sx_for (\<lambda>(sub, skip, p) _. if skip then sx_ret () else upd_statistic f p) slots ())"

definition sm_AddDegree :: "counts \<Rightarrow> int \<Rightarrow> unit smx" where
  "sm_AddDegree cnt count_count =
     sx_bind (for_subsets (stat_AddDegree (map_of cnt) count_count)) (\<lambda>_.
       AddDegreeForSingleDS cnt count_count)"

text \<open>
  \<open>FinishCollection\<close>: finish the statistics and the single sequences, then compare, for each
  new subset of two or more columns, its cardinality with the estimate from the averages
  and with the bound from the sequences; the rate of the comparison is accumulated.
  A column with no values makes the average \<open>0 / 0\<close>, a NaN, which is \<open>None\<close> here: it stays a
  NaN, it passes the test \<open>upp_card <= avg_card\<close>, and \<open>std::max(0, NaN)\<close> is 0.
\<close>

fun rate_loop :: "(string \<Rightarrow> DegreeSequence option) \<Rightarrow> real \<Rightarrow> string list \<Rightarrow>
    (DegreeSequence \<times> real option) option \<Rightarrow> (DegreeSequence \<times> real option) option res" where
  "rate_loop singleDS precision [] acc = Inr acc"
| "rate_loop singleDS precision (t # ts) acc =
     (case singleDS t of
        None \<Rightarrow> Inl (Runtime_error ''Table not found in singleDS'')
      | Some single \<Rightarrow>
          (case acc of
             None \<Rightarrow> rate_loop singleDS precision ts (Some (single, Some (GetCard single)))
           | Some (ds, avg_card) \<Rightarrow>
               let n = max (GetNDV ds) (GetNDV single);
                   avg_card' = (if n = 0 then None
                                else map_option (\<lambda>a. a * (GetCard single / of_int n)) avg_card)
               in rate_loop singleDS precision ts (Some (dot ds single precision, avg_card'))))"

definition adjust_rate :: "real \<Rightarrow> real option \<Rightarrow> real \<Rightarrow> nat \<Rightarrow> real" where
  "adjust_rate real_card avg_card upp_card n =
     (case avg_card of None \<Rightarrow> 0
      | Some avg \<Rightarrow> max 0 ((real_card - avg) / (upp_card - avg)) powr (1 / of_nat n))"

definition finish_rate :: "EqualSet \<times> bool \<times> EqualSet option \<Rightarrow> unit smx" where
  "finish_rate slot =
     (case slot of (sub, skip, p) \<Rightarrow>
        if skip \<or> length (Entries sub) \<le> 1 then sx_ret ()
        else
          sx_bind (sx_read (\<lambda>sm. rate_loop (sm_singleDS sm) (sm_CompressPrecision sm) (GetTableList sub) None)) (\<lambda>acc.
            case acc of None \<Rightarrow> sx_ret ()
            | Some (ds, avg_card) \<Rightarrow>
                sx_bind (sx_read (\<lambda>sm. case p of None \<Rightarrow> Inl (Undefined ''null pointer'')
                     | Some key \<Rightarrow> (case sm_statistics sm key of None \<Rightarrow> Inl (Undefined ''dangling pointer'')
                                     | Some st \<Rightarrow> Inr (st_card st)))) (\<lambda>real_card.
                  if (case avg_card of None \<Rightarrow> False | Some avg \<Rightarrow> GetCard ds \<le> avg) then sx_ret ()
                  else sx_mod (\<lambda>sm. sm\<lparr>
                    sm_rateSum := sm_rateSum sm
                      + adjust_rate real_card avg_card (GetCard ds) (length (Entries sub)),
                    sm_rateCount := sm_rateCount sm + 1\<rparr>))))"

definition finish_single :: "TableColumn \<Rightarrow> unit smx" where
  "finish_single e =
     sx_bind (sx_read (\<lambda>sm. case sm_singleDS sm (TableName e) of
           None \<Rightarrow> Inl (Runtime_error ''Table not found in singleDS'')
         | Some d \<Rightarrow> if ds_collecting d then Inr d else Inl (Undefined ''sum[i]''))) (\<lambda>d.
       sx_mod (\<lambda>sm. sm\<lparr>sm_singleDS := (sm_singleDS sm)(TableName e \<mapsto> FinishCollection d)\<rparr>))"

definition sm_FinishCollection :: "unit smx" where
  "sm_FinishCollection =
     sx_bind (for_subsets stat_FinishCollection) (\<lambda>_.
     sx_bind (sx_read (\<lambda>sm. Inr (Entries (sm_eset sm)))) (\<lambda>es.
     sx_bind (sx_for (\<lambda>e _. finish_single e) es ()) (\<lambda>_.
     sx_bind (sx_read (\<lambda>sm. Inr (subset_slots sm))) (\<lambda>slots.
       sx_for (\<lambda>slot _. finish_rate slot) slots ()))))"

section \<open>Description of the query\<close>

definition PrepareEstimate :: "unit smx" where
  "PrepareEstimate =
     sx_bind (sx_read (\<lambda>sm. if sm_prepared sm then Inl (Runtime_error ''Already prepared for estimation'')
                            else Inr ())) (\<lambda>_.
       sx_mod (\<lambda>sm. sm\<lparr>sm_attrEsets := [], sm_tableName := Map.empty, sm_columnName := Map.empty,
                       sm_tabelCard := Map.empty, sm_prepared := True,
                       sm_query_id := sm_query_id sm + 1\<rparr>))"

definition FinishEstimate :: "StatisticManager \<Rightarrow> StatisticManager" where
  "FinishEstimate sm = sm\<lparr>sm_prepared := False\<rparr>"

definition ParsePredicate :: "string \<Rightarrow> unit smx" where
  "ParsePredicate sql sm =
     (case parse_predicate sql (sm_filterString sm) of (r, m) \<Rightarrow> (r, sm\<lparr>sm_filterString := m\<rparr>))"

definition sm_GetNDV :: "string \<Rightarrow> StatisticManager \<Rightarrow> int res" where
  "sm_GetNDV table sm =
     (case sm_statistics sm (EqualSet [TableColumn table '''']) of
        None \<Rightarrow> Inl (Runtime_error ''No statistics for'')
      | Some st \<Rightarrow> Inr (trunc (st_card st)))"

text \<open>The column name after the first dot, when there is one.\<close>

definition strip_qualifier :: "string \<Rightarrow> string" where
  "strip_qualifier column_name =
     (case str_find ''.'' column_name of None \<Rightarrow> column_name
      | Some pos \<Rightarrow> drop (pos + 1) column_name)"

definition AddTable :: "nat \<Rightarrow> string \<Rightarrow> string list \<Rightarrow> nat \<Rightarrow> unit smx" where
  "AddTable table_id table_name column_names crd =
     sx_bind (sx_mod (\<lambda>sm. sm\<lparr>
       sm_tableName := (sm_tableName sm)(table_id \<mapsto> table_name),
       sm_columnName := fold (\<lambda>i m. m((table_id, i) \<mapsto> strip_qualifier (column_names ! i)))
                          [0..<length column_names] (sm_columnName sm),
       sm_tabelCard := (sm_tabelCard sm)(table_id \<mapsto> crd)\<rparr>)) (\<lambda>_.
     sx_bind (sx_read (sm_GetNDV table_name)) (\<lambda>ndv.
       sx_mod (\<lambda>sm. sm\<lparr>sm_relNDV := (sm_relNDV sm)(to_string table_id \<mapsto> ndv)\<rparr>)))"

text \<open>
  \<open>AddPredicate\<close>: the loop over \<open>attrEsets\<close> leaves the last position that holds the first
  attribute, and the last one that holds the second and not the first.
\<close>

fun find_esets :: "Attribute \<Rightarrow> Attribute \<Rightarrow> nat \<Rightarrow> AttrEset list \<Rightarrow> nat option \<Rightarrow> nat option \<Rightarrow>
    nat option \<times> nat option" where
  "find_esets a b i [] idx1 idx2 = (idx1, idx2)"
| "find_esets a b i (es # ess) idx1 idx2 =
     (if a \<in> set es then find_esets a b (Suc i) ess (Some i) idx2
      else if b \<in> set es then find_esets a b (Suc i) ess idx1 (Some i)
      else find_esets a b (Suc i) ess idx1 idx2)"

definition vec_erase :: "nat \<Rightarrow> 'a list \<Rightarrow> 'a list" where
  "vec_erase i xs = take i xs @ drop (Suc i) xs"

definition add_predicate :: "Attribute \<Rightarrow> Attribute \<Rightarrow> AttrEset list \<Rightarrow> AttrEset list" where
  "add_predicate a b ess =
     (case find_esets a b 0 ess None None of
        (None, None) \<Rightarrow> ess @ [set_of_list [a, b]]
      | (None, Some idx2) \<Rightarrow> ess[idx2 := set_insert a (ess ! idx2)]
      | (Some idx1, None) \<Rightarrow> ess[idx1 := set_insert b (ess ! idx1)]
      | (Some idx1, Some idx2) \<Rightarrow>
          vec_erase idx2 (ess[idx1 := fold set_insert (ess ! idx2) (ess ! idx1)]))"

definition AddPredicate :: "nat \<Rightarrow> nat \<Rightarrow> nat \<Rightarrow> nat \<Rightarrow> StatisticManager \<Rightarrow> StatisticManager" where
  "AddPredicate table1 table2 column1 column2 sm =
     sm\<lparr>sm_attrEsets := add_predicate (table1, column1) (table2, column2) (sm_attrEsets sm)\<rparr>"

section \<open>The attribute sets of some relations\<close>

definition restrict_eset :: "nat list \<Rightarrow> AttrEset \<Rightarrow> AttrEset" where
  "restrict_eset rels es = fold (\<lambda>a acc. if fst a \<in> set rels then set_insert a acc else acc) es []"

definition GetAttrEsetFromRels :: "nat list \<Rightarrow> StatisticManager \<Rightarrow> AttrEset list" where
  "GetAttrEsetFromRels rels sm =
     (let result = filter (\<lambda>es. length es > 1) (map (restrict_eset rels) (sm_attrEsets sm));
          vis = (\<lambda>r. r \<in> fst ` set (concat result))
      in result @ map (\<lambda>r. [(r, 0)]) (filter (\<lambda>r. \<not> vis r) rels))"

definition GetEqualSetFromAttrEset ::
  "AttrEset \<Rightarrow> StatisticManager \<Rightarrow> (EqualSet \<times> (string \<Rightarrow> nat option)) res" where
  "GetEqualSetFromAttrEset attrEset sm =
     (if length attrEset = 1
      then res_map (\<lambda>t. (EqualSet [TableColumn t ''''], [t \<mapsto> fst (hd attrEset)]))
             (map_at (sm_tableName sm) (fst (hd attrEset)))
      else res_map (\<lambda>(es, idx). (EqualSet es, idx))
             (res_fold (\<lambda>a (es, idx).
                  res_bind (map_at (sm_tableName sm) (fst a)) (\<lambda>t.
                  res_bind (map_at (sm_columnName sm) a) (\<lambda>c.
                    Inr (set_insert (TableColumn t c) es, idx(t \<mapsto> fst a)))))
                attrEset ([], Map.empty)))"

definition CanMerge :: "AttrEset \<Rightarrow> AttrEset \<Rightarrow> bool" where
  "CanMerge es1 es2 = list_ex (\<lambda>a1. list_ex (\<lambda>a2. fst a1 = fst a2) es2) es1"

text \<open>\<open>-1\<close> as an \<open>idx_t\<close> when there is no common relation.\<close>

definition GetCommonRelation :: "AttrEset \<Rightarrow> AttrEset \<Rightarrow> nat" where
  "GetCommonRelation es1 es2 =
     (case find (\<lambda>a1. list_ex (\<lambda>a2. fst a1 = fst a2) es2) es1 of
        Some a1 \<Rightarrow> fst a1 | None \<Rightarrow> 2 ^ 64 - 1)"

section \<open>Query texts\<close>

definition join_with :: "string \<Rightarrow> string list \<Rightarrow> string" where
  "join_with sep xs = (case xs of [] \<Rightarrow> '''' | y # ys \<Rightarrow> fold (\<lambda>x acc. acc @ sep @ x) ys y)"

text \<open>The number of a relation among those of its table, in the order of \<open>rels\<close>.\<close>

definition alias_ids :: "nat list \<Rightarrow> StatisticManager \<Rightarrow> (nat \<Rightarrow> nat option) res" where
  "alias_ids rels sm =
     res_map fst
       (res_fold (\<lambda>rel (alias_id, cur).
            res_bind (map_at (sm_tableName sm) rel) (\<lambda>t.
              let n = Suc (case cur t of None \<Rightarrow> 0 | Some k \<Rightarrow> k)
              in Inr (alias_id(rel \<mapsto> n), cur(t \<mapsto> n))))
          rels (Map.empty, Map.empty))"

definition to_alias :: "(nat \<Rightarrow> nat option) \<Rightarrow> StatisticManager \<Rightarrow> nat \<Rightarrow> string res" where
  "to_alias alias_id sm rel =
     res_map (\<lambda>t. t @ to_string (case alias_id rel of None \<Rightarrow> 0 | Some n \<Rightarrow> n))
       (map_at (sm_tableName sm) rel)"

fun res_mapM :: "('a \<Rightarrow> 'b res) \<Rightarrow> 'a list \<Rightarrow> 'b list res" where
  "res_mapM f [] = Inr []"
| "res_mapM f (x # xs) = res_bind (f x) (\<lambda>y. res_map (Cons y) (res_mapM f xs))"

definition from_item :: "(nat \<Rightarrow> nat option) \<Rightarrow> StatisticManager \<Rightarrow> nat \<Rightarrow> string res" where
  "from_item alias_id sm rel =
     res_bind (map_at (sm_tableName sm) rel) (\<lambda>t.
     res_map (\<lambda>a. t @ '' AS '' @ a) (to_alias alias_id sm rel))"

text \<open>Consecutive attributes of a set are equated; \<open>last_attr\<close> is empty before the first.\<close>

fun eset_conditions :: "(nat \<Rightarrow> nat option) \<Rightarrow> StatisticManager \<Rightarrow> string \<Rightarrow> AttrEset \<Rightarrow> string list res" where
  "eset_conditions alias_id sm last_attr [] = Inr []"
| "eset_conditions alias_id sm last_attr (a # as) =
     res_bind (to_alias alias_id sm (fst a)) (\<lambda>al.
     res_bind (map_at (sm_columnName sm) a) (\<lambda>c.
       let attr_str = al @ ''.'' @ c
       in res_map (\<lambda>ps. if last_attr = '''' then ps else (last_attr @ ''='' @ attr_str) # ps)
            (eset_conditions alias_id sm attr_str as)))"

definition join_conditions :: "(nat \<Rightarrow> nat option) \<Rightarrow> StatisticManager \<Rightarrow> AttrEset \<Rightarrow> string list res" where
  "join_conditions alias_id sm es =
     (if length es = 1 then Inr [] else eset_conditions alias_id sm '''' es)"

definition rel_predicates :: "(nat \<Rightarrow> nat option) \<Rightarrow> StatisticManager \<Rightarrow> nat \<Rightarrow> string list res" where
  "rel_predicates alias_id sm rel =
     res_bind (map_at (sm_filterString sm) rel) (\<lambda>filt.
       if filt = '''' then Inr []
       else res_map (\<lambda>a. sort (split_and (replace_all ''__table_name'' a filt)))
              (to_alias alias_id sm rel))"

fun append_conditions :: "string list \<Rightarrow> bool \<Rightarrow> string \<Rightarrow> string \<times> bool" where
  "append_conditions [] is_first sql = (sql, is_first)"
| "append_conditions (p # ps) is_first sql =
     append_conditions ps False (sql @ (if is_first then '' WHERE '' else '' AND '') @ p)"

definition GetSubquery :: "nat list \<Rightarrow> AttrEset list \<Rightarrow> StatisticManager \<Rightarrow> string res" where
  "GetSubquery rels ess sm =
     res_bind (alias_ids rels sm) (\<lambda>alias_id.
     res_bind (res_mapM (from_item alias_id sm) rels) (\<lambda>items.
     res_bind (res_mapM (join_conditions alias_id sm) ess) (\<lambda>conds.
     res_bind (res_mapM (rel_predicates alias_id sm) rels) (\<lambda>preds.
       let sql = ''SELECT COUNT(*) FROM '' @ join_with '','' (sort items);
           (sql, is_first) = append_conditions (sort (concat conds)) True sql;
           (sql, is_first) = append_conditions (sort (concat preds)) is_first sql
       in Inr (sql @ '';'')))))"

definition GetSingleQuery :: "nat \<Rightarrow> StatisticManager \<Rightarrow> string res" where
  "GetSingleQuery rel sm =
     res_bind (map_at (sm_tableName sm) rel) (\<lambda>t.
     res_bind (map_at (sm_filterString sm) rel) (\<lambda>filt.
       Inr (''SELECT COUNT(*) FROM '' @ t @
            (if filt = '''' then '''' else '' WHERE '' @ replace_all ''__table_name'' t filt) @ '';'')))"

section \<open>Recording and injected cardinalities\<close>

definition RecordSubquery :: "string \<Rightarrow> real \<Rightarrow> StatisticManager \<Rightarrow> StatisticManager" where
  "RecordSubquery subquery crd sm =
     (let sm1 = sm\<lparr>sm_Subqueries := insert subquery (sm_Subqueries sm),
                   sm_RecordingSubqueryCards := (sm_RecordingSubqueryCards sm)(subquery \<mapsto> crd)\<rparr>
      in if sm_SubqueryOutputGroupByMain sm1 then
           let (main, subs) = (case sm_SubqueriesByMainQuery sm1 (sm_CurrentMainQueryId sm1) of
                                 None \<Rightarrow> ('''', []) | Some e \<Rightarrow> e);
               main = (if main = '''' then sm_CurrentMainQuerySql sm1 else main)
           in sm1\<lparr>sm_SubqueriesByMainQuery := (sm_SubqueriesByMainQuery sm1)
                    (sm_CurrentMainQueryId sm1 \<mapsto> (main, subs @ [(subquery, crd)]))\<rparr>
         else sm1)"

definition AddSubqueryCard :: "string \<Rightarrow> int \<Rightarrow> StatisticManager \<Rightarrow> StatisticManager" where
  "AddSubqueryCard subquery crd sm =
     sm\<lparr>sm_subqueryCard := (sm_subqueryCard sm)(subquery \<mapsto> crd)\<rparr>"

definition AddRealCard :: "string \<Rightarrow> int \<Rightarrow> StatisticManager \<Rightarrow> StatisticManager" where
  "AddRealCard table crd sm = sm\<lparr>sm_realCard := (sm_realCard sm)(table \<mapsto> crd)\<rparr>"

definition RecordSingleQuery :: "nat \<Rightarrow> unit smx" where
  "RecordSingleQuery rel =
     sx_bind (sx_read (GetSingleQuery rel)) (\<lambda>q.
       sx_mod (\<lambda>sm. sm\<lparr>sm_SingleQueries := insert q (sm_SingleQueries sm)\<rparr>))"

definition AddSingleQueryCard :: "string \<Rightarrow> int \<Rightarrow> StatisticManager \<Rightarrow> StatisticManager" where
  "AddSingleQueryCard query crd sm =
     sm\<lparr>sm_singleQueryCard := (sm_singleQueryCard sm)(query \<mapsto> crd)\<rparr>"

text \<open>Conversion of an \<open>idx_t\<close> to \<open>int64_t\<close>.\<close>

definition idx_to_int64 :: "nat \<Rightarrow> int" where
  "idx_to_int64 n = (let m = int n mod 2 ^ 64 in if m < 2 ^ 63 then m else m - 2 ^ 64)"

definition GetTableCard :: "nat \<Rightarrow> int smx" where
  "GetTableCard idx =
     sx_bind (sx_read (\<lambda>sm. map_at (sm_filterString sm) idx)) (\<lambda>filt.
       if filt = '''' then sx_read (\<lambda>sm. res_map idx_to_int64 (map_at (sm_tabelCard sm) idx))
       else
         sx_bind (sx_read (\<lambda>sm. Inr (sm_IsRecordingSingleQuery sm))) (\<lambda>rec.
         sx_bind (if rec then RecordSingleQuery idx else sx_ret ()) (\<lambda>_.
           sx_read (\<lambda>sm.
             if \<not> sm_UseSingleTableCard sm then res_map idx_to_int64 (map_at (sm_tabelCard sm) idx)
             else res_bind (GetSingleQuery idx sm) (\<lambda>q.
                    case sm_singleQueryCard sm q of
                      None \<Rightarrow> Inl (Runtime_error ''No single table card for table'')
                    | Some c \<Rightarrow> Inr c)))))"

end
