(* ===== verification/Equivalences.thy ===== *)
theory Equivalences
  imports Prelude
begin

text \<open>
  Structures that maintain an equivalence under the insertion of pairs. StarCE has two: the
  attribute sets of a query, which join predicates merge, and the union-find forest of
  \<open>EstimateCardinality\<close>. Both promise that a pair turns the relation into the smallest
  symmetric and transitive relation with that pair; what a sequence of pairs gives is
  proved here once.
\<close>

definition add_pair :: "'a \<Rightarrow> 'a \<Rightarrow> ('a \<times> 'a) set \<Rightarrow> ('a \<times> 'a) set" where
  "add_pair a b R = (R \<union> {(a, b), (b, a)})\<^sup>+"

definition pairs_closure :: "('a \<times> 'a) set \<Rightarrow> ('a \<times> 'a) set" where
  "pairs_closure S = (S \<union> S\<inverse>)\<^sup>+"

section \<open>One pair\<close>

lemma sym_add_pair: "sym R \<Longrightarrow> sym (add_pair a b R)"
  unfolding add_pair_def by (intro sym_trancl) (auto simp: sym_def)

lemma trans_add_pair: "trans (add_pair a b R)"
  by (simp add: add_pair_def)

text \<open>On a symmetric and transitive relation, the new pair joins two classes.\<close>

lemma add_pair_classes:
  assumes "sym R" "trans R"
  shows "add_pair a b R = R \<union> ({a, b} \<union> R `` {a, b}) \<times> ({a, b} \<union> R `` {a, b})"
    (is "_ = R \<union> ?C \<times> ?C")
proof
  have C: "x \<in> ?C \<Longrightarrow> (x, y) \<in> R \<Longrightarrow> y \<in> ?C" for x y
    using assms(2) by (auto dest: transD)
  have C': "y \<in> ?C \<Longrightarrow> (x, y) \<in> R \<Longrightarrow> x \<in> ?C" for x y
    using C assms(1) by (meson symD)
  have "trans (R \<union> ?C \<times> ?C)"
  proof (rule transI)
    fix x y z
    assume "(x, y) \<in> R \<union> ?C \<times> ?C" "(y, z) \<in> R \<union> ?C \<times> ?C"
    then show "(x, z) \<in> R \<union> ?C \<times> ?C"
    proof (elim UnE)
      assume "(x, y) \<in> R" "(y, z) \<in> R"
      then show ?thesis using assms(2) by (blast dest: transD)
    next
      assume "(x, y) \<in> R" "(y, z) \<in> ?C \<times> ?C"
      then show ?thesis using C' by blast
    next
      assume "(x, y) \<in> ?C \<times> ?C" "(y, z) \<in> R"
      then show ?thesis using C by blast
    qed blast
  qed
  moreover have "R \<union> {(a, b), (b, a)} \<subseteq> R \<union> ?C \<times> ?C" by auto
  ultimately show "add_pair a b R \<subseteq> R \<union> ?C \<times> ?C"
    unfolding add_pair_def by (metis trancl_id trancl_mono subsetI)
next
  let ?A = "add_pair a b R"
  have t: "trans ?A" and s: "sym ?A" using assms by (simp_all add: trans_add_pair sym_add_pair)
  have g: "(a, b) \<in> ?A" "(b, a) \<in> ?A" "R \<subseteq> ?A" by (auto simp: add_pair_def)
  have aa: "(a, a) \<in> ?A" using transD [OF t g(1,2)] .
  have A: "(a, x) \<in> ?A" if x: "x \<in> ?C" for x
  proof -
    consider "x = a" | "x = b" | "(a, x) \<in> ?A" | "(b, x) \<in> ?A"
      using x g(3) by blast
    then show ?thesis using aa g(1) transD [OF t g(1)] by cases simp_all
  qed
  have "?C \<times> ?C \<subseteq> ?A"
  proof clarify
    fix x y assume "x \<in> ?C" "y \<in> ?C"
    then have "(a, x) \<in> ?A" "(a, y) \<in> ?A" using A by simp_all
    then show "(x, y) \<in> ?A" using symD [OF s] transD [OF t] by blast
  qed
  then show "R \<union> ?C \<times> ?C \<subseteq> ?A" using g(3) by blast
qed

lemma add_pair_related: "sym R \<Longrightarrow> trans R \<Longrightarrow> (a, b) \<in> R \<Longrightarrow> add_pair a b R = R"
  unfolding add_pair_def by (metis Un_insert_right insert_absorb symD sup_bot_right trancl_id)

section \<open>A sequence of pairs\<close>

lemma add_pair_closure:
  "add_pair a b (pairs_closure S) = pairs_closure (insert (a, b) S)"
proof -
  have "(pairs_closure S \<union> {(a, b), (b, a)})\<^sup>+ = ((S \<union> S\<inverse>) \<union> {(a, b), (b, a)})\<^sup>+"
  proof (rule antisym)
    have "pairs_closure S \<subseteq> ((S \<union> S\<inverse>) \<union> {(a, b), (b, a)})\<^sup>+"
      unfolding pairs_closure_def by (rule trancl_mono_subset) auto
    then have "pairs_closure S \<union> {(a, b), (b, a)} \<subseteq> ((S \<union> S\<inverse>) \<union> {(a, b), (b, a)})\<^sup>+"
      by auto
    then show "(pairs_closure S \<union> {(a, b), (b, a)})\<^sup>+ \<subseteq> ((S \<union> S\<inverse>) \<union> {(a, b), (b, a)})\<^sup>+"
      by (metis trancl_mono_subset trancl_id trans_trancl)
    show "((S \<union> S\<inverse>) \<union> {(a, b), (b, a)})\<^sup>+ \<subseteq> (pairs_closure S \<union> {(a, b), (b, a)})\<^sup>+"
      unfolding pairs_closure_def by (rule trancl_mono_subset) auto
  qed
  also have "((S \<union> S\<inverse>) \<union> {(a, b), (b, a)})\<^sup>+ = pairs_closure (insert (a, b) S)"
    unfolding pairs_closure_def by (rule arg_cong [of _ _ trancl]) auto
  finally show ?thesis by (simp add: add_pair_def)
qed

locale equivalence_builder =
  fixes inv :: "'s \<Rightarrow> bool"
    and related :: "'s \<Rightarrow> ('a \<times> 'a) set"
    and join :: "'a \<Rightarrow> 'a \<Rightarrow> 's \<Rightarrow> 's"
    and ok :: "'a \<Rightarrow> 's \<Rightarrow> bool"
  assumes inv_join: "inv s \<Longrightarrow> ok a s \<Longrightarrow> ok b s \<Longrightarrow> inv (join a b s)"
    and ok_join: "inv s \<Longrightarrow> ok a s \<Longrightarrow> ok b s \<Longrightarrow> ok c (join a b s) = ok c s"
    and related_join: "inv s \<Longrightarrow> ok a s \<Longrightarrow> ok b s \<Longrightarrow> related (join a b s) = add_pair a b (related s)"
begin

lemma related_joins:
  assumes "inv s" "related s = pairs_closure S" "\<forall>(a, b) \<in> set ps. ok a s \<and> ok b s"
  shows "inv (fold (\<lambda>(a, b). join a b) ps s) \<and>
         related (fold (\<lambda>(a, b). join a b) ps s) = pairs_closure (S \<union> set ps)"
  using assms
proof (induction ps arbitrary: s S)
  case (Cons p ps)
  obtain a b where p: "p = (a, b)" by (cases p)
  have "related (join a b s) = pairs_closure (insert (a, b) S)"
    using Cons.prems p by (simp add: related_join add_pair_closure)
  moreover have "inv (join a b s)" using Cons.prems p by (simp add: inv_join)
  moreover have "\<forall>(c, d) \<in> set ps. ok c (join a b s) \<and> ok d (join a b s)"
    using Cons.prems p by (auto simp: ok_join)
  ultimately show ?case
    using Cons.IH [of "join a b s" "insert (a, b) S"] p by simp
qed simp

end

end
