(* ===== verification/StatManager_Esets.thy ===== *)
theory StatManager_Esets
  imports StatManager Equivalences
begin

text \<open>
  The attribute sets of a query: \<open>AddPredicate\<close> keeps them a partition of the attributes that
  occur in join predicates into the classes of the equivalence those predicates generate,
  and \<open>GetAttrEsetFromRels\<close> restricts the partition to some relations.
\<close>

section \<open>Partitions as lists\<close>

definition esets_ok :: "AttrEset list \<Rightarrow> bool" where
  "esets_ok ess \<longleftrightarrow>
     list_all (\<lambda>es. std_set es \<and> es \<noteq> []) ess \<and> sorted_wrt (\<lambda>es fs. set es \<inter> set fs = {}) ess"

definition same_eset :: "AttrEset list \<Rightarrow> (Attribute \<times> Attribute) set" where
  "same_eset ess = {(x, y). \<exists>es \<in> set ess. x \<in> set es \<and> y \<in> set es}"

lemma same_eset_append [simp]: "same_eset (xs @ ys) = same_eset xs \<union> same_eset ys"
  by (auto simp: same_eset_def)

lemma same_eset_Cons [simp]: "same_eset (es # ess) = set es \<times> set es \<union> same_eset ess"
  by (auto simp: same_eset_def)

lemma same_eset_Nil [simp]: "same_eset [] = {}"
  by (simp add: same_eset_def)

lemma esets_ok_disjoint:
  assumes "esets_ok ess" "i < length ess" "j < length ess" "i \<noteq> j"
  shows "set (ess ! i) \<inter> set (ess ! j) = {}"
proof -
  have "k < l \<Longrightarrow> l < length ess \<Longrightarrow> set (ess ! k) \<inter> set (ess ! l) = {}" for k l
    using assms(1) by (simp add: esets_ok_def sorted_wrt_iff_nth_less)
  from this [of i j] this [of j i] show ?thesis
    using assms(2-4) by (cases "i < j") (simp_all add: Int_commute)
qed

lemma esets_ok_unique:
  "esets_ok ess \<Longrightarrow> es \<in> set ess \<Longrightarrow> fs \<in> set ess \<Longrightarrow> x \<in> set es \<Longrightarrow> x \<in> set fs \<Longrightarrow> es = fs"
  using esets_ok_disjoint by (fastforce simp: in_set_conv_nth)

lemma esets_ok_std_set: "esets_ok ess \<Longrightarrow> es \<in> set ess \<Longrightarrow> std_set es"
  by (simp add: esets_ok_def list_all_iff)

lemma sym_same_eset: "sym (same_eset ess)"
  by (auto simp: same_eset_def sym_def)

lemma trans_same_eset: "esets_ok ess \<Longrightarrow> trans (same_eset ess)"
  unfolding same_eset_def by (rule transI) (auto dest: esets_ok_unique)

lemma same_eset_image:
  assumes "esets_ok ess" "i < length ess" "x \<in> set (ess ! i)"
  shows "same_eset ess `` {x} = set (ess ! i)"
proof -
  have "y \<in> set (ess ! i)" if "es \<in> set ess" "x \<in> set es" "y \<in> set es" for y es
    using that esets_ok_unique [OF assms(1) nth_mem [OF assms(2)] that(1) assms(3)] by simp
  then show ?thesis using assms(2,3) by (auto simp: same_eset_def)
qed

lemma same_eset_no_image: "\<forall>es \<in> set ess. x \<notin> set es \<Longrightarrow> same_eset ess `` {x} = {}"
  by (auto simp: same_eset_def)

section \<open>Changing one set\<close>

lemma same_eset_update:
  assumes "i < length ess" "set (ess ! i) \<subseteq> set es"
  shows "same_eset (ess[i := es]) = same_eset ess \<union> set es \<times> set es"
proof -
  have "ess = take i ess @ ess ! i # drop (Suc i) ess" using assms(1) by (rule id_take_nth_drop)
  then have "same_eset ess = same_eset (take i ess) \<union> (set (ess ! i) \<times> set (ess ! i)) \<union> same_eset (drop (Suc i) ess)"
    by (metis same_eset_append same_eset_Cons Un_assoc)
  moreover have "same_eset (ess[i := es]) = same_eset (take i ess) \<union> (set es \<times> set es) \<union> same_eset (drop (Suc i) ess)"
    using assms(1) by (simp add: upd_conv_take_nth_drop Un_assoc)
  ultimately show ?thesis using assms(2) by blast
qed

lemma same_eset_erase:
  assumes "j < length ess" "i < length ess" "i \<noteq> j" "set (ess ! j) \<subseteq> set (ess ! i)"
  shows "same_eset (vec_erase j ess) = same_eset ess"
proof -
  have "ess ! i \<in> set (vec_erase j ess)"
  proof (cases "i < j")
    case True
    then show ?thesis using assms(2) by (auto simp: vec_erase_def in_set_conv_nth intro!: exI [of _ i])
  next
    case False
    then have "ess ! i = drop (Suc j) ess ! (i - Suc j)" "i - Suc j < length (drop (Suc j) ess)"
      using assms(2,3) by auto
    then show ?thesis by (metis Un_iff nth_mem set_append vec_erase_def)
  qed
  then have "set (ess ! i) \<times> set (ess ! i) \<subseteq> same_eset (vec_erase j ess)"
    by (auto simp: same_eset_def)
  moreover have "same_eset ess = same_eset (vec_erase j ess) \<union> set (ess ! j) \<times> set (ess ! j)"
    using arg_cong [OF id_take_nth_drop [OF assms(1)], of same_eset] by (auto simp: vec_erase_def)
  ultimately show ?thesis using assms(4) by blast
qed

lemma esets_ok_update:
  assumes "esets_ok ess" "i < length ess" "std_set es" "es \<noteq> []"
    "\<And>j. j < length ess \<Longrightarrow> j \<noteq> i \<Longrightarrow> set es \<inter> set (ess ! j) = {}"
  shows "esets_ok (ess[i := es])"
proof -
  have "list_all (\<lambda>es. std_set es \<and> es \<noteq> []) (ess[i := es])"
    using assms(1,3,4) 
    using set_update_subset_insert [of ess i es] by (auto simp: esets_ok_def list_all_iff)
  moreover have "set (ess[i := es] ! k) \<inter> set (ess[i := es] ! l) = {}"
    if "k < l" "l < length ess" for k l
    using that assms(5) [of k] assms(5) [of l] esets_ok_disjoint [OF assms(1), of k l] assms(2)
    by (cases "k = i"; cases "l = i") (simp_all add: Int_commute)
  ultimately show ?thesis by (simp add: esets_ok_def sorted_wrt_iff_nth_less)
qed

lemma esets_ok_split:
  "esets_ok (xs @ ys) \<longleftrightarrow> esets_ok xs \<and> esets_ok ys \<and> (\<forall>es \<in> set xs. \<forall>fs \<in> set ys. set es \<inter> set fs = {})"
  by (auto simp: esets_ok_def sorted_wrt_append)

lemma esets_ok_merge:
  assumes "esets_ok ess" "i < length ess" "j < length ess" "i \<noteq> j"
    "std_set es" "es \<noteq> []" "set es = set (ess ! i) \<union> set (ess ! j)"
  shows "esets_ok (vec_erase j (ess[i := es]))"
proof -
  have d: "k < length ess \<Longrightarrow> k \<noteq> i \<Longrightarrow> k \<noteq> j \<Longrightarrow> set es \<inter> set (ess ! k) = {}" for k
    using esets_ok_disjoint [OF assms(1), of k i] esets_ok_disjoint [OF assms(1), of k j] assms(2,3,7)
    by auto
  have e: "vec_erase j (ess[i := es]) = (vec_erase j ess)[if i < j then i else i - 1 := es]"
    using assms(2-4) by (auto simp: vec_erase_def list_eq_iff_nth_eq nth_append nth_list_update)
  have l: "length (vec_erase j ess) = length ess - 1" using assms(3) by (simp add: vec_erase_def)
  have n: "vec_erase j ess ! k = ess ! (if k < j then k else Suc k)" if "k < length ess - 1" for k
    using that assms(3) by (auto simp: vec_erase_def nth_append)
  have "esets_ok (vec_erase j ess)"
    using assms(1) arg_cong [OF id_take_nth_drop [OF assms(3)], of esets_ok]
      esets_ok_split [of "[ess ! j]" "drop (Suc j) ess"]
    by (simp add: vec_erase_def esets_ok_split)
  then show ?thesis unfolding e
  proof (rule esets_ok_update)
    fix k assume k: "k < length (vec_erase j ess)" "k \<noteq> (if i < j then i else i - 1)"
    have "(if k < j then k else Suc k) < length ess" "(if k < j then k else Suc k) \<noteq> i"
      "(if k < j then k else Suc k) \<noteq> j"
      using k l assms(4) by (auto split: if_splits)
    then show "set es \<inter> set (vec_erase j ess ! k) = {}" using d k(1) n [of k] l by simp
  next
    show "(if i < j then i else i - 1) < length (vec_erase j ess)" using assms(2-4) l by auto
  qed (fact assms)+
qed

section \<open>\<open>AddPredicate\<close>\<close>

lemma find_esets_fst:
  "fst (find_esets a b i ess o1 o2) = None \<longleftrightarrow> o1 = None \<and> (\<forall>es \<in> set ess. a \<notin> set es)"
  "fst (find_esets a b i ess o1 o2) = Some k \<Longrightarrow>
     o1 = Some k \<or> i \<le> k \<and> k < i + length ess \<and> a \<in> set (ess ! (k - i))"
proof (induction ess arbitrary: i o1 o2)
  case (Cons es ess)
  { case 1 show ?case using Cons(1) by simp }
  { case 2
    show ?case
      using 2 Cons(2) [of "Suc i" "Some i" o2] Cons(2) [of "Suc i" o1 "Some i"] Cons(2) [of "Suc i" o1 o2]
      by (auto split: if_splits simp: nth_Cons' Suc_diff_le) }
qed auto

lemma find_esets_snd:
  "snd (find_esets a b i ess o1 o2) = None \<longleftrightarrow> o2 = None \<and> (\<forall>es \<in> set ess. a \<in> set es \<or> b \<notin> set es)"
  "snd (find_esets a b i ess o1 o2) = Some k \<Longrightarrow>
     o2 = Some k \<or> i \<le> k \<and> k < i + length ess \<and> b \<in> set (ess ! (k - i)) \<and> a \<notin> set (ess ! (k - i))"
proof (induction ess arbitrary: i o1 o2)
  case (Cons es ess)
  { case 1 show ?case using Cons(1) by simp }
  { case 2
    show ?case
      using 2 Cons(2) [of "Suc i" "Some i" o2] Cons(2) [of "Suc i" o1 "Some i"] Cons(2) [of "Suc i" o1 o2]
      by (auto split: if_splits simp: nth_Cons' Suc_diff_le) }
qed auto

lemma find_esets_cases:
  assumes "esets_ok ess"
  obtains (neither) "find_esets a b 0 ess None None = (None, None)"
      "\<forall>es \<in> set ess. a \<notin> set es" "\<forall>es \<in> set ess. b \<notin> set es"
  | (second) j where "find_esets a b 0 ess None None = (None, Some j)"
      "\<forall>es \<in> set ess. a \<notin> set es" "j < length ess" "b \<in> set (ess ! j)"
  | (first) i where "find_esets a b 0 ess None None = (Some i, None)"
      "i < length ess" "a \<in> set (ess ! i)" "\<forall>j < length ess. j \<noteq> i \<longrightarrow> b \<notin> set (ess ! j)"
  | (both) i j where "find_esets a b 0 ess None None = (Some i, Some j)"
      "i < length ess" "j < length ess" "i \<noteq> j" "a \<in> set (ess ! i)" "b \<in> set (ess ! j)"
proof -
  obtain o1 o2 where r: "find_esets a b 0 ess None None = (o1, o2)" by (cases "find_esets a b 0 ess None None")
  have f: "o1 = None \<longleftrightarrow> (\<forall>es \<in> set ess. a \<notin> set es)"
      "o2 = None \<longleftrightarrow> (\<forall>es \<in> set ess. a \<in> set es \<or> b \<notin> set es)"
    using find_esets_fst(1) [of a b 0 ess None None] find_esets_snd(1) [of a b 0 ess None None] r by simp_all
  have g: "o1 = Some i \<Longrightarrow> i < length ess \<and> a \<in> set (ess ! i)"
      "o2 = Some j \<Longrightarrow> j < length ess \<and> b \<in> set (ess ! j) \<and> a \<notin> set (ess ! j)" for i j
    using find_esets_fst(2) [of a b 0 ess None None i] find_esets_snd(2) [of a b 0 ess None None j] r by simp_all
  show thesis
  proof (cases o1)
    case None
    then show thesis using f g r by (cases o2) (auto intro: neither second)
  next
    case (Some i)
    have only: "\<forall>j < length ess. j \<noteq> i \<longrightarrow> b \<notin> set (ess ! j)" if "o2 = None"
    proof (intro allI impI)
      fix j assume j: "j < length ess" "j \<noteq> i"
      have "a \<notin> set (ess ! j)"
        using esets_ok_disjoint [OF assms j(1) _ j(2)] g(1) [OF Some] by auto
      then show "b \<notin> set (ess ! j)" using f(2) that nth_mem [OF j(1)] by blast
    qed
    show thesis
    proof (cases o2)
      case None
      then show thesis using first [of i] only g(1) [OF Some] r Some by auto
    next
      case (Some j)
      then show thesis using both [of i j] g \<open>o1 = Some i\<close> r by auto
    qed
  qed
qed

lemma add_predicate_refines:
  assumes ok: "esets_ok ess"
  shows "esets_ok (add_predicate a b ess) \<and> same_eset (add_predicate a b ess) = add_pair a b (same_eset ess)"
proof -
  have cl: "add_pair a b (same_eset ess) =
      same_eset ess \<union> ({a, b} \<union> same_eset ess `` {a, b}) \<times> ({a, b} \<union> same_eset ess `` {a, b})"
    by (rule add_pair_classes [OF sym_same_eset trans_same_eset [OF ok]])
  have im: "same_eset ess `` {a, b} = same_eset ess `` {a} \<union> same_eset ess `` {b}" by auto
  have ins: "std_set (set_insert c (ess ! i)) \<and> set_insert c (ess ! i) \<noteq> []" if "i < length ess" for c i
    using esets_ok_std_set [OF ok nth_mem [OF that]] by (metis std_set_insert set_set_insert insert_not_empty set_empty)
  show ?thesis
    using ok
  proof (cases rule: find_esets_cases [where a = a and b = b])
    case neither
    have "esets_ok (ess @ [set_of_list [a, b]])"
      unfolding esets_ok_split using neither(2,3) ok
      by (auto simp: esets_ok_def simp flip: set_empty)
    then show ?thesis
      using neither by (simp add: add_predicate_def cl im same_eset_no_image insert_commute)
  next
    case (second j)
    have "set (set_insert a (ess ! j)) \<inter> set (ess ! k) = {}" if "k < length ess" "k \<noteq> j" for k
      using second(2) esets_ok_disjoint [OF ok second(3) that(1)] that by auto
    moreover have "{a, b} \<union> same_eset ess `` {a, b} = set (set_insert a (ess ! j))"
      using same_eset_image [OF ok second(3,4)] same_eset_no_image [OF second(2)] second(4) im by auto
    ultimately show ?thesis
      using second ins by (simp add: add_predicate_def cl same_eset_update esets_ok_update ok subset_insertI)
  next
    case (first i)
    have "set (set_insert b (ess ! i)) \<inter> set (ess ! k) = {}" if "k < length ess" "k \<noteq> i" for k
      using first(4) esets_ok_disjoint [OF ok first(2) that(1)] that by auto
    moreover have "x \<in> set (ess ! i)" if "es \<in> set ess" "b \<in> set es" "x \<in> set es" for x es
      using that first(4) by (metis in_set_conv_nth)
    then have "same_eset ess `` {b} \<subseteq> set (ess ! i)"
      by (auto simp: same_eset_def)
    then have "{a, b} \<union> same_eset ess `` {a, b} = set (set_insert b (ess ! i))"
      using same_eset_image [OF ok first(2,3)] first(3) im by auto
    ultimately show ?thesis
      using first ins by (simp add: add_predicate_def cl same_eset_update esets_ok_update ok subset_insertI)
  next
    case (both i j)
    let ?u = "fold set_insert (ess ! j) (ess ! i)"
    have u: "set ?u = set (ess ! i) \<union> set (ess ! j)" by (simp add: Un_commute)
    have "std_set ?u" using esets_ok_std_set [OF ok nth_mem [OF both(2)]] by (rule std_set_fold)
    moreover have "?u \<noteq> []" using u both(5) by (metis Un_iff empty_iff set_empty)
    ultimately have "esets_ok (vec_erase j (ess[i := ?u]))" using both u by (intro esets_ok_merge ok) auto
    moreover have "same_eset (vec_erase j (ess[i := ?u])) = same_eset (ess[i := ?u])"
      using both(2,3,4) by (intro same_eset_erase [of j _ i]) auto
    moreover have "same_eset (ess[i := ?u]) = same_eset ess \<union> set ?u \<times> set ?u"
      using both(2) by (intro same_eset_update) auto
    moreover have "{a, b} \<union> same_eset ess `` {a, b} = set ?u"
      using same_eset_image [OF ok both(2,5)] same_eset_image [OF ok both(3,6)] both(5,6) im u by auto
    ultimately show ?thesis using both(1) by (simp add: add_predicate_def cl)
  qed
qed

interpretation attr_classes: equivalence_builder esets_ok same_eset add_predicate "\<lambda>_ _. True"
  by unfold_locales (simp_all add: add_predicate_refines)


definition add_predicates :: "(Attribute \<times> Attribute) list \<Rightarrow> StatisticManager \<Rightarrow> StatisticManager" where
  "add_predicates ps = fold (\<lambda>((t1, c1), (t2, c2)). AddPredicate t1 t2 c1 c2) ps"

lemma add_predicates_attrEsets:
  "sm_attrEsets (add_predicates ps sm) = fold (\<lambda>(a, b). add_predicate a b) ps (sm_attrEsets sm)"
  by (induction ps arbitrary: sm) (auto simp: add_predicates_def AddPredicate_def)

lemma esets_ok_Nil [simp]: "esets_ok []"
  by (simp add: esets_ok_def)

text \<open>
  C12: The join predicates of a query are reported one by one, in any order, by
  \<open>AddPredicate\<close> after \<open>PrepareEstimate\<close>. The attribute sets then are disjoint, not empty and
  in the order of \<open>std::set\<close>, and two attributes share a set exactly when the predicates
  equate them, directly or through other attributes: the sets are the classes of the
  equivalence that the predicates generate.
\<close>

theorem attr_esets_are_join_classes:
  assumes "\<not> sm_prepared sm"
  shows "esets_ok (sm_attrEsets (add_predicates ps (snd (PrepareEstimate sm)))) \<and>
    same_eset (sm_attrEsets (add_predicates ps (snd (PrepareEstimate sm)))) = pairs_closure (set ps)"
proof -
  have "sm_attrEsets (snd (PrepareEstimate sm)) = []"
    using assms by (simp add: PrepareEstimate_def sx_simps)
  then show ?thesis
    using attr_classes.related_joins [of "[]" "{}" ps]
    by (simp add: add_predicates_attrEsets pairs_closure_def)
qed

theorem attr_esets_are_join_classes_witness:
  "esets_ok (sm_attrEsets (add_predicates [((0, 1), (1, 0)), ((1, 0), (2, 3))]
      (snd (PrepareEstimate StatisticManager_init)))) \<and>
   same_eset (sm_attrEsets (add_predicates [((0, 1), (1, 0)), ((1, 0), (2, 3))]
      (snd (PrepareEstimate StatisticManager_init))))
     = pairs_closure (set [((0, 1), (1, 0)), ((1, 0), (2, 3))])"
  by (rule attr_esets_are_join_classes) (simp add: StatisticManager_init_def)

section \<open>\<open>GetAttrEsetFromRels\<close>\<close>

lemma restrict_eset_eq: "std_set es \<Longrightarrow> restrict_eset rels es = filter (\<lambda>a. fst a \<in> set rels) es"
proof -
  have "fold (\<lambda>a acc. if fst a \<in> set rels then set_insert a acc else acc) es acc =
      fold set_insert (filter (\<lambda>a. fst a \<in> set rels) es) acc" for acc
    by (induction es arbitrary: acc) auto
  moreover assume "std_set es"
  then have "std_set (filter (\<lambda>a. fst a \<in> set rels) es)"
    by (simp add: std_set_def sorted_wrt_filter)
  ultimately show ?thesis
    using set_of_list_sorted [of "filter (\<lambda>a. fst a \<in> set rels) es"]
    by (simp add: restrict_eset_def set_of_list_def)
qed

lemma restrict_esets_eq:
  "esets_ok ess \<Longrightarrow> map (restrict_eset rels) ess = map (filter (\<lambda>a. fst a \<in> set rels)) ess"
  by (simp add: restrict_eset_eq esets_ok_std_set)

lemma sorted_wrt_filter_map:
  "sorted_wrt P xs \<Longrightarrow> (\<And>x y. P x y \<Longrightarrow> Q (f x) (f y)) \<Longrightarrow> sorted_wrt Q (filter R (map f xs))"
  by (induction xs) auto

lemma singles_ok: "distinct rs \<Longrightarrow> esets_ok (map (\<lambda>r. [(r, 0)]) rs)"
  by (induction rs) (auto simp: esets_ok_def std_set_def)

lemma length_gt_1_iff: "std_set es \<Longrightarrow> length es > 1 \<longleftrightarrow> (\<exists>x \<in> set es. \<exists>y \<in> set es. x \<noteq> y)"
  using std_set_distinct [of es]
  by (cases es) (fastforce simp: neq_Nil_conv Suc_lessI length_greater_0_conv [symmetric] simp del: length_greater_0_conv)+

text \<open>
  C29: For a list of different relations, \<open>GetAttrEsetFromRels\<close> returns disjoint, non-empty
  attribute sets that mention exactly these relations, so no relation is dropped from the
  estimate and none is added. Two different attributes share a set of the result exactly
  when they share one in the query and both belong to the relations.
\<close>

theorem GetAttrEsetFromRels_covers:
  assumes "esets_ok (sm_attrEsets sm)" "distinct rels"
  shows "esets_ok (GetAttrEsetFromRels rels sm) \<and>
    fst ` set (concat (GetAttrEsetFromRels rels sm)) = set rels \<and>
    same_eset (GetAttrEsetFromRels rels sm) - Id =
      {(x, y) \<in> same_eset (sm_attrEsets sm). fst x \<in> set rels \<and> fst y \<in> set rels} - Id"
proof -
  define res where "res = filter (\<lambda>es. length es > 1) (map (filter (\<lambda>a. fst a \<in> set rels)) (sm_attrEsets sm))"
  define left where "left = filter (\<lambda>r. r \<notin> fst ` set (concat res)) rels"
  have g: "GetAttrEsetFromRels rels sm = res @ map (\<lambda>r. [(r, 0)]) left"
    using assms(1) by (simp add: GetAttrEsetFromRels_def restrict_esets_eq Let_def res_def left_def)
  have mem: "es \<in> set res \<longleftrightarrow> (\<exists>fs \<in> set (sm_attrEsets sm). es = filter (\<lambda>a. fst a \<in> set rels) fs \<and> length es > 1)" for es
    by (auto simp: res_def)
  have ok: "esets_ok res"
    unfolding esets_ok_def
  proof
    show "list_all (\<lambda>es. std_set es \<and> es \<noteq> []) res"
      using assms(1) by (auto simp: mem list_all_iff esets_ok_def std_set_def sorted_wrt_filter)
    show "sorted_wrt (\<lambda>es fs. set es \<inter> set fs = {}) res"
      unfolding res_def using assms(1)
      by (intro sorted_wrt_filter_map [where P = "\<lambda>es fs. set es \<inter> set fs = {}"]) (auto simp: esets_ok_def)
  qed
  have rels: "a \<in> set es \<Longrightarrow> es \<in> set res \<Longrightarrow> fst a \<in> set rels" for a es
    using mem by auto
  have "esets_ok (map (\<lambda>r. [(r, 0)]) left)"
    using assms(2) distinct_filter [of rels "\<lambda>r. r \<notin> fst ` set (concat res)"]
    by (simp add: left_def singles_ok)
  moreover have "\<forall>es \<in> set res. \<forall>fs \<in> set (map (\<lambda>r. [(r, 0)]) left). set es \<inter> set fs = {}"
    by (auto simp: left_def image_iff) (metis fst_conv)
  ultimately have "esets_ok (GetAttrEsetFromRels rels sm)"
    using ok by (simp add: g esets_ok_split)
  moreover have "fst ` set (concat (GetAttrEsetFromRels rels sm)) = fst ` set (concat res) \<union> set left"
    by (simp add: g image_Un image_image)
  moreover have "fst ` set (concat res) \<union> set left = set rels"
    using rels by (fastforce simp: left_def)
  moreover have "same_eset (GetAttrEsetFromRels rels sm) - Id = same_eset res - Id"
    by (auto simp: g) (auto simp: same_eset_def)
  moreover have "same_eset res - Id =
      {(x, y) \<in> same_eset (sm_attrEsets sm). fst x \<in> set rels \<and> fst y \<in> set rels} - Id" (is "?l = ?r")
  proof (rule equalityI; rule subrelI)
    fix x y assume "(x, y) \<in> ?r"
    then obtain fs where fs: "fs \<in> set (sm_attrEsets sm)" "x \<in> set fs" "y \<in> set fs"
      "fst x \<in> set rels" "fst y \<in> set rels" "x \<noteq> y"
      by (auto simp: same_eset_def)
    let ?es = "filter (\<lambda>a. fst a \<in> set rels) fs"
    have "std_set ?es" using esets_ok_std_set [OF assms(1) fs(1)] by (simp add: std_set_def sorted_wrt_filter)
    moreover have "x \<in> set ?es" "y \<in> set ?es" using fs(2-5) by simp_all
    ultimately have "length ?es > 1" using fs(6) length_gt_1_iff by blast
    then have "?es \<in> set res" using fs(1) mem by blast
    then show "(x, y) \<in> ?l" using fs(2-6) by (auto simp: same_eset_def intro!: bexI [of _ ?es])
  qed (auto simp: same_eset_def mem)
  ultimately show ?thesis by metis
qed

theorem GetAttrEsetFromRels_covers_witness:
  "esets_ok (GetAttrEsetFromRels [0, 2] (StatisticManager_init\<lparr>sm_attrEsets := [[(0, 1), (1, 0), (2, 3)]]\<rparr>)) \<and>
    fst ` set (concat (GetAttrEsetFromRels [0, 2]
      (StatisticManager_init\<lparr>sm_attrEsets := [[(0, 1), (1, 0), (2, 3)]]\<rparr>))) = set [0, 2] \<and>
    same_eset (GetAttrEsetFromRels [0, 2]
      (StatisticManager_init\<lparr>sm_attrEsets := [[(0, 1), (1, 0), (2, 3)]]\<rparr>)) - Id =
      {(x, y) \<in> same_eset (sm_attrEsets (StatisticManager_init\<lparr>sm_attrEsets := [[(0, 1), (1, 0), (2, 3)]]\<rparr>)).
        fst x \<in> set [0, 2] \<and> fst y \<in> set [0, 2]} - Id"
  by (rule GetAttrEsetFromRels_covers) (simp_all add: esets_ok_def std_set_def)

end
