(* ===== verification/StatEstimate.thy ===== *)
theory StatEstimate
  imports StatManager
begin

text \<open>
  The estimation half of \<open>StatisticManager\<close>
  (\<^verbatim>\<open>duckdb/src/include/duckdb/starce/starce.hpp\<close>): \<open>GetStatisticsFromEset\<close> and
  \<open>EstimateCardinality\<close> with its three predicate methods, the merging loop over a
  union-find forest, and the product over the roots. The clock of the estimate times is an
  argument.
\<close>

section \<open>Statistics of a star\<close>

fun merge_pieces :: "EqualSet list \<Rightarrow> bool \<Rightarrow> DSStatistic \<Rightarrow> StatisticManager \<Rightarrow> DSStatistic res" where
  "merge_pieces [] is_first result sm = Inr result"
| "merge_pieces (sub # subs) is_first result sm =
     (case sm_statistics sm sub of
        None \<Rightarrow> Inl (Runtime_error ''No statistics for subset'')
      | Some ds \<Rightarrow>
          if is_first
          then merge_pieces subs False (ds\<lparr>st_precision := sm_CompressPrecision sm\<rparr>) sm
          else res_bind (MergeByCenter result ds) (\<lambda>r. merge_pieces subs False r sm))"

definition count_eset_size :: "nat \<Rightarrow> StatisticManager \<Rightarrow> StatisticManager" where
  "count_eset_size n sm =
     sm\<lparr>sm_esetSizeCount := (sm_esetSizeCount sm)
          (n \<mapsto> (case sm_esetSizeCount sm n of None \<Rightarrow> 0 | Some k \<Rightarrow> k) + 1)\<rparr>"

definition GetStatisticsFromEset :: "EqualSet \<Rightarrow> DSStatistic smx" where
  "GetStatisticsFromEset es =
     sx_bind (sx_read (\<lambda>sm. Inr (sm_EnableStarSplit sm))) (\<lambda>split.
       if \<not> split then
         sx_bind (sx_mod (count_eset_size (length (Entries es)))) (\<lambda>_.
           sx_read (\<lambda>sm. case sm_statistics sm es of
               None \<Rightarrow> Inl (Runtime_error ''No statistics for'')
             | Some st \<Rightarrow> Inr st))
       else
         sx_read (\<lambda>sm. res_bind (Split es (sm_MaxStarSize sm)) (\<lambda>subs.
           merge_pieces subs True (DSStatistic_tables [] (sm_CompressPrecision sm)) sm)))"

definition eset_statistics :: "AttrEset \<Rightarrow> DSStatistic smx" where
  "eset_statistics attrEset =
     sx_bind (sx_read (GetEqualSetFromAttrEset attrEset)) (\<lambda>(es, tableIdx).
     sx_bind (GetStatisticsFromEset es) (\<lambda>st.
       sx_read (\<lambda>_. DSStatistic_rename st tableIdx)))"

definition initial_statistics :: "AttrEset list \<Rightarrow> DSStatistic list smx" where
  "initial_statistics ess =
     sx_for (\<lambda>es acc. sx_bind (eset_statistics es) (\<lambda>st. sx_ret (acc @ [st]))) ess []"

section \<open>Predicates of single tables\<close>

definition has_filter :: "nat \<Rightarrow> StatisticManager \<Rightarrow> bool res" where
  "has_filter rel sm = res_map (\<lambda>f. f \<noteq> '''') (map_at (sm_filterString sm) rel)"

definition table_ndv :: "nat \<Rightarrow> StatisticManager \<Rightarrow> int res" where
  "table_ndv rel sm = res_bind (map_at (sm_tableName sm) rel) (\<lambda>t. sm_GetNDV t sm)"

text \<open>
  \<open>PredMethod = 0\<close>: merge with a sequence of degree 1 for the filtered rows, pulled towards
  the average. The quotient \<open>fc\<close> is computed and not used, so only the exceptions of its
  operands matter.
\<close>

definition pm0_attr :: "Attribute \<Rightarrow> DSStatistic \<Rightarrow> DSStatistic smx" where
  "pm0_attr attr st =
     sx_bind (sx_read (has_filter (fst attr))) (\<lambda>filtered.
       if \<not> filtered then sx_ret st
       else
         sx_bind (GetTableCard (fst attr)) (\<lambda>_.
         sx_bind (sx_read (table_ndv (fst attr))) (\<lambda>_.
         sx_bind (GetTableCard (fst attr)) (\<lambda>crd.
           sx_read (\<lambda>sm.
             res_bind (AdjustToAverage (sm_relNDV sm) (sm_PredicateAdjustRate sm)
                         (DSStatistic_single (to_string (fst attr)) (of_int crd) (sm_CompressPrecision sm)))
               (\<lambda>singleStats. Merge st singleStats (to_string (fst attr))))))))"

text \<open>
  \<open>PredMethod = 2\<close>: the first \<open>filtered_card\<close> keys get the factor \<open>overlap_factor\<close>, the
  others \<open>tail_factor\<close>. \<open>ds[table_name]\<close> creates the entry when it is missing.
\<close>

fun pm2_buckets :: "real \<Rightarrow> real \<Rightarrow> int \<Rightarrow> real \<Rightarrow> int list \<Rightarrow> int \<Rightarrow> DegreeSequence \<Rightarrow> DegreeSequence" where
  "pm2_buckets overlap_factor tail_factor fc_vals precision [] pos ds = ds"
| "pm2_buckets overlap_factor tail_factor fc_vals precision (c # cs) pos ds =
     (let overlap = (if pos < fc_vals then min c (fc_vals - pos) else 0);
          ds1 = (if pos < fc_vals then AddDegree overlap_factor overlap precision ds else ds);
          tail = c - overlap;
          ds2 = (if tail > 0 \<and> tail_factor > 0 then AddDegree tail_factor tail precision ds1 else ds1)
      in pm2_buckets overlap_factor tail_factor fc_vals precision cs (pos + c) ds2)"

definition pm2_filter :: "real \<Rightarrow> int \<Rightarrow> real \<Rightarrow> real \<Rightarrow> DegreeSequence \<Rightarrow> DegreeSequence" where
  "pm2_filter filtered_card ndv k precision orig =
     (let filter_coeff = filtered_card / of_int ndv
      in FinishCollection
           (pm2_buckets (filter_coeff * (1 - k) + 1 * k) (filter_coeff * (1 - k)) (trunc filtered_card)
              precision (ds_count orig) 0 empty_DS))"

definition pm2_attr :: "Attribute \<Rightarrow> DSStatistic \<Rightarrow> DSStatistic smx" where
  "pm2_attr attr st =
     sx_bind (sx_read (has_filter (fst attr))) (\<lambda>filtered.
       if \<not> filtered then sx_ret st
       else
         sx_bind (GetTableCard (fst attr)) (\<lambda>crd.
         sx_bind (sx_read (table_ndv (fst attr))) (\<lambda>ndv.
           if ndv = 0 then sx_throw (Not_finite ''filtered_card / ndv'')
           else
             sx_read (\<lambda>sm.
               let table_name = to_string (fst attr);
                   filter_ds = pm2_filter (of_int crd) ndv (sm_PredicateAdjustRate sm)
                                 (sm_CompressPrecision sm) (ds_at st table_name);
                   singleStats = upd_ds table_name (\<lambda>_. filter_ds)
                                   (DSStatistic_single table_name (of_int crd) (sm_CompressPrecision sm))
               in Merge (upd_ds table_name (\<lambda>d. d) st) singleStats table_name))))"

text \<open>
  The other values of \<open>PredMethod\<close>: one coefficient for the whole star, the filtered tables in
  ascending order of their own coefficients, the \<open>j\<close>-th one damped by the root of order
  \<open>j + 1\<close>. Elements with equal coefficients keep their order, as \<open>std::sort\<close> does for
  short vectors.
\<close>

definition c_pow :: "real \<Rightarrow> real \<Rightarrow> real res" where
  "c_pow x y =
     (if x < 0 then (if y = 1 then Inr x else Inl (Not_finite ''pow'')) else Inr (x powr y))"

definition pm1_coeffs :: "AttrEset \<Rightarrow> (real \<times> Attribute) list smx" where
  "pm1_coeffs es =
     sx_for (\<lambda>attr acc.
       sx_bind (sx_read (has_filter (fst attr))) (\<lambda>filtered.
         if \<not> filtered then sx_ret acc
         else
           sx_bind (GetTableCard (fst attr)) (\<lambda>crd.
           sx_bind (sx_read (table_ndv (fst attr))) (\<lambda>ndv.
             if ndv = 0 then sx_throw (Not_finite ''GetTableCard / GetNDV'')
             else sx_ret (acc @ [(of_int crd / of_int ndv, attr)])))))
       es []"

definition refine_coeff :: "StatisticManager \<Rightarrow> EqualSet \<Rightarrow> real \<Rightarrow> real" where
  "refine_coeff sm es coeff =
     (case sm_statistics sm es of
        None \<Rightarrow> coeff
      | Some st \<Rightarrow> if st_card st > 0 \<and> coeff < 1 / st_card st then 1 / st_card st else coeff)"

fun pm1_coeff :: "StatisticManager \<Rightarrow> nat \<Rightarrow> (real \<times> Attribute) list \<Rightarrow> AttrEset \<Rightarrow> real \<Rightarrow> real res" where
  "pm1_coeff sm j [] refine coeff = Inr coeff"
| "pm1_coeff sm j ((single_coeff, attr) # cs) refine coeff =
     res_bind (c_pow single_coeff (1 / of_nat (j + 1))) (\<lambda>p.
       let refine' = set_insert attr refine
       in res_bind (GetEqualSetFromAttrEset refine' sm) (\<lambda>(es, _).
            pm1_coeff sm (Suc j) cs refine' (refine_coeff sm es (coeff * p))))"

definition pm1_eset :: "AttrEset \<Rightarrow> DSStatistic \<Rightarrow> DSStatistic smx" where
  "pm1_eset es st =
     sx_bind (pm1_coeffs es) (\<lambda>cs.
       sx_read (\<lambda>sm. res_map (\<lambda>coeff. ApplyFilterCoefficient coeff st)
                       (pm1_coeff sm 0 (sort_key fst cs) [] 1)))"

definition filter_eset :: "int \<Rightarrow> AttrEset \<Rightarrow> DSStatistic \<Rightarrow> DSStatistic smx" where
  "filter_eset method es st =
     (if method = 0 then sx_for pm0_attr es st
      else if method = 2 then sx_for pm2_attr es st
      else pm1_eset es st)"

definition filter_statistics :: "AttrEset list \<Rightarrow> DSStatistic list \<Rightarrow> DSStatistic list smx" where
  "filter_statistics ess sts =
     sx_bind (sx_read (\<lambda>sm. Inr (sm_PredMethod sm))) (\<lambda>method.
       sx_for (\<lambda>(es, st) acc. sx_bind (filter_eset method es st) (\<lambda>st'. sx_ret (acc @ [st'])))
         (zip ess sts) [])"

section \<open>Merging over the union-find forest\<close>

text \<open>
  The \<open>while\<close> loop to the root, with fuel. A path without repetition has at most as many
  steps as there are nodes, so the number of nodes is enough for a forest.
\<close>

fun find_root :: "nat \<Rightarrow> nat list \<Rightarrow> nat \<Rightarrow> nat option" where
  "find_root 0 parent r = None"
| "find_root (Suc fuel) parent r =
     (if parent ! r = r then Some r else find_root fuel parent (parent ! r))"

record merge_vars =
  mv_parent :: "nat list"
  mv_attrEsets :: "AttrEset list"
  mv_dsStats :: "DSStatistic list"

definition merge_roots :: "StatisticManager \<Rightarrow> nat \<Rightarrow> nat \<Rightarrow> merge_vars \<Rightarrow> merge_vars res" where
  "merge_roots sm root1 root2 v =
     (let commonRel = GetCommonRelation (mv_attrEsets v ! root1) (mv_attrEsets v ! root2)
      in res_bind (AdjustToAverage (sm_relNDV sm) (sm_AdjustRate sm) (mv_dsStats v ! root1)) (\<lambda>d1.
         res_bind (AdjustToAverage (sm_relNDV sm) (sm_AdjustRate sm) (mv_dsStats v ! root2)) (\<lambda>d2.
         res_bind (Merge (NormalizeSubOneDegrees d1) (NormalizeSubOneDegrees d2) (to_string commonRel)) (\<lambda>d.
           Inr \<lparr>mv_parent = (mv_parent v)[root2 := root1],
                mv_attrEsets = (mv_attrEsets v)[root1 :=
                  fold set_insert (mv_attrEsets v ! root2) (mv_attrEsets v ! root1)],
                mv_dsStats = (mv_dsStats v)[root1 := d, root2 := NormalizeSubOneDegrees d2]\<rparr>))))"

definition merge_pair :: "StatisticManager \<Rightarrow> nat \<times> nat \<Rightarrow> merge_vars \<Rightarrow> merge_vars res" where
  "merge_pair sm ij v =
     (if CanMerge (mv_attrEsets v ! fst ij) (mv_attrEsets v ! snd ij) then
        (case (find_root (length (mv_parent v)) (mv_parent v) (fst ij),
               find_root (length (mv_parent v)) (mv_parent v) (snd ij)) of
           (Some root1, Some root2) \<Rightarrow>
             if root1 \<noteq> root2 then merge_roots sm root1 root2 v else Inr v
         | _ \<Rightarrow> Inl (Undefined ''while (parent[root] != root)''))
      else Inr v)"

definition pairs_below :: "nat \<Rightarrow> (nat \<times> nat) list" where
  "pairs_below n = concat (map (\<lambda>i. map (\<lambda>j. (i, j)) [Suc i..<n]) [0..<n])"

definition merge_phase :: "StatisticManager \<Rightarrow> AttrEset list \<Rightarrow> DSStatistic list \<Rightarrow> merge_vars res" where
  "merge_phase sm ess sts =
     res_fold (merge_pair sm) (pairs_below (length ess))
       \<lparr>mv_parent = [0..<length ess], mv_attrEsets = ess, mv_dsStats = sts\<rparr>"

definition roots_product :: "merge_vars \<Rightarrow> real" where
  "roots_product v =
     fold (\<lambda>i crd. if mv_parent v ! i \<noteq> i then crd else crd * st_card (mv_dsStats v ! i))
       [0..<length (mv_parent v)] 1"

section \<open>\<open>EstimateCardinality\<close>\<close>

text \<open>The branch \<open>UseSubqueryCard\<close>: look the subquery up, and record its relative error.\<close>

definition subquery_card :: "string \<Rightarrow> real smx" where
  "subquery_card subquery =
     sx_bind (sx_read (\<lambda>sm. case sm_subqueryCard sm subquery of
           None \<Rightarrow> Inl (Runtime_error ''No subquery card for'') | Some c \<Rightarrow> Inr c)) (\<lambda>c.
     sx_bind (sx_read (\<lambda>sm. Inr (sm_IsCollectingRelErr sm))) (\<lambda>collecting.
     sx_bind (if \<not> collecting then sx_ret ()
              else sx_bind (sx_read (\<lambda>sm. map_at (sm_realCard sm) subquery)) (\<lambda>r.
                     if r = 0 then sx_throw (Not_finite ''relative error'')
                     else sx_mod (\<lambda>sm. sm\<lparr>sm_relErr := sm_relErr sm @ [(sm_query_id sm, of_int c / of_int r)]\<rparr>)))
       (\<lambda>_. sx_ret (of_int c))))"

definition estimate_from_stats :: "AttrEset list \<Rightarrow> real smx" where
  "estimate_from_stats ess =
     sx_bind (initial_statistics ess) (\<lambda>sts.
     sx_bind (filter_statistics ess sts) (\<lambda>sts.
       sx_read (\<lambda>sm. res_map roots_product (merge_phase sm ess sts))))"

definition record_estimate :: "real \<Rightarrow> string \<Rightarrow> real \<Rightarrow> StatisticManager \<Rightarrow> StatisticManager" where
  "record_estimate elapsed subquery crd sm =
     (let sm1 = (if sm_IsRecordEstimateTime sm
                 then sm\<lparr>sm_RecordingSubqueryTimes := (sm_RecordingSubqueryTimes sm)(subquery \<mapsto> elapsed)\<rparr>
                 else sm)
      in if sm_IsRecordingSubquery sm1 then RecordSubquery subquery crd sm1 else sm1)"

definition EstimateCardinality :: "real \<Rightarrow> nat list \<Rightarrow> real smx" where
  "EstimateCardinality elapsed rels =
     sx_bind (sx_read (\<lambda>sm. Inr (GetAttrEsetFromRels rels sm))) (\<lambda>ess.
     sx_bind (sx_read (\<lambda>sm. if sm_IsRecordingSubquery sm \<or> sm_IsRecordEstimateTime sm \<or> sm_UseSubqueryCard sm
                            then GetSubquery rels ess sm else Inr '''')) (\<lambda>subquery.
     sx_bind (sx_read (\<lambda>sm. Inr (sm_UseSubqueryCard sm))) (\<lambda>injected.
       if injected then subquery_card subquery
       else
         sx_bind (estimate_from_stats ess) (\<lambda>crd.
         sx_bind (sx_mod (record_estimate elapsed subquery crd)) (\<lambda>_.
           sx_ret crd)))))"

end
