(* ===== verification/StatEstimate_Forest.thy ===== *)
theory StatEstimate_Forest
  imports StatEstimate StatManager_Esets
begin

text \<open>
  The merging loop of \<open>EstimateCardinality\<close>: the parent array is a forest, so the loops to
  the root end, and the trees are the components of the attribute sets that share a
  relation. The array is the second structure that maintains an equivalence (\<open>Equivalences\<close>).
\<close>

section \<open>Parent arrays\<close>

definition nonroots :: "nat list \<Rightarrow> nat" where
  "nonroots p = length (filter (\<lambda>i. p ! i \<noteq> i) [0..<length p])"

text \<open>Every node reaches a root, in at most as many steps as there are inner nodes.\<close>

definition forest :: "nat list \<Rightarrow> bool" where
  "forest p \<longleftrightarrow> (\<forall>i < length p. p ! i < length p \<and> find_root (Suc (nonroots p)) p i \<noteq> None)"

definition root_of :: "nat list \<Rightarrow> nat \<Rightarrow> nat option" where
  "root_of p i = find_root (length p) p i"

definition same_tree :: "nat list \<Rightarrow> (nat \<times> nat) set" where
  "same_tree p = {(i, j). i < length p \<and> j < length p \<and> root_of p i = root_of p j}"

definition link :: "nat \<Rightarrow> nat \<Rightarrow> nat list \<Rightarrow> nat list" where
  "link i j p =
     (case (root_of p i, root_of p j) of
        (Some root1, Some root2) \<Rightarrow> if root1 \<noteq> root2 then p[root2 := root1] else p
      | _ \<Rightarrow> p)"

lemma find_root_mono: "find_root k p i = Some r \<Longrightarrow> k \<le> l \<Longrightarrow> find_root l p i = Some r"
proof (induction k arbitrary: i l)
  case (Suc k)
  then obtain l' where "l = Suc l'" "k \<le> l'" by (cases l) auto
  then show ?case using Suc by (auto split: if_splits)
qed simp

lemma find_root_fixed: "find_root k p i = Some r \<Longrightarrow> p ! r = r"
  by (induction k arbitrary: i) (auto split: if_splits)

lemma find_root_range:
  "find_root k p i = Some r \<Longrightarrow> i < length p \<Longrightarrow> \<forall>j < length p. p ! j < length p \<Longrightarrow> r < length p"
  by (induction k arbitrary: i) (auto split: if_splits)

lemma nonroots_less:
  assumes "r < length p" "p ! r = r"
  shows "nonroots p < length p"
proof -
  have "filter (\<lambda>i. p ! i \<noteq> i) [0..<length p] \<noteq> [0..<length p]"
    using assms by (metis (mono_tags, lifting) atLeastLessThan_iff filter_id_conv set_upt zero_le)
  then show ?thesis
    unfolding nonroots_def by (metis (no_types, lifting) diff_zero filter_cong length_filter_less
        length_upt filter_id_conv)
qed

lemma forest_root:
  assumes "forest p" "i < length p"
  shows "\<exists>r < length p. root_of p i = Some r \<and> p ! r = r"
proof -
  obtain r where r: "find_root (Suc (nonroots p)) p i = Some r"
    using assms by (auto simp: forest_def)
  have f: "p ! r = r" using r by (rule find_root_fixed)
  have b: "r < length p" using find_root_range [OF r assms(2)] assms(1) by (simp add: forest_def)
  have "Suc (nonroots p) \<le> length p" using nonroots_less [OF b f] by simp
  then show ?thesis using find_root_mono [OF r] b f by (auto simp: root_of_def)
qed

lemma root_of_root: "r < length p \<Longrightarrow> p ! r = r \<Longrightarrow> root_of p r = Some r"
  by (cases "length p") (simp_all add: root_of_def)

lemma forest_upt: "forest [0..<n]"
  by (simp add: forest_def)

lemma same_tree_upt: "same_tree [0..<n] = Id_on {..<n}"
proof -
  have "i < n \<Longrightarrow> root_of [0..<n] i = Some i" for i
    by (rule root_of_root) simp_all
  then show ?thesis by (auto simp: same_tree_def Id_on_def)
qed

section \<open>Linking two roots\<close>

lemma find_root_link:
  assumes "find_root k p i = Some r" "i < length p" "\<forall>j < length p. p ! j < length p"
    "p ! r1 = r1" "p ! r2 = r2" "r1 \<noteq> r2" "r1 < length p" "r2 < length p"
  shows "find_root (Suc k) (p[r2 := r1]) i = Some (if r = r2 then r1 else r)"
  using assms(1,2)
proof (induction k arbitrary: i)
  case (Suc k)
  show ?case
  proof (cases "p ! i = i")
    case True
    then show ?thesis using Suc.prems assms(4-8) by (simp add: nth_list_update)
  next
    case False
    then have "i \<noteq> r2" using assms(5) by auto
    moreover have "find_root k p (p ! i) = Some r" "p ! i < length p"
      using False Suc.prems assms(3) by auto
    ultimately show ?thesis
      using Suc.IH [of "p ! i"] False by (simp del: find_root.simps add: find_root.simps(2) [of "Suc k"])
  qed
qed simp

lemma nonroots_link:
  assumes "r2 < length p" "p ! r2 = r2" "r1 \<noteq> r2"
  shows "nonroots (p[r2 := r1]) = Suc (nonroots p)"
proof -
  have e: "{i. i < length p \<and> p[r2 := r1] ! i \<noteq> i} = insert r2 {i. i < length p \<and> p ! i \<noteq> i}"
    using assms by (auto simp: nth_list_update)
  have "nonroots q = card {i. i < length q \<and> q ! i \<noteq> i}" for q
    unfolding nonroots_def by (subst distinct_card [symmetric]) (auto intro!: arg_cong [of _ _ card])
  then show ?thesis using assms e by simp
qed

lemma link_roots:
  assumes "forest p" "r1 < length p" "r2 < length p" "p ! r1 = r1" "p ! r2 = r2" "r1 \<noteq> r2"
  shows "forest (p[r2 := r1]) \<and>
    (\<forall>i < length p. root_of (p[r2 := r1]) i = (if root_of p i = Some r2 then Some r1 else root_of p i))"
proof -
  have rng: "\<forall>j < length p. p ! j < length p" using assms(1) by (simp add: forest_def)
  have f: "\<exists>r. root_of p i = Some r \<and>
      find_root (Suc (nonroots (p[r2 := r1]))) (p[r2 := r1]) i = Some (if r = r2 then r1 else r)"
    if i: "i < length p" for i
  proof -
    obtain r where r: "find_root (Suc (nonroots p)) p i = Some r"
      using assms(1) i unfolding forest_def by blast
    moreover have "root_of p i = Some r"
      using find_root_mono [OF r, of "length p"] nonroots_less [OF assms(2,4)] by (simp add: root_of_def)
    ultimately show ?thesis
      using find_root_link [OF r i rng assms(4,5,6,2,3)] nonroots_link [OF assms(3,5,6)] by auto
  qed
  have frst: "forest (p[r2 := r1])"
    unfolding forest_def
  proof (intro allI impI conjI)
    fix i assume i: "i < length (p[r2 := r1])"
    show "p[r2 := r1] ! i < length (p[r2 := r1])" using i rng assms(2) by (cases "i = r2") simp_all
    show "find_root (Suc (nonroots (p[r2 := r1]))) (p[r2 := r1]) i \<noteq> None"
      using f [of i] i by (metis length_list_update option.distinct(1))
  qed
  have "root_of (p[r2 := r1]) i = (if root_of p i = Some r2 then Some r1 else root_of p i)"
    if i: "i < length p" for i
  proof -
    obtain r where r: "root_of p i = Some r"
      "find_root (Suc (nonroots (p[r2 := r1]))) (p[r2 := r1]) i = Some (if r = r2 then r1 else r)"
      using f [OF i] by blast
    have "p[r2 := r1] ! r1 = r1" using assms(4,6) by simp
    then have "Suc (nonroots (p[r2 := r1])) \<le> length p"
      using nonroots_less [of r1 "p[r2 := r1]"] assms(2) by simp
    then show ?thesis using find_root_mono [OF r(2)] r(1) by (simp add: root_of_def)
  qed
  then show ?thesis using frst by blast
qed

lemma sym_same_tree: "sym (same_tree p)"
  by (auto simp: same_tree_def sym_def)

lemma trans_same_tree: "trans (same_tree p)"
  by (auto simp: same_tree_def trans_def)

lemma same_tree_image: "i < length p \<Longrightarrow> same_tree p `` {i} = {k. k < length p \<and> root_of p k = root_of p i}"
  by (auto simp: same_tree_def)

lemma link_refines:
  assumes "forest p" "i < length p" "j < length p"
  shows "forest (link i j p) \<and> same_tree (link i j p) = add_pair i j (same_tree p)"
proof -
  obtain r1 r2 where r: "root_of p i = Some r1" "p ! r1 = r1" "r1 < length p"
      "root_of p j = Some r2" "p ! r2 = r2" "r2 < length p"
    using forest_root [OF assms(1,2)] forest_root [OF assms(1,3)] by blast
  show ?thesis
  proof (cases "r1 = r2")
    case True
    then have "(i, j) \<in> same_tree p" using r assms by (simp add: same_tree_def)
    then show ?thesis
      using True r assms(1) by (simp add: link_def add_pair_related sym_same_tree trans_same_tree)
  next
    case False
    have l: "link i j p = p[r2 := r1]" using False r by (simp add: link_def)
    have lr: "forest (p[r2 := r1])"
      "\<And>k. k < length p \<Longrightarrow> root_of (p[r2 := r1]) k = (if root_of p k = Some r2 then Some r1 else root_of p k)"
      using link_roots [OF assms(1) r(3,6,2,5) False] by auto
    have c: "{i, j} \<union> same_tree p `` {i, j} = {k. k < length p \<and> (root_of p k = Some r1 \<or> root_of p k = Some r2)}"
      using same_tree_image [OF assms(2)] same_tree_image [OF assms(3)] r(1,4) assms(2,3)
        Image_Un [of "same_tree p" "{i}" "{j}"] by auto
    have "add_pair i j (same_tree p) = same_tree (p[r2 := r1])"
      unfolding add_pair_classes [OF sym_same_tree trans_same_tree] c
      by (auto simp: same_tree_def lr(2) split: if_splits)
    then show ?thesis using l lr(1) by simp
  qed
qed

lemma length_link [simp]: "length (link i j p) = length p"
  by (simp add: link_def split: option.split)

interpretation union_find: equivalence_builder forest same_tree link "\<lambda>i p. i < length p"
  by unfold_locales (simp_all add: link_refines)


section \<open>The merging loop\<close>

definition eset_rels :: "AttrEset \<Rightarrow> nat set" where
  "eset_rels es = fst ` set es"

lemma CanMerge_iff: "CanMerge es fs \<longleftrightarrow> eset_rels es \<inter> eset_rels fs \<noteq> {}"
  by (force simp: CanMerge_def eset_rels_def list_ex_iff)

lemma GetCommonRelation_common:
  assumes "CanMerge es fs"
  shows "GetCommonRelation es fs \<in> eset_rels es \<inter> eset_rels fs"
proof -
  obtain a where a: "find (\<lambda>a1. list_ex (\<lambda>a2. fst a1 = fst a2) fs) es = Some a"
    using assms unfolding CanMerge_def list_ex_iff [of _ es] by (metis find_None_iff option.exhaust)
  then have "a \<in> set es" "list_ex (\<lambda>a2. fst a = fst a2) fs"
    by (auto simp: find_Some_iff)
  then show ?thesis
    using a by (force simp: GetCommonRelation_def eset_rels_def list_ex_iff)
qed

text \<open>The relations of all sets in the tree of a node.\<close>

definition tree_rels :: "AttrEset list \<Rightarrow> nat list \<Rightarrow> nat \<Rightarrow> nat set" where
  "tree_rels ess p i = \<Union> {eset_rels (ess ! k) | k. (i, k) \<in> same_tree p}"

definition share :: "AttrEset list \<Rightarrow> (nat \<times> nat) set" where
  "share ess = {(i, j). i < length ess \<and> j < length ess \<and> CanMerge (ess ! i) (ess ! j)}"

text \<open>
  The invariant of the loop over the pairs: the array is a forest whose trees hold only sets
  connected by shared relations; a node carries at least its own relations and at most those
  of its tree, and a root carries exactly those of its tree.
\<close>

definition merge_inv :: "AttrEset list \<Rightarrow> merge_vars \<Rightarrow> bool" where
  "merge_inv ess v \<longleftrightarrow>
     length (mv_parent v) = length ess \<and> length (mv_attrEsets v) = length ess \<and>
     forest (mv_parent v) \<and>
     same_tree (mv_parent v) \<subseteq> pairs_closure (share ess) \<union> Id \<and>
     (\<forall>i < length ess. eset_rels (ess ! i) \<subseteq> eset_rels (mv_attrEsets v ! i) \<and>
        eset_rels (mv_attrEsets v ! i) \<subseteq> tree_rels ess (mv_parent v) i \<and>
        (mv_parent v ! i = i \<longrightarrow> eset_rels (mv_attrEsets v ! i) = tree_rels ess (mv_parent v) i))"

lemma tree_rels_same: "(i, j) \<in> same_tree p \<Longrightarrow> tree_rels ess p i = tree_rels ess p j"
  unfolding tree_rels_def using symD [OF sym_same_tree] transD [OF trans_same_tree] by metis

lemma tree_rels_mono: "same_tree p \<subseteq> same_tree q \<Longrightarrow> tree_rels ess p i \<subseteq> tree_rels ess q i"
  unfolding tree_rels_def by blast

lemma tree_rels_root:
  assumes "forest p" "i < length p" "root_of p i = Some r"
  shows "\<And>ess. tree_rels ess p i = tree_rels ess p r" "r < length p" "p ! r = r"
proof -
  show r: "r < length p" "p ! r = r" using forest_root [OF assms(1,2)] assms(3) by auto
  have "(i, r) \<in> same_tree p" using assms r by (simp add: same_tree_def root_of_root)
  then show "tree_rels ess p i = tree_rels ess p r" for ess by (rule tree_rels_same)
qed

lemma tree_rels_link:
  assumes "forest p" "r1 < length p" "r2 < length p" "p ! r1 = r1" "p ! r2 = r2" "r1 \<noteq> r2"
  shows "tree_rels ess (p[r2 := r1]) r1 = tree_rels ess p r1 \<union> tree_rels ess p r2"
proof -
  have r: "root_of (p[r2 := r1]) i = (if root_of p i = Some r2 then Some r1 else root_of p i)"
    if "i < length p" for i using link_roots [OF assms] that by blast
  have "root_of p r1 = Some r1" "root_of p r2 = Some r2" using assms by (simp_all add: root_of_root)
  then have "(r1, k) \<in> same_tree (p[r2 := r1]) \<longleftrightarrow> (r1, k) \<in> same_tree p \<or> (r2, k) \<in> same_tree p" for k
    using assms(2,3,6) r by (auto simp: same_tree_def)
  then show ?thesis unfolding tree_rels_def by blast
qed

lemma tree_rels_other:
  assumes "forest p" "r1 < length p" "r2 < length p" "p ! r1 = r1" "p ! r2 = r2" "r1 \<noteq> r2"
    "i < length p" "p ! i = i" "i \<noteq> r1" "i \<noteq> r2"
  shows "tree_rels ess (p[r2 := r1]) i = tree_rels ess p i"
proof -
  have r: "root_of (p[r2 := r1]) k = (if root_of p k = Some r2 then Some r1 else root_of p k)"
    if "k < length p" for k using link_roots [OF assms(1-6)] that by blast
  have "root_of p i = Some i" using assms by (simp add: root_of_root)
  then have "(i, k) \<in> same_tree (p[r2 := r1]) \<longleftrightarrow> (i, k) \<in> same_tree p" for k
    using assms(7,9,10) r by (auto simp: same_tree_def)
  then show ?thesis by (simp add: tree_rels_def)
qed

lemma add_pair_least:
  assumes "trans Q" "sym Q" "R \<subseteq> Q" "(a, b) \<in> Q"
  shows "add_pair a b R \<subseteq> Q"
proof -
  have "R \<union> {(a, b), (b, a)} \<subseteq> Q" using assms(3,4) symD [OF assms(2)] by simp
  then have "add_pair a b R \<subseteq> Q\<^sup>+" unfolding add_pair_def by (rule trancl_mono_subset)
  then show ?thesis using trancl_id [OF assms(1)] by simp
qed

lemma sym_pairs_closure: "sym (pairs_closure S)"
  unfolding pairs_closure_def by (intro sym_trancl) (auto simp: sym_def)

lemma trans_pairs_closure: "trans (pairs_closure S)"
  by (simp add: pairs_closure_def)

text \<open>Two nodes whose trees have a relation in common are connected by shared relations.\<close>

lemma common_relation_connected:
  assumes "length p = length ess" "same_tree p \<subseteq> pairs_closure (share ess) \<union> Id"
    "tree_rels ess p i \<inter> tree_rels ess p j \<noteq> {}"
  shows "(i, j) \<in> pairs_closure (share ess)"
proof -
  obtain k l where kl: "(i, k) \<in> same_tree p" "(j, l) \<in> same_tree p"
    "eset_rels (ess ! k) \<inter> eset_rels (ess ! l) \<noteq> {}"
    using assms(3) unfolding tree_rels_def by blast
  have "(k, l) \<in> share ess"
    using kl assms(1) by (simp add: share_def CanMerge_iff same_tree_def)
  then have m: "(k, l) \<in> pairs_closure (share ess)" by (auto simp: pairs_closure_def)
  have "(i, k) \<in> pairs_closure (share ess) \<or> i = k" "(l, j) \<in> pairs_closure (share ess) \<or> l = j"
    using subsetD [OF assms(2) kl(1)] subsetD [OF assms(2) kl(2)]
      symD [OF sym_pairs_closure, of j l "share ess"] by auto
  then show ?thesis
    using m transD [OF trans_pairs_closure, of _ _ "share ess"] by (elim disjE) blast+
qed


lemma eset_rels_fold [simp]: "eset_rels (fold set_insert es fs) = eset_rels es \<union> eset_rels fs"
  by (simp add: eset_rels_def image_Un)

lemma merge_inv_link:
  assumes inv: "merge_inv ess v" and r: "r1 < length ess" "r2 < length ess"
    "mv_parent v ! r1 = r1" "mv_parent v ! r2 = r2" "r1 \<noteq> r2"
    and common: "eset_rels (mv_attrEsets v ! r1) \<inter> eset_rels (mv_attrEsets v ! r2) \<noteq> {}"
  shows "merge_inv ess \<lparr>mv_parent = (mv_parent v)[r2 := r1],
      mv_attrEsets = (mv_attrEsets v)[r1 := fold set_insert (mv_attrEsets v ! r2) (mv_attrEsets v ! r1)],
      mv_dsStats = ds\<rparr>"
proof -
  let ?p = "mv_parent v" and ?A = "mv_attrEsets v"
  have l: "length ?p = length ess" "length ?A = length ess" and f: "forest ?p"
    and st: "same_tree ?p \<subseteq> pairs_closure (share ess) \<union> Id"
    using inv by (simp_all add: merge_inv_def)
  have sub: "eset_rels (ess ! i) \<subseteq> eset_rels (?A ! i)" "eset_rels (?A ! i) \<subseteq> tree_rels ess ?p i"
      "?p ! i = i \<Longrightarrow> eset_rels (?A ! i) = tree_rels ess ?p i" if "i < length ess" for i
    using inv that unfolding merge_inv_def by blast+
  have lr: "forest (?p[r2 := r1])" using link_roots [OF f] r l by simp
  have root: "root_of ?p r1 = Some r1" "root_of ?p r2 = Some r2" using r l by (simp_all add: root_of_root)
  have "link r1 r2 ?p = ?p[r2 := r1]" using root r(5) by (simp add: link_def)
  then have same: "same_tree (?p[r2 := r1]) = add_pair r1 r2 (same_tree ?p)"
    using link_refines [OF f, of r1 r2] r l by simp
  have "(r1, r2) \<in> pairs_closure (share ess)"
    using common_relation_connected [OF l(1) st, of r1 r2] sub(2) [OF r(1)] sub(2) [OF r(2)] common by blast
  moreover have "trans (pairs_closure (share ess) \<union> Id)"
    by (rule transI) (use transD [OF trans_pairs_closure, of _ _ "share ess"] in blast)
  moreover have "sym (pairs_closure (share ess) \<union> Id)"
    by (rule symI) (use symD [OF sym_pairs_closure, of _ _ "share ess"] in blast)
  ultimately have "same_tree (?p[r2 := r1]) \<subseteq> pairs_closure (share ess) \<union> Id"
    unfolding same using st by (intro add_pair_least) auto
  moreover have mono: "tree_rels ess ?p i \<subseteq> tree_rels ess (?p[r2 := r1]) i" for i
    by (rule tree_rels_mono) (auto simp: same add_pair_def)
  have new: "tree_rels ess (?p[r2 := r1]) r1 = eset_rels (?A ! r1) \<union> eset_rels (?A ! r2)"
    using tree_rels_link [OF f] sub(3) r l by simp
  moreover have "eset_rels (?A ! i) = tree_rels ess (?p[r2 := r1]) i"
    if "i < length ess" "i \<noteq> r1" "?p[r2 := r1] ! i = i" for i
  proof -
    have "i \<noteq> r2" "?p ! i = i" using that r l by (auto simp: nth_list_update split: if_splits)
    then show ?thesis using that tree_rels_other [OF f] sub(3) r l by simp
  qed
  moreover have "eset_rels (?A ! i) \<subseteq> tree_rels ess (?p[r2 := r1]) i" if "i < length ess" for i
    using sub(2) [OF that] mono by blast
  moreover have A: "eset_rels (?A[r1 := fold set_insert (?A ! r2) (?A ! r1)] ! i) =
      (if i = r1 then eset_rels (?A ! r1) \<union> eset_rels (?A ! r2) else eset_rels (?A ! i))" for i
    using r(1) l(2) by (auto simp: nth_list_update)
  moreover have "eset_rels (ess ! r1) \<subseteq> eset_rels (?A ! r1) \<union> eset_rels (?A ! r2)"
    using sub(1) [OF r(1)] by blast
  ultimately show ?thesis
    using l lr sub(1) by (simp add: merge_inv_def)
qed

text \<open>What one iteration does: nothing, or a link of two roots that share a relation.\<close>

lemma merge_pair_cases:
  assumes "merge_inv ess v" "i < length ess" "j < length ess" "merge_pair sm (i, j) v = Inr v'"
  obtains (same) "v' = v" "CanMerge (mv_attrEsets v ! i) (mv_attrEsets v ! j) \<longrightarrow> (i, j) \<in> same_tree (mv_parent v)"
  | (linked) r1 r2 ds where "r1 < length ess" "r2 < length ess" "r1 \<noteq> r2"
      "mv_parent v ! r1 = r1" "mv_parent v ! r2 = r2"
      "root_of (mv_parent v) i = Some r1" "root_of (mv_parent v) j = Some r2"
      "CanMerge (mv_attrEsets v ! i) (mv_attrEsets v ! j)"
      "v' = \<lparr>mv_parent = (mv_parent v)[r2 := r1],
        mv_attrEsets = (mv_attrEsets v)[r1 := fold set_insert (mv_attrEsets v ! r2) (mv_attrEsets v ! r1)],
        mv_dsStats = ds\<rparr>"
proof -
  have p: "length (mv_parent v) = length ess" "forest (mv_parent v)"
    using assms(1) by (simp_all add: merge_inv_def)
  obtain r1 r2 where r: "root_of (mv_parent v) i = Some r1" "mv_parent v ! r1 = r1" "r1 < length ess"
      "root_of (mv_parent v) j = Some r2" "mv_parent v ! r2 = r2" "r2 < length ess"
    using forest_root [OF p(2)] assms(2,3) p(1) by metis
  show thesis
  proof (cases "CanMerge (mv_attrEsets v ! i) (mv_attrEsets v ! j) \<and> r1 \<noteq> r2")
    case True
    then have "merge_roots sm r1 r2 v = Inr v'"
      using assms(4) r(1,4) by (simp add: merge_pair_def root_of_def)
    then show thesis
      using linked [OF r(3,6) _ r(2,5,1,4)] True by (auto simp: merge_roots_def Let_def res_simps)
  next
    case False
    then have "v' = v"
      using assms(4) r(1,4) by (auto simp: merge_pair_def root_of_def split: if_splits)
    moreover have "(i, j) \<in> same_tree (mv_parent v)" if "CanMerge (mv_attrEsets v ! i) (mv_attrEsets v ! j)"
      using False that r assms(2,3) p(1) by (simp add: same_tree_def)
    ultimately show thesis using same by blast
  qed
qed

lemma tree_rels_at_root:
  assumes "merge_inv ess v" "i < length ess" "root_of (mv_parent v) i = Some r"
  shows "eset_rels (mv_attrEsets v ! i) \<subseteq> eset_rels (mv_attrEsets v ! r)"
proof -
  have f: "forest (mv_parent v)" "length (mv_parent v) = length ess"
    using assms(1) by (simp_all add: merge_inv_def)
  have "i < length (mv_parent v)" using assms(2) f(2) by simp
  note t = tree_rels_root [OF f(1) this assms(3)]
  have "eset_rels (mv_attrEsets v ! r) = tree_rels ess (mv_parent v) r"
    using t(2,3) f(2) assms(1) unfolding merge_inv_def by metis
  moreover have "eset_rels (mv_attrEsets v ! i) \<subseteq> tree_rels ess (mv_parent v) i"
    using assms(1,2) unfolding merge_inv_def by blast
  ultimately show ?thesis using t(1) by simp
qed

lemma merge_pair_inv:
  assumes "merge_inv ess v" "i < length ess" "j < length ess" "merge_pair sm (i, j) v = Inr v'"
  shows "merge_inv ess v' \<and> same_tree (mv_parent v) \<subseteq> same_tree (mv_parent v') \<and>
    (CanMerge (ess ! i) (ess ! j) \<longrightarrow> (i, j) \<in> same_tree (mv_parent v'))"
  using assms
proof (cases rule: merge_pair_cases)
  case same
  have "eset_rels (ess ! k) \<subseteq> eset_rels (mv_attrEsets v ! k)" if "k < length ess" for k
    using assms(1) that by (simp add: merge_inv_def)
  from this [OF assms(2)] this [OF assms(3)]
  have "CanMerge (ess ! i) (ess ! j) \<Longrightarrow> CanMerge (mv_attrEsets v ! i) (mv_attrEsets v ! j)"
    by (auto simp: CanMerge_iff)
  then show ?thesis using same assms(1) by blast
next
  case (linked r1 r2 ds)
  have f: "forest (mv_parent v)" "length (mv_parent v) = length ess"
    using assms(1) by (simp_all add: merge_inv_def)
  have "eset_rels (mv_attrEsets v ! r1) \<inter> eset_rels (mv_attrEsets v ! r2) \<noteq> {}"
    using tree_rels_at_root [OF assms(1,2) linked(6)] tree_rels_at_root [OF assms(1,3) linked(7)] linked(8)
    by (auto simp: CanMerge_iff)
  then have "merge_inv ess v'"
    unfolding linked(9) using linked by (intro merge_inv_link assms(1))
  moreover have "link i j (mv_parent v) = mv_parent v'"
    using linked(3,6,7,9) by (simp add: link_def)
  then have "same_tree (mv_parent v') = add_pair i j (same_tree (mv_parent v))"
    using link_refines [OF f(1), of i j] assms(2,3) f(2) by simp
  ultimately show ?thesis by (auto simp: add_pair_def)
qed

end
