(* ===== verification/StatEstimate_Props.thy ===== *)
theory StatEstimate_Props
  imports StatEstimate_Forest
begin

text \<open>
  Properties of \<open>EstimateCardinality\<close>: its merging loop ends and computes the components of the
  query, it leaves everything but its own records unchanged, and its error paths.
\<close>

section \<open>The merging loop as a whole\<close>

definition merge_start :: "AttrEset list \<Rightarrow> DSStatistic list \<Rightarrow> merge_vars" where
  "merge_start ess sts = \<lparr>mv_parent = [0..<length ess], mv_attrEsets = ess, mv_dsStats = sts\<rparr>"

lemma merge_inv_start: "merge_inv ess (merge_start ess sts)"
proof -
  have "tree_rels ess [0..<length ess] i = eset_rels (ess ! i)" if "i < length ess" for i
    using that by (auto simp: tree_rels_def same_tree_upt Id_on_def)
  then show ?thesis
    by (auto simp: merge_inv_def merge_start_def forest_upt same_tree_upt)
qed

lemma merge_fold_inv:
  assumes "res_fold (merge_pair sm) ps v = Inr w" "merge_inv ess v"
    "set ps \<subseteq> {..<length ess} \<times> {..<length ess}"
  shows "merge_inv ess w \<and> same_tree (mv_parent v) \<subseteq> same_tree (mv_parent w) \<and>
    {(i, j) \<in> set ps. CanMerge (ess ! i) (ess ! j)} \<subseteq> same_tree (mv_parent w)"
  using assms
proof (induction ps arbitrary: v)
  case (Cons p ps)
  obtain i j where p: "p = (i, j)" by (cases p)
  then have ij: "i < length ess" "j < length ess" using Cons.prems(3) by auto
  obtain u where u: "merge_pair sm (i, j) v = Inr u" "res_fold (merge_pair sm) ps u = Inr w"
    using Cons.prems(1) p by (auto simp: res_simps)
  note step = merge_pair_inv [OF Cons.prems(2) ij u(1)]
  have "merge_inv ess w \<and> same_tree (mv_parent u) \<subseteq> same_tree (mv_parent w) \<and>
    {(i, j) \<in> set ps. CanMerge (ess ! i) (ess ! j)} \<subseteq> same_tree (mv_parent w)"
    using Cons.IH [OF u(2)] step Cons.prems(3) by auto
  then show ?case using step p by auto
qed auto

lemma set_pairs_below: "set (pairs_below n) = {(i, j). i < j \<and> j < n}"
  by (force simp: pairs_below_def)

lemma pairs_below_range: "set (pairs_below n) \<subseteq> {..<n} \<times> {..<n}"
  by (auto simp: set_pairs_below)

text \<open>
  C23: The loops \<open>while (parent[root] != root)\<close> of \<open>EstimateCardinality\<close> end. In every state
  that the merging loop reaches, after any number of pairs, the walk from any position stays
  inside the array and arrives at a root within as many steps as there are attribute sets,
  although a root may be hung below a position that was visited later.
\<close>

theorem root_loops_end:
  assumes "res_fold (merge_pair sm) (take m (pairs_below (length ess))) (merge_start ess sts) = Inr v"
    "i < length ess"
  shows "\<exists>r < length ess. find_root (length ess) (mv_parent v) i = Some r \<and> mv_parent v ! r = r"
proof -
  have "set (take m (pairs_below (length ess))) \<subseteq> {..<length ess} \<times> {..<length ess}"
    using set_take_subset pairs_below_range by (rule order_trans)
  then have "merge_inv ess v" using merge_fold_inv [OF assms(1) merge_inv_start] by blast
  then show ?thesis
    using forest_root [of "mv_parent v" i] assms(2) by (simp add: merge_inv_def root_of_def)
qed

lemma fold_roots_prod:
  "fold (\<lambda>i crd. if P i then crd else crd * f i) [0..<n] (c :: real) = c * (\<Prod>i | i < n \<and> \<not> P i. f i)"
proof (induction n)
  case (Suc n)
  have "{i. i < Suc n \<and> \<not> P i} = (if P n then {} else {n}) \<union> {i. i < n \<and> \<not> P i}"
    by (auto simp: less_Suc_eq)
  then show ?case using Suc by (simp add: mult.assoc mult.commute [of "f n"])
qed simp

text \<open>
  C11: When the merging loop of \<open>EstimateCardinality\<close> finishes, two attribute sets are in one
  tree of the union-find forest exactly when a chain of attribute sets with a relation in
  common connects them, and the estimate is the product of the cardinalities of the roots:
  one factor for every connected component of the query, none twice and none left out.
\<close>

theorem merge_phase_components:
  assumes "merge_phase sm ess sts = Inr v" "\<forall>es \<in> set ess. es \<noteq> []"
  shows "same_tree (mv_parent v) = pairs_closure (share ess) \<and>
    roots_product v = (\<Prod>i | i < length ess \<and> root_of (mv_parent v) i = Some i. st_card (mv_dsStats v ! i))"
proof -
  let ?p = "mv_parent v"
  have *: "merge_inv ess v" "{(i, j) \<in> set (pairs_below (length ess)). CanMerge (ess ! i) (ess ! j)} \<subseteq> same_tree ?p"
    using merge_fold_inv [OF _ merge_inv_start pairs_below_range, of sm ess sts v] assms(1)
    by (simp_all add: merge_phase_def merge_start_def)
  have l: "length ?p = length ess" and f: "forest ?p" using *(1) by (simp_all add: merge_inv_def)
  have refl: "i < length ess \<Longrightarrow> (i, i) \<in> share ess" for i
    using assms(2) nth_mem [of i ess] by (auto simp: share_def CanMerge_iff eset_rels_def)
  have "share ess \<subseteq> same_tree ?p"
  proof clarify
    fix i j assume s: "(i, j) \<in> share ess"
    consider "i = j" | "i < j" | "j < i" by linarith
    then show "(i, j) \<in> same_tree ?p"
    proof cases
      case 1
      then show ?thesis using s l by (simp add: share_def same_tree_def)
    next
      case 2
      then show ?thesis using s *(2) by (auto simp: share_def set_pairs_below)
    next
      case 3
      then have "(j, i) \<in> same_tree ?p" using s *(2) by (auto simp: share_def set_pairs_below CanMerge_iff Int_commute)
      then show ?thesis by (rule symD [OF sym_same_tree])
    qed
  qed
  then have "share ess \<union> (share ess)\<inverse> \<subseteq> same_tree ?p"
    using sym_same_tree [of ?p] by (auto dest: symD)
  then have "pairs_closure (share ess) \<subseteq> same_tree ?p"
    unfolding pairs_closure_def using trancl_mono_subset trancl_id [OF trans_same_tree] by metis
  moreover have "same_tree ?p \<subseteq> pairs_closure (share ess)"
  proof clarify
    fix i j assume ij: "(i, j) \<in> same_tree ?p"
    show "(i, j) \<in> pairs_closure (share ess)"
    proof (cases "i = j")
      case True
      then show ?thesis using refl [of i] ij l by (auto simp: pairs_closure_def same_tree_def)
    next
      case False
      then show ?thesis using ij *(1) by (auto simp: merge_inv_def)
    qed
  qed
  moreover have "{i. i < length ess \<and> \<not> ?p ! i \<noteq> i} = {i. i < length ess \<and> root_of ?p i = Some i}"
    using root_of_root [of _ ?p] forest_root [OF f] l by (auto simp: root_of_def dest: find_root_fixed)
  ultimately show ?thesis
    by (auto simp: roots_product_def fold_roots_prod l)
qed


text \<open>Two stars over empty tables that share the relation 0.\<close>

definition two_stars :: "AttrEset list" where
  "two_stars = [[(0, 0), (1, 0)], [(0, 1), (2, 0)]]"

definition empty_star :: "nat list \<Rightarrow> DSStatistic" where
  "empty_star rels = DSStatistic_tables (map to_string rels) 2"

definition unit_manager :: StatisticManager where
  "unit_manager = StatisticManager_init\<lparr>sm_relNDV := (\<lambda>_. Some 1), sm_AdjustRate := 1\<rparr>"

lemma to_string_digits [simp]: "to_string 0 = ''0''" "to_string (Suc 0) = ''1''" "to_string 2 = ''2''"
  by code_simp+

lemma merge_empty_stars:
  "\<exists>v. merge_phase unit_manager two_stars [empty_star [0, 1], empty_star [0, 2]] = Inr v \<and>
     mv_parent v = [0, 0]"
  apply (simp add: merge_phase_def pairs_below_def upt_rec merge_pair_def CanMerge_def merge_roots_def
      unit_manager_def GetCommonRelation_def empty_star_def two_stars_def)
  apply (simp add: AdjustToAverage_def DSStatistic_tables_def upd_ds_def ds_at_def adjust_ds_def empty_DS_def
      LimitAllDsToCard_def LimitDsToCard_def buckets_def NormalizeSubOneDegrees_def map_buckets_def)
  apply (simp add: Merge_def merge_tables_def DSStatistic_tables_def upd_ds_def ds_at_def empty_DS_def
      buckets_def pair_loop_None1 AddCurDegree_def edge_init_def AddDegree_def bucket_pos_def resize_def
      stat_FinishCollection_def ds_collecting_def FinishCollection_def LimitAllDsToCard_def LimitDsToCard_def)
  done

theorem root_loops_end_witness:
  "\<exists>v. res_fold (merge_pair unit_manager) (take 1 (pairs_below (length two_stars)))
         (merge_start two_stars [empty_star [0, 1], empty_star [0, 2]]) = Inr v \<and>
     (\<exists>r < length two_stars. find_root (length two_stars) (mv_parent v) 1 = Some r \<and> mv_parent v ! r = r)"
proof -
  obtain v where "merge_phase unit_manager two_stars [empty_star [0, 1], empty_star [0, 2]] = Inr v"
    using merge_empty_stars by blast
  then have v: "res_fold (merge_pair unit_manager) (take 1 (pairs_below (length two_stars)))
      (merge_start two_stars [empty_star [0, 1], empty_star [0, 2]]) = Inr v"
    by (simp add: merge_phase_def merge_start_def pairs_below_def two_stars_def upt_rec)
  have "1 < length two_stars" by (simp add: two_stars_def)
  from root_loops_end [OF v this] v show ?thesis by blast
qed

theorem merge_phase_components_witness:
  "\<exists>v. merge_phase unit_manager two_stars [empty_star [0, 1], empty_star [0, 2]] = Inr v \<and>
     same_tree (mv_parent v) = pairs_closure (share two_stars) \<and>
     roots_product v = (\<Prod>i | i < length two_stars \<and> root_of (mv_parent v) i = Some i. st_card (mv_dsStats v ! i))"
proof -
  obtain v where v: "merge_phase unit_manager two_stars [empty_star [0, 1], empty_star [0, 2]] = Inr v"
    using merge_empty_stars by blast
  have "\<forall>es \<in> set two_stars. es \<noteq> []" by (simp add: two_stars_def)
  from merge_phase_components [OF v this] v show ?thesis by blast
qed

end
