(* ===== verification/StatCollect.thy ===== *)
theory StatCollect
  imports StatEstimate
begin

text \<open>
  Collection of the statistics of one equal set, as \<open>CollectStatistics\<close> of \<^verbatim>\<open>main.cpp\<close> drives
  it: prepare, add the counts of every key to every new subset, finish. Each new statistic
  is then what the class \<open>DSStatistic\<close> collects on its own, and the statistics that existed
  before are kept.
\<close>

section \<open>Driving the manager\<close>

text \<open>
  The loop of \<open>CollectStatistics\<close> over the distinct count vectors with their frequencies. The
  subsets are distributed over threads; a statistic is written by one thread only, so the
  subsets are taken in order here.
\<close>

definition add_counts :: "(counts \<times> int) list \<Rightarrow> DSStatistic \<Rightarrow> DSStatistic res" where
  "add_counts count_num = res_fold (\<lambda>(cnt, freq). stat_AddDegree (map_of cnt) freq) count_num"

text \<open>The frequency, an \<open>int64_t\<close>, is passed to \<open>AddDegreeForSingleDS\<close> as an \<open>int\<close>.\<close>

definition to_int32 :: "int \<Rightarrow> int" where
  "to_int32 i = (i + 2 ^ 31) mod 2 ^ 32 - 2 ^ 31"

definition CollectEqualSet :: "EqualSet \<Rightarrow> (counts \<times> int) list \<Rightarrow> unit smx" where
  "CollectEqualSet es count_num =
     sx_bind (PrepareCollection es) (\<lambda>_.
     sx_bind (for_subsets (add_counts count_num)) (\<lambda>_.
     sx_bind (sx_for (\<lambda>(cnt, freq) _. AddDegreeForSingleDS cnt (to_int32 freq)) count_num ()) (\<lambda>_.
       sm_FinishCollection)))"

text \<open>What one statistic collects on its own.\<close>

definition collect_alone :: "real \<Rightarrow> (counts \<times> int) list \<Rightarrow> EqualSet \<Rightarrow> DSStatistic res" where
  "collect_alone precision count_num sub =
     res_bind (add_counts count_num (DSStatistic_tables (GetTableList sub) precision)) stat_FinishCollection"

section \<open>The slots of the prepared subsets\<close>

definition new_keys :: "StatisticManager \<Rightarrow> EqualSet list" where
  "new_keys sm = map fst (filter (\<lambda>(sub, skip, p). \<not> skip) (subset_slots sm))"

definition slots_ok :: "StatisticManager \<Rightarrow> bool" where
  "slots_ok sm \<longleftrightarrow>
     (\<forall>(sub, skip, p) \<in> set (subset_slots sm). \<not> skip \<longrightarrow> p = Some sub) \<and>
     distinct (new_keys sm) \<and> (\<forall>k \<in> set (new_keys sm). sm_statistics sm k \<noteq> None)"

definition map_new :: "(DSStatistic \<Rightarrow> DSStatistic res) \<Rightarrow> EqualSet set \<Rightarrow> StatisticManager \<Rightarrow> StatisticManager" where
  "map_new f K sm = sm\<lparr>sm_statistics := (\<lambda>k. if k \<in> K then Some (projr (f (the (sm_statistics sm k))))
                                            else sm_statistics sm k)\<rparr>"

lemma map_new_simps [simp]:
  "sm_statistics (map_new f K sm) k =
     (if k \<in> K then Some (projr (f (the (sm_statistics sm k)))) else sm_statistics sm k)"
  "subset_slots (map_new f K sm) = subset_slots sm"
  "new_keys (map_new f K sm) = new_keys sm"
  "sm_singleDS (map_new f K sm) = sm_singleDS sm"
  "sm_eset (map_new f K sm) = sm_eset sm"
  by (simp_all add: map_new_def subset_slots_def new_keys_def)

lemma for_slots_eval:
  assumes "sx_for (\<lambda>(sub, skip, p) _. if skip then sx_ret () else upd_statistic f p) slots () sm = (Inr (), sm')"
    "\<forall>(sub, skip, p) \<in> set slots. \<not> skip \<longrightarrow> p = Some sub"
    "distinct (map fst (filter (\<lambda>(sub, skip, p). \<not> skip) slots))"
  shows "sm' = map_new f (set (map fst (filter (\<lambda>(sub, skip, p). \<not> skip) slots))) sm \<and>
    (\<forall>k \<in> set (map fst (filter (\<lambda>(sub, skip, p). \<not> skip) slots)).
       \<exists>st st'. sm_statistics sm k = Some st \<and> f st = Inr st')"
  using assms
proof (induction slots arbitrary: sm)
  case Nil
  then show ?case by (simp add: sx_simps map_new_def)
next
  case (Cons slot slots)
  obtain sub skip p where slot: "slot = (sub, skip, p)" by (cases slot)
  show ?case
  proof (cases skip)
    case True
    then show ?thesis using Cons slot by (simp add: sx_simps)
  next
    case False
    then have p: "p = Some sub" using Cons.prems(2) slot by simp
    obtain st st' where st: "sm_statistics sm sub = Some st" "f st = Inr st'"
      using Cons.prems(1) slot False p
      by (auto simp: upd_statistic_def sx_simps sx_bind_unfold split: option.splits sum.splits)
    let ?s = "sm\<lparr>sm_statistics := (sm_statistics sm)(sub \<mapsto> st')\<rparr>"
    have u: "upd_statistic f p sm = (Inr (), ?s)" using st p by (simp add: upd_statistic_def sx_simps)
    have r: "sx_for (\<lambda>(sub, skip, p) _. if skip then sx_ret () else upd_statistic f p) slots () ?s = (Inr (), sm')"
      using Cons.prems(1) slot False u by (simp add: sx_bind_unfold)
    let ?K = "set (map fst (filter (\<lambda>(sub, skip, p). \<not> skip) slots))"
    have nk: "sub \<notin> ?K" using Cons.prems(3) slot False by simp
    have "\<forall>(sub, skip, p) \<in> set slots. \<not> skip \<longrightarrow> p = Some sub"
      "distinct (map fst (filter (\<lambda>(sub, skip, p). \<not> skip) slots))"
      using Cons.prems(2,3) slot False by simp_all
    note IH = Cons.IH [OF r this]
    have "sm' = map_new f (insert sub ?K) sm"
      unfolding conjunct1 [OF IH] map_new_def using nk st by (auto simp: fun_eq_iff)
    moreover have "\<exists>st st'. sm_statistics sm k = Some st \<and> f st = Inr st'" if "k \<in> insert sub ?K" for k
      using bspec [OF conjunct2 [OF IH], of k] that nk st by (cases "k = sub") simp_all
    ultimately show ?thesis using slot False by simp
  qed
qed

lemma for_subsets_eval:
  assumes "for_subsets f sm = (Inr (), sm')" "slots_ok sm"
  shows "sm' = map_new f (set (new_keys sm)) sm" "slots_ok sm'"
    "\<forall>k \<in> set (new_keys sm). \<exists>st st'. sm_statistics sm k = Some st \<and> f st = Inr st'"
proof -
  show e: "sm' = map_new f (set (new_keys sm)) sm"
    and "\<forall>k \<in> set (new_keys sm). \<exists>st st'. sm_statistics sm k = Some st \<and> f st = Inr st'"
    using for_slots_eval [of f "subset_slots sm" sm sm'] assms
    by (auto simp: for_subsets_def sx_simps slots_ok_def new_keys_def)
  show "slots_ok sm'" using assms(2) unfolding e slots_ok_def by auto
qed

section \<open>Preparation\<close>

fun prep_slots :: "EqualSet set \<Rightarrow> EqualSet list \<Rightarrow> (EqualSet \<times> bool \<times> EqualSet option) list" where
  "prep_slots D [] = []"
| "prep_slots D (sub # subs) =
     (if sub \<in> D then (sub, True, None) # prep_slots D subs
      else (sub, False, Some sub) # prep_slots (insert sub D) subs)"

lemma prep_slots_subs [simp]: "map fst (prep_slots D subs) = subs"
  by (induction subs arbitrary: D) auto

lemma prep_slots_pointers: "(sub, False, p) \<in> set (prep_slots D subs) \<Longrightarrow> p = Some sub"
  by (induction subs arbitrary: D) (auto split: if_splits)

lemma prep_slots_keys:
  "set (map fst (filter (\<lambda>(sub, skip, p). \<not> skip) (prep_slots D subs))) = set subs - D \<and>
   distinct (map fst (filter (\<lambda>(sub, skip, p). \<not> skip) (prep_slots D subs)))"
proof (induction subs arbitrary: D)
  case (Cons sub subs)
  define K where "K D = map fst (filter (\<lambda>(sub, skip, p). \<not> skip) (prep_slots D subs))" for D
  have e: "map fst (filter (\<lambda>(sub, skip, p). \<not> skip) (prep_slots D (sub # subs))) =
      (if sub \<in> D then K D else sub # K (insert sub D))" by (simp add: K_def)
  have IH: "set (K D) = set subs - D" "distinct (K D)" for D using Cons by (simp_all only: K_def)
  show ?case unfolding e using IH by auto
qed simp

definition fresh_statistics :: "EqualSet list \<Rightarrow> StatisticManager \<Rightarrow> EqualSet \<Rightarrow> DSStatistic option" where
  "fresh_statistics subs sm k =
     (if k \<in> set subs \<and> sm_statistics sm k = None
      then Some (DSStatistic_tables (GetTableList k) (sm_CompressPrecision sm)) else sm_statistics sm k)"

lemma prepare_subset_fold:
  "fold prepare_subset subs sm = sm\<lparr>
     sm_skip := sm_skip sm @ map (fst \<circ> snd) (prep_slots (dom (sm_statistics sm)) subs),
     sm_subsetStatistics := sm_subsetStatistics sm @ map (snd \<circ> snd) (prep_slots (dom (sm_statistics sm)) subs),
     sm_statistics := fresh_statistics subs sm\<rparr>"
proof (induction subs arbitrary: sm)
  case Nil
  have "fresh_statistics [] sm = sm_statistics sm" by (simp add: fun_eq_iff fresh_statistics_def)
  then show ?case by simp
next
  case (Cons sub subs)
  show ?case
  proof (cases "sm_statistics sm sub")
    case None
    let ?s = "prepare_subset sub sm"
    have s: "?s = sm\<lparr>sm_subsetStatistics := sm_subsetStatistics sm @ [Some sub], sm_skip := sm_skip sm @ [False],
        sm_statistics := (sm_statistics sm)(sub \<mapsto> DSStatistic_tables (GetTableList sub) (sm_CompressPrecision sm))\<rparr>"
      using None by (simp add: prepare_subset_def)
    have "fresh_statistics subs ?s = fresh_statistics (sub # subs) sm"
      using None by (auto simp: fun_eq_iff fresh_statistics_def s)
    moreover have "sub \<notin> dom (sm_statistics sm)" using None by auto
    moreover have "dom (sm_statistics ?s) = insert sub (dom (sm_statistics sm))" by (simp add: s)
    ultimately show ?thesis using Cons [of ?s] by (simp add: s del: fun_upd_apply)
  next
    case (Some st)
    let ?s = "prepare_subset sub sm"
    have s: "?s = sm\<lparr>sm_subsetStatistics := sm_subsetStatistics sm @ [None], sm_skip := sm_skip sm @ [True]\<rparr>"
      using Some by (simp add: prepare_subset_def)
    have "fresh_statistics subs ?s = fresh_statistics (sub # subs) sm"
      using Some by (auto simp: fun_eq_iff fresh_statistics_def s)
    moreover have "sub \<in> dom (sm_statistics sm)" using Some by auto
    ultimately show ?thesis using Cons [of ?s] by (simp add: s)
  qed
qed

definition prepared_subsets :: "EqualSet \<Rightarrow> StatisticManager \<Rightarrow> EqualSet list res" where
  "prepared_subsets es sm =
     (if sm_EnableStarSplit sm then GetAllSubsetLimitSize es (size_t_of_int (sm_MaxStarSize sm))
      else GetAllSubset es)"

lemma PrepareCollection_alt:
  "PrepareCollection es sm =
     (case prepared_subsets es sm of
        Inl e \<Rightarrow> (Inl e, sm\<lparr>sm_eset := es\<rparr>)
      | Inr subs \<Rightarrow> (Inr (), (fold prepare_subset subs (sm\<lparr>sm_eset := es, sm_subset := subs,
            sm_subsetStatistics := [], sm_skip := []\<rparr>))
          \<lparr>sm_singleDS := fold (\<lambda>e m. m(TableName e \<mapsto> empty_DS)) (Entries es) Map.empty\<rparr>))"
  by (cases "prepared_subsets es sm")
    (simp_all add: PrepareCollection_def prepared_subsets_def sx_simps Let_def split: if_splits)

lemma PrepareCollection_eval:
  assumes "PrepareCollection es sm = (Inr (), sm')"
  shows "\<exists>subs. prepared_subsets es sm = Inr subs \<and> slots_ok sm' \<and>
    set (new_keys sm') = set subs - dom (sm_statistics sm) \<and>
    sm_statistics sm' = fresh_statistics subs sm"
proof -
  obtain subs where subs: "prepared_subsets es sm = Inr subs"
    using assms by (cases "prepared_subsets es sm") (auto simp: PrepareCollection_alt)
  let ?slots = "prep_slots (dom (sm_statistics sm)) subs"
  have sm': "sm_statistics sm' = fresh_statistics subs sm" "subset_slots sm' = ?slots"
  proof -
    have f: "fresh_statistics subs (sm\<lparr>sm_eset := es, sm_subset := subs, sm_subsetStatistics := [], sm_skip := []\<rparr>) =
        fresh_statistics subs sm" by (simp add: fun_eq_iff fresh_statistics_def)
    have z: "zip subs (zip (map (fst \<circ> snd) ?slots) (map (snd \<circ> snd) ?slots)) = ?slots"
      using prep_slots_subs [of "dom (sm_statistics sm)" subs]
      by (metis (no_types, lifting) zip_map_fst_snd map_map)
    show "sm_statistics sm' = fresh_statistics subs sm" "subset_slots sm' = ?slots"
      using assms subs f z
      by (auto simp: PrepareCollection_alt prepare_subset_fold subset_slots_def)
  qed
  have k: "set (new_keys sm') = set subs - dom (sm_statistics sm)" "distinct (new_keys sm')"
    using prep_slots_keys [of "dom (sm_statistics sm)" subs] unfolding new_keys_def sm'(2) by blast+
  have "slots_ok sm'"
    unfolding slots_ok_def
  proof (intro conjI ballI k(2))
    fix x assume "x \<in> set (subset_slots sm')"
    moreover obtain sub skip p where "x = (sub, skip, p)" by (cases x)
    ultimately show "case x of (sub, skip, p) \<Rightarrow> \<not> skip \<longrightarrow> p = Some sub"
      using prep_slots_pointers unfolding sm'(2) by (cases skip) simp_all
  next
    fix key assume "key \<in> set (new_keys sm')"
    then show "sm_statistics sm' key \<noteq> None" using k(1) by (auto simp: sm'(1) fresh_statistics_def)
  qed
  then show ?thesis using subs k(1) sm'(1) by blast
qed

section \<open>The other steps do not touch the statistics\<close>

definition same_collection :: "StatisticManager \<Rightarrow> StatisticManager \<Rightarrow> bool" where
  "same_collection s t \<longleftrightarrow> sm_statistics s = sm_statistics t \<and> subset_slots s = subset_slots t"

interpretation coll: frame same_collection
  by unfold_locales (simp_all add: same_collection_def)

lemma same_collection_AddDegreeForSingleDS: "sx_keeps same_collection (AddDegreeForSingleDS cnt freq)"
proof -
  have "sx_keeps same_collection (sx_mod (\<lambda>sm. sm\<lparr>sm_singleDS := g sm\<rparr>))" for g
    by (rule coll.keeps_mod) (simp add: same_collection_def subset_slots_def)
  then show ?thesis
    unfolding AddDegreeForSingleDS_def case_prod_beta by (intro coll.keeps_intros) (simp_all add: coll.keeps_intros)
qed

lemma same_collection_finish_single: "sx_keeps same_collection (finish_single e)"
  unfolding finish_single_def
  by (intro coll.keeps_intros coll.keeps_mod) (simp add: same_collection_def subset_slots_def)

lemma same_collection_finish_rate: "sx_keeps same_collection (finish_rate slot)"
proof -
  have m: "sx_keeps same_collection (sx_mod (\<lambda>sm. sm\<lparr>sm_rateSum := g sm, sm_rateCount := h sm\<rparr>))" for g h
    by (rule coll.keeps_mod) (simp add: same_collection_def subset_slots_def)
  show ?thesis
    unfolding finish_rate_def
    by (cases slot) (auto intro!: coll.keeps_intros m split: option.split)
qed

lemma same_collection_singles:
  "sx_keeps same_collection (sx_for (\<lambda>(cnt, freq) _. AddDegreeForSingleDS cnt (to_int32 freq)) count_num ())"
  unfolding case_prod_beta by (intro coll.keeps_intros same_collection_AddDegreeForSingleDS)

lemma same_collection_slots: "same_collection s t \<Longrightarrow> slots_ok s = slots_ok t \<and> new_keys s = new_keys t"
  by (simp add: same_collection_def slots_ok_def new_keys_def)

lemma sx_bindE:
  assumes "sx_bind m f s = (Inr y, u)"
  obtains x t where "m s = (Inr x, t)" "f x t = (Inr y, u)"
  using assms by (cases "m s"; cases "fst (m s)") (auto simp: sx_bind_def)

lemma sx_keepsD: "sx_keeps P m \<Longrightarrow> m s = (r, t) \<Longrightarrow> P s t"
  by (metis sx_keeps_def snd_conv)

lemma sm_FinishCollection_eval:
  assumes "sm_FinishCollection sm = (Inr (), sm')" "slots_ok sm"
  shows "sm_statistics sm' = sm_statistics (map_new stat_FinishCollection (set (new_keys sm)) sm)"
    "\<forall>k \<in> set (new_keys sm). \<exists>st st'. sm_statistics sm k = Some st \<and> stat_FinishCollection st = Inr st'"
proof -
  let ?rest = "sx_bind (sx_read (\<lambda>sm. Inr (Entries (sm_eset sm)))) (\<lambda>es.
      sx_bind (sx_for (\<lambda>e _. finish_single e) es ()) (\<lambda>_.
      sx_bind (sx_read (\<lambda>sm. Inr (subset_slots sm))) (\<lambda>slots.
        sx_for (\<lambda>slot _. finish_rate slot) slots ())))"
  obtain u t where t: "for_subsets stat_FinishCollection sm = (Inr u, t)" and r: "?rest t = (Inr (), sm')"
    using assms(1) unfolding sm_FinishCollection_def by (rule sx_bindE)
  have k: "sx_keeps same_collection ?rest"
    by (intro coll.keeps_intros same_collection_finish_single same_collection_finish_rate)
  have "same_collection t sm'" by (rule sx_keepsD [OF k r])
  then show "sm_statistics sm' = sm_statistics (map_new stat_FinishCollection (set (new_keys sm)) sm)"
    "\<forall>k \<in> set (new_keys sm). \<exists>st st'. sm_statistics sm k = Some st \<and> stat_FinishCollection st = Inr st'"
    using for_subsets_eval [of stat_FinishCollection sm t] t assms(2) by (simp_all add: same_collection_def)
qed

section \<open>The result of a collection\<close>

lemma CollectEqualSet_eval:
  assumes "CollectEqualSet es count_num sm = (Inr (), sm')"
  shows "\<exists>subs. prepared_subsets es sm = Inr subs \<and>
    (\<forall>k. if k \<in> set subs \<and> sm_statistics sm k = None
         then \<exists>st. sm_statistics sm' k = Some st \<and> collect_alone (sm_CompressPrecision sm) count_num k = Inr st
         else sm_statistics sm' k = sm_statistics sm k)"
proof -
  obtain s1 s2 s3 where 1: "PrepareCollection es sm = (Inr (), s1)"
    and 2: "for_subsets (add_counts count_num) s1 = (Inr (), s2)"
    and 3: "sx_for (\<lambda>(cnt, freq) _. AddDegreeForSingleDS cnt (to_int32 freq)) count_num () s2 = (Inr (), s3)"
    and 4: "sm_FinishCollection s3 = (Inr (), sm')"
    using assms unfolding CollectEqualSet_def by (elim sx_bindE) simp
  obtain subs where p: "prepared_subsets es sm = Inr subs" "slots_ok s1"
      "set (new_keys s1) = set subs - dom (sm_statistics sm)" "sm_statistics s1 = fresh_statistics subs sm"
    using PrepareCollection_eval [OF 1] by blast
  note f2 = for_subsets_eval [OF 2 p(2)]
  have c3: "same_collection s2 s3" by (rule sx_keepsD [OF same_collection_singles 3])
  have s3: "slots_ok s3" "new_keys s3 = new_keys s1" "sm_statistics s3 = sm_statistics s2"
    using same_collection_slots [OF c3] f2(2) c3 by (blast, simp_all add: f2(1) same_collection_def)
  note f4 = sm_FinishCollection_eval [OF 4 s3(1)]
  have "\<exists>st. sm_statistics sm' k = Some st \<and> collect_alone (sm_CompressPrecision sm) count_num k = Inr st"
    if k: "k \<in> set subs" "sm_statistics sm k = None" for k
  proof -
    have n: "k \<in> set (new_keys s1)" using p(3) k by auto
    have fr: "sm_statistics s1 k = Some (DSStatistic_tables (GetTableList k) (sm_CompressPrecision sm))"
      using k p(4) by (simp add: fresh_statistics_def)
    obtain a where a: "add_counts count_num (DSStatistic_tables (GetTableList k) (sm_CompressPrecision sm)) = Inr a"
      using bspec [OF f2(3) n] fr by auto
    have s2: "sm_statistics s3 k = Some a" using a fr n by (simp add: s3(3) f2(1))
    obtain b where b: "stat_FinishCollection a = Inr b" using f4(2) n s2 s3(2) by fastforce
    have "sm_statistics sm' k = Some b" using f4(1) n s2 s3(2) b by simp
    then show ?thesis using a b by (simp add: collect_alone_def)
  qed
  moreover have "sm_statistics sm' k = sm_statistics sm k" if k: "\<not> (k \<in> set subs \<and> sm_statistics sm k = None)" for k
  proof -
    have "k \<notin> set (new_keys s1)" using p(3) k by auto
    then have "sm_statistics sm' k = sm_statistics s1 k" using f4(1) s3(2,3) f2(1) by simp
    then show ?thesis using k p(4) by (auto simp: fresh_statistics_def)
  qed
  ultimately show ?thesis using p(1) by auto
qed

text \<open>
  C13: Collecting an equal set gives every new subset the statistic that \<open>DSStatistic\<close> collects
  on its own from the counts, although the manager interleaves all subsets, shares the
  objects by pointer and skips subsets that occur twice. A statistic that was collected
  before is kept as it is, and no other key appears.
\<close>

theorem collection_by_subset:
  assumes "CollectEqualSet es count_num sm = (Inr (), sm')"
  shows "\<exists>subs. prepared_subsets es sm = Inr subs \<and>
    (\<forall>k. if k \<in> set subs \<and> sm_statistics sm k = None
         then \<exists>st. sm_statistics sm' k = Some st \<and> collect_alone (sm_CompressPrecision sm) count_num k = Inr st
         else sm_statistics sm' k = sm_statistics sm k)"
  using assms by (rule CollectEqualSet_eval)

text \<open>Two columns with one common key.\<close>

definition two_columns :: EqualSet where
  "two_columns = EqualSet [TableColumn ''a'' ''i'', TableColumn ''b'' ''i'']"

definition one_key :: "(counts \<times> int) list" where
  "one_key = [([(''a'', 1), (''b'', 1)], 1)]"

lemma collect_two_columns: "fst (CollectEqualSet two_columns one_key StatisticManager_init) = Inr ()"
  by code_simp

theorem collection_by_subset_witness:
  "\<exists>sm'. CollectEqualSet two_columns one_key StatisticManager_init = (Inr (), sm') \<and>
    (\<exists>subs. prepared_subsets two_columns StatisticManager_init = Inr subs \<and>
      (\<forall>k. if k \<in> set subs \<and> sm_statistics StatisticManager_init k = None
         then \<exists>st. sm_statistics sm' k = Some st \<and>
                collect_alone (sm_CompressPrecision StatisticManager_init) one_key k = Inr st
         else sm_statistics sm' k = sm_statistics StatisticManager_init k))"
proof -
  obtain sm' where c: "CollectEqualSet two_columns one_key StatisticManager_init = (Inr (), sm')"
    using collect_two_columns by (cases "CollectEqualSet two_columns one_key StatisticManager_init") auto
  from collection_by_subset [OF c] c show ?thesis by blast
qed

section \<open>Lookups after a collection\<close>

lemma prepared_subsets_mem:
  assumes "prepared_subsets es sm = Inr subs" "std_set (Entries es)" "subseq ys (Entries es)"
    "sm_EnableStarSplit sm \<longrightarrow> length ys \<le> size_t_of_int (sm_MaxStarSize sm)"
  shows "EqualSet (collapse_singleton ys) \<in> set subs"
proof -
  have "ys \<in> (\<lambda>s. pick_bits s 0 (Entries es) []) ` {0..<2 ^ length (Entries es)}"
    using pick_bits_subsets [OF assms(2)] assms(3) by simp
  then obtain m where m: "m < 2 ^ length (Entries es)" "pick_bits m 0 (Entries es) [] = ys" by auto
  show ?thesis
    using assms(1,4) m
    by (auto simp: prepared_subsets_def GetAllSubset_def GetAllSubsetLimitSize_def image_iff Bex_def
        split: if_splits intro!: exI [of _ m] exI [of _ ys])
qed

lemma concat_mem_subseq: "p \<in> set ps \<Longrightarrow> subseq (f p) (concat (map f ps))"
proof (induction ps)
  case (Cons q ps)
  then show ?case by (cases "p = q") (auto intro: prefix_imp_subseq list_emb_append2)
qed simp

lemma std_set_bits_sub: "std_set xs \<Longrightarrow> std_set (bits_sub m xs)"
proof (induction xs arbitrary: m)
  case (Cons x xs)
  then show ?case using set_bits_sub [of "m div 2" xs] by (auto simp: std_set_def)
qed simp

lemma Split_pieces_collected:
  assumes "3 \<le> maxSize" "std_set (Entries es)" "subseq ys (Entries es)" "ys \<noteq> []"
  shows "\<exists>ps. Split (EqualSet (collapse_singleton ys)) maxSize = Inr ps \<and>
    (\<forall>p \<in> set ps. \<exists>zs. p = EqualSet (collapse_singleton zs) \<and> subseq zs (Entries es) \<and> int (length zs) \<le> maxSize)"
proof (cases "length ys = 1")
  case True
  then obtain y where y: "ys = [y]" by (cases ys) auto
  have "\<not> 1 - maxSize = 1" using assms(1) by simp
  then have "Split (EqualSet (collapse_singleton ys)) maxSize = Inr [EqualSet (collapse_singleton ys)]"
    using assms(1) y by (simp add: Split_def collapse_singleton_def Split_loop.simps Let_def drop_Cons' take_Cons')
  then show ?thesis using assms(1,3) True by auto
next
  case False
  have "std_set ys" using assms(2,3) std_set_bits_sub by (auto simp: bits_sub_subseq)
  then have *: "concat (map Entries (Split_loop maxSize ys (int (length ys)))) = ys"
    "\<forall>p \<in> set (Split_loop maxSize ys (int (length ys))).
       2 \<le> length (Entries p) \<and> int (length (Entries p)) \<le> maxSize"
    using Split_loop_correct [OF assms(1) _ False] by auto
  have "\<exists>zs. p = EqualSet (collapse_singleton zs) \<and> subseq zs (Entries es) \<and> int (length zs) \<le> maxSize"
    if p: "p \<in> set (Split_loop maxSize ys (int (length ys)))" for p
  proof (intro exI conjI)
    show "p = EqualSet (collapse_singleton (Entries p))"
      using *(2) p by (cases p) (auto simp: collapse_singleton_def)
    have "subseq (Entries p) ys" using concat_mem_subseq [OF p, of Entries] *(1) by simp
    then show "subseq (Entries p) (Entries es)" using assms(3) by (rule subseq_order.trans)
    show "int (length (Entries p)) \<le> maxSize" using *(2) p by blast
  qed
  then show ?thesis using assms(1) False by (simp add: Split_def collapse_singleton_def)
qed

text \<open>
  C16: What a collection prepared is found by the estimates. After the collection of an equal
  set, \<open>GetStatisticsFromEset\<close> finds a statistic for every non-empty subset of its columns;
  with star splitting, where only the small subsets were collected, every piece that \<open>Split\<close>
  cuts from such a subset has one. The limit \<open>MaxStarSize\<close> is the same in both runs and at least
  3, below which \<open>Split\<close> refuses to run. The exception \<open>No statistics\<close> is then impossible.
\<close>

theorem collected_star_found:
  assumes "CollectEqualSet es count_num sm = (Inr (), sm')"
    "std_set (Entries es)" "subseq ys (Entries es)" "ys \<noteq> []"
    "sm_statistics est = sm_statistics sm'" "sm_EnableStarSplit est = sm_EnableStarSplit sm"
    "sm_MaxStarSize est = sm_MaxStarSize sm" "3 \<le> sm_MaxStarSize sm" "sm_MaxStarSize sm < 2 ^ 31"
  shows "if sm_EnableStarSplit est
    then \<exists>ps. Split (EqualSet (collapse_singleton ys)) (sm_MaxStarSize est) = Inr ps \<and>
           (\<forall>p \<in> set ps. sm_statistics est p \<noteq> None)
    else \<exists>st. fst (GetStatisticsFromEset (EqualSet (collapse_singleton ys)) est) = Inr st"
proof -
  obtain subs where subs: "prepared_subsets es sm = Inr subs"
    "\<And>k. k \<in> set subs \<Longrightarrow> sm_statistics sm' k \<noteq> None"
    using CollectEqualSet_eval [OF assms(1)] by (metis option.distinct(1))
  have lim: "size_t_of_int (sm_MaxStarSize sm) = nat (sm_MaxStarSize sm)"
    using assms(8,9) by (simp add: size_t_of_int_def)
  have found: "sm_statistics est (EqualSet (collapse_singleton zs)) \<noteq> None"
    if "subseq zs (Entries es)" "sm_EnableStarSplit sm \<longrightarrow> int (length zs) \<le> sm_MaxStarSize sm" for zs
    using prepared_subsets_mem [OF subs(1) assms(2) that(1)] that(2) subs(2) assms(5) lim assms(8)
    by (simp add: le_nat_iff)
  show ?thesis
  proof (cases "sm_EnableStarSplit est")
    case True
    then show ?thesis
      using Split_pieces_collected [OF assms(8,2-4)] found assms(6,7) by fastforce
  next
    case False
    then obtain st where "sm_statistics est (EqualSet (collapse_singleton ys)) = Some st"
      using found [OF assms(3)] assms(6) by auto
    then show ?thesis
      using False by (simp add: GetStatisticsFromEset_def sx_simps count_eset_size_def)
  qed
qed

theorem collected_star_found_witness:
  "\<exists>st. fst (GetStatisticsFromEset (EqualSet (collapse_singleton (Entries two_columns)))
     ((snd (CollectEqualSet two_columns one_key StatisticManager_init))
       \<lparr>sm_EnableStarSplit := False, sm_MaxStarSize := 3\<rparr>)) = Inr st"
proof -
  let ?est = "(snd (CollectEqualSet two_columns one_key StatisticManager_init))
       \<lparr>sm_EnableStarSplit := False, sm_MaxStarSize := 3\<rparr>"
  obtain sm' where c: "CollectEqualSet two_columns one_key StatisticManager_init = (Inr (), sm')"
    using collect_two_columns by (cases "CollectEqualSet two_columns one_key StatisticManager_init") auto
  have "if sm_EnableStarSplit ?est
    then \<exists>ps. Split (EqualSet (collapse_singleton (Entries two_columns))) (sm_MaxStarSize ?est) = Inr ps \<and>
           (\<forall>p \<in> set ps. sm_statistics ?est p \<noteq> None)
    else \<exists>st. fst (GetStatisticsFromEset (EqualSet (collapse_singleton (Entries two_columns))) ?est) = Inr st"
  proof (rule collected_star_found [OF c])
    show "std_set (Entries two_columns)" by (simp add: two_columns_def std_set_def less_TableColumn_iff)
    show "sm_statistics ?est = sm_statistics sm'" by (simp add: c)
  qed (simp_all add: two_columns_def, simp_all add: StatisticManager_init_def)
  then show ?thesis by simp
qed

end
