(* ===== verification/StatJson.thy ===== *)
theory StatJson
  imports StatManager
begin

text \<open>
  The statistics file: \<open>serialize_to_json\<close>, \<open>serialize\<close> and \<open>deserialize\<close> of \<open>EqualSet\<close>,
  \<open>DegreeSequence\<close>, \<open>DSStatistic\<close> and \<open>StatisticManager\<close>. The JSON library is third-party
  code: its values are a datatype (an object is a \<open>std::map\<close>, an ascending association
  list), its documented operations on values are the functions of the first section, and
  \<open>dump\<close> and \<open>parse\<close> are arguments of which only \<open>parse (dump j) = j\<close> is used.
\<close>

section \<open>JSON values\<close>

datatype json =
    JNull
  | JBool bool
  | JNum real
  | JInt int
  | JStr string
  | JArr "json list"
  | JObj "(string \<times> json) list"

definition type_error :: error where
  "type_error = Runtime_error ''json.exception.type_error''"

text \<open>\<open>j[key] = v\<close>, \<open>j.push_back(v)\<close> and \<open>j[key].push_back(v)\<close>; null turns into what is needed.\<close>

fun json_put :: "string \<Rightarrow> json \<Rightarrow> json \<Rightarrow> json res" where
  "json_put k v JNull = Inr (JObj [(k, v)])"
| "json_put k v (JObj kvs) = Inr (JObj (map_put k v kvs))"
| "json_put k v j = Inl type_error"

fun json_push :: "json \<Rightarrow> json \<Rightarrow> json res" where
  "json_push v JNull = Inr (JArr [v])"
| "json_push v (JArr vs) = Inr (JArr (vs @ [v]))"
| "json_push v j = Inl type_error"

definition json_push_at :: "string \<Rightarrow> json \<Rightarrow> json \<Rightarrow> json res" where
  "json_push_at k v j =
     res_bind (case j of
         JNull \<Rightarrow> Inr JNull
       | JObj kvs \<Rightarrow> Inr (case map_of kvs k of None \<Rightarrow> JNull | Some w \<Rightarrow> w)
       | _ \<Rightarrow> Inl type_error) (\<lambda>w.
     res_bind (json_push v w) (\<lambda>w'. json_put k w' j))"

fun json_at :: "string \<Rightarrow> json \<Rightarrow> json res" where
  "json_at k (JObj kvs) = map_at (map_of kvs) k"
| "json_at k j = Inl type_error"

text \<open>Iteration: over the elements of an array, not at all over null.\<close>

fun json_items :: "json \<Rightarrow> json list" where
  "json_items JNull = []"
| "json_items (JArr vs) = vs"
| "json_items (JObj kvs) = map snd kvs"
| "json_items j = [j]"

fun get_string :: "json \<Rightarrow> string res" where
  "get_string (JStr s) = Inr s"
| "get_string j = Inl type_error"

fun get_double :: "json \<Rightarrow> real res" where
  "get_double (JNum x) = Inr x"
| "get_double (JInt i) = Inr (of_int i)"
| "get_double j = Inl type_error"

fun get_int64 :: "json \<Rightarrow> int res" where
  "get_int64 (JInt i) = Inr i"
| "get_int64 (JNum x) = Inr (trunc x)"
| "get_int64 j = Inl type_error"

section \<open>\<open>TableColumn\<close> and \<open>EqualSet\<close>\<close>

definition TableColumn_json :: "TableColumn \<Rightarrow> json" where
  "TableColumn_json c = JObj (map_put ''ColumnName'' (JStr (ColumnName c)) [(''TableName'', JStr (TableName c))])"

definition TableColumn_serialize :: "(json \<Rightarrow> 'text) \<Rightarrow> TableColumn \<Rightarrow> 'text" where
  "TableColumn_serialize dump c = dump (TableColumn_json c)"

definition TableColumn_of_json :: "json \<Rightarrow> TableColumn res" where
  "TableColumn_of_json e =
     res_bind (res_bind (json_at ''TableName'' e) get_string) (\<lambda>t.
     res_bind (res_bind (json_at ''ColumnName'' e) get_string) (\<lambda>c.
       Inr (TableColumn t c)))"

definition TableColumn_deserialize :: "('text \<Rightarrow> json res) \<Rightarrow> 'text \<Rightarrow> TableColumn res" where
  "TableColumn_deserialize parse str = res_bind (parse str) TableColumn_of_json"

definition EqualSet_to_json :: "EqualSet \<Rightarrow> json res" where
  "EqualSet_to_json es = res_fold (\<lambda>c. json_push_at ''Entries'' (TableColumn_json c)) (Entries es) JNull"

text \<open>
  \<open>deserialize(const json &)\<close>. The key \<open>Entries\<close> is read with the constant \<open>operator[]\<close>, which is
  undefined for a key the object does not have.
\<close>

fun json_index :: "string \<Rightarrow> json \<Rightarrow> json res" where
  "json_index k (JObj kvs) = (case map_of kvs k of None \<Rightarrow> Inl (Undefined ''operator[] const'') | Some v \<Rightarrow> Inr v)"
| "json_index k j = Inl type_error"

definition EqualSet_of_json :: "json \<Rightarrow> EqualSet res" where
  "EqualSet_of_json j =
     res_bind (json_index ''Entries'' j) (\<lambda>v.
     res_map EqualSet
       (res_fold (\<lambda>e acc. res_map (\<lambda>c. set_insert c acc) (TableColumn_of_json e)) (json_items v) []))"

definition EqualSet_serialize :: "(json \<Rightarrow> 'text) \<Rightarrow> EqualSet \<Rightarrow> 'text res" where
  "EqualSet_serialize dump es = res_map dump (EqualSet_to_json es)"

definition EqualSet_deserialize :: "('text \<Rightarrow> json res) \<Rightarrow> 'text \<Rightarrow> EqualSet res" where
  "EqualSet_deserialize parse str = res_bind (parse str) EqualSet_of_json"

section \<open>\<open>DegreeSequence\<close>\<close>

definition bucket_json :: "int \<times> real \<Rightarrow> json" where
  "bucket_json b = JObj (map_put ''MaxDegree'' (JNum (snd b)) [(''Count'', JInt (fst b))])"

text \<open>The loop runs over \<open>maxDegree\<close> and reads \<open>count[i]\<close>, which must have the same length.\<close>

definition DegreeSequence_to_json :: "DegreeSequence \<Rightarrow> json res" where
  "DegreeSequence_to_json ds =
     (if length (ds_count ds) < length (ds_maxDegree ds) then Inl (Undefined ''count[i]'')
      else res_fold (\<lambda>b. json_push (bucket_json b)) (buckets ds) JNull)"

definition DegreeSequence_of_json :: "json \<Rightarrow> DegreeSequence res" where
  "DegreeSequence_of_json j =
     res_fold (\<lambda>e ds.
         res_bind (res_bind (json_at ''MaxDegree'' e) get_double) (\<lambda>d.
         res_bind (res_bind (json_at ''Count'' e) get_int64) (\<lambda>c.
           Inr (ds\<lparr>ds_maxDegree := ds_maxDegree ds @ [d], ds_count := ds_count ds @ [c]\<rparr>))))
       (json_items j) empty_DS"

section \<open>\<open>DSStatistic\<close>\<close>

definition table_json :: "DSStatistic \<Rightarrow> Table \<Rightarrow> json res" where
  "table_json st t =
     res_bind (map_at (st_ds st) t) (\<lambda>d.
     res_map (\<lambda>dj. JObj (map_put ''Table'' (JStr t) [(''DegreeSequence'', dj)])) (DegreeSequence_to_json d))"

definition DSStatistic_to_json :: "DSStatistic \<Rightarrow> json res" where
  "DSStatistic_to_json st =
     res_bind (json_put ''Cardinality'' (JNum (st_card st)) JNull) (\<lambda>j.
     res_bind (DegreeSequence_to_json (st_centralDs st)) (\<lambda>cj.
     res_bind (json_put ''CentralDS'' cj j) (\<lambda>j.
       res_fold (\<lambda>t j. res_bind (table_json st t) (\<lambda>tj. json_push_at ''DSStatistic'' tj j)) (st_tables st) j)))"

text \<open>\<open>deserialize(const string &)\<close> on a given object: the tables are added to those it has.\<close>

definition DSStatistic_load :: "json \<Rightarrow> DSStatistic \<Rightarrow> DSStatistic res" where
  "DSStatistic_load j st =
     res_bind (res_bind (json_at ''Cardinality'' j) get_double) (\<lambda>crd.
     res_bind (res_bind (json_at ''CentralDS'' j) DegreeSequence_of_json) (\<lambda>central.
     res_bind (json_at ''DSStatistic'' j) (\<lambda>v.
       res_fold (\<lambda>e st.
           res_bind (res_bind (json_at ''Table'' e) get_string) (\<lambda>t.
           res_bind (res_bind (json_at ''DegreeSequence'' e) DegreeSequence_of_json) (\<lambda>d.
             Inr (st\<lparr>st_tables := st_tables st @ [t], st_ds := (st_ds st)(t \<mapsto> d)\<rparr>))))
         (json_items v) (st\<lparr>st_card := crd, st_centralDs := central\<rparr>))))"

definition DSStatistic_deserialize :: "('text \<Rightarrow> json res) \<Rightarrow> 'text \<Rightarrow> DSStatistic \<Rightarrow> DSStatistic res" where
  "DSStatistic_deserialize parse str st = res_bind (parse str) (\<lambda>j. DSStatistic_load j st)"

definition DSStatistic_serialize :: "(json \<Rightarrow> 'text) \<Rightarrow> DSStatistic \<Rightarrow> 'text res" where
  "DSStatistic_serialize dump st = res_map dump (DSStatistic_to_json st)"

text \<open>
  The constructor from a string starts with no tables and the default precision 2; the
  cardinality is not initialised before \<open>deserialize\<close> sets it.
\<close>

definition DSStatistic_string :: "('text \<Rightarrow> json res) \<Rightarrow> 'text \<Rightarrow> DSStatistic res" where
  "DSStatistic_string parse str = DSStatistic_deserialize parse str
     \<lparr>st_card = 0, st_precision = 2, st_centralDs = empty_DS, st_ds = Map.empty, st_tables = []\<rparr>"

section \<open>\<open>StatisticManager\<close>\<close>

text \<open>The entries of \<open>statistics\<close> in the order of the map; the empty equal set is left out.\<close>

definition stat_entries :: "StatisticManager \<Rightarrow> (EqualSet \<times> DSStatistic) list" where
  "stat_entries sm = map (\<lambda>k. (k, the (sm_statistics sm k))) (sorted_list_of_set (dom (sm_statistics sm)))"

definition entry_json :: "EqualSet \<times> DSStatistic \<Rightarrow> json res" where
  "entry_json e =
     res_bind (EqualSet_to_json (fst e)) (\<lambda>ej.
     res_map (\<lambda>sj. JObj (map_put ''EqualSet'' ej [(''DSStatistic'', sj)])) (DSStatistic_to_json (snd e)))"

definition sm_to_json :: "StatisticManager \<Rightarrow> json res" where
  "sm_to_json sm =
     res_bind
       (res_fold (\<lambda>e j. res_bind (entry_json e) (\<lambda>ej. json_push_at ''Statistics'' ej j))
          (filter (\<lambda>e. Entries (fst e) \<noteq> []) (stat_entries sm)) JNull)
       (json_put ''AdjustRate'' (JNum (sm_AdjustRate sm)))"

definition sm_serialize :: "(json \<Rightarrow> 'text) \<Rightarrow> StatisticManager \<Rightarrow> 'text res" where
  "sm_serialize dump sm = res_map dump (sm_to_json sm)"

text \<open>
  \<open>deserialize\<close> adds to the statistics the object has. The statistic of an entry is dumped and
  parsed again by the constructor of \<open>DSStatistic\<close>; then its precision is set.
\<close>

definition load_entry :: "(json \<Rightarrow> 'text) \<Rightarrow> ('text \<Rightarrow> json res) \<Rightarrow> json \<Rightarrow> StatisticManager \<Rightarrow> StatisticManager res" where
  "load_entry dump parse e sm =
     res_bind (res_bind (json_at ''EqualSet'' e) EqualSet_of_json) (\<lambda>es.
     res_bind (json_at ''DSStatistic'' e) (\<lambda>sj.
     res_bind (DSStatistic_string parse (dump sj)) (\<lambda>st.
       Inr (sm\<lparr>sm_statistics := (sm_statistics sm)
             (es \<mapsto> st\<lparr>st_precision := sm_CompressPrecision sm\<rparr>)\<rparr>))))"

definition sm_deserialize :: "(json \<Rightarrow> 'text) \<Rightarrow> ('text \<Rightarrow> json res) \<Rightarrow> 'text \<Rightarrow> StatisticManager \<Rightarrow> StatisticManager res" where
  "sm_deserialize dump parse str sm =
     res_bind (parse str) (\<lambda>j.
     res_bind (json_at ''Statistics'' j) (\<lambda>v.
     res_bind (res_fold (load_entry dump parse) (json_items v) sm) (\<lambda>sm1.
     res_bind (res_bind (json_at ''AdjustRate'' j) get_double) (\<lambda>rate.
       Inr (sm1\<lparr>sm_AdjustRate := rate, sm_PredicateAdjustRate := rate\<rparr>)))))"

section \<open>The documents that are written\<close>

definition EqualSet_doc :: "EqualSet \<Rightarrow> json" where
  "EqualSet_doc es = (if Entries es = [] then JNull
     else JObj [(''Entries'', JArr (map TableColumn_json (Entries es)))])"

definition ds_doc :: "DegreeSequence \<Rightarrow> json" where
  "ds_doc ds = (if buckets ds = [] then JNull else JArr (map bucket_json (buckets ds)))"

definition table_doc :: "DSStatistic \<Rightarrow> Table \<Rightarrow> json" where
  "table_doc st t = JObj [(''DegreeSequence'', ds_doc (the (st_ds st t))), (''Table'', JStr t)]"

definition stat_doc :: "DSStatistic \<Rightarrow> json" where
  "stat_doc st = JObj ([(''Cardinality'', JNum (st_card st)), (''CentralDS'', ds_doc (st_centralDs st))]
     @ (if st_tables st = [] then [] else [(''DSStatistic'', JArr (map (table_doc st) (st_tables st)))]))"

definition entry_doc :: "EqualSet \<times> DSStatistic \<Rightarrow> json" where
  "entry_doc e = JObj [(''DSStatistic'', stat_doc (snd e)), (''EqualSet'', EqualSet_doc (fst e))]"

definition sm_doc :: "StatisticManager \<Rightarrow> json" where
  "sm_doc sm =
     (let es = filter (\<lambda>e. Entries (fst e) \<noteq> []) (stat_entries sm)
      in JObj ((''AdjustRate'', JNum (sm_AdjustRate sm))
           # (if es = [] then [] else [(''Statistics'', JArr (map entry_doc es))])))"

text \<open>Pushing the elements of a list, at the top and under a key.\<close>

lemma push_array: "res_fold (\<lambda>x. json_push (f x)) xs (JArr vs) = Inr (JArr (vs @ map f xs))"
  by (induction xs arbitrary: vs) simp_all

lemma push_null:
  "res_fold (\<lambda>x. json_push (f x)) xs JNull = Inr (if xs = [] then JNull else JArr (map f xs))"
  by (cases xs) (simp_all add: push_array)

lemma map_put_last:
  "list_all (\<lambda>(k', v). k' < k) kvs \<Longrightarrow> map_put k v (kvs @ [(k, w)]) = kvs @ [(k, v)]"
  "list_all (\<lambda>(k', v). k' < k) kvs \<Longrightarrow> map_put k v kvs = kvs @ [(k, v)]"
  by (induction kvs) auto

lemma map_of_last:
  assumes "list_all (\<lambda>(k', v). k' < (k::string)) kvs"
  shows "map_of kvs k = None" "map_of (kvs @ [(k, w)]) k = Some w"
  using assms by (induction kvs) auto

lemma push_at_step:
  assumes "list_all (\<lambda>(k', v). k' < k) kvs"
  shows "json_push_at k y (JObj (kvs @ [(k, JArr vs)])) = Inr (JObj (kvs @ [(k, JArr (vs @ [y]))]))"
    and "json_push_at k y (JObj kvs) = Inr (JObj (kvs @ [(k, JArr [y])]))"
  unfolding json_push_at_def json.case
  using map_of_last [OF assms] map_put_last [OF assms] by (simp_all del: map_of_append)

lemma push_at_array:
  assumes "\<forall>x\<in>set xs. g x = Inr (f x)" and "list_all (\<lambda>(k', v). k' < k) kvs"
  shows "res_fold (\<lambda>x j. res_bind (g x) (\<lambda>y. json_push_at k y j)) xs (JObj (kvs @ [(k, JArr vs)]))
    = Inr (JObj (kvs @ [(k, JArr (vs @ map f xs))]))"
  using assms
  by (induction xs arbitrary: vs) (simp_all add: push_at_step)

lemma push_at_object:
  assumes "\<forall>x\<in>set xs. g x = Inr (f x)" and "list_all (\<lambda>(k', v). k' < k) kvs"
  shows "res_fold (\<lambda>x j. res_bind (g x) (\<lambda>y. json_push_at k y j)) xs (JObj kvs)
    = Inr (JObj (kvs @ (if xs = [] then [] else [(k, JArr (map f xs))])))"
proof (cases xs)
  case (Cons x ys)
  have "json_push_at k (f x) (JObj kvs) = Inr (JObj (kvs @ [(k, JArr [f x])]))"
    using assms(2) by (rule push_at_step)
  then show ?thesis
    using Cons assms push_at_array [of ys g f k kvs "[f x]"] by simp
qed simp

lemma push_at_null:
  assumes "\<forall>x\<in>set xs. g x = Inr (f x)"
  shows "res_fold (\<lambda>x j. res_bind (g x) (\<lambda>y. json_push_at k y j)) xs JNull
    = Inr (if xs = [] then JNull else JObj [(k, JArr (map f xs))])"
proof (cases xs)
  case (Cons x ys)
  have "json_push_at k (f x) JNull = Inr (JObj ([] @ [(k, JArr [f x])]))"
    by (simp add: json_push_at_def)
  then show ?thesis
    using Cons assms push_at_array [of ys g f k "[]" "[f x]"] by simp
qed simp

section \<open>Each writer yields its document\<close>

definition ds_stored :: "DegreeSequence \<Rightarrow> bool" where
  "ds_stored ds \<longleftrightarrow> ds_wf ds \<and> ds_sum ds = []"

definition stat_stored :: "DSStatistic \<Rightarrow> bool" where
  "stat_stored st \<longleftrightarrow>
     st_tables st \<noteq> [] \<and> dom (st_ds st) = set (st_tables st) \<and>
     ds_stored (st_centralDs st) \<and> list_all (\<lambda>t. ds_stored (the (st_ds st t))) (st_tables st)"

definition eset_stored :: "EqualSet \<Rightarrow> bool" where
  "eset_stored es \<longleftrightarrow> std_set (Entries es)"

definition sm_stored :: "StatisticManager \<Rightarrow> bool" where
  "sm_stored sm \<longleftrightarrow> finite (dom (sm_statistics sm)) \<and>
     list_all (\<lambda>(es, st). eset_stored es \<and> stat_stored st)
       (filter (\<lambda>e. Entries (fst e) \<noteq> []) (stat_entries sm))"

lemma sm_stored_iff:
  "sm_stored sm \<longleftrightarrow> finite (dom (sm_statistics sm)) \<and>
     (\<forall>k st. sm_statistics sm k = Some st \<and> Entries k \<noteq> [] \<longrightarrow> eset_stored k \<and> stat_stored st)"
proof (cases "finite (dom (sm_statistics sm))")
  case True
  then have "(k, st) \<in> set (stat_entries sm) \<longleftrightarrow> sm_statistics sm k = Some st" for k st
    by (force simp: stat_entries_def)
  with True show ?thesis by (auto simp: sm_stored_def list_all_iff)
qed (simp add: sm_stored_def)

lemma TableColumn_json_simp:
  "TableColumn_json c = JObj [(''ColumnName'', JStr (ColumnName c)), (''TableName'', JStr (TableName c))]"
  by (simp add: TableColumn_json_def)

lemma TableColumn_of_json: "TableColumn_of_json (TableColumn_json c) = Inr c"
  by (simp add: TableColumn_of_json_def TableColumn_json_simp)

lemma bucket_json_simp: "bucket_json b = JObj [(''Count'', JInt (fst b)), (''MaxDegree'', JNum (snd b))]"
  by (simp add: bucket_json_def)

lemma EqualSet_to_json_doc: "EqualSet_to_json es = Inr (EqualSet_doc es)"
  using push_at_null [of "Entries es" "\<lambda>c. Inr (TableColumn_json c)" TableColumn_json "''Entries''"]
  by (simp add: EqualSet_to_json_def EqualSet_doc_def)

lemma DegreeSequence_to_json_doc: "ds_wf ds \<Longrightarrow> DegreeSequence_to_json ds = Inr (ds_doc ds)"
  by (simp add: DegreeSequence_to_json_def ds_doc_def push_null ds_wf_def)

lemma table_json_doc:
  "st_ds st t = Some d \<Longrightarrow> ds_wf d \<Longrightarrow> table_json st t = Inr (table_doc st t)"
  by (simp add: table_json_def table_doc_def DegreeSequence_to_json_doc)

lemma DSStatistic_to_json_doc:
  assumes "stat_stored st"
  shows "DSStatistic_to_json st = Inr (stat_doc st)"
proof -
  have "\<forall>t\<in>set (st_tables st). table_json st t = Inr (table_doc st t)"
    using assms by (force simp: stat_stored_def ds_stored_def list_all_iff intro: table_json_doc)
  then show ?thesis
    using assms push_at_object [of "st_tables st" "table_json st" "table_doc st" "''DSStatistic''"
        "[(''Cardinality'', JNum (st_card st)), (''CentralDS'', ds_doc (st_centralDs st))]"]
    by (simp add: DSStatistic_to_json_def DegreeSequence_to_json_doc stat_stored_def ds_stored_def
        stat_doc_def)
qed

lemma entry_json_doc: "stat_stored (snd e) \<Longrightarrow> entry_json e = Inr (entry_doc e)"
  by (simp add: entry_json_def entry_doc_def EqualSet_to_json_doc DSStatistic_to_json_doc)

lemma sm_to_json_doc:
  assumes "sm_stored sm"
  shows "sm_to_json sm = Inr (sm_doc sm)"
proof -
  have "\<forall>e\<in>set (filter (\<lambda>e. Entries (fst e) \<noteq> []) (stat_entries sm)). entry_json e = Inr (entry_doc e)"
    using assms by (auto simp: sm_stored_def list_all_iff intro!: entry_json_doc)
  then show ?thesis
    using push_at_null [of "filter (\<lambda>e. Entries (fst e) \<noteq> []) (stat_entries sm)" entry_json entry_doc "''Statistics''"]
    by (simp add: sm_to_json_def sm_doc_def Let_def)
qed

section \<open>Each reader inverts its writer\<close>

lemma EqualSet_of_doc:
  assumes "std_set (Entries es)" "Entries es \<noteq> []"
  shows "EqualSet_of_json (EqualSet_doc es) = Inr es"
proof -
  have "res_fold (\<lambda>e acc. res_map (\<lambda>c. set_insert c acc) (TableColumn_of_json e)) (map TableColumn_json cs) acc
      = Inr (fold set_insert cs acc)" for cs acc
    by (induction cs arbitrary: acc) (simp_all add: TableColumn_of_json)
  then show ?thesis
    using assms set_of_list_sorted [OF assms(1)]
    by (simp add: EqualSet_of_json_def EqualSet_doc_def set_of_list_def)
qed

lemma DegreeSequence_of_doc:
  assumes "ds_stored ds"
  shows "DegreeSequence_of_json (ds_doc ds) = Inr ds"
proof -
  have "res_fold (\<lambda>e ds.
         res_bind (res_bind (json_at ''MaxDegree'' e) get_double) (\<lambda>d.
         res_bind (res_bind (json_at ''Count'' e) get_int64) (\<lambda>c.
           Inr (ds\<lparr>ds_maxDegree := ds_maxDegree ds @ [d], ds_count := ds_count ds @ [c]\<rparr>))))
       (map bucket_json bs) d0
      = Inr (d0\<lparr>ds_maxDegree := ds_maxDegree d0 @ map snd bs, ds_count := ds_count d0 @ map fst bs\<rparr>)"
    for bs and d0 :: DegreeSequence
    by (induction bs arbitrary: d0) (simp_all add: bucket_json_simp)
  moreover have "map snd (buckets ds) = ds_maxDegree ds" "map fst (buckets ds) = ds_count ds"
    using assms by (simp_all add: buckets_def ds_stored_def ds_wf_def)
  ultimately show ?thesis
    using assms
    by (cases "buckets ds = []") (auto simp: DegreeSequence_of_json_def ds_doc_def empty_DS_def ds_stored_def)
qed

lemma load_tables:
  assumes "\<forall>t\<in>set ts. ds_stored (f t)"
  shows "res_fold (\<lambda>e st.
           res_bind (res_bind (json_at ''Table'' e) get_string) (\<lambda>t.
           res_bind (res_bind (json_at ''DegreeSequence'' e) DegreeSequence_of_json) (\<lambda>d.
             Inr (st\<lparr>st_tables := st_tables st @ [t], st_ds := (st_ds st)(t \<mapsto> d)\<rparr>))))
         (map (\<lambda>t. JObj [(''DegreeSequence'', ds_doc (f t)), (''Table'', JStr t)]) ts) st
    = Inr (st\<lparr>st_tables := st_tables st @ ts,
              st_ds := \<lambda>t. if t \<in> set ts then Some (f t) else st_ds st t\<rparr>)"
  using assms
proof (induction ts arbitrary: st)
  case (Cons t ts)
  then show ?case
    by (simp add: DegreeSequence_of_doc) (rule DSStatistic.equality; auto)
qed simp

lemma DSStatistic_of_doc:
  assumes "stat_stored st"
    and law: "parse (dump (stat_doc st)) = Inr (stat_doc st)"
  shows "DSStatistic_string parse (dump (stat_doc st)) = Inr (st\<lparr>st_precision := 2\<rparr>)"
proof -
  have stored: "\<forall>t\<in>set (st_tables st). ds_stored (the (st_ds st t))"
    using assms by (simp add: stat_stored_def list_all_iff)
  have ds: "(if t \<in> set (st_tables st) then Some (the (st_ds st t)) else None) = st_ds st t" for t
    using assms by (cases "st_ds st t") (auto simp: stat_stored_def)
  have doc: "table_doc st = (\<lambda>t. JObj [(''DegreeSequence'', ds_doc (the (st_ds st t))), (''Table'', JStr t)])"
    by (rule ext) (rule table_doc_def)
  have "DSStatistic_string parse (dump (stat_doc st)) =
      Inr \<lparr>st_card = st_card st, st_precision = 2, st_centralDs = st_centralDs st,
        st_ds = \<lambda>t. if t \<in> set (st_tables st) then Some (the (st_ds st t)) else None,
        st_tables = st_tables st\<rparr>"
    using assms load_tables [OF stored, where ?'a = unit]
    by (simp add: DSStatistic_string_def DSStatistic_deserialize_def law DSStatistic_load_def
        stat_doc_def doc DegreeSequence_of_doc
        stat_stored_def cong: if_cong)
  then show ?thesis by (simp add: ds)
qed

section \<open>The file as a whole\<close>

lemma load_entry_doc:
  assumes "eset_stored es" "stat_stored st" "Entries es \<noteq> []"
    and law: "parse (dump (stat_doc st)) = Inr (stat_doc st)"
  shows "load_entry dump parse (entry_doc (es, st)) sm =
    Inr (sm\<lparr>sm_statistics := (sm_statistics sm)(es \<mapsto> st\<lparr>st_precision := sm_CompressPrecision sm\<rparr>)\<rparr>)"
  using assms by (simp add: load_entry_def entry_doc_def EqualSet_of_doc DSStatistic_of_doc [of st parse dump] eset_stored_def)

lemma load_entries:
  assumes "\<forall>k\<in>set ks. eset_stored k \<and> stat_stored (f k) \<and> Entries k \<noteq> []"
    and law: "\<forall>k\<in>set ks. parse (dump (stat_doc (f k))) = Inr (stat_doc (f k))"
  shows "res_fold (load_entry dump parse) (map entry_doc (map (\<lambda>k. (k, f k)) ks)) sm =
    Inr (sm\<lparr>sm_statistics := \<lambda>k. if k \<in> set ks then Some (f k\<lparr>st_precision := sm_CompressPrecision sm\<rparr>)
                                 else sm_statistics sm k\<rparr>)"
  using assms
proof (induction ks arbitrary: sm)
  case (Cons k ks)
  have "load_entry dump parse (entry_doc (k, f k)) sm =
      Inr (sm\<lparr>sm_statistics := (sm_statistics sm)(k \<mapsto> f k\<lparr>st_precision := sm_CompressPrecision sm\<rparr>)\<rparr>)"
    using Cons.prems by (intro load_entry_doc) auto
  then show ?case
    using Cons by simp (rule StatisticManager.equality; auto)
qed simp

definition reloaded :: "StatisticManager \<Rightarrow> StatisticManager \<Rightarrow> StatisticManager" where
  "reloaded sm sm0 = sm0\<lparr>
     sm_statistics := \<lambda>k. if Entries k \<noteq> [] \<and> k \<in> dom (sm_statistics sm)
        then Some (the (sm_statistics sm k)\<lparr>st_precision := sm_CompressPrecision sm0\<rparr>)
        else sm_statistics sm0 k,
     sm_AdjustRate := sm_AdjustRate sm, sm_PredicateAdjustRate := sm_AdjustRate sm\<rparr>"

definition file_keys :: "StatisticManager \<Rightarrow> EqualSet list" where
  "file_keys sm = filter (\<lambda>k. Entries k \<noteq> []) (sorted_list_of_set (dom (sm_statistics sm)))"

lemma file_entries:
  "filter (\<lambda>e. Entries (fst e) \<noteq> []) (stat_entries sm)
   = map (\<lambda>k. (k, the (sm_statistics sm k))) (file_keys sm)"
  by (simp add: stat_entries_def file_keys_def filter_map comp_def)

text \<open>The documents a manager's file consists of: the whole, and the statistics that are dumped again.\<close>

definition file_docs :: "StatisticManager \<Rightarrow> json list" where
  "file_docs sm = sm_doc sm # map (\<lambda>k. stat_doc (the (sm_statistics sm k))) (file_keys sm)"

definition json_law :: "(json \<Rightarrow> 'text) \<Rightarrow> ('text \<Rightarrow> json res) \<Rightarrow> json list \<Rightarrow> bool" where
  "json_law dump parse docs \<longleftrightarrow> (\<forall>j \<in> set docs. parse (dump j) = Inr j)"

lemma sm_deserialize_doc:
  assumes law: "json_law dump parse (file_docs sm)"
    and sm: "sm_stored sm" and some: "file_keys sm \<noteq> []"
  shows "sm_deserialize dump parse (dump (sm_doc sm)) sm0 = Inr (reloaded sm sm0)"
proof -
  let ?f = "\<lambda>k. the (sm_statistics sm k)"
  have fin: "finite (dom (sm_statistics sm))"
    using sm by (simp add: sm_stored_def)
  have "\<forall>k\<in>set (file_keys sm). eset_stored k \<and> stat_stored (?f k) \<and> Entries k \<noteq> []"
    using sm by (auto simp: sm_stored_iff file_keys_def)
  note load = load_entries [where dump = dump and parse = parse, OF this]
  have parse: "parse (dump (sm_doc sm)) = Inr (sm_doc sm)"
    and stats: "\<forall>k\<in>set (file_keys sm). parse (dump (stat_doc (?f k))) = Inr (stat_doc (?f k))"
    using law by (simp_all add: json_law_def file_docs_def)
  have doc: "sm_doc sm = JObj [(''AdjustRate'', JNum (sm_AdjustRate sm)),
      (''Statistics'', JArr (map entry_doc (map (\<lambda>k. (k, ?f k)) (file_keys sm))))]"
    using some by (simp add: sm_doc_def file_entries Let_def)
  have keys: "k \<in> set (file_keys sm) \<longleftrightarrow> Entries k \<noteq> [] \<and> k \<in> dom (sm_statistics sm)" for k
    using fin by (auto simp: file_keys_def)
  show ?thesis
    unfolding sm_deserialize_def parse res_bind_simps
    by (simp add: doc load [OF stats] reloaded_def keys del: map_map)
qed

text \<open>A manager without statistics writes a file that \<open>deserialize\<close> refuses.\<close>

lemma sm_deserialize_no_keys:
  assumes "parse (dump (sm_doc sm)) = Inr (sm_doc sm)" "file_keys sm = []"
  shows "sm_deserialize dump parse (dump (sm_doc sm)) sm0 = Inl Out_of_range"
  using assms by (simp add: sm_deserialize_def sm_doc_def file_entries Let_def map_at_def)

text \<open>
  C25: with a JSON library whose \<open>parse\<close> undoes \<open>dump\<close> on the documents of the file, reading back
  the file that \<open>serialize\<close> wrote restores every statistic with a nonempty key (with the reader's
  compression precision) and both adjustment rates, and keeps the rest of the reader; it fails
  with \<open>out_of_range\<close> exactly when the writer had no such statistic.
\<close>

theorem statistics_file_roundtrip:
  assumes law: "json_law dump parse (file_docs sm)" and sm: "sm_stored sm"
  shows "res_bind (sm_serialize dump sm) (\<lambda>s. sm_deserialize dump parse s sm0) =
    (if file_keys sm = [] then Inl Out_of_range else Inr (reloaded sm sm0))"
proof -
  have "parse (dump (sm_doc sm)) = Inr (sm_doc sm)"
    using law by (simp add: json_law_def file_docs_def)
  then show ?thesis
    using sm_deserialize_doc [OF law sm]
      sm_deserialize_no_keys [of parse dump sm sm0]
    by (simp add: sm_serialize_def sm_to_json_doc [OF sm])
qed

definition file_manager :: StatisticManager where
  "file_manager = StatisticManager_init\<lparr>sm_AdjustRate := 3, sm_statistics := [EqualSet [TableColumn ''a'' ''x'', TableColumn ''b'' ''y''] \<mapsto>
     \<lparr>st_card = 5, st_precision = 2,
      st_centralDs = \<lparr>ds_maxDegree = [4], ds_count = [1], ds_sum = []\<rparr>,
      st_ds = [''a'' \<mapsto> \<lparr>ds_maxDegree = [1, 2], ds_count = [3, 1], ds_sum = []\<rparr>],
      st_tables = [''a'']\<rparr>]\<rparr>"

theorem statistics_file_roundtrip_witness:
  "res_bind (sm_serialize (\<lambda>j. j) file_manager) (\<lambda>s. sm_deserialize (\<lambda>j. j) Inr s StatisticManager_init) =
     Inr (reloaded file_manager StatisticManager_init)"
proof -
  have "sm_stored file_manager"
    by (simp add: sm_stored_def file_manager_def stat_entries_def eset_stored_def stat_stored_def
        ds_stored_def ds_wf_def std_set_def less_TableColumn_iff)
  from statistics_file_roundtrip [OF _ this, of "\<lambda>j. j" Inr]
  show ?thesis by (simp add: json_law_def file_keys_def file_manager_def)
qed

end
