(* ===== verification/Driver.thy ===== *)
theory Driver
  imports StatCollect StatJson
begin

text \<open>
  The program \<^verbatim>\<open>main.cpp\<close>: configuration, collection or reading of the statistics, execution of
  a file of queries, and the files of recorded and injected numbers. The state is the
  \<open>StatisticManager\<close> together with the file system. Arguments of the model are the JSON
  library (\<open>dump\<close>, \<open>parse\<close>), the database engine (\<open>sql\<close> for the collection, \<open>query\<close> for a
  statement that is planned and run) and the decimal form of a \<open>double\<close> on an output stream.
  Messages on the console are not modelled.
\<close>

section \<open>Files and streams\<close>

record World =
  w_files :: "string \<Rightarrow> string option"
  w_writable :: "string \<Rightarrow> bool"
  w_sm :: StatisticManager

type_synonym 'a io = "(World, 'a) sx"

definition read_file :: "string \<Rightarrow> string io" where
  "read_file path = sx_read (\<lambda>w. case w_files w path of
     None \<Rightarrow> Inl (Runtime_error ''Failed to open file'') | Some s \<Rightarrow> Inr s)"

text \<open>\<open>std::ofstream\<close>: opening truncates the file, and fails for a path that cannot be written.\<close>

definition open_out :: "string \<Rightarrow> unit io" where
  "open_out path =
     sx_bind (sx_read (\<lambda>w. if w_writable w path then Inr () else Inl (Runtime_error ''Failed to open file''))) (\<lambda>_.
       sx_mod (\<lambda>w. w\<lparr>w_files := (w_files w)(path \<mapsto> '''')\<rparr>))"

definition put :: "string \<Rightarrow> string \<Rightarrow> unit io" where
  "put path s = sx_mod (\<lambda>w. w\<lparr>w_files := (w_files w)
     (path \<mapsto> (case w_files w path of None \<Rightarrow> s | Some t \<Rightarrow> t @ s))\<rparr>)"

text \<open>\<open>file << s << std::endl\<close>.\<close>

definition newline :: char where
  "newline = CHR 10"

definition put_line :: "string \<Rightarrow> string \<Rightarrow> unit io" where
  "put_line path s = put path (s @ [newline])"

text \<open>An operation of the manager.\<close>

definition in_sm :: "'a smx \<Rightarrow> 'a io" where
  "in_sm m w = (case m (w_sm w) of (r, sm) \<Rightarrow> (r, w\<lparr>w_sm := sm\<rparr>))"

text \<open>The lines \<open>std::getline\<close> returns: an unfinished last line counts if it is not empty.\<close>

fun getlines_acc :: "string \<Rightarrow> string \<Rightarrow> string list" where
  "getlines_acc acc [] = (if acc = [] then [] else [acc])"
| "getlines_acc acc (c # cs) =
     (if c = newline then acc # getlines_acc [] cs else getlines_acc (acc @ [c]) cs)"

definition getlines :: "string \<Rightarrow> string list" where
  "getlines = getlines_acc []"

text \<open>
  \<open>stream >> card\<close> for a \<open>double\<close>: white space is skipped; a sign, digits, a fraction and an
  exponent are read. At the end of the file the variable keeps its value and the stream
  fails; text that is no number sets the variable to 0 and the stream fails; a failed stream
  reads nothing any more (\<open>None\<close>).
\<close>

definition space :: "char \<Rightarrow> bool" where
  "space c \<longleftrightarrow> c \<in> {CHR '' '', CHR 9, CHR 10, CHR 11, CHR 12, CHR 13}"

definition digit :: "char \<Rightarrow> bool" where
  "digit c \<longleftrightarrow> 48 \<le> (of_char c :: nat) \<and> (of_char c :: nat) \<le> 57"

definition digits_val :: "string \<Rightarrow> nat" where
  "digits_val ds = fold (\<lambda>c v. 10 * v + (of_char c - 48)) ds 0"

definition scan_sign :: "string \<Rightarrow> bool \<times> string" where
  "scan_sign s = (case s of [] \<Rightarrow> (False, s)
     | c # cs \<Rightarrow> if c = CHR ''-'' then (True, cs) else if c = CHR ''+'' then (False, cs) else (False, s))"

definition scan_fraction :: "string \<Rightarrow> string \<times> string" where
  "scan_fraction s = (case s of [] \<Rightarrow> ([], s)
     | c # cs \<Rightarrow> if c = CHR ''.'' then (takeWhile digit cs, dropWhile digit cs) else ([], s))"

text \<open>The exponent: \<open>None\<close> when an \<open>e\<close> has no digits behind it.\<close>

definition scan_exponent :: "string \<Rightarrow> real option \<times> string" where
  "scan_exponent s = (case s of [] \<Rightarrow> (Some 1, s)
     | c # cs \<Rightarrow>
         if c = CHR ''e'' \<or> c = CHR ''E'' then
           let (neg, r) = scan_sign cs; ds = takeWhile digit r
           in (if ds = [] then None else Some (if neg then 1 / 10 ^ digits_val ds else 10 ^ digits_val ds),
               dropWhile digit r)
         else (Some 1, s))"

definition scan_double :: "string \<Rightarrow> real option \<times> string" where
  "scan_double s =
     (let (neg, r) = scan_sign s;
          a = takeWhile digit r;
          (b, r) = scan_fraction (dropWhile digit r)
      in if a = [] \<and> b = [] then (None, r)
         else let (e, r) = scan_exponent r
              in (map_option (\<lambda>x. (if neg then - 1 else 1) * of_nat (digits_val (a @ b)) / 10 ^ length b * x) e, r))"

definition extract_double :: "string option \<times> real option \<Rightarrow> string option \<times> real option" where
  "extract_double sv =
     (case sv of (None, v) \<Rightarrow> (None, v)
      | (Some s, v) \<Rightarrow>
          let s' = dropWhile space s
          in if s' = [] then (None, v)
             else case scan_double s' of (Some x, r) \<Rightarrow> (Some r, Some x) | (None, r) \<Rightarrow> (None, Some 0))"

text \<open>\<open>std::round\<close>, half away from zero, and an \<open>int64_t\<close> on an output stream.\<close>

definition cpp_round :: "real \<Rightarrow> int" where
  "cpp_round x = (if 0 \<le> x then \<lfloor>x + 1 / 2\<rfloor> else \<lceil>x - 1 / 2\<rceil>)"

definition int_text :: "int \<Rightarrow> string" where
  "int_text i = (if i < 0 then ''-'' @ digits_of (nat (- i)) else digits_of (nat i))"

text \<open>Trimming with \<open>find_first_not_of\<close> and \<open>find_last_not_of\<close>.\<close>

definition blank :: "char \<Rightarrow> bool" where
  "blank c \<longleftrightarrow> c \<in> {CHR '' '', CHR 9, CHR 10, CHR 13}"

definition trim :: "string \<Rightarrow> string" where
  "trim s = rev (dropWhile blank (rev (dropWhile blank s)))"

section \<open>Configuration\<close>

record Config =
  c_EnableStarCE :: bool
  c_UseAssignedAdjustRate :: bool
  c_UseSubqueryCard :: bool
  c_RecordingSubquery :: bool
  c_SubqueryOutputGroupByMain :: bool
  c_UseSingleTableCard :: bool
  c_RecordingSingleQuery :: bool
  c_RefreshStatistics :: bool
  c_EnableStarSplit :: bool
  c_MaxStarSize :: int
  c_PredMethod :: int
  c_IsCollectingRelErr :: bool
  c_CollectParallel :: int
  c_CompressPrecision :: real
  c_SCHEMA_PATH :: string
  c_SUBQUERY_PATH :: string
  c_SUBQUERY_RESULT_PATH :: string
  c_SINGLE_QUERY_PATH :: string
  c_SINGLE_QUERY_RESULT_PATH :: string
  c_DB_PATH :: string
  c_STATS_PATH :: string
  c_SQL_PATH :: string
  c_REAL_CARD_PATH :: string
  c_REL_ERR_PATH :: string
  c_STATS_SIZE_PATH :: string
  c_RecordEstimateTime :: bool
  c_SUBQUERY_TIME_PATH :: string
  c_ADJUST_RATE :: real
  c_PREDICATE_ADJUST_RATE :: real

text \<open>
  \<open>jsonData[key]\<close> on an object that may change yields null for a missing key; \<open>get<int>()\<close> takes
  numbers and booleans; \<open>value(key, default)\<close> needs an object.
\<close>

fun json_field :: "string \<Rightarrow> json \<Rightarrow> json res" where
  "json_field k JNull = Inr JNull"
| "json_field k (JObj kvs) = Inr (case map_of kvs k of None \<Rightarrow> JNull | Some v \<Rightarrow> v)"
| "json_field k j = Inl type_error"

fun get_int :: "json \<Rightarrow> int res" where
  "get_int (JInt i) = Inr (to_int32 i)"
| "get_int (JNum x) =
     (if - (2 ^ 31) \<le> trunc x \<and> trunc x < 2 ^ 31 then Inr (trunc x) else Inl (Undefined ''double to int''))"
| "get_int (JBool b) = Inr (if b then 1 else 0)"
| "get_int j = Inl type_error"

fun json_value :: "(json \<Rightarrow> 'a res) \<Rightarrow> string \<Rightarrow> 'a \<Rightarrow> json \<Rightarrow> 'a res" where
  "json_value get k d (JObj kvs) = (case map_of kvs k of None \<Rightarrow> Inr d | Some v \<Rightarrow> get v)"
| "json_value get k d j = Inl type_error"

definition config_flag :: "json \<Rightarrow> string \<Rightarrow> bool res" where
  "config_flag j k = res_map (\<lambda>i. i \<noteq> 0) (res_bind (json_field k j) get_int)"

definition config_string :: "json \<Rightarrow> string \<Rightarrow> string res" where
  "config_string j k = res_bind (json_field k j) get_string"

definition config_of :: "json \<Rightarrow> Config res" where
  "config_of j =
     res_bind (config_flag j ''EnableStarCE'') (\<lambda>enable.
     res_bind (config_flag j ''UseAssignedAdjustRate'') (\<lambda>assigned.
     res_bind (config_flag j ''UseSubqueryCard'') (\<lambda>useSub.
     res_bind (config_flag j ''RecordingSubquery'') (\<lambda>recSub.
     res_bind (config_flag j ''SubqueryOutputGroupByMain'') (\<lambda>group.
     res_bind (config_flag j ''UseSingleTableCard'') (\<lambda>useSingle.
     res_bind (config_flag j ''RecordingSingleQuery'') (\<lambda>recSingle.
     res_bind (config_flag j ''RefreshStatistics'') (\<lambda>refresh.
     res_bind (config_flag j ''EnableStarSplit'') (\<lambda>split.
     res_bind (json_value get_int ''MaxStarSize'' 3 j) (\<lambda>maxStar.
     res_bind (res_bind (json_field ''PredMethod'' j) get_int) (\<lambda>predMethod.
     res_bind (config_flag j ''IsCollectingRelErr'') (\<lambda>relErr.
     res_bind (res_bind (json_field ''CollectParallel'' j) get_int) (\<lambda>threads.
     res_bind (res_bind (json_field ''CompressPrecision'' j) get_double) (\<lambda>precision.
     res_bind (config_string j ''SCHEMA_PATH'') (\<lambda>schema.
     res_bind (config_string j ''SUBQUERY_PATH'') (\<lambda>subquery.
     res_bind (config_string j ''SUBQUERY_RESULT_PATH'') (\<lambda>subqueryResult.
     res_bind (config_string j ''SINGLE_QUERY_PATH'') (\<lambda>single.
     res_bind (config_string j ''SINGLE_QUERY_RESULT_PATH'') (\<lambda>singleResult.
     res_bind (config_string j ''DB_PATH'') (\<lambda>db.
     res_bind (config_string j ''STATS_PATH'') (\<lambda>stats.
     res_bind (config_string j ''SQL_PATH'') (\<lambda>sqlPath.
     res_bind (config_string j ''REAL_CARD_PATH'') (\<lambda>realCard.
     res_bind (config_string j ''REL_ERR_PATH'') (\<lambda>relErrPath.
     res_bind (json_value get_string ''STATS_SIZE_PATH'' ''statistics_size.json'' j) (\<lambda>statsSize.
     res_bind (json_value get_int ''RecordEstimateTime'' 0 j) (\<lambda>time.
     res_bind (json_value get_string ''SUBQUERY_TIME_PATH'' ''subquery_time.txt'' j) (\<lambda>timePath.
     res_bind (res_bind (json_field ''ADJUST_RATE'' j) get_double) (\<lambda>rate.
     res_bind (res_bind (json_field ''PREDICATE_ADJUST_RATE'' j) get_double) (\<lambda>predRate.
       Inr \<lparr>c_EnableStarCE = enable, c_UseAssignedAdjustRate = assigned, c_UseSubqueryCard = useSub,
         c_RecordingSubquery = recSub, c_SubqueryOutputGroupByMain = group,
         c_UseSingleTableCard = useSingle, c_RecordingSingleQuery = recSingle,
         c_RefreshStatistics = refresh, c_EnableStarSplit = split, c_MaxStarSize = maxStar,
         c_PredMethod = predMethod, c_IsCollectingRelErr = relErr, c_CollectParallel = threads,
         c_CompressPrecision = precision, c_SCHEMA_PATH = schema, c_SUBQUERY_PATH = subquery,
         c_SUBQUERY_RESULT_PATH = subqueryResult, c_SINGLE_QUERY_PATH = single,
         c_SINGLE_QUERY_RESULT_PATH = singleResult, c_DB_PATH = db, c_STATS_PATH = stats,
         c_SQL_PATH = sqlPath, c_REAL_CARD_PATH = realCard, c_REL_ERR_PATH = relErrPath,
         c_STATS_SIZE_PATH = statsSize, c_RecordEstimateTime = (time \<noteq> 0),
         c_SUBQUERY_TIME_PATH = timePath, c_ADJUST_RATE = rate,
         c_PREDICATE_ADJUST_RATE = predRate\<rparr>)))))))))))))))))))))))))))))"

definition ReadConfig :: "(string \<Rightarrow> json res) \<Rightarrow> string \<Rightarrow> Config io" where
  "ReadConfig parse path =
     sx_bind (read_file path) (\<lambda>s. sx_read (\<lambda>_. res_bind (parse s) config_of))"

section \<open>Statistics\<close>

definition TryReadStatistics ::
  "(json \<Rightarrow> string) \<Rightarrow> (string \<Rightarrow> json res) \<Rightarrow> Config \<Rightarrow> string \<Rightarrow> bool io" where
  "TryReadStatistics dump parse cfg path =
     (if c_RefreshStatistics cfg then sx_ret False
      else sx_bind (sx_read (\<lambda>w. Inr (w_files w path))) (\<lambda>f.
        case f of None \<Rightarrow> sx_ret False
        | Some s \<Rightarrow>
            sx_bind (sx_read (\<lambda>w. sm_deserialize dump parse s (w_sm w))) (\<lambda>sm.
            sx_bind (sx_mod (\<lambda>w. w\<lparr>w_sm := sm\<rparr>)) (\<lambda>_. sx_ret True))))"

text \<open>The text of the query that counts the combinations of the counts of an equal set.\<close>

definition quoted :: "string \<Rightarrow> string" where
  "quoted s = [CHR 39] @ s @ [CHR 39]"

definition aggregate_query :: "TableColumn \<Rightarrow> string" where
  "aggregate_query e =
     ''SELECT '' @ ColumnName e @ '' AS val, '' @ quoted (TableName e) @ '' AS tbl, COUNT(*) AS cnt FROM '' @
     TableName e @ '' WHERE '' @ ColumnName e @ '' IS NOT NULL GROUP BY '' @ ColumnName e"

definition case_statement :: "TableColumn \<Rightarrow> string" where
  "case_statement e =
     ''COALESCE(SUM(CASE WHEN tbl = '' @ quoted (TableName e) @ '' THEN cnt ELSE 0 END), 0) AS '' @
     TableName e @ ''_cnt''"

definition pivotQuery :: "EqualSet \<Rightarrow> string" where
  "pivotQuery es =
     ''SELECT val, '' @ join_with '', '' (map case_statement (Entries es)) @ '' FROM ('' @
     join_with '' UNION ALL '' (map aggregate_query (Entries es)) @ '') AS agg_data GROUP BY val''"

definition countNumQuery :: "EqualSet \<Rightarrow> string" where
  "countNumQuery es =
     (let columns = join_with '', '' (map (\<lambda>e. TableName e @ ''_cnt'') (Entries es))
      in ''SELECT '' @ columns @ '', COUNT(*) AS freq FROM ('' @ pivotQuery es @
         '') AS pivot_data GROUP BY '' @ columns)"

text \<open>One row of the result: the counts of the tables and the frequency.\<close>

definition row_counts :: "EqualSet \<Rightarrow> int list \<Rightarrow> (counts \<times> int) res" where
  "row_counts es row =
     (if length row \<noteq> length (Entries es) + 1 then Inl (Undefined ''GetValue'')
      else Inr (fold (\<lambda>(t, c). map_put t c) (zip (map TableName (Entries es)) row) [],
                row ! length (Entries es)))"

definition count_num_of :: "EqualSet \<Rightarrow> int list list \<Rightarrow> (counts \<times> int) list res" where
  "count_num_of es rows =
     res_fold (\<lambda>row m. res_map (\<lambda>(cnt, freq). map_put cnt freq m) (row_counts es row)) rows []"

text \<open>
  The number of worker threads is the smallest of the number of subsets, \<open>CollectParallel\<close> and the
  (positive) number of processors; without a thread no subset receives a count.
\<close>

definition collect_idle :: "EqualSet \<Rightarrow> (counts \<times> int) list \<Rightarrow> unit smx" where
  "collect_idle es count_num =
     sx_bind (PrepareCollection es) (\<lambda>_.
     sx_bind (sx_for (\<lambda>(cnt, freq) _. AddDegreeForSingleDS cnt (to_int32 freq)) count_num ()) (\<lambda>_.
       sm_FinishCollection))"

definition collect_eset :: "(string \<Rightarrow> int list list res) \<Rightarrow> int \<Rightarrow> EqualSet \<Rightarrow> unit smx" where
  "collect_eset sql threads es =
     sx_bind (sx_read (\<lambda>_. res_bind (sql (countNumQuery es)) (count_num_of es))) (\<lambda>count_num.
       if 0 < threads then CollectEqualSet es count_num else collect_idle es count_num)"

definition read_esets :: "json \<Rightarrow> EqualSet list res" where
  "read_esets j =
     res_bind (json_field ''EqualSets'' j) (\<lambda>v.
       res_fold (\<lambda>e acc. res_map (\<lambda>es. acc @ [es]) (EqualSet_of_json e)) (json_items v) [])"

definition CollectStatistics ::
  "(json \<Rightarrow> string) \<Rightarrow> (string \<Rightarrow> json res) \<Rightarrow> (string \<Rightarrow> int list list res) \<Rightarrow> Config \<Rightarrow> string \<Rightarrow> unit io" where
  "CollectStatistics dump parse sql cfg path =
     sx_bind (read_file path) (\<lambda>s.
     sx_bind (sx_read (\<lambda>_. res_bind (parse s) read_esets)) (\<lambda>esets.
     sx_bind (in_sm (sx_for (\<lambda>es _. collect_eset sql (c_CollectParallel cfg) es) esets ())) (\<lambda>_.
     sx_bind (in_sm (sx_mod CalcAdjustRate)) (\<lambda>_.
     sx_bind (open_out (c_STATS_PATH cfg)) (\<lambda>_.
     sx_bind (sx_read (\<lambda>w. sm_serialize dump (w_sm w))) (\<lambda>text.
       put (c_STATS_PATH cfg) text))))))"

section \<open>Execution of the queries\<close>

text \<open>
  One line of the file. An exception of \<open>con.Query\<close> is reported and the next line follows; an
  exception of \<open>ParsePredicate\<close> ends the program. \<open>query\<close> is the effect of the statement on the
  manager, through the hooks of the optimizer.
\<close>

definition set_main_query :: "Config \<Rightarrow> int \<Rightarrow> string \<Rightarrow> StatisticManager \<Rightarrow> StatisticManager" where
  "set_main_query cfg sqlid sql sm =
     (if c_RecordingSubquery cfg then
        let sm1 = sm\<lparr>sm_CurrentMainQueryId := sqlid, sm_CurrentMainQuerySql := sql\<rparr>
        in if c_SubqueryOutputGroupByMain cfg
           then sm1\<lparr>sm_SubqueriesByMainQuery := (sm_SubqueriesByMainQuery sm1)
             (sqlid \<mapsto> (sql, case sm_SubqueriesByMainQuery sm1 sqlid of None \<Rightarrow> [] | Some e \<Rightarrow> snd e))\<rparr>
           else sm1
      else sm)"

definition sx_catch :: "('s, unit) sx \<Rightarrow> ('s, unit) sx" where
  "sx_catch m s = (Inr (), snd (m s))"

definition exec_line :: "(string \<Rightarrow> unit smx) \<Rightarrow> Config \<Rightarrow> int \<times> string \<Rightarrow> unit smx" where
  "exec_line query cfg e =
     (case e of (sqlid, line) \<Rightarrow>
        let sql = trim line
        in if sql = [] then sx_ret ()
           else sx_bind (ParsePredicate sql) (\<lambda>_.
                sx_bind (sx_mod (set_main_query cfg sqlid sql)) (\<lambda>_.
                  sx_catch (query sql))))"

definition ExecuteSql :: "(string \<Rightarrow> unit smx) \<Rightarrow> Config \<Rightarrow> string \<Rightarrow> unit io" where
  "ExecuteSql query cfg path =
     sx_bind (read_file path) (\<lambda>s.
       let lines = getlines s
       in in_sm (sx_for (\<lambda>e _. exec_line query cfg e)
                   (zip (map int [1..<length lines + 1]) lines) ()))"

section \<open>Recorded and injected numbers\<close>

text \<open>\<open>sm.RecordingSubqueryCards[subquery]\<close> enters a 0 for a missing key; the value is cast.\<close>

definition recorded_card :: "string \<Rightarrow> int io" where
  "recorded_card q =
     sx_bind (sx_mod (\<lambda>w. w\<lparr>w_sm := (w_sm w)\<lparr>sm_RecordingSubqueryCards :=
         (case sm_RecordingSubqueryCards (w_sm w) q of
            None \<Rightarrow> (sm_RecordingSubqueryCards (w_sm w))(q \<mapsto> 0)
          | Some _ \<Rightarrow> sm_RecordingSubqueryCards (w_sm w))\<rparr>\<rparr>)) (\<lambda>_.
     sx_read (\<lambda>w. let c = trunc (the (sm_RecordingSubqueryCards (w_sm w) q))
                 in if int64 c then Inr c else Inl (Undefined ''double to int64_t'')))"

definition OutputSubquery :: "Config \<Rightarrow> unit io" where
  "OutputSubquery cfg =
     sx_bind (open_out (c_SUBQUERY_PATH cfg)) (\<lambda>_.
     sx_bind (open_out (c_SUBQUERY_RESULT_PATH cfg)) (\<lambda>_.
     sx_bind (sx_read (\<lambda>w. Inr (w_sm w))) (\<lambda>sm.
       let subs = sorted_list_of_set (sm_Subqueries sm);
           mains = sorted_list_of_set (dom (sm_SubqueriesByMainQuery sm))
       in if c_SubqueryOutputGroupByMain cfg \<and> mains \<noteq> [] then
            sx_bind (sx_for (\<lambda>k _.
                let (sql, qs) = the (sm_SubqueriesByMainQuery sm k)
                in sx_bind (put_line (c_SUBQUERY_PATH cfg) (''=== '' @ int_text k @ '' ==='')) (\<lambda>_.
                   sx_bind (put_line (c_SUBQUERY_PATH cfg) sql) (\<lambda>_.
                     sx_for (\<lambda>p _. put_line (c_SUBQUERY_PATH cfg) (fst p)) qs ()))) mains ()) (\<lambda>_.
            sx_for (\<lambda>q _. sx_bind (recorded_card q) (\<lambda>c.
                put_line (c_SUBQUERY_RESULT_PATH cfg) (int_text c))) subs ())
          else
            sx_for (\<lambda>q _. sx_bind (put_line (c_SUBQUERY_PATH cfg) q) (\<lambda>_.
                sx_bind (recorded_card q) (\<lambda>c.
                  put_line (c_SUBQUERY_RESULT_PATH cfg) (int_text c)))) subs ())))"

definition OutputSubqueryTime :: "(real \<Rightarrow> string) \<Rightarrow> Config \<Rightarrow> unit io" where
  "OutputSubqueryTime show_double cfg =
     sx_bind (open_out (c_SUBQUERY_TIME_PATH cfg)) (\<lambda>_.
     sx_bind (sx_read (\<lambda>w. Inr (w_sm w))) (\<lambda>sm.
       sx_for (\<lambda>q _. put_line (c_SUBQUERY_TIME_PATH cfg)
           (show_double (case sm_RecordingSubqueryTimes sm q of None \<Rightarrow> 0 | Some t \<Rightarrow> t)))
         (sorted_list_of_set (sm_Subqueries sm)) ()))"

definition OutputSingleQuery :: "Config \<Rightarrow> unit io" where
  "OutputSingleQuery cfg =
     sx_bind (open_out (c_SINGLE_QUERY_PATH cfg)) (\<lambda>_.
     sx_bind (sx_read (\<lambda>w. Inr (w_sm w))) (\<lambda>sm.
       sx_for (\<lambda>q _. put_line (c_SINGLE_QUERY_PATH cfg) q) (sorted_list_of_set (sm_SingleQueries sm)) ()))"

definition OutputRelErr :: "(real \<Rightarrow> string) \<Rightarrow> Config \<Rightarrow> unit io" where
  "OutputRelErr show_double cfg =
     sx_bind (open_out (c_REL_ERR_PATH cfg)) (\<lambda>_.
     sx_bind (sx_read (\<lambda>w. Inr (w_sm w))) (\<lambda>sm.
       sx_for (\<lambda>p _. put_line (c_REL_ERR_PATH cfg) (int_text (fst p) @ '' '' @ show_double (snd p)))
         (sm_relErr sm) ()))"

text \<open>
  The loop of \<open>ReadSubqueryCard\<close>, \<open>ReadSingleQueryCard\<close> and \<open>ReadRealCard\<close>: one number per line of
  the other file. \<open>card\<close> is not initialised, keeps its value when the numbers run out, and is
  rounded to an \<open>int64_t\<close>.
\<close>

fun card_loop :: "string list \<Rightarrow> string option \<times> real option \<Rightarrow> (string \<times> int) list \<Rightarrow> (string \<times> int) list res" where
  "card_loop [] sv acc = Inr acc"
| "card_loop (q # qs) sv acc =
     (let sv' = extract_double sv
      in case snd sv' of None \<Rightarrow> Inl (Undefined ''uninitialised card'')
         | Some x \<Rightarrow> if int64 (cpp_round x) then card_loop qs sv' (acc @ [(q, cpp_round x)])
                     else Inl (Undefined ''double to int64_t''))"

definition read_cards :: "(string \<Rightarrow> int \<Rightarrow> StatisticManager \<Rightarrow> StatisticManager) \<Rightarrow> string \<Rightarrow> string \<Rightarrow> unit io" where
  "read_cards add queries results =
     sx_bind (read_file queries) (\<lambda>s.
     sx_bind (read_file results) (\<lambda>r.
     sx_bind (sx_read (\<lambda>_. card_loop (getlines s) (Some r, None) [])) (\<lambda>cards.
       in_sm (sx_mod (fold (\<lambda>(q, c). add q c) cards)))))"

definition ReadSubqueryCard :: "Config \<Rightarrow> unit io" where
  "ReadSubqueryCard cfg = read_cards AddSubqueryCard (c_SUBQUERY_PATH cfg) (c_SUBQUERY_RESULT_PATH cfg)"

definition ReadSingleQueryCard :: "Config \<Rightarrow> unit io" where
  "ReadSingleQueryCard cfg =
     read_cards AddSingleQueryCard (c_SINGLE_QUERY_PATH cfg) (c_SINGLE_QUERY_RESULT_PATH cfg)"

definition ReadRealCard :: "Config \<Rightarrow> unit io" where
  "ReadRealCard cfg = read_cards AddRealCard (c_SUBQUERY_PATH cfg) (c_REAL_CARD_PATH cfg)"

section \<open>\<open>main\<close>\<close>

definition configure :: "Config \<Rightarrow> StatisticManager \<Rightarrow> StatisticManager" where
  "configure cfg sm = sm\<lparr>
     sm_IsRecordingSubquery := c_RecordingSubquery cfg,
     sm_IsRecordingSingleQuery := c_RecordingSingleQuery cfg,
     sm_SubqueryOutputGroupByMain := c_SubqueryOutputGroupByMain cfg,
     sm_UseSubqueryCard := c_UseSubqueryCard cfg,
     sm_UseSingleTableCard := c_UseSingleTableCard cfg,
     sm_EnableStarSplit := c_EnableStarSplit cfg,
     sm_MaxStarSize := c_MaxStarSize cfg,
     sm_PredMethod := c_PredMethod cfg,
     sm_IsCollectingRelErr := c_IsCollectingRelErr cfg,
     sm_CompressPrecision := c_CompressPrecision cfg,
     sm_IsRecordEstimateTime := c_RecordEstimateTime cfg\<rparr>"

definition sx_when :: "bool \<Rightarrow> ('s, unit) sx \<Rightarrow> ('s, unit) sx" where
  "sx_when b m = (if b then m else sx_ret ())"

text \<open>\<open>report\<close> is the text of \<open>MemoryReport\<close>.\<close>

definition OutputStatsSize :: "(StatisticManager \<Rightarrow> string) \<Rightarrow> Config \<Rightarrow> unit io" where
  "OutputStatsSize report cfg =
     sx_bind (sx_read (\<lambda>w. Inr (report (w_sm w)))) (\<lambda>text.
     sx_bind (open_out (c_STATS_SIZE_PATH cfg)) (\<lambda>_. put (c_STATS_SIZE_PATH cfg) text))"

definition starce_main ::
  "(json \<Rightarrow> string) \<Rightarrow> (string \<Rightarrow> json res) \<Rightarrow> (real \<Rightarrow> string) \<Rightarrow> (StatisticManager \<Rightarrow> string) \<Rightarrow>
   (string \<Rightarrow> int list list res) \<Rightarrow> (string \<Rightarrow> unit smx) \<Rightarrow> unit io" where
  "starce_main dump parse show_double report sql query =
     sx_bind (ReadConfig parse ''config.json'') (\<lambda>cfg.
     sx_bind (in_sm (sx_mod (configure cfg))) (\<lambda>_.
     sx_bind (TryReadStatistics dump parse cfg (c_STATS_PATH cfg)) (\<lambda>have_stats.
     sx_bind (sx_when (\<not> have_stats)
       (sx_bind (CollectStatistics dump parse sql cfg (c_SCHEMA_PATH cfg)) (\<lambda>_.
          sx_when (c_RefreshStatistics cfg) (OutputStatsSize report cfg)))) (\<lambda>_.
     sx_bind (in_sm (sx_mod (\<lambda>sm. sm\<lparr>sm_EnableStarCE := c_EnableStarCE cfg\<rparr>))) (\<lambda>_.
     sx_bind (sx_when (c_UseAssignedAdjustRate cfg) (in_sm (sx_mod (\<lambda>sm.
         sm\<lparr>sm_AdjustRate := c_ADJUST_RATE cfg, sm_PredicateAdjustRate := c_PREDICATE_ADJUST_RATE cfg\<rparr>)))) (\<lambda>_.
     sx_bind (sx_when (c_UseSubqueryCard cfg) (ReadSubqueryCard cfg)) (\<lambda>_.
     sx_bind (sx_when (c_UseSingleTableCard cfg) (ReadSingleQueryCard cfg)) (\<lambda>_.
     sx_bind (sx_when (c_IsCollectingRelErr cfg) (ReadRealCard cfg)) (\<lambda>_.
     sx_bind (ExecuteSql query cfg (c_SQL_PATH cfg)) (\<lambda>_.
     sx_bind (sx_when (c_RecordingSubquery cfg) (OutputSubquery cfg)) (\<lambda>_.
     sx_bind (sx_when (c_RecordEstimateTime cfg) (OutputSubqueryTime show_double cfg)) (\<lambda>_.
     sx_bind (sx_when (c_RecordingSingleQuery cfg) (OutputSingleQuery cfg)) (\<lambda>_.
       sx_when (c_IsCollectingRelErr cfg) (OutputRelErr show_double cfg))))))))))))))"

end
