(* ===== verification/Driver_Files.thy ===== *)
theory Driver_Files
  imports Driver
begin

text \<open>
  The files of recorded cardinalities: what \<open>OutputSubquery\<close> writes is what \<open>ReadSubqueryCard\<close>
  registers. Decimal numbers are read back as they were printed, lines as they were written.
\<close>

section \<open>Decimal numbers\<close>

lemma digits_of_step: "10 \<le> n \<Longrightarrow> digits_of n = digits_of (n div 10) @ [char_of (48 + n mod 10)]"
  by (subst digits_of.simps) simp

lemma digits_of_digit: "n < 10 \<Longrightarrow> digits_of n = [char_of (48 + n)]"
  by (subst digits_of.simps) simp

lemma digit_char [simp]: "(k :: nat) < 10 \<Longrightarrow> digit (char_of (48 + k))"
  by (simp add: digit_def)

lemma digits_of_all: "list_all digit (digits_of n) \<and> digits_of n \<noteq> []"
proof (induction n rule: less_induct)
  case (less n)
  then show ?case
    by (cases "n < 10") (simp_all add: digits_of_digit digits_of_step)
qed

lemma digits_val_snoc: "digits_val (ds @ [c]) = 10 * digits_val ds + (of_char c - 48)"
  by (simp add: digits_val_def)

lemma digits_val_digits_of [simp]: "digits_val (digits_of n) = n"
proof (induction n rule: less_induct)
  case (less n)
  show ?case
  proof (cases "n < 10")
    case True
    then show ?thesis by (simp add: digits_of_digit digits_val_def)
  next
    case False
    then show ?thesis using less [of "n div 10"] by (simp add: digits_of_step digits_val_snoc)
  qed
qed

lemma span_digits:
  assumes "list_all digit ds" "\<not> digit c"
  shows "takeWhile digit (ds @ c # r) = ds" "dropWhile digit (ds @ c # r) = c # r"
  using assms by (induction ds) auto

lemma newline_props [simp]: "\<not> digit newline" "space newline"
  by (simp_all add: newline_def digit_def space_def)

lemma scan_digits:
  "scan_double (digits_of n @ newline # r) = (Some (of_nat n), newline # r)"
  "scan_double (''-'' @ digits_of n @ newline # r) = (Some (- of_nat n), newline # r)"
proof -
  let ?s = "digits_of n @ newline # r"
  have d: "takeWhile digit ?s = digits_of n" "dropWhile digit ?s = newline # r" "digits_of n \<noteq> []"
    using span_digits digits_of_all by simp_all
  obtain c cs where c: "digits_of n = c # cs" using d(3) by (cases "digits_of n") auto
  then have "digit c" using digits_of_all [of n] by simp
  then have "c \<noteq> CHR ''-'' \<and> c \<noteq> CHR ''+''" by (auto simp: digit_def)
  then have s: "scan_sign ?s = (False, ?s)" by (simp add: scan_sign_def c)
  have r: "scan_fraction (newline # r) = ([], newline # r)" "scan_exponent (newline # r) = (Some 1, newline # r)"
    by (simp_all add: scan_fraction_def scan_exponent_def newline_def)
  show "scan_double ?s = (Some (of_nat n), newline # r)"
    by (simp add: scan_double_def s d r Let_def)
  have m: "scan_sign (''-'' @ ?s) = (True, ?s)" by (simp add: scan_sign_def)
  show "scan_double (''-'' @ ?s) = (Some (- of_nat n), newline # r)"
    unfolding scan_double_def m by (simp add: d r Let_def)
qed

lemma int_text_first: "\<exists>c cs. int_text i = c # cs \<and> \<not> space c"
proof -
  have "\<exists>c cs. digits_of n = c # cs \<and> digit c" for n
    using digits_of_all [of n] by (cases "digits_of n") auto
  moreover have "digit c \<Longrightarrow> \<not> space c" for c by (auto simp: digit_def space_def)
  ultimately show ?thesis by (fastforce simp: int_text_def space_def)
qed

text \<open>Reading a number that stands on the next line.\<close>

lemma extract_int_text:
  assumes "s = int_text i @ newline # r \<or> s = newline # int_text i @ newline # r"
  shows "extract_double (Some s, v) = (Some (newline # r), Some (of_int i))"
proof -
  obtain c cs where c: "int_text i = c # cs" "\<not> space c" using int_text_first by blast
  have "dropWhile space s = int_text i @ newline # r" using assms c by auto
  moreover have "scan_double (int_text i @ newline # r) = (Some (of_int i), newline # r)"
    using scan_digits(1) [of "nat i" r] scan_digits(2) [of "nat (- i)" r]
    by (simp add: int_text_def)
  ultimately show ?thesis by (simp add: extract_double_def Let_def c(1))
qed

lemma cpp_round_int [simp]: "cpp_round (of_int i) = i"
  by (simp add: cpp_round_def floor_eq_iff ceiling_eq_iff)

section \<open>Lines\<close>

definition lines_text :: "string list \<Rightarrow> string" where
  "lines_text ls = concat (map (\<lambda>l. l @ [newline]) ls)"

lemma getlines_acc_line:
  "newline \<notin> set l \<Longrightarrow> getlines_acc acc (l @ newline # r) = (acc @ l) # getlines_acc [] r"
  by (induction l arbitrary: acc) auto

lemma getlines_text: "\<forall>l \<in> set ls. newline \<notin> set l \<Longrightarrow> getlines (lines_text ls) = ls"
  unfolding getlines_def lines_text_def
  by (induction ls) (simp_all add: getlines_acc_line)

definition number_lines :: "('a \<Rightarrow> int) \<Rightarrow> 'a list \<Rightarrow> string" where
  "number_lines f qs = lines_text (map (\<lambda>q. int_text (f q)) qs)"

lemma number_lines_simps [simp]:
  "number_lines f [] = []"
  "number_lines f (q # qs) = int_text (f q) @ newline # number_lines f qs"
  by (simp_all add: number_lines_def lines_text_def)

lemma card_loop_lines:
  assumes "\<forall>q \<in> set qs. int64 (f q)"
    and "s = number_lines f qs \<or> s = newline # number_lines f qs"
  shows "card_loop qs (Some s, v) acc = Inr (acc @ map (\<lambda>q. (q, f q)) qs)"
  using assms
proof (induction qs arbitrary: s v acc)
  case (Cons q qs)
  let ?r = "number_lines f qs"
  have "extract_double (Some s, v) = (Some (newline # ?r), Some (of_int (f q)))"
    using Cons.prems(2) by (intro extract_int_text) (simp add: lines_text_def)
  then show ?case using Cons.prems(1) Cons.IH [of "newline # ?r" "Some (of_int (f q))" "acc @ [(q, f q)]"] by simp
qed simp

section \<open>What is written\<close>

text \<open>The file system after lines were added to a file, and the other effects of the output loop.\<close>

definition recorded :: "StatisticManager \<Rightarrow> string \<Rightarrow> int" where
  "recorded sm q = trunc (case sm_RecordingSubqueryCards sm q of None \<Rightarrow> 0 | Some c \<Rightarrow> c)"

lemma put_line_eval:
  "w_files w path = Some t \<Longrightarrow>
   put_line path s w = (Inr (), w\<lparr>w_files := (w_files w)(path \<mapsto> t @ s @ [newline])\<rparr>)"
  by (simp add: put_line_def put_def sx_simps)

lemma recorded_card_wp:
  assumes "int64 (recorded (w_sm w) q)"
  shows "sx_wp (recorded_card q) (\<lambda>c u. c = recorded (w_sm w) q \<and> w_files u = w_files w \<and>
    recorded (w_sm u) = recorded (w_sm w)) w"
  using assms
  by (cases "sm_RecordingSubqueryCards (w_sm w) q")
    (auto simp: recorded_card_def sx_wp sx_wp_read Let_def recorded_def fun_eq_iff)

lemma output_loop:
  assumes "w_files w p = Some s" "w_files w r = Some t" "p \<noteq> r" "\<forall>q \<in> set qs. int64 (recorded (w_sm w) q)"
  shows "sx_wp (sx_for (\<lambda>q _. sx_bind (put_line p q) (\<lambda>_.
        sx_bind (recorded_card q) (\<lambda>c. put_line r (int_text c)))) qs ())
    (\<lambda>_ u. w_files u p = Some (s @ lines_text qs) \<and>
       w_files u r = Some (t @ number_lines (recorded (w_sm w)) qs)) w"
  using assms
proof (induction qs arbitrary: w s t)
  case (Cons q qs)
  let ?w = "w\<lparr>w_files := (w_files w)(p \<mapsto> s @ q @ [newline])\<rparr>"
  have 1: "sx_wp (put_line p q) (\<lambda>_ u. u = ?w) w"
    using Cons.prems(1) by (simp add: sx_wp_result put_line_eval)
  have 2: "sx_wp (recorded_card q) (\<lambda>c u. c = recorded (w_sm w) q \<and> w_files u = w_files ?w \<and>
      recorded (w_sm u) = recorded (w_sm w)) ?w"
    using recorded_card_wp [of ?w q] Cons.prems(4) by simp
  have 3: "sx_wp (put_line r (int_text c)) (\<lambda>x v.
      sx_wp (sx_for (\<lambda>q _. sx_bind (put_line p q) (\<lambda>_.
          sx_bind (recorded_card q) (\<lambda>c. put_line r (int_text c)))) qs x)
        (\<lambda>_ u. w_files u p = Some (s @ lines_text (q # qs)) \<and>
           w_files u r = Some (t @ number_lines (recorded (w_sm w)) (q # qs))) v) u"
    if u: "c = recorded (w_sm w) q \<and> w_files u = w_files ?w \<and> recorded (w_sm u) = recorded (w_sm w)" for c u
  proof -
    let ?v = "u\<lparr>w_files := (w_files u)(r \<mapsto> t @ int_text c @ [newline])\<rparr>"
    have "w_files u r = Some t" using u Cons.prems(2,3) by simp
    then have e: "put_line r (int_text c) u = (Inr (), ?v)" by (rule put_line_eval)
    have "w_files ?v p = Some (s @ q @ [newline])" "w_files ?v r = Some (t @ int_text c @ [newline])"
      "\<forall>q \<in> set qs. int64 (recorded (w_sm ?v) q)"
      using u Cons.prems(3,4) by simp_all
    from Cons.IH [OF this(1,2) Cons.prems(3) this(3)] show ?thesis
      using u unfolding sx_wp_result e by (simp add: lines_text_def)
  qed
  show ?case
    unfolding sx_for.simps sx_wp_bind
  proof (rule sx_wp_mono [OF 1], elim ssubst, rule sx_wp_mono [OF 2])
  qed (rule 3)
qed (simp add: sx_wp lines_text_def)

lemma OutputSubquery_wp:
  assumes "c_SUBQUERY_PATH cfg \<noteq> c_SUBQUERY_RESULT_PATH cfg"
    "w_writable w (c_SUBQUERY_PATH cfg)" "w_writable w (c_SUBQUERY_RESULT_PATH cfg)"
    "\<not> c_SubqueryOutputGroupByMain cfg" "finite (sm_Subqueries (w_sm w))"
    "\<forall>q \<in> sm_Subqueries (w_sm w). int64 (recorded (w_sm w) q)"
  shows "sx_wp (OutputSubquery cfg)
    (\<lambda>_ u. w_files u (c_SUBQUERY_PATH cfg) = Some (lines_text (sorted_list_of_set (sm_Subqueries (w_sm w)))) \<and>
       w_files u (c_SUBQUERY_RESULT_PATH cfg) = Some (number_lines (recorded (w_sm w)) (sorted_list_of_set (sm_Subqueries (w_sm w))))) w"
proof -
  let ?w = "w\<lparr>w_files := (w_files w)(c_SUBQUERY_PATH cfg \<mapsto> '''', c_SUBQUERY_RESULT_PATH cfg \<mapsto> '''')\<rparr>"
  have "sx_wp (sx_for (\<lambda>q _. sx_bind (put_line (c_SUBQUERY_PATH cfg) q) (\<lambda>_.
        sx_bind (recorded_card q) (\<lambda>c. put_line (c_SUBQUERY_RESULT_PATH cfg) (int_text c))))
        (sorted_list_of_set (sm_Subqueries (w_sm w))) ())
    (\<lambda>_ u. w_files u (c_SUBQUERY_PATH cfg) = Some ('''' @ lines_text (sorted_list_of_set (sm_Subqueries (w_sm w)))) \<and>
       w_files u (c_SUBQUERY_RESULT_PATH cfg) = Some ('''' @ number_lines (recorded (w_sm ?w)) (sorted_list_of_set (sm_Subqueries (w_sm w))))) ?w"
    using assms by (intro output_loop) simp_all
  then show ?thesis
    using assms(2-4) by (simp add: OutputSubquery_def open_out_def sx_wp sx_wp_read Let_def)
qed

lemma fold_AddSubqueryCard:
  "sm_subqueryCard (fold (\<lambda>(q, c). AddSubqueryCard q c) (map (\<lambda>q. (q, f q)) qs) sm) x =
     (if x \<in> set qs then Some (f x) else sm_subqueryCard sm x)"
  by (induction qs arbitrary: sm) (auto simp: AddSubqueryCard_def)

text \<open>
  C26: the cardinalities that a run with \<open>RecordingSubquery\<close> writes are the ones a run with
  \<open>UseSubqueryCard\<close> injects: from the two files of \<open>OutputSubquery\<close> (not grouped by main query)
  \<open>ReadSubqueryCard\<close> registers, in whatever manager, every recorded subquery with its recorded
  cardinality cut to an integer, and no other text. Neither step fails.
\<close>

theorem recorded_cards_reload:
  assumes "c_SUBQUERY_PATH cfg \<noteq> c_SUBQUERY_RESULT_PATH cfg"
    "w_writable w (c_SUBQUERY_PATH cfg)" "w_writable w (c_SUBQUERY_RESULT_PATH cfg)"
    "\<not> c_SubqueryOutputGroupByMain cfg" "finite (sm_Subqueries (w_sm w))"
    "\<forall>q \<in> sm_Subqueries (w_sm w). newline \<notin> set q \<and> int64 (recorded (w_sm w) q)"
  shows "\<exists>w'. OutputSubquery cfg w = (Inr (), w') \<and>
    (\<forall>sm. \<exists>w''. ReadSubqueryCard cfg (w'\<lparr>w_sm := sm\<rparr>) = (Inr (), w'') \<and>
       sm_subqueryCard (w_sm w'') =
         (\<lambda>q. if q \<in> sm_Subqueries (w_sm w) then Some (recorded (w_sm w) q) else sm_subqueryCard sm q))"
proof -
  let ?qs = "sorted_list_of_set (sm_Subqueries (w_sm w))" and ?f = "recorded (w_sm w)"
  obtain w' where out: "OutputSubquery cfg w = (Inr (), w')"
    and p: "w_files w' (c_SUBQUERY_PATH cfg) = Some (lines_text ?qs)"
    and r: "w_files w' (c_SUBQUERY_RESULT_PATH cfg) = Some (number_lines ?f ?qs)"
    using OutputSubquery_wp [OF assms(1-5)] assms(6) unfolding sx_wp_result by auto
  have g: "getlines (lines_text ?qs) = ?qs" using assms(5,6) by (intro getlines_text) simp
  have c: "card_loop ?qs (Some (number_lines ?f ?qs), None) [] = Inr (map (\<lambda>q. (q, ?f q)) ?qs)"
    using card_loop_lines [of ?qs ?f] assms(5,6) by simp
  have "ReadSubqueryCard cfg (w'\<lparr>w_sm := sm\<rparr>) =
      (Inr (), w'\<lparr>w_sm := fold (\<lambda>(q, c). AddSubqueryCard q c) (map (\<lambda>q. (q, ?f q)) ?qs) sm\<rparr>)" for sm
    by (simp add: ReadSubqueryCard_def read_cards_def read_file_def sx_simps p r g c in_sm_def)
  then show ?thesis using out assms(5) by (auto simp: fun_eq_iff fold_AddSubqueryCard)
qed


text \<open>Two recorded subqueries, one with a fraction.\<close>

definition reload_config :: Config where
  "reload_config = \<lparr>c_EnableStarCE = True, c_UseAssignedAdjustRate = False, c_UseSubqueryCard = True,
     c_RecordingSubquery = True, c_SubqueryOutputGroupByMain = False, c_UseSingleTableCard = False,
     c_RecordingSingleQuery = False, c_RefreshStatistics = False, c_EnableStarSplit = False,
     c_MaxStarSize = 3, c_PredMethod = 0, c_IsCollectingRelErr = False, c_CollectParallel = 8,
     c_CompressPrecision = 2, c_SCHEMA_PATH = ''s'', c_SUBQUERY_PATH = ''sub'',
     c_SUBQUERY_RESULT_PATH = ''res'', c_SINGLE_QUERY_PATH = '''', c_SINGLE_QUERY_RESULT_PATH = '''',
     c_DB_PATH = '''', c_STATS_PATH = ''stats'', c_SQL_PATH = ''sql'', c_REAL_CARD_PATH = '''',
     c_REL_ERR_PATH = '''', c_STATS_SIZE_PATH = '''', c_RecordEstimateTime = False,
     c_SUBQUERY_TIME_PATH = '''', c_ADJUST_RATE = 1, c_PREDICATE_ADJUST_RATE = 1\<rparr>"

definition reload_world :: World where
  "reload_world = \<lparr>w_files = Map.empty, w_writable = (\<lambda>_. True), w_sm = StatisticManager_init\<lparr>
     sm_Subqueries := {''q'', ''r''}, sm_RecordingSubqueryCards := [''q'' \<mapsto> 5 / 2, ''r'' \<mapsto> 12]\<rparr>\<rparr>"

theorem recorded_cards_reload_witness:
  "\<exists>w'. OutputSubquery reload_config reload_world = (Inr (), w') \<and>
    (\<exists>w''. ReadSubqueryCard reload_config (w'\<lparr>w_sm := StatisticManager_init\<rparr>) = (Inr (), w'') \<and>
       sm_subqueryCard (w_sm w'') ''q'' = Some 2 \<and> sm_subqueryCard (w_sm w'') ''r'' = Some 12 \<and>
       sm_subqueryCard (w_sm w'') ''s'' = None)"
proof -
  have w: "sm_Subqueries (w_sm reload_world) = {''q'', ''r''}"
    "recorded (w_sm reload_world) ''q'' = 2" "recorded (w_sm reload_world) ''r'' = 12"
    by (simp_all add: reload_world_def recorded_def trunc_def)
  have "\<exists>w'. OutputSubquery reload_config reload_world = (Inr (), w') \<and>
    (\<forall>sm. \<exists>w''. ReadSubqueryCard reload_config (w'\<lparr>w_sm := sm\<rparr>) = (Inr (), w'') \<and>
       sm_subqueryCard (w_sm w'') = (\<lambda>q. if q \<in> sm_Subqueries (w_sm reload_world)
          then Some (recorded (w_sm reload_world) q) else sm_subqueryCard sm q))"
    by (rule recorded_cards_reload)
      (simp_all add: w, simp_all add: reload_config_def reload_world_def newline_def int64_def)
  then obtain w' w'' where out: "OutputSubquery reload_config reload_world = (Inr (), w')"
    and read: "ReadSubqueryCard reload_config (w'\<lparr>w_sm := StatisticManager_init\<rparr>) = (Inr (), w'')"
    and cards: "sm_subqueryCard (w_sm w'') = (\<lambda>q. if q \<in> sm_Subqueries (w_sm reload_world)
          then Some (recorded (w_sm reload_world) q) else sm_subqueryCard StatisticManager_init q)"
    by blast
  have "sm_subqueryCard (w_sm w'') ''q'' = Some 2" "sm_subqueryCard (w_sm w'') ''r'' = Some 12"
    "sm_subqueryCard (w_sm w'') ''s'' = None"
    by (simp_all add: cards w) (simp add: StatisticManager_init_def)
  with out read show ?thesis by blast
qed

end
