(* ===== verification/JoinSets.thy ===== *)
theory JoinSets
  imports Driver_Files "HOL-Library.AList"
begin

text \<open>
  Sets of relations in the join order optimizer of DuckDB (\<^verbatim>\<open>join_relation_set.cpp\<close>). A
  \<open>JoinRelationSet\<close> is the ascending list of its relations. The set manager interns the sets in
  a tree, so that a set is known by the address of its object; the last section proves that
  objects and lists correspond one to one, and the other theories use the lists.
\<close>

type_synonym JoinRelationSet = "nat list"

section \<open>Subsets and unions\<close>

text \<open>The loop of \<open>IsSubset\<close>: \<open>sub\<close> is the part of the smaller set that is still to be found.\<close>

fun subset_walk :: "nat list \<Rightarrow> nat list \<Rightarrow> bool" where
  "subset_walk [] sub = False"
| "subset_walk (x # xs) [] = False"
| "subset_walk (x # xs) (y # ys) =
     (if y = x then if ys = [] then True else subset_walk xs ys else subset_walk xs (y # ys))"

definition IsSubset :: "JoinRelationSet \<Rightarrow> JoinRelationSet \<Rightarrow> bool" where
  "IsSubset super sub = (if length super < length sub then False else subset_walk super sub)"

text \<open>The loop of \<open>Union\<close> over both arrays.\<close>

fun join_union :: "JoinRelationSet \<Rightarrow> JoinRelationSet \<Rightarrow> JoinRelationSet" where
  "join_union [] right = right"
| "join_union left [] = left"
| "join_union (x # xs) (y # ys) =
     (if x < y then x # join_union xs (y # ys)
      else if y < x then y # join_union (x # xs) ys
      else x # join_union xs ys)"

text \<open>\<open>GetJoinRelation\<close> of an \<open>unordered_set\<close>: the elements in some order, then sorted.\<close>

definition relation_set :: "nat list \<Rightarrow> JoinRelationSet" where
  "relation_set bindings = sort bindings"

definition JoinRelationSet_ToString :: "JoinRelationSet \<Rightarrow> string" where
  "JoinRelationSet_ToString relations =
     ''['' @ join_with '', '' (map digits_of relations) @ '']''"

section \<open>The set manager\<close>

datatype JoinRelationTreeNode =
  JoinRelationTreeNode (tn_relation: "nat option") (tn_children: "(nat \<times> JoinRelationTreeNode) list")

record JoinRelationSetManager =
  jm_root :: JoinRelationTreeNode
  jm_objects :: "JoinRelationSet list"

text \<open>
  \<open>tree_get path address root\<close> walks to the node of a path, creates missing nodes, and returns
  the address of the object there; a missing object is created at the given address.
\<close>

fun tree_get :: "nat list \<Rightarrow> nat \<Rightarrow> JoinRelationTreeNode \<Rightarrow> nat \<times> JoinRelationTreeNode" where
  "tree_get [] fresh (JoinRelationTreeNode r cs) =
     (case r of Some a \<Rightarrow> (a, JoinRelationTreeNode r cs)
      | None \<Rightarrow> (fresh, JoinRelationTreeNode (Some fresh) cs))"
| "tree_get (x # xs) fresh (JoinRelationTreeNode r cs) =
     (let child = (case map_of cs x of None \<Rightarrow> JoinRelationTreeNode None [] | Some c \<Rightarrow> c);
          (a, child') = tree_get xs fresh child
      in (a, JoinRelationTreeNode r (AList.update x child' cs)))"

definition GetJoinRelation :: "JoinRelationSet \<Rightarrow> JoinRelationSetManager \<Rightarrow> nat \<times> JoinRelationSetManager" where
  "GetJoinRelation relations m =
     (let fresh = length (jm_objects m);
          (a, root) = tree_get relations fresh (jm_root m)
      in (a, \<lparr>jm_root = root,
              jm_objects = (if a = fresh then jm_objects m @ [relations] else jm_objects m)\<rparr>))"

definition set_manager_init :: JoinRelationSetManager where
  "set_manager_init = \<lparr>jm_root = JoinRelationTreeNode None [], jm_objects = []\<rparr>"

section \<open>Ascending lists as sets\<close>

abbreviation ascending :: "nat list \<Rightarrow> bool" where
  "ascending xs \<equiv> sorted_wrt (<) xs"

lemma ascending_distinct: "ascending xs \<Longrightarrow> distinct xs"
  by (simp add: strict_sorted_iff)

lemma ascending_eq: "ascending xs \<Longrightarrow> ascending ys \<Longrightarrow> set xs = set ys \<Longrightarrow> xs = ys"
  by (simp add: strict_sorted_equal)

lemma ascending_sort: "distinct xs \<Longrightarrow> ascending (relation_set xs)"
  by (simp add: relation_set_def strict_sorted_iff)

lemma set_relation_set [simp]: "set (relation_set xs) = set xs"
  by (simp add: relation_set_def)

lemma relation_set_Nil_iff [simp]: "relation_set xs = [] \<longleftrightarrow> xs = []"
  by (metis set_relation_set set_empty)

lemma set_join_union [simp]: "set (join_union xs ys) = set xs \<union> set ys"
  by (induction xs ys rule: join_union.induct) auto

lemma ascending_join_union: "ascending xs \<Longrightarrow> ascending ys \<Longrightarrow> ascending (join_union xs ys)"
  by (induction xs ys rule: join_union.induct) auto

lemma join_union_commute: "ascending xs \<Longrightarrow> ascending ys \<Longrightarrow> join_union xs ys = join_union ys xs"
  by (rule ascending_eq) (auto simp: ascending_join_union)

lemma hd_ascending: "ascending xs \<Longrightarrow> xs \<noteq> [] \<Longrightarrow> hd xs = Min (set xs)"
  by (cases xs) (auto simp: Min_insert2 less_imp_le)

lemma subset_walk_iff:
  "ascending super \<Longrightarrow> ascending sub \<Longrightarrow> subset_walk super sub \<longleftrightarrow> sub \<noteq> [] \<and> set sub \<subseteq> set super"
proof (induction super sub rule: subset_walk.induct)
  case (3 x xs y ys)
  show ?case
  proof (cases "y = x")
    case True
    then have "set ys \<subseteq> set (x # xs) \<longleftrightarrow> set ys \<subseteq> set xs" using 3(4) by auto
    then show ?thesis using 3 True by (cases "ys = []") auto
  next
    case False
    have "set (y # ys) \<subseteq> set (x # xs) \<longleftrightarrow> set (y # ys) \<subseteq> set xs"
    proof
      assume a: "set (y # ys) \<subseteq> set (x # xs)"
      then have "x < y" using False 3(3) by auto
      then have "x \<notin> set (y # ys)" using 3(4) by auto
      then show "set (y # ys) \<subseteq> set xs" using a by auto
    qed auto
    then show ?thesis using 3 False by auto
  qed
qed auto

lemma IsSubset_iff:
  assumes "ascending super" "ascending sub"
  shows "IsSubset super sub \<longleftrightarrow> sub \<noteq> [] \<and> set sub \<subseteq> set super"
proof -
  have "set sub \<subseteq> set super \<Longrightarrow> length sub \<le> length super"
    using assms by (metis List.finite_set ascending_distinct card_mono distinct_card)
  then show ?thesis using assms by (auto simp: IsSubset_def subset_walk_iff)
qed

section \<open>Texts are keys\<close>

lemma join_with_Cons: "join_with sep (x # y # ys) = x @ sep @ join_with sep (y # ys)"
proof -
  have "fold (\<lambda>x acc. acc @ sep @ x) ys (a @ b) = a @ fold (\<lambda>x acc. acc @ sep @ x) ys b" for a b
    by (induction ys arbitrary: b) simp_all
  then show ?thesis by (simp add: join_with_def)
qed

lemma join_with_single [simp]: "join_with sep [] = []" "join_with sep [x] = x"
  by (simp_all add: join_with_def)

text \<open>The text of a set starts with its first number, and the rest starts with no digit.\<close>

lemma numbers_text_span:
  "takeWhile digit (join_with '', '' (map digits_of (x # xs))) = digits_of x"
proof -
  have d: "takeWhile digit (digits_of x) = digits_of x"
    using digits_of_all by (simp add: takeWhile_eq_all_conv list_all_iff)
  have "\<not> digit (CHR '','')" by (simp add: digit_def)
  then have "takeWhile digit (digits_of x @ '', '' @ t) = digits_of x" for t
    using digits_of_all by (simp add: takeWhile_append list_all_iff)
  then show ?thesis using d by (cases xs) (simp_all add: join_with_Cons)
qed

lemma numbers_text_inj:
  "join_with '', '' (map digits_of xs) = join_with '', '' (map digits_of ys) \<Longrightarrow> xs = ys"
proof (induction xs arbitrary: ys)
  case Nil
  then show ?case
    using numbers_text_span digits_of_all by (cases ys) (metis list.simps(8) join_with_single(1) takeWhile.simps(1))+
next
  case (Cons x xs)
  obtain y ys' where ys: "ys = y # ys'"
    using Cons.prems numbers_text_span [of x xs] digits_of_all [of x]
    by (cases ys) (metis list.simps(8) join_with_single(1) takeWhile.simps(1))+
  have "digits_of x = digits_of y" using numbers_text_span Cons.prems unfolding ys by metis
  then have xy: "x = y" by (metis digits_val_digits_of)
  have tail: "join_with '', '' (map digits_of (z # zs)) =
      digits_of z @ (if zs = [] then [] else '', '' @ join_with '', '' (map digits_of zs))" for z zs
    by (cases zs) (simp_all add: join_with_Cons)
  show ?case using Cons.prems Cons.IH unfolding ys xy tail by (auto split: if_splits)
qed

lemma ToString_inj [simp]: "JoinRelationSet_ToString xs = JoinRelationSet_ToString ys \<longleftrightarrow> xs = ys"
  using numbers_text_inj by (auto simp: JoinRelationSet_ToString_def)

section \<open>Interning\<close>

fun tree_find :: "nat list \<Rightarrow> JoinRelationTreeNode \<Rightarrow> nat option" where
  "tree_find [] (JoinRelationTreeNode r cs) = r"
| "tree_find (x # xs) (JoinRelationTreeNode r cs) =
     (case map_of cs x of None \<Rightarrow> None | Some c \<Rightarrow> tree_find xs c)"

lemma tree_find_empty [simp]: "tree_find xs (JoinRelationTreeNode None []) = None"
  by (cases xs) simp_all

lemma tree_get_value: "fst (tree_get p a t) = (case tree_find p t of None \<Rightarrow> a | Some b \<Rightarrow> b)"
  by (induction p a t rule: tree_get.induct) (auto simp: Let_def split: option.splits prod.splits)

lemma tree_get_find:
  "tree_find q (snd (tree_get p a t)) = (if q = p then Some (fst (tree_get p a t)) else tree_find q t)"
proof (induction p a t arbitrary: q rule: tree_get.induct)
  case (1 a r cs)
  then show ?case by (cases q) (auto split: option.split)
next
  case (2 x xs a r cs)
  let ?child = "case map_of cs x of None \<Rightarrow> JoinRelationTreeNode None [] | Some c \<Rightarrow> c"
  have IH: "tree_find q (snd (tree_get xs a ?child)) =
      (if q = xs then Some (fst (tree_get xs a ?child)) else tree_find q ?child)" for q
    using 2 by blast
  obtain b child' where g: "tree_get xs a ?child = (b, child')" by fastforce
  have find: "tree_find q child' = (if q = xs then Some b else tree_find q ?child)" for q
    using IH [of q] by (simp add: g)
  have get: "tree_get (x # xs) a (JoinRelationTreeNode r cs) =
      (b, JoinRelationTreeNode r (AList.update x child' cs))"
    by (simp add: g)
  show ?case
  proof (cases q)
    case (Cons y ys)
    then show ?thesis
      by (cases "map_of cs x") (auto simp: get update_conv' find simp del: tree_get.simps)
  qed (simp add: get del: tree_get.simps)
qed

text \<open>
  The tree knows exactly the objects of the manager, each under its list of relations.
\<close>

definition interned :: "JoinRelationSetManager \<Rightarrow> bool" where
  "interned m \<longleftrightarrow> (\<forall>p a. tree_find p (jm_root m) = Some a \<longleftrightarrow> a < length (jm_objects m) \<and> jm_objects m ! a = p)"

lemma interned_init: "interned set_manager_init"
  by (simp add: interned_def set_manager_init_def)

lemma GetJoinRelation_result:
  assumes "interned m" "GetJoinRelation relations m = (a, m')"
  shows "interned m' \<and> a < length (jm_objects m') \<and> jm_objects m' ! a = relations \<and>
    (\<forall>b < length (jm_objects m). b < length (jm_objects m') \<and> jm_objects m' ! b = jm_objects m ! b)"
proof -
  let ?n = "length (jm_objects m)"
  obtain root where t: "tree_get relations ?n (jm_root m) = (a, root)"
    and m': "m' = \<lparr>jm_root = root, jm_objects = (if a = ?n then jm_objects m @ [relations] else jm_objects m)\<rparr>"
    using assms(2) by (auto simp: GetJoinRelation_def Let_def split: prod.splits)
  have find: "tree_find q root = (if q = relations then Some a else tree_find q (jm_root m))" for q
    using tree_get_find [of q relations ?n "jm_root m"] t by simp
  have a: "a = (case tree_find relations (jm_root m) of None \<Rightarrow> ?n | Some b \<Rightarrow> b)"
    using tree_get_value [of relations ?n "jm_root m"] t by simp
  have inv: "tree_find p (jm_root m) = Some b \<longleftrightarrow> b < ?n \<and> jm_objects m ! b = p" for p b
    using assms(1) by (simp add: interned_def)
  show ?thesis
  proof (cases "tree_find relations (jm_root m)")
    case None
    then have a: "a = ?n" using a by simp
    have new: "\<not> (c < ?n \<and> jm_objects m ! c = relations)" for c using inv [of relations c] None by simp
    have "tree_find p root = Some c \<longleftrightarrow> c < Suc ?n \<and> (jm_objects m @ [relations]) ! c = p" for p c
    proof (cases "p = relations")
      case True
      then show ?thesis using find [of p] a new [of c] by (auto simp: nth_append less_Suc_eq)
    next
      case False
      then show ?thesis using find [of p] inv [of p c] by (auto simp: nth_append less_Suc_eq)
    qed
    then show ?thesis by (simp add: interned_def m' a nth_append)
  next
    case (Some b)
    then have b: "a = b" "b < ?n" "jm_objects m ! b = relations" using a inv [of relations b] by simp_all
    then have m'': "m' = \<lparr>jm_root = root, jm_objects = jm_objects m\<rparr>" by (simp add: m')
    have "tree_find p root = tree_find p (jm_root m)" for p
      using find [of p] Some b(1) by simp
    then show ?thesis using assms(1) b by (simp add: interned_def m'')
  qed
qed

definition intern_all :: "JoinRelationSet list \<Rightarrow> JoinRelationSetManager \<Rightarrow> JoinRelationSetManager" where
  "intern_all = fold (\<lambda>r m. snd (GetJoinRelation r m))"

lemma intern_all_keeps:
  "interned m \<Longrightarrow> interned (intern_all rs m) \<and>
    (\<forall>b < length (jm_objects m). b < length (jm_objects (intern_all rs m)) \<and>
       jm_objects (intern_all rs m) ! b = jm_objects m ! b)"
proof (induction rs arbitrary: m)
  case (Cons r rs)
  obtain a m' where g: "GetJoinRelation r m = (a, m')" by fastforce
  have "intern_all (r # rs) m = intern_all rs m'" by (simp add: intern_all_def g)
  then show ?case using GetJoinRelation_result [OF Cons.prems g] Cons.IH [of m'] by auto
qed (simp add: intern_all_def)

text \<open>
  C22: a reference to a relation set is as good as the list of its relations. In every manager
  that interning operations built from the empty one, \<open>GetJoinRelation\<close> returns an object that
  holds the given relations, leaves all earlier objects in place, and returns the same object
  for two lists, with any interning between the calls, exactly when the lists are equal.
\<close>

theorem relation_sets_interned:
  "case GetJoinRelation xs (intern_all before set_manager_init) of (a, m1) \<Rightarrow> case GetJoinRelation ys (intern_all between m1) of (b, m2) \<Rightarrow>
    a < length (jm_objects m2) \<and> jm_objects m2 ! a = xs \<and> jm_objects m2 ! b = ys \<and> (a = b \<longleftrightarrow> xs = ys)"
proof -
  define m where "m = intern_all before set_manager_init"
  obtain a m1 where g1: "GetJoinRelation xs m = (a, m1)" by fastforce
  obtain b m2 where g2: "GetJoinRelation ys (intern_all between m1) = (b, m2)" by fastforce
  have m: "interned m" using intern_all_keeps [OF interned_init] by (simp add: m_def)
  have m1: "interned m1" "a < length (jm_objects m1)" "jm_objects m1 ! a = xs"
    using GetJoinRelation_result [OF m g1] by simp_all
  note k = intern_all_keeps [OF m1(1), of between]
  have m2: "interned m2" "b < length (jm_objects m2)" "jm_objects m2 ! b = ys"
    "a < length (jm_objects m2)" "jm_objects m2 ! a = xs"
    using GetJoinRelation_result [OF conjunct1 [OF k] g2] k m1(2,3) by simp_all
  have "a = b" if "xs = ys"
    using m2 that unfolding interned_def by (metis option.inject)
  then show ?thesis using m2 by (auto simp: g1 g2 m_def [symmetric])
qed

lemma relation_sets_interned_example:
  "fst (GetJoinRelation [0, 2] (intern_all [[0], [2], [0, 2]] set_manager_init)) = 2"
  by (simp add: intern_all_def set_manager_init_def GetJoinRelation_def Let_def)

end
