(* ===== verification/JoinFilters.thy ===== *)
theory JoinFilters
  imports JoinSets
begin

text \<open>
  Filter expressions of a query and the \<open>FilterInfo\<close> objects made from them: the walks over an
  expression in \<^verbatim>\<open>relation_manager.cpp\<close> and \<^verbatim>\<open>query_graph_manager.cpp\<close>, and the extraction of the
  filters from the filter and join operators (\<open>RelationManager::ExtractEdges\<close>).
\<close>

section \<open>Expressions\<close>

datatype ExpressionType = COMPARE_EQUAL | COMPARE_NOTEQUAL | COMPARE_LESSTHAN | COMPARE_GREATERTHAN
  | COMPARE_LESSTHANOREQUALTO | COMPARE_GREATERTHANOREQUALTO | COMPARE_IN | COMPARE_NOT_IN
  | COMPARE_DISTINCT_FROM | COMPARE_BETWEEN | COMPARE_NOT_BETWEEN | COMPARE_NOT_DISTINCT_FROM
  | CONJUNCTION_AND | CONJUNCTION_OR

text \<open>
  The classes that the optimizer distinguishes: a column with its alias, table index and column
  index; a \<open>BOUND_REF\<close>; a comparison; a conjunction. The name of any other expression stands for
  everything but its children, which come in the order of \<open>EnumerateChildren\<close>.
\<close>

datatype Expression =
    BoundColumnRefExpression string nat nat
  | BoundReferenceExpression nat
  | BoundComparisonExpression ExpressionType Expression Expression
  | BoundConjunctionExpression ExpressionType "Expression list"
  | OtherExpression string "Expression list"

type_synonym ColumnBinding = "nat \<times> nat"

text \<open>
  \<open>Equals\<close>: aliases do not count, and the children of a conjunction are compared as a set with
  repetitions (\<open>ExpressionSetEquals\<close>).
\<close>

function Equals :: "Expression \<Rightarrow> Expression \<Rightarrow> bool"
  and SetEquals :: "Expression list \<Rightarrow> Expression list \<Rightarrow> bool"
  and without_equal :: "Expression list \<Rightarrow> Expression \<Rightarrow> Expression list option"
  and ListEquals :: "Expression list \<Rightarrow> Expression list \<Rightarrow> bool" where
  "Equals a b =
     (case (a, b) of
        (BoundColumnRefExpression _ t c, BoundColumnRefExpression _ t' c') \<Rightarrow> t = t' \<and> c = c'
      | (BoundReferenceExpression i, BoundReferenceExpression j) \<Rightarrow> i = j
      | (BoundComparisonExpression k l r, BoundComparisonExpression k' l' r') \<Rightarrow> k = k' \<and> Equals l l' \<and> Equals r r'
      | (BoundConjunctionExpression k es, BoundConjunctionExpression k' es') \<Rightarrow>
          k = k' \<and> length es = length es' \<and> SetEquals es es'
      | (OtherExpression n es, OtherExpression n' es') \<Rightarrow> n = n' \<and> ListEquals es es'
      | _ \<Rightarrow> False)"
| "SetEquals as [] = True"
| "SetEquals as (b # bs) = (case without_equal as b of None \<Rightarrow> False | Some rest \<Rightarrow> SetEquals rest bs)"
| "without_equal [] b = None"
| "without_equal (a # as) b = (if Equals a b then Some as else map_option ((#) a) (without_equal as b))"
| "ListEquals as [] = (as = [])"
| "ListEquals as (b # bs) = (case as of [] \<Rightarrow> False | a # as' \<Rightarrow> Equals a b \<and> ListEquals as' bs)"
  by pat_completeness auto
termination
  by (relation "measures
    [\<lambda>x. case x of Inl (Inl (a, b)) \<Rightarrow> size b | Inl (Inr (as, bs)) \<Rightarrow> size_list size bs
       | Inr (Inl (as, b)) \<Rightarrow> size b | Inr (Inr (as, bs)) \<Rightarrow> size_list size bs,
     \<lambda>x. case x of Inl (Inl (a, b)) \<Rightarrow> 0 | Inl (Inr (as, bs)) \<Rightarrow> 0
       | Inr (Inl (as, b)) \<Rightarrow> 1 + length as | Inr (Inr (as, bs)) \<Rightarrow> 0]") auto

declare Equals.simps [simp del]

section \<open>The relations and columns of an expression\<close>

text \<open>
  \<open>mapping\<close> is \<open>relation_mapping\<close>: the relation of a table index. \<open>ExtractBindings\<close> adds the
  relations to a set (a list without repetition) and returns whether the expression can be moved.
\<close>

fun ExtractBindings :: "(nat \<Rightarrow> nat option) \<Rightarrow> Expression \<Rightarrow> nat list \<Rightarrow> bool \<times> nat list"
  and extract_children :: "(nat \<Rightarrow> nat option) \<Rightarrow> Expression list \<Rightarrow> nat list \<Rightarrow> bool \<times> nat list" where
  "ExtractBindings mapping (BoundColumnRefExpression alias table_index column_index) bindings =
     (if alias = ''SUBQUERY'' \<and> mapping table_index = None then (True, bindings)
      else case mapping table_index of None \<Rightarrow> (True, bindings) | Some r \<Rightarrow> (True, List.insert r bindings))"
| "ExtractBindings mapping (BoundReferenceExpression index) bindings = (False, [])"
| "ExtractBindings mapping (BoundComparisonExpression k l r) bindings =
     (case ExtractBindings mapping l bindings of (b, bindings) \<Rightarrow>
      case ExtractBindings mapping r bindings of (b', bindings) \<Rightarrow> (b \<and> b', bindings))"
| "ExtractBindings mapping (BoundConjunctionExpression k es) bindings = extract_children mapping es bindings"
| "ExtractBindings mapping (OtherExpression n es) bindings = extract_children mapping es bindings"
| "extract_children mapping [] bindings = (True, bindings)"
| "extract_children mapping (e # es) bindings =
     (case ExtractBindings mapping e bindings of (b, bindings) \<Rightarrow>
      case extract_children mapping es bindings of (b', bindings) \<Rightarrow> (b \<and> b', bindings))"

abbreviation bindings_of :: "(nat \<Rightarrow> nat option) \<Rightarrow> Expression \<Rightarrow> nat list" where
  "bindings_of mapping e \<equiv> snd (ExtractBindings mapping e [])"

text \<open>
  \<open>GetColumnBinding\<close>: the last column of the walk. The index operator of the map adds relation 0
  for a table without entry (the assertion before it is off in a release build).
\<close>

fun GetColumnBinding :: "Expression \<Rightarrow> (nat \<Rightarrow> nat option) \<times> ColumnBinding \<Rightarrow> (nat \<Rightarrow> nat option) \<times> ColumnBinding"
  and column_binding_children ::
    "Expression list \<Rightarrow> (nat \<Rightarrow> nat option) \<times> ColumnBinding \<Rightarrow> (nat \<Rightarrow> nat option) \<times> ColumnBinding" where
  "GetColumnBinding (BoundColumnRefExpression alias table_index column_index) s =
     (case s of (mapping, binding) \<Rightarrow>
       case mapping table_index of
         None \<Rightarrow> (mapping(table_index \<mapsto> 0), (0, column_index))
       | Some r \<Rightarrow> (mapping, (r, column_index)))"
| "GetColumnBinding (BoundReferenceExpression index) s = s"
| "GetColumnBinding (BoundComparisonExpression k l r) s = GetColumnBinding r (GetColumnBinding l s)"
| "GetColumnBinding (BoundConjunctionExpression k es) s = column_binding_children es s"
| "GetColumnBinding (OtherExpression n es) s = column_binding_children es s"
| "column_binding_children [] s = s"
| "column_binding_children (e # es) s = column_binding_children es (GetColumnBinding e s)"

text \<open>\<open>ExpressionContainsColumnRef\<close>: the flag keeps the answer of the last child only.\<close>

fun ExpressionContainsColumnRef :: "Expression \<Rightarrow> bool"
  and contains_children :: "Expression list \<Rightarrow> bool \<Rightarrow> bool" where
  "ExpressionContainsColumnRef (BoundColumnRefExpression alias table_index column_index) = True"
| "ExpressionContainsColumnRef (BoundReferenceExpression index) = False"
| "ExpressionContainsColumnRef (BoundComparisonExpression k l r) = ExpressionContainsColumnRef r"
| "ExpressionContainsColumnRef (BoundConjunctionExpression k es) = contains_children es False"
| "ExpressionContainsColumnRef (OtherExpression n es) = contains_children es False"
| "contains_children [] children_ret = children_ret"
| "contains_children (e # es) children_ret = contains_children es (ExpressionContainsColumnRef e)"

text \<open>The types of the comparisons in the order in which \<open>EnumerateExpression\<close> visits them.\<close>

fun comparison_types :: "Expression \<Rightarrow> ExpressionType list" where
  "comparison_types (BoundComparisonExpression k l r) = k # comparison_types l @ comparison_types r"
| "comparison_types (BoundConjunctionExpression k es) = concat (map comparison_types es)"
| "comparison_types (OtherExpression n es) = concat (map comparison_types es)"
| "comparison_types e = []"

section \<open>Filters\<close>

datatype DuckJoinType = INVALID | LEFT | RIGHT | INNER | OUTER | SEMI | ANTI | MARK | SINGLE | RIGHT_SEMI | RIGHT_ANTI

record FilterInfo =
  fi_filter :: Expression
  fi_set :: JoinRelationSet
  fi_filter_index :: nat
  fi_join_type :: DuckJoinType
  fi_left_set :: "JoinRelationSet option"
  fi_right_set :: "JoinRelationSet option"
  fi_left_binding :: ColumnBinding
  fi_right_binding :: ColumnBinding

definition INVALID_BINDING :: ColumnBinding where
  "INVALID_BINDING = (2 ^ 64 - 1, 2 ^ 64 - 1)"

definition new_filter_info :: "Expression \<Rightarrow> JoinRelationSet \<Rightarrow> nat \<Rightarrow> DuckJoinType \<Rightarrow> FilterInfo" where
  "new_filter_info filter_expr set_of filter_index join_type =
     \<lparr>fi_filter = filter_expr, fi_set = set_of, fi_filter_index = filter_index, fi_join_type = join_type,
      fi_left_set = None, fi_right_set = None, fi_left_binding = INVALID_BINDING, fi_right_binding = INVALID_BINDING\<rparr>"

text \<open>Dereferencing an \<open>optional_ptr\<close> that is not set throws.\<close>

definition deref :: "'a option \<Rightarrow> 'a res" where
  "deref p = (case p of None \<Rightarrow> Inl (Runtime_error ''Attempting to dereference an optional pointer that is not set'')
              | Some x \<Rightarrow> Inr x)"

section \<open>Extraction of the filters\<close>

text \<open>
  The operators that \<open>ExtractJoinRelations\<close> collects: a comparison join with its conditions, and
  a filter with its expressions.
\<close>

datatype FilterOperator =
    LogicalComparisonJoin DuckJoinType "(ExpressionType \<times> Expression \<times> Expression) list"
  | LogicalFilter "Expression list"

definition JoinIsReorderable :: "DuckJoinType \<Rightarrow> (ExpressionType \<times> Expression \<times> Expression) list \<Rightarrow> bool" where
  "JoinIsReorderable join_type conditions =
     (if join_type \<in> {INNER, SEMI, ANTI}
      then list_ex (\<lambda>(k, l, r). ExpressionContainsColumnRef l \<and> ExpressionContainsColumnRef r) conditions
      else False)"

abbreviation condition_expr :: "ExpressionType \<times> Expression \<times> Expression \<Rightarrow> Expression" where
  "condition_expr c \<equiv> (case c of (k, l, r) \<Rightarrow> BoundComparisonExpression k l r)"

text \<open>The union of the relations on one side of the conditions of a semi join.\<close>

definition add_side :: "nat list \<Rightarrow> JoinRelationSet option \<Rightarrow> JoinRelationSet option" where
  "add_side bindings s =
     (case s of None \<Rightarrow> Some (relation_set bindings) | Some t \<Rightarrow> Some (join_union (relation_set bindings) t))"

definition side_set :: "(nat \<Rightarrow> nat option) \<Rightarrow> Expression list \<Rightarrow> JoinRelationSet option" where
  "side_set mapping es = fold (\<lambda>e. add_side (bindings_of mapping e)) es None"

definition semi_filter ::
  "(nat \<Rightarrow> nat option) \<Rightarrow> DuckJoinType \<Rightarrow> (ExpressionType \<times> Expression \<times> Expression) list \<Rightarrow> nat \<Rightarrow> FilterInfo res" where
  "semi_filter mapping join_type conditions index =
     (let left_set = side_set mapping (map (\<lambda>(k, l, r). l) conditions);
          right_set = side_set mapping (map (\<lambda>(k, l, r). r) conditions)
      in res_bind (deref left_set) (\<lambda>l. res_bind (deref right_set) (\<lambda>r.
           Inr ((new_filter_info (BoundConjunctionExpression CONJUNCTION_AND (map condition_expr conditions))
                  (join_union l r) index join_type)\<lparr>fi_left_set := left_set, fi_right_set := right_set\<rparr>))))"

text \<open>
  The state of the extraction: the filters and the expressions seen (\<open>filter_set\<close>). \<open>add_expression\<close> is
  the body of both inner loops.
\<close>

type_synonym extraction = "FilterInfo list \<times> Expression list"

definition add_expression :: "(nat \<Rightarrow> nat option) \<Rightarrow> DuckJoinType \<Rightarrow> Expression \<Rightarrow> extraction \<Rightarrow> extraction" where
  "add_expression mapping join_type e s =
     (case s of (filters, seen) \<Rightarrow>
       if list_ex (\<lambda>x. Equals x e) seen then s
       else (filters @ [new_filter_info e (relation_set (bindings_of mapping e)) (length filters) join_type], e # seen))"

text \<open>An expression of a filter without a relation stays with its operator.\<close>

definition add_filter_expression :: "(nat \<Rightarrow> nat option) \<Rightarrow> Expression \<Rightarrow> extraction \<Rightarrow> extraction" where
  "add_filter_expression mapping e s =
     (case s of (filters, seen) \<Rightarrow>
       if list_ex (\<lambda>x. Equals x e) seen then s
       else if bindings_of mapping e = [] then (filters, e # seen)
       else add_expression mapping INNER e s)"

definition extract_operator :: "(nat \<Rightarrow> nat option) \<Rightarrow> FilterOperator \<Rightarrow> extraction \<Rightarrow> extraction res" where
  "extract_operator mapping f_op s =
     (case f_op of
        LogicalComparisonJoin join_type conditions \<Rightarrow>
          if join_type = SEMI \<or> join_type = ANTI then
            res_map (\<lambda>f. (fst s @ [f], snd s)) (semi_filter mapping join_type conditions (length (fst s)))
          else Inr (fold (\<lambda>c. add_expression mapping join_type (condition_expr c)) conditions s)
      | LogicalFilter expressions \<Rightarrow> Inr (fold (add_filter_expression mapping) expressions s))"

definition ExtractEdges :: "(nat \<Rightarrow> nat option) \<Rightarrow> FilterOperator list \<Rightarrow> FilterInfo list res" where
  "ExtractEdges mapping filter_operators =
     res_map fst (res_fold (extract_operator mapping) filter_operators ([], []))"

text \<open>A condition whose last operand is a constant is taken to have no column.\<close>

lemma column_before_constant_missed:
  "\<not> ExpressionContainsColumnRef (OtherExpression ''+'' [BoundColumnRefExpression ''x'' 0 0, OtherExpression ''1'' []])"
  "\<not> JoinIsReorderable INNER
     [(COMPARE_EQUAL, BoundColumnRefExpression ''y'' 1 0,
       OtherExpression ''+'' [BoundColumnRefExpression ''x'' 0 0, OtherExpression ''1'' []])]"
  by (simp_all add: JoinIsReorderable_def)

end
