(* ===== verification/QueryGraph.thy ===== *)
theory QueryGraph
  imports JoinFilters "HOL-Library.Sublist"
begin

text \<open>
  The query graph of the join order optimizer (\<^verbatim>\<open>query_graph.cpp\<close>): a tree over the ascending
  relations of the left side of an edge, whose nodes hold the neighbors. The abstraction is
  the set of edges, pairs of a left set and the information on the right one.
\<close>

record NeighborInfo =
  ni_neighbor :: JoinRelationSet
  ni_filters :: "FilterInfo list"

datatype QueryEdge = QueryEdge (qe_neighbors: "NeighborInfo list") (qe_children: "(nat \<times> QueryEdge) list")

section \<open>Creation of edges\<close>

text \<open>\<open>GetQueryEdge\<close> walks to the node of the left set and creates missing nodes; \<open>f\<close> updates it.\<close>

fun at_query_edge :: "JoinRelationSet \<Rightarrow> (NeighborInfo list \<Rightarrow> NeighborInfo list) \<Rightarrow> QueryEdge \<Rightarrow> QueryEdge" where
  "at_query_edge [] f (QueryEdge ns cs) = QueryEdge (f ns) cs"
| "at_query_edge (x # xs) f (QueryEdge ns cs) =
     (let child = (case map_of cs x of None \<Rightarrow> QueryEdge [] [] | Some c \<Rightarrow> c)
      in QueryEdge ns (AList.update x (at_query_edge xs f child) cs))"

fun add_neighbor :: "JoinRelationSet \<Rightarrow> FilterInfo option \<Rightarrow> NeighborInfo list \<Rightarrow> NeighborInfo list" where
  "add_neighbor right filter_info [] =
     [\<lparr>ni_neighbor = right, ni_filters = (case filter_info of None \<Rightarrow> [] | Some f \<Rightarrow> [f])\<rparr>]"
| "add_neighbor right filter_info (n # ns) =
     (if ni_neighbor n = right
      then (case filter_info of None \<Rightarrow> n | Some f \<Rightarrow> n\<lparr>ni_filters := ni_filters n @ [f]\<rparr>) # ns
      else n # add_neighbor right filter_info ns)"

definition CreateEdge :: "JoinRelationSet \<Rightarrow> JoinRelationSet \<Rightarrow> FilterInfo option \<Rightarrow> QueryEdge \<Rightarrow> QueryEdge" where
  "CreateEdge left right filter_info edges = at_query_edge left (add_neighbor right filter_info) edges"

definition CreateQueryGraphCrossProduct :: "JoinRelationSet \<Rightarrow> JoinRelationSet \<Rightarrow> QueryEdge \<Rightarrow> QueryEdge" where
  "CreateQueryGraphCrossProduct left right edges = CreateEdge right left None (CreateEdge left right None edges)"

section \<open>Enumeration of neighbors\<close>

text \<open>
  The callback works on a state and returns whether the loop over the neighbors of one node
  stops. The node is the list of the relations from the current index on.
\<close>

fun neighbor_loop :: "(NeighborInfo \<Rightarrow> 's \<Rightarrow> bool \<times> 's) \<Rightarrow> NeighborInfo list \<Rightarrow> 's \<Rightarrow> bool \<times> 's" where
  "neighbor_loop callback [] s = (False, s)"
| "neighbor_loop callback (n # ns) s =
     (case callback n s of (True, t) \<Rightarrow> (True, t) | (False, t) \<Rightarrow> neighbor_loop callback ns t)"

function EnumerateNeighborsDFS ::
    "(NeighborInfo \<Rightarrow> 's \<Rightarrow> bool \<times> 's) \<Rightarrow> nat list \<Rightarrow> QueryEdge \<Rightarrow> 's \<Rightarrow> 's"
  and children_loop :: "(NeighborInfo \<Rightarrow> 's \<Rightarrow> bool \<times> 's) \<Rightarrow> nat list \<Rightarrow> QueryEdge \<Rightarrow> 's \<Rightarrow> 's" where
  "EnumerateNeighborsDFS callback node info s =
     (case neighbor_loop callback (qe_neighbors info) s of
        (True, t) \<Rightarrow> t
      | (False, t) \<Rightarrow> children_loop callback node info t)"
| "children_loop callback [] info s = s"
| "children_loop callback (x # xs) info s =
     children_loop callback xs info
       (case map_of (qe_children info) x of None \<Rightarrow> s | Some c \<Rightarrow> EnumerateNeighborsDFS callback xs c s)"
  by pat_completeness auto
termination
  by (relation "measure (\<lambda>x. case x of Inl (c, node, i, s) \<Rightarrow> 2 * length node + 1 | Inr (c, node, i, s) \<Rightarrow> 2 * length node)") auto

text \<open>The loop over the children of the root is the loop of the recursion.\<close>

definition EnumerateNeighbors :: "(NeighborInfo \<Rightarrow> 's \<Rightarrow> bool \<times> 's) \<Rightarrow> JoinRelationSet \<Rightarrow> QueryEdge \<Rightarrow> 's \<Rightarrow> 's" where
  "EnumerateNeighbors callback node edges s = children_loop callback node edges s"

definition JoinRelationSetIsExcluded :: "JoinRelationSet \<Rightarrow> nat set \<Rightarrow> bool" where
  "JoinRelationSetIsExcluded node exclusion_set \<longleftrightarrow> hd node \<in> exclusion_set"

text \<open>\<open>GetNeighbors\<close>: the order of an \<open>unordered_set\<close> is not specified; here it is that of insertion.\<close>

definition GetNeighbors :: "QueryEdge \<Rightarrow> JoinRelationSet \<Rightarrow> nat set \<Rightarrow> nat list" where
  "GetNeighbors edges node exclusion_set =
     EnumerateNeighbors (\<lambda>info result.
       (False, if \<not> JoinRelationSetIsExcluded (ni_neighbor info) exclusion_set
               then List.insert (hd (ni_neighbor info)) result else result)) node edges []"

definition GetConnections :: "QueryEdge \<Rightarrow> JoinRelationSet \<Rightarrow> JoinRelationSet \<Rightarrow> NeighborInfo list" where
  "GetConnections edges node other =
     EnumerateNeighbors (\<lambda>info connections.
       (False, if IsSubset other (ni_neighbor info) then connections @ [info] else connections)) node edges []"

section \<open>The edges of a graph\<close>

fun neighbors_at :: "JoinRelationSet \<Rightarrow> QueryEdge \<Rightarrow> NeighborInfo list" where
  "neighbors_at [] info = qe_neighbors info"
| "neighbors_at (x # xs) info =
     (case map_of (qe_children info) x of None \<Rightarrow> [] | Some c \<Rightarrow> neighbors_at xs c)"

lemma neighbors_at_empty [simp]: "neighbors_at xs (QueryEdge [] []) = []"
  by (cases xs) simp_all

lemma neighbors_at_update:
  "neighbors_at q (at_query_edge p f edges) = (if q = p then f (neighbors_at p edges) else neighbors_at q edges)"
proof (induction p f edges arbitrary: q rule: at_query_edge.induct)
  case (1 f ns cs)
  then show ?case by (cases q) simp_all
next
  case (2 x xs f ns cs)
  let ?child = "case map_of cs x of None \<Rightarrow> QueryEdge [] [] | Some c \<Rightarrow> c"
  have IH: "neighbors_at q (at_query_edge xs f ?child) = (if q = xs then f (neighbors_at xs ?child) else neighbors_at q ?child)" for q
    using 2 by blast
  have get: "at_query_edge (x # xs) f (QueryEdge ns cs) = QueryEdge ns (AList.update x (at_query_edge xs f ?child) cs)"
    by simp
  have old: "neighbors_at (x # ys) (QueryEdge ns cs) = neighbors_at ys ?child" for ys
    by (simp split: option.split)
  show ?case
  proof (cases q)
    case (Cons y ys)
    show ?thesis
    proof (cases "y = x")
      case True
      then show ?thesis using IH [of ys] old [of ys] old [of xs] Cons
        by (simp add: get update_conv' del: at_query_edge.simps)
    next
      case False
      then show ?thesis using Cons by (simp add: get update_conv' del: at_query_edge.simps)
    qed
  qed (simp add: get del: at_query_edge.simps)
qed

text \<open>The visited neighbors are those of the nodes that are sublists of the given set.\<close>

fun found :: "nat list \<Rightarrow> QueryEdge \<Rightarrow> NeighborInfo list" where
  "found [] info = []"
| "found (x # xs) info =
     (case map_of (qe_children info) x of None \<Rightarrow> [] | Some c \<Rightarrow> qe_neighbors c @ found xs c) @ found xs info"

lemma neighbor_loop_fold:
  "neighbor_loop (\<lambda>n s. (False, f n s)) ns s = (False, fold f ns s)"
  by (induction ns arbitrary: s) simp_all

lemma enumerate_fold:
  "EnumerateNeighborsDFS (\<lambda>n s. (False, f n s)) node info s = fold f (qe_neighbors info @ found node info) s"
  "children_loop (\<lambda>n s. (False, f n s)) node info s = fold f (found node info) s"
proof (induction node arbitrary: info s)
  case (Cons x xs)
  {
    case 2
    show ?case using Cons by (auto split: option.split)
  next
    case 1
    show ?case using Cons by (auto simp: neighbor_loop_fold split: option.split)
  }
qed (simp_all add: neighbor_loop_fold)

lemma EnumerateNeighbors_fold:
  "EnumerateNeighbors (\<lambda>n s. (False, f n s)) node edges s = fold f (found node edges) s"
  by (simp add: EnumerateNeighbors_def enumerate_fold)

lemma found_iff:
  "n \<in> set (found node info) \<longleftrightarrow> (\<exists>left. left \<noteq> [] \<and> subseq left node \<and> n \<in> set (neighbors_at left info))"
proof (induction node arbitrary: info)
  case (Cons x xs)
  have pick: "(\<exists>left. left \<noteq> [] \<and> subseq left (x # xs) \<and> n \<in> set (neighbors_at left info)) \<longleftrightarrow>
      (\<exists>l. subseq l xs \<and> n \<in> set (neighbors_at (x # l) info)) \<or>
      (\<exists>left. left \<noteq> [] \<and> subseq left xs \<and> n \<in> set (neighbors_at left info))"
    (is "?l \<longleftrightarrow> ?r1 \<or> ?r2")
  proof
    assume ?l
    then obtain left where "left \<noteq> []" "subseq left (x # xs)" "n \<in> set (neighbors_at left info)" by blast
    then show "?r1 \<or> ?r2"
      by (cases left) (simp_all only: subseq_Cons2_iff split: if_splits, blast+)
  next
    assume "?r1 \<or> ?r2"
    then show ?l by (metis list.distinct(1) list_emb_Cons subseq_Cons2)
  qed
  show ?case
  proof (cases "map_of (qe_children info) x")
    case None
    then show ?thesis using pick Cons.IH [of info] by simp
  next
    case (Some c)
    have "(\<exists>l. subseq l xs \<and> n \<in> set (neighbors_at l c)) \<longleftrightarrow>
        n \<in> set (qe_neighbors c) \<or> (\<exists>l. l \<noteq> [] \<and> subseq l xs \<and> n \<in> set (neighbors_at l c))"
      by (metis neighbors_at.simps(1) list_emb_Nil)
    then show ?thesis using pick Some Cons.IH [of info] Cons.IH [of c] by simp
  qed
qed simp

section \<open>The graph as a set of edges\<close>

definition edge_set :: "QueryEdge \<Rightarrow> (JoinRelationSet \<times> JoinRelationSet) set" where
  "edge_set edges = {(left, right). right \<in> ni_neighbor ` set (neighbors_at left edges)}"

definition edges_ok :: "QueryEdge \<Rightarrow> bool" where
  "edges_ok edges \<longleftrightarrow>
     (\<forall>(left, right) \<in> edge_set edges. left \<noteq> [] \<and> right \<noteq> [] \<and> ascending left \<and> ascending right)"

lemma edge_set_empty [simp]: "edge_set (QueryEdge [] []) = {}"
  by (simp add: edge_set_def)

lemma add_neighbor_image: "ni_neighbor ` set (add_neighbor right f ns) = insert right (ni_neighbor ` set ns)"
  by (induction right f ns rule: add_neighbor.induct) (auto split: option.split)

lemma edge_set_CreateEdge [simp]: "edge_set (CreateEdge left right f edges) = insert (left, right) (edge_set edges)"
proof (rule set_eqI, clarify)
  fix l r
  show "(l, r) \<in> edge_set (CreateEdge left right f edges) \<longleftrightarrow> (l, r) \<in> insert (left, right) (edge_set edges)"
    by (cases "l = left") (simp_all add: edge_set_def CreateEdge_def neighbors_at_update add_neighbor_image)
qed

lemma edge_set_CrossProduct [simp]:
  "edge_set (CreateQueryGraphCrossProduct left right edges) = {(left, right), (right, left)} \<union> edge_set edges"
  by (auto simp: CreateQueryGraphCrossProduct_def)

lemma subseq_ascending:
  assumes "ascending xs" "ascending ys"
  shows "subseq xs ys \<longleftrightarrow> set xs \<subseteq> set ys"
proof
  assume "set xs \<subseteq> set ys"
  then have "xs = filter (\<lambda>x. x \<in> set xs) ys"
    using assms by (intro ascending_eq) (auto simp: sorted_wrt_filter)
  then show "subseq xs ys" by (metis subseq_filter_left)
next
  assume "subseq xs ys"
  then show "set xs \<subseteq> set ys" by (auto elim: list_emb_set)
qed

lemma fold_insert_set: "set (fold (\<lambda>n r. if P n then List.insert (g n) r else r) ns acc) = set acc \<union> g ` {n \<in> set ns. P n}"
  by (induction ns arbitrary: acc) auto

lemma fold_insert_distinct:
  "distinct acc \<Longrightarrow> distinct (fold (\<lambda>n r. if P n then List.insert (g n) r else r) ns acc)"
  by (induction ns arbitrary: acc) auto

lemma fold_filter: "fold (\<lambda>n r. if P n then r @ [n] else r) ns acc = acc @ filter P ns"
  by (induction ns arbitrary: acc) auto

lemma GetNeighbors_eq:
  "GetNeighbors edges node X =
     fold (\<lambda>n r. if hd (ni_neighbor n) \<notin> X then List.insert (hd (ni_neighbor n)) r else r) (found node edges) []"
  by (simp add: GetNeighbors_def EnumerateNeighbors_fold JoinRelationSetIsExcluded_def)

lemma GetConnections_eq: "GetConnections edges node other = filter (\<lambda>n. IsSubset other (ni_neighbor n)) (found node edges)"
  by (simp add: GetConnections_def EnumerateNeighbors_fold fold_filter)

lemma distinct_GetNeighbors [simp]: "distinct (GetNeighbors edges node X)"
  by (simp add: GetNeighbors_eq fold_insert_distinct)

lemma found_edges:
  assumes "edges_ok edges" "ascending node"
  shows "ni_neighbor ` set (found node edges) = {right. \<exists>left. (left, right) \<in> edge_set edges \<and> set left \<subseteq> set node}"
proof -
  have "(left, right) \<in> edge_set edges \<Longrightarrow> left \<noteq> [] \<and> (subseq left node \<longleftrightarrow> set left \<subseteq> set node)" for left right
    using assms subseq_ascending [of left node] by (auto simp: edges_ok_def)
  then have eq: "left \<noteq> [] \<and> subseq left node \<and> (left, right) \<in> edge_set edges \<longleftrightarrow>
      (left, right) \<in> edge_set edges \<and> set left \<subseteq> set node" for left right
    by blast
  have "ni_neighbor ` set (found node edges) =
      {right. \<exists>left. left \<noteq> [] \<and> subseq left node \<and> (left, right) \<in> edge_set edges}"
  proof (rule set_eqI)
    fix right
    have "right \<in> ni_neighbor ` set (found node edges) \<longleftrightarrow>
        (\<exists>n. (\<exists>left. left \<noteq> [] \<and> subseq left node \<and> n \<in> set (neighbors_at left edges)) \<and> right = ni_neighbor n)"
      by (simp add: image_iff Bex_def found_iff)
    also have "\<dots> \<longleftrightarrow> (\<exists>left. left \<noteq> [] \<and> subseq left node \<and> right \<in> ni_neighbor ` set (neighbors_at left edges))"
      by (simp add: image_iff Bex_def) metis
    finally show "right \<in> ni_neighbor ` set (found node edges) \<longleftrightarrow>
        right \<in> {right. \<exists>left. left \<noteq> [] \<and> subseq left node \<and> (left, right) \<in> edge_set edges}"
      by (simp add: edge_set_def)
  qed
  then show ?thesis unfolding eq .
qed

text \<open>
  C19: the tree of edges is a set of edges. Creating an edge adds exactly its pair; the
  neighbors of a set under an exclusion set are the smallest members of the right sides of
  the edges whose left side lies in the set, each once and without the excluded; and a
  connection of two sets is an edge from a subset of the first to a subset of the second.
\<close>

theorem query_graph_refines:
  assumes ok: "edges_ok edges" and node: "ascending node" and other: "ascending other"
  shows "edge_set (CreateEdge left right f edges) = insert (left, right) (edge_set edges) \<and>
    distinct (GetNeighbors edges node X) \<and>
    set (GetNeighbors edges node X) =
      {Min (set R) | L R. (L, R) \<in> edge_set edges \<and> set L \<subseteq> set node \<and> Min (set R) \<notin> X} \<and>
    ni_neighbor ` set (GetConnections edges node other) =
      {R. \<exists>L. (L, R) \<in> edge_set edges \<and> set L \<subseteq> set node \<and> set R \<subseteq> set other}"
proof -
  have min: "right \<in> ni_neighbor ` set (found node edges) \<Longrightarrow> hd right = Min (set right)" for right
    using ok hd_ascending unfolding found_edges [OF ok node] edges_ok_def by fastforce
  have "set (GetNeighbors edges node X) = hd ` {R \<in> ni_neighbor ` set (found node edges). hd R \<notin> X}"
    by (auto simp: GetNeighbors_eq fold_insert_set)
  also have "\<dots> = (\<lambda>R. Min (set R)) ` {R \<in> ni_neighbor ` set (found node edges). Min (set R) \<notin> X}"
    using min by (intro image_cong) auto
  finally have neighbors: "set (GetNeighbors edges node X) =
      {Min (set R) | L R. (L, R) \<in> edge_set edges \<and> set L \<subseteq> set node \<and> Min (set R) \<notin> X}"
    unfolding found_edges [OF ok node] by blast
  have sub: "right \<in> ni_neighbor ` set (found node edges) \<Longrightarrow> IsSubset other right \<longleftrightarrow> set right \<subseteq> set other" for right
    using ok other IsSubset_iff unfolding found_edges [OF ok node] edges_ok_def by fastforce
  have "ni_neighbor ` set (GetConnections edges node other) =
      {R \<in> ni_neighbor ` set (found node edges). IsSubset other R}"
    by (auto simp: GetConnections_eq)
  also have "\<dots> = {R \<in> ni_neighbor ` set (found node edges). set R \<subseteq> set other}"
    using sub by blast
  finally have "ni_neighbor ` set (GetConnections edges node other) =
      {R. \<exists>L. (L, R) \<in> edge_set edges \<and> set L \<subseteq> set node \<and> set R \<subseteq> set other}"
    unfolding found_edges [OF ok node] by blast
  with neighbors show ?thesis by simp
qed

end
