(* ===== verification/CardEst.thy ===== *)
theory CardEst
  imports QueryGraph StatEstimate
begin

text \<open>
  DuckDB's own cardinality estimator (\<^verbatim>\<open>cardinality_estimator.cpp\<close>). It groups the columns that
  join predicates equate, keeps the number of distinct values of every group, and divides the
  product of the cardinalities of the relations by the numbers of distinct values along the
  predicates. The optimizer computes this estimate for every set of relations, also when
  StarCE's estimate replaces it afterwards.
\<close>

section \<open>Total domains\<close>

record DistinctCount =
  dc_distinct_count :: nat
  dc_from_hll :: bool

record RelationStats =
  rs_column_distinct_count :: "DistinctCount list"
  rs_cardinality :: nat
  rs_column_names :: "string list"
  rs_table_name :: string

text \<open>A \<open>column_binding_set_t\<close> is a list without repetition; the order of its elements is not used.\<close>

record RelationsToTDom =
  td_equivalent_relations :: "ColumnBinding list"
  td_tdom_hll :: nat
  td_tdom_no_hll :: nat
  td_has_tdom_hll :: bool
  td_filters :: "FilterInfo list"

definition new_tdom :: "ColumnBinding list \<Rightarrow> RelationsToTDom" where
  "new_tdom bindings = \<lparr>td_equivalent_relations = bindings, td_tdom_hll = 0, td_tdom_no_hll = 2 ^ 64 - 1,
     td_has_tdom_hll = False, td_filters = []\<rparr>"

definition EmptyFilter :: "FilterInfo \<Rightarrow> bool" where
  "EmptyFilter f \<longleftrightarrow> (if fi_left_set f = None \<and> fi_right_set f = None then True else False)"

definition SingleColumnFilter :: "FilterInfo \<Rightarrow> bool" where
  "SingleColumnFilter f \<longleftrightarrow>
     (if fi_left_set f \<noteq> None \<and> fi_right_set f \<noteq> None \<and> 1 < length (fi_set f) then False
      else if EmptyFilter f then False
      else if fi_join_type f = SEMI \<or> fi_join_type f = ANTI then False
      else True)"

definition AddRelationTdom :: "FilterInfo \<Rightarrow> RelationsToTDom list \<Rightarrow> RelationsToTDom list" where
  "AddRelationTdom f tdoms =
     (if \<exists>t \<in> set tdoms. fi_left_binding f \<in> set (td_equivalent_relations t) then tdoms
      else tdoms @ [new_tdom [fi_left_binding f]])"

definition DetermineMatchingEquivalentSets :: "FilterInfo \<Rightarrow> RelationsToTDom list \<Rightarrow> nat list" where
  "DetermineMatchingEquivalentSets f tdoms =
     filter (\<lambda>i. fi_left_binding f \<in> set (td_equivalent_relations (tdoms ! i)) \<or>
                 fi_right_binding f \<in> set (td_equivalent_relations (tdoms ! i))) [0..<length tdoms]"

text \<open>
  The two branches for matching sets. Merging two sets keeps the filters of the first and adds
  the new one; the filters of the second stay with the emptied set.
\<close>

definition AddToEquivalenceSets :: "FilterInfo \<Rightarrow> nat list \<Rightarrow> RelationsToTDom list \<Rightarrow> RelationsToTDom list" where
  "AddToEquivalenceSets f matching tdoms =
     (case matching of
        i # j # _ \<Rightarrow>
          tdoms[i := (tdoms ! i)\<lparr>td_equivalent_relations :=
                       fold List.insert (td_equivalent_relations (tdoms ! j)) (td_equivalent_relations (tdoms ! i)),
                     td_filters := td_filters (tdoms ! i) @ [f]\<rparr>,
                j := (tdoms ! j)\<lparr>td_equivalent_relations := []\<rparr>]
      | [i] \<Rightarrow>
          tdoms[i := (tdoms ! i)\<lparr>td_equivalent_relations :=
                       List.insert (fi_right_binding f) (List.insert (fi_left_binding f) (td_equivalent_relations (tdoms ! i))),
                     td_filters := td_filters (tdoms ! i) @ [f]\<rparr>]
      | [] \<Rightarrow>
          tdoms @ [(new_tdom (List.insert (fi_right_binding f) [fi_left_binding f]))\<lparr>td_filters := [f]\<rparr>])"

definition RemoveEmptyTotalDomains :: "RelationsToTDom list \<Rightarrow> RelationsToTDom list" where
  "RemoveEmptyTotalDomains tdoms = filter (\<lambda>t. td_equivalent_relations t \<noteq> []) tdoms"

definition add_filter :: "FilterInfo \<Rightarrow> RelationsToTDom list \<Rightarrow> RelationsToTDom list" where
  "add_filter f tdoms =
     (if SingleColumnFilter f then AddRelationTdom f tdoms
      else if EmptyFilter f then tdoms
      else AddToEquivalenceSets f (DetermineMatchingEquivalentSets f tdoms) tdoms)"

definition InitEquivalentRelations :: "FilterInfo list \<Rightarrow> RelationsToTDom list \<Rightarrow> RelationsToTDom list" where
  "InitEquivalentRelations filter_infos tdoms = RemoveEmptyTotalDomains (fold add_filter filter_infos tdoms)"

section \<open>Statistics of the relations\<close>

text \<open>The first domain that has the column takes its number of distinct values.\<close>

definition update_tdom :: "DistinctCount \<Rightarrow> RelationsToTDom \<Rightarrow> RelationsToTDom" where
  "update_tdom d t =
     (if dc_from_hll d \<and> td_has_tdom_hll t then t\<lparr>td_tdom_hll := max (td_tdom_hll t) (dc_distinct_count d)\<rparr>
      else if dc_from_hll d \<and> \<not> td_has_tdom_hll t then t\<lparr>td_has_tdom_hll := True, td_tdom_hll := dc_distinct_count d\<rparr>
      else t\<lparr>td_tdom_no_hll := min (dc_distinct_count d) (td_tdom_no_hll t)\<rparr>)"

fun update_first :: "ColumnBinding \<Rightarrow> DistinctCount \<Rightarrow> RelationsToTDom list \<Rightarrow> RelationsToTDom list" where
  "update_first key d [] = []"
| "update_first key d (t # ts) =
     (if key \<notin> set (td_equivalent_relations t) then t # update_first key d ts else update_tdom d t # ts)"

definition UpdateTotalDomains :: "nat \<Rightarrow> RelationStats \<Rightarrow> RelationsToTDom list \<Rightarrow> RelationsToTDom list" where
  "UpdateTotalDomains relation_id stats tdoms =
     fold (\<lambda>i. update_first (relation_id, i) (rs_column_distinct_count stats ! i))
       [0..<length (rs_column_distinct_count stats)] tdoms"

definition SortTdoms :: "RelationsToTDom \<Rightarrow> RelationsToTDom \<Rightarrow> bool" where
  "SortTdoms a b \<longleftrightarrow>
     (if td_has_tdom_hll a \<and> td_has_tdom_hll b then td_tdom_hll b < td_tdom_hll a
      else if td_has_tdom_hll a then td_tdom_no_hll b < td_tdom_hll a
      else if td_has_tdom_hll b then td_tdom_hll b < td_tdom_no_hll a
      else td_tdom_no_hll b < td_tdom_no_hll a)"

text \<open>
  \<open>SortTdoms\<close> compares sizes, larger first; domains of equal size keep their order, as
  \<open>std::sort\<close> does for short vectors.
\<close>

definition tdom_size :: "RelationsToTDom \<Rightarrow> nat" where
  "tdom_size t = (if td_has_tdom_hll t then td_tdom_hll t else td_tdom_no_hll t)"

lemma SortTdoms_size: "SortTdoms a b \<longleftrightarrow> tdom_size b < tdom_size a"
  by (simp add: SortTdoms_def tdom_size_def)

definition sort_tdoms :: "RelationsToTDom list \<Rightarrow> RelationsToTDom list" where
  "sort_tdoms tdoms = sort_key (\<lambda>t. - int (tdom_size t)) tdoms"

section \<open>The denominator\<close>

record FilterInfoWithTotalDomains =
  fd_filter_info :: FilterInfo
  fd_tdom_hll :: nat
  fd_tdom_no_hll :: nat
  fd_has_tdom_hll :: bool

record Subgraph2Denominator =
  sg_relations :: JoinRelationSet
  sg_numerator_relations :: JoinRelationSet
  sg_denom :: real

record DenomInfo =
  dn_numerator_relations :: JoinRelationSet
  dn_filter_strength :: real
  dn_denominator :: real

definition DEFAULT_SEMI_ANTI_SELECTIVITY :: real where
  "DEFAULT_SEMI_ANTI_SELECTIVITY = 5"

definition DEFAULT_LT_GT_MULTIPLIER :: real where
  "DEFAULT_LT_GT_MULTIPLIER = 5 / 2"

definition EdgeConnects :: "FilterInfoWithTotalDomains \<Rightarrow> Subgraph2Denominator \<Rightarrow> bool" where
  "EdgeConnects edge subgraph =
     (if (case fi_left_set (fd_filter_info edge) of None \<Rightarrow> False | Some l \<Rightarrow> IsSubset (sg_relations subgraph) l) then True
      else if (case fi_right_set (fd_filter_info edge) of None \<Rightarrow> False | Some r \<Rightarrow> IsSubset (sg_relations subgraph) r) then True
      else False)"

definition GetEdges :: "RelationsToTDom list \<Rightarrow> JoinRelationSet \<Rightarrow> FilterInfoWithTotalDomains list" where
  "GetEdges tdoms requested_set =
     concat (map (\<lambda>t. map (\<lambda>f. \<lparr>fd_filter_info = f, fd_tdom_hll = td_tdom_hll t, fd_tdom_no_hll = td_tdom_no_hll t,
                            fd_has_tdom_hll = td_has_tdom_hll t\<rparr>)
                       (filter (\<lambda>f. IsSubset requested_set (fi_set f)) (td_filters t))) tdoms)"

text \<open>
  \<open>SubgraphsConnectedByEdge\<close>: the first two subgraphs that the edge touches, or the first one. The
  loops start at the positions \<open>outer\<close> and \<open>inner\<close>.
\<close>

fun inner_connected :: "FilterInfoWithTotalDomains \<Rightarrow> nat \<Rightarrow> Subgraph2Denominator \<Rightarrow> nat \<Rightarrow> Subgraph2Denominator list \<Rightarrow> nat list option" where
  "inner_connected edge outer s inner [] = None"
| "inner_connected edge outer s inner (t # ts) =
     (if EdgeConnects edge s \<and> EdgeConnects edge t then Some [outer, inner]
      else inner_connected edge outer s (Suc inner) ts)"

fun outer_connected :: "FilterInfoWithTotalDomains \<Rightarrow> nat \<Rightarrow> Subgraph2Denominator list \<Rightarrow> nat list" where
  "outer_connected edge outer [] = []"
| "outer_connected edge outer (s # ss) =
     (case inner_connected edge outer s (Suc outer) ss of
        Some res \<Rightarrow> res
      | None \<Rightarrow> if EdgeConnects edge s then [outer] else outer_connected edge (Suc outer) ss)"

definition SubgraphsConnectedByEdge :: "FilterInfoWithTotalDomains \<Rightarrow> Subgraph2Denominator list \<Rightarrow> nat list" where
  "SubgraphsConnectedByEdge edge subgraphs = (if subgraphs = [] then [] else outer_connected edge 0 subgraphs)"

text \<open>The test of both switches whether the semi join goes from \<open>left\<close> to \<open>right\<close>.\<close>

definition semi_from_left :: "Subgraph2Denominator \<Rightarrow> Subgraph2Denominator \<Rightarrow> FilterInfo \<Rightarrow> bool res" where
  "semi_from_left left right f =
     res_bind (deref (fi_left_set f)) (\<lambda>l.
       if IsSubset (sg_relations left) l
       then res_bind (deref (fi_right_set f)) (\<lambda>r. Inr (IsSubset (sg_relations right) r))
       else Inr False)"

definition UpdateNumeratorRelations ::
  "Subgraph2Denominator \<Rightarrow> Subgraph2Denominator \<Rightarrow> FilterInfoWithTotalDomains \<Rightarrow> JoinRelationSet res" where
  "UpdateNumeratorRelations left right edge =
     (if fi_join_type (fd_filter_info edge) \<in> {SEMI, ANTI} then
        res_bind (semi_from_left left right (fd_filter_info edge)) (\<lambda>b.
          Inr (if b then sg_numerator_relations left else sg_numerator_relations right))
      else Inr (join_union (sg_numerator_relations left) (sg_numerator_relations right)))"

definition edge_tdom :: "FilterInfoWithTotalDomains \<Rightarrow> real" where
  "edge_tdom edge = (if fd_has_tdom_hll edge then of_nat (fd_tdom_hll edge) else of_nat (fd_tdom_no_hll edge))"

definition comparison_ratio :: "FilterInfoWithTotalDomains \<Rightarrow> ExpressionType \<Rightarrow> real" where
  "comparison_ratio edge comparison_type =
     (if comparison_type \<in> {COMPARE_EQUAL, COMPARE_NOT_DISTINCT_FROM} then edge_tdom edge
      else if comparison_type \<in> {COMPARE_LESSTHANOREQUALTO, COMPARE_LESSTHAN, COMPARE_GREATERTHANOREQUALTO, COMPARE_GREATERTHAN}
      then edge_tdom edge * (1 / DEFAULT_LT_GT_MULTIPLIER)
      else 1)"

definition CalculateUpdatedDenom ::
  "Subgraph2Denominator \<Rightarrow> Subgraph2Denominator \<Rightarrow> FilterInfoWithTotalDomains \<Rightarrow> real res" where
  "CalculateUpdatedDenom left right edge =
     (let new_denom = sg_denom left * sg_denom right; f = fd_filter_info edge
      in if fi_join_type f = INNER then
           Inr (if comparison_types (fi_filter f) = [] then new_denom * edge_tdom edge
                else new_denom * comparison_ratio edge (last (comparison_types (fi_filter f))))
         else if fi_join_type f \<in> {SEMI, ANTI} then
           res_bind (semi_from_left left right f) (\<lambda>b.
             Inr ((if b then sg_denom left else sg_denom right) * DEFAULT_SEMI_ANTI_SELECTIVITY))
         else Inr new_denom)"

definition side_subgraph :: "JoinRelationSet option \<Rightarrow> Subgraph2Denominator res" where
  "side_subgraph p =
     res_bind (deref p) (\<lambda>r. Inr \<lparr>sg_relations = r, sg_numerator_relations = r, sg_denom = 1\<rparr>)"

text \<open>The three cases of one edge: a new subgraph, a larger one, or two that are merged.\<close>

definition new_subgraph :: "FilterInfoWithTotalDomains \<Rightarrow> Subgraph2Denominator res" where
  "new_subgraph edge =
     res_bind (side_subgraph (fi_left_set (fd_filter_info edge))) (\<lambda>left.
     res_bind (side_subgraph (fi_right_set (fd_filter_info edge))) (\<lambda>right.
     res_bind (UpdateNumeratorRelations left right edge) (\<lambda>num.
       let left' = left\<lparr>sg_numerator_relations := num, sg_relations := fi_set (fd_filter_info edge)\<rparr>
       in res_bind (CalculateUpdatedDenom left' right edge) (\<lambda>d. Inr (left'\<lparr>sg_denom := d\<rparr>)))))"

text \<open>\<open>None\<close> when the edge stays inside the subgraph.\<close>

definition extend_subgraph ::
  "FilterInfoWithTotalDomains \<Rightarrow> Subgraph2Denominator \<Rightarrow> Subgraph2Denominator option res" where
  "extend_subgraph edge left =
     res_bind (side_subgraph (fi_right_set (fd_filter_info edge))) (\<lambda>right0.
     res_bind (if IsSubset (sg_relations left) (sg_relations right0)
               then side_subgraph (fi_left_set (fd_filter_info edge)) else Inr right0) (\<lambda>right.
     res_bind (deref (fi_left_set (fd_filter_info edge))) (\<lambda>l.
     res_bind (deref (fi_right_set (fd_filter_info edge))) (\<lambda>r.
       if IsSubset (sg_relations left) l \<and> IsSubset (sg_relations left) r then Inr None
       else
         res_bind (UpdateNumeratorRelations left right edge) (\<lambda>num.
         let left' = left\<lparr>sg_numerator_relations := num,
                        sg_relations := join_union (sg_relations left) (sg_relations right)\<rparr>
         in res_bind (CalculateUpdatedDenom left' right edge) (\<lambda>d. Inr (Some (left'\<lparr>sg_denom := d\<rparr>))))))))"

definition merge_subgraphs ::
  "FilterInfoWithTotalDomains \<Rightarrow> Subgraph2Denominator \<Rightarrow> Subgraph2Denominator \<Rightarrow> Subgraph2Denominator res" where
  "merge_subgraphs edge into other =
     (let into' = into\<lparr>sg_relations := join_union (sg_relations into) (sg_relations other)\<rparr>
      in res_bind (UpdateNumeratorRelations into' other edge) (\<lambda>num.
         let into'' = into'\<lparr>sg_numerator_relations := num\<rparr>
         in res_bind (CalculateUpdatedDenom into'' other edge) (\<lambda>d. Inr (into''\<lparr>sg_denom := d\<rparr>))))"

definition denom_step :: "JoinRelationSet \<Rightarrow> FilterInfoWithTotalDomains \<Rightarrow>
    Subgraph2Denominator list \<times> nat list \<Rightarrow> (Subgraph2Denominator list \<times> nat list) res" where
  "denom_step new_set edge s =
     (case s of (subgraphs, unused) \<Rightarrow>
       if length subgraphs = 1 \<and> JoinRelationSet_ToString (sg_relations (subgraphs ! 0)) = JoinRelationSet_ToString new_set
       then Inr (subgraphs, if fd_has_tdom_hll edge then List.insert (fd_tdom_hll edge) unused else unused)
       else
         case SubgraphsConnectedByEdge edge subgraphs of
           [] \<Rightarrow> res_map (\<lambda>g. (subgraphs @ [g], unused)) (new_subgraph edge)
         | [i] \<Rightarrow> res_map (\<lambda>g. (case g of None \<Rightarrow> subgraphs | Some g \<Rightarrow> subgraphs[i := g], unused))
                   (extend_subgraph edge (subgraphs ! i))
         | i # j # _ \<Rightarrow> res_map (\<lambda>g. (vec_erase j (subgraphs[i := g]), unused))
                   (merge_subgraphs edge (subgraphs ! i) (subgraphs ! j)))"

text \<open>
  The code merges the subgraphs that remain into a copy of the first, \<open>final_subgraph\<close>, and then
  uses the first itself.
\<close>

definition final_subgraph :: "Subgraph2Denominator list \<Rightarrow> Subgraph2Denominator" where
  "final_subgraph subgraphs =
     fold (\<lambda>merge_with final. \<lparr>sg_relations = join_union (sg_relations final) (sg_relations merge_with),
             sg_numerator_relations = join_union (sg_numerator_relations final) (sg_numerator_relations merge_with),
             sg_denom = sg_denom final * sg_denom merge_with\<rparr>)
       (tl subgraphs) (hd subgraphs)"

definition GetDenominator :: "RelationsToTDom list \<Rightarrow> JoinRelationSet \<Rightarrow> DenomInfo res" where
  "GetDenominator tdoms new_set =
     res_bind (res_fold (denom_step new_set) (GetEdges tdoms new_set) ([], [])) (\<lambda>(subgraphs, unused).
       let denom_multiplier = 1 + of_nat (length unused)
       in if subgraphs = [] \<or> sg_denom (subgraphs ! 0) = 0
          then Inr \<lparr>dn_numerator_relations = new_set, dn_filter_strength = 1, dn_denominator = 1\<rparr>
          else Inr \<lparr>dn_numerator_relations = sg_numerator_relations (subgraphs ! 0), dn_filter_strength = 1,
                    dn_denominator = sg_denom (subgraphs ! 0) * denom_multiplier\<rparr>)"

section \<open>The estimate\<close>

text \<open>The cardinality of a relation without an entry is not initialised.\<close>

definition GetNumerator :: "(string \<Rightarrow> real option) \<Rightarrow> JoinRelationSet \<Rightarrow> real res" where
  "GetNumerator cards relations =
     res_fold (\<lambda>r numerator.
         case cards (JoinRelationSet_ToString [r]) of
           None \<Rightarrow> Inl (Undefined ''cardinality_before_filters'')
         | Some c \<Rightarrow> Inr (numerator * (if c = 0 then 1 else c)))
       relations 1"

definition native_estimate :: "RelationsToTDom list \<Rightarrow> (string \<Rightarrow> real option) \<Rightarrow> JoinRelationSet \<Rightarrow> real res" where
  "native_estimate tdoms cards new_set =
     res_bind (GetDenominator tdoms new_set) (\<lambda>denom.
     res_bind (GetNumerator cards (dn_numerator_relations denom)) (\<lambda>numerator.
       Inr (numerator / dn_denominator denom)))"

end
