(* ===== verification/PlanEnum.thy ===== *)
theory PlanEnum
  imports CardEst
begin

text \<open>
  The plan enumerator of DuckDB's join order optimizer (\<^verbatim>\<open>plan_enumerator.cpp\<close>, \<^verbatim>\<open>cost_model.cpp\<close>
  and \<open>EstimateCardinalityWithSet\<close> of \<^verbatim>\<open>cardinality_estimator.cpp\<close>), the caller of StarCE's
  estimates: exact enumeration of connected subgraphs and their complements, and the greedy
  fallback. References to relation sets are lists of relations (\<open>JoinSets\<close>).
\<close>

section \<open>State\<close>

record DPJoinNode =
  n_set :: JoinRelationSet
  n_info :: "NeighborInfo option"
  n_is_leaf :: bool
  n_left_set :: JoinRelationSet
  n_right_set :: JoinRelationSet
  n_cost :: real
  n_cardinality :: int

text \<open>
  What the enumerator is given; \<open>pl_elapsed\<close> is the time measured around StarCE's estimate of a set.
  Its state has that of the cardinality estimator: the total domains and the cached
  cardinalities.
\<close>

record Planner =
  pl_NumRelations :: nat
  pl_use_starce :: bool
  pl_elapsed :: "JoinRelationSet \<Rightarrow> real"
  pl_cross_product_allowed :: "nat \<Rightarrow> bool"
  pl_force_no_cross_product :: bool

record PlanState =
  ps_graph :: QueryEdge
  ps_plans :: "JoinRelationSet \<Rightarrow> DPJoinNode option"
  ps_pairs :: nat
  ps_tdoms :: "RelationsToTDom list"
  ps_cards :: "string \<Rightarrow> real option"
  ps_sm :: StatisticManager

type_synonym 'a planx = "(PlanState, 'a) sx"

definition with_sm :: "'a smx \<Rightarrow> 'a planx" where
  "with_sm m s = (case m (ps_sm s) of (r, sm) \<Rightarrow> (r, s\<lparr>ps_sm := sm\<rparr>))"

text \<open>A loop that stops with \<open>return false\<close>.\<close>

fun sx_all :: "('x \<Rightarrow> ('s, bool) sx) \<Rightarrow> 'x list \<Rightarrow> ('s, bool) sx" where
  "sx_all f [] = sx_ret True"
| "sx_all f (x # xs) = sx_bind (f x) (\<lambda>b. if b then sx_all f xs else sx_ret False)"

section \<open>Cardinalities and costs\<close>

definition EstimateCardinalityWithSet :: "Planner \<Rightarrow> JoinRelationSet \<Rightarrow> real planx" where
  "EstimateCardinalityWithSet pl new_set =
     sx_bind (sx_read (\<lambda>s. Inr (ps_cards s (JoinRelationSet_ToString new_set)))) (\<lambda>entry.
       case entry of Some c \<Rightarrow> sx_ret c
       | None \<Rightarrow>
           sx_bind (sx_read (\<lambda>s. native_estimate (ps_tdoms s) (ps_cards s) new_set)) (\<lambda>native.
           sx_bind (if pl_use_starce pl then with_sm (EstimateCardinality (pl_elapsed pl new_set) new_set)
                    else sx_ret native) (\<lambda>result.
           sx_bind (sx_mod (\<lambda>s. s\<lparr>ps_cards := (ps_cards s)(JoinRelationSet_ToString new_set \<mapsto> result)\<rparr>)) (\<lambda>_.
             sx_ret result))))"

text \<open>The instance for \<open>idx_t\<close>: a negative number has no conversion.\<close>

definition to_idx :: "real \<Rightarrow> int res" where
  "to_idx x = (if 2 ^ 64 \<le> x then Inr (2 ^ 64 - 1)
               else if x \<le> -1 then Inl (Undefined ''double to idx_t'') else Inr (trunc x))"

definition EstimateCardinalityWithSet_idx :: "Planner \<Rightarrow> JoinRelationSet \<Rightarrow> int planx" where
  "EstimateCardinalityWithSet_idx pl new_set =
     sx_bind (EstimateCardinalityWithSet pl new_set) (\<lambda>c. sx_read (\<lambda>_. to_idx c))"

definition ComputeCost :: "Planner \<Rightarrow> DPJoinNode \<Rightarrow> DPJoinNode \<Rightarrow> real planx" where
  "ComputeCost pl left right =
     sx_bind (EstimateCardinalityWithSet pl (join_union (n_set left) (n_set right))) (\<lambda>join_card.
       sx_ret (join_card + n_cost left + n_cost right))"

section \<open>Pairs\<close>

definition best_connection :: "NeighborInfo list \<Rightarrow> NeighborInfo" where
  "best_connection possible =
     (case find (\<lambda>c. \<exists>f \<in> set (ni_filters c). fi_join_type f \<noteq> INVALID) possible of
        Some c \<Rightarrow> c | None \<Rightarrow> last possible)"

definition CreateJoinTree ::
  "Planner \<Rightarrow> JoinRelationSet \<Rightarrow> NeighborInfo list \<Rightarrow> DPJoinNode \<Rightarrow> DPJoinNode \<Rightarrow> DPJoinNode planx" where
  "CreateJoinTree pl new_set possible_connections left right =
     (if possible_connections = [] then sx_throw (Undefined ''back of an empty vector'')
      else
        sx_bind (ComputeCost pl left right) (\<lambda>cost.
        sx_bind (EstimateCardinalityWithSet_idx pl new_set) (\<lambda>cardinality.
          sx_ret \<lparr>n_set = new_set, n_info = Some (best_connection possible_connections), n_is_leaf = False,
                  n_left_set = n_set left, n_right_set = n_set right, n_cost = cost,
                  n_cardinality = cardinality\<rparr>)))"

definition EmitPair ::
  "Planner \<Rightarrow> JoinRelationSet \<Rightarrow> JoinRelationSet \<Rightarrow> NeighborInfo list \<Rightarrow> DPJoinNode planx" where
  "EmitPair pl left right info =
     sx_bind (sx_read (\<lambda>s. case (ps_plans s left, ps_plans s right) of
         (Some l, Some r) \<Rightarrow> Inr (l, r)
       | _ \<Rightarrow> Inl (Runtime_error ''No left or right plan: internal error in join order optimizer''))) (\<lambda>(l, r).
       let new_set = join_union left right
       in sx_bind (CreateJoinTree pl new_set info l r) (\<lambda>new_plan.
          sx_bind (sx_read (\<lambda>s. Inr (ps_plans s new_set))) (\<lambda>entry.
            case entry of
              Some old \<Rightarrow>
                if n_cost new_plan < n_cost old
                then sx_bind (sx_mod (\<lambda>s. s\<lparr>ps_plans := (ps_plans s)(new_set \<mapsto> new_plan)\<rparr>)) (\<lambda>_. sx_ret new_plan)
                else sx_ret old
            | None \<Rightarrow>
                sx_bind (sx_mod (\<lambda>s. s\<lparr>ps_plans := (ps_plans s)(new_set \<mapsto> new_plan)\<rparr>)) (\<lambda>_. sx_ret new_plan))))"

definition TryEmitPair ::
  "Planner \<Rightarrow> JoinRelationSet \<Rightarrow> JoinRelationSet \<Rightarrow> NeighborInfo list \<Rightarrow> bool planx" where
  "TryEmitPair pl left right info =
     sx_bind (sx_mod (\<lambda>s. s\<lparr>ps_pairs := ps_pairs s + 1\<rparr>)) (\<lambda>_.
     sx_bind (sx_read (\<lambda>s. Inr (ps_pairs s))) (\<lambda>pairs.
       if 1000000 \<le> pairs then sx_ret False
       else sx_bind (EmitPair pl left right info) (\<lambda>_. sx_ret True)))"

section \<open>Sets of neighbors\<close>

text \<open>An \<open>unordered_set\<close> is the list of its elements; a new one ends with its largest element.\<close>

definition AddSuperSets :: "nat list list \<Rightarrow> nat list \<Rightarrow> nat list list" where
  "AddSuperSets current all_neighbors =
     concat (map (\<lambda>neighbor_set.
       map (\<lambda>neighbor. neighbor_set @ [neighbor])
         (filter (\<lambda>neighbor. \<not> neighbor \<le> Max (set neighbor_set) \<and> neighbor \<notin> set neighbor_set) all_neighbors))
       current)"

text \<open>The \<open>do ... while\<close> loop; a set of \<open>n\<close> neighbors needs \<open>n\<close> rounds.\<close>

fun super_sets_loop :: "nat \<Rightarrow> nat list list \<Rightarrow> nat list \<Rightarrow> nat list list" where
  "super_sets_loop 0 added neighbors = []"
| "super_sets_loop (Suc fuel) added neighbors =
     (let added' = AddSuperSets added neighbors
      in if added' = [] then [] else added' @ super_sets_loop fuel added' neighbors)"

definition GetAllNeighborSets :: "nat list \<Rightarrow> nat list list" where
  "GetAllNeighborSets neighbors =
     (let ns = sort neighbors; singles = map (\<lambda>n. [n]) ns
      in singles @ super_sets_loop (length ns) singles ns)"

section \<open>Exact enumeration\<close>

text \<open>
  The recursions exclude at least one more relation at every level; the fuel is the number of
  relations, and when it runs out the result is an error. The graph does not change here.
\<close>

definition emit_connected :: "Planner \<Rightarrow> QueryEdge \<Rightarrow> JoinRelationSet \<Rightarrow> JoinRelationSet \<Rightarrow> bool planx" where
  "emit_connected pl g left right =
     (let connections = GetConnections g left right
      in if connections \<noteq> [] then TryEmitPair pl left right connections else sx_ret True)"

definition emit_planned :: "Planner \<Rightarrow> QueryEdge \<Rightarrow> JoinRelationSet \<Rightarrow> JoinRelationSet \<Rightarrow> bool planx" where
  "emit_planned pl g left combined_set =
     sx_bind (sx_read (\<lambda>s. Inr (ps_plans s combined_set))) (\<lambda>plan.
       if plan \<noteq> None then emit_connected pl g left combined_set else sx_ret True)"

fun EnumerateCmpRecursive ::
  "nat \<Rightarrow> Planner \<Rightarrow> QueryEdge \<Rightarrow> JoinRelationSet \<Rightarrow> JoinRelationSet \<Rightarrow> nat set \<Rightarrow> bool planx" where
  "EnumerateCmpRecursive 0 pl g left right exclusion_set = sx_throw (Undefined ''fuel'')"
| "EnumerateCmpRecursive (Suc fuel) pl g left right exclusion_set =
     (let neighbors = GetNeighbors g right exclusion_set
      in if neighbors = [] then sx_ret True
         else
           let union_sets = map (\<lambda>rel_set. join_union right (relation_set rel_set)) (GetAllNeighborSets neighbors)
           in sx_bind (sx_all (emit_planned pl g left) union_sets) (\<lambda>b.
                if b then sx_all (\<lambda>u. EnumerateCmpRecursive fuel pl g left u (exclusion_set \<union> set neighbors)) union_sets
                else sx_ret False))"

text \<open>The loop of \<open>EmitCSG\<close> over the neighbors in descending order.\<close>

fun emit_csg_loop ::
  "Planner \<Rightarrow> QueryEdge \<Rightarrow> JoinRelationSet \<Rightarrow> nat list \<Rightarrow> nat set \<Rightarrow> bool planx" where
  "emit_csg_loop pl g node [] new_exclusion_set = sx_ret True"
| "emit_csg_loop pl g node (neighbor # neighbors) new_exclusion_set =
     sx_bind (emit_connected pl g node [neighbor]) (\<lambda>b.
       if b then
         sx_bind (EnumerateCmpRecursive (Suc (pl_NumRelations pl)) pl g node [neighbor] new_exclusion_set) (\<lambda>b.
           if b then emit_csg_loop pl g node neighbors (new_exclusion_set - {neighbor})
           else sx_ret False)
       else sx_ret False)"

definition EmitCSG :: "Planner \<Rightarrow> QueryEdge \<Rightarrow> JoinRelationSet \<Rightarrow> bool planx" where
  "EmitCSG pl g node =
     (if length node = pl_NumRelations pl then sx_ret True
      else
        let exclusion_set = {..<hd node} \<union> set node;
            neighbors = GetNeighbors g node exclusion_set
        in if neighbors = [] then sx_ret True
           else emit_csg_loop pl g node (rev (sort neighbors)) (exclusion_set \<union> set neighbors))"

definition emit_csg_planned :: "Planner \<Rightarrow> QueryEdge \<Rightarrow> JoinRelationSet \<Rightarrow> bool planx" where
  "emit_csg_planned pl g new_set =
     sx_bind (sx_read (\<lambda>s. Inr (ps_plans s new_set))) (\<lambda>plan.
       if plan \<noteq> None then EmitCSG pl g new_set else sx_ret True)"

fun EnumerateCSGRecursive :: "nat \<Rightarrow> Planner \<Rightarrow> QueryEdge \<Rightarrow> JoinRelationSet \<Rightarrow> nat set \<Rightarrow> bool planx" where
  "EnumerateCSGRecursive 0 pl g node exclusion_set = sx_throw (Undefined ''fuel'')"
| "EnumerateCSGRecursive (Suc fuel) pl g node exclusion_set =
     (let neighbors = GetNeighbors g node exclusion_set
      in if neighbors = [] then sx_ret True
         else
           let union_sets = map (\<lambda>rel_set. join_union node (relation_set rel_set)) (GetAllNeighborSets neighbors)
           in sx_bind (sx_all (emit_csg_planned pl g) union_sets) (\<lambda>b.
                if b then sx_all (\<lambda>u. EnumerateCSGRecursive fuel pl g u (exclusion_set \<union> set neighbors)) union_sets
                else sx_ret False))"

definition SolveJoinOrderExactly :: "Planner \<Rightarrow> bool planx" where
  "SolveJoinOrderExactly pl =
     sx_bind (sx_read (\<lambda>s. Inr (ps_graph s))) (\<lambda>g.
       sx_all (\<lambda>i. sx_bind (EmitCSG pl g [i]) (\<lambda>b.
           if b then EnumerateCSGRecursive (Suc (pl_NumRelations pl)) pl g [i] {..i} else sx_ret False))
         (rev [0..<pl_NumRelations pl]))"

section \<open>Greedy enumeration\<close>

text \<open>
  One round over all pairs of the relations to be joined: the pair with the cheapest plan. The
  result is the plan with the two positions.
\<close>

definition greedy_pair ::
  "Planner \<Rightarrow> JoinRelationSet list \<Rightarrow> nat \<times> nat \<Rightarrow> (DPJoinNode \<times> nat \<times> nat) option \<Rightarrow>
     (DPJoinNode \<times> nat \<times> nat) option planx" where
  "greedy_pair pl rels ij best =
     (case ij of (i, j) \<Rightarrow>
       sx_bind (sx_read (\<lambda>s. Inr (GetConnections (ps_graph s) (rels ! i) (rels ! j)))) (\<lambda>connection.
         if connection \<noteq> [] then
           sx_bind (EmitPair pl (rels ! i) (rels ! j) connection) (\<lambda>node.
             if (case best of None \<Rightarrow> True | Some (b, _) \<Rightarrow> n_cost node < n_cost b)
             then sx_bind (EmitPair pl (rels ! i) (rels ! j) connection) (\<lambda>node. sx_ret (Some (node, i, j)))
             else sx_ret best)
         else sx_ret best))"

definition greedy_best :: "Planner \<Rightarrow> JoinRelationSet list \<Rightarrow> (DPJoinNode \<times> nat \<times> nat) option planx" where
  "greedy_best pl rels =
     sx_for (greedy_pair pl rels)
       (concat (map (\<lambda>i. map (Pair i) [Suc i..<length rels]) [0..<length rels])) None"

text \<open>
  The choice of two plans for a cross product: a plan replaces the first of the two that costs
  more.
\<close>

definition plan_of :: "JoinRelationSet \<Rightarrow> DPJoinNode planx" where
  "plan_of r = sx_read (\<lambda>s. case ps_plans s r of None \<Rightarrow> Inl (Undefined ''null plan'') | Some p \<Rightarrow> Inr p)"

definition smallest_step ::
  "JoinRelationSet list \<Rightarrow> nat \<Rightarrow> (DPJoinNode \<times> nat) \<times> (DPJoinNode \<times> nat) \<Rightarrow>
     ((DPJoinNode \<times> nat) \<times> (DPJoinNode \<times> nat)) planx" where
  "smallest_step rels i best =
     sx_bind (plan_of (rels ! i)) (\<lambda>current.
       sx_ret (if n_cost current < n_cost (fst (fst best)) then ((current, i), snd best)
               else if n_cost current < n_cost (fst (snd best)) then (fst best, (current, i))
               else best))"

definition greedy_cross :: "Planner \<Rightarrow> JoinRelationSet list \<Rightarrow> (nat \<times> nat) planx" where
  "greedy_cross pl rels =
     sx_bind (plan_of (rels ! 0)) (\<lambda>p0.
     sx_bind (plan_of (rels ! 1)) (\<lambda>p1.
     sx_bind (sx_for (smallest_step rels) [2..<length rels] ((p0, 0), (p1, 1))) (\<lambda>((p, i), (q, j)).
     sx_bind (sx_mod (\<lambda>s. s\<lparr>ps_graph := CreateQueryGraphCrossProduct (n_set p) (n_set q) (ps_graph s)\<rparr>)) (\<lambda>_.
     sx_bind (sx_read (\<lambda>s. Inr (GetConnections (ps_graph s) (n_set p) (n_set q)))) (\<lambda>connections.
     sx_bind (EmitPair pl (n_set p) (n_set q) connections) (\<lambda>_.
       sx_ret (if j < i then (j, i) else (i, j))))))))"

definition greedy_step :: "Planner \<Rightarrow> JoinRelationSet list \<Rightarrow> JoinRelationSet list planx" where
  "greedy_step pl rels =
     sx_bind (greedy_best pl rels) (\<lambda>best.
     sx_bind (case best of Some (_, i, j) \<Rightarrow> sx_ret (i, j) | None \<Rightarrow> greedy_cross pl rels) (\<lambda>(i, j).
       sx_ret (vec_erase i (vec_erase j rels) @ [join_union (rels ! i) (rels ! j)])))"

text \<open>Every round joins two relations; the fuel is the number of relations.\<close>

fun greedy_loop :: "nat \<Rightarrow> Planner \<Rightarrow> JoinRelationSet list \<Rightarrow> unit planx" where
  "greedy_loop 0 pl rels = sx_throw (Undefined ''fuel'')"
| "greedy_loop (Suc fuel) pl rels =
     (if 1 < length rels then sx_bind (greedy_step pl rels) (greedy_loop fuel pl) else sx_ret ())"

definition SolveJoinOrderApproximately :: "Planner \<Rightarrow> unit planx" where
  "SolveJoinOrderApproximately pl =
     greedy_loop (Suc (pl_NumRelations pl)) pl (map (\<lambda>i. [i]) [0..<pl_NumRelations pl])"

section \<open>The whole search\<close>

definition GenerateCrossProducts :: "Planner \<Rightarrow> unit planx" where
  "GenerateCrossProducts pl =
     sx_mod (\<lambda>s. s\<lparr>ps_graph :=
       fold (\<lambda>i. fold (\<lambda>j g.
           if i \<noteq> j \<and> pl_cross_product_allowed pl i \<and> pl_cross_product_allowed pl j
           then CreateQueryGraphCrossProduct [i] [j] g else g) [0..<pl_NumRelations pl])
         [0..<pl_NumRelations pl] (ps_graph s)\<rparr>)"

text \<open>
  \<open>InitLeafPlans\<close>: plans of the single relations, with the cardinalities and the numbers of
  distinct values of their statistics (\<open>InitCardinalityEstimatorProps\<close>).
\<close>

definition init_leaf :: "nat \<times> RelationStats \<Rightarrow> PlanState \<Rightarrow> PlanState" where
  "init_leaf ic s =
     (case ic of (i, stats) \<Rightarrow>
        s\<lparr>ps_plans := (ps_plans s)([i] \<mapsto> \<lparr>n_set = [i], n_info = None, n_is_leaf = True, n_left_set = [i],
            n_right_set = [i], n_cost = 0, n_cardinality = int (rs_cardinality stats)\<rparr>),
          ps_cards := (ps_cards s)(JoinRelationSet_ToString [i] \<mapsto> of_nat (rs_cardinality stats)),
          ps_tdoms := sort_tdoms (UpdateTotalDomains i stats (ps_tdoms s))\<rparr>)"

definition InitLeafPlans :: "FilterInfo list \<Rightarrow> RelationStats list \<Rightarrow> unit planx" where
  "InitLeafPlans filters relation_stats =
     sx_bind (sx_mod (\<lambda>s. s\<lparr>ps_tdoms := InitEquivalentRelations filters (ps_tdoms s)\<rparr>)) (\<lambda>_.
       sx_mod (fold init_leaf (zip [0..<length relation_stats] relation_stats)))"

definition THRESHOLD_TO_SWAP_TO_APPROXIMATE :: nat where
  "THRESHOLD_TO_SWAP_TO_APPROXIMATE = 64"

text \<open>
  \<open>SolveJoinOrder\<close> calls itself after the generation of cross products; when the fuel runs out
  the recursion of the code would have gone deeper than the fuel.
\<close>

fun SolveJoinOrder :: "nat \<Rightarrow> Planner \<Rightarrow> unit planx" where
  "SolveJoinOrder 0 pl = sx_throw (Undefined ''fuel'')"
| "SolveJoinOrder (Suc fuel) pl =
     sx_bind (if THRESHOLD_TO_SWAP_TO_APPROXIMATE \<le> pl_NumRelations pl then SolveJoinOrderApproximately pl
              else sx_bind (SolveJoinOrderExactly pl) (\<lambda>solved.
                if solved then sx_ret () else SolveJoinOrderApproximately pl)) (\<lambda>_.
     sx_bind (sx_read (\<lambda>s. Inr (ps_plans s [0..<pl_NumRelations pl]))) (\<lambda>final_plan.
       if final_plan \<noteq> None then sx_ret ()
       else if pl_force_no_cross_product pl then
         sx_throw (Runtime_error ''Query requires a cross-product'')
       else sx_bind (GenerateCrossProducts pl) (\<lambda>_. SolveJoinOrder fuel pl)))"

end
