(* ===== verification/Csg.thy ===== *)
theory Csg
  imports PlanEnum
begin

text \<open>
  The order in which the exact enumeration visits connected sets of relations. The recursion of
  \<open>EnumerateCmpRecursive\<close> and \<open>EnumerateCSGRecursive\<close> is a traversal of one list (\<open>csg_rec\<close>); this
  theory shows for graphs of simple edges that the list has every connected extension of its
  start exactly once, and smaller sets before larger ones.
\<close>

section \<open>Simple graphs\<close>

definition adj :: "QueryEdge \<Rightarrow> nat \<Rightarrow> nat \<Rightarrow> bool" where
  "adj g u v \<longleftrightarrow> ([u], [v]) \<in> edge_set g"

text \<open>Every edge joins two different relations below \<open>n\<close>, and is present in both directions.\<close>

definition simple_graph :: "nat \<Rightarrow> QueryEdge \<Rightarrow> bool" where
  "simple_graph n g \<longleftrightarrow>
     (\<forall>(left, right) \<in> edge_set g. \<exists>u v. left = [u] \<and> right = [v] \<and> u < n \<and> v < n \<and> u \<noteq> v \<and> adj g v u)"

lemma adjD: "simple_graph n g \<Longrightarrow> adj g u v \<Longrightarrow> u < n \<and> v < n \<and> u \<noteq> v \<and> adj g v u"
  by (auto simp: simple_graph_def adj_def)

lemma simple_edges_ok: "simple_graph n g \<Longrightarrow> edges_ok g"
  by (fastforce simp: simple_graph_def edges_ok_def)

lemma found_simple:
  assumes "simple_graph n g" "ascending S"
  shows "ni_neighbor ` set (found S g) = {[v] | v. \<exists>u \<in> set S. adj g u v}"
  using assms(1) unfolding found_edges [OF simple_edges_ok [OF assms(1)] assms(2)]
  by (fastforce simp: simple_graph_def adj_def)

lemma GetNeighbors_simple:
  assumes "simple_graph n g" "ascending S"
  shows "set (GetNeighbors g S X) = {v. \<exists>u \<in> set S. adj g u v} - X"
proof -
  have "set (GetNeighbors g S X) = hd ` (ni_neighbor ` set (found S g)) - X"
    by (auto simp: GetNeighbors_eq fold_insert_set)
  then show ?thesis unfolding found_simple [OF assms] by (simp add: setcompr_eq_image image_image)
qed

lemma GetConnections_simple:
  assumes "simple_graph n g" "ascending S" "ascending T"
  shows "GetConnections g S T \<noteq> [] \<longleftrightarrow> (\<exists>u \<in> set S. \<exists>v \<in> set T. adj g u v)"
proof -
  have "GetConnections g S T \<noteq> [] \<longleftrightarrow> (\<exists>R \<in> ni_neighbor ` set (found S g). IsSubset T R)"
    by (auto simp: GetConnections_eq filter_empty_conv)
  also have "\<dots> \<longleftrightarrow> (\<exists>v. (\<exists>u \<in> set S. adj g u v) \<and> IsSubset T [v])"
    unfolding found_simple [OF assms(1,2)] by auto
  finally show ?thesis using IsSubset_iff [OF assms(3)] by auto
qed

section \<open>Connected sets\<close>

text \<open>A set is connected when an edge leads out of each of its proper non-empty parts.\<close>

definition conn :: "QueryEdge \<Rightarrow> nat set \<Rightarrow> bool" where
  "conn g S \<longleftrightarrow> S \<noteq> {} \<and> (\<forall>A \<subseteq> S. A \<noteq> {} \<longrightarrow> A \<noteq> S \<longrightarrow> (\<exists>u \<in> A. \<exists>v \<in> S - A. adj g u v))"

definition linked :: "QueryEdge \<Rightarrow> nat set \<Rightarrow> nat set \<Rightarrow> bool" where
  "linked g A B \<longleftrightarrow> (\<exists>u \<in> A. \<exists>v \<in> B. adj g u v)"

lemma conn_single [simp]: "conn g {v}"
  by (auto simp: conn_def subset_singleton_iff)

lemma conn_cut: "conn g S \<Longrightarrow> A \<subseteq> S \<Longrightarrow> A \<noteq> {} \<Longrightarrow> A \<noteq> S \<Longrightarrow> \<exists>u \<in> A. \<exists>v \<in> S - A. adj g u v"
  by (auto simp: conn_def)

lemma linked_sym: "simple_graph n g \<Longrightarrow> linked g A B \<Longrightarrow> linked g B A"
  unfolding linked_def using adjD by meson

lemma conn_extend:
  assumes g: "simple_graph n g" and S: "conn g S" and N: "\<And>v. v \<in> N \<Longrightarrow> \<exists>u \<in> S. adj g u v"
  shows "conn g (S \<union> N)"
  unfolding conn_def
proof (intro conjI allI impI)
  show "S \<union> N \<noteq> {}" using S by (auto simp: conn_def)
  fix A assume A: "A \<subseteq> S \<union> N" "A \<noteq> {}" "A \<noteq> S \<union> N"
  consider "A \<inter> S = {}" | "A \<inter> S = S" | "A \<inter> S \<noteq> {}" "A \<inter> S \<noteq> S" by blast
  then show "\<exists>u \<in> A. \<exists>v \<in> S \<union> N - A. adj g u v"
  proof cases
    case 1
    then obtain v where "v \<in> A" "v \<in> N" using A by blast
    moreover obtain u where "u \<in> S" "adj g u v" using N [OF \<open>v \<in> N\<close>] by blast
    ultimately show ?thesis using 1 adjD [OF g] by blast
  next
    case 2
    then obtain v where "v \<in> N" "v \<notin> A" using A by blast
    moreover obtain u where "u \<in> S" "adj g u v" using N [OF \<open>v \<in> N\<close>] by blast
    ultimately show ?thesis using 2 by blast
  next
    case 3
    then have "\<exists>u \<in> A \<inter> S. \<exists>v \<in> S - A \<inter> S. adj g u v"
      by (intro conn_cut [OF S]) auto
    then show ?thesis by blast
  qed
qed

lemma conn_join:
  assumes g: "simple_graph n g" and LR: "conn g L" "conn g R" "linked g L R"
  shows "conn g (L \<union> R)"
  unfolding conn_def
proof (intro conjI allI impI)
  show "L \<union> R \<noteq> {}" using LR by (auto simp: conn_def)
  fix A assume A: "A \<subseteq> L \<union> R" "A \<noteq> {}" "A \<noteq> L \<union> R"
  have cut: "\<exists>u \<in> A. \<exists>v \<in> L \<union> R - A. adj g u v"
    if "conn g B" "B \<subseteq> L \<union> R" "A \<inter> B \<noteq> {}" "A \<inter> B \<noteq> B" for B
    using conn_cut [OF that(1), of "A \<inter> B"] that by blast
  show "\<exists>u \<in> A. \<exists>v \<in> L \<union> R - A. adj g u v"
  proof (cases "A \<inter> L \<noteq> {} \<and> A \<inter> L \<noteq> L \<or> A \<inter> R \<noteq> {} \<and> A \<inter> R \<noteq> R")
    case True
    then show ?thesis using cut [of L] cut [of R] LR by blast
  next
    case False
    then have "A = L \<and> L \<inter> R = {} \<or> A = R \<and> L \<inter> R = {} \<or> A = L \<union> R" using A by blast
    then have A': "A = L \<and> L \<inter> R = {} \<or> A = R \<and> L \<inter> R = {}" using A by blast
    obtain u v where e: "u \<in> L" "v \<in> R" "adj g u v" "adj g v u"
      using LR(3) adjD [OF g] unfolding linked_def by meson
    from A' show ?thesis using e by blast
  qed
qed

text \<open>
  A connected set of two or more relations splits into two connected linked parts, the first of
  which has a given relation: the first is a largest connected proper part with that relation.
\<close>

lemma conn_split:
  assumes g: "simple_graph n g" and S: "conn g S" "finite S" "v \<in> S" "S \<noteq> {v}"
  obtains A where "v \<in> A" "A \<subset> S" "conn g A" "conn g (S - A)" "linked g A (S - A)"
proof -
  let ?P = "\<lambda>A. v \<in> A \<and> A \<subset> S \<and> conn g A"
  have "?P {v}" using S by auto
  moreover have "\<forall>A. ?P A \<longrightarrow> card A < Suc (card S)"
    using S(2) by (meson less_Suc_eq psubset_card_mono)
  ultimately obtain A where A: "?P A" and max: "\<And>B. ?P B \<Longrightarrow> card B \<le> card A"
    using ex_has_greatest_nat [of ?P "{v}" card "Suc (card S)"] by blast
  have fin: "finite A" using A S(2) by (meson psubset_imp_subset finite_subset)
  have one: "S - A \<subseteq> {b}" if "u \<in> A" "b \<in> S - A" "adj g u b" for u b
  proof (rule ccontr)
    assume "\<not> S - A \<subseteq> {b}"
    moreover have "conn g (A \<union> {b})" using A that by (intro conn_extend [OF g]) auto
    ultimately have "?P (A \<union> {b})" using A that by auto
    then show False using max [of "A \<union> {b}"] that fin by auto
  qed
  obtain u b where ub: "u \<in> A" "b \<in> S - A" "adj g u b"
    using conn_cut [OF S(1), of A] A by blast
  have "conn g (S - A)"
    using one [OF ub] ub by (metis conn_single subset_singleton_iff empty_iff)
  moreover have "linked g A (S - A)" using ub by (auto simp: linked_def)
  ultimately show ?thesis using A by (intro that [of A]) auto
qed

end
