(* ===== verification/Csg_Order.thy ===== *)
theory Csg_Order
  imports Csg
begin

text \<open>
  The sets of neighbors are all non-empty sets, smaller ones first; the traversal order of the
  exact enumeration.
\<close>

section \<open>Orders on lists of sets\<close>

text \<open>No set of the list is contained in an earlier one; in particular no set occurs twice.\<close>

abbreviation small_first :: "nat list list \<Rightarrow> bool" where
  "small_first \<equiv> sorted_wrt (\<lambda>A B. \<not> set B \<subseteq> set A)"

lemma sorted_wrt_concat_map:
  assumes "\<And>u. u \<in> set us \<Longrightarrow> sorted_wrt P (h u)"
    and "sorted_wrt (\<lambda>u u'. \<forall>x \<in> set (h u). \<forall>y \<in> set (h u'). P x y) us"
  shows "sorted_wrt P (concat (map h us))"
  using assms by (induction us) (auto simp: sorted_wrt_append)

lemma sorted_wrt_impI: "sorted_wrt P xs \<Longrightarrow> (\<And>x y. x \<in> set xs \<Longrightarrow> y \<in> set xs \<Longrightarrow> P x y \<Longrightarrow> Q x y) \<Longrightarrow> sorted_wrt Q xs"
  by (auto simp: sorted_wrt_iff_nth_less)

lemma sorted_wrt_split: "sorted_wrt P (ys @ x # zs) \<Longrightarrow> y \<in> set (ys @ x # zs) \<Longrightarrow> y \<noteq> x \<Longrightarrow> \<not> P x y \<Longrightarrow> y \<in> set ys"
  by (auto simp: sorted_wrt_append)

section \<open>Sets of neighbors\<close>

definition level :: "nat list \<Rightarrow> nat \<Rightarrow> nat list set" where
  "level ns k = {s. length s = k \<and> ascending s \<and> set s \<subseteq> set ns}"

lemma level_empty:
  assumes "length ns < k" shows "level ns k = {}"
proof -
  have "length s \<le> length ns" if "ascending s" "set s \<subseteq> set ns" for s
    using that by (metis ascending_distinct distinct_card card_length card_mono List.finite_set le_trans)
  then show ?thesis using assms by (force simp: level_def)
qed

lemma level_Suc_empty: "level ns (Suc k) = {} \<Longrightarrow> level ns (Suc (Suc k)) = {}"
proof -
  have "butlast s \<in> level ns (Suc k)" if "s \<in> level ns (Suc (Suc k))" for s
  proof -
    from that have "s \<noteq> []" by (auto simp: level_def)
    then have "s = butlast s @ [last s]" by simp
    then have "ascending (butlast s)" using that by (metis (mono_tags, lifting) level_def mem_Collect_eq sorted_wrt_append)
    then show ?thesis using that by (auto simp: level_def dest: in_set_butlastD)
  qed
  then show "level ns (Suc k) = {} \<Longrightarrow> ?thesis" by blast
qed

lemma ascending_snoc: "ascending (s @ [x]) \<longleftrightarrow> ascending s \<and> (\<forall>y \<in> set s. y < x)"
  by (auto simp: sorted_wrt_append)

lemma set_AddSuperSets:
  assumes "set cur = level ns (Suc k)"
  shows "set (AddSuperSets cur ns) = level ns (Suc (Suc k))"
proof -
  have above: "\<not> x \<le> Max (set s) \<and> x \<notin> set s \<longleftrightarrow> (\<forall>y \<in> set s. y < x)" if "s \<in> level ns (Suc k)" for s x
  proof -
    have "s \<noteq> []" using that by (auto simp: level_def)
    then show ?thesis by (auto simp: not_le)
  qed
  have "set (AddSuperSets cur ns) =
      {s @ [x] | s x. s \<in> level ns (Suc k) \<and> x \<in> set ns \<and> (\<forall>y \<in> set s. y < x)}"
    unfolding AddSuperSets_def using above by (auto simp: assms)
  also have "\<dots> = level ns (Suc (Suc k))"
  proof (intro set_eqI iffI)
    fix t assume "t \<in> level ns (Suc (Suc k))"
    then have "t \<noteq> []" by (auto simp: level_def)
    then obtain s x where "t = s @ [x]" by (metis append_butlast_last_id)
    then show "t \<in> {s @ [x] | s x. s \<in> level ns (Suc k) \<and> x \<in> set ns \<and> (\<forall>y \<in> set s. y < x)}"
      using \<open>t \<in> level ns (Suc (Suc k))\<close> by (auto simp: level_def ascending_snoc)
  qed (auto simp: level_def ascending_snoc)
  finally show ?thesis .
qed

lemma distinct_AddSuperSets:
  assumes "distinct cur" "distinct ns"
  shows "distinct (AddSuperSets cur ns)"
  using assms by (induction cur) (auto simp: AddSuperSets_def distinct_map inj_on_def)

lemma super_sets_loop_levels:
  assumes "set added = level ns (Suc k)" "distinct added" "distinct ns" "length ns \<le> Suc k + fuel"
  shows "set (super_sets_loop fuel added ns) = (\<Union>j \<in> {Suc k<..}. level ns j) \<and>
    distinct (super_sets_loop fuel added ns) \<and> sorted (map length (super_sets_loop fuel added ns))"
  using assms
proof (induction fuel arbitrary: k added)
  case 0
  then show ?case using level_empty [of ns] by (auto intro!: UN_I)
next
  case (Suc fuel)
  let ?next = "AddSuperSets added ns"
  have nxt: "set ?next = level ns (Suc (Suc k))" "distinct ?next"
    using set_AddSuperSets [OF Suc.prems(1)] distinct_AddSuperSets Suc.prems by auto
  have up: "(\<Union>j \<in> {Suc k<..}. level ns j) = level ns (Suc (Suc k)) \<union> (\<Union>j \<in> {Suc (Suc k)<..}. level ns j)"
  proof -
    have "{Suc k<..} = insert (Suc (Suc k)) {Suc (Suc k)<..}" by auto
    then show ?thesis by simp
  qed
  show ?case
  proof (cases "?next = []")
    case True
    then have "level ns (Suc (Suc k)) = {}" using nxt by simp
    then have "level ns (Suc (Suc k + i)) = {}" for i
      by (induction i) (simp_all add: level_Suc_empty)
    then have "level ns j = {}" if "Suc k < j" for j
      using that by (metis Suc_diff_le add_diff_inverse_nat diff_Suc_Suc less_imp_le_nat not_less_eq less_imp_Suc_add add_Suc)
    then show ?thesis using True by auto
  next
    case False
    have IH: "set (super_sets_loop fuel ?next ns) = (\<Union>j \<in> {Suc (Suc k)<..}. level ns j)"
      "distinct (super_sets_loop fuel ?next ns)" "sorted (map length (super_sets_loop fuel ?next ns))"
      using Suc.IH [OF nxt] Suc.prems by auto
    have len: "s \<in> level ns j \<Longrightarrow> length s = j" for s j by (simp add: level_def)
    have same: "\<forall>s \<in> set xs. length s = j \<Longrightarrow> sorted (map length xs)" for xs :: "nat list list" and j
      by (induction xs) auto
    have "sorted (map length ?next)" using nxt(1) by (intro same [of _ "Suc (Suc k)"]) (simp add: level_def)
    then show ?thesis using False IH nxt
      by (auto simp: up Let_def sorted_append dest!: len)
  qed
qed

text \<open>All non-empty sets, each once, in the order of their sizes.\<close>

lemma GetAllNeighborSets_sets:
  assumes "distinct ns"
  shows "set (GetAllNeighborSets ns) = {s. s \<noteq> [] \<and> ascending s \<and> set s \<subseteq> set ns}"
    and "small_first (GetAllNeighborSets ns)"
proof -
  let ?ns = "sort ns" and ?singles = "map (\<lambda>n. [n]) (sort ns)"
  have one: "set ?singles = level ?ns (Suc 0)"
    by (auto simp: level_def length_Suc_conv)
  have d: "distinct ?singles" "distinct ?ns" using assms by (simp_all add: distinct_map inj_on_def)
  note loop = super_sets_loop_levels [OF one d, of "length ns"]
  have union: "level ?ns (Suc 0) \<union> (\<Union>j \<in> {Suc 0<..}. level ?ns j) = {s. s \<noteq> [] \<and> ascending s \<and> set s \<subseteq> set ns}"
    by (auto simp: level_def) (metis Suc_lessI length_greater_0_conv)
  have all: "GetAllNeighborSets ns = ?singles @ super_sets_loop (length ns) ?singles ?ns"
    by (simp add: GetAllNeighborSets_def Let_def)
  show set_all: "set (GetAllNeighborSets ns) = {s. s \<noteq> [] \<and> ascending s \<and> set s \<subseteq> set ns}"
    unfolding all set_append using loop one union by simp
  have "distinct (GetAllNeighborSets ns)" and len: "sorted (map length (GetAllNeighborSets ns))"
    using loop one d by (auto simp: all level_def sorted_append sorted_wrt_map)
  then have "sorted_wrt (\<lambda>A B. A \<noteq> B \<and> length A \<le> length B) (GetAllNeighborSets ns)"
    by (auto simp: sorted_wrt_iff_nth_less sorted_iff_nth_mono_less distinct_conv_nth)
  then show "small_first (GetAllNeighborSets ns)"
  proof (rule sorted_wrt_impI)
    fix A B assume AB: "A \<in> set (GetAllNeighborSets ns)" "B \<in> set (GetAllNeighborSets ns)"
      "A \<noteq> B \<and> length A \<le> length B"
    then have asc: "ascending A" "ascending B" by (auto simp: set_all)
    show "\<not> set B \<subseteq> set A"
    proof
      assume "set B \<subseteq> set A"
      moreover have "card (set A) \<le> card (set B)"
        using AB(3) asc by (simp add: ascending_distinct distinct_card)
      ultimately have "set A = set B" by (metis List.finite_set card_seteq)
      then show False using AB(3) asc ascending_eq by blast
    qed
  qed
qed

section \<open>The traversal\<close>

text \<open>The sets that the recursions visit, in order.\<close>

definition neighbor_unions :: "QueryEdge \<Rightarrow> JoinRelationSet \<Rightarrow> nat set \<Rightarrow> JoinRelationSet list" where
  "neighbor_unions g S X = map (\<lambda>s. join_union S (relation_set s)) (GetAllNeighborSets (GetNeighbors g S X))"

fun csg_rec :: "nat \<Rightarrow> QueryEdge \<Rightarrow> JoinRelationSet \<Rightarrow> nat set \<Rightarrow> JoinRelationSet list" where
  "csg_rec 0 g S X = []"
| "csg_rec (Suc fuel) g S X =
     (if GetNeighbors g S X = [] then []
      else neighbor_unions g S X @
           concat (map (\<lambda>u. csg_rec fuel g u (X \<union> set (GetNeighbors g S X))) (neighbor_unions g S X)))"

text \<open>The connected extensions of \<open>S\<close> that avoid \<open>X\<close>.\<close>

definition extensions :: "nat \<Rightarrow> QueryEdge \<Rightarrow> JoinRelationSet \<Rightarrow> nat set \<Rightarrow> JoinRelationSet set" where
  "extensions n g S X =
     {T. ascending T \<and> conn g (set T) \<and> set S \<subset> set T \<and> set T \<subseteq> {..<n} \<and> (set T - set S) \<inter> X = {}}"

text \<open>A start of the recursion: a connected set inside the exclusion set.\<close>

definition start :: "nat \<Rightarrow> QueryEdge \<Rightarrow> JoinRelationSet \<Rightarrow> nat set \<Rightarrow> bool" where
  "start n g S X \<longleftrightarrow>
     simple_graph n g \<and> ascending S \<and> conn g (set S) \<and> set S \<subseteq> {..<n} \<and> set S \<subseteq> X"

abbreviation N :: "QueryEdge \<Rightarrow> JoinRelationSet \<Rightarrow> nat set \<Rightarrow> nat set" where
  "N g S X \<equiv> set (GetNeighbors g S X)"

lemma N_iff: "start n g S X \<Longrightarrow> v \<in> N g S X \<longleftrightarrow> (\<exists>u \<in> set S. adj g u v) \<and> v \<notin> X"
  by (simp add: start_def GetNeighbors_simple [of n])

lemma N_range: assumes "start n g S X" shows "N g S X \<subseteq> {..<n} - X"
proof
  fix v assume "v \<in> N g S X"
  then obtain u where "adj g u v" "v \<notin> X" using assms by (auto simp: N_iff)
  then show "v \<in> {..<n} - X" using adjD assms unfolding start_def by blast
qed

lemma N_fuel: "start n g S X \<Longrightarrow> N g S X \<noteq> {} \<Longrightarrow> card ({..<n} - (X \<union> N g S X)) < card ({..<n} - X)"
proof (rule psubset_card_mono)
  assume "start n g S X" "N g S X \<noteq> {}"
  then obtain v where "v \<in> N g S X" "v \<in> {..<n} - X" using N_range [of n g S X] by (metis all_not_in_conv subsetD)
  then show "{..<n} - (X \<union> N g S X) \<subset> {..<n} - X" by blast
qed simp

lemma unions_iff:
  assumes "start n g S X"
  shows "u \<in> set (neighbor_unions g S X) \<longleftrightarrow>
    ascending u \<and> (\<exists>A. A \<noteq> {} \<and> A \<subseteq> N g S X \<and> set u = set S \<union> A)"
proof
  assume "u \<in> set (neighbor_unions g S X)"
  then obtain s where s: "s \<noteq> []" "ascending s" "set s \<subseteq> N g S X" "u = join_union S (relation_set s)"
    by (auto simp: neighbor_unions_def GetAllNeighborSets_sets)
  have "ascending u"
    unfolding s(4) using assms s(2) by (auto simp: start_def ascending_sort ascending_distinct intro!: ascending_join_union)
  then show "ascending u \<and> (\<exists>A. A \<noteq> {} \<and> A \<subseteq> N g S X \<and> set u = set S \<union> A)"
    using s by (auto intro!: exI [of _ "set s"])
next
  assume "ascending u \<and> (\<exists>A. A \<noteq> {} \<and> A \<subseteq> N g S X \<and> set u = set S \<union> A)"
  then obtain A where A: "ascending u" "A \<noteq> {}" "A \<subseteq> N g S X" "set u = set S \<union> A" by blast
  have fin: "finite A" using A(3) by (metis List.finite_set finite_subset)
  let ?s = "sorted_list_of_set A"
  have s: "?s \<in> set (GetAllNeighborSets (GetNeighbors g S X))"
    using A fin by (auto simp: GetAllNeighborSets_sets)
  moreover have "u = join_union S (relation_set ?s)"
  proof (rule ascending_eq)
    show "ascending (join_union S (relation_set ?s))"
      using assms fin by (intro ascending_join_union ascending_sort) (auto simp: start_def)
  qed (use A fin in auto)
  ultimately show "u \<in> set (neighbor_unions g S X)" by (auto simp: neighbor_unions_def)
qed

lemma unions_start:
  assumes "start n g S X" "u \<in> set (neighbor_unions g S X)"
  shows "start n g u (X \<union> N g S X)" and "u \<in> extensions n g S X"
proof -
  obtain A where A: "ascending u" "A \<noteq> {}" "A \<subseteq> N g S X" "set u = set S \<union> A"
    using iffD1 [OF unions_iff [OF assms(1)] assms(2)] by metis
  have "conn g (set S \<union> A)"
  proof (rule conn_extend)
    show "simple_graph n g" "conn g (set S)" using assms(1) by (simp_all add: start_def)
  qed (use A(3) assms(1) in \<open>auto simp: N_iff\<close>)
  moreover have "set u \<subseteq> {..<n}" "set u \<subseteq> X \<union> N g S X" "set S \<subset> set u" "(set u - set S) \<inter> X = {}"
    using A assms(1) N_range [OF assms(1)] unfolding start_def by blast+
  ultimately show "start n g u (X \<union> N g S X)" "u \<in> extensions n g S X"
    using A assms(1) by (simp_all add: start_def extensions_def)
qed

lemma unions_order:
  assumes "start n g S X"
  shows "small_first (neighbor_unions g S X)"
proof -
  have "sorted_wrt (\<lambda>s t. \<not> set (join_union S (relation_set t)) \<subseteq> set (join_union S (relation_set s)))
      (GetAllNeighborSets (GetNeighbors g S X))"
  proof (rule sorted_wrt_impI [OF GetAllNeighborSets_sets(2)])
    fix s t assume st: "s \<in> set (GetAllNeighborSets (GetNeighbors g S X))"
      "t \<in> set (GetAllNeighborSets (GetNeighbors g S X))" "\<not> set t \<subseteq> set s"
    then have "set t \<subseteq> N g S X" by (auto simp: GetAllNeighborSets_sets)
    then have "set t \<inter> set S = {}" using N_range [OF assms] assms by (auto simp: start_def)
    then show "\<not> set (join_union S (relation_set t)) \<subseteq> set (join_union S (relation_set s))"
      using st(3) by auto
  qed simp
  then show ?thesis by (simp add: neighbor_unions_def sorted_wrt_map)
qed

lemma csg_rec_sound:
  "start n g S X \<Longrightarrow> T \<in> set (csg_rec fuel g S X) \<Longrightarrow> T \<in> extensions n g S X"
proof (induction fuel arbitrary: S X)
  case (Suc fuel)
  show ?case
  proof (cases "T \<in> set (neighbor_unions g S X)")
    case True
    then show ?thesis using unions_start Suc.prems(1) by blast
  next
    case False
    then obtain u where u: "u \<in> set (neighbor_unions g S X)" "T \<in> set (csg_rec fuel g u (X \<union> N g S X))"
      using Suc.prems(2) by (auto split: if_splits)
    note st = unions_start [OF Suc.prems(1) u(1)]
    have "T \<in> extensions n g u (X \<union> N g S X)" using Suc.IH [OF st(1) u(2)] .
    then show ?thesis using st(2) by (auto simp: extensions_def)
  qed
qed simp

lemma csg_rec_complete:
  "start n g S X \<Longrightarrow> card ({..<n} - X) < fuel \<Longrightarrow> T \<in> extensions n g S X \<Longrightarrow> T \<in> set (csg_rec fuel g S X)"
proof (induction fuel arbitrary: S X)
  case (Suc fuel)
  have T: "ascending T" "conn g (set T)" "set S \<subset> set T" "set T \<subseteq> {..<n}" "(set T - set S) \<inter> X = {}"
    using Suc.prems(3) by (simp_all add: extensions_def)
  have "set S \<noteq> {}" using Suc.prems(1) by (simp add: start_def conn_def)
  then obtain u v where "u \<in> set S" "v \<in> set T - set S" "adj g u v"
    using conn_cut [OF T(2), of "set S"] T(3) by blast
  then have v: "v \<in> set T \<inter> N g S X" using T(5) N_iff [OF Suc.prems(1)] by blast
  have fin: "finite (set S \<union> set T \<inter> N g S X)" by simp
  define U where "U = sorted_list_of_set (set S \<union> set T \<inter> N g S X)"
  have U: "ascending U" "set U = set S \<union> set T \<inter> N g S X" by (simp_all add: U_def)
  have Uin: "U \<in> set (neighbor_unions g S X)"
    using v U by (auto simp: unions_iff [OF Suc.prems(1)] intro!: exI [of _ "set T \<inter> N g S X"])
  have ne: "GetNeighbors g S X \<noteq> []" using v by auto
  show ?case
  proof (cases "U = T")
    case True
    then show ?thesis using Uin ne by auto
  next
    case False
    then have "set U \<subset> set T" using ascending_eq [OF U(1) T(1)] U(2) T(3) by auto
    then have "T \<in> extensions n g U (X \<union> N g S X)" using T U by (auto simp: extensions_def)
    moreover have "card ({..<n} - (X \<union> N g S X)) < fuel"
      using N_fuel [OF Suc.prems(1)] Suc.prems(2) v by (metis Int_iff empty_iff less_Suc_eq_le order_less_le_trans)
    ultimately have "T \<in> set (csg_rec fuel g U (X \<union> N g S X))"
      using Suc.IH unions_start [OF Suc.prems(1) Uin] by blast
    then show ?thesis using Uin ne by auto
  qed
qed simp

lemma csg_rec_order:
  "start n g S X \<Longrightarrow> small_first (csg_rec fuel g S X)"
proof (induction fuel arbitrary: S X)
  case (Suc fuel)
  let ?us = "neighbor_unions g S X" and ?h = "\<lambda>u. csg_rec fuel g u (X \<union> N g S X)"
  note st = Suc.prems
  have ext: "set u \<subset> set T \<and> (set T - set u) \<inter> (X \<union> N g S X) = {}"
    if "u \<in> set ?us" "T \<in> set (?h u)" for u T
    using csg_rec_sound [OF unions_start(1) [OF st that(1)] that(2)] by (auto simp: extensions_def)
  have sub: "set u \<subseteq> set S \<union> N g S X" "set S \<subseteq> set u" if "u \<in> set ?us" for u
    using unions_iff [OF st] that by auto
  have "small_first (concat (map ?h ?us))"
  proof (rule sorted_wrt_concat_map)
    show "small_first (?h u)" if "u \<in> set ?us" for u
      using Suc.IH unions_start [OF st that] by blast
    show "sorted_wrt (\<lambda>u u'. \<forall>x \<in> set (?h u). \<forall>y \<in> set (?h u'). \<not> set y \<subseteq> set x) ?us"
    proof (rule sorted_wrt_impI [OF unions_order [OF st]], intro ballI notI)
      fix u u' x y
      assume u: "u \<in> set ?us" "u' \<in> set ?us" "\<not> set u' \<subseteq> set u" "x \<in> set (?h u)" "y \<in> set (?h u')" "set y \<subseteq> set x"
      have "set u' \<subseteq> set u"
        using ext [OF u(2,5)] ext [OF u(1,4)] sub [OF u(1)] sub [OF u(2)] u(6) by blast
      then show False using u(3) by simp
    qed
  qed
  moreover have "\<not> set y \<subseteq> set u'" if "u' \<in> set ?us" "u \<in> set ?us" "y \<in> set (?h u)" for u u' y
    using ext [OF that(2,3)] sub [OF that(1)] sub [OF that(2)] st unfolding start_def by blast
  ultimately show ?case
    using unions_order [OF st] by (auto simp: sorted_wrt_append)
qed simp

end
