(* ===== verification/Csg_Traversal.thy ===== *)
theory Csg_Traversal
  imports Csg_Order
begin

text \<open>
  The exact enumeration as loops over lists of sets. \<open>exact_order\<close> lists the connected sets in
  the order in which \<open>SolveJoinOrderExactly\<close> emits them, \<open>cmp_order\<close> the complements that
  \<open>EmitCSG\<close> pairs with one of them.
\<close>

section \<open>The recursions are loops\<close>

lemma sx_all_append: "sx_all f (xs @ ys) = sx_bind (sx_all f xs) (\<lambda>b. if b then sx_all f ys else sx_ret False)"
proof (induction xs)
  case Nil
  then show ?case by (simp add: fun_eq_iff sx_bind_prim)
next
  case (Cons x xs)
  then show ?case by (auto simp: fun_eq_iff sx_bind_unfold sx_eval split: sum.split)
qed

lemma sx_all_concat: "sx_all (\<lambda>u. sx_all f (h u)) us = sx_all f (concat (map h us))"
  by (induction us) (simp_all add: sx_all_append cong: if_cong)

lemma sx_all_cong: "xs = ys \<Longrightarrow> (\<And>x. x \<in> set ys \<Longrightarrow> f x = f' x) \<Longrightarrow> sx_all f xs = sx_all f' ys"
  by (induction ys arbitrary: xs) (auto cong: if_cong)

text \<open>
  The shape that \<open>EnumerateCmpRecursive\<close> and \<open>EnumerateCSGRecursive\<close> share: \<open>R\<close> is the recursion
  and \<open>visit\<close> what it does with a set.
\<close>

locale csg_recursion =
  fixes g :: QueryEdge
    and R :: "nat \<Rightarrow> JoinRelationSet \<Rightarrow> nat set \<Rightarrow> bool planx"
    and visit :: "JoinRelationSet \<Rightarrow> bool planx"
  assumes step: "R (Suc fuel) S X =
    (if GetNeighbors g S X = [] then sx_ret True
     else sx_bind (sx_all visit (neighbor_unions g S X)) (\<lambda>b.
       if b then sx_all (\<lambda>u. R fuel u (X \<union> set (GetNeighbors g S X))) (neighbor_unions g S X)
       else sx_ret False))"
begin

lemma traversal:
  "start n g S X \<Longrightarrow> card ({..<n} - X) < fuel \<Longrightarrow> R fuel S X = sx_all visit (csg_rec fuel g S X)"
proof (induction fuel arbitrary: S X)
  case (Suc fuel)
  let ?X = "X \<union> set (GetNeighbors g S X)"
  show ?case
  proof (cases "GetNeighbors g S X = []")
    case False
    then have "card ({..<n} - ?X) < fuel" using N_fuel [OF Suc.prems(1)] Suc.prems(2) by simp
    then have "sx_all (\<lambda>u. R fuel u ?X) (neighbor_unions g S X) =
        sx_all (\<lambda>u. sx_all visit (csg_rec fuel g u ?X)) (neighbor_unions g S X)"
      using Suc.IH unions_start(1) [OF Suc.prems(1)] by (intro sx_all_cong) auto
    then show ?thesis using False by (simp add: step sx_all_append sx_all_concat cong: if_cong)
  qed (simp add: step)
qed simp

end

interpretation cmp: csg_recursion g "\<lambda>fuel. EnumerateCmpRecursive fuel pl g left" "emit_planned pl g left" for g pl left
  by unfold_locales (simp add: Let_def neighbor_unions_def cong: if_cong)

interpretation csg: csg_recursion g "\<lambda>fuel. EnumerateCSGRecursive fuel pl g" "emit_csg_planned pl g" for g pl
  by unfold_locales (simp add: Let_def neighbor_unions_def cong: if_cong)

section \<open>Complements of a set\<close>

fun cmp_loop :: "nat \<Rightarrow> QueryEdge \<Rightarrow> nat list \<Rightarrow> nat set \<Rightarrow> JoinRelationSet list" where
  "cmp_loop n g [] X = []"
| "cmp_loop n g (x # xs) X = ([x] # csg_rec (Suc n) g [x] X) @ cmp_loop n g xs (X - {x})"

definition cmp_order :: "nat \<Rightarrow> QueryEdge \<Rightarrow> JoinRelationSet \<Rightarrow> JoinRelationSet list" where
  "cmp_order n g C =
     (let X = {..<hd C} \<union> set C; ns = GetNeighbors g C X
      in cmp_loop n g (rev (sort ns)) (X \<union> set ns))"

text \<open>The connected sets of relations.\<close>

definition csgs :: "nat \<Rightarrow> QueryEdge \<Rightarrow> JoinRelationSet set" where
  "csgs n g = {S. ascending S \<and> conn g (set S) \<and> set S \<subseteq> {..<n}}"

lemma start_single: "simple_graph n g \<Longrightarrow> x < n \<Longrightarrow> x \<in> X \<Longrightarrow> start n g [x] X"
  by (simp add: start_def)

lemma fuel_enough: "card ({..<n} - X) < Suc n"
  by (metis card_lessThan card_mono Diff_subset finite_lessThan less_Suc_eq_le)

lemma csg_block:
  assumes "simple_graph n g" "x < n" "x \<in> X"
  shows "set ([x] # csg_rec (Suc n) g [x] X) = {T \<in> csgs n g. set T \<inter> X = {x}}"
    and "small_first ([x] # csg_rec (Suc n) g [x] X)"
proof -
  note st = start_single [OF assms]
  have rec: "T \<in> set (csg_rec (Suc n) g [x] X) \<longleftrightarrow> T \<in> extensions n g [x] X" for T
    using csg_rec_sound [OF st] csg_rec_complete [OF st fuel_enough] by blast
  have "T = [x] \<longleftrightarrow> set T = {x}" if "ascending T" for T
    using ascending_eq [OF that, of "[x]"] by auto
  then show "set ([x] # csg_rec (Suc n) g [x] X) = {T \<in> csgs n g. set T \<inter> X = {x}}"
    using assms by (auto simp: rec extensions_def csgs_def simp del: csg_rec.simps)
  show "small_first ([x] # csg_rec (Suc n) g [x] X)"
    using csg_rec_order [OF st, of "Suc n"] rec by (auto simp: extensions_def simp del: csg_rec.simps)
qed

lemma small_first_distinct: "small_first xs \<Longrightarrow> distinct xs"
  by (induction xs) auto

lemma cmp_loop_sets:
  assumes "simple_graph n g"
  shows "distinct xs \<Longrightarrow> set xs \<subseteq> {..<n} \<Longrightarrow> set xs \<inter> X = {} \<Longrightarrow>
    set (cmp_loop n g xs (X \<union> set xs)) = {T \<in> csgs n g. set T \<inter> X = {} \<and> set T \<inter> set xs \<noteq> {}} \<and>
    distinct (cmp_loop n g xs (X \<union> set xs))"
proof (induction xs)
  case (Cons x xs)
  let ?X = "X \<union> set (x # xs)" and ?block = "[x] # csg_rec (Suc n) g [x] (X \<union> set (x # xs))"
  have "?X - {x} = X \<union> set xs" using Cons.prems by auto
  then have split: "cmp_loop n g (x # xs) ?X = ?block @ cmp_loop n g xs (X \<union> set xs)" by simp
  have IH: "set (cmp_loop n g xs (X \<union> set xs)) = {T \<in> csgs n g. set T \<inter> X = {} \<and> set T \<inter> set xs \<noteq> {}}"
    "distinct (cmp_loop n g xs (X \<union> set xs))" using Cons by auto
  have block: "set ?block = {T \<in> csgs n g. set T \<inter> ?X = {x}}" "distinct ?block"
    using csg_block [OF assms, of x ?X] Cons.prems small_first_distinct by (auto simp del: csg_rec.simps)
  have "x \<notin> X" "x \<notin> set xs" using Cons.prems by auto
  then have "set ?block \<union> {T \<in> csgs n g. set T \<inter> X = {} \<and> set T \<inter> set xs \<noteq> {}} =
      {T \<in> csgs n g. set T \<inter> X = {} \<and> set T \<inter> set (x # xs) \<noteq> {}}"
    "set ?block \<inter> {T \<in> csgs n g. set T \<inter> X = {} \<and> set T \<inter> set xs \<noteq> {}} = {}"
    unfolding block by auto
  then show ?case using IH block(2) unfolding split by (simp del: csg_rec.simps)
qed simp

text \<open>The complements: connected, disjoint, linked, with larger relations only.\<close>

definition complements :: "nat \<Rightarrow> QueryEdge \<Rightarrow> JoinRelationSet \<Rightarrow> JoinRelationSet set" where
  "complements n g C = {D \<in> csgs n g. set D \<inter> set C = {} \<and> hd C < hd D \<and> linked g (set C) (set D)}"

lemma csgs_hd: "S \<in> csgs n g \<Longrightarrow> S \<noteq> [] \<and> hd S \<in> set S \<and> (\<forall>x \<in> set S. hd S \<le> x)"
  by (cases S) (auto simp: csgs_def conn_def intro: less_imp_le)

lemma cmp_order_sets:
  assumes "simple_graph n g" "C \<in> csgs n g"
  shows "set (cmp_order n g C) = complements n g C \<and> distinct (cmp_order n g C)"
proof -
  let ?X = "{..<hd C} \<union> set C" and ?ns = "GetNeighbors g C ({..<hd C} \<union> set C)"
  have asc: "ascending C" using assms(2) by (simp add: csgs_def)
  have ns: "set ?ns = {v. \<exists>u \<in> set C. adj g u v} - ?X"
    by (rule GetNeighbors_simple [OF assms(1) asc])
  then have range: "set ?ns \<subseteq> {..<n}" using adjD [OF assms(1)] by auto
  have loop: "set (cmp_order n g C) = {T \<in> csgs n g. set T \<inter> ?X = {} \<and> set T \<inter> set ?ns \<noteq> {}} \<and>
      distinct (cmp_order n g C)"
    using cmp_loop_sets [OF assms(1), of "rev (sort ?ns)" ?X] range ns by (simp add: cmp_order_def Let_def Int_commute)
  moreover have "set T \<inter> ?X = {} \<and> set T \<inter> set ?ns \<noteq> {} \<longleftrightarrow>
      set T \<inter> set C = {} \<and> hd C < hd T \<and> linked g (set C) (set T)" if "T \<in> csgs n g" for T
  proof -
    have "set T \<inter> {..<hd C} = {} \<longleftrightarrow> hd C \<le> hd T"
      using csgs_hd [OF that] by (auto simp: disjoint_iff not_less intro: le_trans)
    moreover have "hd C = hd T \<Longrightarrow> set T \<inter> set C \<noteq> {}"
      using csgs_hd [OF that] csgs_hd [OF assms(2)] by auto
    ultimately have low: "set T \<inter> ?X = {} \<longleftrightarrow> set T \<inter> set C = {} \<and> hd C < hd T" by fastforce
    have "set T \<inter> ?X = {} \<Longrightarrow> set T \<inter> set ?ns \<noteq> {} \<longleftrightarrow> linked g (set C) (set T)"
      unfolding ns linked_def by blast
    then show ?thesis using low by blast
  qed
  ultimately show ?thesis by (auto simp: complements_def)
qed

section \<open>All connected sets\<close>

definition exact_order :: "nat \<Rightarrow> QueryEdge \<Rightarrow> JoinRelationSet list" where
  "exact_order n g = concat (map (\<lambda>i. [i] # csg_rec (Suc n) g [i] {..i}) (rev [0..<n]))"

text \<open>The sets whose plans must be final before \<open>C\<close> is emitted.\<close>

definition needed :: "JoinRelationSet \<Rightarrow> JoinRelationSet \<Rightarrow> bool" where
  "needed C B \<longleftrightarrow> hd C < hd B \<or> hd C = hd B \<and> set B \<subseteq> set C"

lemma exact_block:
  assumes "simple_graph n g" "i < n"
  shows "set ([i] # csg_rec (Suc n) g [i] {..i}) = {T \<in> csgs n g. hd T = i}"
proof -
  have "set T \<inter> {..i} = {i} \<longleftrightarrow> hd T = i" if "T \<in> csgs n g" for T
  proof
    assume "set T \<inter> {..i} = {i}"
    then show "hd T = i" using csgs_hd [OF that] by (metis Int_iff atMost_iff order_antisym singletonD insertI1)
  next
    assume "hd T = i"
    then show "set T \<inter> {..i} = {i}" using csgs_hd [OF that] by auto
  qed
  then show ?thesis using csg_block(1) [OF assms, of "{..i}"] by auto
qed

lemma exact_order_sets:
  assumes "simple_graph n g"
  shows "set (exact_order n g) = csgs n g" and "sorted_wrt (\<lambda>A B. \<not> needed A B) (exact_order n g)"
proof -
  let ?block = "\<lambda>i. [i] # csg_rec (Suc n) g [i] {..i}"
  have block: "set (?block i) = {T \<in> csgs n g. hd T = i}" if "i < n" for i
    using exact_block [OF assms that] .
  have "hd T < n" if "T \<in> csgs n g" for T
    using csgs_hd [OF that] that by (auto simp: csgs_def)
  then show "set (exact_order n g) = csgs n g"
    by (auto simp: exact_order_def block simp del: csg_rec.simps list.set(2))
  have "sorted_wrt (\<lambda>A B. \<not> needed A B) (concat (map ?block (rev [0..<n])))"
  proof (rule sorted_wrt_concat_map)
    fix i assume "i \<in> set (rev [0..<n])"
    then have i: "i < n" by simp
    show "sorted_wrt (\<lambda>A B. \<not> needed A B) (?block i)"
    proof (rule sorted_wrt_impI)
      show "small_first (?block i)" using csg_block(2) [OF assms i, of "{..i}"] by simp
      show "\<not> needed A B" if "A \<in> set (?block i)" "B \<in> set (?block i)" "\<not> set B \<subseteq> set A" for A B
        using that unfolding block [OF i] by (auto simp: needed_def)
    qed
  next
    have "sorted_wrt (\<lambda>i j. j < i) (rev [0..<n])" by (simp add: sorted_wrt_rev)
    then show "sorted_wrt (\<lambda>i j. \<forall>A \<in> set (?block i). \<forall>B \<in> set (?block j). \<not> needed A B) (rev [0..<n])"
    proof (rule sorted_wrt_impI)
      fix i j assume "i \<in> set (rev [0..<n])" "j \<in> set (rev [0..<n])" "j < i"
      then show "\<forall>A \<in> set (?block i). \<forall>B \<in> set (?block j). \<not> needed A B"
        using block [of i] block [of j] by (auto simp: needed_def simp del: csg_rec.simps list.set(2))
    qed
  qed
  then show "sorted_wrt (\<lambda>A B. \<not> needed A B) (exact_order n g)" by (simp add: exact_order_def)
qed

lemma exact_order_before:
  assumes "simple_graph n g" "exact_order n g = before @ C # after"
    and "B \<in> csgs n g" "B \<noteq> C" "needed C B"
  shows "B \<in> set before"
proof -
  have "B \<in> set (before @ C # after)" "sorted_wrt (\<lambda>A B. \<not> needed A B) (before @ C # after)"
    using exact_order_sets [OF assms(1)] assms(3) unfolding assms(2) by simp_all
  then show ?thesis using sorted_wrt_split assms(4,5) by metis
qed

end
