(* ===== verification/JoinTree.thy ===== *)
theory JoinTree
  imports Csg_Traversal
begin

text \<open>
  What the plan enumerator is for: join trees without cross products and the sum of the
  cardinalities of their joins, the cost that \<open>ComputeCost\<close> accumulates.
\<close>

datatype jtree = Relation nat | Join jtree jtree

fun rels :: "jtree \<Rightarrow> nat set" where
  "rels (Relation v) = {v}"
| "rels (Join l r) = rels l \<union> rels r"

text \<open>The two sides of every join are disjoint and in the relation \<open>lk\<close>.\<close>

fun joins :: "(nat set \<Rightarrow> nat set \<Rightarrow> bool) \<Rightarrow> jtree \<Rightarrow> bool" where
  "joins lk (Relation v) \<longleftrightarrow> True"
| "joins lk (Join l r) \<longleftrightarrow> joins lk l \<and> joins lk r \<and> rels l \<inter> rels r = {} \<and> lk (rels l) (rels r)"

abbreviation tree_ok :: "QueryEdge \<Rightarrow> jtree \<Rightarrow> bool" where
  "tree_ok g \<equiv> joins (linked g)"

fun C_out :: "(JoinRelationSet \<Rightarrow> real) \<Rightarrow> jtree \<Rightarrow> real" where
  "C_out f (Relation v) = 0"
| "C_out f (Join l r) = f (sorted_list_of_set (rels l \<union> rels r)) + C_out f l + C_out f r"

text \<open>The tree that the plans describe.\<close>

inductive plan_tree :: "(JoinRelationSet \<Rightarrow> DPJoinNode option) \<Rightarrow> JoinRelationSet \<Rightarrow> jtree \<Rightarrow> bool" for plans where
  leaf: "plans [v] = Some p \<Longrightarrow> n_is_leaf p \<Longrightarrow> plan_tree plans [v] (Relation v)"
| join: "plans S = Some p \<Longrightarrow> \<not> n_is_leaf p \<Longrightarrow> plan_tree plans (n_left_set p) l \<Longrightarrow>
    plan_tree plans (n_right_set p) r \<Longrightarrow> plan_tree plans S (Join l r)"

lemma finite_rels [simp]: "finite (rels t)"
  by (induction t) auto

lemma rels_nonempty [simp]: "rels t \<noteq> {}"
  by (induction t) auto

lemma tree_conn: "simple_graph n g \<Longrightarrow> tree_ok g t \<Longrightarrow> conn g (rels t)"
  by (induction t) (auto intro: conn_join)

lemma tree_csgs: "simple_graph n g \<Longrightarrow> tree_ok g t \<Longrightarrow> rels t \<subseteq> {..<n} \<Longrightarrow> sorted_list_of_set (rels t) \<in> csgs n g"
  by (simp add: csgs_def tree_conn)

lemma single_tree: "tree_ok g t \<Longrightarrow> rels t = {v} \<Longrightarrow> t = Relation v"
proof (cases t)
  case (Join l r)
  moreover assume "tree_ok g t" "rels t = {v}"
  ultimately have "rels l \<subseteq> {v}" "rels r \<subseteq> {v}" "rels l \<inter> rels r = {}" by auto
  moreover from this have "rels l = {v}" "rels r = {v}" by (metis rels_nonempty subset_singletonD)+
  ultimately have False by simp
  then show ?thesis by simp
qed simp

lemma sorted_list_set: "ascending S \<Longrightarrow> sorted_list_of_set (set S) = S"
  by (simp add: ascending_distinct sorted_list_of_set_sort_remdups strict_sorted_imp_sorted sorted_sort_id distinct_remdups_id)

section \<open>Pairs of connected sets\<close>

definition ccps :: "nat \<Rightarrow> QueryEdge \<Rightarrow> (JoinRelationSet \<times> JoinRelationSet) set" where
  "ccps n g = (SIGMA C : csgs n g. complements n g C)"

lemma finite_csgs: "finite (csgs n g)"
proof (rule finite_subset)
  have "S \<in> csgs n g \<Longrightarrow> S = sorted_list_of_set (set S)" for S
    by (simp add: csgs_def sorted_list_set)
  then show "csgs n g \<subseteq> sorted_list_of_set ` Pow {..<n}" by (fastforce simp: csgs_def)
qed simp

lemma finite_ccps: "finite (ccps n g)"
  unfolding ccps_def using finite_csgs by (intro finite_SigmaI) (auto simp: complements_def)

lemma ccp_union:
  assumes "simple_graph n g" "(C, D) \<in> ccps n g"
  shows "join_union C D \<in> csgs n g" "2 \<le> length (join_union C D)" "hd (join_union C D) = hd C"
    "set C \<subset> set (join_union C D)"
proof -
  have C: "C \<in> csgs n g" and D: "D \<in> csgs n g" "set D \<inter> set C = {}" "hd C < hd D" "linked g (set C) (set D)"
    using assms(2) by (auto simp: ccps_def complements_def)
  have asc: "ascending C" "ascending D" and ne: "C \<noteq> []" "D \<noteq> []"
    using C D csgs_hd by (auto simp: csgs_def)
  then have ascU: "ascending (join_union C D)" by (simp add: ascending_join_union)
  show U: "join_union C D \<in> csgs n g"
    using C D ascU conn_join [OF assms(1) _ _ D(4)] by (auto simp: csgs_def)
  have "card (set (join_union C D)) = card (set C) + card (set D)"
    using D(2) by (simp add: card_Un_disjoint Int_commute)
  moreover have "0 < card (set C)" "0 < card (set D)" using ne by (auto simp: card_gt_0_iff)
  moreover have "length (join_union C D) = card (set (join_union C D))"
    using ascU by (simp only: ascending_distinct distinct_card)
  ultimately show "2 \<le> length (join_union C D)" by linarith
  have "hd D \<in> set D" "hd D \<notin> set C" using D(2) ne by (metis disjoint_iff list.set_sel(1))+
  then show "set C \<subset> set (join_union C D)" by auto
  show "hd (join_union C D) = hd C"
    using ne D(3) by (cases C; cases D) auto
qed

text \<open>Every connected set of two or more relations is the union of a pair.\<close>

lemma ccp_intro:
  assumes "A \<in> csgs n g" "B \<in> csgs n g" "set A \<inter> set B = {}" "linked g (set A) (set B)" "hd A < hd B"
  shows "(A, B) \<in> ccps n g"
  using assms by (auto simp: ccps_def complements_def)

lemma csg_has_pair:
  assumes g: "simple_graph n g" and S: "S \<in> csgs n g" "2 \<le> length S"
  obtains A B where "(A, B) \<in> ccps n g" "join_union A B = S"
proof -
  have S': "ascending S" "conn g (set S)" "set S \<subseteq> {..<n}" using S(1) by (simp_all add: csgs_def)
  note h = csgs_hd [OF S(1)]
  have "length S = card (set S)" using S'(1) by (simp only: ascending_distinct distinct_card)
  then have "set S \<noteq> {hd S}" using S(2) by auto
  then obtain A where A: "hd S \<in> A" "A \<subset> set S" "conn g A" "conn g (set S - A)" "linked g A (set S - A)"
    using conn_split [OF g S'(2), of "hd S"] h by auto
  have fin: "finite A" using A(2) by (meson finite_set psubset_imp_subset finite_subset)
  let ?A = "sorted_list_of_set A" and ?B = "sorted_list_of_set (set S - A)"
  have AB: "?A \<in> csgs n g" "?B \<in> csgs n g" using A S' fin by (auto simp: csgs_def)
  have "hd ?A = hd S" using csgs_hd [OF AB(1)] h A(1,2) fin by (auto intro!: antisym)
  moreover have "hd ?B \<noteq> hd S" "hd S \<le> hd ?B" using csgs_hd [OF AB(2)] h A(1) by auto
  ultimately have "(?A, ?B) \<in> ccps n g" using AB A(5) fin by (intro ccp_intro) auto
  moreover have "join_union ?A ?B = S"
    using A(2) S'(1) fin by (intro ascending_eq ascending_join_union) auto
  ultimately show ?thesis by (rule that)
qed

text \<open>The two sides of a join form a pair, in the order of their smallest relations.\<close>

lemma join_pair:
  assumes g: "simple_graph n g" and t: "tree_ok g (Join l r)" "rels (Join l r) \<subseteq> {..<n}"
  shows "(sorted_list_of_set (rels l), sorted_list_of_set (rels r)) \<in> ccps n g \<or>
    (sorted_list_of_set (rels r), sorted_list_of_set (rels l)) \<in> ccps n g"
proof -
  let ?l = "sorted_list_of_set (rels l)" and ?r = "sorted_list_of_set (rels r)"
  have lr: "?l \<in> csgs n g" "?r \<in> csgs n g" using t tree_csgs [OF g] by auto
  have "hd ?l \<in> rels l" "hd ?r \<in> rels r" using csgs_hd [OF lr(1)] csgs_hd [OF lr(2)] by auto
  then have "hd ?l \<noteq> hd ?r" using t(1) by auto
  then consider "hd ?l < hd ?r" | "hd ?r < hd ?l" by linarith
  then show ?thesis
    using lr t(1) linked_sym [OF g, of "rels l" "rels r"] by cases (auto intro!: ccp_intro)
qed

end
