(* ===== verification/StatSession.thy ===== *)
theory StatSession
  imports StatEstimate
begin

text \<open>
  Sessions of the estimator. The DuckDB optimizer runs one session per query:
  \<open>QueryGraphManager::Build\<close> calls \<open>PrepareEstimate\<close>, \<open>AddTable\<close> and (through
  \<open>CreateHyperGraphEdges\<close>) \<open>AddPredicate\<close>, the cost model calls \<open>EstimateCardinality\<close> for many
  sets of relations, and \<open>JoinOrderOptimizer::Optimize\<close> calls \<open>FinishEstimate\<close> at its end.
  An exception leaves \<open>Optimize\<close> before that call.
\<close>

section \<open>What an estimate may change\<close>

text \<open>The state without the records that an estimate writes.\<close>

definition est_view :: "StatisticManager \<Rightarrow> StatisticManager" where
  "est_view sm = sm\<lparr>sm_RecordingSubqueryTimes := Map.empty, sm_Subqueries := {},
     sm_RecordingSubqueryCards := Map.empty, sm_SubqueriesByMainQuery := Map.empty,
     sm_SingleQueries := {}, sm_relErr := [], sm_esetSizeCount := Map.empty\<rparr>"

definition same_view :: "StatisticManager \<Rightarrow> StatisticManager \<Rightarrow> bool" where
  "same_view s t \<longleftrightarrow> est_view s = est_view t"

interpretation est: frame same_view
  by unfold_locales (simp_all add: same_view_def)

lemma est_view_simps [simp]:
  "sm_statistics (est_view sm) = sm_statistics sm"
  "sm_attrEsets (est_view sm) = sm_attrEsets sm"
  "sm_tableName (est_view sm) = sm_tableName sm"
  "sm_columnName (est_view sm) = sm_columnName sm"
  "sm_tabelCard (est_view sm) = sm_tabelCard sm"
  "sm_filterString (est_view sm) = sm_filterString sm"
  "sm_relNDV (est_view sm) = sm_relNDV sm"
  "sm_AdjustRate (est_view sm) = sm_AdjustRate sm"
  "sm_PredicateAdjustRate (est_view sm) = sm_PredicateAdjustRate sm"
  "sm_IsRecordingSubquery (est_view sm) = sm_IsRecordingSubquery sm"
  "sm_IsRecordEstimateTime (est_view sm) = sm_IsRecordEstimateTime sm"
  "sm_IsRecordingSingleQuery (est_view sm) = sm_IsRecordingSingleQuery sm"
  "sm_UseSubqueryCard (est_view sm) = sm_UseSubqueryCard sm"
  "sm_UseSingleTableCard (est_view sm) = sm_UseSingleTableCard sm"
  "sm_subqueryCard (est_view sm) = sm_subqueryCard sm"
  "sm_singleQueryCard (est_view sm) = sm_singleQueryCard sm"
  "sm_IsCollectingRelErr (est_view sm) = sm_IsCollectingRelErr sm"
  "sm_CompressPrecision (est_view sm) = sm_CompressPrecision sm"
  "sm_realCard (est_view sm) = sm_realCard sm"
  "sm_prepared (est_view sm) = sm_prepared sm"
  "sm_EnableStarSplit (est_view sm) = sm_EnableStarSplit sm"
  "sm_MaxStarSize (est_view sm) = sm_MaxStarSize sm"
  "sm_PredMethod (est_view sm) = sm_PredMethod sm"
  by (simp_all add: est_view_def)

text \<open>A read that does not look at the records gives the same on states with one view.\<close>

definition view_read :: "(StatisticManager \<Rightarrow> 'a) \<Rightarrow> bool" where
  "view_read f \<longleftrightarrow> (\<forall>sm. f (est_view sm) = f sm)"

lemma view_readD: "view_read f \<Longrightarrow> same_view s t \<Longrightarrow> f s = f t"
  by (metis view_read_def same_view_def)

definition view_only :: "'a smx \<Rightarrow> bool" where
  "view_only m \<longleftrightarrow> sx_keeps same_view m \<and> (\<forall>s t. same_view s t \<longrightarrow> fst (m s) = fst (m t))"

lemma view_only_ret: "view_only (sx_ret x)"
  by (simp add: view_only_def est.keeps_prim sx_eval)

lemma view_only_throw: "view_only (sx_throw e)"
  by (simp add: view_only_def est.keeps_prim sx_eval)

lemma view_only_read: "view_read f \<Longrightarrow> view_only (sx_read f)"
  by (simp add: view_only_def est.keeps_prim sx_eval view_readD)

lemma view_only_mod: "(\<And>s. est_view (h s) = est_view s) \<Longrightarrow> view_only (sx_mod h)"
  by (simp add: view_only_def est.keeps_mod same_view_def sx_eval)

lemma view_only_bind:
  assumes "view_only m" "\<And>x. view_only (f x)"
  shows "view_only (sx_bind m f)"
  unfolding view_only_def
proof (intro conjI allI impI)
  show "sx_keeps same_view (sx_bind m f)"
    using assms by (intro est.keeps_bind) (auto simp: view_only_def)
  fix s t assume v: "same_view s t"
  have r: "fst (m s) = fst (m t)" using assms(1) v by (auto simp: view_only_def)
  have "same_view s (snd (m s))" "same_view t (snd (m t))"
    using assms(1) by (simp_all add: view_only_def sx_keeps_def)
  then have "same_view (snd (m s)) (snd (m t))" using v by (simp add: same_view_def)
  then have "fst (f x (snd (m s))) = fst (f x (snd (m t)))" for x
    using assms(2) by (simp add: view_only_def)
  then show "fst (sx_bind m f s) = fst (sx_bind m f t)"
    by (simp add: sx_bind_unfold r split: sum.split)
qed

lemma view_only_for: "(\<And>x a. view_only (f x a)) \<Longrightarrow> view_only (sx_for f xs a)"
  by (induction xs arbitrary: a) (simp_all add: view_only_ret view_only_bind)

lemma view_only_if: "view_only m \<Longrightarrow> view_only n \<Longrightarrow> view_only (if b then m else n)"
  by simp

lemma view_only_case_prod: "(\<And>x y. view_only (f x y)) \<Longrightarrow> view_only (case p of (x, y) \<Rightarrow> f x y)"
  by (cases p) simp

lemma view_only_case_prod_arg:
  "(\<And>x y. view_only (f x y a)) \<Longrightarrow> view_only ((case p of (x, y) \<Rightarrow> f x y) a)"
  by (cases p) simp

lemmas view_only_intros =
  view_only_ret view_only_throw view_only_read view_only_mod view_only_bind view_only_for view_only_if
  view_only_case_prod view_only_case_prod_arg

section \<open>The reads of an estimate\<close>

lemma view_reads_text:
  "view_read (alias_ids rels)" "view_read (GetSingleQuery rel)" "view_read (GetAttrEsetFromRels rels)"
  "view_read (GetEqualSetFromAttrEset es)" "view_read (has_filter rel)" "view_read (table_ndv rel)"
  by (simp_all add: view_read_def alias_ids_def GetSingleQuery_def GetAttrEsetFromRels_def
      GetEqualSetFromAttrEset_def has_filter_def table_ndv_def sm_GetNDV_def)

lemma eset_conditions_view [simp]:
  "eset_conditions al (est_view sm) last_attr es = eset_conditions al sm last_attr es"
  by (induction es arbitrary: last_attr) (simp_all add: to_alias_def)

lemma GetSubquery_view: "view_read (GetSubquery rels ess)"
proof -
  have "from_item al (est_view sm) = from_item al sm"
    "join_conditions al (est_view sm) = join_conditions al sm"
    "rel_predicates al (est_view sm) = rel_predicates al sm" for al sm
    by (simp_all add: fun_eq_iff from_item_def to_alias_def join_conditions_def rel_predicates_def cong: if_cong)
  moreover have "alias_ids rels (est_view sm) = alias_ids rels sm" for sm
    using view_reads_text(1) by (simp add: view_read_def)
  ultimately show ?thesis by (simp add: view_read_def GetSubquery_def)
qed

lemma merge_pieces_view [simp]: "merge_pieces subs b r (est_view sm) = merge_pieces subs b r sm"
proof (induction subs arbitrary: b r)
  case (Cons sub subs)
  then show ?case by (simp split: option.split)
qed simp

lemma pm1_coeff_view [simp]: "pm1_coeff (est_view sm) j cs refine c = pm1_coeff sm j cs refine c"
proof (induction cs arbitrary: j refine c)
  case (Cons x cs)
  obtain sc attr where x: "x = (sc, attr)" by (cases x)
  have "refine_coeff (est_view sm) = refine_coeff sm" by (simp add: fun_eq_iff refine_coeff_def)
  moreover have "GetEqualSetFromAttrEset es (est_view sm) = GetEqualSetFromAttrEset es sm" for es
    using view_reads_text(4) by (simp add: view_read_def)
  ultimately show ?case using Cons x by simp
qed simp

lemma merge_phase_view: "view_read (\<lambda>sm. merge_phase sm ess sts)"
proof -
  have "merge_roots (est_view sm) = merge_roots sm" for sm
    by (simp add: fun_eq_iff merge_roots_def)
  then have "merge_pair (est_view sm) = merge_pair sm" for sm
    unfolding fun_eq_iff merge_pair_def by presburger
  then show ?thesis by (simp add: view_read_def merge_phase_def)
qed

section \<open>Every part of an estimate looks at the view only\<close>

lemma view_only_RecordSingleQuery: "view_only (RecordSingleQuery rel)"
  unfolding RecordSingleQuery_def
  by (intro view_only_intros view_reads_text) (simp add: est_view_def)

lemma view_only_GetTableCard: "view_only (GetTableCard rel)"
proof -
  have "GetSingleQuery rel (est_view sm) = GetSingleQuery rel sm" for sm
    using view_reads_text(2) by (simp add: view_read_def)
  then show ?thesis
    unfolding GetTableCard_def
    by (intro view_only_intros view_only_RecordSingleQuery) (simp_all add: view_read_def)
qed

lemma count_eset_size_view: "est_view (count_eset_size n sm) = est_view sm"
  by (simp add: count_eset_size_def est_view_def)

lemma view_only_GetStatisticsFromEset: "view_only (GetStatisticsFromEset es)"
  unfolding GetStatisticsFromEset_def
  by (intro view_only_intros) (simp_all add: view_read_def count_eset_size_view)


lemma view_only_initial: "view_only (initial_statistics ess)"
  unfolding initial_statistics_def eset_statistics_def
  by (intro view_only_intros view_reads_text view_only_GetStatisticsFromEset) (simp add: view_read_def)

lemma view_only_pm0: "view_only (pm0_attr attr st)"
  unfolding pm0_attr_def
  by (intro view_only_intros view_reads_text view_only_GetTableCard) (simp add: view_read_def)

lemma view_only_pm2: "view_only (pm2_attr attr st)"
  unfolding pm2_attr_def
  by (intro view_only_intros view_reads_text view_only_GetTableCard) (simp add: view_read_def Let_def)

lemma view_only_pm1: "view_only (pm1_eset es st)"
  unfolding pm1_eset_def pm1_coeffs_def
  by (intro view_only_intros view_reads_text view_only_GetTableCard) (simp add: view_read_def)

lemma view_only_filter: "view_only (filter_statistics ess sts)"
  unfolding filter_statistics_def filter_eset_def
  by (intro view_only_intros view_only_pm0 view_only_pm1 view_only_pm2) (simp add: view_read_def)

lemma view_only_subquery_card: "view_only (subquery_card q)"
  unfolding subquery_card_def
  by (intro view_only_intros) (simp_all add: view_read_def est_view_def)

lemma record_estimate_view: "est_view (record_estimate elapsed q c sm) = est_view sm"
  by (simp add: record_estimate_def RecordSubquery_def est_view_def Let_def split: prod.split)

lemma view_only_estimate_from_stats: "view_only (estimate_from_stats ess)"
  unfolding estimate_from_stats_def
  by (intro view_only_intros view_only_initial view_only_filter)
    (use merge_phase_view in \<open>simp add: view_read_def\<close>)

lemma view_only_EstimateCardinality: "view_only (EstimateCardinality elapsed rels)"
  unfolding EstimateCardinality_def
  by (intro view_only_intros view_only_subquery_card view_only_estimate_from_stats record_estimate_view)
    (use view_reads_text(3) GetSubquery_view in \<open>simp_all add: view_read_def\<close>)

lemma EstimateCardinality_stable:
  "est_view (snd (EstimateCardinality elapsed rels sm)) = est_view sm \<and>
   fst (EstimateCardinality elapsed' rels' (snd (EstimateCardinality elapsed rels sm)))
     = fst (EstimateCardinality elapsed' rels' sm)"
proof -
  have v: "same_view sm (snd (EstimateCardinality elapsed rels sm))"
    using view_only_EstimateCardinality by (simp add: view_only_def sx_keeps_def)
  have "same_view s t \<Longrightarrow> fst (EstimateCardinality elapsed' rels' t) = fst (EstimateCardinality elapsed' rels' s)" for s t
    using view_only_EstimateCardinality [of elapsed' rels'] unfolding view_only_def by metis
  from this [OF v] show ?thesis using v unfolding same_view_def by metis
qed

text \<open>
  C14: An estimate is repeatable. Whether it returns or throws, \<open>EstimateCardinality\<close> changes
  nothing but the records of subqueries, single queries, times, errors and star sizes; in
  particular the statistics, the description of the query and the flag \<open>prepared\<close> stay as
  they were. Every later estimate, for any relations, gives the same result (or the same
  exception) as it would have given before: the optimizer may ask in any order.
\<close>

theorem estimates_repeatable:
  "est_view (snd (EstimateCardinality elapsed rels sm)) = est_view sm \<and>
   fst (EstimateCardinality elapsed' rels' (snd (EstimateCardinality elapsed rels sm)))
     = fst (EstimateCardinality elapsed' rels' sm)"
  by (rule EstimateCardinality_stable)

section \<open>The session of one query\<close>

record query =
  q_tables :: "(string \<times> string list \<times> nat) list"
  q_predicates :: "(Attribute \<times> Attribute) list"
  q_estimates :: "(real \<times> nat list) list"

text \<open>
  \<open>Build\<close> with its calls of \<open>AddTable\<close> for the relations \<open>0, 1, ...\<close>, \<open>ResetCardinality\<close> when
  single table cardinalities are injected, and \<open>AddPredicate\<close> for the equality edges.
\<close>

definition StringUtil_LTrim :: "string \<Rightarrow> string" where
  "StringUtil_LTrim str = dropWhile is_space str"

text \<open>\<open>RTrim\<close> also removes characters that are not positive as a signed \<open>char\<close>.\<close>

definition StringUtil_RTrim :: "string \<Rightarrow> string" where
  "StringUtil_RTrim str =
     rev (dropWhile (\<lambda>c. \<not> (0 < (of_char c :: nat) \<and> (of_char c :: nat) < 128 \<and> \<not> is_space c)) (rev str))"

definition build_table_name :: "string \<Rightarrow> string" where
  "build_table_name table_name =
     (if take 6 table_name = ''joined''
      then StringUtil_RTrim (StringUtil_LTrim (replace_all ''joined with'' '''' table_name))
      else table_name)"

definition add_tables :: "(string \<times> string list \<times> nat) list \<Rightarrow> unit smx" where
  "add_tables ts = sx_for (\<lambda>(i, t, cols, c) _. AddTable i (build_table_name t) cols c) (zip [0..<length ts] ts) ()"

definition ResetCardinality :: "nat \<Rightarrow> int list smx" where
  "ResetCardinality n = sx_for (\<lambda>i acc. sx_bind (GetTableCard i) (\<lambda>c. sx_ret (acc @ [c]))) [0..<n] []"

definition build_graph :: "query \<Rightarrow> unit smx" where
  "build_graph q =
     sx_bind PrepareEstimate (\<lambda>_.
     sx_bind (add_tables (q_tables q)) (\<lambda>_.
     sx_bind (sx_read (\<lambda>sm. Inr (sm_UseSingleTableCard sm))) (\<lambda>single.
     sx_bind (if single then ResetCardinality (length (q_tables q)) else sx_ret []) (\<lambda>_.
       sx_for (\<lambda>((t1, c1), (t2, c2)) _. sx_mod (AddPredicate t1 t2 c1 c2)) (q_predicates q) ()))))"

definition optimize :: "query \<Rightarrow> real list smx" where
  "optimize q =
     sx_bind (build_graph q) (\<lambda>_.
     sx_bind (sx_for (\<lambda>(elapsed, rels) acc.
         sx_bind (EstimateCardinality elapsed rels) (\<lambda>c. sx_ret (acc @ [c]))) (q_estimates q) []) (\<lambda>cards.
     sx_bind (sx_mod FinishEstimate) (\<lambda>_. sx_ret cards)))"

definition same_prepared :: "StatisticManager \<Rightarrow> StatisticManager \<Rightarrow> bool" where
  "same_prepared s t \<longleftrightarrow> sm_prepared s = sm_prepared t"

interpretation prep: frame same_prepared
  by unfold_locales (simp_all add: same_prepared_def)

lemma view_only_prepared: "view_only m \<Longrightarrow> sx_keeps same_prepared m"
  unfolding view_only_def sx_keeps_def same_view_def same_prepared_def by (metis est_view_simps(20))

lemma keeps_case_prod_arg:
  "(\<And>x y. sx_keeps P (f x y a)) \<Longrightarrow> sx_keeps P ((case p of (x, y) \<Rightarrow> f x y) a)"
  "(\<And>x y. sx_keeps P (g x y b a)) \<Longrightarrow> sx_keeps P ((case p of (x, y) \<Rightarrow> g x y) b a)"
  by (cases p, simp)+

lemma prepared_AddTable: "sx_keeps same_prepared (AddTable i t cols c)"
  unfolding AddTable_def by (intro prep.keeps_intros prep.keeps_mod) (simp_all add: same_prepared_def)

lemma prepared_AddPredicate: "sx_keeps same_prepared (sx_mod (AddPredicate t1 t2 c1 c2))"
  by (rule prep.keeps_mod) (simp add: AddPredicate_def same_prepared_def)

text \<open>The part of a session between \<open>PrepareEstimate\<close> and \<open>FinishEstimate\<close> keeps the flag.\<close>

definition session_body :: "query \<Rightarrow> real list smx" where
  "session_body q =
     sx_bind (add_tables (q_tables q)) (\<lambda>_.
     sx_bind (sx_read (\<lambda>sm. Inr (sm_UseSingleTableCard sm))) (\<lambda>single.
     sx_bind (if single then ResetCardinality (length (q_tables q)) else sx_ret []) (\<lambda>_.
     sx_bind (sx_for (\<lambda>((t1, c1), (t2, c2)) _. sx_mod (AddPredicate t1 t2 c1 c2)) (q_predicates q) ()) (\<lambda>_.
       sx_for (\<lambda>(elapsed, rels) acc.
         sx_bind (EstimateCardinality elapsed rels) (\<lambda>c. sx_ret (acc @ [c]))) (q_estimates q) []))))"

lemma sx_bind_assoc: "sx_bind (sx_bind m f) g = sx_bind m (\<lambda>x. sx_bind (f x) g)"
  by (simp add: fun_eq_iff sx_bind_unfold split: sum.split)

lemma optimize_body:
  "optimize q = sx_bind PrepareEstimate (\<lambda>_. sx_bind (session_body q) (\<lambda>cards.
     sx_bind (sx_mod FinishEstimate) (\<lambda>_. sx_ret cards)))"
  by (simp add: optimize_def build_graph_def session_body_def sx_bind_assoc)

lemma session_body_prepared: "sx_keeps same_prepared (session_body q)"
  unfolding session_body_def add_tables_def ResetCardinality_def
  by (intro prep.keeps_intros keeps_case_prod_arg prepared_AddTable prepared_AddPredicate
      view_only_prepared [OF view_only_GetTableCard] view_only_prepared [OF view_only_EstimateCardinality])

lemma PrepareEstimate_eq:
  "PrepareEstimate sm =
     (if sm_prepared sm then (Inl (Runtime_error ''Already prepared for estimation''), sm)
      else (Inr (), sm\<lparr>sm_attrEsets := [], sm_tableName := Map.empty, sm_columnName := Map.empty,
              sm_tabelCard := Map.empty, sm_prepared := True, sm_query_id := sm_query_id sm + 1\<rparr>))"
  by (simp add: PrepareEstimate_def sx_simps)

lemma optimize_prepared:
  assumes "\<not> sm_prepared sm"
  shows "sm_prepared (snd (optimize q sm)) \<longleftrightarrow> (\<exists>e. fst (optimize q sm) = Inl e)"
proof -
  let ?s = "snd (PrepareEstimate sm)"
  have p: "PrepareEstimate sm = (Inr (), ?s)" "sm_prepared ?s" using assms by (simp_all add: PrepareEstimate_eq)
  have "sm_prepared (snd (session_body q ?s))"
    using session_body_prepared [of q] p(2) by (simp add: sx_keeps_def same_prepared_def)
  moreover have "optimize q sm = sx_bind (session_body q) (\<lambda>cards.
      sx_bind (sx_mod FinishEstimate) (\<lambda>_. sx_ret cards)) ?s"
    using sx_bind_eval(2) [of PrepareEstimate sm "()" ?s] p(1) by (simp add: optimize_body)
  ultimately show ?thesis
    by (cases "fst (session_body q ?s)") (auto simp: sx_bind_unfold [of "session_body q"] sx_simps FinishEstimate_def)
qed



lemma failed_query_example:
  "fst (optimize \<lparr>q_tables = [(''posts'', [''Id''], 10)], q_predicates = [], q_estimates = []\<rparr> StatisticManager_init)
     = Inl (Runtime_error ''No statistics for'')"
  by (simp add: optimize_body session_body_def add_tables_def AddTable_def PrepareEstimate_eq sx_bind_eval sx_simps
      StatisticManager_init_def sm_GetNDV_def sx_bind_unfold build_table_name_def)

end
