(* ===== verification/HyperGraph.thy ===== *)
theory HyperGraph
  imports QueryGraph StatManager_Esets
begin

text \<open>
  From the filters of a query to the query graph and to StarCE
  (\<open>QueryGraphManager::CreateHyperGraphEdges\<close>): a filter gets its two sets of relations and its two
  columns, an edge when the sets are disjoint, and StarCE gets the equalities of two columns.
\<close>

section \<open>The loop over the filters\<close>

record HyperState =
  hs_mapping :: "nat \<Rightarrow> nat option"
  hs_graph :: QueryEdge
  hs_sm :: StatisticManager

definition Disjoint :: "nat list \<Rightarrow> nat list \<Rightarrow> bool" where
  "Disjoint a b = list_all (\<lambda>entry. entry \<notin> set b) a"

definition connect :: "JoinRelationSet \<Rightarrow> JoinRelationSet \<Rightarrow> FilterInfo \<Rightarrow> QueryEdge \<Rightarrow> QueryEdge" where
  "connect left right f g = CreateEdge right left (Some f) (CreateEdge left right (Some f) g)"

definition is_column :: "Expression \<Rightarrow> bool" where
  "is_column e = (case e of BoundColumnRefExpression _ _ _ \<Rightarrow> True | _ \<Rightarrow> False)"

text \<open>The conditions for StarCE: single relations, an inner join, an equality of two columns.\<close>

definition starce_equality :: "ExpressionType \<Rightarrow> Expression \<Rightarrow> Expression \<Rightarrow> JoinRelationSet \<Rightarrow> JoinRelationSet \<Rightarrow> FilterInfo \<Rightarrow> bool" where
  "starce_equality k l r left right f \<longleftrightarrow>
     length left = 1 \<and> length right = 1 \<and> fi_join_type f = INNER \<and> k = COMPARE_EQUAL \<and> is_column l \<and> is_column r"

definition comparison_edge :: "ExpressionType \<Rightarrow> Expression \<Rightarrow> Expression \<Rightarrow> FilterInfo \<Rightarrow> HyperState \<Rightarrow> FilterInfo \<times> HyperState" where
  "comparison_edge k l r f s =
     (let left_bindings = bindings_of (hs_mapping s) l;
          right_bindings = bindings_of (hs_mapping s) r;
          (mapping1, left_binding) = GetColumnBinding l (hs_mapping s, fi_left_binding f);
          (mapping2, right_binding) = GetColumnBinding r (mapping1, fi_right_binding f);
          f1 = f\<lparr>fi_left_binding := left_binding, fi_right_binding := right_binding\<rparr>;
          s1 = s\<lparr>hs_mapping := mapping2\<rparr>
      in if left_bindings \<noteq> [] \<and> right_bindings \<noteq> [] then
           let left = (case fi_left_set f of None \<Rightarrow> relation_set left_bindings | Some x \<Rightarrow> x);
               right = (case fi_right_set f of None \<Rightarrow> relation_set right_bindings | Some x \<Rightarrow> x);
               f2 = f1\<lparr>fi_left_set := Some left, fi_right_set := Some right\<rparr>
           in if left \<noteq> right \<and> Disjoint left_bindings right_bindings then
                let s2 = s1\<lparr>hs_graph := connect left right f2 (hs_graph s1)\<rparr>
                in (f2, if starce_equality k l r left right f2
                        then s2\<lparr>hs_sm := AddPredicate (left ! 0) (right ! 0) (snd left_binding) (snd right_binding) (hs_sm s2)\<rparr>
                        else s2)
              else (f2, s1)
         else (f1, s1))"

text \<open>The walk over the children of a conjunction; both sets of relations accumulate.\<close>

type_synonym sides = "nat list \<times> nat list \<times> FilterInfo \<times> HyperState"

definition conjunct_sides :: "Expression \<Rightarrow> sides \<Rightarrow> sides" where
  "conjunct_sides e x =
     (case e of
        BoundComparisonExpression k l r \<Rightarrow>
          (case x of (left_bindings, right_bindings, f, s) \<Rightarrow>
            let lb = snd (ExtractBindings (hs_mapping s) l left_bindings);
                rb = snd (ExtractBindings (hs_mapping s) r right_bindings);
                (mapping1, left_binding) = (if fi_left_binding f = INVALID_BINDING
                  then GetColumnBinding l (hs_mapping s, fi_left_binding f) else (hs_mapping s, fi_left_binding f));
                (mapping2, right_binding) = (if fi_right_binding f = INVALID_BINDING
                  then GetColumnBinding r (mapping1, fi_right_binding f) else (mapping1, fi_right_binding f))
            in (lb, rb, f\<lparr>fi_left_binding := left_binding, fi_right_binding := right_binding\<rparr>, s\<lparr>hs_mapping := mapping2\<rparr>))
      | _ \<Rightarrow> x)"

definition conjunction_edge :: "ExpressionType \<Rightarrow> Expression list \<Rightarrow> FilterInfo \<Rightarrow> (HyperState, FilterInfo) sx" where
  "conjunction_edge k es f s =
     (if k = CONJUNCTION_OR \<or> fi_join_type f = INNER \<or> fi_join_type f = INVALID then (Inr f, s)
      else case fold conjunct_sides es ([], [], f, s) of (left_bindings, right_bindings, f1, s1) \<Rightarrow>
        if left_bindings \<noteq> [] \<and> right_bindings \<noteq> [] \<and> fi_left_set f1 \<noteq> fi_right_set f1 \<and>
           Disjoint left_bindings right_bindings
        then case (deref (fi_left_set f1), deref (fi_right_set f1)) of
            (Inl e, _) \<Rightarrow> (Inl e, s1)
          | (_, Inl e) \<Rightarrow> (Inl e, s1)
          | (Inr left, Inr right) \<Rightarrow> (Inr f1, s1\<lparr>hs_graph := connect left right f1 (hs_graph s1)\<rparr>)
        else (Inr f1, s1))"

definition hyper_edge :: "FilterInfo \<Rightarrow> (HyperState, FilterInfo) sx" where
  "hyper_edge f s =
     (case fi_filter f of
        BoundComparisonExpression k l r \<Rightarrow> (case comparison_edge k l r f s of (f', s') \<Rightarrow> (Inr f', s'))
      | BoundConjunctionExpression k es \<Rightarrow> conjunction_edge k es f s
      | _ \<Rightarrow> (Inr f, s))"

definition CreateHyperGraphEdges :: "FilterInfo list \<Rightarrow> (HyperState, FilterInfo list) sx" where
  "CreateHyperGraphEdges filters =
     sx_for (\<lambda>f done_filters. sx_bind (hyper_edge f) (\<lambda>f'. sx_ret (done_filters @ [f']))) filters []"

text \<open>The end of \<open>Build\<close>: the filters of the query, then the graph.\<close>

definition build_edges :: "FilterOperator list \<Rightarrow> (HyperState, FilterInfo list) sx" where
  "build_edges filter_operators =
     sx_bind (sx_read (\<lambda>s. ExtractEdges (hs_mapping s) filter_operators)) CreateHyperGraphEdges"

text \<open>
  A subquery's column without a relation is bound to relation 0, although no relation was found
  for it; a later predicate on the subquery then looks like one on relation 0.
\<close>

lemma subquery_bound_to_first:
  assumes "mapping t = None"
  shows "ExtractBindings mapping (BoundColumnRefExpression ''SUBQUERY'' t c) [] = (True, [])"
    "GetColumnBinding (BoundColumnRefExpression ''SUBQUERY'' t c) (mapping, INVALID_BINDING) = (mapping(t \<mapsto> 0), (0, c))"
    "ExtractBindings (mapping(t \<mapsto> 0)) (BoundColumnRefExpression ''SUBQUERY'' t d) [] = (True, [0])"
  using assms by simp_all

section \<open>Expressions over the relations\<close>

text \<open>Every column belongs to a relation, and no \<open>BOUND_REF\<close> occurs.\<close>

fun expr_ok :: "(nat \<Rightarrow> nat option) \<Rightarrow> Expression \<Rightarrow> bool" where
  "expr_ok m (BoundColumnRefExpression a t c) = (m t \<noteq> None)"
| "expr_ok m (BoundReferenceExpression i) = False"
| "expr_ok m (BoundComparisonExpression k l r) = (expr_ok m l \<and> expr_ok m r)"
| "expr_ok m (BoundConjunctionExpression k es) = list_all (expr_ok m) es"
| "expr_ok m (OtherExpression n es) = list_all (expr_ok m) es"

fun expr_relations :: "(nat \<Rightarrow> nat option) \<Rightarrow> Expression \<Rightarrow> nat set" where
  "expr_relations m (BoundColumnRefExpression a t c) = set_option (m t)"
| "expr_relations m (BoundReferenceExpression i) = {}"
| "expr_relations m (BoundComparisonExpression k l r) = expr_relations m l \<union> expr_relations m r"
| "expr_relations m (BoundConjunctionExpression k es) = \<Union> (set (map (expr_relations m) es))"
| "expr_relations m (OtherExpression n es) = \<Union> (set (map (expr_relations m) es))"

lemma ExtractBindings_ok:
  "expr_ok m e \<Longrightarrow> set (snd (ExtractBindings m e bs)) = set bs \<union> expr_relations m e \<and>
     (distinct bs \<longrightarrow> distinct (snd (ExtractBindings m e bs)))"
  "list_all (expr_ok m) es \<Longrightarrow> set (snd (extract_children m es bs)) = set bs \<union> \<Union> (set (map (expr_relations m) es)) \<and>
     (distinct bs \<longrightarrow> distinct (snd (extract_children m es bs)))"
  by (induction m e bs and m es bs rule: ExtractBindings_extract_children.induct)
    (auto split: option.splits prod.splits)

lemma bindings_ok:
  assumes "expr_ok m e"
  shows "set (bindings_of m e) = expr_relations m e" "distinct (bindings_of m e)"
    "bindings_of m e = [] \<longleftrightarrow> expr_relations m e = {}"
    "ascending (relation_set (bindings_of m e))"
  using ExtractBindings_ok(1) [OF assms, of "[]"] by (simp_all add: ascending_sort flip: set_empty)

lemma expr_relations_ran: "expr_relations m e \<subseteq> ran m"
  by (induction e) (auto simp: ran_def)

lemma GetColumnBinding_ok:
  "expr_ok (fst s) e \<Longrightarrow> fst (GetColumnBinding e s) = fst s"
  "list_all (expr_ok (fst s)) es \<Longrightarrow> fst (column_binding_children es s) = fst s"
  by (induction e s and es s rule: GetColumnBinding_column_binding_children.induct)
    (auto split: option.splits prod.splits)

text \<open>Equal expressions have the same relations.\<close>

lemma without_equal_length: "without_equal as b = Some rest \<Longrightarrow> length as = Suc (length rest)"
  by (induction as arbitrary: rest) (auto split: if_splits)

lemma Equals_relations:
  "Equals a b \<Longrightarrow> expr_relations m a = expr_relations m b"
  "SetEquals as bs \<Longrightarrow> length as = length bs \<Longrightarrow> \<Union> (set (map (expr_relations m) as)) = \<Union> (set (map (expr_relations m) bs))"
  "without_equal as b = Some rest \<Longrightarrow>
     \<Union> (set (map (expr_relations m) as)) = expr_relations m b \<union> \<Union> (set (map (expr_relations m) rest))"
  "ListEquals as bs \<Longrightarrow> \<Union> (set (map (expr_relations m) as)) = \<Union> (set (map (expr_relations m) bs))"
proof (induction a b and as bs and as b and as bs arbitrary: and and rest rule: Equals_SetEquals_without_equal_ListEquals.induct)
  case (1 a b)
  then show ?case by (cases a; cases b) (simp_all add: Equals.simps)
next
  case (3 as b bs)
  then obtain rest where r: "without_equal as b = Some rest" "SetEquals rest bs"
    by (auto split: option.splits)
  have "length rest = length bs" using without_equal_length [OF r(1)] 3(4) by simp
  then show ?case using 3(1) [OF r(1)] 3(2) [OF r] by simp
next
  case (5 a as b)
  show ?case
  proof (cases "Equals a b")
    case False
    then obtain z where "without_equal as b = Some z" "rest = a # z" using 5 by auto
    then show ?thesis using 5(2) [OF False] by (simp add: Un_left_commute)
  qed (use 5 in simp)
next
  case (7 as b bs)
  then show ?case by (cases as) simp_all
qed simp_all

end
