(* ===== verification/HyperGraph_Spec.thy ===== *)
theory HyperGraph_Spec
  imports HyperGraph
begin

text \<open>
  What the loops over filters and expressions compute: the sets of relations of the two sides
  of a predicate, the edges of the graph and the equalities for StarCE.
\<close>

section \<open>One filter\<close>

text \<open>The two sides of the conditions of a filter; only semi and anti joins look into a conjunction.\<close>

fun left_relations :: "(nat \<Rightarrow> nat option) \<Rightarrow> Expression \<Rightarrow> nat set" where
  "left_relations m (BoundComparisonExpression k l r) = expr_relations m l"
| "left_relations m e = {}"

fun right_relations :: "(nat \<Rightarrow> nat option) \<Rightarrow> Expression \<Rightarrow> nat set" where
  "right_relations m (BoundComparisonExpression k l r) = expr_relations m r"
| "right_relations m e = {}"

fun conjuncts :: "Expression \<Rightarrow> Expression list" where
  "conjuncts (BoundConjunctionExpression k es) = es"
| "conjuncts e = [e]"

definition filter_parts :: "FilterInfo \<Rightarrow> Expression list" where
  "filter_parts f = (if fi_join_type f \<in> {SEMI, ANTI} then conjuncts (fi_filter f) else [fi_filter f])"

definition left_side :: "(nat \<Rightarrow> nat option) \<Rightarrow> FilterInfo \<Rightarrow> nat set" where
  "left_side m f = \<Union> (set (map (left_relations m) (filter_parts f)))"

definition right_side :: "(nat \<Rightarrow> nat option) \<Rightarrow> FilterInfo \<Rightarrow> nat set" where
  "right_side m f = \<Union> (set (map (right_relations m) (filter_parts f)))"

abbreviation sides_linked :: "nat set \<Rightarrow> nat set \<Rightarrow> bool" where
  "sides_linked A B \<equiv> A \<noteq> {} \<and> B \<noteq> {} \<and> A \<inter> B = {}"

text \<open>The attributes that a predicate gives to StarCE.\<close>

definition column_of :: "Expression \<Rightarrow> (nat \<times> nat) option" where
  "column_of e = (case e of BoundColumnRefExpression a t c \<Rightarrow> Some (t, c) | _ \<Rightarrow> None)"

definition starce_pairs :: "(nat \<Rightarrow> nat option) \<Rightarrow> Expression \<Rightarrow> (Attribute \<times> Attribute) list" where
  "starce_pairs m e = (case e of
     BoundComparisonExpression k l r \<Rightarrow>
       (case (column_of l, column_of r) of
          (Some (t, c), Some (u, d)) \<Rightarrow>
            if k = COMPARE_EQUAL \<and> m t \<noteq> m u then [((the (m t), c), (the (m u), d))] else []
        | _ \<Rightarrow> [])
   | _ \<Rightarrow> [])"

definition starce_predicates :: "(nat \<Rightarrow> nat option) \<Rightarrow> FilterInfo \<Rightarrow> (Attribute \<times> Attribute) list" where
  "starce_predicates m f = (if fi_join_type f = INNER then starce_pairs m (fi_filter f) else [])"

text \<open>A filter as \<open>ExtractEdges\<close> makes it, and as \<open>CreateHyperGraphEdges\<close> leaves it.\<close>

definition extracted :: "(nat \<Rightarrow> nat option) \<Rightarrow> FilterInfo \<Rightarrow> bool" where
  "extracted m f \<longleftrightarrow> expr_ok m (fi_filter f) \<and> fi_set f = sorted_list_of_set (expr_relations m (fi_filter f)) \<and>
     fi_left_binding f = INVALID_BINDING \<and> fi_right_binding f = INVALID_BINDING \<and>
     (if fi_join_type f \<in> {SEMI, ANTI}
      then (\<exists>cs. fi_filter f = BoundConjunctionExpression CONJUNCTION_AND (map condition_expr cs)) \<and>
        fi_left_set f = Some (sorted_list_of_set (left_side m f)) \<and>
        fi_right_set f = Some (sorted_list_of_set (right_side m f))
      else fi_left_set f = None \<and> fi_right_set f = None \<and>
        (\<forall>k es. fi_filter f = BoundConjunctionExpression k es \<longrightarrow> fi_join_type f = INNER))"

definition created :: "(nat \<Rightarrow> nat option) \<Rightarrow> FilterInfo \<Rightarrow> FilterInfo \<Rightarrow> bool" where
  "created m f f' \<longleftrightarrow> fi_filter f' = fi_filter f \<and> fi_join_type f' = fi_join_type f \<and> fi_set f' = fi_set f \<and>
     (let A = left_side m f; B = right_side m f
      in if A \<noteq> {} \<and> B \<noteq> {} \<or> fi_join_type f \<in> {SEMI, ANTI}
         then fi_left_set f' = Some (sorted_list_of_set A) \<and> fi_right_set f' = Some (sorted_list_of_set B)
         else fi_left_set f' = None \<and> fi_right_set f' = None) \<and>
     (\<forall>(a, b) \<in> set (starce_predicates m f). fi_left_binding f' = a \<and> fi_right_binding f' = b)"

lemma created_sides:
  assumes "created m f f'"
  shows "left_side m f' = left_side m f" "right_side m f' = right_side m f"
    "starce_predicates m f' = starce_predicates m f"
  using assms by (simp_all add: created_def left_side_def right_side_def filter_parts_def starce_predicates_def)

lemma finite_expr_relations [simp]: "finite (expr_relations m e)"
  by (induction e) auto

lemma finite_sides [simp]: "finite (left_side m f)" "finite (right_side m f)"
proof -
  have "finite (left_relations m e)" "finite (right_relations m e)" for e
    by (cases e; simp)+
  then show "finite (left_side m f)" "finite (right_side m f)"
    by (simp_all add: left_side_def right_side_def)
qed

lemma relation_set_bindings: "expr_ok m e \<Longrightarrow> relation_set (bindings_of m e) = sorted_list_of_set (expr_relations m e)"
  using bindings_ok [of m e] by (intro ascending_eq) simp_all

definition hyper_update :: "(nat \<Rightarrow> nat option) \<Rightarrow> FilterInfo \<Rightarrow> HyperState \<Rightarrow> HyperState" where
  "hyper_update m f s =
     (let A = left_side m f; B = right_side m f
      in s\<lparr>hs_graph := (if sides_linked A B then connect (sorted_list_of_set A) (sorted_list_of_set B) f (hs_graph s)
                        else hs_graph s),
           hs_sm := add_predicates (starce_predicates m f) (hs_sm s)\<rparr>)"

lemma Disjoint_iff: "Disjoint a b \<longleftrightarrow> set a \<inter> set b = {}"
  by (auto simp: Disjoint_def list_all_iff)

lemma add_predicates_Nil [simp]: "add_predicates [] = id"
  by (simp add: add_predicates_def)

lemma starce_pairs_equality:
  assumes "expr_ok m l" "expr_ok m r"
  shows "starce_pairs m (BoundComparisonExpression k l r) =
    (if k = COMPARE_EQUAL \<and> is_column l \<and> is_column r \<and> expr_relations m l \<inter> expr_relations m r = {}
     then [((sorted_list_of_set (expr_relations m l) ! 0, snd (snd (GetColumnBinding l (m, b)))),
            (sorted_list_of_set (expr_relations m r) ! 0, snd (snd (GetColumnBinding r (m, b)))))]
     else [])"
  using assms
  by (cases l; cases r) (auto simp: starce_pairs_def is_column_def column_of_def)

lemma column_binding: "is_column e \<Longrightarrow> expr_ok m e \<Longrightarrow>
    snd (GetColumnBinding e (m, b)) = (sorted_list_of_set (expr_relations m e) ! 0, snd (snd (GetColumnBinding e (m, b)))) \<and>
    length (sorted_list_of_set (expr_relations m e)) = 1"
  by (cases e) (auto simp: is_column_def)

lemma comparison_edge_ok:
  assumes f: "extracted m f" "fi_filter f = BoundComparisonExpression k l r" and s: "hs_mapping s = m"
  shows "\<exists>f'. comparison_edge k l r f s = (f', hyper_update m f' s) \<and> created m f f'"
proof -
  have ok: "expr_ok m l" "expr_ok m r" using f by (simp_all add: extracted_def)
  have join: "fi_join_type f \<notin> {SEMI, ANTI}" "fi_left_set f = None" "fi_right_set f = None"
    using f by (auto simp: extracted_def split: if_splits)
  let ?A = "expr_relations m l" and ?B = "expr_relations m r"
  obtain lb rb where binds: "GetColumnBinding l (m, fi_left_binding f) = (m, lb)" "GetColumnBinding r (m, fi_right_binding f) = (m, rb)"
    using GetColumnBinding_ok(1) [of "(m, x)" for x] ok by (metis fst_conv prod.collapse)
  let ?f = "f\<lparr>fi_left_binding := lb, fi_right_binding := rb,
    fi_left_set := (if ?A \<noteq> {} \<and> ?B \<noteq> {} then Some (sorted_list_of_set ?A) else None),
    fi_right_set := (if ?A \<noteq> {} \<and> ?B \<noteq> {} then Some (sorted_list_of_set ?B) else None)\<rparr>"
  have sides: "left_side m ?f = ?A" "right_side m ?f = ?B" "left_side m f = ?A" "right_side m f = ?B"
    using f(2) join by (simp_all add: left_side_def right_side_def filter_parts_def)
  have inter: "set (bindings_of m l) \<inter> set (bindings_of m r) = ?A \<inter> ?B" using ok by (simp add: bindings_ok)
  have same: "sorted_list_of_set ?A = sorted_list_of_set ?B \<Longrightarrow> ?A = ?B"
    by (metis finite_expr_relations set_sorted_list_of_set)
  have idle: "s\<lparr>hs_mapping := m\<rparr> = s" using s by (cases s) simp
  have one: "is_column l \<Longrightarrow> length (sorted_list_of_set ?A) = 1" "is_column r \<Longrightarrow> length (sorted_list_of_set ?B) = 1"
    using ok column_binding by blast+
  have binds': "GetColumnBinding l (m, INVALID_BINDING) = (m, lb)" "GetColumnBinding r (m, INVALID_BINDING) = (m, rb)"
    using binds f(1) by (simp_all add: extracted_def)
  have pairs: "starce_pairs m (BoundComparisonExpression k l r) =
      (if k = COMPARE_EQUAL \<and> is_column l \<and> is_column r \<and> ?A \<inter> ?B = {}
       then [((sorted_list_of_set ?A ! 0, snd lb), (sorted_list_of_set ?B ! 0, snd rb))] else [])"
    using starce_pairs_equality [OF ok, of k INVALID_BINDING] binds' by simp
  have preds: "starce_predicates m f' =
      (if starce_equality k l r (sorted_list_of_set ?A) (sorted_list_of_set ?B) f' \<and> ?A \<inter> ?B = {}
       then [((sorted_list_of_set ?A ! 0, snd lb), (sorted_list_of_set ?B ! 0, snd rb))] else [])"
    if "fi_filter f' = fi_filter f" "fi_join_type f' = fi_join_type f" for f'
    using that f(2) pairs one
    by (auto simp: starce_predicates_def starce_equality_def)
  have binding: "lb = a \<and> rb = b" if "(a, b) \<in> set (starce_predicates m f)" for a b
    using that f(2) pairs column_binding [of l m INVALID_BINDING] column_binding [of r m INVALID_BINDING] ok binds'
    by (auto simp: starce_predicates_def split: if_splits)
  have created: "created m f ?f" using binding sides join by (auto simp: created_def Let_def)
  have "comparison_edge k l r f s = (?f, hyper_update m ?f s)"
  proof (cases "?A = {} \<or> ?B = {}")
    case True
    then have "starce_predicates m ?f = []" using preds [of ?f] by (auto simp: starce_equality_def)
    then show ?thesis using True sides binds join s idle ok
      by (cases f) (auto simp: comparison_edge_def hyper_update_def Let_def bindings_ok)
  next
    case False
    then show ?thesis using preds [of ?f] sides binds join s idle ok inter same
      by (auto simp: comparison_edge_def hyper_update_def Let_def bindings_ok relation_set_bindings Disjoint_iff add_predicates_def)
  qed
  with created show ?thesis by blast
qed

lemma conjunct_sides_step:
  assumes "expr_ok m e" "e = BoundComparisonExpression k l r" "hs_mapping s = m"
  shows "\<exists>a b. conjunct_sides e (lb, rb, f, s) =
    (snd (ExtractBindings m l lb), snd (ExtractBindings m r rb), f\<lparr>fi_left_binding := a, fi_right_binding := b\<rparr>, s)"
proof -
  have ok: "expr_ok m l" "expr_ok m r" using assms by simp_all
  obtain a b where binds: "GetColumnBinding l (m, fi_left_binding f) = (m, a)" "GetColumnBinding r (m, fi_right_binding f) = (m, b)"
    using GetColumnBinding_ok(1) [of "(m, x)" for x] ok by (metis fst_conv prod.collapse)
  have "s\<lparr>hs_mapping := m\<rparr> = s" using assms(3) by (cases s) simp
  then have "conjunct_sides e (lb, rb, f, s) =
    (snd (ExtractBindings m l lb), snd (ExtractBindings m r rb),
     f\<lparr>fi_left_binding := (if fi_left_binding f = INVALID_BINDING then a else fi_left_binding f),
       fi_right_binding := (if fi_right_binding f = INVALID_BINDING then b else fi_right_binding f)\<rparr>, s)"
    using binds assms(2,3)
    by (cases "fi_left_binding f = INVALID_BINDING"; cases "fi_right_binding f = INVALID_BINDING")
      (simp_all add: conjunct_sides_def)
  then show ?thesis by blast
qed

lemma conjunct_sides_fold:
  assumes "list_all (expr_ok m) (map condition_expr cs)" "hs_mapping s = m"
  shows "\<exists>lb' rb' a b. fold conjunct_sides (map condition_expr cs) (lb, rb, f, s) =
      (lb', rb', f\<lparr>fi_left_binding := a, fi_right_binding := b\<rparr>, s) \<and>
    set lb' = set lb \<union> \<Union> (set (map (left_relations m) (map condition_expr cs))) \<and>
    set rb' = set rb \<union> \<Union> (set (map (right_relations m) (map condition_expr cs)))"
  using assms(1)
proof (induction cs arbitrary: lb rb f)
  case Nil
  have "f = f\<lparr>fi_left_binding := fi_left_binding f, fi_right_binding := fi_right_binding f\<rparr>" by simp
  then show ?case by (intro exI [of _ lb] exI [of _ rb] exI [of _ "fi_left_binding f"] exI [of _ "fi_right_binding f"]) simp
next
  case (Cons c cs)
  obtain k l r where c: "c = (k, l, r)" by (cases c)
  have ok: "expr_ok m l" "expr_ok m r" "list_all (expr_ok m) (map condition_expr cs)" using Cons.prems c by simp_all
  obtain a b where step: "conjunct_sides (condition_expr c) (lb, rb, f, s) =
      (snd (ExtractBindings m l lb), snd (ExtractBindings m r rb), f\<lparr>fi_left_binding := a, fi_right_binding := b\<rparr>, s)"
    using conjunct_sides_step [of m "condition_expr c" k l r s lb rb f] ok assms(2) c by auto
  from Cons.IH [OF ok(3), of "snd (ExtractBindings m l lb)" "snd (ExtractBindings m r rb)" "f\<lparr>fi_left_binding := a, fi_right_binding := b\<rparr>"]
  show ?case using step ExtractBindings_ok(1) [OF ok(1), of lb] ExtractBindings_ok(1) [OF ok(2), of rb]
    by (auto simp: c Un_assoc)
qed

lemma semi_edge_ok:
  assumes f: "extracted m f" "fi_join_type f \<in> {SEMI, ANTI}" and s: "hs_mapping s = m"
  shows "\<exists>f'. hyper_edge f s = (Inr f', hyper_update m f' s) \<and> created m f f'"
proof -
  obtain cs where cs: "fi_filter f = BoundConjunctionExpression CONJUNCTION_AND (map condition_expr cs)"
    and sets: "fi_left_set f = Some (sorted_list_of_set (left_side m f))" "fi_right_set f = Some (sorted_list_of_set (right_side m f))"
    using f by (auto simp: extracted_def)
  have "list_all (expr_ok m) (map condition_expr cs)" using f(1) cs by (simp add: extracted_def)
  then obtain lb rb a b where fold: "fold conjunct_sides (map condition_expr cs) ([], [], f, s) =
      (lb, rb, f\<lparr>fi_left_binding := a, fi_right_binding := b\<rparr>, s)"
    and "set lb = \<Union> (set (map (left_relations m) (map condition_expr cs)))"
      "set rb = \<Union> (set (map (right_relations m) (map condition_expr cs)))"
    using conjunct_sides_fold [OF _ s, of cs "[]" "[]" f] by auto
  then have sides: "set lb = left_side m f" "set rb = right_side m f"
    using f(2) cs by (auto simp: left_side_def right_side_def filter_parts_def)
  let ?f = "f\<lparr>fi_left_binding := a, fi_right_binding := b\<rparr>"
  have same: "left_side m ?f = left_side m f" "right_side m ?f = right_side m f" "starce_predicates m f = []" "starce_predicates m ?f = []"
    using cs by (auto simp: left_side_def right_side_def filter_parts_def starce_predicates_def starce_pairs_def)
  have nonempty: "lb = [] \<longleftrightarrow> left_side m f = {}" "rb = [] \<longleftrightarrow> right_side m f = {}"
    using sides by (simp_all flip: sides)
  have neq: "fi_left_set f \<noteq> fi_right_set f" if "sides_linked (left_side m f) (right_side m f)"
  proof
    assume "fi_left_set f = fi_right_set f"
    then have "set (sorted_list_of_set (left_side m f)) = set (sorted_list_of_set (right_side m f))" using sets by simp
    then show False using that by simp
  qed
  have "fi_join_type f \<noteq> INNER" "fi_join_type f \<noteq> INVALID" using f(2) by auto
  then have run: "hyper_edge f s = (if lb \<noteq> [] \<and> rb \<noteq> [] \<and> fi_left_set f \<noteq> fi_right_set f \<and> Disjoint lb rb
      then (Inr ?f, s\<lparr>hs_graph := connect (sorted_list_of_set (left_side m f)) (sorted_list_of_set (right_side m f)) ?f (hs_graph s)\<rparr>)
      else (Inr ?f, s))"
    unfolding hyper_edge_def conjunction_edge_def cs Expression.case fold prod.case using sets
    by (simp add: deref_def)
  have "lb \<noteq> [] \<and> rb \<noteq> [] \<and> fi_left_set f \<noteq> fi_right_set f \<and> Disjoint lb rb \<longleftrightarrow> sides_linked (left_side m f) (right_side m f)"
    using neq nonempty sides by (auto simp: Disjoint_iff)
  then have "hyper_edge f s = (Inr ?f, hyper_update m ?f s)"
    unfolding run by (simp add: hyper_update_def same)
  moreover have "created m f ?f" using sets f(2) by (simp add: created_def same)
  ultimately show ?thesis by blast
qed

lemma hyper_edge_ok:
  assumes f: "extracted m f" and s: "hs_mapping s = m"
  shows "\<exists>f'. hyper_edge f s = (Inr f', hyper_update m f' s) \<and> created m f f'"
proof (cases "\<exists>k l r. fi_filter f = BoundComparisonExpression k l r")
  case True
  then show ?thesis using comparison_edge_ok [OF f _ s] by (fastforce simp: hyper_edge_def)
next
  case other: False
  show ?thesis
  proof (cases "fi_join_type f \<in> {SEMI, ANTI}")
    case True
    then show ?thesis using semi_edge_ok [OF f _ s] by blast
  next
    case False
    then have "left_side m f = {}" "right_side m f = {}" "starce_predicates m f = []"
      using other by (cases "fi_filter f"; simp add: left_side_def right_side_def filter_parts_def starce_predicates_def starce_pairs_def)+
    moreover have "fi_left_set f = None" "fi_right_set f = None"
      "\<And>k es. fi_filter f = BoundConjunctionExpression k es \<Longrightarrow> fi_join_type f = INNER"
      using f False by (auto simp: extracted_def)
    moreover have "hyper_edge f s = (Inr f, s)"
      using other calculation(6) by (cases "fi_filter f") (simp_all add: hyper_edge_def conjunction_edge_def)
    ultimately show ?thesis using False by (simp add: created_def hyper_update_def)
  qed
qed

section \<open>All filters\<close>

definition pair_edges :: "nat set \<Rightarrow> nat set \<Rightarrow> (JoinRelationSet \<times> JoinRelationSet) set" where
  "pair_edges A B = (if sides_linked A B
     then {(sorted_list_of_set A, sorted_list_of_set B), (sorted_list_of_set B, sorted_list_of_set A)} else {})"

definition filter_edges :: "(nat \<Rightarrow> nat option) \<Rightarrow> FilterInfo list \<Rightarrow> (JoinRelationSet \<times> JoinRelationSet) set" where
  "filter_edges m fs = (\<Union>f \<in> set fs. pair_edges (left_side m f) (right_side m f))"

definition filter_predicates :: "(nat \<Rightarrow> nat option) \<Rightarrow> FilterInfo list \<Rightarrow> (Attribute \<times> Attribute) list" where
  "filter_predicates m fs = concat (map (starce_predicates m) fs)"

lemma hyper_update_simps:
  "hs_mapping (hyper_update m f s) = hs_mapping s"
  "hs_sm (hyper_update m f s) = add_predicates (starce_predicates m f) (hs_sm s)"
  "edge_set (hs_graph (hyper_update m f s)) = edge_set (hs_graph s) \<union> pair_edges (left_side m f) (right_side m f)"
  by (auto simp: hyper_update_def connect_def pair_edges_def Let_def)

lemma add_predicates_append: "add_predicates (ps @ qs) sm = add_predicates qs (add_predicates ps sm)"
  by (simp add: add_predicates_def)

lemma create_fold:
  assumes "list_all (extracted m) fs" "hs_mapping s = m"
  shows "\<exists>fs' t. sx_for (\<lambda>f done_filters. sx_bind (hyper_edge f) (\<lambda>f'. sx_ret (done_filters @ [f']))) fs ds s
      = (Inr (ds @ fs'), t) \<and> list_all2 (created m) fs fs' \<and> hs_mapping t = m \<and>
    edge_set (hs_graph t) = edge_set (hs_graph s) \<union> filter_edges m fs \<and>
    hs_sm t = add_predicates (filter_predicates m fs) (hs_sm s)"
  using assms
proof (induction fs arbitrary: ds s)
  case (Cons f fs)
  obtain f' where f': "hyper_edge f s = (Inr f', hyper_update m f' s)" "created m f f'"
    using hyper_edge_ok [of m f s] Cons.prems by auto
  let ?s = "hyper_update m f' s"
  have "hs_mapping ?s = m" using Cons.prems by (simp add: hyper_update_simps)
  let ?g = "\<lambda>f done_filters. sx_bind (hyper_edge f) (\<lambda>f'. sx_ret (done_filters @ [f']))"
  have "?g f ds s = (Inr (ds @ [f']), ?s)" by (simp add: sx_bind_unfold f'(1) sx_eval)
  then have step: "sx_for ?g (f # fs) ds s = sx_for ?g fs (ds @ [f']) ?s"
    unfolding sx_for.simps by (subst sx_bind_def) simp
  from Cons.IH [OF _ \<open>hs_mapping ?s = m\<close>, of "ds @ [f']"] Cons.prems obtain fs' t where
    "sx_for (\<lambda>f done_filters. sx_bind (hyper_edge f) (\<lambda>f'. sx_ret (done_filters @ [f']))) fs (ds @ [f']) ?s
      = (Inr (ds @ [f'] @ fs'), t)" "list_all2 (created m) fs fs'" "hs_mapping t = m"
    "edge_set (hs_graph t) = edge_set (hs_graph ?s) \<union> filter_edges m fs"
    "hs_sm t = add_predicates (filter_predicates m fs) (hs_sm ?s)"
    by auto
  then show ?case using f' created_sides [OF f'(2)]
    by (intro exI [of _ "f' # fs'"] exI [of _ t])
      (simp add: step hyper_update_simps filter_edges_def filter_predicates_def add_predicates_append Un_assoc
        del: sx_for.simps)
qed (simp add: filter_edges_def filter_predicates_def sx_eval)

lemma CreateHyperGraphEdges_ok:
  assumes "list_all (extracted m) fs" "hs_mapping s = m"
  shows "\<exists>fs' t. CreateHyperGraphEdges fs s = (Inr fs', t) \<and> list_all2 (created m) fs fs' \<and> hs_mapping t = m \<and>
    edge_set (hs_graph t) = edge_set (hs_graph s) \<union> filter_edges m fs \<and>
    hs_sm t = add_predicates (filter_predicates m fs) (hs_sm s)"
  using create_fold [OF assms, of "[]"] by (simp add: CreateHyperGraphEdges_def)

section \<open>The operators of a query\<close>

text \<open>The operators that \<open>ExtractJoinRelations\<close> collects, over columns of the relations.\<close>

definition operator_ok :: "(nat \<Rightarrow> nat option) \<Rightarrow> FilterOperator \<Rightarrow> bool" where
  "operator_ok m op = (case op of
     LogicalComparisonJoin join_type cs \<Rightarrow> JoinIsReorderable join_type cs \<and> list_all (expr_ok m) (map condition_expr cs)
   | LogicalFilter es \<Rightarrow> list_all (expr_ok m) es)"

definition operator_sides :: "(nat \<Rightarrow> nat option) \<Rightarrow> FilterOperator \<Rightarrow> (nat set \<times> nat set) set" where
  "operator_sides m op = (case op of
     LogicalComparisonJoin join_type cs \<Rightarrow>
       if join_type = INNER then (\<lambda>(k, l, r). (expr_relations m l, expr_relations m r)) ` set cs
       else {(\<Union>(k, l, r) \<in> set cs. expr_relations m l, \<Union>(k, l, r) \<in> set cs. expr_relations m r)}
   | LogicalFilter es \<Rightarrow> (\<lambda>e. (left_relations m e, right_relations m e)) ` set es)"

definition operator_equalities :: "(nat \<Rightarrow> nat option) \<Rightarrow> FilterOperator \<Rightarrow> (Attribute \<times> Attribute) set" where
  "operator_equalities m op = (case op of
     LogicalComparisonJoin join_type cs \<Rightarrow> if join_type = INNER then (\<Union>c \<in> set cs. set (starce_pairs m (condition_expr c))) else {}
   | LogicalFilter es \<Rightarrow> (\<Union>e \<in> set es. set (starce_pairs m e)))"

lemma Equals_parts:
  assumes "Equals a b"
  shows "left_relations m a = left_relations m b" "right_relations m a = right_relations m b"
    "starce_pairs m a = starce_pairs m b"
proof -
  show "left_relations m a = left_relations m b" "right_relations m a = right_relations m b"
    using assms Equals_relations(1) by (cases a; cases b; fastforce simp: Equals.simps)+
  have col: "column_of x = column_of y" if "Equals x y" for x y
    using that by (cases x; cases y) (simp_all add: column_of_def Equals.simps)
  show "starce_pairs m a = starce_pairs m b"
  proof (cases "\<exists>k l r. a = BoundComparisonExpression k l r")
    case True
    then obtain k l r where a: "a = BoundComparisonExpression k l r" by blast
    then obtain l' r' where b: "b = BoundComparisonExpression k l' r'" "Equals l l'" "Equals r r'"
      using assms by (cases b) (auto simp: Equals.simps)
    then show ?thesis by (simp only: a b(1) starce_pairs_def Expression.case col [OF b(2)] col [OF b(3)])
  next
    case False
    then show ?thesis using assms by (cases a; cases b) (simp_all add: starce_pairs_def Equals.simps)
  qed
qed

text \<open>The filters that an expression adds, up to expressions that equal an earlier one.\<close>

definition extraction_ok :: "(nat \<Rightarrow> nat option) \<Rightarrow> extraction \<Rightarrow> bool" where
  "extraction_ok m s \<longleftrightarrow> list_all (extracted m) (fst s) \<and>
     (\<forall>e \<in> set (snd s). pair_edges (left_relations m e) (right_relations m e) \<subseteq> filter_edges m (fst s) \<and>
        set (starce_pairs m e) \<subseteq> set (filter_predicates m (fst s)))"

definition adds :: "(nat \<Rightarrow> nat option) \<Rightarrow> (JoinRelationSet \<times> JoinRelationSet) set \<Rightarrow> (Attribute \<times> Attribute) set \<Rightarrow>
    extraction \<Rightarrow> extraction \<Rightarrow> bool" where
  "adds m E P s t \<longleftrightarrow> extraction_ok m t \<and> filter_edges m (fst t) = filter_edges m (fst s) \<union> E \<and>
     set (filter_predicates m (fst t)) = set (filter_predicates m (fst s)) \<union> P"

lemma filter_edges_snoc: "filter_edges m (fs @ [f]) = filter_edges m fs \<union> pair_edges (left_side m f) (right_side m f)"
  "set (filter_predicates m (fs @ [f])) = set (filter_predicates m fs) \<union> set (starce_predicates m f)"
  by (auto simp: filter_edges_def filter_predicates_def)

lemma adds_trans: "adds m E P s t \<Longrightarrow> adds m F Q t u \<Longrightarrow> adds m (E \<union> F) (P \<union> Q) s u"
  by (simp add: adds_def Un_assoc)

abbreviation expr_edges :: "(nat \<Rightarrow> nat option) \<Rightarrow> Expression \<Rightarrow> (JoinRelationSet \<times> JoinRelationSet) set" where
  "expr_edges m e \<equiv> pair_edges (left_relations m e) (right_relations m e)"

lemma seen_adds:
  assumes s: "extraction_ok m s" and seen: "list_ex (\<lambda>x. Equals x e) (snd s)"
  shows "adds m (expr_edges m e) (set (starce_pairs m e)) s s"
proof -
  obtain x where "x \<in> set (snd s)" "Equals x e" using seen by (auto simp: list_ex_iff)
  then show ?thesis using s Equals_parts [of x e m] by (fastforce simp: adds_def extraction_ok_def)
qed

lemma add_expression_adds:
  assumes s: "extraction_ok m s" and e: "expr_ok m e"
  shows "adds m (expr_edges m e) (set (starce_pairs m e)) s (add_expression m INNER e s)"
proof (cases "list_ex (\<lambda>x. Equals x e) (snd s)")
  case True
  then show ?thesis using seen_adds [OF s] by (simp add: add_expression_def case_prod_beta)
next
  case False
  let ?f = "new_filter_info e (relation_set (bindings_of m e)) (length (fst s)) INNER"
  have f: "extracted m ?f" "left_side m ?f = left_relations m e" "right_side m ?f = right_relations m e"
    "starce_predicates m ?f = starce_pairs m e"
    using e by (simp_all add: extracted_def new_filter_info_def relation_set_bindings left_side_def right_side_def
        filter_parts_def starce_predicates_def)
  have "add_expression m INNER e s = (fst s @ [?f], e # snd s)"
    using False by (simp add: add_expression_def case_prod_beta)
  then show ?thesis using s f by (auto simp: adds_def extraction_ok_def filter_edges_snoc)
qed

lemma no_relations: "expr_relations m e = {} \<Longrightarrow> expr_ok m e \<Longrightarrow> expr_edges m e = {} \<and> starce_pairs m e = []"
  by (cases e) (auto simp: pair_edges_def starce_pairs_def column_of_def split: Expression.split)

lemma add_filter_expression_adds:
  assumes s: "extraction_ok m s" and e: "expr_ok m e"
  shows "adds m (expr_edges m e) (set (starce_pairs m e)) s (add_filter_expression m e s)"
proof (cases "\<not> list_ex (\<lambda>x. Equals x e) (snd s) \<and> bindings_of m e = []")
  case True
  then have "add_filter_expression m e s = (fst s, e # snd s)"
    by (simp add: add_filter_expression_def case_prod_beta)
  moreover have "expr_edges m e = {}" "starce_pairs m e = []"
    using no_relations bindings_ok(3) [OF e] True e by blast+
  ultimately show ?thesis using s by (simp add: adds_def extraction_ok_def)
next
  case False
  then have "add_filter_expression m e s = add_expression m INNER e s"
    by (auto simp: add_filter_expression_def add_expression_def case_prod_beta)
  then show ?thesis using add_expression_adds [OF s e] by simp
qed

lemma fold_adds:
  assumes "\<And>x s. x \<in> set xs \<Longrightarrow> extraction_ok m s \<Longrightarrow> adds m (E x) (P x) s (g x s)" "extraction_ok m s"
  shows "adds m (\<Union>x \<in> set xs. E x) (\<Union>x \<in> set xs. P x) s (fold g xs s)"
  using assms
proof (induction xs arbitrary: s)
  case (Cons x xs)
  have "adds m (E x) (P x) s (g x s)" using Cons.prems by simp
  moreover from this have "adds m (\<Union>x \<in> set xs. E x) (\<Union>x \<in> set xs. P x) (g x s) (fold g xs (g x s))"
    using Cons by (simp add: adds_def)
  ultimately show ?case using adds_trans by fastforce
qed (simp add: adds_def)

lemma join_union_sets:
  "finite A \<Longrightarrow> finite B \<Longrightarrow> join_union (sorted_list_of_set A) (sorted_list_of_set B) = sorted_list_of_set (A \<union> B)"
  by (rule ascending_eq) (simp_all add: ascending_join_union)

lemma side_set_fold:
  "list_all (expr_ok m) es \<Longrightarrow> finite A \<Longrightarrow>
   fold (\<lambda>e. add_side (bindings_of m e)) es (Some (sorted_list_of_set A)) =
     Some (sorted_list_of_set (A \<union> \<Union> (set (map (expr_relations m) es))))"
proof (induction es arbitrary: A)
  case (Cons e es)
  have "add_side (bindings_of m e) (Some (sorted_list_of_set A)) = Some (sorted_list_of_set (expr_relations m e \<union> A))"
    using Cons.prems by (simp add: add_side_def relation_set_bindings join_union_sets)
  then show ?case using Cons.IH [of "expr_relations m e \<union> A"] Cons.prems by (simp add: Un_ac)
qed simp

lemma side_set_ok:
  assumes "list_all (expr_ok m) es" "es \<noteq> []"
  shows "side_set m es = Some (sorted_list_of_set (\<Union> (set (map (expr_relations m) es))))"
proof -
  obtain e es' where es: "es = e # es'" using assms(2) by (cases es) auto
  then have "side_set m es = fold (\<lambda>e. add_side (bindings_of m e)) es' (Some (sorted_list_of_set (expr_relations m e)))"
    using assms(1) by (simp add: side_set_def add_side_def relation_set_bindings)
  then show ?thesis using side_set_fold [of m es' "expr_relations m e"] assms(1) es by simp
qed

lemma semi_filter_adds:
  assumes s: "extraction_ok m s" and join: "join_type \<in> {SEMI, ANTI}" and cs: "cs \<noteq> []"
    and ok: "list_all (expr_ok m) (map condition_expr cs)"
  shows "\<exists>f. semi_filter m join_type cs n = Inr f \<and>
    adds m (pair_edges (\<Union>(k, l, r) \<in> set cs. expr_relations m l) (\<Union>(k, l, r) \<in> set cs. expr_relations m r)) {} s (fst s @ [f], snd s)"
proof -
  let ?L = "\<Union>(k, l, r) \<in> set cs. expr_relations m l" and ?R = "\<Union>(k, l, r) \<in> set cs. expr_relations m r"
  let ?e = "BoundConjunctionExpression CONJUNCTION_AND (map condition_expr cs)"
  have okL: "list_all (expr_ok m) (map (\<lambda>(k, l, r). l) cs)" and okR: "list_all (expr_ok m) (map (\<lambda>(k, l, r). r) cs)"
    using ok by (auto simp: list_all_iff)
  have unions: "\<Union> (set (map (expr_relations m) (map (\<lambda>(k, l, r). l) cs))) = ?L"
    "\<Union> (set (map (expr_relations m) (map (\<lambda>(k, l, r). r) cs))) = ?R"
    "\<Union> (set (map (left_relations m) (map condition_expr cs))) = ?L"
    "\<Union> (set (map (right_relations m) (map condition_expr cs))) = ?R"
    by (fastforce split: prod.splits)+
  have finite: "finite ?L" "finite ?R" by (auto split: prod.split)
  have all: "expr_relations m ?e = ?L \<union> ?R" by (fastforce split: prod.splits)
  let ?f = "(new_filter_info ?e (sorted_list_of_set (?L \<union> ?R)) n join_type)\<lparr>fi_left_set := Some (sorted_list_of_set ?L),
    fi_right_set := Some (sorted_list_of_set ?R)\<rparr>"
  have run: "semi_filter m join_type cs n = Inr ?f"
    unfolding semi_filter_def using side_set_ok [OF okL] side_set_ok [OF okR] cs
    by (simp add: Let_def deref_def join_union_sets [OF finite] unions(1,2) [simplified])
  have sides: "left_side m ?f = ?L" "right_side m ?f = ?R" "starce_predicates m ?f = []"
    using join unions(3,4)
    by (simp_all add: left_side_def right_side_def filter_parts_def new_filter_info_def starce_predicates_def starce_pairs_def)
  have "extracted m ?f"
    using join ok all sides(1,2) unfolding extracted_def new_filter_info_def by (auto simp del: expr_relations.simps)
  then have "adds m (pair_edges ?L ?R) {} s (fst s @ [?f], snd s)"
    using s by (auto simp: adds_def extraction_ok_def filter_edges_snoc sides)
  with run show ?thesis by blast
qed

text \<open>One operator, and all of them.\<close>

definition operator_edges :: "(nat \<Rightarrow> nat option) \<Rightarrow> FilterOperator \<Rightarrow> (JoinRelationSet \<times> JoinRelationSet) set" where
  "operator_edges m op = (\<Union>(A, B) \<in> operator_sides m op. pair_edges A B)"

lemma reorderable_conditions:
  "JoinIsReorderable join_type cs \<Longrightarrow> cs \<noteq> [] \<and> (join_type = INNER \<or> join_type \<in> {SEMI, ANTI})"
  by (auto simp: JoinIsReorderable_def split: if_splits)

lemma extract_operator_adds:
  assumes s: "extraction_ok m s" and ok: "operator_ok m op"
  shows "\<exists>t. extract_operator m op s = Inr t \<and> adds m (operator_edges m op) (operator_equalities m op) s t"
proof (cases op)
  case (LogicalFilter es)
  have "adds m (\<Union>e \<in> set es. expr_edges m e) (\<Union>e \<in> set es. set (starce_pairs m e)) s (fold (add_filter_expression m) es s)"
    by (rule fold_adds [OF add_filter_expression_adds s]) (use ok LogicalFilter in \<open>auto simp: operator_ok_def list_all_iff\<close>)
  then show ?thesis using LogicalFilter
    by (simp add: extract_operator_def operator_edges_def operator_sides_def operator_equalities_def)
next
  case (LogicalComparisonJoin join_type cs)
  have cs: "cs \<noteq> []" "join_type = INNER \<or> join_type \<in> {SEMI, ANTI}" "list_all (expr_ok m) (map condition_expr cs)"
    using ok LogicalComparisonJoin reorderable_conditions by (auto simp: operator_ok_def)
  show ?thesis
  proof (cases "join_type = INNER")
    case True
    have "adds m (\<Union>c \<in> set cs. expr_edges m (condition_expr c)) (\<Union>c \<in> set cs. set (starce_pairs m (condition_expr c))) s
        (fold (\<lambda>c. add_expression m INNER (condition_expr c)) cs s)"
      by (rule fold_adds [OF add_expression_adds s]) (use cs(3) in \<open>auto simp: list_all_iff\<close>)
    moreover have "operator_edges m op = (\<Union>c \<in> set cs. expr_edges m (condition_expr c))"
      using True LogicalComparisonJoin by (fastforce simp: operator_edges_def operator_sides_def split: prod.splits)
    ultimately show ?thesis using True LogicalComparisonJoin
      by (simp add: extract_operator_def operator_equalities_def)
  next
    case False
    then have join: "join_type \<in> {SEMI, ANTI}" using cs(2) by blast
    from semi_filter_adds [OF s join cs(1,3), of "length (fst s)"] show ?thesis
      using False join LogicalComparisonJoin
      by (auto simp: extract_operator_def operator_equalities_def operator_edges_def operator_sides_def)
  qed
qed

lemma extract_fold:
  assumes "list_all (operator_ok m) ops" "extraction_ok m s"
  shows "\<exists>t. res_fold (extract_operator m) ops s = Inr t \<and>
    adds m (\<Union>op \<in> set ops. operator_edges m op) (\<Union>op \<in> set ops. operator_equalities m op) s t"
  using assms
proof (induction ops arbitrary: s)
  case (Cons op ops)
  obtain t where t: "extract_operator m op s = Inr t" "adds m (operator_edges m op) (operator_equalities m op) s t"
    using extract_operator_adds Cons.prems by fastforce
  then have "extraction_ok m t" by (simp add: adds_def)
  then obtain u where "res_fold (extract_operator m) ops t = Inr u"
    "adds m (\<Union>op \<in> set ops. operator_edges m op) (\<Union>op \<in> set ops. operator_equalities m op) t u"
    using Cons by fastforce
  then show ?case using t adds_trans by fastforce
qed (simp add: adds_def)

text \<open>The end of \<open>Build\<close>.\<close>

lemma created_list: "list_all2 (created m) fs fs' \<Longrightarrow>
  filter_edges m fs' = filter_edges m fs \<and> filter_predicates m fs' = filter_predicates m fs"
  by (induction rule: list_all2_induct) (simp_all add: filter_edges_def filter_predicates_def created_sides)

lemma build_edges_ok:
  assumes ok: "list_all (operator_ok m) ops" and m: "hs_mapping s = m"
  shows "\<exists>fs0 fs t. build_edges ops s = (Inr fs, t) \<and> list_all (extracted m) fs0 \<and> list_all2 (created m) fs0 fs \<and>
    hs_mapping t = m \<and> edge_set (hs_graph t) = edge_set (hs_graph s) \<union> (\<Union>op \<in> set ops. operator_edges m op) \<and>
    hs_sm t = add_predicates (filter_predicates m fs) (hs_sm s) \<and>
    set (filter_predicates m fs) = (\<Union>op \<in> set ops. operator_equalities m op)"
proof -
  have "extraction_ok m ([], [])" by (simp add: extraction_ok_def)
  from extract_fold [OF ok this] obtain x where x: "res_fold (extract_operator m) ops ([], []) = Inr x"
    "adds m (\<Union>op \<in> set ops. operator_edges m op) (\<Union>op \<in> set ops. operator_equalities m op) ([], []) x"
    by blast
  then have run: "ExtractEdges m ops = Inr (fst x)" and ext: "list_all (extracted m) (fst x)"
    by (simp_all add: ExtractEdges_def adds_def extraction_ok_def)
  obtain fs t where fs: "CreateHyperGraphEdges (fst x) s = (Inr fs, t)" "list_all2 (created m) (fst x) fs" "hs_mapping t = m"
    "edge_set (hs_graph t) = edge_set (hs_graph s) \<union> filter_edges m (fst x)"
    "hs_sm t = add_predicates (filter_predicates m (fst x)) (hs_sm s)"
    using CreateHyperGraphEdges_ok [OF ext m] by blast
  have "build_edges ops s = (Inr fs, t)" using run fs(1) m by (simp add: build_edges_def sx_bind_prim)
  moreover have "filter_edges m (fst x) = (\<Union>op \<in> set ops. operator_edges m op)"
    "set (filter_predicates m (fst x)) = (\<Union>op \<in> set ops. operator_equalities m op)"
    using x(2) by (simp_all add: adds_def filter_edges_def filter_predicates_def)
  ultimately show ?thesis using ext fs created_list [OF fs(2)] by (intro exI [of _ "fst x"] exI [of _ fs] exI [of _ t]) simp
qed

end
