(* ===== verification/CardEst_Props.thy ===== *)
theory CardEst_Props
  imports CardEst HyperGraph_Spec
begin

text \<open>
  DuckDB's estimates: when they are defined, that they are positive, and what they depend on;
  the total domains as classes of columns.
\<close>

section \<open>Estimates are defined and positive\<close>

definition sided :: "nat set \<Rightarrow> FilterInfo \<Rightarrow> bool" where
  "sided N f \<longleftrightarrow> (\<exists>l r. fi_left_set f = Some l \<and> fi_right_set f = Some r \<and> set l \<union> set r \<subseteq> N)"

definition tdoms_ok :: "nat set \<Rightarrow> RelationsToTDom list \<Rightarrow> bool" where
  "tdoms_ok N tdoms \<longleftrightarrow> (\<forall>t \<in> set tdoms. \<forall>f \<in> set (td_filters t). sided N f)"

definition subgraph_ok :: "nat set \<Rightarrow> Subgraph2Denominator \<Rightarrow> bool" where
  "subgraph_ok N g \<longleftrightarrow> set (sg_numerator_relations g) \<subseteq> N \<and> 0 \<le> sg_denom g"

lemma edge_tdom_ge0: "0 \<le> edge_tdom e" "0 \<le> comparison_ratio e k"
  by (simp_all add: edge_tdom_def comparison_ratio_def DEFAULT_LT_GT_MULTIPLIER_def)


lemma semi_from_left_sided: "sided N f \<Longrightarrow> \<exists>b. semi_from_left g h f = Inr b"
  by (auto simp: sided_def semi_from_left_def deref_def)

lemma UpdateNumeratorRelations_sided:
  assumes "sided N (fd_filter_info e)" "set (sg_numerator_relations g) \<subseteq> N" "set (sg_numerator_relations h) \<subseteq> N"
  shows "\<exists>num. UpdateNumeratorRelations g h e = Inr num \<and> set num \<subseteq> N"
  using semi_from_left_sided [OF assms(1), of g h] assms(2,3)
  by (auto simp: UpdateNumeratorRelations_def)

lemma CalculateUpdatedDenom_sided:
  assumes "sided N (fd_filter_info e)" "0 \<le> sg_denom g" "0 \<le> sg_denom h"
  shows "\<exists>d. CalculateUpdatedDenom g h e = Inr d \<and> 0 \<le> d"
  using semi_from_left_sided [OF assms(1), of g h] assms(2,3) edge_tdom_ge0
  by (auto simp: CalculateUpdatedDenom_def Let_def DEFAULT_SEMI_ANTI_SELECTIVITY_def)

lemma side_subgraph_sided:
  assumes "sided N (fd_filter_info e)"
  shows "\<exists>g. side_subgraph (fi_left_set (fd_filter_info e)) = Inr g \<and> subgraph_ok N g"
    "\<exists>g. side_subgraph (fi_right_set (fd_filter_info e)) = Inr g \<and> subgraph_ok N g"
  using assms by (auto simp: sided_def side_subgraph_def deref_def subgraph_ok_def)

text \<open>The end of all three cases: new numerator relations and a new denominator.\<close>

lemma updated_subgraph:
  assumes "sided N (fd_filter_info e)" "subgraph_ok N g" "subgraph_ok N h"
    and fields: "\<And>num. sg_denom (k num) = sg_denom g"
  shows "\<exists>num d. UpdateNumeratorRelations g h e = Inr num \<and> set num \<subseteq> N \<and>
    CalculateUpdatedDenom (k num) h e = Inr d \<and> 0 \<le> d"
  using UpdateNumeratorRelations_sided [of N e g h] CalculateUpdatedDenom_sided [of N e "k num" h for num] assms
  by (auto simp: subgraph_ok_def)

lemma new_subgraph_sided:
  assumes e: "sided N (fd_filter_info e)"
  shows "\<exists>g. new_subgraph e = Inr g \<and> subgraph_ok N g"
proof -
  obtain g h where gh: "side_subgraph (fi_left_set (fd_filter_info e)) = Inr g" "subgraph_ok N g"
    "side_subgraph (fi_right_set (fd_filter_info e)) = Inr h" "subgraph_ok N h"
    using side_subgraph_sided [OF e] by blast
  from updated_subgraph [OF e gh(2,4), of "\<lambda>num. g\<lparr>sg_numerator_relations := num, sg_relations := fi_set (fd_filter_info e)\<rparr>"]
  show ?thesis using gh by (auto simp: new_subgraph_def Let_def subgraph_ok_def)
qed

lemma extend_subgraph_sided:
  assumes e: "sided N (fd_filter_info e)" and g: "subgraph_ok N g"
  shows "\<exists>r. extend_subgraph e g = Inr r \<and> (\<forall>g'. r = Some g' \<longrightarrow> subgraph_ok N g')"
proof -
  obtain h0 where h0: "side_subgraph (fi_right_set (fd_filter_info e)) = Inr h0" "subgraph_ok N h0"
    using side_subgraph_sided [OF e] by blast
  obtain h where h: "(if IsSubset (sg_relations g) (sg_relations h0)
      then side_subgraph (fi_left_set (fd_filter_info e)) else Inr h0) = Inr h" "subgraph_ok N h"
    using side_subgraph_sided [OF e] h0 by (cases "IsSubset (sg_relations g) (sg_relations h0)") auto
  obtain l r where lr: "fi_left_set (fd_filter_info e) = Some l" "fi_right_set (fd_filter_info e) = Some r"
    using e by (auto simp: sided_def)
  from updated_subgraph [OF e g h(2), of "\<lambda>num. g\<lparr>sg_numerator_relations := num,
      sg_relations := join_union (sg_relations g) (sg_relations h)\<rparr>"]
  obtain num d where nd: "UpdateNumeratorRelations g h e = Inr num" "set num \<subseteq> N"
    "CalculateUpdatedDenom (g\<lparr>sg_numerator_relations := num, sg_relations := join_union (sg_relations g) (sg_relations h)\<rparr>) h e
      = Inr d" "0 \<le> d"
    by auto
  have "extend_subgraph e g = (if IsSubset (sg_relations g) l \<and> IsSubset (sg_relations g) r then Inr None
     else Inr (Some (g\<lparr>sg_numerator_relations := num, sg_relations := join_union (sg_relations g) (sg_relations h), sg_denom := d\<rparr>)))"
    unfolding extend_subgraph_def h0(1) res_bind_simps h(1) by (simp add: lr deref_def nd Let_def)
  then show ?thesis using nd by (simp add: subgraph_ok_def)
qed

lemma merge_subgraphs_sided:
  assumes e: "sided N (fd_filter_info e)" and g: "subgraph_ok N g" "subgraph_ok N h"
  shows "\<exists>g'. merge_subgraphs e g h = Inr g' \<and> subgraph_ok N g'"
proof -
  let ?g = "g\<lparr>sg_relations := join_union (sg_relations g) (sg_relations h)\<rparr>"
  have "subgraph_ok N ?g" using g by (simp add: subgraph_ok_def)
  from updated_subgraph [OF e this g(2), of "\<lambda>num. ?g\<lparr>sg_numerator_relations := num\<rparr>"]
  show ?thesis using g by (auto simp: merge_subgraphs_def Let_def subgraph_ok_def)
qed

text \<open>The positions that an edge touches.\<close>

lemma inner_connected_bounds:
  "inner_connected e i s j ts = Some res \<Longrightarrow> \<exists>k. res = [i, k] \<and> j \<le> k \<and> k < j + length ts"
  by (induction e i s j ts rule: inner_connected.induct) (fastforce split: if_splits)+

lemma outer_connected_bounds:
  "outer_connected e i ss = [] \<or> (\<exists>j. outer_connected e i ss = [j] \<and> j < i + length ss) \<or>
   (\<exists>j k. outer_connected e i ss = [j, k] \<and> j < k \<and> k < i + length ss)"
proof (induction e i ss rule: outer_connected.induct)
  case (2 e i s ss)
  show ?case
  proof (cases "inner_connected e i s (Suc i) ss")
    case None
    then show ?thesis using 2 by (cases "EdgeConnects e s") auto
  next
    case (Some res)
    then obtain k where "res = [i, k]" "Suc i \<le> k" "k < Suc i + length ss" using inner_connected_bounds by blast
    then show ?thesis using Some by simp
  qed
qed simp

lemma connected_cases:
  obtains (none) "SubgraphsConnectedByEdge e gs = []"
  | (one) i where "SubgraphsConnectedByEdge e gs = [i]" "i < length gs"
  | (two) i j where "SubgraphsConnectedByEdge e gs = [i, j]" "i < j" "j < length gs"
proof -
  have "SubgraphsConnectedByEdge e gs = outer_connected e 0 gs" by (simp add: SubgraphsConnectedByEdge_def)
  then show ?thesis using outer_connected_bounds [of e 0 gs] none one two by (elim disjE exE conjE) simp_all
qed

lemma set_vec_erase: "set (vec_erase j xs) \<subseteq> set xs"
  by (auto simp: vec_erase_def dest: in_set_takeD in_set_dropD)

lemma denom_step_sided:
  assumes e: "sided N (fd_filter_info e)" and gs: "\<forall>g \<in> set (fst x). subgraph_ok N g"
  shows "\<exists>y. denom_step S e x = Inr y \<and> (\<forall>g \<in> set (fst y). subgraph_ok N g)"
proof -
  obtain gs u where x: "x = (gs, u)" by (cases x)
  have ok: "subgraph_ok N (gs ! i)" if "i < length gs" for i using gs that x by simp
  let ?full = "length gs = 1 \<and> JoinRelationSet_ToString (sg_relations (gs ! 0)) = JoinRelationSet_ToString S"
  show ?thesis
  proof (cases ?full)
    case True
    then show ?thesis using gs by (simp add: denom_step_def x)
  next
    case False
    note step = denom_step_def x prod.case if_not_P [OF False]
    show ?thesis
    proof (cases rule: connected_cases [of e gs])
      case none
      then show ?thesis using new_subgraph_sided [OF e] gs unfolding step by (auto simp: x)
    next
      case (one i)
      obtain r where r: "extend_subgraph e (gs ! i) = Inr r" "\<forall>g'. r = Some g' \<longrightarrow> subgraph_ok N g'"
        using extend_subgraph_sided [OF e ok [OF one(2)]] by blast
      then show ?thesis using gs unfolding step one(1)
        by (auto simp: x split: option.split dest!: subsetD [OF set_update_subset_insert])
    next
      case (two i j)
      obtain g where g: "merge_subgraphs e (gs ! i) (gs ! j) = Inr g" "subgraph_ok N g"
        using merge_subgraphs_sided [OF e ok [of i] ok [of j]] two by auto
      then have "\<forall>h \<in> set (vec_erase j (gs[i := g])). subgraph_ok N h"
        using gs set_vec_erase [of j "gs[i := g]"] set_update_subset_insert [of gs i g] by (auto simp: x)
      then show ?thesis using g unfolding step two(1) by simp
    qed
  qed
qed

lemma denom_fold_sided:
  assumes "\<forall>e \<in> set es. sided N (fd_filter_info e)" "\<forall>g \<in> set (fst x). subgraph_ok N g"
  shows "\<exists>y. res_fold (denom_step S) es x = Inr y \<and> (\<forall>g \<in> set (fst y). subgraph_ok N g)"
  using assms
proof (induction es arbitrary: x)
  case (Cons e es)
  obtain y where "denom_step S e x = Inr y" "\<forall>g \<in> set (fst y). subgraph_ok N g"
    using denom_step_sided [of N e x S] Cons.prems by auto
  then show ?case using Cons.IH [of y] Cons.prems(1) by simp
qed simp

lemma GetDenominator_sided:
  assumes "tdoms_ok N tdoms" "set S \<subseteq> N"
  shows "\<exists>d. GetDenominator tdoms S = Inr d \<and> set (dn_numerator_relations d) \<subseteq> N \<and> 0 < dn_denominator d"
proof -
  have "\<forall>e \<in> set (GetEdges tdoms S). sided N (fd_filter_info e)"
    using assms(1) by (auto simp: GetEdges_def tdoms_ok_def)
  from denom_fold_sided [OF this, of "([], [])" S]
  obtain gs u where y: "res_fold (denom_step S) (GetEdges tdoms S) ([], []) = Inr (gs, u)" "\<forall>g \<in> set gs. subgraph_ok N g"
    by auto
  have "gs \<noteq> [] \<Longrightarrow> subgraph_ok N (gs ! 0)" using y(2) by simp
  then show ?thesis using assms(2) by (auto simp: GetDenominator_def y(1) Let_def subgraph_ok_def order_less_le)
qed

text \<open>Every relation of the query has a cardinality.\<close>

definition leaf_cards :: "nat set \<Rightarrow> (string \<Rightarrow> real option) \<Rightarrow> bool" where
  "leaf_cards N cards \<longleftrightarrow> (\<forall>r \<in> N. \<exists>c. cards (JoinRelationSet_ToString [r]) = Some c \<and> 0 \<le> c)"

lemma GetNumerator_fold:
  assumes "leaf_cards N cards" "set rs \<subseteq> N" "0 < x"
  shows "\<exists>y. res_fold (\<lambda>r numerator.
         case cards (JoinRelationSet_ToString [r]) of
           None \<Rightarrow> Inl (Undefined ''cardinality_before_filters'')
         | Some c \<Rightarrow> Inr (numerator * (if c = 0 then 1 else c))) rs x = Inr y \<and> 0 < y"
  using assms(2,3)
proof (induction rs arbitrary: x)
  case (Cons r rs)
  obtain c where c: "cards (JoinRelationSet_ToString [r]) = Some c" "0 \<le> c"
    using assms(1) Cons.prems by (auto simp: leaf_cards_def)
  then have "0 < x * (if c = 0 then 1 else c)" using Cons.prems by simp
  then show ?case using Cons.IH [of "x * (if c = 0 then 1 else c)"] Cons.prems c by simp
qed simp

lemma native_estimate_pos:
  assumes "tdoms_ok N tdoms" "leaf_cards N cards" "set S \<subseteq> N"
  shows "\<exists>x. native_estimate tdoms cards S = Inr x \<and> 0 < x"
proof -
  obtain d where d: "GetDenominator tdoms S = Inr d" "set (dn_numerator_relations d) \<subseteq> N" "0 < dn_denominator d"
    using GetDenominator_sided [OF assms(1,3)] by blast
  obtain y where "GetNumerator cards (dn_numerator_relations d) = Inr y" "0 < y"
    using GetNumerator_fold [OF assms(2) d(2), of 1] by (auto simp: GetNumerator_def)
  then show ?thesis using d by (simp add: native_estimate_def)
qed

text \<open>Only the cardinalities of single relations matter.\<close>

lemma GetNumerator_cong:
  "(\<And>r. cards (JoinRelationSet_ToString [r]) = cards' (JoinRelationSet_ToString [r])) \<Longrightarrow> GetNumerator cards rs = GetNumerator cards' rs"
  by (simp add: GetNumerator_def cong: option.case_cong)

lemma native_estimate_cong:
  "(\<And>r. cards (JoinRelationSet_ToString [r]) = cards' (JoinRelationSet_ToString [r])) \<Longrightarrow>
   native_estimate tdoms cards S = native_estimate tdoms cards' S"
  using GetNumerator_cong [of cards cards'] by (simp add: native_estimate_def)

section \<open>Total domains are classes of columns\<close>

abbreviation columns :: "RelationsToTDom list \<Rightarrow> ColumnBinding list list" where
  "columns tdoms \<equiv> map td_equivalent_relations tdoms"

definition tdoms_disjoint :: "RelationsToTDom list \<Rightarrow> bool" where
  "tdoms_disjoint tdoms \<longleftrightarrow>
     (\<forall>i < length tdoms. \<forall>j < length tdoms. i \<noteq> j \<longrightarrow> set (columns tdoms ! i) \<inter> set (columns tdoms ! j) = {})"

definition same_tdom :: "RelationsToTDom list \<Rightarrow> (ColumnBinding \<times> ColumnBinding) set" where
  "same_tdom tdoms = (\<Union>t \<in> set tdoms. set (td_equivalent_relations t) \<times> set (td_equivalent_relations t))"

lemma same_tdom_index: "same_tdom tdoms = (\<Union>i < length tdoms. set (columns tdoms ! i) \<times> set (columns tdoms ! i))"
  by (fastforce simp: same_tdom_def in_set_conv_nth)

definition column_filter :: "ColumnBinding \<Rightarrow> ColumnBinding \<Rightarrow> FilterInfo" where
  "column_filter a b = (new_filter_info (BoundReferenceExpression 0) [] 0 INNER)\<lparr>fi_left_binding := a, fi_right_binding := b\<rparr>"

definition join_columns :: "ColumnBinding \<Rightarrow> ColumnBinding \<Rightarrow> RelationsToTDom list \<Rightarrow> RelationsToTDom list" where
  "join_columns a b tdoms =
     (let f = column_filter a b in AddToEquivalenceSets f (DetermineMatchingEquivalentSets f tdoms) tdoms)"

lemma matching_index:
  "set (DetermineMatchingEquivalentSets f tdoms) =
     {i. i < length tdoms \<and> set (columns tdoms ! i) \<inter> {fi_left_binding f, fi_right_binding f} \<noteq> {}}"
  "distinct (DetermineMatchingEquivalentSets f tdoms)"
  by (auto simp: DetermineMatchingEquivalentSets_def)

text \<open>At most two domains match, and they cover the class of both columns.\<close>

lemma matching_two:
  assumes "tdoms_disjoint tdoms" "DetermineMatchingEquivalentSets f tdoms = i # j # rest"
  shows "i \<noteq> j" "i < length tdoms" "j < length tdoms" "rest = []"
    "{fi_left_binding f, fi_right_binding f} \<subseteq> set (columns tdoms ! i) \<union> set (columns tdoms ! j)"
proof -
  let ?a = "fi_left_binding f" and ?b = "fi_right_binding f"
  have M: "k \<in> set (i # j # rest) \<longleftrightarrow> k < length tdoms \<and> (?a \<in> set (columns tdoms ! k) \<or> ?b \<in> set (columns tdoms ! k))" for k
    using matching_index(1) [of f tdoms] unfolding assms(2) by blast
  show ij: "i \<noteq> j" "i < length tdoms" "j < length tdoms"
    using matching_index(2) [of f tdoms] M [of i] M [of j] unfolding assms(2) by simp_all
  have one: "k = k'" if "x \<in> set (columns tdoms ! k)" "x \<in> set (columns tdoms ! k')" "k < length tdoms" "k' < length tdoms" for x k k'
    using assms(1) that unfolding tdoms_disjoint_def by blast
  show cover: "{?a, ?b} \<subseteq> set (columns tdoms ! i) \<union> set (columns tdoms ! j)"
    using M [of i] M [of j] one [of ?a i j] one [of ?b i j] ij by auto
  have "k \<notin> set rest" for k
  proof
    assume k: "k \<in> set rest"
    then have "k \<noteq> i" "k \<noteq> j" using matching_index(2) [of f tdoms] unfolding assms(2) by auto
    moreover have "k < length tdoms" "?a \<in> set (columns tdoms ! k) \<or> ?b \<in> set (columns tdoms ! k)" using M [of k] k by auto
    ultimately show False using cover one [of ?a k] one [of ?b k] ij by auto
  qed
  then show "rest = []" by (cases rest) auto
qed

lemma columns_AddToEquivalenceSets:
  assumes "tdoms_disjoint tdoms"
  shows "columns (AddToEquivalenceSets f (DetermineMatchingEquivalentSets f tdoms) tdoms) =
    (case DetermineMatchingEquivalentSets f tdoms of
       [] \<Rightarrow> columns tdoms @ [List.insert (fi_right_binding f) [fi_left_binding f]]
     | [i] \<Rightarrow> (columns tdoms)[i := List.insert (fi_right_binding f) (List.insert (fi_left_binding f) (columns tdoms ! i))]
     | i # j # _ \<Rightarrow> (columns tdoms)[i := fold List.insert (columns tdoms ! j) (columns tdoms ! i), j := []])"
proof -
  have index: "i < length tdoms" if "i \<in> set (DetermineMatchingEquivalentSets f tdoms)" for i
    using that by (simp add: matching_index(1))
  then show ?thesis using matching_two(1) [OF assms, of f]
    by (auto simp: AddToEquivalenceSets_def new_tdom_def map_update split: list.split)
qed

lemma set_fold_insert [simp]: "set (fold List.insert xs ys) = set ys \<union> set xs"
  by (induction xs arbitrary: ys) auto

definition class_pairs :: "'a list list \<Rightarrow> ('a \<times> 'a) set" where
  "class_pairs cs = {(x, y). \<exists>k < length cs. x \<in> set (cs ! k) \<and> y \<in> set (cs ! k)}"

lemma class_pairs_update:
  assumes "i < length cs" "set (cs ! i) \<subseteq> set x"
  shows "class_pairs (cs[i := x]) = class_pairs cs \<union> set x \<times> set x"
proof (rule set_eqI, clarify)
  fix u v
  have "(\<exists>k < length cs. u \<in> set (cs[i := x] ! k) \<and> v \<in> set (cs[i := x] ! k)) \<longleftrightarrow>
      (\<exists>k < length cs. u \<in> set (cs ! k) \<and> v \<in> set (cs ! k)) \<or> u \<in> set x \<and> v \<in> set x" (is "?l \<longleftrightarrow> ?r")
  proof
    assume ?l
    then obtain k where "k < length cs" "u \<in> set (cs[i := x] ! k)" "v \<in> set (cs[i := x] ! k)" by blast
    then show ?r by (cases "k = i") auto
  next
    assume ?r
    then show ?l
    proof
      assume "\<exists>k < length cs. u \<in> set (cs ! k) \<and> v \<in> set (cs ! k)"
      then obtain k where k: "k < length cs" "u \<in> set (cs ! k)" "v \<in> set (cs ! k)" by blast
      then show ?l using assms by (intro exI [of _ k]) (cases "k = i"; auto)
    qed (use assms(1) in \<open>intro exI [of _ i], simp\<close>)
  qed
  then show "(u, v) \<in> class_pairs (cs[i := x]) \<longleftrightarrow> (u, v) \<in> class_pairs cs \<union> set x \<times> set x"
    by (simp add: class_pairs_def)
qed

lemma class_pairs_clear:
  assumes "i < length cs" "j < length cs" "i \<noteq> j" "set (cs ! j) \<subseteq> set (cs ! i)"
  shows "class_pairs (cs[j := []]) = class_pairs cs"
proof (rule set_eqI, clarify)
  fix u v
  have "(\<exists>k < length cs. u \<in> set (cs[j := []] ! k) \<and> v \<in> set (cs[j := []] ! k)) \<longleftrightarrow>
      (\<exists>k < length cs. u \<in> set (cs ! k) \<and> v \<in> set (cs ! k))" (is "?l \<longleftrightarrow> ?r")
  proof
    assume ?l
    then obtain k where "k < length cs" "u \<in> set (cs[j := []] ! k)" "v \<in> set (cs[j := []] ! k)" by blast
    then show ?r by (cases "k = j") auto
  next
    assume ?r
    then obtain k where k: "k < length cs" "u \<in> set (cs ! k)" "v \<in> set (cs ! k)" by blast
    then show ?l using assms by (intro exI [of _ "if k = j then i else k"]) auto
  qed
  then show "(u, v) \<in> class_pairs (cs[j := []]) \<longleftrightarrow> (u, v) \<in> class_pairs cs"
    by (simp add: class_pairs_def)
qed

lemma class_pairs_snoc: "class_pairs (cs @ [x]) = class_pairs cs \<union> set x \<times> set x"
proof (rule set_eqI, clarify)
  fix u v
  have "(\<exists>k < Suc (length cs). u \<in> set ((cs @ [x]) ! k) \<and> v \<in> set ((cs @ [x]) ! k)) \<longleftrightarrow>
      (\<exists>k < length cs. u \<in> set (cs ! k) \<and> v \<in> set (cs ! k)) \<or> u \<in> set x \<and> v \<in> set x"
    by (metis less_Suc_eq nth_append_left nth_append_length)
  then show "(u, v) \<in> class_pairs (cs @ [x]) \<longleftrightarrow> (u, v) \<in> class_pairs cs \<union> set x \<times> set x"
    by (simp add: class_pairs_def)
qed

lemma same_tdom_pairs: "same_tdom tdoms = class_pairs (columns tdoms)"
  by (fastforce simp: same_tdom_index class_pairs_def)

lemma same_tdom_equiv: "sym (same_tdom tdoms)" "tdoms_disjoint tdoms \<Longrightarrow> trans (same_tdom tdoms)"
proof -
  show "sym (same_tdom tdoms)" by (auto simp: same_tdom_def sym_def)
  assume d: "tdoms_disjoint tdoms"
  show "trans (same_tdom tdoms)"
  proof (rule transI)
    fix x y z assume "(x, y) \<in> same_tdom tdoms" "(y, z) \<in> same_tdom tdoms"
    then obtain i j where ij: "i < length tdoms" "j < length tdoms" "x \<in> set (columns tdoms ! i)"
      "y \<in> set (columns tdoms ! i)" "y \<in> set (columns tdoms ! j)" "z \<in> set (columns tdoms ! j)"
      by (auto simp: same_tdom_index)
    then have "i = j" using d unfolding tdoms_disjoint_def by blast
    then show "(x, z) \<in> same_tdom tdoms" using ij by (auto simp: same_tdom_index)
  qed
qed

text \<open>Both insertions make a list of classes in which one class holds \<open>K\<close> and the others avoid it.\<close>

lemma disjoint_update:
  assumes "tdoms_disjoint tdoms" "length (columns t) = length (columns tdoms)" "i < length tdoms"
    and "\<And>k. k < length tdoms \<Longrightarrow> k \<noteq> i \<Longrightarrow> set (columns t ! k) \<subseteq> set (columns tdoms ! k) \<and> set (columns t ! k) \<inter> set (columns t ! i) = {}"
  shows "tdoms_disjoint t"
  unfolding tdoms_disjoint_def
proof (intro allI impI)
  fix k l assume kl: "k < length t" "l < length t" "k \<noteq> l"
  then have n: "k < length tdoms" "l < length tdoms" using assms(2) by simp_all
  consider "k = i" | "l = i" | "k \<noteq> i" "l \<noteq> i" by blast
  then show "set (columns t ! k) \<inter> set (columns t ! l) = {}"
  proof cases
    case 3
    have "set (columns tdoms ! k) \<inter> set (columns tdoms ! l) = {}" using assms(1) n kl(3) unfolding tdoms_disjoint_def by blast
    then show ?thesis using assms(4) [OF n(1) 3(1)] assms(4) [OF n(2) 3(2)] by blast
  qed (use assms(4) n kl in blast)+
qed

lemma join_columns_related:
  assumes ok: "tdoms_disjoint tdoms"
  shows "tdoms_disjoint (join_columns a b tdoms) \<and> same_tdom (join_columns a b tdoms) = add_pair a b (same_tdom tdoms)"
proof -
  let ?f = "column_filter a b" and ?C = "columns tdoms" and ?n = "length tdoms" and ?t = "join_columns a b tdoms"
  let ?M = "DetermineMatchingEquivalentSets ?f tdoms"
  have ab: "fi_left_binding ?f = a" "fi_right_binding ?f = b" by (simp_all add: column_filter_def)
  have M: "k \<in> set ?M \<longleftrightarrow> k < ?n \<and> (a \<in> set (?C ! k) \<or> b \<in> set (?C ! k))" for k
    using matching_index(1) [of ?f tdoms] unfolding ab by blast
  have disj: "k < ?n \<Longrightarrow> l < ?n \<Longrightarrow> k \<noteq> l \<Longrightarrow> set (?C ! k) \<inter> set (?C ! l) = {}" for k l
    using ok unfolding tdoms_disjoint_def by blast
  let ?K = "{a, b} \<union> (\<Union>k \<in> set ?M. set (?C ! k))"
  have "same_tdom tdoms `` {a, b} = (\<Union>k \<in> set ?M. set (?C ! k))"
    using M by (fastforce simp: same_tdom_index)
  then have pair: "add_pair a b (same_tdom tdoms) = class_pairs ?C \<union> ?K \<times> ?K"
    using add_pair_classes [OF same_tdom_equiv(1) same_tdom_equiv(2) [OF ok], of a b] by (simp add: same_tdom_pairs)
  have cols: "columns ?t = (case ?M of
       [] \<Rightarrow> ?C @ [List.insert b [a]]
     | [i] \<Rightarrow> ?C[i := List.insert b (List.insert a (?C ! i))]
     | i # j # _ \<Rightarrow> ?C[i := fold List.insert (?C ! j) (?C ! i), j := []])"
    using columns_AddToEquivalenceSets [OF ok, of ?f] unfolding ab by (simp add: join_columns_def Let_def)
  have len: "length ?t = length (columns ?t)" by simp
  consider "?M = []" | i where "?M = [i]" | i j rest where "?M = i # j # rest" by (metis neq_Nil_conv)
  then show ?thesis
  proof cases
    case 1
    then have c: "columns ?t = ?C @ [List.insert b [a]]" using cols by simp
    then have "length ?t = Suc ?n" using len by simp
    moreover have "set (?C ! k) \<inter> {a, b} = {}" if "k < ?n" for k using M [of k] 1 that by auto
    ultimately have "tdoms_disjoint ?t"
      using disj unfolding tdoms_disjoint_def c by (auto simp: nth_append less_Suc_eq)
    then show ?thesis using 1 unfolding pair unfolding same_tdom_pairs c class_pairs_snoc by auto
  next
    case (2 i)
    then have c: "columns ?t = ?C[i := List.insert b (List.insert a (?C ! i))]" and i: "i < ?n" using cols M [of i] by simp_all
    have "tdoms_disjoint ?t"
    proof (rule disjoint_update [OF ok _ i])
      show "length (columns ?t) = length ?C" unfolding c by simp
      fix k assume k: "k < ?n" "k \<noteq> i"
      then show "set (columns ?t ! k) \<subseteq> set (?C ! k) \<and> set (columns ?t ! k) \<inter> set (columns ?t ! i) = {}"
        unfolding c using M [of k] 2 disj [OF k(1) i k(2)] i by auto
    qed
    then show ?thesis using 2 i unfolding pair unfolding same_tdom_pairs c by (subst class_pairs_update) auto
  next
    case (3 i j)
    from matching_two [OF ok 3] have ij: "i \<noteq> j" "i < ?n" "j < ?n" "?M = [i, j]" "{a, b} \<subseteq> set (?C ! i) \<union> set (?C ! j)"
      using 3 unfolding ab by simp_all
    then have c: "columns ?t = ?C[i := fold List.insert (?C ! j) (?C ! i), j := []]" using cols by simp
    have "tdoms_disjoint ?t"
    proof (rule disjoint_update [OF ok _ ij(2)])
      show "length (columns ?t) = length ?C" unfolding c by simp
      fix k assume k: "k < ?n" "k \<noteq> i"
      then show "set (columns ?t ! k) \<subseteq> set (?C ! k) \<and> set (columns ?t ! k) \<inter> set (columns ?t ! i) = {}"
        unfolding c using disj [OF k(1) ij(2) k(2)] disj [OF k(1) ij(3)] ij by (cases "k = j") auto
    qed
    moreover have "class_pairs (columns ?t) = class_pairs (?C[i := fold List.insert (?C ! j) (?C ! i)])"
      unfolding c using ij by (intro class_pairs_clear [of i]) auto
    moreover have "\<dots> = class_pairs ?C \<union> ?K \<times> ?K"
      using ij by (subst class_pairs_update) auto
    ultimately show ?thesis unfolding pair unfolding same_tdom_pairs by simp
  qed
qed

interpretation tdom_classes: equivalence_builder tdoms_disjoint same_tdom join_columns "\<lambda>_ _. True"
  by unfold_locales (simp_all add: join_columns_related)

text \<open>The columns of a filter; the domains depend on the columns only.\<close>

definition filter_columns :: "FilterInfo \<Rightarrow> (ColumnBinding \<times> ColumnBinding) list" where
  "filter_columns f =
     (if SingleColumnFilter f then [(fi_left_binding f, fi_left_binding f)]
      else if EmptyFilter f then [] else [(fi_left_binding f, fi_right_binding f)])"

lemma tdoms_disjoint_columns: "tdoms_disjoint tdoms \<longleftrightarrow> sorted_wrt (\<lambda>x y. set x \<inter> set y = {}) (columns tdoms)"
proof -
  have "(\<forall>i < n. \<forall>j < n. i \<noteq> j \<longrightarrow> P i j) \<longleftrightarrow> (\<forall>i j. i < j \<longrightarrow> j < n \<longrightarrow> P i j)" (is "?l \<longleftrightarrow> ?r")
    if P: "\<And>i j. P i j = P j i" for P :: "nat \<Rightarrow> nat \<Rightarrow> bool" and n
  proof
    assume ?r
    then have "P i j" if "i < n" "j < n" "i \<noteq> j" for i j
      using that P [of i j] by (cases "i < j") auto
    then show ?l by blast
  qed auto
  note index = this
  show ?thesis
    unfolding tdoms_disjoint_def sorted_wrt_iff_nth_less length_map
    by (rule index) (rule arg_cong [where f = "\<lambda>x. x = {}", OF Int_commute])
qed

lemma matching_cong:
  "columns tdoms = columns tdoms' \<Longrightarrow> fi_left_binding f = fi_left_binding f' \<Longrightarrow> fi_right_binding f = fi_right_binding f' \<Longrightarrow>
   DetermineMatchingEquivalentSets f tdoms = DetermineMatchingEquivalentSets f' tdoms'"
proof -
  assume c: "columns tdoms = columns tdoms'" and b: "fi_left_binding f = fi_left_binding f'" "fi_right_binding f = fi_right_binding f'"
  have len: "length tdoms = length tdoms'" using c by (metis length_map)
  have "td_equivalent_relations (tdoms ! i) = td_equivalent_relations (tdoms' ! i)" if "i < length tdoms" for i
    using c that len by (metis nth_map)
  then show ?thesis unfolding DetermineMatchingEquivalentSets_def len using b
    by (intro filter_cong) (simp_all add: len)
qed

lemma added_columns:
  assumes "tdoms_disjoint tdoms" "columns tdoms = columns tdoms'" "fi_left_binding f = a" "fi_right_binding f = b"
  shows "columns (AddToEquivalenceSets f (DetermineMatchingEquivalentSets f tdoms) tdoms) = columns (join_columns a b tdoms')"
proof -
  have "tdoms_disjoint tdoms'" using assms(1,2) by (simp add: tdoms_disjoint_columns)
  moreover have "DetermineMatchingEquivalentSets f tdoms = DetermineMatchingEquivalentSets (column_filter a b) tdoms'"
    using assms by (intro matching_cong) (simp_all add: column_filter_def)
  moreover have "fi_left_binding (column_filter a b) = a" "fi_right_binding (column_filter a b) = b"
    by (simp_all add: column_filter_def)
  ultimately show ?thesis
    using columns_AddToEquivalenceSets [of tdoms f] columns_AddToEquivalenceSets [of tdoms' "column_filter a b"] assms(1)
    unfolding join_columns_def Let_def assms(2-4) by (simp cong: list.case_cong)
qed

lemma single_columns:
  assumes "tdoms_disjoint tdoms" "columns tdoms = columns tdoms'"
  shows "columns (AddRelationTdom f tdoms) = columns (join_columns (fi_left_binding f) (fi_left_binding f) tdoms')"
proof -
  let ?a = "fi_left_binding f"
  have d: "tdoms_disjoint tdoms'" using assms by (simp add: tdoms_disjoint_columns)
  let ?M = "DetermineMatchingEquivalentSets (column_filter ?a ?a) tdoms'"
  have M: "k \<in> set ?M \<longleftrightarrow> k < length tdoms' \<and> ?a \<in> set (columns tdoms' ! k)" for k
    using matching_index(1) [of "column_filter ?a ?a" tdoms'] by (auto simp: column_filter_def)
  have cols: "columns (join_columns ?a ?a tdoms') = (case ?M of
       [] \<Rightarrow> columns tdoms' @ [[?a]]
     | [i] \<Rightarrow> (columns tdoms')[i := List.insert ?a (columns tdoms' ! i)]
     | i # j # _ \<Rightarrow> (columns tdoms')[i := fold List.insert (columns tdoms' ! j) (columns tdoms' ! i), j := []])"
    using columns_AddToEquivalenceSets [OF d, of "column_filter ?a ?a"] by (simp add: join_columns_def Let_def column_filter_def split: list.split)
  show ?thesis
  proof (cases "\<exists>t \<in> set tdoms. ?a \<in> set (td_equivalent_relations t)")
    case True
    then have "\<exists>c \<in> set (columns tdoms'). ?a \<in> set c" using assms(2) by (metis image_eqI list.set_map)
    then obtain k where k: "k < length tdoms'" "?a \<in> set (columns tdoms' ! k)" by (metis in_set_conv_nth length_map)
    then have "?M \<noteq> []" using M [of k] by auto
    moreover have "?M \<noteq> i # j # rest" for i j rest
    proof
      assume two: "?M = i # j # rest"
      then have "?a \<in> set (columns tdoms' ! i)" "?a \<in> set (columns tdoms' ! j)" using M [of i] M [of j] unfolding two by (simp_all del: nth_map)
      then show False using matching_two(1-3) [OF d two] d unfolding tdoms_disjoint_def by blast
    qed
    ultimately obtain i where i: "?M = [i]" by (metis neq_Nil_conv)
    then have "?a \<in> set (columns tdoms' ! i)" using M [of i] by (simp del: nth_map)
    then show ?thesis using i True cols assms(2) by (simp add: AddRelationTdom_def)
  next
    case False
    then have "\<not> (\<exists>c \<in> set (columns tdoms'). ?a \<in> set c)" using assms(2) by (metis imageE list.set_map)
    then have "?M = []" using M by (metis length_map list.set_intros(1) neq_Nil_conv nth_mem)
    then show ?thesis using False cols assms(2) by (simp add: AddRelationTdom_def new_tdom_def)
  qed
qed

lemma add_filter_columns:
  assumes "tdoms_disjoint tdoms" "columns tdoms = columns tdoms'"
  shows "columns (add_filter f tdoms) = columns (fold (\<lambda>(a, b). join_columns a b) (filter_columns f) tdoms')"
  using assms single_columns [OF assms] added_columns [OF assms refl refl, of f]
  by (simp add: add_filter_def filter_columns_def)

lemma fold_add_filter_columns:
  assumes "tdoms_disjoint tdoms" "columns tdoms = columns tdoms'"
  shows "columns (fold add_filter fs tdoms) = columns (fold (\<lambda>(a, b). join_columns a b) (concat (map filter_columns fs)) tdoms')"
  using assms
proof (induction fs arbitrary: tdoms tdoms')
  case (Cons f fs)
  let ?t = "add_filter f tdoms" and ?t' = "fold (\<lambda>(a, b). join_columns a b) (filter_columns f) tdoms'"
  have c: "columns ?t = columns ?t'" by (rule add_filter_columns [OF Cons.prems])
  have "tdoms_disjoint tdoms'" using Cons.prems by (simp add: tdoms_disjoint_columns)
  then have "tdoms_disjoint ?t'" by (simp add: filter_columns_def join_columns_related)
  then have "tdoms_disjoint ?t" using c by (simp add: tdoms_disjoint_columns)
  from Cons.IH [OF this c] show ?case by simp
qed simp

lemma RemoveEmpty_columns: "columns (RemoveEmptyTotalDomains tdoms) = filter (\<lambda>c. c \<noteq> []) (columns tdoms)"
  by (simp add: RemoveEmptyTotalDomains_def filter_map comp_def)

lemma InitEquivalentRelations_classes:
  "tdoms_disjoint (InitEquivalentRelations fs []) \<and> [] \<notin> set (columns (InitEquivalentRelations fs [])) \<and>
   same_tdom (InitEquivalentRelations fs []) = pairs_closure (set (concat (map filter_columns fs)))"
proof -
  have empty: "tdoms_disjoint []" "same_tdom [] = pairs_closure {}"
    by (simp_all add: tdoms_disjoint_def same_tdom_def pairs_closure_def)
  let ?t = "fold add_filter fs []" and ?t' = "fold (\<lambda>(a, b). join_columns a b) (concat (map filter_columns fs)) []"
  have c: "columns ?t = columns ?t'" by (rule fold_add_filter_columns [OF empty(1) refl])
  have "tdoms_disjoint ?t'" "same_tdom ?t' = pairs_closure (set (concat (map filter_columns fs)))"
    using tdom_classes.related_joins [OF empty, of "concat (map filter_columns fs)"] by auto
  then have "tdoms_disjoint ?t" "same_tdom ?t = pairs_closure (set (concat (map filter_columns fs)))"
    using c by (simp_all add: tdoms_disjoint_columns same_tdom_pairs)
  moreover have "same_tdom (RemoveEmptyTotalDomains ?t) = same_tdom ?t"
    by (fastforce simp: same_tdom_def RemoveEmptyTotalDomains_def)
  ultimately show ?thesis
    by (simp add: InitEquivalentRelations_def tdoms_disjoint_columns RemoveEmpty_columns sorted_wrt_filter)
qed

section \<open>Filters of the domains\<close>

text \<open>What \<open>CreateHyperGraphEdges\<close> leaves: both sides are known or none is.\<close>

definition filter_sided :: "nat set \<Rightarrow> FilterInfo \<Rightarrow> bool" where
  "filter_sided N f \<longleftrightarrow>
     sided N f \<or> fi_left_set f = None \<and> fi_right_set f = None \<and> fi_join_type f \<notin> {SEMI, ANTI}"

lemma tdoms_ok_update:
  "tdoms_ok N tdoms \<Longrightarrow> \<forall>f \<in> set (td_filters t). sided N f \<Longrightarrow> tdoms_ok N (tdoms[i := t])"
  unfolding tdoms_ok_def using set_update_subset_insert [of tdoms i t] by blast

lemma add_filter_ok:
  assumes ok: "tdoms_ok N tdoms" and f: "filter_sided N f"
  shows "tdoms_ok N (add_filter f tdoms)"
proof (cases "SingleColumnFilter f \<or> EmptyFilter f")
  case True
  then show ?thesis using ok by (auto simp: add_filter_def AddRelationTdom_def tdoms_ok_def new_tdom_def)
next
  case False
  let ?M = "DetermineMatchingEquivalentSets f tdoms"
  have s: "sided N f" using False f by (auto simp: filter_sided_def EmptyFilter_def)
  have nth: "\<forall>f \<in> set (td_filters (tdoms ! i)). sided N f" if "i \<in> set ?M" for i
    using that ok nth_mem [of i tdoms] by (auto simp: matching_index(1) tdoms_ok_def)
  have "tdoms_ok N (AddToEquivalenceSets f ?M tdoms)"
  proof (cases ?M)
    case Nil
    then show ?thesis using ok s by (auto simp: AddToEquivalenceSets_def tdoms_ok_def new_tdom_def)
  next
    case (Cons i M)
    show ?thesis
    proof (cases M)
      case Nil
      then show ?thesis using Cons ok s nth [of i] by (auto simp: AddToEquivalenceSets_def intro!: tdoms_ok_update)
    next
      case (Cons j M')
      then show ?thesis using \<open>?M = i # M\<close> ok s nth [of i] nth [of j]
        by (auto simp: AddToEquivalenceSets_def intro!: tdoms_ok_update)
    qed
  qed
  then show ?thesis using False by (simp add: add_filter_def)
qed

lemma InitEquivalentRelations_ok:
  assumes "list_all (filter_sided N) fs"
  shows "tdoms_ok N (InitEquivalentRelations fs [])"
proof -
  have "tdoms_ok N (fold add_filter fs tdoms)" if "tdoms_ok N tdoms" for tdoms
    using assms that by (induction fs arbitrary: tdoms) (simp_all add: add_filter_ok)
  from this [of "[]"] have "tdoms_ok N (fold add_filter fs [])" by (simp add: tdoms_ok_def)
  then show ?thesis by (auto simp: InitEquivalentRelations_def RemoveEmptyTotalDomains_def tdoms_ok_def)
qed

lemma update_tdom_filters [simp]: "td_filters (update_tdom d t) = td_filters t"
  by (simp add: update_tdom_def)

lemma update_first_ok: "tdoms_ok N tdoms \<Longrightarrow> tdoms_ok N (update_first key d tdoms)"
  by (induction key d tdoms rule: update_first.induct) (auto simp: tdoms_ok_def)

lemma UpdateTotalDomains_ok:
  assumes "tdoms_ok N tdoms"
  shows "tdoms_ok N (UpdateTotalDomains r stats tdoms)"
proof -
  have "tdoms_ok N (fold (\<lambda>i. update_first (r, i) (g i)) xs t)" if "tdoms_ok N t" for g xs t
    using that by (induction xs arbitrary: t) (simp_all add: update_first_ok)
  then show ?thesis using assms by (simp add: UpdateTotalDomains_def)
qed

lemma sort_tdoms_ok: "tdoms_ok N tdoms \<Longrightarrow> tdoms_ok N (sort_tdoms tdoms)"
  by (simp add: tdoms_ok_def sort_tdoms_def)

section \<open>Properties\<close>

text \<open>
  C20: DuckDB's total domains are the classes of columns that the filters equate. After
  \<open>InitEquivalentRelations\<close> no two domains share a column and none is empty, and two columns are
  in one domain exactly when filters over several relations link them, directly or through
  other columns (a filter on one column counts as a link of the column with itself).
\<close>

theorem total_domains_are_join_classes:
  "tdoms_disjoint (InitEquivalentRelations fs []) \<and> [] \<notin> set (columns (InitEquivalentRelations fs [])) \<and>
   same_tdom (InitEquivalentRelations fs []) = pairs_closure (set (concat (map filter_columns fs)))"
  by (rule InitEquivalentRelations_classes)

end
