(* ===== verification/PlanExact.thy ===== *)
theory PlanExact
  imports JoinTree StatSession CardEst_Props
begin

text \<open>
  The exact enumeration finds a cheapest plan for every connected set of relations. The state
  is described by the set \<open>F\<close> of the relation sets whose plan is final and the set \<open>Q\<close> of the
  pairs that were emitted.
\<close>

lemma sx_wp_ret_fun [sx_wp]: "sx_wp (sx_ret x) Q = Q x"
  by (simp add: fun_eq_iff sx_wp_ret)

section \<open>Cardinalities\<close>

text \<open>
  \<open>f\<close> gives the estimates of the sets \<open>A\<close>: DuckDB's estimate of two or more relations succeeds, and
  StarCE's when it is on; the one that is used is not negative, and no other value has been
  cached.
\<close>

definition estimates_by :: "Planner \<Rightarrow> JoinRelationSet set \<Rightarrow> (JoinRelationSet \<Rightarrow> real) \<Rightarrow> PlanState \<Rightarrow> bool" where
  "estimates_by pl A f s \<longleftrightarrow>
     (\<forall>S \<in> A. 2 \<le> length S \<longrightarrow>
        0 \<le> f S \<and>
        (\<exists>x. native_estimate (ps_tdoms s) (ps_cards s) S = Inr x \<and>
           (if pl_use_starce pl then fst (EstimateCardinality (pl_elapsed pl S) S (ps_sm s)) = Inr (f S)
            else x = f S)) \<and>
        ps_cards s (JoinRelationSet_ToString S) \<in> {None, Some (f S)})"

lemma estimates_by_frame [simp]:
  "estimates_by pl A f (s\<lparr>ps_plans := plans\<rparr>) = estimates_by pl A f s"
  "estimates_by pl A f (s\<lparr>ps_pairs := pairs\<rparr>) = estimates_by pl A f s"
  "estimates_by pl A f (s\<lparr>ps_graph := g\<rparr>) = estimates_by pl A f s"
  by (simp_all add: estimates_by_def)

text \<open>States that differ in the cached cardinalities and the records of the manager.\<close>

definition same_search :: "PlanState \<Rightarrow> PlanState \<Rightarrow> bool" where
  "same_search s t \<longleftrightarrow> ps_graph t = ps_graph s \<and> ps_plans t = ps_plans s \<and> ps_pairs t = ps_pairs s"

lemma same_search_refl [simp]: "same_search s s"
  by (simp add: same_search_def)

lemma estimates_by_cache:
  assumes "estimates_by pl A f s" "S \<in> A" "2 \<le> length S" "\<exists>e rels. sm = snd (EstimateCardinality e rels (ps_sm s)) \<or> sm = ps_sm s"
  shows "estimates_by pl A f (s\<lparr>ps_sm := sm, ps_cards := (ps_cards s)(JoinRelationSet_ToString S \<mapsto> f S)\<rparr>)"
proof -
  have "fst (EstimateCardinality e' r' sm) = fst (EstimateCardinality e' r' (ps_sm s))" for e' r'
    using assms(4) EstimateCardinality_stable by metis
  moreover have "native_estimate tdoms ((ps_cards s)(JoinRelationSet_ToString S \<mapsto> f S)) = native_estimate tdoms (ps_cards s)" for tdoms
  proof -
    have "S \<noteq> [r]" for r using assms(3) by auto
    then show ?thesis by (intro ext native_estimate_cong) auto
  qed
  moreover have "((ps_cards s)(JoinRelationSet_ToString S \<mapsto> f S)) (JoinRelationSet_ToString T) \<in> {None, Some (f T)}"
    if "ps_cards s (JoinRelationSet_ToString T) \<in> {None, Some (f T)}" for T
    using that by simp
  ultimately show ?thesis using assms(1) unfolding estimates_by_def by (simp cong: if_cong del: fun_upd_apply split del: if_split)
qed

lemma with_sm_eq: "with_sm m s = (fst (m (ps_sm s)), s\<lparr>ps_sm := snd (m (ps_sm s))\<rparr>)"
  by (simp add: with_sm_def split: prod.split)

lemma estimate_wp:
  assumes "estimates_by pl A f s" "S \<in> A" "2 \<le> length S"
  shows "sx_wp (EstimateCardinalityWithSet pl S) (\<lambda>c t. c = f S \<and> estimates_by pl A f t \<and> same_search s t) s"
proof -
  obtain x where S: "0 \<le> f S" "native_estimate (ps_tdoms s) (ps_cards s) S = Inr x"
    "if pl_use_starce pl then fst (EstimateCardinality (pl_elapsed pl S) S (ps_sm s)) = Inr (f S) else x = f S"
    "ps_cards s (JoinRelationSet_ToString S) \<in> {None, Some (f S)}"
    using assms unfolding estimates_by_def by blast
  show ?thesis
  proof (cases "ps_cards s (JoinRelationSet_ToString S)")
    case None
    let ?t = "\<lambda>sm. s\<lparr>ps_sm := sm, ps_cards := (ps_cards s)(JoinRelationSet_ToString S \<mapsto> f S)\<rparr>"
    obtain sm where sm: "(if pl_use_starce pl then with_sm (EstimateCardinality (pl_elapsed pl S) S)
          else sx_ret x) s = (Inr (f S), s\<lparr>ps_sm := sm\<rparr>)"
      "\<exists>e rels. sm = snd (EstimateCardinality e rels (ps_sm s)) \<or> sm = ps_sm s"
    proof (cases "pl_use_starce pl")
      case True
      then show ?thesis
        using S(3) that [of "snd (EstimateCardinality (pl_elapsed pl S) S (ps_sm s))"]
        by (simp add: with_sm_eq) blast
    next
      case False
      then show ?thesis using S(3) that [of "ps_sm s"] by (simp add: sx_ret_def)
    qed
    have "EstimateCardinalityWithSet pl S s = (Inr (f S), ?t sm)"
      using None S(2) sm(1) by (simp add: EstimateCardinalityWithSet_def sx_bind_prim sx_bind_eval(2) sx_eval)
    then show ?thesis
      using estimates_by_cache [OF assms sm(2)] by (simp add: sx_wp_def same_search_def)
  next
    case (Some c)
    then show ?thesis using S(4) assms(1)
      by (simp add: EstimateCardinalityWithSet_def sx_bind_prim sx_wp_def sx_eval)
  qed
qed

lemma to_idx_ok: "0 \<le> x \<Longrightarrow> \<exists>c. to_idx x = Inr c"
  by (simp add: to_idx_def)

section \<open>Emission of a pair\<close>

abbreviation plan_cost :: "PlanState \<Rightarrow> JoinRelationSet \<Rightarrow> real" where
  "plan_cost s S \<equiv> n_cost (the (ps_plans s S))"

definition joined :: "DPJoinNode \<Rightarrow> JoinRelationSet \<Rightarrow> JoinRelationSet \<Rightarrow> real \<Rightarrow> bool" where
  "joined p L R c \<longleftrightarrow> n_set p = join_union L R \<and> \<not> n_is_leaf p \<and> n_left_set p = L \<and> n_right_set p = R \<and> n_cost p = c"

lemma CreateJoinTree_wp:
  assumes est: "estimates_by pl A f s" and U: "join_union L R \<in> A" "2 \<le> length (join_union L R)"
    and lr: "n_set l = L" "n_set r = R" and info: "info \<noteq> []"
  shows "sx_wp (CreateJoinTree pl (join_union L R) info l r)
    (\<lambda>p t. joined p L R (f (join_union L R) + n_cost l + n_cost r) \<and> estimates_by pl A f t \<and> same_search s t) s"
proof -
  let ?U = "join_union L R"
  have 0: "0 \<le> f ?U" using est U by (simp add: estimates_by_def)
  have trans: "same_search s t \<Longrightarrow> same_search t u \<Longrightarrow> same_search s u" for t u by (simp add: same_search_def)
  have second: "sx_wp (EstimateCardinalityWithSet_idx pl ?U) (\<lambda>_ u. estimates_by pl A f u \<and> same_search s u) t"
    if "estimates_by pl A f t" "same_search s t" for t
    unfolding EstimateCardinalityWithSet_idx_def sx_wp_bind sx_wp_read
    by (rule sx_wp_mono [OF estimate_wp [OF that(1) U]]) (use to_idx_ok [OF 0] that(2) trans in blast)
  show ?thesis
    unfolding CreateJoinTree_def ComputeCost_def lr using info
    by (simp add: sx_wp, intro sx_wp_mono [OF estimate_wp [OF est U]])
      (auto simp: sx_wp joined_def lr intro!: sx_wp_mono [OF second])
qed

text \<open>The state after a pair: the cheaper plan of the union is kept.\<close>

definition stored :: "PlanState \<Rightarrow> JoinRelationSet \<Rightarrow> JoinRelationSet \<Rightarrow> real \<Rightarrow> PlanState \<Rightarrow> bool" where
  "stored s L R c t \<longleftrightarrow> ps_graph t = ps_graph s \<and> ps_pairs t = ps_pairs s \<and>
     (\<exists>p. joined p L R c \<and>
        ps_plans t = (if ps_plans s (join_union L R) = None \<or> n_cost p < plan_cost s (join_union L R)
                      then (ps_plans s)(join_union L R \<mapsto> p) else ps_plans s))"

lemma EmitPair_wp:
  assumes est: "estimates_by pl A f s" and U: "join_union L R \<in> A" "2 \<le> length (join_union L R)"
    and plans: "ps_plans s L = Some l" "ps_plans s R = Some r" "n_set l = L" "n_set r = R" and info: "info \<noteq> []"
  shows "sx_wp (EmitPair pl L R info)
    (\<lambda>_ t. estimates_by pl A f t \<and> stored s L R (f (join_union L R) + n_cost l + n_cost r) t) s"
    (is "sx_wp _ ?post s")
proof -
  let ?U = "join_union L R" and ?c = "f (join_union L R) + n_cost l + n_cost r"
  let ?keep = "\<lambda>p. sx_bind (sx_read (\<lambda>s. Inr (ps_plans s ?U))) (\<lambda>entry.
       case entry of
         Some old \<Rightarrow>
           if n_cost p < n_cost old
           then sx_bind (sx_mod (\<lambda>s. s\<lparr>ps_plans := (ps_plans s)(?U \<mapsto> p)\<rparr>)) (\<lambda>_. sx_ret p)
           else sx_ret old
       | None \<Rightarrow>
           sx_bind (sx_mod (\<lambda>s. s\<lparr>ps_plans := (ps_plans s)(?U \<mapsto> p)\<rparr>)) (\<lambda>_. sx_ret p))"
  have store: "sx_wp (?keep p) ?post t"
    if p: "joined p L R ?c \<and> estimates_by pl A f t \<and> same_search s t" for p t
  proof (cases "ps_plans s ?U")
    case None
    then have "stored s L R ?c (t\<lparr>ps_plans := (ps_plans t)(?U \<mapsto> p)\<rparr>)"
      using p by (auto simp: stored_def same_search_def)
    then show ?thesis using p None by (simp add: sx_wp sx_wp_read same_search_def)
  next
    case (Some old)
    have "stored s L R ?c (if n_cost p < n_cost old then t\<lparr>ps_plans := (ps_plans t)(?U \<mapsto> p)\<rparr> else t)"
      using p Some by (auto simp: stored_def same_search_def)
    then show ?thesis using p Some
      by (cases "n_cost p < n_cost old") (simp_all add: sx_wp sx_wp_read same_search_def)
  qed
  have "EmitPair pl L R info s = sx_bind (CreateJoinTree pl ?U info l r) ?keep s"
    using plans by (simp add: EmitPair_def sx_bind_prim Let_def)
  moreover have "sx_wp (sx_bind (CreateJoinTree pl ?U info l r) ?keep) ?post s"
    unfolding sx_wp_bind [of "CreateJoinTree pl ?U info l r"]
    by (rule sx_wp_mono [OF CreateJoinTree_wp [OF est U plans(3,4) info] store])
  ultimately show ?thesis by (simp only: sx_wp_def)
qed

section \<open>The state of the search\<close>

text \<open>
  A plan is the scan of a single relation, or joins two plans; its cost is at least the
  estimate of its set and the costs of the two plans, which may have become cheaper since.
\<close>

definition sound_plan :: "(nat set \<Rightarrow> nat set \<Rightarrow> bool) \<Rightarrow> (JoinRelationSet \<Rightarrow> real) \<Rightarrow> PlanState \<Rightarrow>
    JoinRelationSet \<Rightarrow> DPJoinNode \<Rightarrow> bool" where
  "sound_plan lk f s S p \<longleftrightarrow> n_set p = S \<and> ascending S \<and>
     (if n_is_leaf p then length S = 1 \<and> n_cost p = 0
      else ps_plans s (n_left_set p) \<noteq> None \<and> ps_plans s (n_right_set p) \<noteq> None \<and>
        set (n_left_set p) \<inter> set (n_right_set p) = {} \<and>
        lk (set (n_left_set p)) (set (n_right_set p)) \<and> S = join_union (n_left_set p) (n_right_set p) \<and>
        f S + plan_cost s (n_left_set p) + plan_cost s (n_right_set p) \<le> n_cost p)"

definition plans_ok :: "nat \<Rightarrow> (nat set \<Rightarrow> nat set \<Rightarrow> bool) \<Rightarrow> (JoinRelationSet \<Rightarrow> real) \<Rightarrow> PlanState \<Rightarrow> bool" where
  "plans_ok n lk f s \<longleftrightarrow>
     (\<forall>i < n. \<exists>p. ps_plans s [i] = Some p \<and> n_is_leaf p) \<and>
     (\<forall>S p. ps_plans s S = Some p \<longrightarrow> S \<noteq> [] \<and> set S \<subseteq> {..<n} \<and> sound_plan lk f s S p)"

definition search :: "Planner \<Rightarrow> JoinRelationSet set \<Rightarrow> nat \<Rightarrow> nat \<Rightarrow> QueryEdge \<Rightarrow> (JoinRelationSet \<Rightarrow> real) \<Rightarrow>
    JoinRelationSet set \<Rightarrow> (JoinRelationSet \<times> JoinRelationSet) set \<Rightarrow> PlanState \<Rightarrow> bool" where
  "search pl A k n g f F Q s \<longleftrightarrow>
     estimates_by pl A f s \<and> csgs n g \<subseteq> A \<and> ps_graph s = g \<and> F \<subseteq> csgs n g \<and>
     Q \<subseteq> ccps n g \<and> Q \<subseteq> F \<times> F \<and> ps_pairs s = k + card Q \<and> plans_ok n (linked g) f s \<and>
     (\<forall>S \<in> F. ps_plans s S \<noteq> None \<and> (\<forall>t. tree_ok g t \<and> rels t = set S \<longrightarrow> plan_cost s S \<le> C_out f t)) \<and>
     (\<forall>(C, D) \<in> Q. ps_plans s (join_union C D) \<noteq> None \<and>
        plan_cost s (join_union C D) \<le> f (join_union C D) + plan_cost s C + plan_cost s D)"

lemma searchD:
  assumes "search pl A k n g f F Q s"
  shows "estimates_by pl A f s" "csgs n g \<subseteq> A" "ps_graph s = g" "F \<subseteq> csgs n g" "Q \<subseteq> ccps n g" "Q \<subseteq> F \<times> F"
    "ps_pairs s = k + card Q" "plans_ok n (linked g) f s"
    "S \<in> F \<Longrightarrow> \<exists>p. ps_plans s S = Some p"
    "S \<in> F \<Longrightarrow> tree_ok g t \<Longrightarrow> rels t = set S \<Longrightarrow> plan_cost s S \<le> C_out f t"
    "(C, D) \<in> Q \<Longrightarrow> ps_plans s (join_union C D) \<noteq> None \<and>
        plan_cost s (join_union C D) \<le> f (join_union C D) + plan_cost s C + plan_cost s D"
  using assms by (auto simp: search_def)

lemma plans_okD:
  assumes "plans_ok n lk f s"
  shows "i < n \<Longrightarrow> \<exists>p. ps_plans s [i] = Some p \<and> n_is_leaf p \<and> n_cost p = 0"
    "ps_plans s S = Some p \<Longrightarrow> S \<noteq> [] \<and> set S \<subseteq> {..<n} \<and> sound_plan lk f s S p"
    "ps_plans s S = Some p \<Longrightarrow> n_set p = S \<and> ascending S"
proof -
  show 1: "ps_plans s S = Some p \<Longrightarrow> S \<noteq> [] \<and> set S \<subseteq> {..<n} \<and> sound_plan lk f s S p" for S p
    using assms by (auto simp: plans_ok_def)
  show "ps_plans s S = Some p \<Longrightarrow> n_set p = S \<and> ascending S"
    using 1 by (auto simp: sound_plan_def)
  show "\<exists>p. ps_plans s [i] = Some p \<and> n_is_leaf p \<and> n_cost p = 0" if i: "i < n"
  proof -
    obtain p where "ps_plans s [i] = Some p" "n_is_leaf p" using assms i unfolding plans_ok_def by blast
    then show ?thesis using 1 [of "[i]" p] by (auto simp: sound_plan_def)
  qed
qed

text \<open>A pair keeps the plans sound: plans only become cheaper.\<close>

lemma plans_ok_store:
  assumes ok: "plans_ok n lk f s" and CD: "ps_plans s C \<noteq> None" "ps_plans s D \<noteq> None" "set C \<inter> set D = {}" "lk (set C) (set D)"
    and t: "joined p C D (f (join_union C D) + plan_cost s C + plan_cost s D)"
      "ps_plans t = (if ps_plans s (join_union C D) = None \<or> n_cost p < plan_cost s (join_union C D)
                     then (ps_plans s)(join_union C D \<mapsto> p) else ps_plans s)"
    and len: "2 \<le> length (join_union C D)"
  shows "plans_ok n lk f t" and "ps_plans s S \<noteq> None \<Longrightarrow> ps_plans t S \<noteq> None \<and> plan_cost t S \<le> plan_cost s S"
proof -
  let ?U = "join_union C D"
  show down: "ps_plans s S \<noteq> None \<Longrightarrow> ps_plans t S \<noteq> None \<and> plan_cost t S \<le> plan_cost s S" for S
    using t(2) by auto
  obtain c d where cd: "ps_plans s C = Some c" "ps_plans s D = Some d" using CD by blast
  note C = plans_okD(2,3) [OF ok cd(1)] and D = plans_okD(2,3) [OF ok cd(2)]
  have leaf: "\<exists>q. ps_plans t [i] = Some q \<and> n_is_leaf q" if "i < n" for i
  proof -
    have "[i] \<noteq> ?U" using len by (metis One_nat_def Suc_1 length_Cons list.size(3) not_less_eq_eq order_refl)
    then have "ps_plans t [i] = ps_plans s [i]" using t(2) by simp
    then show ?thesis using plans_okD(1) [OF ok that] by auto
  qed
  have "S \<noteq> [] \<and> set S \<subseteq> {..<n} \<and> sound_plan lk f t S q" if q: "ps_plans t S = Some q" for S q
  proof (cases "ps_plans s S = Some q")
    case True
    note old = plans_okD(2) [OF ok True]
    then show ?thesis using down [of "n_left_set q"] down [of "n_right_set q"]
      by (auto simp: sound_plan_def split: if_splits)
  next
    case False
    then have S: "S = ?U" "q = p" using t(2) q by (auto split: if_splits)
    have "S \<noteq> []" using len S by auto
    moreover have "set S \<subseteq> {..<n}" "ascending S" using C D S by (simp_all add: ascending_join_union)
    ultimately show ?thesis using S t(1) CD down [of C] down [of D] by (auto simp: sound_plan_def joined_def)
  qed
  then show "plans_ok n lk f t" using leaf by (simp add: plans_ok_def)
qed

text \<open>
  The plan of a set is final when all its pairs were emitted with final plans: then it is a
  cheapest one.
\<close>

lemma promote:
  assumes g: "simple_graph n g" and s: "search pl A k n g f F Q s" and C: "C \<in> csgs n g"
    and pairs: "\<And>A B. (A, B) \<in> ccps n g \<Longrightarrow> join_union A B = C \<Longrightarrow> (A, B) \<in> Q \<and> A \<in> F \<and> B \<in> F"
  shows "search pl A k n g f (insert C F) Q s"
proof -
  have asc: "ascending C" and ne: "C \<noteq> []" and range: "set C \<subseteq> {..<n}"
    using C csgs_hd [OF C] by (auto simp: csgs_def)
  have best: "ps_plans s C \<noteq> None \<and> (\<forall>t. tree_ok g t \<and> rels t = set C \<longrightarrow> plan_cost s C \<le> C_out f t)"
  proof (cases "length C = 1")
    case True
    then obtain v where v: "C = [v]" by (metis One_nat_def Suc_length_conv length_0_conv)
    then obtain p where p: "ps_plans s C = Some p" "n_is_leaf p"
      "n_cost p = 0"
      using plans_okD(1) [OF searchD(8) [OF s], of v] range by auto
    then show ?thesis using v single_tree by fastforce
  next
    case False
    then have len: "2 \<le> length C" using ne by (cases C) (auto simp: Suc_le_eq)
    obtain A B where AB: "(A, B) \<in> ccps n g" "join_union A B = C" by (rule csg_has_pair [OF g C len])
    have some: "ps_plans s C \<noteq> None" using searchD(11) [OF s] pairs [OF AB] AB(2) by metis
    have "plan_cost s C \<le> C_out f t" if t: "tree_ok g t" "rels t = set C" for t
    proof (cases t)
      case (Relation v)
      then have "length C = 1" using t(2) asc by (metis card_1_singleton_iff ascending_distinct distinct_card rels.simps(1) One_nat_def)
      then show ?thesis using False by simp
    next
      case (Join l r)
      let ?l = "sorted_list_of_set (rels l)" and ?r = "sorted_list_of_set (rels r)"
      have lr: "rels l \<union> rels r = set C" "tree_ok g l" "tree_ok g r" using t Join by auto
      have "set C = rels r \<union> rels l" using lr(1) by (simp add: Un_commute)
      then have U: "join_union ?l ?r = C" "join_union ?r ?l = C"
        by (rule_tac [!] ascending_eq) (simp_all add: ascending_join_union asc lr(1))
      have cost: "C_out f t = f C + C_out f l + C_out f r"
        using lr(1) asc by (simp add: Join sorted_list_set)
      have below: "plan_cost s A \<le> C_out f u" if "A \<in> F" "tree_ok g u" "set A = rels u" for A u
        using searchD(10) [OF s that(1,2)] that(3) by simp
      have "(?l, ?r) \<in> ccps n g \<or> (?r, ?l) \<in> ccps n g"
        using join_pair [OF g] t range Join by metis
      then show ?thesis
      proof
        assume "(?l, ?r) \<in> ccps n g"
        then show ?thesis
          using pairs [OF _ U(1)] searchD(11) [OF s, of ?l ?r] U(1) cost below [of ?l l] below [of ?r r] lr by fastforce
      next
        assume "(?r, ?l) \<in> ccps n g"
        then show ?thesis
          using pairs [OF _ U(2)] searchD(11) [OF s, of ?r ?l] U(2) cost below [of ?l l] below [of ?r r] lr by fastforce
      qed
    qed
    then show ?thesis using some by simp
  qed
  then show ?thesis using s C unfolding search_def by blast
qed

section \<open>One pair\<close>

text \<open>
  A step that may give up: it goes on when the pairs stay within the budget \<open>B\<close>, and when it goes
  on, \<open>P\<close> holds.
\<close>

definition going :: "bool \<Rightarrow> bool \<Rightarrow> bool \<Rightarrow> bool" where
  "going B b P \<longleftrightarrow> (B \<longrightarrow> b) \<and> (b \<longrightarrow> P)"

lemma going_intro [simp, intro]: "going B True P = P" "going B False P = (\<not> B)"
  by (simp_all add: going_def)

lemma going_seq:
  assumes "going B b P" "P \<Longrightarrow> sx_wp m (\<lambda>b t. going B b (Q t)) t"
  shows "sx_wp (if b then m else sx_ret False) (\<lambda>b t. going B b (Q t)) t"
  using assms by (cases b) (simp_all add: sx_wp_ret)

lemma TryEmitPair_wp:
  assumes g: "simple_graph n g" and s: "search pl A k n g f F Q s" and pair: "(C, D) \<in> ccps n g" "(C, D) \<notin> Q"
    and F: "C \<in> F" "D \<in> F" "join_union C D \<notin> F" and budget: "B \<longrightarrow> k + card (ccps n g) < 1000000"
    and info: "info \<noteq> []"
  shows "sx_wp (TryEmitPair pl C D info) (\<lambda>b t. going B b (search pl A k n g f F (insert (C, D) Q) t)) s"
proof -
  let ?U = "join_union C D"
  note ok = searchD(8) [OF s]
  obtain l r where lr: "ps_plans s C = Some l" "ps_plans s D = Some r"
    using searchD(9) [OF s F(1)] searchD(9) [OF s F(2)] by blast
  have sets: "n_set l = C" "n_set r = D" using plans_okD(3) [OF ok lr(1)] plans_okD(3) [OF ok lr(2)] by simp_all
  have finQ: "finite Q" using searchD(5) [OF s] finite_ccps finite_subset by blast
  have "insert (C, D) Q \<subseteq> ccps n g" using searchD(5) [OF s] pair by auto
  then have small: "B \<longrightarrow> k + card (insert (C, D) Q) < 1000000"
    using card_mono [OF finite_ccps] budget by (meson add_left_mono le_less_trans)
  let ?s = "s\<lparr>ps_pairs := ps_pairs s + 1\<rparr>"
  have est: "estimates_by pl A f ?s" using searchD(1) [OF s] by simp
  have U: "?U \<in> A" "2 \<le> length ?U" using ccp_union(1,2) [OF g pair(1)] searchD(2) [OF s] by auto
  have CD: "set C \<inter> set D = {}" "linked g (set C) (set D)"
    using pair(1) by (auto simp: ccps_def complements_def)
  have post: "search pl A k n g f F (insert (C, D) Q) t"
    if t: "estimates_by pl A f t \<and> stored ?s C D (f ?U + n_cost l + n_cost r) t" for t
  proof -
    obtain p where p: "joined p C D (f ?U + plan_cost s C + plan_cost s D)"
      and plans: "ps_plans t = (if ps_plans s ?U = None \<or> n_cost p < plan_cost s ?U
                      then (ps_plans s)(?U \<mapsto> p) else ps_plans s)"
      using t lr unfolding stored_def by auto
    have sameF: "ps_plans t S = ps_plans s S" if "S \<in> F" for S using plans that F(3) by auto
    note store = plans_ok_store [OF ok _ _ CD p plans U(2)]
    have new: "ps_plans t ?U \<noteq> None \<and> plan_cost t ?U \<le> f ?U + plan_cost s C + plan_cost s D"
      using plans p by (auto simp: joined_def)
    have "ps_plans t (join_union X Y) \<noteq> None \<and>
        plan_cost t (join_union X Y) \<le> f (join_union X Y) + plan_cost t X + plan_cost t Y"
      if XY: "(X, Y) \<in> insert (C, D) Q" for X Y
    proof (cases "(X, Y) \<in> Q")
      case True
      then have "X \<in> F" "Y \<in> F" using searchD(6) [OF s] by auto
      then show ?thesis using searchD(11) [OF s True] store(2) [of "join_union X Y"] lr by (simp add: sameF)
    next
      case False
      then show ?thesis using XY new F by (simp add: sameF)
    qed
    moreover have "ps_pairs t = k + card (insert (C, D) Q)" "ps_graph t = g"
      using t finQ pair(2) searchD(3,7) [OF s] by (simp_all add: stored_def)
    moreover have "plans_ok n (linked g) f t" using store(1) lr by simp
    moreover have "ps_plans t S \<noteq> None \<and> (\<forall>u. tree_ok g u \<and> rels u = set S \<longrightarrow> plan_cost t S \<le> C_out f u)" if "S \<in> F" for S
      using searchD(9,10) [OF s that] sameF [OF that] by auto
    ultimately show ?thesis
      using t searchD(2,4,5,6) [OF s] pair F unfolding search_def by blast
  qed
  have "sx_wp (EmitPair pl C D info) (\<lambda>_ t. search pl A k n g f F (insert (C, D) Q) t) ?s"
    using sx_wp_mono [OF EmitPair_wp [OF est U _ _ sets info] post] lr by simp
  moreover have "ps_pairs s + 1 = k + card (insert (C, D) Q)" using finQ pair(2) searchD(7) [OF s] by simp
  ultimately show ?thesis
    unfolding TryEmitPair_def using small by (auto simp: sx_wp sx_wp_read)
qed

section \<open>The complements of one set\<close>

lemma sx_wp_all:
  assumes "I [] s"
    and "\<And>done x rest s. xs = done @ x # rest \<Longrightarrow> I done s \<Longrightarrow> sx_wp (f x) (\<lambda>b t. going B b (I (done @ [x]) t)) s"
  shows "sx_wp (sx_all f xs) (\<lambda>b t. going B b (I xs t)) s"
proof -
  have "xs = done @ rest \<Longrightarrow> I done s \<Longrightarrow> sx_wp (sx_all f rest) (\<lambda>b t. going B b (I xs t)) s" for "done" rest s
  proof (induction rest arbitrary: "done" s)
    case (Cons x rest)
    have "sx_wp (if b then sx_all f rest else sx_ret False) (\<lambda>b t. going B b (I xs t)) t"
      if "going B b (I (done @ [x]) t)" for b t
      by (rule going_seq [OF that Cons.IH]) (use Cons.prems(1) in simp_all)
    then show ?case
      using sx_wp_mono [OF assms(2) [OF Cons.prems]] by (simp add: sx_wp_bind)
  qed (simp add: sx_wp_ret)
  from this [of "[]" xs s] assms(1) show ?thesis by simp
qed

text \<open>The sets that \<open>C\<close> may still be paired with.\<close>

definition open_pair :: "nat \<Rightarrow> QueryEdge \<Rightarrow> JoinRelationSet set \<Rightarrow> JoinRelationSet \<Rightarrow> JoinRelationSet \<Rightarrow> bool" where
  "open_pair n g F C D \<longleftrightarrow> (C, D) \<in> ccps n g \<and> C \<in> F \<and> D \<in> F \<and> join_union C D \<notin> F"

lemma emit_connected_wp:
  assumes g: "simple_graph n g" and s: "search pl A k n g f F Q s" and D: "open_pair n g F C D" "(C, D) \<notin> Q"
    and budget: "B \<longrightarrow> k + card (ccps n g) < 1000000"
  shows "sx_wp (emit_connected pl g C D) (\<lambda>b t. going B b (search pl A k n g f F (insert (C, D) Q) t)) s"
    and "sx_wp (emit_planned pl g C D) (\<lambda>b t. going B b (search pl A k n g f F (insert (C, D) Q) t)) s"
proof -
  have "ascending C" "ascending D" "linked g (set C) (set D)"
    using D(1) by (auto simp: open_pair_def ccps_def complements_def csgs_def)
  then have con: "GetConnections g C D \<noteq> []" by (simp add: GetConnections_simple [OF g] linked_def)
  then have "sx_wp (TryEmitPair pl C D (GetConnections g C D)) (\<lambda>b t. going B b (search pl A k n g f F (insert (C, D) Q) t)) s"
    using TryEmitPair_wp [OF g s _ D(2) _ _ _ budget con] D(1) by (simp add: open_pair_def)
  then show conn: "sx_wp (emit_connected pl g C D) (\<lambda>b t. going B b (search pl A k n g f F (insert (C, D) Q) t)) s"
    using con by (simp add: emit_connected_def Let_def)
  have "ps_plans s D \<noteq> None" using searchD(9) [OF s] D(1) by (auto simp: open_pair_def)
  then show "sx_wp (emit_planned pl g C D) (\<lambda>b t. going B b (search pl A k n g f F (insert (C, D) Q) t)) s"
    using conn by (simp add: emit_planned_def sx_wp sx_wp_read)
qed

lemma emit_planned_all:
  assumes g: "simple_graph n g" and s: "search pl A k n g f F Q s" and budget: "B \<longrightarrow> k + card (ccps n g) < 1000000"
    and Ds: "distinct Ds" "\<And>D. D \<in> set Ds \<Longrightarrow> open_pair n g F C D \<and> (C, D) \<notin> Q"
  shows "sx_wp (sx_all (emit_planned pl g C) Ds) (\<lambda>b t. going B b (search pl A k n g f F (Q \<union> {C} \<times> set Ds) t)) s"
proof (rule sx_wp_all [where I = "\<lambda>ds. search pl A k n g f F (Q \<union> {C} \<times> set ds)"])
  fix ds D rest t
  assume split: "Ds = ds @ D # rest" and t: "search pl A k n g f F (Q \<union> {C} \<times> set ds) t"
  have "(C, D) \<notin> Q \<union> {C} \<times> set ds" "open_pair n g F C D" using split Ds by auto
  moreover have "insert (C, D) (Q \<union> {C} \<times> set ds) = Q \<union> {C} \<times> set (ds @ [D])" by auto
  ultimately show "sx_wp (emit_planned pl g C D) (\<lambda>b t. going B b (search pl A k n g f F (Q \<union> {C} \<times> set (ds @ [D])) t)) t"
    using emit_connected_wp(2) [OF g t _ _ budget, of C D] by simp
qed (use s in simp)

lemma emit_csg_loop_wp:
  assumes g: "simple_graph n g" and n: "n = pl_NumRelations pl" and budget: "B \<longrightarrow> k + card (ccps n g) < 1000000"
  shows "search pl A k n g f F Q s \<Longrightarrow> set xs \<subseteq> {..<n} \<inter> X \<Longrightarrow> distinct xs \<Longrightarrow> distinct (cmp_loop n g xs X) \<Longrightarrow>
    (\<And>D. D \<in> set (cmp_loop n g xs X) \<Longrightarrow> open_pair n g F C D \<and> (C, D) \<notin> Q) \<Longrightarrow>
    sx_wp (emit_csg_loop pl g C xs X) (\<lambda>b t. going B b (search pl A k n g f F (Q \<union> {C} \<times> set (cmp_loop n g xs X)) t)) s"
proof (induction xs arbitrary: X Q s)
  case Nil
  then show ?case by (simp add: sx_wp)
next
  case (Cons x xs)
  let ?rec = "csg_rec (Suc n) g [x] X" and ?loop = "cmp_loop n g xs (X - {x})"
  let ?Q1 = "insert (C, [x]) Q" and ?Q2 = "insert (C, [x]) Q \<union> {C} \<times> set ?rec"
  have all: "cmp_loop n g (x # xs) X = [x] # ?rec @ ?loop" by simp
  have st: "start n g [x] X" using Cons.prems(2) by (intro start_single [OF g]) auto
  have ok: "open_pair n g F C D \<and> (C, D) \<notin> Q" if "D \<in> insert [x] (set ?rec \<union> set ?loop)" for D
    using Cons.prems(5) that unfolding all by (simp del: csg_rec.simps)
  have d: "distinct ?rec" "distinct ?loop" "[x] \<notin> set ?rec" "[x] \<notin> set ?loop" "set ?rec \<inter> set ?loop = {}"
    using Cons.prems(4) unfolding all by (auto simp del: csg_rec.simps)
  have first: "sx_wp (emit_connected pl g C [x]) (\<lambda>b t. going B b (search pl A k n g f F ?Q1 t)) s"
    using emit_connected_wp(1) [OF g Cons.prems(1) _ _ budget] ok [of "[x]"] by blast
  have second: "sx_wp (EnumerateCmpRecursive (Suc (pl_NumRelations pl)) pl g C [x] X)
      (\<lambda>b t. going B b (search pl A k n g f F ?Q2 t)) t" if "search pl A k n g f F ?Q1 t" for t
    unfolding n [symmetric] cmp.traversal [OF st fuel_enough]
    by (rule emit_planned_all [OF g that budget d(1)]) (use ok d in blast)
  have third: "sx_wp (emit_csg_loop pl g C xs (X - {x}))
      (\<lambda>b t. going B b (search pl A k n g f F (Q \<union> {C} \<times> set (cmp_loop n g (x # xs) X)) t)) t" if t: "search pl A k n g f F ?Q2 t" for t
  proof -
    have Q: "Q \<union> {C} \<times> set (cmp_loop n g (x # xs) X) = ?Q2 \<union> {C} \<times> set ?loop" unfolding all by auto
    show ?thesis unfolding Q
    proof (rule Cons.IH [OF t _ _ d(2)])
      show "set xs \<subseteq> {..<n} \<inter> (X - {x})" "distinct xs" using Cons.prems(2,3) by auto
      show "\<And>D. D \<in> set ?loop \<Longrightarrow> open_pair n g F C D \<and> (C, D) \<notin> ?Q2" using ok d by blast
    qed
  qed
  let ?post = "\<lambda>b t. going B b (search pl A k n g f F (Q \<union> {C} \<times> set (cmp_loop n g (x # xs) X)) t)"
  have rest: "sx_wp (sx_bind (EnumerateCmpRecursive (Suc (pl_NumRelations pl)) pl g C [x] X)
      (\<lambda>b. if b then emit_csg_loop pl g C xs (X - {x}) else sx_ret False)) ?post t"
    if "search pl A k n g f F ?Q1 t" for t
    unfolding sx_wp_bind by (rule sx_wp_mono [OF second [OF that] going_seq [OF _ third]])
  show ?case
    unfolding emit_csg_loop.simps sx_wp_bind [of "emit_connected pl g C [x]"]
    by (rule sx_wp_mono [OF first going_seq [OF _ rest]])
qed

lemma EmitCSG_wp:
  assumes g: "simple_graph n g" and n: "n = pl_NumRelations pl" and budget: "B \<longrightarrow> k + card (ccps n g) < 1000000"
    and s: "search pl A k n g f F Q s" and C: "C \<in> csgs n g"
    and open_pairs: "\<And>D. D \<in> complements n g C \<Longrightarrow> open_pair n g F C D \<and> (C, D) \<notin> Q"
  shows "sx_wp (EmitCSG pl g C) (\<lambda>b t. going B b (search pl A k n g f F (Q \<union> {C} \<times> complements n g C) t)) s"
proof -
  let ?X = "{..<hd C} \<union> set C"
  let ?ns = "GetNeighbors g C ?X"
  have asc: "ascending C" and range: "set C \<subseteq> {..<n}" using C by (simp_all add: csgs_def)
  note order = cmp_order_sets [OF g C]
  have ns: "set ?ns \<subseteq> {..<n}" using adjD [OF g] by (auto simp: GetNeighbors_simple [OF g asc])
  show ?thesis
  proof (cases "length C = n")
    case True
    then have "card (set C) = n" using asc by (simp add: ascending_distinct distinct_card)
    then have "set C = {..<n}" using range by (intro card_subset_eq) auto
    then have "complements n g C = {}" using csgs_hd by (fastforce simp: complements_def csgs_def)
    then show ?thesis using s True n by (simp add: EmitCSG_def sx_wp)
  next
    case False
    show ?thesis
    proof (cases "?ns = []")
      case True
      then have "complements n g C = {}" using order by (simp add: cmp_order_def Let_def)
      then show ?thesis using s True False n by (simp add: EmitCSG_def sx_wp Let_def)
    next
      case ne: False
      have loop: "cmp_loop n g (rev (sort ?ns)) (?X \<union> set ?ns) = cmp_order n g C"
        by (simp add: cmp_order_def Let_def)
      have "sx_wp (emit_csg_loop pl g C (rev (sort ?ns)) (?X \<union> set ?ns))
          (\<lambda>b t. going B b (search pl A k n g f F (Q \<union> {C} \<times> set (cmp_loop n g (rev (sort ?ns)) (?X \<union> set ?ns))) t)) s"
        by (rule emit_csg_loop_wp [OF g n budget s]) (use order ns open_pairs in \<open>auto simp: loop\<close>)
      then have "sx_wp (emit_csg_loop pl g C (rev (sort ?ns)) (?X \<union> set ?ns))
          (\<lambda>b t. going B b (search pl A k n g f F (Q \<union> {C} \<times> complements n g C) t)) s"
        unfolding loop conjunct1 [OF order] .
      then show ?thesis using ne False n by (simp add: EmitCSG_def Let_def)
    qed
  qed
qed

section \<open>All sets\<close>

definition pairs_of :: "nat \<Rightarrow> QueryEdge \<Rightarrow> JoinRelationSet list \<Rightarrow> (JoinRelationSet \<times> JoinRelationSet) set" where
  "pairs_of n g Cs = (SIGMA C : set Cs. complements n g C)"

text \<open>One step of the order: the plan of \<open>C\<close> becomes final, then its pairs are emitted.\<close>

lemma exact_step:
  assumes g: "simple_graph n g" and n: "n = pl_NumRelations pl" and budget: "B \<longrightarrow> k + card (ccps n g) < 1000000"
    and order: "exact_order n g = before @ C # after"
    and s: "search pl A k n g f (set before) (pairs_of n g before) s"
  shows "sx_wp (EmitCSG pl g C) (\<lambda>b t. going B b (search pl A k n g f (set (before @ [C])) (pairs_of n g (before @ [C])) t)) s"
    and "ps_plans s C \<noteq> None"
proof -
  have sets: "set (exact_order n g) = csgs n g" by (rule exact_order_sets [OF g])
  have C: "C \<in> csgs n g" using sets order by auto
  have sorted: "sorted_wrt (\<lambda>A B. \<not> needed A B) (before @ C # after)"
    using exact_order_sets(2) [OF g] order by simp
  have later: "\<not> needed A C" if "A \<in> set before" for A
    using sorted that by (auto simp: sorted_wrt_append)
  have earlier: "B \<in> set before" if "B \<in> csgs n g" "B \<noteq> C" "needed C B" for B
    by (rule exact_order_before [OF g order that])
  have new: "C \<notin> set before" using later [of C] by (auto simp: needed_def)
  have "search pl A k n g f (insert C (set before)) (pairs_of n g before) s"
  proof (rule promote [OF g s C])
    fix A B assume AB: "(A, B) \<in> ccps n g" "join_union A B = C"
    note U = ccp_union [OF g AB(1)]
    have in_csgs: "A \<in> csgs n g" "B \<in> csgs n g" "hd A < hd B" "B \<in> complements n g A"
      using AB(1) by (auto simp: ccps_def complements_def)
    have "hd C = hd A" "set A \<subset> set C" using U AB(2) by auto
    moreover from this have "A \<noteq> C" "B \<noteq> C" using in_csgs(3) by auto
    ultimately have "A \<in> set before" "B \<in> set before"
      using earlier [OF in_csgs(1)] earlier [OF in_csgs(2)] in_csgs(3) by (auto simp: needed_def)
    then show "(A, B) \<in> pairs_of n g before \<and> A \<in> set before \<and> B \<in> set before"
      using in_csgs(4) by (simp add: pairs_of_def)
  qed
  then have s': "search pl A k n g f (set (before @ [C])) (pairs_of n g before) s" by simp
  show "ps_plans s C \<noteq> None" using searchD(9) [OF s', of C] by auto
  have op: "open_pair n g (set (before @ [C])) C D \<and> (C, D) \<notin> pairs_of n g before" if D: "D \<in> complements n g C" for D
  proof -
    have pair: "(C, D) \<in> ccps n g" using C D by (simp add: ccps_def)
    note U = ccp_union [OF g pair]
    have "D \<in> csgs n g" "hd C < hd D" using D by (auto simp: complements_def)
    then have "D \<in> set before" using earlier [of D] by (auto simp: needed_def)
    moreover have "needed (join_union C D) C" using U by (auto simp: needed_def)
    then have "join_union C D \<notin> set before" using later by blast
    moreover have "join_union C D \<noteq> C"
    proof
      assume "join_union C D = C"
      with U(4) show False by (simp only: less_irrefl)
    qed
    ultimately show ?thesis using pair new by (simp add: open_pair_def pairs_of_def)
  qed
  have "pairs_of n g before \<union> {C} \<times> complements n g C = pairs_of n g (before @ [C])"
    by (auto simp: pairs_of_def)
  then show "sx_wp (EmitCSG pl g C) (\<lambda>b t. going B b (search pl A k n g f (set (before @ [C])) (pairs_of n g (before @ [C])) t)) s"
    using EmitCSG_wp [OF g n budget s' C op] by simp
qed

lemma exact_visit_step:
  assumes "simple_graph n g" "n = pl_NumRelations pl" "B \<longrightarrow> k + card (ccps n g) < 1000000"
    "exact_order n g = before @ C # after" "search pl A k n g f (set before) (pairs_of n g before) s"
  shows "sx_wp (emit_csg_planned pl g C) (\<lambda>b t. going B b (search pl A k n g f (set (before @ [C])) (pairs_of n g (before @ [C])) t)) s"
  using exact_step [OF assms] by (simp add: emit_csg_planned_def sx_wp sx_wp_read)

lemma SolveJoinOrderExactly_wp:
  assumes g: "simple_graph n g" and n: "n = pl_NumRelations pl" and budget: "B \<longrightarrow> k + card (ccps n g) < 1000000"
    and s: "search pl A k n g f {} {} s"
  shows "sx_wp (SolveJoinOrderExactly pl) (\<lambda>b t. going B b (search pl A k n g f (csgs n g) (ccps n g) t)) s"
proof -
  let ?block = "\<lambda>i. [i] # csg_rec (Suc n) g [i] {..i}"
  let ?J = "\<lambda>xs. search pl A k n g f (set xs) (pairs_of n g xs)"
  let ?body = "\<lambda>i. sx_bind (EmitCSG pl g [i]) (\<lambda>b.
           if b then EnumerateCSGRecursive (Suc (pl_NumRelations pl)) pl g [i] {..i} else sx_ret False)"
  have whole: "sx_wp (sx_all ?body (rev [0..<n])) (\<lambda>b t. going B b (?J (concat (map ?block (rev [0..<n]))) t)) s"
  proof (rule sx_wp_all [where I = "\<lambda>is. ?J (concat (map ?block is))"])
    fix "done" i rest t
    assume split: "rev [0..<n] = done @ i # rest" and t: "?J (concat (map ?block done)) t"
    let ?before = "concat (map ?block done)" and ?rec = "csg_rec (Suc n) g [i] {..i}"
      and ?after = "concat (map ?block rest)"
    have "i \<in> set (rev [0..<n])" unfolding split by simp
    then have st: "start n g [i] {..i}" by (intro start_single [OF g]) auto
    have order: "exact_order n g = ?before @ [i] # ?rec @ ?after"
      unfolding exact_order_def split by simp
    have first: "sx_wp (EmitCSG pl g [i]) (\<lambda>b u. going B b (?J (?before @ [[i]]) u)) t"
      using exact_step(1) [OF g n budget order t] .
    have rec: "sx_wp (EnumerateCSGRecursive (Suc (pl_NumRelations pl)) pl g [i] {..i})
        (\<lambda>b v. going B b (?J ((?before @ [[i]]) @ ?rec) v)) u" if u: "?J (?before @ [[i]]) u" for u
      unfolding n [symmetric] csg.traversal [OF st fuel_enough]
    proof (rule sx_wp_all [where I = "\<lambda>xs. ?J ((?before @ [[i]]) @ xs)"])
      fix xs C ys v assume rec: "?rec = xs @ C # ys" and v: "?J ((?before @ [[i]]) @ xs) v"
      have "exact_order n g = ((?before @ [[i]]) @ xs) @ C # (ys @ ?after)" unfolding order rec by simp
      from exact_visit_step [OF g n budget this v]
      show "sx_wp (emit_csg_planned pl g C) (\<lambda>b w. going B b (?J ((?before @ [[i]]) @ xs @ [C]) w)) v"
        by (simp only: append_assoc)
    qed (use u in simp)
    have blocks: "concat (map ?block (done @ [i])) = (?before @ [[i]]) @ ?rec"
      by (simp del: csg_rec.simps)
    show "sx_wp (?body i) (\<lambda>b u. going B b (?J (concat (map ?block (done @ [i]))) u)) t"
      unfolding sx_wp_bind blocks by (rule sx_wp_mono [OF first going_seq [OF _ rec]])
  qed (use s in \<open>simp add: pairs_of_def\<close>)
  have order: "concat (map ?block (rev [0..<n])) = exact_order n g" by (simp add: exact_order_def)
  have all: "set (exact_order n g) = csgs n g" "pairs_of n g (exact_order n g) = ccps n g"
    using exact_order_sets(1) [OF g] by (simp_all add: pairs_of_def ccps_def)
  have graph: "ps_graph s = g" using searchD(3) [OF s] .
  have "SolveJoinOrderExactly pl s = sx_all ?body (rev [0..<n]) s"
    by (simp only: SolveJoinOrderExactly_def sx_bind_prim graph sum.case n)
  with whole show ?thesis unfolding order all sx_wp_def by (simp only:)
qed

end
