(* ===== verification/PlanSearch.thy ===== *)
theory PlanSearch
  imports PlanExact
begin

text \<open>
  Plans for a query: the leaves, the exact search, and the tree that the plans describe.
\<close>

section \<open>The tree of a plan\<close>

lemma plan_tree_exists:
  assumes ok: "plans_ok n lk f s"
  shows "ps_plans s S \<noteq> None \<Longrightarrow>
    \<exists>t. plan_tree (ps_plans s) S t \<and> joins lk t \<and> rels t = set S \<and> C_out f t \<le> plan_cost s S"
proof (induction "length S" arbitrary: S rule: less_induct)
  case less
  then obtain p where p: "ps_plans s S = Some p" by blast
  note sound = plans_okD(2) [OF ok p]
  have asc: "ascending S" using plans_okD(3) [OF ok p] by simp
  show ?case
  proof (cases "n_is_leaf p")
    case True
    then obtain v where v: "S = [v]" using sound by (auto simp: sound_plan_def length_Suc_conv)
    then have "plan_tree (ps_plans s) S (Relation v)" using p True by (auto intro: plan_tree.leaf)
    then show ?thesis using sound True p v by (intro exI [of _ "Relation v"]) (simp add: sound_plan_def)
  next
    case False
    let ?L = "n_left_set p" and ?R = "n_right_set p"
    have LR: "ps_plans s ?L \<noteq> None" "ps_plans s ?R \<noteq> None" "set ?L \<inter> set ?R = {}" "lk (set ?L) (set ?R)"
      "S = join_union ?L ?R" "f S + plan_cost s ?L + plan_cost s ?R \<le> n_cost p"
      using sound False by (auto simp: sound_plan_def)
    have nonempty: "0 < card (set Y)" "length Y = card (set Y)" if "ps_plans s Y \<noteq> None" for Y
      using that plans_okD(2,3) [OF ok] by (auto simp: card_gt_0_iff ascending_distinct distinct_card)
    have "card (set S) = card (set ?L) + card (set ?R)"
      using LR(3,5) by (metis List.finite_set card_Un_disjoint set_join_union)
    then have "length ?L < length S" "length ?R < length S"
      using nonempty [OF LR(1)] nonempty [OF LR(2)] nonempty [OF less.prems] by linarith+
    then obtain l r where lr: "plan_tree (ps_plans s) ?L l" "joins lk l" "rels l = set ?L" "C_out f l \<le> plan_cost s ?L"
      "plan_tree (ps_plans s) ?R r" "joins lk r" "rels r = set ?R" "C_out f r \<le> plan_cost s ?R"
      using less.hyps LR(1,2) by meson
    have S: "set S = set ?L \<union> set ?R" using LR(5) by (metis set_join_union)
    have "plan_tree (ps_plans s) S (Join l r)" using p False lr by (auto intro: plan_tree.join)
    moreover have "C_out f (Join l r) \<le> plan_cost s S"
      using lr LR(6) p asc by (simp add: S [symmetric] sorted_list_set)
    ultimately show ?thesis using lr LR S by (intro exI [of _ "Join l r"]) simp
  qed
qed

section \<open>The leaves\<close>

text \<open>The domains and the cardinalities after the leaves.\<close>

definition leaf_tdoms :: "FilterInfo list \<Rightarrow> RelationStats list \<Rightarrow> RelationsToTDom list" where
  "leaf_tdoms filters relation_stats =
     fold (\<lambda>(i, stats) tdoms. sort_tdoms (UpdateTotalDomains i stats tdoms))
       (zip [0..<length relation_stats] relation_stats) (InitEquivalentRelations filters [])"

definition leaf_cardinalities :: "RelationStats list \<Rightarrow> string \<Rightarrow> real option" where
  "leaf_cardinalities relation_stats =
     fold (\<lambda>(i, stats) cards. cards(JoinRelationSet_ToString [i] \<mapsto> of_nat (rs_cardinality stats)))
       (zip [0..<length relation_stats] relation_stats) Map.empty"

lemma init_leaf_frame:
  "ps_graph (fold init_leaf ics s) = ps_graph s \<and> ps_pairs (fold init_leaf ics s) = ps_pairs s \<and>
   ps_sm (fold init_leaf ics s) = ps_sm s \<and>
   ps_tdoms (fold init_leaf ics s) = fold (\<lambda>(i, stats) tdoms. sort_tdoms (UpdateTotalDomains i stats tdoms)) ics (ps_tdoms s) \<and>
   ps_cards (fold init_leaf ics s) =
     fold (\<lambda>(i, stats) cards. cards(JoinRelationSet_ToString [i] \<mapsto> of_nat (rs_cardinality stats))) ics (ps_cards s)"
  by (induction ics arbitrary: s) (auto simp: init_leaf_def)

lemma leaf_cards_fold:
  "r \<in> fst ` set ics \<or> (\<exists>c. cards (JoinRelationSet_ToString [r]) = Some c \<and> (0 :: real) \<le> c) \<Longrightarrow>
   \<exists>c. fold (\<lambda>(i, stats) cards. cards(JoinRelationSet_ToString [i] \<mapsto> of_nat (rs_cardinality stats))) ics cards
     (JoinRelationSet_ToString [r]) = Some c \<and> 0 \<le> c"
proof (induction ics arbitrary: cards)
  case (Cons ic ics)
  obtain i stats where ic: "ic = (i, stats)" by (cases ic)
  let ?c = "cards(JoinRelationSet_ToString [i] \<mapsto> real (rs_cardinality stats))"
  have "r \<in> fst ` set ics \<or> (\<exists>c. ?c (JoinRelationSet_ToString [r]) = Some c \<and> 0 \<le> c)"
    using Cons.prems ic by (cases "r = i") auto
  from Cons.IH [of ?c, OF this] show ?case by (simp add: ic)
qed simp

lemma leaf_cards_other:
  "2 \<le> length S \<Longrightarrow> fold (\<lambda>(i, stats) cards. cards(JoinRelationSet_ToString [i] \<mapsto> of_nat (rs_cardinality stats))) ics cards
     (JoinRelationSet_ToString S) = cards (JoinRelationSet_ToString S)"
  by (induction ics arbitrary: cards) auto

lemma leaf_cardinalities_ok: "leaf_cards {..<length relation_stats} (leaf_cardinalities relation_stats)"
  unfolding leaf_cards_def
proof
  let ?ics = "zip [0..<length relation_stats] relation_stats"
  fix r assume "r \<in> {..<length relation_stats}"
  moreover have "fst ` set ?ics = {..<length relation_stats}" by (simp add: atLeast_upt flip: set_map)
  ultimately show "\<exists>c. leaf_cardinalities relation_stats (JoinRelationSet_ToString [r]) = Some c \<and> 0 \<le> c"
    using leaf_cards_fold [of r ?ics Map.empty] by (simp add: leaf_cardinalities_def)
qed

lemma leaf_tdoms_ok: "list_all (filter_sided V) filters \<Longrightarrow> tdoms_ok V (leaf_tdoms filters relation_stats)"
proof -
  assume f: "list_all (filter_sided V) filters"
  have "tdoms_ok V (fold (\<lambda>(i, stats) tdoms. sort_tdoms (UpdateTotalDomains i stats tdoms)) ics t)" if "tdoms_ok V t" for ics t
    using that by (induction ics arbitrary: t) (auto simp: UpdateTotalDomains_ok sort_tdoms_ok)
  then show ?thesis using InitEquivalentRelations_ok [OF f] by (simp add: leaf_tdoms_def)
qed

definition leaf_plan :: "JoinRelationSet \<Rightarrow> DPJoinNode \<Rightarrow> bool" where
  "leaf_plan S p \<longleftrightarrow> n_set p = S \<and> n_is_leaf p \<and> n_cost p = 0 \<and> length S = 1"

lemma init_leaf_plans:
  "(\<forall>S p. ps_plans s S = Some p \<longrightarrow> leaf_plan S p) \<Longrightarrow>
   (\<forall>S p. ps_plans (fold init_leaf ics s) S = Some p \<longrightarrow> leaf_plan S p) \<and>
   {S. ps_plans (fold init_leaf ics s) S \<noteq> None} = {S. ps_plans s S \<noteq> None} \<union> (\<lambda>ic. [fst ic]) ` set ics"
proof (induction ics arbitrary: s)
  case (Cons ic ics)
  have "\<forall>S p. ps_plans (init_leaf ic s) S = Some p \<longrightarrow> leaf_plan S p"
    using Cons.prems by (auto simp: init_leaf_def leaf_plan_def split: prod.splits)
  moreover have "{S. ps_plans (init_leaf ic s) S \<noteq> None} = insert [fst ic] {S. ps_plans s S \<noteq> None}"
    by (auto simp: init_leaf_def split: prod.splits)
  ultimately show ?case using Cons.IH [of "init_leaf ic s"] by auto
qed simp

text \<open>A state before the search: no plan, no pair, nothing cached.\<close>

definition fresh :: "QueryEdge \<Rightarrow> PlanState \<Rightarrow> bool" where
  "fresh g s \<longleftrightarrow> ps_graph s = g \<and> ps_plans s = Map.empty \<and> ps_pairs s = 0 \<and> ps_tdoms s = [] \<and> ps_cards s = Map.empty"

text \<open>The estimates of the sets \<open>A\<close> of relations: StarCE's when it is on, DuckDB's otherwise.\<close>

definition join_estimates :: "Planner \<Rightarrow> FilterInfo list \<Rightarrow> RelationStats list \<Rightarrow> JoinRelationSet set \<Rightarrow>
    (JoinRelationSet \<Rightarrow> real) \<Rightarrow> StatisticManager \<Rightarrow> bool" where
  "join_estimates pl filters relation_stats A f sm \<longleftrightarrow>
     (\<forall>S \<in> A. 2 \<le> length S \<longrightarrow>
        (if pl_use_starce pl then 0 \<le> f S \<and> fst (EstimateCardinality (pl_elapsed pl S) S sm) = Inr (f S)
         else native_estimate (leaf_tdoms filters relation_stats) (leaf_cardinalities relation_stats) S = Inr (f S)))"

text \<open>With filters from \<open>CreateHyperGraphEdges\<close>, DuckDB's estimates always exist.\<close>

lemma native_join_estimates:
  assumes "list_all (filter_sided {..<length relation_stats}) filters" "\<not> pl_use_starce pl"
    and "\<And>S. S \<in> A \<Longrightarrow> set S \<subseteq> {..<length relation_stats}"
  shows "\<exists>f. join_estimates pl filters relation_stats A f sm"
proof -
  let ?e = "native_estimate (leaf_tdoms filters relation_stats) (leaf_cardinalities relation_stats)"
  have "?e S = Inr (projr (?e S))" if "S \<in> A" for S
    using native_estimate_pos [OF leaf_tdoms_ok [OF assms(1)] leaf_cardinalities_ok assms(3) [OF that], of relation_stats] by auto
  then show ?thesis using assms(2) unfolding join_estimates_def by (intro exI [of _ "\<lambda>S. projr (?e S)"]) simp
qed

lemma InitLeafPlans_wp:
  assumes "fresh g s" "join_estimates pl filters cards A f (ps_sm s)"
    and filters: "list_all (filter_sided {..<length cards}) filters" and A: "\<And>S. S \<in> A \<Longrightarrow> set S \<subseteq> {..<length cards}"
  shows "sx_wp (InitLeafPlans filters cards) (\<lambda>_ t. estimates_by pl A f t \<and> plans_ok (length cards) lk f t \<and>
    ps_graph t = g \<and> ps_pairs t = 0) s"
proof -
  define ics where "ics = zip [0..<length cards] cards"
  define u where "u = s\<lparr>ps_tdoms := InitEquivalentRelations filters (ps_tdoms s)\<rparr>"
  define t where "t = fold init_leaf ics u"
  have frame: "ps_graph t = g" "ps_pairs t = 0" "ps_sm t = ps_sm s" "ps_tdoms t = leaf_tdoms filters cards"
    "ps_cards t = leaf_cardinalities cards"
    using init_leaf_frame [of ics u] assms(1)
    by (simp_all add: fresh_def t_def u_def leaf_tdoms_def leaf_cardinalities_def ics_def)
  have "(\<lambda>ic. [fst ic]) ` set ics = (\<lambda>i. [i]) ` (fst ` set ics)" by (simp add: image_image)
  moreover have "fst ` set ics = {..<length cards}" by (simp add: ics_def atLeast_upt flip: set_map)
  ultimately have plans: "\<forall>S p. ps_plans t S = Some p \<longrightarrow> leaf_plan S p"
    "{S. ps_plans t S \<noteq> None} = (\<lambda>i. [i]) ` {..<length cards}"
    using init_leaf_plans [of u ics] assms(1) by (simp_all add: fresh_def t_def u_def)
  have "\<exists>p. ps_plans t [i] = Some p \<and> n_is_leaf p" if "i < length cards" for i
  proof -
    have "[i] \<in> {S. ps_plans t S \<noteq> None}" unfolding plans(2) using that by simp
    then obtain p where "ps_plans t [i] = Some p" by auto
    then show ?thesis using plans(1) by (auto simp: leaf_plan_def)
  qed
  moreover have "S \<noteq> [] \<and> set S \<subseteq> {..<length cards} \<and> sound_plan lk f t S p" if p: "ps_plans t S = Some p" for S p
  proof -
    have "S \<in> {S. ps_plans t S \<noteq> None}" using p by simp
    then obtain i where "S = [i]" "i < length cards" unfolding plans(2) by auto
    then show ?thesis using plans(1) p by (simp add: leaf_plan_def sound_plan_def)
  qed
  ultimately have "plans_ok (length cards) lk f t" by (simp add: plans_ok_def)
  moreover have "estimates_by pl A f t"
    unfolding estimates_by_def frame
  proof (intro ballI impI)
    fix S assume S: "S \<in> A" "2 \<le> length S"
    obtain x where x: "native_estimate (leaf_tdoms filters cards) (leaf_cardinalities cards) S = Inr x" "0 < x"
      using native_estimate_pos [OF leaf_tdoms_ok [OF filters] leaf_cardinalities_ok A [OF S(1)]] by blast
    moreover have "leaf_cardinalities cards (JoinRelationSet_ToString S) = None"
      using leaf_cards_other [OF S(2)] by (simp add: leaf_cardinalities_def)
    moreover have "if pl_use_starce pl then 0 \<le> f S \<and> fst (EstimateCardinality (pl_elapsed pl S) S (ps_sm s)) = Inr (f S)
        else native_estimate (leaf_tdoms filters cards) (leaf_cardinalities cards) S = Inr (f S)"
      using assms(2) S unfolding join_estimates_def by blast
    ultimately show "0 \<le> f S \<and> (\<exists>x. native_estimate (leaf_tdoms filters cards) (leaf_cardinalities cards) S = Inr x \<and>
        (if pl_use_starce pl then fst (EstimateCardinality (pl_elapsed pl S) S (ps_sm s)) = Inr (f S) else x = f S)) \<and>
        leaf_cardinalities cards (JoinRelationSet_ToString S) \<in> {None, Some (f S)}"
      by (auto split: if_splits)
  qed
  ultimately show ?thesis using frame by (simp add: InitLeafPlans_def sx_wp t_def u_def ics_def)
qed

text \<open>A search starts from sound plans.\<close>

lemma search_start:
  "estimates_by pl A f s \<Longrightarrow> csgs n g \<subseteq> A \<Longrightarrow> plans_ok n (linked g) f s \<Longrightarrow> ps_graph s = g \<Longrightarrow>
   search pl A (ps_pairs s) n g f {} {} s"
  by (simp add: search_def)

text \<open>What a complete search leaves behind for a set of relations.\<close>

definition cheapest :: "QueryEdge \<Rightarrow> (JoinRelationSet \<Rightarrow> real) \<Rightarrow> PlanState \<Rightarrow> JoinRelationSet \<Rightarrow> bool" where
  "cheapest g f s S \<longleftrightarrow>
     (\<exists>p T. ps_plans s S = Some p \<and> plan_tree (ps_plans s) S T \<and> tree_ok g T \<and> rels T = set S \<and>
        n_cost p = C_out f T \<and> (\<forall>T'. tree_ok g T' \<and> rels T' = set S \<longrightarrow> C_out f T \<le> C_out f T'))"

lemma search_cheapest:
  assumes s: "search pl A k n g f F Q s" and S: "S \<in> F"
  shows "cheapest g f s S"
proof -
  obtain p where p: "ps_plans s S = Some p" using searchD(9) [OF s S] by blast
  obtain T where T: "plan_tree (ps_plans s) S T" "tree_ok g T" "rels T = set S" "C_out f T \<le> plan_cost s S"
    using plan_tree_exists [OF searchD(8) [OF s]] p by blast
  have best: "plan_cost s S \<le> C_out f T'" if "tree_ok g T'" "rels T' = set S" for T'
    using searchD(10) [OF s S that] .
  have "plan_cost s S = C_out f T" using best [OF T(2,3)] T(4) by simp
  then have "n_cost p = C_out f T" using p by simp
  then show ?thesis unfolding cheapest_def using T p best by (intro exI [of _ p] exI [of _ T]) simp
qed

section \<open>The exact search\<close>

lemma ccps_bound: "card (ccps n g) \<le> 4 ^ n"
proof -
  have sets: "S = sorted_list_of_set (set S)" "set S \<in> Pow {..<n}" if "S \<in> csgs n g" for S
    using that sorted_list_set by (simp_all add: csgs_def)
  have "ccps n g \<subseteq> (\<lambda>(A, B). (sorted_list_of_set A, sorted_list_of_set B)) ` (Pow {..<n} \<times> Pow {..<n})"
  proof
    fix x assume "x \<in> ccps n g"
    then obtain C D where x: "x = (C, D)" "C \<in> csgs n g" "D \<in> csgs n g"
      by (auto simp: ccps_def complements_def)
    then have "x = (\<lambda>(A, B). (sorted_list_of_set A, sorted_list_of_set B)) (set C, set D)"
      using sets(1) [OF x(2)] sets(1) [OF x(3)] by simp
    then show "x \<in> (\<lambda>(A, B). (sorted_list_of_set A, sorted_list_of_set B)) ` (Pow {..<n} \<times> Pow {..<n})"
      using sets(2) [OF x(2)] sets(2) [OF x(3)] by blast
  qed
  then have "card (ccps n g) \<le> card (Pow {..<n} \<times> Pow {..<n})"
    by (meson card_image_le card_mono finite_Pow_iff finite_SigmaI finite_imageI finite_lessThan le_trans)
  also have "\<dots> = 4 ^ n" by (simp add: card_cartesian_product card_Pow power_mult_distrib [symmetric])
  finally show ?thesis .
qed

text \<open>
  C7: the exact search of the optimizer is complete and optimal for queries whose join
  predicates link single relations. It always returns; it succeeds when there are fewer than a
  million pairs of disjoint, linked, connected sets. When it succeeds it has emitted every
  such pair exactly once, every connected set of relations has a plan, the plan describes a
  join tree of the set without cross products, the stored cost is the sum of the estimates of
  the joins of this tree, and no other such tree of the set is cheaper.
\<close>

theorem exact_search_optimal:
  assumes g: "simple_graph n g" and n: "pl_NumRelations pl = n" "length cards = n"
    and filters: "list_all (filter_sided {..<n}) filters"
    and s: "fresh g s" "join_estimates pl filters cards (csgs n g) f (ps_sm s)"
  shows "\<exists>b t. sx_bind (InitLeafPlans filters cards) (\<lambda>_. SolveJoinOrderExactly pl) s = (Inr b, t) \<and>
    (card (ccps n g) < 1000000 \<longrightarrow> b) \<and>
    (b \<longrightarrow> ps_pairs t = card (ccps n g) \<and>
      (\<forall>S \<in> csgs n g. \<exists>p T. ps_plans t S = Some p \<and> plan_tree (ps_plans t) S T \<and> tree_ok g T \<and> rels T = set S \<and>
         n_cost p = C_out f T \<and> (\<forall>T'. tree_ok g T' \<and> rels T' = set S \<longrightarrow> C_out f T \<le> C_out f T')))"
proof -
  let ?B = "card (ccps n g) < 1000000"
  let ?post = "\<lambda>b t. going ?B b (search pl (csgs n g) 0 n g f (csgs n g) (ccps n g) t)"
  have exact: "sx_wp (SolveJoinOrderExactly pl) ?post t"
    if "estimates_by pl (csgs n g) f t \<and> plans_ok n (linked g) f t \<and> ps_graph t = g \<and> ps_pairs t = 0" for t
    using SolveJoinOrderExactly_wp [OF g n(1) [symmetric], of ?B 0] search_start [of pl _ f t n g] that by auto
  have sets: "S \<in> csgs n g \<Longrightarrow> set S \<subseteq> {..<n}" for S by (auto simp: csgs_def)
  have "sx_wp (sx_bind (InitLeafPlans filters cards) (\<lambda>_. SolveJoinOrderExactly pl)) ?post s"
    unfolding sx_wp_bind using InitLeafPlans_wp [OF s, of "linked g"] filters sets exact n(2)
    by (blast intro: sx_wp_mono)
  then obtain b t where bt: "sx_bind (InitLeafPlans filters cards) (\<lambda>_. SolveJoinOrderExactly pl) s = (Inr b, t)"
    "?post b t"
    unfolding sx_wp_result by (elim exE conjE) (rule that)
  have "ps_pairs t = card (ccps n g) \<and> (\<forall>S \<in> csgs n g. cheapest g f t S)" if b
    using that bt(2) searchD(7) search_cheapest by (fastforce simp: going_def)
  then show ?thesis using bt unfolding cheapest_def going_def by (intro exI [of _ b] exI [of _ t]) blast
qed

end
