(* ===== verification/PlanSound.thy ===== *)
theory PlanSound
  imports PlanSearch
begin

text \<open>
  What every step of the search keeps, whether or not it gives up: the stored plans describe
  join trees, and a set that has a plan keeps one. The greedy search joins two relations or
  parts in every round, so it ends with a plan over all relations.
\<close>

section \<open>The invariant\<close>

text \<open>All sets of relations of a query, and the invariant: the sets \<open>P\<close> have plans.\<close>

definition relation_sets :: "nat \<Rightarrow> JoinRelationSet set" where
  "relation_sets n = {S. ascending S \<and> S \<noteq> [] \<and> set S \<subseteq> {..<n}}"

definition sound :: "Planner \<Rightarrow> JoinRelationSet set \<Rightarrow> nat \<Rightarrow> (nat set \<Rightarrow> nat set \<Rightarrow> bool) \<Rightarrow> (JoinRelationSet \<Rightarrow> real) \<Rightarrow>
    JoinRelationSet set \<Rightarrow> PlanState \<Rightarrow> bool" where
  "sound pl A n lk f P s \<longleftrightarrow> estimates_by pl A f s \<and> plans_ok n lk f s \<and> P \<subseteq> dom (ps_plans s)"

lemma csgs_relation_sets: "csgs n g \<subseteq> relation_sets n"
  using csgs_hd by (auto simp: csgs_def relation_sets_def)

lemma planned_relation_sets: "plans_ok n lk f s \<Longrightarrow> ps_plans s S \<noteq> None \<Longrightarrow> S \<in> relation_sets n"
proof -
  assume ok: "plans_ok n lk f s" and "ps_plans s S \<noteq> None"
  then obtain p where "ps_plans s S = Some p" by blast
  from plans_okD(2,3) [OF ok this] show ?thesis by (simp add: relation_sets_def)
qed

lemma plans_ok_mono: "plans_ok n lk f s \<Longrightarrow> (\<And>X Y. lk X Y \<Longrightarrow> lk' X Y) \<Longrightarrow> plans_ok n lk' f s"
  by (auto simp: plans_ok_def sound_plan_def)

lemma sound_graph [simp]: "sound pl A n lk f P (s\<lparr>ps_graph := g\<rparr>) = sound pl A n lk f P s"
  by (simp add: sound_def plans_ok_def sound_plan_def)

lemma disjoint_union_length:
  assumes "ascending C" "ascending D" "C \<noteq> []" "D \<noteq> []" "set C \<inter> set D = {}"
  shows "2 \<le> length (join_union C D)"
proof -
  have "length (join_union C D) = card (set C \<union> set D)"
    using ascending_distinct [OF ascending_join_union [OF assms(1,2)]] by (metis distinct_card set_join_union)
  also have "\<dots> = card (set C) + card (set D)" using assms(5) by (simp add: card_Un_disjoint)
  also have "2 \<le> \<dots>" using assms(3,4) by (metis List.finite_set One_nat_def Suc_leI add_mono card_gt_0_iff one_add_one set_empty)
  finally show ?thesis .
qed

text \<open>A pair of disjoint planned sets gets a plan.\<close>

lemma EmitPair_sound:
  assumes s: "sound pl A n lk f P s" and CD: "ps_plans s C \<noteq> None" "ps_plans s D \<noteq> None" "set C \<inter> set D = {}"
    "lk (set C) (set D)" and U: "join_union C D \<in> A" and info: "info \<noteq> []"
  shows "sx_wp (EmitPair pl C D info)
    (\<lambda>_ t. sound pl A n lk f (insert (join_union C D) P) t \<and> ps_graph t = ps_graph s) s"
proof -
  let ?U = "join_union C D"
  have ok: "plans_ok n lk f s" and est: "estimates_by pl A f s" and P: "P \<subseteq> dom (ps_plans s)"
    using s by (simp_all add: sound_def)
  obtain l r where lr: "ps_plans s C = Some l" "ps_plans s D = Some r" using CD by blast
  note C = plans_okD(2,3) [OF ok lr(1)] and D = plans_okD(2,3) [OF ok lr(2)]
  have len: "2 \<le> length ?U" using C D CD(3) by (intro disjoint_union_length) auto
  have post: "sound pl A n lk f (insert ?U P) t \<and> ps_graph t = ps_graph s"
    if t: "estimates_by pl A f t \<and> stored s C D (f ?U + n_cost l + n_cost r) t" for t
  proof -
    obtain p where p: "joined p C D (f ?U + plan_cost s C + plan_cost s D)"
      and plans: "ps_plans t = (if ps_plans s ?U = None \<or> n_cost p < plan_cost s ?U
                      then (ps_plans s)(?U \<mapsto> p) else ps_plans s)"
      using t lr unfolding stored_def by auto
    note store = plans_ok_store [OF ok CD p plans len]
    have "insert ?U P \<subseteq> dom (ps_plans t)" using P plans by auto
    then show ?thesis using t store(1) by (simp add: sound_def stored_def)
  qed
  show ?thesis
    by (rule sx_wp_mono [OF EmitPair_wp [OF est U len lr _ _ info] post]) (use C D in simp_all)
qed

section \<open>The exact search\<close>

lemma sx_wp_all_keep:
  assumes "I s" "\<And>x s. x \<in> set xs \<Longrightarrow> I s \<Longrightarrow> sx_wp (f x) (\<lambda>_. I) s"
  shows "sx_wp (sx_all f xs) (\<lambda>_. I) s"
  using assms
proof (induction xs arbitrary: s)
  case (Cons x xs)
  have "sx_wp (if b then sx_all f xs else sx_ret False) (\<lambda>_. I) t" if "I t" for b t
    using Cons.IH [OF that] Cons.prems(2) that by (simp add: sx_wp_ret)
  then show ?case using sx_wp_mono [OF Cons.prems(2) [OF _ Cons.prems(1)]] by (simp add: sx_wp_bind)
qed (simp add: sx_wp_ret)

abbreviation exact_inv :: "Planner \<Rightarrow> JoinRelationSet set \<Rightarrow> nat \<Rightarrow> QueryEdge \<Rightarrow> (JoinRelationSet \<Rightarrow> real) \<Rightarrow>
    JoinRelationSet set \<Rightarrow> PlanState \<Rightarrow> bool" where
  "exact_inv pl A n g f P s \<equiv> sound pl A n (linked g) f P s \<and> ps_graph s = g"

lemma emit_connected_sound:
  assumes g: "simple_graph n g" and A: "csgs n g \<subseteq> A" and s: "exact_inv pl A n g f P s" "C \<in> P" "ps_plans s D \<noteq> None"
    and CD: "C \<in> csgs n g" "D \<in> csgs n g" "set D \<inter> set C = {}"
  shows "sx_wp (emit_connected pl g C D) (\<lambda>_. exact_inv pl A n g f P) s"
proof (cases "GetConnections g C D = []")
  case False
  have asc: "ascending C" "ascending D" using CD by (simp_all add: csgs_def)
  then have "linked g (set C) (set D)" using False by (simp add: GetConnections_simple [OF g] linked_def)
  moreover from this have "join_union C D \<in> csgs n g"
    using conn_join [OF g, of "set C" "set D"] CD by (auto simp: csgs_def ascending_join_union)
  then have "join_union C D \<in> A" using A by blast
  moreover let ?s = "s\<lparr>ps_pairs := ps_pairs s + 1\<rparr>"
  have s': "sound pl A n (linked g) f P ?s" "ps_plans ?s C \<noteq> None" "ps_plans ?s D \<noteq> None" "ps_graph ?s = g"
    using s by (auto simp: sound_def plans_ok_def sound_plan_def)
  ultimately have "sx_wp (EmitPair pl C D (GetConnections g C D)) (\<lambda>_. exact_inv pl A n g f P) ?s"
    by (intro sx_wp_mono [OF EmitPair_sound [OF s'(1-3)]]) (use CD(3) s'(4) False in \<open>auto simp: sound_def\<close>)
  then show ?thesis using False s' by (simp add: emit_connected_def TryEmitPair_def Let_def sx_wp sx_wp_read)
qed (use s in \<open>simp add: emit_connected_def sx_wp\<close>)

lemma emit_planned_sound:
  assumes "simple_graph n g" "csgs n g \<subseteq> A" "exact_inv pl A n g f P s" "C \<in> P"
    "C \<in> csgs n g" "D \<in> csgs n g" "set D \<inter> set C = {}"
  shows "sx_wp (emit_planned pl g C D) (\<lambda>_. exact_inv pl A n g f P) s"
  using emit_connected_sound [OF assms(1-4) _ assms(5-)] assms(3)
  by (auto simp: emit_planned_def sx_wp sx_wp_read)

lemma emit_csg_loop_sound:
  assumes g: "simple_graph n g" and A: "csgs n g \<subseteq> A" and n: "n = pl_NumRelations pl" and C: "C \<in> P" "C \<in> csgs n g"
  shows "exact_inv pl A n g f P s \<Longrightarrow> set xs \<subseteq> {..<n} \<inter> X \<Longrightarrow> distinct xs \<Longrightarrow>
    (\<And>D. D \<in> set (cmp_loop n g xs X) \<Longrightarrow> D \<in> csgs n g \<and> set D \<inter> set C = {}) \<Longrightarrow>
    sx_wp (emit_csg_loop pl g C xs X) (\<lambda>_. exact_inv pl A n g f P) s"
proof (induction xs arbitrary: X s)
  case (Cons x xs)
  let ?I = "exact_inv pl A n g f P" and ?rec = "csg_rec (Suc n) g [x] X"
  have all: "cmp_loop n g (x # xs) X = [x] # ?rec @ cmp_loop n g xs (X - {x})" by simp
  have st: "start n g [x] X" using Cons.prems(2) by (intro start_single [OF g]) auto
  have ok: "D \<in> csgs n g \<and> set D \<inter> set C = {}" if "D = [x] \<or> D \<in> set ?rec" for D
    using Cons.prems(4) that unfolding all by (auto simp del: csg_rec.simps)
  have "x < n" using Cons.prems(2) by auto
  then have single: "ps_plans s [x] \<noteq> None" if "?I s" for s
    using that plans_okD(1) [of n "linked g" f s x] by (auto simp: sound_def)
  have first: "sx_wp (emit_connected pl g C [x]) (\<lambda>_. ?I) s"
    using emit_connected_sound [OF g A Cons.prems(1) C(1) single [OF Cons.prems(1)] C(2)] ok by blast
  have second: "sx_wp (EnumerateCmpRecursive (Suc (pl_NumRelations pl)) pl g C [x] X) (\<lambda>_. ?I) t" if "?I t" for t
    unfolding n [symmetric] cmp.traversal [OF st fuel_enough]
    by (rule sx_wp_all_keep [where I = ?I, OF that]) (use emit_planned_sound [OF g A _ C] ok in blast)
  have third: "sx_wp (emit_csg_loop pl g C xs (X - {x})) (\<lambda>_. ?I) t" if "?I t" for t
    by (rule Cons.IH [OF that]) (use Cons.prems in \<open>auto simp: all simp del: csg_rec.simps\<close>)
  have rest: "sx_wp (if b then m else sx_ret False) (\<lambda>_. ?I) t" if "sx_wp m (\<lambda>_. ?I) t" "?I t" for b m t
    using that by (simp add: sx_wp_ret)
  have two: "sx_wp (sx_bind (EnumerateCmpRecursive (Suc (pl_NumRelations pl)) pl g C [x] X)
      (\<lambda>b. if b then emit_csg_loop pl g C xs (X - {x}) else sx_ret False)) (\<lambda>_. ?I) t" if "?I t" for t
    unfolding sx_wp_bind by (rule sx_wp_mono [OF second [OF that] rest [OF third]])
  show ?case
    unfolding emit_csg_loop.simps sx_wp_bind by (rule sx_wp_mono [OF first rest [OF two]])
qed (simp add: sx_wp)

lemma EmitCSG_sound:
  assumes g: "simple_graph n g" and A: "csgs n g \<subseteq> A" and n: "n = pl_NumRelations pl"
    and s: "exact_inv pl A n g f P s" "C \<in> P" "C \<in> csgs n g"
  shows "sx_wp (EmitCSG pl g C) (\<lambda>_. exact_inv pl A n g f P) s"
proof -
  let ?X = "{..<hd C} \<union> set C"
  let ?ns = "GetNeighbors g C ?X"
  have asc: "ascending C" using s(3) by (simp add: csgs_def)
  have ns: "set ?ns \<subseteq> {..<n}" using adjD [OF g] by (auto simp: GetNeighbors_simple [OF g asc])
  have loop: "cmp_loop n g (rev (sort ?ns)) (?X \<union> set ?ns) = cmp_order n g C"
    by (simp add: cmp_order_def Let_def)
  have "sx_wp (emit_csg_loop pl g C (rev (sort ?ns)) (?X \<union> set ?ns)) (\<lambda>_. exact_inv pl A n g f P) s"
    by (rule emit_csg_loop_sound [OF g A n s(2,3,1)])
      (use ns cmp_order_sets [OF g s(3)] in \<open>auto simp: loop complements_def\<close>)
  then show ?thesis using s by (simp add: EmitCSG_def sx_wp Let_def)
qed

lemma SolveJoinOrderExactly_sound:
  assumes g: "simple_graph n g" and A: "csgs n g \<subseteq> A" and n: "n = pl_NumRelations pl"
    and s: "exact_inv pl A n g f P s"
  shows "sx_wp (SolveJoinOrderExactly pl) (\<lambda>_. exact_inv pl A n g f P) s"
proof -
  let ?I = "exact_inv pl A n g f P"
  have emit: "sx_wp (EmitCSG pl g C) (\<lambda>_. ?I) t" if "?I t" "ps_plans t C \<noteq> None" "C \<in> csgs n g" for C t
  proof -
    have "exact_inv pl A n g f (insert C P) t" using that by (auto simp: sound_def)
    then show ?thesis
      by (intro sx_wp_mono [OF EmitCSG_sound [OF g A n _ insertI1 that(3), of f P]]) (simp_all add: sound_def)
  qed
  have planned: "sx_wp (emit_csg_planned pl g C) (\<lambda>_. ?I) t" if "?I t" "C \<in> csgs n g" for C t
    using emit [OF that(1) _ that(2)] that(1) by (auto simp: emit_csg_planned_def sx_wp sx_wp_read)
  let ?body = "\<lambda>i. sx_bind (EmitCSG pl g [i]) (\<lambda>b.
           if b then EnumerateCSGRecursive (Suc (pl_NumRelations pl)) pl g [i] {..i} else sx_ret False)"
  have "sx_wp (?body i) (\<lambda>_. ?I) t" if i: "i \<in> set (rev [0..<n])" and t: "?I t" for i t
  proof -
    have st: "start n g [i] {..i}" using i by (intro start_single [OF g]) auto
    have single: "[i] \<in> csgs n g" "ps_plans t [i] \<noteq> None"
      using i t plans_okD(1) [of n "linked g" f t i] by (auto simp: csgs_def sound_def)
    have rec: "sx_wp (EnumerateCSGRecursive (Suc (pl_NumRelations pl)) pl g [i] {..i}) (\<lambda>_. ?I) u" if "?I u" for u
      unfolding n [symmetric] csg.traversal [OF st fuel_enough]
    proof (rule sx_wp_all_keep [where I = ?I, OF that])
      fix C v assume "C \<in> set (csg_rec (Suc n) g [i] {..i})" "?I v"
      moreover have "set (csg_rec (Suc n) g [i] {..i}) \<subseteq> csgs n g"
        using csg_block(1) [OF g, of i "{..i}"] i by (auto simp del: csg_rec.simps)
      ultimately show "sx_wp (emit_csg_planned pl g C) (\<lambda>_. ?I) v" using planned by blast
    qed
    show ?thesis
      unfolding sx_wp_bind
    proof (rule sx_wp_mono [OF emit [OF t single(2,1)]])
      show "sx_wp (if b then EnumerateCSGRecursive (Suc (pl_NumRelations pl)) pl g [i] {..i} else sx_ret False) (\<lambda>_. ?I) u"
        if "?I u" for b u
        using rec [OF that] that by (simp add: sx_wp_ret del: EnumerateCSGRecursive.simps)
    qed
  qed
  then have "sx_wp (sx_all ?body (rev [0..<n])) (\<lambda>_. ?I) s" by (rule sx_wp_all_keep [where I = ?I, OF s])
  moreover have "SolveJoinOrderExactly pl s = sx_all ?body (rev [0..<n]) s"
    using s by (simp only: SolveJoinOrderExactly_def sx_bind_prim sum.case n)
  ultimately show ?thesis by (simp only: sx_wp_def)
qed

end
