(* ===== verification/PlanGreedy.thy ===== *)
theory PlanGreedy
  imports PlanSound
begin

text \<open>
  The greedy search: every round joins two of the parts that are left, along an edge or by a
  cross product, so that it always ends with a plan over all relations.
\<close>

section \<open>The invariant of the greedy search\<close>

definition greedy_inv :: "Planner \<Rightarrow> nat \<Rightarrow> (JoinRelationSet \<Rightarrow> real) \<Rightarrow> JoinRelationSet set \<Rightarrow> PlanState \<Rightarrow> bool" where
  "greedy_inv pl n f P s \<longleftrightarrow> sound pl (relation_sets n) n (\<lambda>_ _. True) f P s \<and> edges_ok (ps_graph s)"

text \<open>The parts that are left are disjoint and have all relations.\<close>

definition parts :: "nat \<Rightarrow> JoinRelationSet list \<Rightarrow> bool" where
  "parts n rs \<longleftrightarrow> distinct (concat rs) \<and> set (concat rs) = {..<n}"

lemma greedy_planned: "greedy_inv pl n f P s \<Longrightarrow> S \<in> P \<Longrightarrow> ps_plans s S \<noteq> None"
  by (auto simp: greedy_inv_def sound_def)

lemma greedy_set:
  assumes "greedy_inv pl n f P s" "S \<in> P"
  shows "ascending S \<and> S \<noteq> [] \<and> set S \<subseteq> {..<n}"
proof -
  have "plans_ok n (\<lambda>_ _. True) f s" using assms(1) by (simp add: greedy_inv_def sound_def)
  from planned_relation_sets [OF this greedy_planned [OF assms]] show ?thesis by (simp add: relation_sets_def)
qed

lemma greedy_inv_mono: "greedy_inv pl n f P s \<Longrightarrow> P' \<subseteq> P \<Longrightarrow> greedy_inv pl n f P' s"
  by (auto simp: greedy_inv_def sound_def)

lemma split_two:
  assumes "i < j" "j < length xs"
  obtains a b c where "xs = a @ xs ! i # b @ xs ! j # c" "vec_erase i (vec_erase j xs) = a @ b @ c"
proof
  let ?a = "take i xs" and ?b = "drop (Suc i) (take j xs)" and ?c = "drop (Suc j) xs"
  have "take j xs = ?a @ xs ! i # ?b"
    using assms id_take_nth_drop [of i "take j xs"] by (simp add: min_absorb1)
  moreover have "xs = take j xs @ xs ! j # ?c" using assms(2) by (rule id_take_nth_drop)
  ultimately show "xs = ?a @ xs ! i # ?b @ xs ! j # ?c" by (metis append.assoc append_Cons)
  show "vec_erase i (vec_erase j xs) = ?a @ ?b @ ?c"
    using assms by (simp add: vec_erase_def min_absorb1)
qed

lemma parts_disjoint:
  assumes "parts n rs" "i < j" "j < length rs"
  shows "set (rs ! i) \<inter> set (rs ! j) = {}"
proof -
  obtain a b c where "rs = a @ rs ! i # b @ rs ! j # c" using split_two [OF assms(2,3)] by metis
  then have "concat rs = concat a @ rs ! i @ concat b @ rs ! j @ concat c"
    by (metis concat.simps(2) concat_append)
  then show ?thesis using assms(1) by (auto simp: parts_def)
qed

lemma parts_step:
  assumes "parts n rs" "i < j" "j < length rs" "ascending (rs ! i)" "ascending (rs ! j)"
  shows "parts n (vec_erase i (vec_erase j rs) @ [join_union (rs ! i) (rs ! j)])"
    "length (vec_erase i (vec_erase j rs) @ [join_union (rs ! i) (rs ! j)]) = length rs - 1"
    "set (vec_erase i (vec_erase j rs)) \<subseteq> set rs"
proof -
  obtain a b c where abc: "rs = a @ rs ! i # b @ rs ! j # c" "vec_erase i (vec_erase j rs) = a @ b @ c"
    using split_two [OF assms(2,3)] by metis
  then have all: "concat rs = concat a @ rs ! i @ concat b @ rs ! j @ concat c"
    by (metis concat.simps(2) concat_append)
  have "distinct (join_union (rs ! i) (rs ! j))"
    using assms(4,5) by (simp add: ascending_distinct ascending_join_union)
  then show "parts n (vec_erase i (vec_erase j rs) @ [join_union (rs ! i) (rs ! j)])"
    using assms(1) unfolding parts_def abc(2) all by (auto simp: Int_Un_distrib2 Int_Un_distrib)
  have "length rs = length a + length b + length c + 2" "set a \<union> set b \<union> set c \<subseteq> set rs"
    by (subst abc(1), simp)+ auto
  then show "length (vec_erase i (vec_erase j rs) @ [join_union (rs ! i) (rs ! j)]) = length rs - 1"
    "set (vec_erase i (vec_erase j rs)) \<subseteq> set rs"
    unfolding abc(2) by auto
qed

section \<open>One round\<close>

lemma EmitPair_greedy:
  assumes s: "greedy_inv pl n f P s" and CD: "C \<in> P" "D \<in> P" "set C \<inter> set D = {}" and info: "info \<noteq> []"
  shows "sx_wp (EmitPair pl C D info) (\<lambda>_. greedy_inv pl n f (insert (join_union C D) P)) s"
proof -
  note C = greedy_set [OF s CD(1)] and D = greedy_set [OF s CD(2)]
  have "join_union C D \<noteq> []" using C by (metis Un_empty set_empty set_join_union)
  then have U: "join_union C D \<in> relation_sets n"
    using C D by (simp add: relation_sets_def ascending_join_union)
  have "sound pl (relation_sets n) n (\<lambda>_ _. True) f P s" "edges_ok (ps_graph s)"
    using s by (simp_all add: greedy_inv_def)
  then show ?thesis
    using sx_wp_mono [OF EmitPair_sound [OF _ greedy_planned [OF s CD(1)] greedy_planned [OF s CD(2)] CD(3) _ U info]]
    by (simp add: greedy_inv_def)
qed

text \<open>The set that the best pair so far has planned.\<close>

definition best_sets :: "JoinRelationSet list \<Rightarrow> (DPJoinNode \<times> nat \<times> nat) option \<Rightarrow> JoinRelationSet set" where
  "best_sets rs b = (case b of None \<Rightarrow> {} | Some (_, i, j) \<Rightarrow> {join_union (rs ! i) (rs ! j)})"

definition best_ok :: "JoinRelationSet list \<Rightarrow> (DPJoinNode \<times> nat \<times> nat) option \<Rightarrow> bool" where
  "best_ok rs b = (case b of None \<Rightarrow> True | Some (_, i, j) \<Rightarrow> i < j \<and> j < length rs)"

lemma greedy_pair_wp:
  assumes s: "greedy_inv pl n f (P \<union> best_sets rs best) s" and P: "rs ! i \<in> P" "rs ! j \<in> P"
    and ij: "i < j" "j < length rs" "set (rs ! i) \<inter> set (rs ! j) = {}" and best: "best_ok rs best"
  shows "sx_wp (greedy_pair pl rs (i, j) best) (\<lambda>b t. best_ok rs b \<and> greedy_inv pl n f (P \<union> best_sets rs b) t) s"
    (is "sx_wp _ ?post s")
proof (cases "GetConnections (ps_graph s) (rs ! i) (rs ! j) = []")
  case False
  let ?conn = "GetConnections (ps_graph s) (rs ! i) (rs ! j)"
  let ?U = "join_union (rs ! i) (rs ! j)"
  let ?Q = "P \<union> best_sets rs best"
  have emit: "sx_wp (EmitPair pl (rs ! i) (rs ! j) ?conn) (\<lambda>_. greedy_inv pl n f (insert ?U R)) t"
    if "greedy_inv pl n f R t" "?Q \<subseteq> R" for R t
    using EmitPair_greedy [OF that(1) _ _ ij(3) False] P that(2) by blast
  have old: "?post best t" if "greedy_inv pl n f (insert ?U ?Q) t" for t
    using best greedy_inv_mono [OF that] by auto
  have new: "sx_wp (sx_bind (EmitPair pl (rs ! i) (rs ! j) ?conn) (\<lambda>node. sx_ret (Some (node, i, j)))) ?post t"
    if t: "greedy_inv pl n f (insert ?U ?Q) t" for t
  proof -
    have "?post (Some (p, i, j)) u" if "greedy_inv pl n f (insert ?U (insert ?U ?Q)) u" for p u
      using ij greedy_inv_mono [OF that, of "insert ?U P"] by (simp add: best_ok_def best_sets_def subset_insertI2)
    then show ?thesis
      unfolding sx_wp_bind sx_wp_ret by (intro sx_wp_mono [OF emit [OF t]]) auto
  qed
  have "sx_wp (sx_bind (EmitPair pl (rs ! i) (rs ! j) ?conn) (\<lambda>node.
         if (case best of None \<Rightarrow> True | Some (b, _) \<Rightarrow> n_cost node < n_cost b)
         then sx_bind (EmitPair pl (rs ! i) (rs ! j) ?conn) (\<lambda>node. sx_ret (Some (node, i, j)))
         else sx_ret best)) ?post s"
    unfolding sx_wp_bind [of "EmitPair pl (rs ! i) (rs ! j) ?conn"]
    by (rule sx_wp_mono [OF emit [OF s order_refl]]) (use old new in \<open>simp add: sx_wp_ret split: if_splits\<close>)
  then show ?thesis using False by (simp add: greedy_pair_def sx_wp_def sx_bind_prim)
qed (use s best in \<open>simp add: greedy_pair_def sx_wp sx_wp_read\<close>)

lemma greedy_best_wp:
  assumes s: "greedy_inv pl n f P s" and rs: "set rs \<subseteq> P" "parts n rs"
  shows "sx_wp (greedy_best pl rs) (\<lambda>b t. best_ok rs b \<and> greedy_inv pl n f (P \<union> best_sets rs b) t) s"
  unfolding greedy_best_def
proof (rule sx_wp_for [where I = "\<lambda>_ b t. best_ok rs b \<and> greedy_inv pl n f (P \<union> best_sets rs b) t"])
  show "best_ok rs None \<and> greedy_inv pl n f (P \<union> best_sets rs None) s"
    using s by (simp add: best_ok_def best_sets_def)
  fix "done" x rest b t
  assume xs: "concat (map (\<lambda>i. map (Pair i) [Suc i..<length rs]) [0..<length rs]) = done @ x # rest"
    and b: "best_ok rs b \<and> greedy_inv pl n f (P \<union> best_sets rs b) t"
  have "x \<in> set (concat (map (\<lambda>i. map (Pair i) [Suc i..<length rs]) [0..<length rs]))" unfolding xs by simp
  then obtain i j where x: "x = (i, j)" "i < j" "j < length rs" by auto
  moreover from this have "rs ! i \<in> P" "rs ! j \<in> P" using rs(1) by (auto simp: subset_iff)
  ultimately show "sx_wp (greedy_pair pl rs x b) (\<lambda>b t. best_ok rs b \<and> greedy_inv pl n f (P \<union> best_sets rs b) t) t"
    using greedy_pair_wp [OF conjunct2 [OF b]] parts_disjoint [OF rs(2)] b by simp
qed

section \<open>A cross product\<close>

lemma plan_of_wp: "greedy_inv pl n f P s \<Longrightarrow> S \<in> P \<Longrightarrow> sx_wp (plan_of S) (\<lambda>p t. t = s \<and> ps_plans s S = Some p) s"
  using greedy_planned [of pl n f P s S] by (auto simp: plan_of_def sx_wp_read split: option.splits)

definition two_plans :: "PlanState \<Rightarrow> JoinRelationSet list \<Rightarrow> (DPJoinNode \<times> nat) \<times> (DPJoinNode \<times> nat) \<Rightarrow> bool" where
  "two_plans s rs b =
     (case b of ((p, i), (q, j)) \<Rightarrow> i \<noteq> j \<and> i < length rs \<and> j < length rs \<and>
        ps_plans s (rs ! i) = Some p \<and> ps_plans s (rs ! j) = Some q)"

lemma smallest_wp:
  assumes s: "greedy_inv pl n f P s" and rs: "set rs \<subseteq> P"
  shows "two_plans s rs b \<Longrightarrow> fst (fst b) = fst (fst b) \<Longrightarrow> snd (fst b) < k \<Longrightarrow> snd (snd b) < k \<Longrightarrow> k \<le> length rs \<Longrightarrow>
    sx_wp (sx_for (smallest_step rs) [k..<length rs] b) (\<lambda>b t. t = s \<and> two_plans s rs b) s"
proof (induction "length rs - k" arbitrary: k b)
  case 0
  then show ?case by (simp add: sx_wp_ret)
next
  case (Suc d)
  then have k: "k < length rs" by simp
  have rest: "sx_wp (sx_for (smallest_step rs) [Suc k..<length rs] b') (\<lambda>b t. t = s \<and> two_plans s rs b) s"
    if "two_plans s rs b'" "snd (fst b') < Suc k" "snd (snd b') < Suc k" for b'
    by (rule Suc.hyps(1)) (use that Suc.hyps(2) k in auto)
  have "rs ! k \<in> P" using rs k by (simp add: subset_iff)
  from plan_of_wp [OF s this] have "sx_wp (smallest_step rs k b)
      (\<lambda>b' t. t = s \<and> two_plans s rs b' \<and> snd (fst b') < Suc k \<and> snd (snd b') < Suc k) s"
    unfolding smallest_step_def sx_wp_bind sx_wp_ret
    by (rule sx_wp_mono) (use Suc.prems k in \<open>auto simp: two_plans_def split: prod.splits\<close>)
  then have "sx_wp (sx_bind (smallest_step rs k b) (sx_for (smallest_step rs) [Suc k..<length rs]))
      (\<lambda>b t. t = s \<and> two_plans s rs b) s"
    unfolding sx_wp_bind by (rule sx_wp_mono) (use rest in blast)
  then show ?case using k by (simp add: upt_conv_Cons)
qed

lemma GetConnections_edge:
  assumes "edges_ok g" "ascending L" "ascending R" "(L, R) \<in> edge_set g"
  shows "GetConnections g L R \<noteq> []"
proof -
  have "R \<in> ni_neighbor ` set (found L g)" using found_edges [OF assms(1,2)] assms(4) by auto
  moreover have "IsSubset R R" using assms IsSubset_iff [OF assms(3,3)] by (auto simp: edges_ok_def)
  ultimately show ?thesis by (auto simp: GetConnections_eq filter_empty_conv)
qed

lemma greedy_cross_wp:
  assumes s: "greedy_inv pl n f P s" and rs: "set rs \<subseteq> P" "parts n rs" "2 \<le> length rs"
  shows "sx_wp (greedy_cross pl rs) (\<lambda>(i, j) t. i < j \<and> j < length rs \<and>
    greedy_inv pl n f (insert (join_union (rs ! i) (rs ! j)) P) t) s" (is "sx_wp _ ?post s")
proof -
  have final: "sx_wp (sx_bind (sx_mod (\<lambda>s. s\<lparr>ps_graph := CreateQueryGraphCrossProduct (n_set p) (n_set q) (ps_graph s)\<rparr>)) (\<lambda>_.
       sx_bind (sx_read (\<lambda>s. Inr (GetConnections (ps_graph s) (n_set p) (n_set q)))) (\<lambda>connections.
       sx_bind (EmitPair pl (n_set p) (n_set q) connections) (\<lambda>_.
         sx_ret (if j < i then (j, i) else (i, j)))))) ?post s"
    if b: "two_plans s rs ((p, i), (q, j))" for p i q j
  proof -
    have ij: "i \<noteq> j" "i < length rs" "j < length rs" and plans: "ps_plans s (rs ! i) = Some p" "ps_plans s (rs ! j) = Some q"
      using b by (simp_all add: two_plans_def)
    have ok: "plans_ok n (\<lambda>_ _. True) f s" using s by (simp add: greedy_inv_def sound_def)
    have sets: "n_set p = rs ! i" "n_set q = rs ! j" using plans_okD(3) [OF ok] plans by blast+
    have P: "rs ! i \<in> P" "rs ! j \<in> P" using ij rs(1) by (simp_all add: subset_iff)
    note I = greedy_set [OF s P(1)] and J = greedy_set [OF s P(2)]
    let ?g = "CreateQueryGraphCrossProduct (rs ! i) (rs ! j) (ps_graph s)"
    have g: "edges_ok ?g" using s I J by (auto simp: greedy_inv_def edges_ok_def)
    have con: "GetConnections ?g (rs ! i) (rs ! j) \<noteq> []"
      by (rule GetConnections_edge [OF g]) (use I J in auto)
    have t: "greedy_inv pl n f P (s\<lparr>ps_graph := ?g\<rparr>)" using s g by (simp add: greedy_inv_def)
    have dis: "set (rs ! i) \<inter> set (rs ! j) = {}"
      using parts_disjoint [OF rs(2)] ij by (metis Int_commute linorder_neqE_nat)
    have U: "join_union (rs ! j) (rs ! i) = join_union (rs ! i) (rs ! j)"
      using I J by (simp add: join_union_commute)
    have "sx_wp (EmitPair pl (rs ! i) (rs ! j) (GetConnections ?g (rs ! i) (rs ! j)))
        (\<lambda>_. ?post (if j < i then (j, i) else (i, j))) (s\<lparr>ps_graph := ?g\<rparr>)"
      by (rule sx_wp_mono [OF EmitPair_greedy [OF t P dis con]]) (use ij U in auto)
    then show ?thesis unfolding sets by (simp add: sx_wp sx_wp_read)
  qed
  have one: "rs ! 0 \<in> P" "rs ! 1 \<in> P" using rs(1,3) by (auto intro!: subsetD [OF rs(1)] nth_mem)
  have "sx_wp (sx_for (smallest_step rs) [2..<length rs] ((p0, 0), (p1, 1))) (\<lambda>b t. t = s \<and> two_plans s rs b) s"
    if "ps_plans s (rs ! 0) = Some p0" "ps_plans s (rs ! 1) = Some p1" for p0 p1
    by (rule smallest_wp [OF s rs(1)]) (use that rs(3) in \<open>auto simp: two_plans_def\<close>)
  then show ?thesis
    unfolding greedy_cross_def sx_wp_bind [of "plan_of (rs ! 0)"] sx_wp_bind [of "plan_of (rs ! 1)"]
      sx_wp_bind [of "sx_for (smallest_step rs) [2..<length rs] b" for b]
    by (intro sx_wp_mono [OF plan_of_wp [OF s one(1)]]) 
       (use final in \<open>fastforce intro!: sx_wp_mono [OF plan_of_wp [OF s one(2)]] elim!: sx_wp_mono\<close>)
qed

section \<open>All rounds\<close>

lemma greedy_step_wp:
  assumes s: "greedy_inv pl n f (set rs) s" and rs: "parts n rs" "2 \<le> length rs"
  shows "sx_wp (greedy_step pl rs) (\<lambda>rs' t. parts n rs' \<and> length rs' = length rs - 1 \<and> greedy_inv pl n f (set rs') t) s"
proof -
  have chosen: "parts n rs' \<and> length rs' = length rs - 1 \<and> greedy_inv pl n f (set rs') t"
    if "rs' = vec_erase i (vec_erase j rs) @ [join_union (rs ! i) (rs ! j)]" "i < j" "j < length rs"
      "greedy_inv pl n f (insert (join_union (rs ! i) (rs ! j)) (set rs)) t" for i j t rs'
  proof -
    have "ascending (rs ! i)" "ascending (rs ! j)"
      using greedy_set [OF s] that(2,3) by (meson less_trans nth_mem)+
    note step = parts_step [OF rs(1) that(2,3) this]
    then show ?thesis using that(1) greedy_inv_mono [OF that(4), of "set rs'"] by auto
  qed
  have pick: "sx_wp (case best of Some (_, i, j) \<Rightarrow> sx_ret (i, j) | None \<Rightarrow> greedy_cross pl rs)
      (\<lambda>(i, j) t. i < j \<and> j < length rs \<and> greedy_inv pl n f (insert (join_union (rs ! i) (rs ! j)) (set rs)) t) t"
    if b: "best_ok rs best \<and> greedy_inv pl n f (set rs \<union> best_sets rs best) t" for best t
  proof (cases best)
    case None
    then have "greedy_inv pl n f (set rs) t" using b by (simp add: best_sets_def)
    from greedy_cross_wp [OF this order_refl rs] show ?thesis using None by simp
  next
    case (Some pij)
    then show ?thesis using b by (cases pij) (simp add: best_ok_def best_sets_def sx_wp_ret)
  qed
  have result: "sx_wp (case ij of (i, j) \<Rightarrow> sx_ret (vec_erase i (vec_erase j rs) @ [join_union (rs ! i) (rs ! j)]))
        (\<lambda>rs' t. parts n rs' \<and> length rs' = length rs - 1 \<and> greedy_inv pl n f (set rs') t) t"
    if "(case ij of (i, j) \<Rightarrow> \<lambda>t. i < j \<and> j < length rs \<and>
        greedy_inv pl n f (insert (join_union (rs ! i) (rs ! j)) (set rs)) t) t" for ij t
    using chosen [OF refl, of "fst ij" "snd ij" t] that by (cases ij) (simp add: sx_wp_ret)
  have rest: "sx_wp (sx_bind (case best of Some (_, i, j) \<Rightarrow> sx_ret (i, j) | None \<Rightarrow> greedy_cross pl rs) (\<lambda>(i, j).
         sx_ret (vec_erase i (vec_erase j rs) @ [join_union (rs ! i) (rs ! j)])))
      (\<lambda>rs' t. parts n rs' \<and> length rs' = length rs - 1 \<and> greedy_inv pl n f (set rs') t) t"
    if "best_ok rs best \<and> greedy_inv pl n f (set rs \<union> best_sets rs best) t" for best t
    unfolding sx_wp_bind by (rule sx_wp_mono [OF pick [OF that] result])
  show ?thesis
    unfolding greedy_step_def sx_wp_bind [of "greedy_best pl rs"]
    by (rule sx_wp_mono [OF greedy_best_wp [OF s order_refl rs(1)] rest])
qed

lemma greedy_loop_wp:
  assumes n: "0 < n"
  shows "length rs < fuel \<Longrightarrow> parts n rs \<Longrightarrow> greedy_inv pl n f (set rs) s \<Longrightarrow>
    sx_wp (greedy_loop fuel pl rs) (\<lambda>_. greedy_inv pl n f {[0..<n]}) s"
proof (induction fuel arbitrary: rs s)
  case (Suc fuel)
  show ?case
  proof (cases "1 < length rs")
    case True
    have rest: "sx_wp (greedy_loop fuel pl rs') (\<lambda>_. greedy_inv pl n f {[0..<n]}) t"
      if "parts n rs' \<and> length rs' = length rs - 1 \<and> greedy_inv pl n f (set rs') t" for rs' t
    proof -
      have "length rs' < fuel" using that True Suc.prems(1) by linarith
      then show ?thesis using Suc.IH that by blast
    qed
    have "2 \<le> length rs" using True by simp
    then have "sx_wp (sx_bind (greedy_step pl rs) (greedy_loop fuel pl)) (\<lambda>_. greedy_inv pl n f {[0..<n]}) s"
      unfolding sx_wp_bind by (intro sx_wp_mono [OF greedy_step_wp [OF Suc.prems(3,2)] rest])
    then show ?thesis using True by simp
  next
    case False
    have "rs \<noteq> []" using Suc.prems(2) n by (auto simp: parts_def)
    then obtain S where S: "rs = [S]" using False by (cases rs) auto
    have "set S = {..<n}" "ascending S" using S Suc.prems(2) greedy_set [OF Suc.prems(3)] by (simp_all add: parts_def)
    then have "S = [0..<n]" using ascending_eq [of S "[0..<n]"] by (simp add: atLeast_upt)
    then show ?thesis using False S Suc.prems(3) by (simp add: sx_wp_ret)
  qed
qed simp

lemma SolveJoinOrderApproximately_wp:
  assumes s: "sound pl (relation_sets n) n lk f P s" "edges_ok (ps_graph s)"
    and n: "n = pl_NumRelations pl" "0 < n"
  shows "sx_wp (SolveJoinOrderApproximately pl) (\<lambda>_. greedy_inv pl n f {[0..<n]}) s"
proof -
  let ?rs = "map (\<lambda>i. [i]) [0..<n]"
  have ok: "plans_ok n (\<lambda>_ _. True) f s" using plans_ok_mono [of n lk f s] s(1) by (simp add: sound_def)
  have "ps_plans s [i] \<noteq> None" if "i < n" for i using plans_okD(1) [OF ok that] by auto
  then have "greedy_inv pl n f (set ?rs) s" using s ok by (auto simp: greedy_inv_def sound_def)
  moreover have "parts n ?rs" by (simp add: parts_def atLeast_upt concat_map_singleton [where f = id, simplified])
  ultimately show ?thesis unfolding SolveJoinOrderApproximately_def n(1) [symmetric]
    by (intro greedy_loop_wp [OF n(2)]) simp_all
qed

end
