(* ===== verification/PlanOrder.thy ===== *)
theory PlanOrder
  imports PlanGreedy
begin

text \<open>
  The whole search of the join order: the exact search with the greedy one behind it, and a
  second round over cross products when the first leaves relations unconnected.
\<close>

section \<open>Cross products\<close>

definition cross_graph :: "Planner \<Rightarrow> QueryEdge \<Rightarrow> QueryEdge" where
  "cross_graph pl g =
     fold (\<lambda>i. fold (\<lambda>j g.
         if i \<noteq> j \<and> pl_cross_product_allowed pl i \<and> pl_cross_product_allowed pl j
         then CreateQueryGraphCrossProduct [i] [j] g else g) [0..<pl_NumRelations pl])
       [0..<pl_NumRelations pl] g"

lemma GenerateCrossProducts_eq: "GenerateCrossProducts pl = sx_mod (\<lambda>s. s\<lparr>ps_graph := cross_graph pl (ps_graph s)\<rparr>)"
  by (simp add: GenerateCrossProducts_def cross_graph_def)

lemma edge_set_cross_row:
  "edge_set (fold (\<lambda>j g. if i \<noteq> j \<and> P i \<and> P j then CreateQueryGraphCrossProduct [i] [j] g else g) js g) =
    edge_set g \<union> (\<Union>j \<in> {j \<in> set js. i \<noteq> j \<and> P i \<and> P j}. {([i], [j]), ([j], [i])})"
  by (induction js arbitrary: g) auto

lemma edge_set_cross:
  "edge_set (fold (\<lambda>i. fold (\<lambda>j g. if i \<noteq> j \<and> P i \<and> P j then CreateQueryGraphCrossProduct [i] [j] g else g) js) ls g) =
    edge_set g \<union> (\<Union>i \<in> set ls. \<Union>j \<in> {j \<in> set js. i \<noteq> j \<and> P i \<and> P j}. {([i], [j]), ([j], [i])})"
  by (induction ls arbitrary: g) (auto simp: edge_set_cross_row)

lemma edge_set_cross_graph:
  "edge_set (cross_graph pl g) = edge_set g \<union>
    {([i], [j]) | i j. i < pl_NumRelations pl \<and> j < pl_NumRelations pl \<and> i \<noteq> j \<and>
       pl_cross_product_allowed pl i \<and> pl_cross_product_allowed pl j}"
  unfolding cross_graph_def edge_set_cross by auto

lemma cross_graph_simple: "simple_graph (pl_NumRelations pl) g \<Longrightarrow> simple_graph (pl_NumRelations pl) (cross_graph pl g)"
  unfolding simple_graph_def adj_def edge_set_cross_graph by fastforce

lemma linked_cross_graph: "linked g X Y \<Longrightarrow> linked (cross_graph pl g) X Y"
  by (auto simp: linked_def adj_def edge_set_cross_graph)

lemma conn_cross_graph:
  assumes "0 < pl_NumRelations pl" "\<And>i. i < pl_NumRelations pl \<Longrightarrow> pl_cross_product_allowed pl i"
  shows "conn (cross_graph pl g) {..<pl_NumRelations pl}"
proof -
  have "\<exists>u \<in> A. \<exists>v \<in> {..<pl_NumRelations pl} - A. adj (cross_graph pl g) u v"
    if A: "A \<subseteq> {..<pl_NumRelations pl}" "A \<noteq> {}" "A \<noteq> {..<pl_NumRelations pl}" for A
  proof -
    obtain u v where uv: "u \<in> A" "v \<in> {..<pl_NumRelations pl} - A" using A by blast
    then have "adj (cross_graph pl g) u v" using A(1) assms(2) by (auto simp: adj_def edge_set_cross_graph)
    then show ?thesis using uv by blast
  qed
  then show ?thesis using assms(1) by (auto simp: conn_def)
qed

section \<open>One round\<close>

text \<open>The state between two rounds.\<close>

abbreviation between :: "Planner \<Rightarrow> nat \<Rightarrow> QueryEdge \<Rightarrow> (JoinRelationSet \<Rightarrow> real) \<Rightarrow> PlanState \<Rightarrow> bool" where
  "between pl n g f s \<equiv> exact_inv pl (relation_sets n) n g f {} s"

definition first_search :: "Planner \<Rightarrow> unit planx" where
  "first_search pl =
     (if THRESHOLD_TO_SWAP_TO_APPROXIMATE \<le> pl_NumRelations pl then SolveJoinOrderApproximately pl
      else sx_bind (SolveJoinOrderExactly pl) (\<lambda>solved.
        if solved then sx_ret () else SolveJoinOrderApproximately pl))"

lemma SolveJoinOrder_Suc:
  "SolveJoinOrder (Suc fuel) pl =
     sx_bind (first_search pl) (\<lambda>_.
     sx_bind (sx_read (\<lambda>s. Inr (ps_plans s [0..<pl_NumRelations pl]))) (\<lambda>final_plan.
       if final_plan \<noteq> None then sx_ret ()
       else if pl_force_no_cross_product pl then
         sx_throw (Runtime_error ''Query requires a cross-product'')
       else sx_bind (GenerateCrossProducts pl) (\<lambda>_. SolveJoinOrder fuel pl)))"
  by (simp add: first_search_def)

text \<open>A round finds a plan over all relations, or its exact search has succeeded.\<close>

definition complete :: "Planner \<Rightarrow> nat \<Rightarrow> (JoinRelationSet \<Rightarrow> real) \<Rightarrow> PlanState \<Rightarrow> bool" where
  "complete pl n f s \<longleftrightarrow> sound pl (relation_sets n) n (\<lambda>_ _. True) f {[0..<n]} s"

abbreviation solved :: "Planner \<Rightarrow> nat \<Rightarrow> nat \<Rightarrow> QueryEdge \<Rightarrow> (JoinRelationSet \<Rightarrow> real) \<Rightarrow> PlanState \<Rightarrow> bool" where
  "solved pl k n g f s \<equiv> search pl (relation_sets n) k n g f (csgs n g) (ccps n g) s"

lemma search_between: "search pl A k n g f F Q s \<Longrightarrow> exact_inv pl A n g f {} s"
  using searchD(1,3,8) by (simp add: sound_def)

lemma sx_wp_conj: "sx_wp m P s \<Longrightarrow> sx_wp m Q s \<Longrightarrow> sx_wp m (\<lambda>x t. P x t \<and> Q x t) s"
  by (auto simp: sx_wp_result)

lemma first_search_wp:
  assumes g: "simple_graph n g" and n: "n = pl_NumRelations pl" "0 < n" and s: "between pl n g f s"
  shows "sx_wp (first_search pl)
    (\<lambda>_ t. complete pl n f t \<and> \<not> (n < 64 \<and> ps_pairs s + card (ccps n g) < 1000000) \<or>
       n < 64 \<and> solved pl (ps_pairs s) n g f t) s" (is "sx_wp _ ?post s")
proof -
  let ?B = "ps_pairs s + card (ccps n g) < 1000000"
  have approx: "sx_wp (SolveJoinOrderApproximately pl) ?post t" if t: "between pl n g f t" "\<not> (n < 64 \<and> ?B)" for t
  proof (rule sx_wp_mono [OF SolveJoinOrderApproximately_wp [OF conjunct1 [OF t(1)] _ n]])
    show "edges_ok (ps_graph t)" using t simple_edges_ok [OF g] by simp
  qed (use t(2) in \<open>simp add: greedy_inv_def complete_def\<close>)
  show ?thesis
  proof (cases "64 \<le> n")
    case True
    then show ?thesis using approx [OF s] n(1) by (simp add: first_search_def THRESHOLD_TO_SWAP_TO_APPROXIMATE_def)
  next
    case False
    have start: "search pl (relation_sets n) (ps_pairs s) n g f {} {} s"
      using s by (intro search_start csgs_relation_sets) (simp_all add: sound_def)
    have exact: "sx_wp (SolveJoinOrderExactly pl)
        (\<lambda>b t. going ?B b (solved pl (ps_pairs s) n g f t) \<and> between pl n g f t) s"
      by (rule sx_wp_conj [OF SolveJoinOrderExactly_wp [OF g n(1) _ start]
            SolveJoinOrderExactly_sound [OF g csgs_relation_sets n(1) s]]) simp
    have cont: "sx_wp (if b then sx_ret () else SolveJoinOrderApproximately pl) ?post t"
      if "going ?B b (solved pl (ps_pairs s) n g f t) \<and> between pl n g f t" for b t
      using approx [of t] that False by (cases b) (simp_all add: sx_wp_ret)
    have "sx_wp (sx_bind (SolveJoinOrderExactly pl) (\<lambda>b. if b then sx_ret () else SolveJoinOrderApproximately pl)) ?post s"
      unfolding sx_wp_bind by (rule sx_wp_mono [OF exact cont])
    then show ?thesis using False n(1) by (simp add: first_search_def THRESHOLD_TO_SWAP_TO_APPROXIMATE_def)
  qed
qed

lemma between_cross:
  assumes "between pl n g f s"
  shows "between pl n (cross_graph pl g) f (s\<lparr>ps_graph := cross_graph pl g\<rparr>)"
proof -
  have "plans_ok n (linked (cross_graph pl g)) f s"
    using assms plans_ok_mono [of n "linked g" f s "linked (cross_graph pl g)"] linked_cross_graph
    by (simp add: sound_def)
  then show ?thesis using assms by (simp add: sound_def del: sound_graph) (simp add: plans_ok_def sound_plan_def)
qed

text \<open>All relations are planned exactly when the graph connects them.\<close>

lemma all_relations: "0 < n \<Longrightarrow> [0..<n] \<in> csgs n g \<longleftrightarrow> conn g {..<n}"
  by (simp add: csgs_def atLeast_upt)

lemma planned_conn:
  assumes "simple_graph n g" "between pl n g f s" "ps_plans s [0..<n] \<noteq> None"
  shows "conn g {..<n}"
proof -
  obtain T where "tree_ok g T" "rels T = set [0..<n]"
    using plan_tree_exists [OF _ assms(3), of n "linked g" f] assms(2) by (auto simp: sound_def)
  then show ?thesis using tree_conn [OF assms(1)] by (metis atLeast_upt)
qed

lemma solved_all: "solved pl k n g f s \<Longrightarrow> 0 < n \<Longrightarrow> conn g {..<n} \<Longrightarrow> ps_plans s [0..<n] \<noteq> None"
  using searchD(9) [of pl "relation_sets n" k n g f "csgs n g" "ccps n g" s "[0..<n]"] all_relations by auto

lemma complete_all: "complete pl n f s \<Longrightarrow> ps_plans s [0..<n] \<noteq> None"
  by (auto simp: complete_def sound_def)

lemma complete_solved:
  assumes "solved pl k n g f s" "ps_plans s [0..<n] \<noteq> None"
  shows "complete pl n f s"
proof -
  have "plans_ok n (\<lambda>_ _. True) f s" by (rule plans_ok_mono [OF searchD(8) [OF assms(1)]]) simp
  then show ?thesis using assms searchD(1) [OF assms(1)] by (auto simp: complete_def sound_def)
qed

section \<open>The whole search\<close>

text \<open>The graph of the round that succeeds, and its pairs.\<close>

definition final_graph :: "Planner \<Rightarrow> QueryEdge \<Rightarrow> QueryEdge" where
  "final_graph pl g = (if conn g {..<pl_NumRelations pl} then g else cross_graph pl g)"

definition all_pairs :: "Planner \<Rightarrow> QueryEdge \<Rightarrow> nat" where
  "all_pairs pl g = (let n = pl_NumRelations pl in
     card (ccps n g) + (if conn g {..<n} then 0 else card (ccps n (cross_graph pl g))))"

lemma last_round:
  assumes g: "simple_graph n g" "conn g {..<n}" and n: "n = pl_NumRelations pl" "0 < n" and s: "between pl n g f s"
  shows "sx_wp (SolveJoinOrder (Suc fuel) pl)
    (\<lambda>_ t. complete pl n f t \<and> (n < 64 \<and> ps_pairs s + card (ccps n g) < 1000000 \<longrightarrow> solved pl (ps_pairs s) n g f t)) s"
    (is "sx_wp _ ?post s")
proof -
  have found: "complete pl n f t \<and> ?post () t"
    if "complete pl n f t \<and> \<not> (n < 64 \<and> ps_pairs s + card (ccps n g) < 1000000) \<or> n < 64 \<and> solved pl (ps_pairs s) n g f t" for t
    using that complete_solved solved_all [OF _ n(2) g(2)] by blast
  show ?thesis
    unfolding SolveJoinOrder_Suc sx_wp_bind [of "first_search pl"]
  proof (rule sx_wp_mono [OF first_search_wp [OF g(1) n s]])
    fix t assume "complete pl n f t \<and> \<not> (n < 64 \<and> ps_pairs s + card (ccps n g) < 1000000) \<or>
      n < 64 \<and> solved pl (ps_pairs s) n g f t"
    from found [OF this] show "sx_wp (sx_bind (sx_read (\<lambda>s. Inr (ps_plans s [0..<pl_NumRelations pl]))) (\<lambda>final_plan.
       if final_plan \<noteq> None then sx_ret ()
       else if pl_force_no_cross_product pl then
         sx_throw (Runtime_error ''Query requires a cross-product'')
       else sx_bind (GenerateCrossProducts pl) (\<lambda>_. SolveJoinOrder fuel pl))) ?post t"
      using complete_all [of pl n f t] n(1) by (simp add: sx_wp_bind sx_wp_read sx_wp_ret del: SolveJoinOrder.simps)
  qed
qed

text \<open>A first round that leaves relations unconnected.\<close>

lemma first_round:
  assumes g: "simple_graph n g" "\<not> conn g {..<n}" and n: "n = pl_NumRelations pl" "0 < n" and s: "between pl n g f s"
    and cross: "\<And>t. n < 64 \<Longrightarrow> solved pl (ps_pairs s) n g f t \<Longrightarrow> ps_plans t [0..<n] = None \<Longrightarrow> sx_wp
       (if pl_force_no_cross_product pl then sx_throw (Runtime_error ''Query requires a cross-product'')
        else sx_bind (GenerateCrossProducts pl) (\<lambda>_. SolveJoinOrder fuel pl)) Q t"
    and greedy: "\<And>t. complete pl n f t \<Longrightarrow> \<not> (n < 64 \<and> ps_pairs s + card (ccps n g) < 1000000) \<Longrightarrow> Q () t"
  shows "sx_wp (SolveJoinOrder (Suc fuel) pl) Q s"
  unfolding SolveJoinOrder_Suc sx_wp_bind [of "first_search pl"]
proof (rule sx_wp_mono [OF first_search_wp [OF g(1) n s]])
  fix t assume t: "complete pl n f t \<and> \<not> (n < 64 \<and> ps_pairs s + card (ccps n g) < 1000000) \<or>
      n < 64 \<and> solved pl (ps_pairs s) n g f t"
  have "ps_plans t [0..<n] = None" if "solved pl (ps_pairs s) n g f t"
    using planned_conn [OF g(1) search_between [OF that]] g(2) by blast
  note unconnected = this
  from t have "sx_wp (if ps_plans t [0..<n] \<noteq> None then sx_ret ()
      else if pl_force_no_cross_product pl then sx_throw (Runtime_error ''Query requires a cross-product'')
      else sx_bind (GenerateCrossProducts pl) (\<lambda>_. SolveJoinOrder fuel pl)) Q t"
  proof
    assume c: "complete pl n f t \<and> \<not> (n < 64 \<and> ps_pairs s + card (ccps n g) < 1000000)"
    then have "ps_plans t [0..<n] \<noteq> None" using complete_all by blast
    then show ?thesis using greedy [of t] c by (simp only: if_True sx_wp_ret simp_thms)
  next
    assume c: "n < 64 \<and> solved pl (ps_pairs s) n g f t"
    then have "ps_plans t [0..<n] = None" using unconnected by blast
    then show ?thesis using cross [of t] c by (simp only: if_False simp_thms)
  qed
  then show "sx_wp (sx_bind (sx_read (\<lambda>s. Inr (ps_plans s [0..<pl_NumRelations pl]))) (\<lambda>final_plan.
       if final_plan \<noteq> None then sx_ret ()
       else if pl_force_no_cross_product pl then
         sx_throw (Runtime_error ''Query requires a cross-product'')
       else sx_bind (GenerateCrossProducts pl) (\<lambda>_. SolveJoinOrder fuel pl))) Q t"
    unfolding n(1) sx_wp_bind [of "sx_read h" for h] sx_wp_read by blast
qed

lemma SolveJoinOrder_wp:
  assumes g: "simple_graph n g" and n: "n = pl_NumRelations pl" "0 < n" and s: "between pl n g f s"
    and cross: "conn g {..<n} \<or> \<not> pl_force_no_cross_product pl \<and> (\<forall>i < n. pl_cross_product_allowed pl i)"
  shows "sx_wp (SolveJoinOrder (Suc (Suc fuel)) pl)
    (\<lambda>_ t. complete pl n f t \<and> (n < 64 \<and> ps_pairs s + all_pairs pl g < 1000000 \<longrightarrow>
       (\<exists>k. solved pl k n (final_graph pl g) f t))) s" (is "sx_wp _ ?post s")
proof (cases "conn g {..<n}")
  case True
  then have "final_graph pl g = g" "all_pairs pl g = card (ccps n g)"
    using n(1) by (simp_all add: final_graph_def all_pairs_def)
  then show ?thesis by (intro sx_wp_mono [OF last_round [OF g True n s]]) auto
next
  case False
  let ?h = "cross_graph pl g"
  have h: "final_graph pl g = ?h" "all_pairs pl g = card (ccps n g) + card (ccps n ?h)" "simple_graph n ?h" "conn ?h {..<n}"
    using False n cross g cross_graph_simple [of pl g] conn_cross_graph [of pl g]
    by (simp_all add: final_graph_def all_pairs_def Let_def)
  have second: "sx_wp (sx_bind (GenerateCrossProducts pl) (\<lambda>_. SolveJoinOrder (Suc fuel) pl)) ?post t"
    if t: "solved pl (ps_pairs s) n g f t" for t
  proof -
    let ?t = "t\<lparr>ps_graph := ?h\<rparr>"
    have t': "between pl n ?h f ?t" by (rule between_cross [OF search_between [OF t]])
    have pairs: "ps_graph t = g" "ps_pairs ?t = ps_pairs s + card (ccps n g)" using searchD(3,7) [OF t] by simp_all
    have "sx_wp (SolveJoinOrder (Suc fuel) pl) ?post ?t"
      by (rule sx_wp_mono [OF last_round [OF h(3,4) n t']]) (auto simp: pairs(2) h(1,2) add.assoc)
    then show ?thesis by (simp add: GenerateCrossProducts_eq sx_wp pairs(1) del: SolveJoinOrder.simps)
  qed
  show ?thesis
    by (rule first_round [OF g False n s]) (use second cross False h(2) in auto)
qed

section \<open>Runs of a fresh optimizer\<close>

text \<open>The search of a fresh optimizer.\<close>

lemma fresh_search:
  assumes "fresh g s" "join_estimates pl filters cards (relation_sets n) f (ps_sm s)" "length cards = n"
    and filters: "list_all (filter_sided {..<n}) filters"
    and "\<And>t. between pl n g f t \<Longrightarrow> ps_pairs t = 0 \<Longrightarrow> sx_wp m Q t"
  shows "sx_wp (sx_bind (InitLeafPlans filters cards) (\<lambda>_. m)) Q s"
  unfolding sx_wp_bind
  by (rule sx_wp_mono [OF InitLeafPlans_wp [OF assms(1,2), where lk = "linked g"]])
    (use assms(3-5) in \<open>auto simp: sound_def relation_sets_def\<close>)

lemma joins_mono: "joins lk T \<Longrightarrow> (\<And>X Y. lk X Y \<Longrightarrow> lk' X Y) \<Longrightarrow> joins lk' T"
  by (induction T) auto

lemma complete_tree:
  assumes "complete pl n f s"
  shows "\<exists>p T. ps_plans s [0..<n] = Some p \<and> plan_tree (ps_plans s) [0..<n] T \<and> joins (\<lambda>_ _. True) T \<and>
    rels T = {..<n} \<and> C_out f T \<le> n_cost p"
proof -
  obtain p where p: "ps_plans s [0..<n] = Some p" using complete_all [OF assms] by blast
  have "plans_ok n (\<lambda>_ _. True) f s" using assms by (simp add: complete_def sound_def)
  from plan_tree_exists [OF this complete_all [OF assms]] show ?thesis using p by (auto simp: atLeast_upt)
qed

lemma join_order_exists:
  assumes g: "simple_graph n g" and n: "pl_NumRelations pl = n" "length cards = n" "0 < n"
    and filters: "list_all (filter_sided {..<n}) filters"
    and s: "fresh g s" "join_estimates pl filters cards (relation_sets n) f (ps_sm s)"
    and cross: "conn g {..<n} \<or> \<not> pl_force_no_cross_product pl \<and> (\<forall>i < n. pl_cross_product_allowed pl i)"
  shows "\<exists>t p T. sx_bind (InitLeafPlans filters cards) (\<lambda>_. SolveJoinOrder (Suc (Suc fuel)) pl) s = (Inr (), t) \<and>
    ps_plans t [0..<n] = Some p \<and> plan_tree (ps_plans t) [0..<n] T \<and> joins (\<lambda>_ _. True) T \<and>
    rels T = {..<n} \<and> C_out f T \<le> n_cost p \<and>
    (n < 64 \<and> all_pairs pl g < 1000000 \<longrightarrow> tree_ok (final_graph pl g) T \<and> n_cost p = C_out f T \<and>
       (\<forall>T'. tree_ok (final_graph pl g) T' \<and> rels T' = {..<n} \<longrightarrow> C_out f T \<le> C_out f T'))"
proof -
  let ?post = "\<lambda>_ t. complete pl n f t \<and>
    (n < 64 \<and> all_pairs pl g < 1000000 \<longrightarrow> (\<exists>k. solved pl k n (final_graph pl g) f t))"
  have "sx_wp (sx_bind (InitLeafPlans filters cards) (\<lambda>_. SolveJoinOrder (Suc (Suc fuel)) pl)) ?post s"
    by (rule fresh_search [OF s n(2) filters]) (use SolveJoinOrder_wp [OF g n(1) [symmetric] n(3) _ cross] in fastforce)
  then obtain t where run: "sx_bind (InitLeafPlans filters cards) (\<lambda>_. SolveJoinOrder (Suc (Suc fuel)) pl) s = (Inr (), t)"
    and t: "?post () t"
    unfolding sx_wp_result by auto
  show ?thesis
  proof (cases "n < 64 \<and> all_pairs pl g < 1000000")
    case False
    then show ?thesis using run complete_tree [OF conjunct1 [OF t]] by blast
  next
    case True
    then obtain k where k: "solved pl k n (final_graph pl g) f t" using t by blast
    have "conn (final_graph pl g) {..<n}"
      using n cross conn_cross_graph [of pl g] by (auto simp: final_graph_def)
    then have "cheapest (final_graph pl g) f t [0..<n]" using search_cheapest [OF k] all_relations n(3) by blast
    then obtain p T where "ps_plans t [0..<n] = Some p" "plan_tree (ps_plans t) [0..<n] T"
      "tree_ok (final_graph pl g) T" "rels T = {..<n}" "n_cost p = C_out f T"
      "\<forall>T'. tree_ok (final_graph pl g) T' \<and> rels T' = {..<n} \<longrightarrow> C_out f T \<le> C_out f T'"
      unfolding cheapest_def by (auto simp: atLeast_upt)
    moreover have "joins (\<lambda>_ _. True) T"
      using joins_mono [of "linked (final_graph pl g)" T "\<lambda>_ _. True"] \<open>tree_ok (final_graph pl g) T\<close> by simp
    ultimately show ?thesis using run by (intro exI [of _ t] exI [of _ p] exI [of _ T]) simp
  qed
qed

section \<open>Properties\<close>

text \<open>
  C6: a query gets a join order, if each edge of its graph links one relation with one other
  relation (\<open>simple_graph\<close>; predicates over several relations on a side are not covered) and its
  edges connect the relations, or cross products are not forbidden and every relation allows
  them. The estimates of all sets of relations are given and defined. The search returns, and
  its plan describes a join tree over all relations whose cost is at most the stored one. For
  fewer than 64 relations and a million pairs the tree is optimal: with the join predicates as
  edges when they connect the relations, and otherwise with all cross products added, its joins
  follow edges and no such tree is cheaper.
\<close>

theorem join_order_found:
  assumes g: "simple_graph n g" and n: "pl_NumRelations pl = n" "length cards = n" "0 < n"
    and filters: "list_all (filter_sided {..<n}) filters"
    and s: "fresh g s" "join_estimates pl filters cards (relation_sets n) f (ps_sm s)"
    and cross: "conn g {..<n} \<or> \<not> pl_force_no_cross_product pl \<and> (\<forall>i < n. pl_cross_product_allowed pl i)"
  shows "\<exists>t p T. sx_bind (InitLeafPlans filters cards) (\<lambda>_. SolveJoinOrder (Suc (Suc fuel)) pl) s = (Inr (), t) \<and>
    ps_plans t [0..<n] = Some p \<and> plan_tree (ps_plans t) [0..<n] T \<and> joins (\<lambda>_ _. True) T \<and>
    rels T = {..<n} \<and> C_out f T \<le> n_cost p \<and>
    (n < 64 \<and> all_pairs pl g < 1000000 \<longrightarrow> tree_ok (final_graph pl g) T \<and> n_cost p = C_out f T \<and>
       (\<forall>T'. tree_ok (final_graph pl g) T' \<and> rels T' = {..<n} \<longrightarrow> C_out f T \<le> C_out f T'))"
  by (rule join_order_exists [OF assms])

text \<open>
  C17: with cross products forbidden, a query of fewer than 64 relations is refused when each edge
  of its graph links one relation with one other relation (\<open>simple_graph\<close>), the edges do not
  connect all relations and there are fewer than a million pairs of disjoint, linked, connected
  sets: the optimizer throws, whatever the estimates are. (From a million pairs on the exact
  search gives up and the greedy search plans the query.)
\<close>

theorem cross_product_refused:
  assumes g: "simple_graph n g" "\<not> conn g {..<n}" and n: "pl_NumRelations pl = n" "length cards = n" "0 < n" "n < 64"
    and filters: "list_all (filter_sided {..<n}) filters"
    and s: "fresh g s" "join_estimates pl filters cards (relation_sets n) f (ps_sm s)"
    and budget: "card (ccps n g) < 1000000" and force: "pl_force_no_cross_product pl"
  shows "fst (sx_bind (InitLeafPlans filters cards) (\<lambda>_. SolveJoinOrder (Suc fuel) pl) s) =
    Inl (Runtime_error ''Query requires a cross-product'')"
proof -
  have none: "ps_plans t [0..<n] = None" if "solved pl k n g f t" for k t
    using planned_conn [OF g(1) search_between [OF that]] g(2) by blast
  have "sx_wp (sx_bind (InitLeafPlans filters cards) (\<lambda>_. first_search pl)) (\<lambda>_ t. ps_plans t [0..<n] = None) s"
  proof (rule fresh_search [OF s n(2) filters])
    fix t assume t: "between pl n g f t" "ps_pairs t = 0"
    show "sx_wp (first_search pl) (\<lambda>_ t. ps_plans t [0..<n] = None) t"
      by (rule sx_wp_mono [OF first_search_wp [OF g(1) n(1) [symmetric] n(3) t(1)]])
        (use none budget n(4) t(2) in auto)
  qed
  then obtain t where "sx_bind (InitLeafPlans filters cards) (\<lambda>_. first_search pl) s = (Inr (), t)" "ps_plans t [0..<n] = None"
    unfolding sx_wp_result by auto
  then show ?thesis
    unfolding SolveJoinOrder_Suc sx_bind_assoc [symmetric]
    by (simp add: sx_bind_eval(2) sx_bind_prim sx_eval force n(1))
qed

text \<open>
  C18: from 64 relations on the prohibition has no effect, for queries whose graph has only edges
  between one relation and one other relation (\<open>simple_graph\<close>) and defined estimates. The greedy
  search adds the cross products it needs without looking at the setting or at the relations
  that allow none: a query whose edges do not connect all relations gets a plan, and the plan
  has a join without a predicate.
\<close>

theorem greedy_ignores_prohibition:
  assumes g: "simple_graph n g" "\<not> conn g {..<n}" and n: "pl_NumRelations pl = n" "length cards = n" "64 \<le> n"
    and filters: "list_all (filter_sided {..<n}) filters"
    and s: "fresh g s" "join_estimates pl filters cards (relation_sets n) f (ps_sm s)"
  shows "\<exists>t p T. sx_bind (InitLeafPlans filters cards) (\<lambda>_. SolveJoinOrder (Suc fuel) pl) s = (Inr (), t) \<and>
    ps_plans t [0..<n] = Some p \<and> plan_tree (ps_plans t) [0..<n] T \<and> rels T = {..<n} \<and> \<not> tree_ok g T"
proof -
  have pos: "0 < n" using n(3) by simp
  have "sx_wp (sx_bind (InitLeafPlans filters cards) (\<lambda>_. SolveJoinOrder (Suc fuel) pl)) (\<lambda>_. complete pl n f) s"
  proof (rule fresh_search [OF s n(2) filters])
    fix t assume t: "between pl n g f t" "ps_pairs t = 0"
    show "sx_wp (SolveJoinOrder (Suc fuel) pl) (\<lambda>_. complete pl n f) t"
      by (rule first_round [OF g n(1) [symmetric] pos t(1)]) (use n(3) in auto)
  qed
  then obtain t where "sx_bind (InitLeafPlans filters cards) (\<lambda>_. SolveJoinOrder (Suc fuel) pl) s = (Inr (), t)"
    "complete pl n f t"
    unfolding sx_wp_result by auto
  moreover have "\<not> tree_ok g T" if "rels T = {..<n}" for T
    using tree_conn [OF g(1), of T] g(2) that by auto
  ultimately show ?thesis using complete_tree by blast
qed

end
