(* ===== verification/QueryPlan.thy ===== *)
theory QueryPlan
  imports PlanOrder
begin

text \<open>
  A query from its filter operators to the plan (\<open>QueryGraphManager::Build\<close> and
  \<open>JoinOrderOptimizer::Optimize\<close>): StarCE is told the tables, the filters become edges and
  predicates, and the enumerator searches. The relations, their statistics and the operators are
  given; the reconstruction of a logical plan from the chosen tree is not modelled.
\<close>

section \<open>The optimizer\<close>

record JoinQuery =
  jq_operators :: "FilterOperator list"
  jq_mapping :: "nat \<Rightarrow> nat option"
  jq_stats :: "RelationStats list"

text \<open>The cardinalities of StarCE replace those of the relations (\<open>ResetCardinality\<close>).\<close>

definition prepare_starce :: "RelationStats list \<Rightarrow> RelationStats list smx" where
  "prepare_starce stats =
     sx_bind PrepareEstimate (\<lambda>_.
     sx_bind (add_tables (map (\<lambda>s. (rs_table_name s, rs_column_names s, rs_cardinality s)) stats)) (\<lambda>_.
     sx_bind (sx_read (\<lambda>sm. Inr (sm_UseSingleTableCard sm))) (\<lambda>single.
       if single
       then sx_bind (ResetCardinality (length stats)) (\<lambda>cards.
              sx_ret (map2 (\<lambda>s c. s\<lparr>rs_cardinality := nat (c mod 2 ^ 64)\<rparr>) stats cards))
       else sx_ret stats)))"

abbreviation no_edges :: QueryEdge where
  "no_edges \<equiv> QueryEdge [] []"

definition query_build :: "JoinQuery \<Rightarrow> StatisticManager \<Rightarrow> FilterInfo list res \<times> HyperState" where
  "query_build q sm = build_edges (jq_operators q) \<lparr>hs_mapping = jq_mapping q, hs_graph = no_edges, hs_sm = sm\<rparr>"

definition query_edges :: "JoinQuery \<Rightarrow> (FilterInfo list \<times> QueryEdge) smx" where
  "query_edges q sm =
     (case query_build q sm of
        (Inl e, h) \<Rightarrow> (Inl e, hs_sm h) | (Inr filters, h) \<Rightarrow> (Inr (filters, hs_graph h), hs_sm h))"

definition plan_start :: "QueryEdge \<Rightarrow> StatisticManager \<Rightarrow> PlanState" where
  "plan_start g sm = \<lparr>ps_graph = g, ps_plans = Map.empty, ps_pairs = 0, ps_tdoms = [], ps_cards = Map.empty, ps_sm = sm\<rparr>"

definition search_plan :: "nat \<Rightarrow> Planner \<Rightarrow> FilterInfo list \<Rightarrow> RelationStats list \<Rightarrow> QueryEdge \<Rightarrow> PlanState smx" where
  "search_plan fuel pl filters stats g sm =
     (case sx_bind (InitLeafPlans filters stats) (\<lambda>_. SolveJoinOrder fuel pl) (plan_start g sm) of
        (Inl e, t) \<Rightarrow> (Inl e, ps_sm t) | (Inr u, t) \<Rightarrow> (Inr t, ps_sm t))"

text \<open>The result is the state of the enumerator with its plans.\<close>

definition plan_query :: "nat \<Rightarrow> Planner \<Rightarrow> JoinQuery \<Rightarrow> PlanState smx" where
  "plan_query fuel pl q =
     sx_bind (if pl_use_starce pl then prepare_starce (jq_stats q) else sx_ret (jq_stats q)) (\<lambda>stats.
     sx_bind (query_edges q) (\<lambda>(filters, g).
     sx_bind (search_plan fuel pl filters stats g) (\<lambda>t.
     sx_bind (if pl_use_starce pl then sx_mod FinishEstimate else sx_ret ()) (\<lambda>_. sx_ret t))))"

section \<open>The graph of a query\<close>

definition single_sides :: "(nat \<Rightarrow> nat option) \<Rightarrow> FilterOperator \<Rightarrow> bool" where
  "single_sides m op \<longleftrightarrow> (\<forall>(A, B) \<in> operator_sides m op. card A \<le> 1 \<and> card B \<le> 1)"

lemma relations_finite [simp]: "finite (left_relations m e)" "finite (right_relations m e)"
  by (cases e; simp)+

lemma operator_sides_ok:
  assumes "(A, B) \<in> operator_sides m op"
  shows "finite A" "finite B" "A \<union> B \<subseteq> ran m"
proof -
  have sub: "left_relations m e \<union> right_relations m e \<subseteq> ran m" for e
    using expr_relations_ran by (cases e) fastforce+
  have fin: "finite (\<Union>(k, l, r) \<in> set cs. expr_relations m l)" "finite (\<Union>(k, l, r) \<in> set cs. expr_relations m r)"
    for cs :: "(ExpressionType \<times> Expression \<times> Expression) list"
    by (auto split: prod.split)
  have "finite A \<and> finite B \<and> A \<union> B \<subseteq> ran m"
  proof (cases op)
    case (LogicalComparisonJoin join_type cs)
    show ?thesis
    proof (cases "join_type = INNER")
      case True
      then show ?thesis using assms LogicalComparisonJoin expr_relations_ran by (fastforce simp: operator_sides_def)
    next
      case False
      then show ?thesis using assms LogicalComparisonJoin fin [of cs] expr_relations_ran
        by (auto simp: operator_sides_def split: prod.splits)
    qed
  next
    case (LogicalFilter es)
    then show ?thesis using assms sub by (auto simp: operator_sides_def)
  qed
  then show "finite A" "finite B" "A \<union> B \<subseteq> ran m" by simp_all
qed

lemma single_graph:
  assumes "list_all (single_sides m) ops" "ran m \<subseteq> {..<n}" "edge_set g = (\<Union>op \<in> set ops. operator_edges m op)"
  shows "simple_graph n g"
proof -
  have one: "\<exists>u. A = {u}" if "finite A" "A \<noteq> {}" "card A \<le> 1" for A :: "nat set"
    using that by (metis card_0_eq card_1_singletonE le_neq_implies_less less_one)
  have edge: "\<exists>u v. left = [u] \<and> right = [v] \<and> u < n \<and> v < n \<and> u \<noteq> v \<and> ([v], [u]) \<in> edge_set g"
    if e: "(left, right) \<in> edge_set g" for left right
  proof -
    obtain op A B where AB: "op \<in> set ops" "(A, B) \<in> operator_sides m op" "(left, right) \<in> pair_edges A B"
      using e assms(3) by (auto simp: operator_edges_def)
    have linked: "sides_linked A B" using AB(3) by (auto simp: pair_edges_def split: if_splits)
    moreover have "card A \<le> 1" "card B \<le> 1" using assms(1) AB(1,2) by (auto simp: list_all_iff single_sides_def)
    ultimately obtain u v where uv: "A = {u}" "B = {v}" using one operator_sides_ok(1,2) [OF AB(2)] by metis
    have "pair_edges A B \<subseteq> edge_set g" using AB(1,2) assms(3) by (auto simp: operator_edges_def)
    then show ?thesis
      using uv linked AB(3) operator_sides_ok(3) [OF AB(2)] assms(2) by (auto simp: pair_edges_def)
  qed
  then show ?thesis unfolding simple_graph_def adj_def by blast
qed

lemma created_sided:
  assumes "extracted m f" "created m f f'" "ran m \<subseteq> V"
  shows "filter_sided V f'"
proof -
  have "left_relations m e \<union> right_relations m e \<subseteq> V" for e
    using expr_relations_ran assms(3) by (cases e) fastforce+
  then have "left_side m f \<union> right_side m f \<subseteq> V" by (auto simp: left_side_def right_side_def)
  then show ?thesis using assms(2) by (auto simp: created_def filter_sided_def sided_def Let_def split: if_splits)
qed

lemma created_list_sided:
  "list_all2 (created m) fs fs' \<Longrightarrow> list_all (extracted m) fs \<Longrightarrow> ran m \<subseteq> V \<Longrightarrow> list_all (filter_sided V) fs'"
  by (induction rule: list_all2_induct) (auto intro: created_sided)

text \<open>
  C9: the query graph and StarCE see the predicates of the query. From operators over columns of
  the relations, \<open>ExtractEdges\<close> and \<open>CreateHyperGraphEdges\<close> never fail; the edges they add are
  those between the relations on the two sides of a condition, in both directions, when both
  sides have relations and share none (all conditions of a semi or anti join together); and
  StarCE is told exactly the equalities between columns of two relations in inner joins and
  filters. Repeated conditions change nothing.
\<close>

theorem query_graph_from_operators:
  assumes "list_all (operator_ok m) ops" "hs_mapping s = m"
  shows "\<exists>fs t ps. build_edges ops s = (Inr fs, t) \<and> hs_mapping t = m \<and>
    edge_set (hs_graph t) = edge_set (hs_graph s) \<union> (\<Union>op \<in> set ops. operator_edges m op) \<and>
    hs_sm t = add_predicates ps (hs_sm s) \<and> set ps = (\<Union>op \<in> set ops. operator_equalities m op)"
proof -
  from build_edges_ok [OF assms] obtain fs t where
    "build_edges ops s = (Inr fs, t)" "hs_mapping t = m"
    "edge_set (hs_graph t) = edge_set (hs_graph s) \<union> (\<Union>op \<in> set ops. operator_edges m op)"
    "hs_sm t = add_predicates (filter_predicates m fs) (hs_sm s)"
    "set (filter_predicates m fs) = (\<Union>op \<in> set ops. operator_equalities m op)"
    by (elim exE conjE) (rule that)
  then show ?thesis by (intro exI conjI)
qed

text \<open>A predicate of StarCE links the columns of its filter.\<close>

lemma starce_filter_columns:
  assumes "extracted m f" "created m f f'" "p \<in> set (starce_predicates m f')"
  shows "filter_columns f' = [p]"
proof -
  have p: "p \<in> set (starce_predicates m f)" using created_sides(3) [OF assms(2)] assms(3) by simp
  then obtain k l r t c u d where f: "fi_join_type f = INNER" "fi_filter f = BoundComparisonExpression k l r"
    "column_of l = Some (t, c)" "column_of r = Some (u, d)" "m t \<noteq> m u"
    by (cases "fi_filter f") (auto simp: starce_predicates_def starce_pairs_def dest!: sym [of "Some x" for x] split: if_splits option.splits)
  obtain a b where cols: "l = BoundColumnRefExpression a t c" "r = BoundColumnRefExpression b u d"
    using f(3,4) by (auto simp: column_of_def split: Expression.splits)
  then obtain i j where ij: "m t = Some i" "m u = Some j" "i \<noteq> j"
    using assms(1) f(2,5) by (auto simp: extracted_def)
  have sides: "left_side m f = {i}" "right_side m f = {j}"
    using f cols ij by (simp_all add: left_side_def right_side_def filter_parts_def)
  have "fi_set f' = sorted_list_of_set {i, j}"
    using assms(1,2) f(2) cols ij by (simp add: extracted_def created_def)
  then have "length (fi_set f') = 2" using ij(3) by simp
  moreover have "fi_left_set f' \<noteq> None" "fi_right_set f' \<noteq> None" "fi_left_binding f' = fst p" "fi_right_binding f' = snd p"
    using assms(2) p sides by (auto simp: created_def Let_def)
  ultimately show ?thesis by (simp add: filter_columns_def SingleColumnFilter_def EmptyFilter_def)
qed

lemma starce_pairs_columns:
  "list_all2 (created m) fs fs' \<Longrightarrow> list_all (extracted m) fs \<Longrightarrow>
   set (filter_predicates m fs') \<subseteq> set (concat (map filter_columns fs'))"
proof (induction rule: list_all2_induct)
  case (Cons f fs f' fs')
  have "set (starce_predicates m f') \<subseteq> set (filter_columns f')"
    using starce_filter_columns [of m f f'] Cons by fastforce
  then show ?case using Cons by (auto simp: filter_predicates_def)
qed (simp add: filter_predicates_def)

text \<open>
  C10: StarCE's attribute sets refine DuckDB's total domains. For every query over columns of its
  relations, two columns that StarCE takes to be equal (they share an attribute set after
  \<open>Build\<close>) have one total domain in DuckDB's estimator.
\<close>

theorem starce_classes_within_domains:
  assumes ops: "list_all (operator_ok m) ops" and sm: "\<not> sm_prepared sm"
  shows "\<exists>fs t. build_edges ops \<lparr>hs_mapping = m, hs_graph = g, hs_sm = snd (PrepareEstimate sm)\<rparr> = (Inr fs, t) \<and>
    same_eset (sm_attrEsets (hs_sm t)) \<subseteq> same_tdom (InitEquivalentRelations fs [])"
proof -
  let ?s = "\<lparr>hs_mapping = m, hs_graph = g, hs_sm = snd (PrepareEstimate sm)\<rparr>"
  have "hs_mapping ?s = m" by simp
  from build_edges_ok [OF ops this] obtain fs0 fs t where t: "build_edges ops ?s = (Inr fs, t)"
    "list_all (extracted m) fs0" "list_all2 (created m) fs0 fs"
    "hs_sm t = add_predicates (filter_predicates m fs) (hs_sm ?s)"
    by (elim exE conjE) (rule that)
  have "sm_attrEsets (snd (PrepareEstimate sm)) = []" using sm by (simp add: PrepareEstimate_def sx_simps)
  then have "same_eset (sm_attrEsets (hs_sm t)) = pairs_closure (set (filter_predicates m fs))"
    using attr_classes.related_joins [of "[]" "{}" "filter_predicates m fs"] t(4)
    by (simp add: add_predicates_attrEsets pairs_closure_def)
  also have "\<dots> \<subseteq> pairs_closure (set (concat (map filter_columns fs)))"
    using starce_pairs_columns [OF t(3,2)] unfolding pairs_closure_def by (intro trancl_mono_subset) auto
  also have "\<dots> = same_tdom (InitEquivalentRelations fs [])" using InitEquivalentRelations_classes by simp
  finally show ?thesis using t(1) by blast
qed

section \<open>Plans with DuckDB's estimates\<close>

lemma query_edges_ok:
  assumes ops: "list_all (operator_ok m) ops" "list_all (single_sides m) ops" and m: "ran m \<subseteq> {..<n}"
    and s: "hs_mapping s = m" "hs_graph s = no_edges"
  shows "\<exists>fs h. build_edges ops s = (Inr fs, h) \<and> list_all (filter_sided {..<n}) fs \<and> simple_graph n (hs_graph h) \<and>
    edge_set (hs_graph h) = (\<Union>op \<in> set ops. operator_edges m op)"
proof -
  from build_edges_ok [OF ops(1) s(1)] obtain fs0 fs h where h: "build_edges ops s = (Inr fs, h)"
    "list_all (extracted m) fs0" "list_all2 (created m) fs0 fs"
    "edge_set (hs_graph h) = edge_set (hs_graph s) \<union> (\<Union>op \<in> set ops. operator_edges m op)"
    by (elim exE conjE) (rule that)
  then have edges: "edge_set (hs_graph h) = (\<Union>op \<in> set ops. operator_edges m op)" using s(2) by simp
  show ?thesis using h(1) edges created_list_sided [OF h(3,2) m] single_graph [OF ops(2) m edges] by blast
qed

lemma plan_query_native:
  assumes "\<not> pl_use_starce pl" "query_build q sm = (Inr fs, h)"
    and "sx_bind (InitLeafPlans fs (jq_stats q)) (\<lambda>_. SolveJoinOrder fuel pl) (plan_start (hs_graph h) (hs_sm h)) = (Inr (), t)"
  shows "plan_query fuel pl q sm = (Inr t, ps_sm t)"
proof -
  have "query_edges q sm = (Inr (fs, hs_graph h), hs_sm h)" by (simp add: query_edges_def assms(2))
  moreover have "search_plan fuel pl fs (jq_stats q) (hs_graph h) (hs_sm h) = (Inr t, ps_sm t)"
    by (simp add: search_plan_def assms(3) del: SolveJoinOrder.simps)
  ultimately show ?thesis using assms(1)
    by (simp add: plan_query_def sx_bind_prim sx_bind_eval(2) sx_eval del: SolveJoinOrder.simps)
qed

text \<open>
  C8: with StarCE off, a query gets a plan under three conditions: every operator is an inner, semi
  or anti join or a filter, over columns of the relations; each side of a predicate has at most
  one relation (for a semi or anti join, all its conditions together; \<open>single_sides\<close>); and the
  predicates connect all relations, or cross products are not forbidden and every relation
  allows them. Then the filters become a graph and total domains, every estimate is defined and
  positive, and the search returns a join tree over all relations; for fewer than 64 relations
  and a million pairs it is a cheapest tree for these estimates.
\<close>

theorem native_query_planned:
  assumes ops: "list_all (operator_ok (jq_mapping q)) (jq_operators q)" "list_all (single_sides (jq_mapping q)) (jq_operators q)"
    and m: "ran (jq_mapping q) \<subseteq> {..<n}" and n: "pl_NumRelations pl = n" "length (jq_stats q) = n" "0 < n"
    and starce: "\<not> pl_use_starce pl"
    and cross: "conn (hs_graph (snd (query_build q sm))) {..<n} \<or>
      \<not> pl_force_no_cross_product pl \<and> (\<forall>i < n. pl_cross_product_allowed pl i)"
  shows "\<exists>fs h t p T. query_build q sm = (Inr fs, h) \<and> fst (plan_query (Suc (Suc fuel)) pl q sm) = Inr t \<and>
    ps_plans t [0..<n] = Some p \<and> plan_tree (ps_plans t) [0..<n] T \<and> rels T = {..<n} \<and>
    (\<exists>f. (\<forall>S \<in> relation_sets n. native_estimate (leaf_tdoms fs (jq_stats q)) (leaf_cardinalities (jq_stats q)) S = Inr (f S) \<and> 0 < f S) \<and>
      C_out f T \<le> n_cost p \<and>
      (n < 64 \<and> all_pairs pl (hs_graph h) < 1000000 \<longrightarrow> tree_ok (final_graph pl (hs_graph h)) T \<and> n_cost p = C_out f T \<and>
         (\<forall>T'. tree_ok (final_graph pl (hs_graph h)) T' \<and> rels T' = {..<n} \<longrightarrow> C_out f T \<le> C_out f T')))"
proof -
  let ?s = "\<lparr>hs_mapping = jq_mapping q, hs_graph = no_edges, hs_sm = sm\<rparr>"
  have "hs_mapping ?s = jq_mapping q" "hs_graph ?s = no_edges" by simp_all
  from query_edges_ok [OF ops m this] obtain fs h where h: "query_build q sm = (Inr fs, h)"
    "list_all (filter_sided {..<n}) fs" "simple_graph n (hs_graph h)"
    unfolding query_build_def by blast
  let ?e = "native_estimate (leaf_tdoms fs (jq_stats q)) (leaf_cardinalities (jq_stats q))"
  define f where "f S = projr (?e S)" for S
  have pos: "?e S = Inr (f S) \<and> 0 < f S" if "S \<in> relation_sets n" for S
  proof -
    have "set S \<subseteq> {..<n}" using that by (simp add: relation_sets_def)
    then obtain x where "?e S = Inr x" "0 < x"
      using native_estimate_pos [OF leaf_tdoms_ok [OF h(2)] leaf_cardinalities_ok [of "jq_stats q", unfolded n(2)]] by blast
    then show ?thesis by (simp add: f_def)
  qed
  have est: "join_estimates pl fs (jq_stats q) (relation_sets n) f sm'" for sm'
    using pos starce by (simp add: join_estimates_def)
  have fresh: "fresh (hs_graph h) (plan_start (hs_graph h) (hs_sm h))" by (simp add: fresh_def plan_start_def)
  have "conn (hs_graph h) {..<n} \<or> \<not> pl_force_no_cross_product pl \<and> (\<forall>i < n. pl_cross_product_allowed pl i)"
    using cross h(1) by simp
  from join_order_exists [OF h(3) n h(2) fresh est this, of fuel]
  obtain t p T where run: "sx_bind (InitLeafPlans fs (jq_stats q)) (\<lambda>_. SolveJoinOrder (Suc (Suc fuel)) pl)
      (plan_start (hs_graph h) (hs_sm h)) = (Inr (), t)"
    and T: "ps_plans t [0..<n] = Some p" "plan_tree (ps_plans t) [0..<n] T" "rels T = {..<n}" "C_out f T \<le> n_cost p"
      "n < 64 \<and> all_pairs pl (hs_graph h) < 1000000 \<longrightarrow> tree_ok (final_graph pl (hs_graph h)) T \<and> n_cost p = C_out f T \<and>
         (\<forall>T'. tree_ok (final_graph pl (hs_graph h)) T' \<and> rels T' = {..<n} \<longrightarrow> C_out f T \<le> C_out f T')"
    by (elim exE conjE) (rule that)
  have "fst (plan_query (Suc (Suc fuel)) pl q sm) = Inr t" using plan_query_native [OF starce h(1) run] by simp
  then show ?thesis using h(1) T pos
    by (intro exI [of _ fs] exI [of _ h] exI [of _ t] exI [of _ p] exI [of _ T] conjI exI [of _ f] ballI) simp_all
qed

end
