(* ===== verification/CardEst_Cases.thy ===== *)
theory CardEst_Cases
  imports QueryPlan
begin

text \<open>
  Two queries for which DuckDB's estimate ignores a predicate or a relation: equalities between
  the first columns of relations, in a filter operator.
\<close>

section \<open>Queries of equalities\<close>

definition col :: "nat \<Rightarrow> Expression" where
  "col i = BoundColumnRefExpression ''x'' i 0"

definition equality :: "nat \<Rightarrow> nat \<Rightarrow> Expression" where
  "equality i j = BoundComparisonExpression COMPARE_EQUAL (col i) (col j)"

definition equality_query :: "Expression list \<Rightarrow> RelationStats list \<Rightarrow> JoinQuery" where
  "equality_query es stats = \<lparr>jq_operators = [LogicalFilter es], jq_mapping = Some, jq_stats = stats\<rparr>"

definition equality_filter :: "nat \<Rightarrow> nat \<Rightarrow> nat \<Rightarrow> FilterInfo" where
  "equality_filter k i j = \<lparr>fi_filter = equality i j, fi_set = [i, j], fi_filter_index = k, fi_join_type = INNER,
     fi_left_set = Some [i], fi_right_set = Some [j], fi_left_binding = (i, 0), fi_right_binding = (j, 0)\<rparr>"

lemma equality_query_stats [simp]: "jq_stats (equality_query es stats) = stats"
  by (simp add: equality_query_def)

text \<open>DuckDB's estimate of a set of relations of a query, after the leaves.\<close>

definition query_estimate :: "JoinQuery \<Rightarrow> StatisticManager \<Rightarrow> JoinRelationSet \<Rightarrow> real res" where
  "query_estimate q sm S =
     res_bind (fst (query_build q sm)) (\<lambda>fs.
       native_estimate (leaf_tdoms fs (jq_stats q)) (leaf_cardinalities (jq_stats q)) S)"

lemma equality_edge:
  assumes "i < j" "hs_mapping s = Some"
  shows "hyper_edge (new_filter_info (equality i j) [i, j] k INNER) s =
    (Inr (equality_filter k i j), s\<lparr>hs_graph := connect [i] [j] (equality_filter k i j) (hs_graph s),
       hs_sm := AddPredicate i j 0 0 (hs_sm s)\<rparr>)"
  using assms
  by (cases s) (simp add: hyper_edge_def comparison_edge_def equality_def col_def new_filter_info_def equality_filter_def Let_def
      relation_set_def Disjoint_def starce_equality_def is_column_def)

lemma add_equality:
  "i < j \<Longrightarrow> list_all (\<lambda>x. \<not> Equals x (equality i j)) seen \<Longrightarrow> add_filter_expression Some (equality i j) (fs, seen) =
   (fs @ [new_filter_info (equality i j) [i, j] (length fs) INNER], equality i j # seen)"
  by (simp add: add_filter_expression_def add_expression_def equality_def col_def relation_set_def list_ex_iff list_all_iff)

lemma Equals_equality [simp]: "Equals (equality i j) (equality k l) \<longleftrightarrow> i = k \<and> j = l"
  by (simp add: equality_def col_def Equals.simps)

lemmas build_simps = query_build_def build_edges_def equality_query_def ExtractEdges_def extract_operator_def
  add_equality sx_bind_prim CreateHyperGraphEdges_def sx_bind_unfold equality_edge sx_eval numeral_2_eq_2 numeral_3_eq_3

lemma equality_filter_simps [simp]:
  "i \<noteq> j \<Longrightarrow> \<not> SingleColumnFilter (equality_filter k i j)" "\<not> EmptyFilter (equality_filter k i j)"
  "fi_left_binding (equality_filter k i j) = (i, 0)" "fi_right_binding (equality_filter k i j) = (j, 0)"
  "fi_set (equality_filter k i j) = [i, j]" "fi_left_set (equality_filter k i j) = Some [i]"
  "fi_right_set (equality_filter k i j) = Some [j]" "fi_join_type (equality_filter k i j) = INNER"
  "comparison_types (fi_filter (equality_filter k i j)) = [COMPARE_EQUAL]"
  by (simp_all add: SingleColumnFilter_def EmptyFilter_def equality_filter_def equality_def col_def)

lemmas domain_simps = InitEquivalentRelations_def add_filter_def DetermineMatchingEquivalentSets_def
  AddToEquivalenceSets_def RemoveEmptyTotalDomains_def new_tdom_def

text \<open>The leaves keep the filters of the domains; sorting may change the order.\<close>

lemma update_first_domains: "map td_filters (update_first key d tdoms) = map td_filters tdoms"
  by (induction key d tdoms rule: update_first.induct) simp_all

lemma leaf_domains: "mset (map td_filters (leaf_tdoms fs stats)) = mset (map td_filters (InitEquivalentRelations fs []))"
proof -
  have "map td_filters (fold (\<lambda>k. update_first (i, k) (g k)) ks t) = map td_filters t" for i g ks t
    by (induction ks arbitrary: t) (simp_all add: update_first_domains)
  then have update: "map td_filters (UpdateTotalDomains i st t) = map td_filters t" for i st t
    by (simp add: UpdateTotalDomains_def)
  have "mset (map td_filters (sort_tdoms (UpdateTotalDomains i st t))) = mset (map td_filters t)" for i st t
    using update by (simp add: sort_tdoms_def) (metis mset_map)
  then have "mset (map td_filters (fold (\<lambda>(i, st) t. sort_tdoms (UpdateTotalDomains i st t)) ics t)) = mset (map td_filters t)"
    for ics t
    by (induction ics arbitrary: t) auto
  then show ?thesis by (simp add: leaf_tdoms_def)
qed

section \<open>A predicate that is forgotten\<close>

lemma merge_build:
  "fst (query_build (equality_query [equality 0 1, equality 2 3, equality 1 2] stats) sm) =
     Inr [equality_filter 0 0 1, equality_filter 1 2 3, equality_filter 2 1 2]"
  "fst (query_build (equality_query [equality 0 1, equality 1 2, equality 2 3] stats) sm) =
     Inr [equality_filter 0 0 1, equality_filter 1 1 2, equality_filter 2 2 3]"
  by (simp_all add: build_simps)

lemma merge_domains:
  "InitEquivalentRelations [equality_filter 0 0 1, equality_filter 1 2 3, equality_filter 2 1 2] [] =
     [(new_tdom [(2, 0), (3, 0), (1, 0), (0, 0)])\<lparr>td_filters := [equality_filter 0 0 1, equality_filter 2 1 2]\<rparr>]"
  "InitEquivalentRelations [equality_filter 0 0 1, equality_filter 1 1 2, equality_filter 2 2 3] [] =
     [(new_tdom [(3, 0), (2, 0), (1, 0), (0, 0)])\<lparr>td_filters :=
        [equality_filter 0 0 1, equality_filter 1 1 2, equality_filter 2 2 3]\<rparr>]"
  by (simp_all add: domain_simps)

lemma one_domain:
  assumes "InitEquivalentRelations fs [] = [t]"
  obtains t' where "leaf_tdoms fs stats = [t']" "td_filters t' = td_filters t"
proof -
  have "mset (map td_filters (leaf_tdoms fs stats)) = mset [td_filters t]" using leaf_domains [of fs stats] assms by simp
  then have "map td_filters (leaf_tdoms fs stats) = [td_filters t]" by (simp del: mset_map)
  then show thesis using that by auto
qed

text \<open>
  C21: a predicate between two classes of columns makes DuckDB forget predicates. For the filters
  \<open>r0.x = r1.x\<close>, \<open>r2.x = r3.x\<close> and \<open>r1.x = r2.x\<close>, in this order, the third merges the domains of the
  first two and the filters of the second domain are dropped with it: the estimate of
  \<open>r2\<close> and \<open>r3\<close> is that of a cross product, whatever the statistics are. In the order
  \<open>r0.x = r1.x\<close>, \<open>r1.x = r2.x\<close>, \<open>r2.x = r3.x\<close> the same query has its estimate divided by the total
  domain.
\<close>

theorem merged_domain_loses_filters:
  "query_estimate (equality_query [equality 0 1, equality 2 3, equality 1 2] stats) sm [2, 3] =
     GetNumerator (leaf_cardinalities stats) [2, 3] \<and>
   (\<exists>t d. leaf_tdoms [equality_filter 0 0 1, equality_filter 1 1 2, equality_filter 2 2 3] stats = [t] \<and>
     d = (if tdom_size t = 0 then 1 else tdom_size t) \<and>
     query_estimate (equality_query [equality 0 1, equality 1 2, equality 2 3] stats) sm [2, 3] =
       res_map (\<lambda>x. x / of_nat d) (GetNumerator (leaf_cardinalities stats) [2, 3]))"
proof
  obtain t where t: "leaf_tdoms [equality_filter 0 0 1, equality_filter 1 2 3, equality_filter 2 1 2] stats = [t]"
    "td_filters t = [equality_filter 0 0 1, equality_filter 2 1 2]"
    using one_domain [OF merge_domains(1), of stats] by auto
  then have "GetEdges [t] [2, 3] = []" by (simp add: GetEdges_def IsSubset_def)
  then have "GetDenominator [t] [2, 3] = Inr \<lparr>dn_numerator_relations = [2, 3], dn_filter_strength = 1, dn_denominator = 1\<rparr>"
    by (simp add: GetDenominator_def)
  then show "query_estimate (equality_query [equality 0 1, equality 2 3, equality 1 2] stats) sm [2, 3] =
     GetNumerator (leaf_cardinalities stats) [2, 3]"
    unfolding query_estimate_def merge_build(1) res_bind_simps equality_query_stats t(1) by (simp add: native_estimate_def res_bind_def split: sum.split)
next
  obtain t where t: "leaf_tdoms [equality_filter 0 0 1, equality_filter 1 1 2, equality_filter 2 2 3] stats = [t]"
    "td_filters t = [equality_filter 0 0 1, equality_filter 1 1 2, equality_filter 2 2 3]"
    using one_domain [OF merge_domains(2), of stats] by auto
  let ?d = "if tdom_size t = 0 then 1 else tdom_size t"
  have "GetEdges [t] [2, 3] = [\<lparr>fd_filter_info = equality_filter 2 2 3, fd_tdom_hll = td_tdom_hll t,
      fd_tdom_no_hll = td_tdom_no_hll t, fd_has_tdom_hll = td_has_tdom_hll t\<rparr>]"
    using t(2) by (simp add: GetEdges_def IsSubset_def)
  then have "GetDenominator [t] [2, 3] = Inr \<lparr>dn_numerator_relations = [2, 3], dn_filter_strength = 1, dn_denominator = of_nat ?d\<rparr>"
    by (simp add: GetDenominator_def denom_step_def SubgraphsConnectedByEdge_def new_subgraph_def side_subgraph_def deref_def
        UpdateNumeratorRelations_def CalculateUpdatedDenom_def comparison_ratio_def edge_tdom_def tdom_size_def Let_def)
  then have "query_estimate (equality_query [equality 0 1, equality 1 2, equality 2 3] stats) sm [2, 3] =
       res_map (\<lambda>x. x / of_nat ?d) (GetNumerator (leaf_cardinalities stats) [2, 3])"
    unfolding query_estimate_def merge_build(2) res_bind_simps equality_query_stats t(1) by (simp add: native_estimate_def res_map_def res_bind_def split: sum.split)
  then show "\<exists>t d. leaf_tdoms [equality_filter 0 0 1, equality_filter 1 1 2, equality_filter 2 2 3] stats = [t] \<and>
     d = (if tdom_size t = 0 then 1 else tdom_size t) \<and>
     query_estimate (equality_query [equality 0 1, equality 1 2, equality 2 3] stats) sm [2, 3] =
       res_map (\<lambda>x. x / of_nat d) (GetNumerator (leaf_cardinalities stats) [2, 3])"
    using t(1) by blast
qed

section \<open>A cross product that is forgotten\<close>

lemma pairs_build:
  "fst (query_build (equality_query [equality 0 1, equality 2 3] stats) sm) = Inr [equality_filter 0 0 1, equality_filter 1 2 3]"
  by (simp add: build_simps)

lemma pairs_domains:
  "map td_filters (InitEquivalentRelations [equality_filter 0 0 1, equality_filter 1 2 3] []) =
     [[equality_filter 0 0 1], [equality_filter 1 2 3]]"
  by (simp add: domain_simps)

lemma two_element_mset:
  assumes "mset xs = mset [x, y]"
  shows "xs = [x, y] \<or> xs = [y, x]"
proof -
  have "length xs = 2" using assms by (metis size_mset length_Cons list.size(3) numeral_2_eq_2)
  then obtain a b where "xs = [a, b]" by (cases xs; cases "tl xs") auto
  then show ?thesis using assms by (auto simp: add_eq_conv_diff split: if_splits)
qed

lemma two_domains:
  obtains t u where "leaf_tdoms [equality_filter 0 0 1, equality_filter 1 2 3] stats = [t, u]"
    "td_filters t = [equality_filter 0 0 1]" "td_filters u = [equality_filter 1 2 3]"
  | t u where "leaf_tdoms [equality_filter 0 0 1, equality_filter 1 2 3] stats = [u, t]"
    "td_filters t = [equality_filter 0 0 1]" "td_filters u = [equality_filter 1 2 3]"
proof -
  let ?a = "[equality_filter 0 0 1]" and ?b = "[equality_filter 1 2 3]"
  have "mset (map td_filters (leaf_tdoms [equality_filter 0 0 1, equality_filter 1 2 3] stats)) = mset [?a, ?b]"
    using leaf_domains [of "[equality_filter 0 0 1, equality_filter 1 2 3]" stats] unfolding pairs_domains .
  from two_element_mset [OF this] consider "map td_filters (leaf_tdoms [equality_filter 0 0 1, equality_filter 1 2 3] stats) = [?a, ?b]"
    | "map td_filters (leaf_tdoms [equality_filter 0 0 1, equality_filter 1 2 3] stats) = [?b, ?a]"
    by (elim disjE)
  then show thesis
  proof cases
    case 1
    then show thesis using that(1) unfolding map_eq_Cons_conv by blast
  next
    case 2
    then show thesis using that(2) unfolding map_eq_Cons_conv by blast
  qed
qed

text \<open>With positive numbers of distinct values no total domain is 0.\<close>

definition positive_counts :: "RelationStats list \<Rightarrow> bool" where
  "positive_counts stats \<longleftrightarrow> list_all (\<lambda>s. list_all (\<lambda>d. 0 < dc_distinct_count d) (rs_column_distinct_count s)) stats"

definition positive_domain :: "RelationsToTDom \<Rightarrow> bool" where
  "positive_domain t \<longleftrightarrow> 0 < td_tdom_no_hll t \<and> (td_has_tdom_hll t \<longrightarrow> 0 < td_tdom_hll t)"

lemma positive_update: "positive_domain t \<Longrightarrow> 0 < dc_distinct_count d \<Longrightarrow> positive_domain (update_tdom d t)"
  by (auto simp: positive_domain_def update_tdom_def)

lemma positive_update_first:
  "list_all positive_domain tdoms \<Longrightarrow> 0 < dc_distinct_count d \<Longrightarrow> list_all positive_domain (update_first key d tdoms)"
  by (induction key d tdoms rule: update_first.induct) (simp_all add: positive_update)

lemma positive_UpdateTotalDomains:
  assumes "list_all positive_domain tdoms" "list_all (\<lambda>d. 0 < dc_distinct_count d) (rs_column_distinct_count st)"
  shows "list_all positive_domain (UpdateTotalDomains i st tdoms)"
proof -
  have "list_all positive_domain (fold (\<lambda>k. update_first (i, k) (rs_column_distinct_count st ! k)) ks tdoms)"
    if "list_all (\<lambda>k. k < length (rs_column_distinct_count st)) ks" for ks
    using that assms(1)
  proof (induction ks arbitrary: tdoms)
    case (Cons k ks)
    have "0 < dc_distinct_count (rs_column_distinct_count st ! k)" using assms(2) Cons.prems(1) by (simp add: list_all_iff)
    then show ?case using Cons positive_update_first by simp
  qed simp
  then show ?thesis by (simp add: UpdateTotalDomains_def list_all_length)
qed

lemma positive_leaves:
  assumes "list_all positive_domain (InitEquivalentRelations fs [])" "positive_counts stats"
  shows "list_all positive_domain (leaf_tdoms fs stats)"
proof -
  have "list_all positive_domain (fold (\<lambda>(i, st) t. sort_tdoms (UpdateTotalDomains i st t)) ics t)"
    if "list_all positive_domain t" "\<forall>(i, st) \<in> set ics. list_all (\<lambda>d. 0 < dc_distinct_count d) (rs_column_distinct_count st)" for ics t
    using that
  proof (induction ics arbitrary: t)
    case (Cons ic ics)
    obtain i st where ic: "ic = (i, st)" by (cases ic)
    have "list_all positive_domain (sort_tdoms (UpdateTotalDomains i st t))"
      using positive_UpdateTotalDomains [of t st i] Cons.prems ic by (simp add: sort_tdoms_def list_all_iff)
    then show ?case using Cons ic by simp
  qed simp
  moreover have "\<forall>(i, st) \<in> set (zip [0..<length stats] stats). list_all (\<lambda>d. 0 < dc_distinct_count d) (rs_column_distinct_count st)"
    using assms(2) by (auto simp: positive_counts_def list_all_iff dest: set_zip_rightD)
  ultimately show ?thesis using assms(1) by (simp add: leaf_tdoms_def)
qed

text \<open>The denominator of one pair, and of both pairs together.\<close>

lemma pair_denominators:
  assumes t: "td_filters t = [equality_filter k i j]" "i < j" and u: "td_filters u = [equality_filter l v w]" "v < w"
    and S: "{i, j} \<inter> {v, w} = {}" "ascending S" "set S = {i, j, v, w}" and pos: "positive_domain t"
  shows "GetDenominator [t, u] S = GetDenominator [t, u] [i, j]"
proof -
  let ?e = "\<lambda>t f. \<lparr>fd_filter_info = f, fd_tdom_hll = td_tdom_hll t, fd_tdom_no_hll = td_tdom_no_hll t, fd_has_tdom_hll = td_has_tdom_hll t\<rparr>"
  let ?f = "equality_filter k i j" and ?h = "equality_filter l v w"
  let ?g = "\<lambda>t i j. \<lparr>sg_relations = [i, j], sg_numerator_relations = [i, j], sg_denom = of_nat (tdom_size t)\<rparr>"
  have new: "new_subgraph (?e t (equality_filter k i j)) = Inr (?g t i j)" if "i < j" for t k i j
    using that by (simp add: new_subgraph_def side_subgraph_def deref_def UpdateNumeratorRelations_def CalculateUpdatedDenom_def
        comparison_ratio_def edge_tdom_def tdom_size_def Let_def)
  have sub: "IsSubset S [i, j]" "IsSubset S [v, w]" "IsSubset [i, j] [i, j]" "\<not> IsSubset [i, j] [v, w]"
    "\<not> IsSubset [i, j] [v]" "\<not> IsSubset [i, j] [w]"
    using assms by (auto simp: IsSubset_iff)
  have edges: "GetEdges [t, u] S = [?e t ?f, ?e u ?h]" "GetEdges [t, u] [i, j] = [?e t ?f]"
    using t u sub by (simp_all add: GetEdges_def)
  have "S \<noteq> [i, j]" using S by auto
  then have "res_fold (denom_step S) (GetEdges [t, u] S) ([], []) = Inr ([?g t i j, ?g u v w], [])"
    using new [OF t(2)] new [OF u(2)] sub(5,6)
    by (simp add: edges denom_step_def SubgraphsConnectedByEdge_def EdgeConnects_def)
  moreover have "res_fold (denom_step [i, j]) (GetEdges [t, u] [i, j]) ([], []) = Inr ([?g t i j], [])"
    using new [OF t(2)] by (simp add: edges denom_step_def SubgraphsConnectedByEdge_def)
  moreover have "tdom_size t \<noteq> 0" using pos by (simp add: positive_domain_def tdom_size_def)
  ultimately show ?thesis by (simp add: GetDenominator_def Let_def)
qed

text \<open>
  Cross products between unconnected parts are left out of DuckDB's estimate. For the
  filters \<open>r0.x = r1.x\<close> and \<open>r2.x = r3.x\<close> and positive distinct counts, the estimate of all four
  relations is the estimate of one of the two pairs: the code merges the subgraphs that
  remain into a copy and goes on with the first.
\<close>

theorem unconnected_pair_left_out:
  assumes "positive_counts stats"
  shows "query_estimate (equality_query [equality 0 1, equality 2 3] stats) sm [0, 1, 2, 3] \<in>
    {query_estimate (equality_query [equality 0 1, equality 2 3] stats) sm [0, 1],
     query_estimate (equality_query [equality 0 1, equality 2 3] stats) sm [2, 3]}"
proof -
  let ?fs = "[equality_filter 0 0 1, equality_filter 1 2 3]"
  have "list_all positive_domain (InitEquivalentRelations ?fs [])"
    by (simp add: domain_simps positive_domain_def)
  then have pos: "list_all positive_domain (leaf_tdoms ?fs stats)" by (rule positive_leaves [OF _ assms])
  have asc: "ascending [0, 1, 2, 3]" "set [0, 1, 2, 3] = {0, 1, 2, 3 :: nat}" "set [0, 1, 2, 3] = {2, 3, 0, 1 :: nat}" by auto
  have "GetDenominator (leaf_tdoms ?fs stats) [0, 1, 2, 3] \<in>
      {GetDenominator (leaf_tdoms ?fs stats) [0, 1], GetDenominator (leaf_tdoms ?fs stats) [2, 3]}"
  proof (cases rule: two_domains [of stats])
    case (1 t u)
    then show ?thesis using pair_denominators(1) [OF 1(2) _ 1(3) _ _ asc(1,2)] pos by simp
  next
    case (2 t u)
    then show ?thesis using pair_denominators(1) [OF 2(3) _ 2(2) _ _ asc(1,3)] pos by simp
  qed
  then show ?thesis
    unfolding query_estimate_def pairs_build res_bind_simps equality_query_stats native_estimate_def by auto
qed

end
