(* ===== verification/PlanExamples.thy ===== *)
theory PlanExamples
  imports CardEst_Cases
begin

text \<open>
  Small queries for the join order: a chain of three relations with DuckDB's own estimates,
  two joined tables with StarCE's estimates, and relations that no predicate connects.
\<close>

section \<open>Optimizers before the search\<close>

definition planner :: "nat \<Rightarrow> bool \<Rightarrow> bool \<Rightarrow> Planner" where
  "planner n starce force = \<lparr>pl_NumRelations = n, pl_use_starce = starce,
     pl_elapsed = (\<lambda>_. 0), pl_cross_product_allowed = (\<lambda>_. True), pl_force_no_cross_product = force\<rparr>"

lemma fresh_plan_start: "fresh g (plan_start g sm)"
  by (simp add: fresh_def plan_start_def)

lemma planner_simps [simp]:
  "pl_NumRelations (planner n b f) = n" "pl_use_starce (planner n b f) = b"
  "pl_elapsed (planner n b f) = (\<lambda>_. 0)"
  "pl_cross_product_allowed (planner n b f) = (\<lambda>_. True)" "pl_force_no_cross_product (planner n b f) = f"
  "ps_sm (plan_start g sm) = sm"
  by (simp_all add: planner_def plan_start_def)

text \<open>Relations with the given cardinalities and one column each.\<close>

definition table_stats :: "nat list \<Rightarrow> RelationStats list" where
  "table_stats cards = map (\<lambda>c. \<lparr>rs_column_distinct_count = [\<lparr>dc_distinct_count = c, dc_from_hll = True\<rparr>], rs_cardinality = c, rs_column_names = [], rs_table_name = ''t''\<rparr>) cards"

lemma length_table_stats [simp]: "length (table_stats cards) = length cards"
  by (simp add: table_stats_def)

lemma native_estimates:
  assumes "length cards = n" "\<And>S. S \<in> A \<Longrightarrow> set S \<subseteq> {..<n}"
  obtains f where "join_estimates (planner n False b) [] (table_stats cards) A f sm"
  using native_join_estimates [of "table_stats cards" "[]" "planner n False b" A sm] assms by auto

lemma relation_sets_sub: "S \<in> relation_sets n \<Longrightarrow> set S \<subseteq> {..<n}" "S \<in> csgs n g \<Longrightarrow> set S \<subseteq> {..<n}"
  by (simp_all add: relation_sets_def csgs_def)

lemma no_edges_graph: "simple_graph n no_edges" "2 \<le> n \<Longrightarrow> \<not> conn no_edges {..<n}"
proof -
  show "simple_graph n no_edges" by (simp add: simple_graph_def)
  show "\<not> conn no_edges {..<n}" if n: "2 \<le> n"
  proof
    assume "conn no_edges {..<n}"
    moreover have "1 \<in> {..<n}" "{0} \<subseteq> {..<n}" using n by auto
    then have "{0} \<subseteq> {..<n}" "{0} \<noteq> {..<n}" by (auto simp del: lessThan_iff)
    ultimately obtain u v where "adj no_edges u v" using conn_cut [of no_edges "{..<n}" "{0}"] by blast
    then show False by (simp add: adj_def)
  qed
qed

lemma few_pairs: "n \<le> 9 \<Longrightarrow> card (ccps n g) < 1000000"
proof -
  assume "n \<le> 9"
  then have "(4 :: nat) ^ n \<le> 4 ^ 9" by (intro power_increasing) auto
  then show ?thesis using ccps_bound [of n g] by simp
qed

section \<open>A chain of three relations\<close>

definition chain3 :: QueryEdge where
  "chain3 = CreateQueryGraphCrossProduct [1] [2] (CreateQueryGraphCrossProduct [0] [1] no_edges)"

lemma chain3_edges: "edge_set chain3 = {([0], [1]), ([1], [0]), ([1], [2]), ([2], [1])}"
  by (auto simp: chain3_def)

lemma chain3_simple: "simple_graph 3 chain3"
  by (auto simp: simple_graph_def adj_def chain3_edges)

lemma three: "{..<3 :: nat} = {0, 1, 2}" "[0..<3] = [0, 1, 2]"
  by (auto simp: upt_conv_Cons)

lemma chain3_conn: "conn chain3 {..<3}"
proof -
  have "conn chain3 ({0} \<union> {1})"
    by (rule conn_join [OF chain3_simple]) (simp_all add: linked_def adj_def chain3_edges)
  then have "conn chain3 (({0} \<union> {1}) \<union> {2})"
    by (intro conn_join [OF chain3_simple]) (simp_all add: linked_def adj_def chain3_edges)
  then show ?thesis by (simp add: three(1) insert_commute)
qed

theorem exact_search_optimal_witness:
  "\<exists>f t p T. sx_bind (InitLeafPlans [] (table_stats [5, 6, 7])) (\<lambda>_. SolveJoinOrderExactly (planner 3 False False))
      (plan_start chain3 StatisticManager_init) = (Inr True, t) \<and>
    ps_pairs t = card (ccps 3 chain3) \<and> ps_plans t [0, 1, 2] = Some p \<and> plan_tree (ps_plans t) [0, 1, 2] T \<and>
    n_cost p = C_out f T"
proof -
  let ?pl = "planner 3 False False" and ?s = "plan_start chain3 StatisticManager_init" and ?stats = "table_stats [5, 6, 7]"
  obtain f where est: "join_estimates ?pl [] ?stats (csgs 3 chain3) f (ps_sm ?s)"
    using native_estimates [of "[5, 6, 7]" 3 "csgs 3 chain3"] relation_sets_sub(2) by auto
  have size: "pl_NumRelations ?pl = 3" "length ?stats = 3" "list_all (filter_sided {..<3}) []" by simp_all
  from exact_search_optimal [OF chain3_simple size fresh_plan_start est]
  obtain b t where run: "sx_bind (InitLeafPlans [] ?stats) (\<lambda>_. SolveJoinOrderExactly ?pl) ?s = (Inr b, t)"
    and bud: "card (ccps 3 chain3) < 1000000 \<longrightarrow> b"
    and opt: "b \<longrightarrow> ps_pairs t = card (ccps 3 chain3) \<and> (\<forall>S \<in> csgs 3 chain3. \<exists>p T. ps_plans t S = Some p \<and> plan_tree (ps_plans t) S T \<and> tree_ok chain3 T \<and> rels T = set S \<and>
       n_cost p = C_out f T \<and> (\<forall>T'. tree_ok chain3 T' \<and> rels T' = set S \<longrightarrow> C_out f T \<le> C_out f T'))"
    by blast
  have b: b using bud few_pairs [of 3 chain3] by simp
  have "[0, 1, 2] \<in> csgs 3 chain3" using all_relations [of 3 chain3] chain3_conn by (simp add: three(2))
  from bspec [OF conjunct2 [OF mp [OF opt b]] this]
  obtain p T where "ps_plans t [0, 1, 2] = Some p" "plan_tree (ps_plans t) [0, 1, 2] T" "n_cost p = C_out f T"
    by (elim exE conjE) (rule that)
  then show ?thesis using run b conjunct1 [OF mp [OF opt b]] by (intro exI [of _ f] exI [of _ t] exI [of _ p] exI [of _ T]) simp
qed

section \<open>Two tables with StarCE's estimates\<close>

definition two_table_manager :: StatisticManager where
  "two_table_manager = StatisticManager_init\<lparr>
     sm_statistics := [EqualSet [TableColumn ''a'' ''x'', TableColumn ''b'' ''x''] \<mapsto>
       (DSStatistic_tables [''a'', ''b''] 2)\<lparr>st_card := 10\<rparr>],
     sm_attrEsets := [[(0, 0), (1, 0)]],
     sm_tableName := [0 \<mapsto> ''a'', 1 \<mapsto> ''b''], sm_columnName := [(0, 0) \<mapsto> ''x'', (1, 0) \<mapsto> ''x''],
     sm_tabelCard := [0 \<mapsto> 3, 1 \<mapsto> 4], sm_filterString := [0 \<mapsto> '''', 1 \<mapsto> '''']\<rparr>"

lemma two_table_fields:
  "sm_EnableStarSplit two_table_manager = False" "sm_UseSubqueryCard two_table_manager = False"
  "sm_IsRecordingSubquery two_table_manager = False" "sm_IsRecordEstimateTime two_table_manager = False"
  "sm_PredMethod two_table_manager = 0" "sm_filterString two_table_manager = [0 \<mapsto> '''', 1 \<mapsto> '''']"
  "sm_statistics two_table_manager = [EqualSet [TableColumn ''a'' ''x'', TableColumn ''b'' ''x''] \<mapsto>
     (DSStatistic_tables [''a'', ''b''] 2)\<lparr>st_card := 10\<rparr>]"
  by (simp_all add: two_table_manager_def StatisticManager_init_def)

lemma two_table_estimate: "fst (EstimateCardinality 0 [0, 1] two_table_manager) = Inr 10"
proof -
  have t: "to_string 0 = ''0''" "to_string (Suc 0) = ''1''" by code_simp+
  have es: "GetAttrEsetFromRels [0, Suc 0] two_table_manager = [[(0, 0), (1, 0)]]"
    by (simp add: two_table_manager_def GetAttrEsetFromRels_def restrict_eset_def less_prod_def)
  have cols: "GetEqualSetFromAttrEset [(0, 0), (Suc 0, 0)] two_table_manager =
      Inr (EqualSet [TableColumn ''a'' ''x'', TableColumn ''b'' ''x''], [''a'' \<mapsto> 0, ''b'' \<mapsto> 1])"
    by (simp add: GetEqualSetFromAttrEset_def two_table_manager_def less_TableColumn_iff)
  show ?thesis
    using two_table_fields
    by (simp add: EstimateCardinality_def sx_simps es estimate_from_stats_def initial_statistics_def
        eset_statistics_def cols GetStatisticsFromEset_def count_eset_size_def filter_statistics_def filter_eset_def
        pm0_attr_def has_filter_def merge_phase_def pairs_below_def roots_product_def sx_bind_unfold
        DSStatistic_rename_def DSStatistic_tables_def t)
qed

lemma two_tables_simple: "simple_graph 2 (CreateQueryGraphCrossProduct [0] [1] no_edges)"
  by (auto simp: simple_graph_def adj_def)

lemma two_tables_conn: "conn (CreateQueryGraphCrossProduct [0] [1] no_edges) {..<2}"
proof -
  have "conn (CreateQueryGraphCrossProduct [0] [1] no_edges) ({0} \<union> {1})"
    by (rule conn_join [OF two_tables_simple]) (simp_all add: linked_def adj_def)
  moreover have "{..<2 :: nat} = {0} \<union> {1}" by auto
  ultimately show ?thesis by simp
qed

lemma two_relation_sets: "S \<in> relation_sets 2 \<Longrightarrow> 2 \<le> length S \<Longrightarrow> S = [0, 1]"
proof -
  assume S: "S \<in> relation_sets 2" "2 \<le> length S"
  then have asc: "ascending S" and sub: "set S \<subseteq> {..<2}" by (auto simp: relation_sets_def)
  have "length S = card (set S)" using asc by (simp add: ascending_distinct distinct_card)
  then have "set S = {..<2}" using S(2) sub by (intro card_seteq) auto
  moreover have "{..<2 :: nat} = set [0, 1]" by auto
  ultimately show "S = [0, 1]" using asc ascending_eq [of S "[0, 1]"] by simp
qed

theorem join_order_found_witness:
  "\<exists>t p T. sx_bind (InitLeafPlans [] (table_stats [3, 4])) (\<lambda>_. SolveJoinOrder (Suc (Suc 0)) (planner 2 True False))
       (plan_start (CreateQueryGraphCrossProduct [0] [1] no_edges) two_table_manager) = (Inr (), t) \<and>
    ps_plans t [0, 1] = Some p \<and> rels T = {0, 1} \<and> n_cost p = C_out (\<lambda>_. 10) T"
proof -
  let ?g = "CreateQueryGraphCrossProduct [0] [1] no_edges" and ?pl = "planner 2 True False"
  have est: "join_estimates ?pl [] (table_stats [3, 4]) (relation_sets 2) (\<lambda>_. 10) (ps_sm (plan_start ?g two_table_manager))"
    unfolding join_estimates_def using two_table_estimate by (auto dest!: two_relation_sets)
  have size: "pl_NumRelations ?pl = 2" "length (table_stats [3, 4]) = 2" "(0 :: nat) < 2" "list_all (filter_sided {..<2}) []"
    by simp_all
  have pairs: "all_pairs ?pl ?g < 1000000"
    using two_tables_conn few_pairs [of 2 ?g] by (simp add: all_pairs_def Let_def)
  have two: "[0..<2] = [0, 1]" "{..<2 :: nat} = {0, 1}" by (auto simp: upt_conv_Cons)
  from join_order_found [OF two_tables_simple size fresh_plan_start est disjI1 [OF two_tables_conn], of 0]
  obtain t p T where "sx_bind (InitLeafPlans [] (table_stats [3, 4])) (\<lambda>_. SolveJoinOrder (Suc (Suc 0)) ?pl) (plan_start ?g two_table_manager) = (Inr (), t)"
    "ps_plans t [0..<2] = Some p" "rels T = {..<2}" "2 < (64 :: nat) \<and> all_pairs ?pl ?g < 1000000 \<longrightarrow> n_cost p = C_out (\<lambda>_. 10) T"
    by (elim exE conjE) (rule that, assumption+, blast)
  then show ?thesis using pairs unfolding two
    by (intro exI [of _ t] exI [of _ p] exI [of _ T]) (simp del: SolveJoinOrder.simps)
qed

section \<open>Relations without predicates\<close>

theorem cross_product_refused_witness:
  "fst (sx_bind (InitLeafPlans [] (table_stats [3, 4])) (\<lambda>_. SolveJoinOrder (Suc 0) (planner 2 False True))
      (plan_start no_edges StatisticManager_init)) = Inl (Runtime_error ''Query requires a cross-product'')"
proof -
  have size: "pl_NumRelations (planner 2 False True) = 2" "length (table_stats [3, 4]) = 2" "(0 :: nat) < 2" "(2 :: nat) < 64"
    "list_all (filter_sided {..<2}) []"
    by simp_all
  obtain f where est: "join_estimates (planner 2 False True) [] (table_stats [3, 4]) (relation_sets 2) f
      (ps_sm (plan_start no_edges StatisticManager_init))"
    using native_estimates [of "[3, 4]" 2 "relation_sets 2"] relation_sets_sub(1) by auto
  have "card (ccps 2 no_edges) < 1000000" "pl_force_no_cross_product (planner 2 False True)"
    using few_pairs [of 2 no_edges] by simp_all
  moreover have "\<not> conn no_edges {..<2}" using no_edges_graph(2) [of 2] by simp
  ultimately show ?thesis
    by (intro cross_product_refused [OF no_edges_graph(1) _ size fresh_plan_start est])
qed

theorem greedy_ignores_prohibition_witness:
  "\<exists>t p T. sx_bind (InitLeafPlans [] (table_stats (replicate 64 1))) (\<lambda>_. SolveJoinOrder (Suc 0) (planner 64 False True))
      (plan_start no_edges StatisticManager_init) = (Inr (), t) \<and>
    ps_plans t [0..<64] = Some p \<and> rels T = {..<64} \<and> \<not> tree_ok no_edges T"
proof -
  have size: "pl_NumRelations (planner 64 False True) = 64" "length (table_stats (replicate 64 1)) = 64" "(64 :: nat) \<le> 64"
    "list_all (filter_sided {..<64}) []"
    by simp_all
  obtain f where est: "join_estimates (planner 64 False True) [] (table_stats (replicate 64 1)) (relation_sets 64) f
      (ps_sm (plan_start no_edges StatisticManager_init))"
    using native_estimates [of "replicate 64 1" 64 "relation_sets 64"] relation_sets_sub(1) by auto
  have unconnected: "\<not> conn no_edges {..<64}" using no_edges_graph(2) [of 64] by simp
  from greedy_ignores_prohibition [OF no_edges_graph(1) unconnected size fresh_plan_start est, where fuel = 0]
  obtain t p T where "sx_bind (InitLeafPlans [] (table_stats (replicate 64 1))) (\<lambda>_. SolveJoinOrder (Suc 0) (planner 64 False True))
      (plan_start no_edges StatisticManager_init) = (Inr (), t)"
    "ps_plans t [0..<64] = Some p" "rels T = {..<64}" "\<not> tree_ok no_edges T"
    by (elim exE conjE) (rule that)
  then show ?thesis by (intro exI conjI)
qed

section \<open>Queries from their operators\<close>

abbreviation join01 :: "FilterOperator list" where
  "join01 \<equiv> [LogicalComparisonJoin INNER [(COMPARE_EQUAL, col 0, col 1)]]"

lemma join01_ok: "list_all (operator_ok Some) join01" "list_all (single_sides Some) join01"
  by (simp_all add: operator_ok_def single_sides_def operator_sides_def JoinIsReorderable_def col_def)

lemma join01_edges: "(\<Union>op \<in> set join01. operator_edges Some op) = {([0], [1]), ([1], [0])}"
  "(\<Union>op \<in> set join01. operator_equalities Some op) = {((0, 0), (1, 0))}"
  by (simp_all add: operator_edges_def operator_sides_def operator_equalities_def col_def pair_edges_def starce_pairs_def column_of_def)

theorem query_graph_from_operators_witness:
  "\<exists>fs t. build_edges join01 \<lparr>hs_mapping = Some, hs_graph = no_edges, hs_sm = StatisticManager_init\<rparr> = (Inr fs, t) \<and>
    edge_set (hs_graph t) = {([0], [1]), ([1], [0])}"
proof -
  let ?s = "\<lparr>hs_mapping = Some, hs_graph = no_edges, hs_sm = StatisticManager_init\<rparr>"
  have "hs_mapping ?s = Some" "edge_set (hs_graph ?s) = {}" by simp_all
  from query_graph_from_operators [OF join01_ok(1) this(1)] this(2) show ?thesis unfolding join01_edges by auto
qed

theorem starce_classes_within_domains_witness:
  "\<exists>fs t. build_edges join01 \<lparr>hs_mapping = Some, hs_graph = no_edges, hs_sm = snd (PrepareEstimate StatisticManager_init)\<rparr> = (Inr fs, t) \<and>
    same_eset (sm_attrEsets (hs_sm t)) \<subseteq> same_tdom (InitEquivalentRelations fs [])"
proof -
  have "\<not> sm_prepared StatisticManager_init" by (simp add: StatisticManager_init_def)
  then show ?thesis by (rule starce_classes_within_domains [OF join01_ok(1)])
qed

definition two_tables :: JoinQuery where
  "two_tables = \<lparr>jq_operators = join01, jq_mapping = [0 \<mapsto> 0, 1 \<mapsto> 1], jq_stats = table_stats [3, 4]\<rparr>"

theorem native_query_planned_witness:
  "\<exists>fs h t p T. query_build two_tables StatisticManager_init = (Inr fs, h) \<and>
    fst (plan_query (Suc (Suc 0)) (planner 2 False False) two_tables StatisticManager_init) = Inr t \<and>
    ps_plans t [0, 1] = Some p \<and> plan_tree (ps_plans t) [0, 1] T \<and> rels T = {0, 1}"
proof -
  have ops: "list_all (operator_ok (jq_mapping two_tables)) (jq_operators two_tables)"
    "list_all (single_sides (jq_mapping two_tables)) (jq_operators two_tables)"
    by (simp_all add: two_tables_def operator_ok_def single_sides_def operator_sides_def JoinIsReorderable_def col_def)
  have m: "ran (jq_mapping two_tables) \<subseteq> {..<2}" by (auto simp: two_tables_def ran_def split: if_splits)
  have n: "pl_NumRelations (planner 2 False False) = 2" "length (jq_stats two_tables) = 2" "(0 :: nat) < 2"
    by (simp_all add: two_tables_def)
  have off: "\<not> pl_use_starce (planner 2 False False)" by simp
  have cross: "conn (hs_graph (snd (query_build two_tables StatisticManager_init))) {..<2} \<or>
      \<not> pl_force_no_cross_product (planner 2 False False) \<and> (\<forall>i < 2. pl_cross_product_allowed (planner 2 False False) i)"
    by simp
  have two: "[0..<2] = [0, 1]" "{..<2 :: nat} = {0, 1}" by (auto simp: upt_conv_Cons)
  from native_query_planned [OF ops m n off cross, of 0] show ?thesis unfolding two by (elim exE conjE) (intro exI conjI)
qed

theorem unconnected_pair_left_out_witness:
  "query_estimate (equality_query [equality 0 1, equality 2 3] (table_stats [3, 4, 5, 6])) StatisticManager_init [0, 1, 2, 3] \<in>
    {query_estimate (equality_query [equality 0 1, equality 2 3] (table_stats [3, 4, 5, 6])) StatisticManager_init [0, 1],
     query_estimate (equality_query [equality 0 1, equality 2 3] (table_stats [3, 4, 5, 6])) StatisticManager_init [2, 3]}"
  by (rule unconnected_pair_left_out) (simp add: positive_counts_def table_stats_def)

section \<open>A hyperedge\<close>

text \<open>An edge from \<open>{0}\<close> to \<open>{1, 2}\<close>.\<close>

definition hyper :: QueryEdge where
  "hyper = CreateEdge [0] [1, 2] None no_edges"

theorem query_graph_refines_witness:
  "edge_set (CreateEdge [1, 2] [0] None hyper) = {([1, 2], [0]), ([0], [1, 2])} \<and>
   set (GetNeighbors hyper [0] {}) = {1} \<and>
   ni_neighbor ` set (GetConnections hyper [0] [1, 2, 3]) = {[1, 2]}"
proof -
  have edges: "edge_set hyper = {([0], [1, 2])}" by (simp add: hyper_def)
  have "edges_ok hyper" "ascending [0]" "ascending [1, 2, 3]" by (simp_all add: edges_ok_def edges)
  note q = query_graph_refines [OF this, of "[1, 2]" "[0]" None "{}", unfolded edges]
  have "{Min (set R) | L R. (L, R) \<in> {([0], [1, 2])} \<and> set L \<subseteq> set [0] \<and> Min (set R) \<notin> {}} = {1 :: nat}"
    by auto
  moreover have "{R. \<exists>L. (L, R) \<in> {([0], [1, 2])} \<and> set L \<subseteq> set [0] \<and> set R \<subseteq> set [1, 2, 3]} = {[1, 2 :: nat]}"
    by auto
  ultimately show ?thesis using q by (simp only: simp_thms)
qed

section \<open>The two plans of a cross product\<close>

text \<open>
  Of four plans with costs 5, 4, 3 and 2 the greedy search takes those with costs 2 and 4: a
  plan that is cheaper than both replaces the first only.
\<close>

definition scan_with_cost :: "nat \<Rightarrow> real \<Rightarrow> DPJoinNode" where
  "scan_with_cost i c = \<lparr>n_set = [i], n_info = None, n_is_leaf = True, n_left_set = [i], n_right_set = [i],
     n_cost = c, n_cardinality = 0\<rparr>"

lemma smallest_plans_missed:
  assumes "ps_plans s [0] = Some (scan_with_cost 0 5)" "ps_plans s [1] = Some (scan_with_cost 1 4)"
    "ps_plans s [2] = Some (scan_with_cost 2 3)" "ps_plans s [3] = Some (scan_with_cost 3 2)"
  shows "sx_for (smallest_step [[0], [1], [2], [3]]) [2..<4] ((scan_with_cost 0 5, 0), (scan_with_cost 1 4, 1)) s =
    (Inr ((scan_with_cost 3 2, 3), (scan_with_cost 1 4, 1)), s)"
  using assms by (simp add: upt_conv_Cons smallest_step_def plan_of_def scan_with_cost_def sx_bind_unfold sx_eval)

end
