(* ===== verification/StatQuery_Props.thy ===== *)
theory StatQuery_Props
  imports StatSession
begin

text \<open>
  The texts that identify subqueries: they do not depend on the order in which the optimizer
  lists the relations, the text recorded for an estimate is the key under which a
  cardinality can be injected, and statements without a WHERE clause have no estimates.
\<close>

section \<open>What the text of a subquery depends on\<close>

lemma GetSubquery_cong:
  assumes "sm_tableName s = sm_tableName t" "sm_columnName s = sm_columnName t"
    "sm_filterString s = sm_filterString t"
  shows "GetSubquery rels ess s = GetSubquery rels ess t"
proof -
  have a: "to_alias al s = to_alias al t" for al using assms by (intro ext) (simp add: to_alias_def)
  have "eset_conditions al s l es = eset_conditions al t l es" for al l es
    using assms a by (induction es arbitrary: l) simp_all
  then have "join_conditions al s = join_conditions al t" for al by (intro ext) (simp add: join_conditions_def)
  moreover have "from_item al s = from_item al t" "rel_predicates al s = rel_predicates al t" for al
    using assms a by (intro ext, simp add: from_item_def rel_predicates_def cong: if_cong)+
  moreover have "alias_ids rels s = alias_ids rels t" using assms by (simp add: alias_ids_def)
  ultimately show ?thesis by (simp add: GetSubquery_def)
qed

lemma GetAttrEsetFromRels_cong:
  "sm_attrEsets s = sm_attrEsets t \<Longrightarrow> GetAttrEsetFromRels rels s = GetAttrEsetFromRels rels t"
  by (simp add: GetAttrEsetFromRels_def)

lemma same_view_fields:
  assumes "same_view s t"
  shows "sm_tableName s = sm_tableName t" "sm_columnName s = sm_columnName t"
    "sm_filterString s = sm_filterString t" "sm_attrEsets s = sm_attrEsets t"
    "sm_IsRecordingSubquery s = sm_IsRecordingSubquery t"
  using assms unfolding same_view_def by (metis est_view_simps(3,4,6,2,10))+

section \<open>Recording and injecting\<close>

lemma RecordSubquery_records:
  "q \<in> sm_Subqueries (RecordSubquery q c sm)" "sm_RecordingSubqueryCards (RecordSubquery q c sm) q = Some c"
  by (simp_all add: RecordSubquery_def Let_def split: prod.split)

text \<open>
  C24: What is recorded can be injected. When an estimate is made with recording on, the text
  of its subquery is recorded together with the estimate; when a cardinality is then
  registered for that text with \<open>AddSubqueryCard\<close> and injection is switched on, the estimate
  for the same relations is exactly the registered number.
\<close>

theorem recorded_subquery_injects:
  assumes "EstimateCardinality elapsed rels sm = (Inr crd, sm')"
    "sm_IsRecordingSubquery sm" "\<not> sm_UseSubqueryCard sm"
  shows "\<exists>q. q \<in> sm_Subqueries sm' \<and> sm_RecordingSubqueryCards sm' q = Some crd \<and>
    fst (EstimateCardinality elapsed' rels
      ((AddSubqueryCard q c sm')\<lparr>sm_UseSubqueryCard := True, sm_IsCollectingRelErr := False\<rparr>)) = Inr (of_int c)"
proof -
  let ?ess = "GetAttrEsetFromRels rels sm"
  obtain q where q: "GetSubquery rels ?ess sm = Inr q"
    using assms by (cases "GetSubquery rels ?ess sm") (auto simp: EstimateCardinality_def sx_simps)
  obtain s where s: "estimate_from_stats ?ess sm = (Inr crd, s)" "sm' = record_estimate elapsed q crd s"
    using assms q
    by (cases "estimate_from_stats ?ess sm"; cases "fst (estimate_from_stats ?ess sm)")
      (auto simp: EstimateCardinality_def sx_simps)
  have v: "same_view sm s"
    using view_only_estimate_from_stats [of ?ess] s(1) unfolding view_only_def sx_keeps_def by (metis snd_conv)
  then have v': "same_view sm sm'" by (simp add: same_view_def s(2) record_estimate_view)
  have "sm_IsRecordingSubquery s" using same_view_fields(5) [OF v] assms(2) by simp
  then have r: "q \<in> sm_Subqueries sm'" "sm_RecordingSubqueryCards sm' q = Some crd"
    unfolding s(2) record_estimate_def by (simp_all add: Let_def RecordSubquery_records)
  let ?t = "(AddSubqueryCard q c sm')\<lparr>sm_UseSubqueryCard := True, sm_IsCollectingRelErr := False\<rparr>"
  have e: "GetAttrEsetFromRels rels ?t = ?ess"
    by (rule GetAttrEsetFromRels_cong) (simp add: AddSubqueryCard_def same_view_fields(4) [OF v'])
  have "GetSubquery rels ?ess ?t = GetSubquery rels ?ess sm"
    by (rule GetSubquery_cong) (simp_all add: AddSubqueryCard_def same_view_fields(1-3) [OF v'])
  then have "fst (EstimateCardinality elapsed' rels ?t) = Inr (of_int c)"
    using q e by (simp add: EstimateCardinality_def subquery_card_def sx_simps AddSubqueryCard_def)
  then show ?thesis using r by blast
qed

text \<open>A manager that knows one table of seven rows, described as relation 0.\<close>

definition one_table_manager :: StatisticManager where
  "one_table_manager = StatisticManager_init\<lparr>
     sm_statistics := [EqualSet [TableColumn ''t'' ''''] \<mapsto> (DSStatistic_tables [''t''] 2)\<lparr>st_card := 7\<rparr>],
     sm_tableName := [0 \<mapsto> ''t''], sm_tabelCard := [0 \<mapsto> 7], sm_filterString := [0 \<mapsto> ''''],
     sm_IsRecordingSubquery := True\<rparr>"

lemma estimate_one_table: "fst (EstimateCardinality 0 [0] one_table_manager) = Inr 7"
proof -
  have t: "to_string 0 = ''0''" "to_string (Suc 0) = ''1''" by code_simp+
  have "GetSubquery [0] [[(0, 0)]] one_table_manager = Inr ''SELECT COUNT(*) FROM t AS t1;''"
    by (simp add: one_table_manager_def GetSubquery_def alias_ids_def from_item_def to_alias_def t
        join_conditions_def rel_predicates_def join_with_def)
  then show ?thesis
    by (simp add: EstimateCardinality_def sx_simps GetAttrEsetFromRels_def estimate_from_stats_def
        initial_statistics_def eset_statistics_def GetEqualSetFromAttrEset_def GetStatisticsFromEset_def
        one_table_manager_def StatisticManager_init_def filter_statistics_def filter_eset_def pm0_attr_def
        has_filter_def merge_phase_def pairs_below_def roots_product_def count_eset_size_def
        DSStatistic_rename_def DSStatistic_tables_def t sx_bind_unfold)
qed

theorem recorded_subquery_injects_witness:
  "\<exists>sm'. EstimateCardinality 0 [0] one_table_manager = (Inr 7, sm') \<and>
    (\<exists>q. q \<in> sm_Subqueries sm' \<and> sm_RecordingSubqueryCards sm' q = Some 7 \<and>
      fst (EstimateCardinality 0 [0]
        ((AddSubqueryCard q 42 sm')\<lparr>sm_UseSubqueryCard := True, sm_IsCollectingRelErr := False\<rparr>)) = Inr (of_int 42))"
proof -
  obtain sm' where e: "EstimateCardinality 0 [0] one_table_manager = (Inr 7, sm')"
    using estimate_one_table by (cases "EstimateCardinality 0 [0] one_table_manager") auto
  have "sm_IsRecordingSubquery one_table_manager" "\<not> sm_UseSubqueryCard one_table_manager"
    by (simp_all add: one_table_manager_def StatisticManager_init_def)
  from recorded_subquery_injects [OF e this, of 0 42] e show ?thesis by blast
qed

section \<open>Statements without a WHERE clause\<close>

lemma sx_for_length:
  assumes "\<And>x acc s y t. f x acc s = (Inr y, t) \<Longrightarrow> length y = Suc (length acc)"
  shows "sx_for f xs acc s = (Inr ys, t) \<Longrightarrow> length ys = length acc + length xs"
proof (induction xs arbitrary: acc s)
  case (Cons x xs)
  then obtain y u where "f x acc s = (Inr y, u)" "sx_for f xs y u = (Inr ys, t)"
    by (cases "f x acc s"; cases "fst (f x acc s)") (auto simp: sx_bind_def)
  then show ?case using Cons.IH assms by fastforce
qed (simp add: sx_simps)

lemma length_initial_statistics:
  "initial_statistics ess s = (Inr sts, t) \<Longrightarrow> length sts = length ess"
  unfolding initial_statistics_def
  by (drule sx_for_length [rotated]) (auto simp: sx_bind_unfold sx_simps split: sum.splits)

lemma filter_eset_no_filter:
  assumes "sm_filterString sm = Map.empty" "es \<noteq> []"
  shows "\<exists>e t. filter_eset k es st sm = (Inl e, t)"
proof -
  obtain a as where es: "es = a # as" using assms(2) by (cases es) auto
  have "has_filter (fst a) sm = Inl Out_of_range" using assms(1) by (simp add: has_filter_def map_at_def)
  then show ?thesis
    by (simp add: es filter_eset_def pm0_attr_def pm2_attr_def pm1_eset_def pm1_coeffs_def sx_simps)
qed

lemma GetAttrEsetFromRels_nonempty: "es \<in> set (GetAttrEsetFromRels rels sm) \<Longrightarrow> es \<noteq> []"
  by (auto simp: GetAttrEsetFromRels_def Let_def)

lemma GetAttrEsetFromRels_some: "rels \<noteq> [] \<Longrightarrow> GetAttrEsetFromRels rels sm \<noteq> []"
proof -
  assume r: "rels \<noteq> []"
  show ?thesis
  proof (cases "filter (\<lambda>es. length es > 1) (map (restrict_eset rels) (sm_attrEsets sm))")
    case Nil
    then show ?thesis using r by (simp add: GetAttrEsetFromRels_def)
  qed (simp add: GetAttrEsetFromRels_def Let_def)
qed

lemma estimate_from_stats_no_filter:
  assumes "sm_filterString sm = Map.empty" "ess \<noteq> []" "\<forall>es \<in> set ess. es \<noteq> []"
  shows "\<exists>e t. estimate_from_stats ess sm = (Inl e, t)"
proof (cases "initial_statistics ess sm")
  case (Pair r s)
  show ?thesis
  proof (cases r)
    case (Inl e)
    then show ?thesis using Pair by (simp add: estimate_from_stats_def sx_bind_eval)
  next
    case (Inr sts)
    then obtain st sts' es ess' where c: "sts = st # sts'" "ess = es # ess'"
      using length_initial_statistics [of ess sm sts s] Pair assms(2) by (cases ess; cases sts) auto
    have "same_view sm s"
      using view_only_initial [of ess] Pair unfolding view_only_def sx_keeps_def by (metis snd_conv)
    then have "sm_filterString s = Map.empty" using same_view_fields(3) assms(1) by simp
    then obtain e t where f: "filter_eset (sm_PredMethod s) es st s = (Inl e, t)"
      using filter_eset_no_filter assms(3) c(2) by fastforce
    have "filter_statistics ess sts s = (Inl e, t)"
      using f by (simp add: filter_statistics_def c sx_simps sx_bind_eval)
    then show ?thesis using Pair Inr by (simp add: estimate_from_stats_def sx_bind_eval)
  qed
qed

lemma GetSubquery_no_filter:
  assumes "sm_filterString sm = Map.empty" "rels \<noteq> []"
  shows "\<exists>e. GetSubquery rels ess sm = Inl e"
proof -
  obtain r rs where "rels = r # rs" using assms(2) by (cases rels) auto
  then have "res_mapM (rel_predicates al sm) rels = Inl Out_of_range" for al
    using assms(1) by (simp add: rel_predicates_def map_at_def)
  then show ?thesis
    by (cases "GetSubquery rels ess sm") (auto simp: GetSubquery_def res_simps)
qed

text \<open>
  C30: A statement without an upper-case \<open>WHERE\<close> has no estimate. \<open>ParsePredicate\<close> accepts it (the
  comment reads \<open>No predicates, skip\<close>) but leaves \<open>filterString\<close> empty, and then
  \<open>EstimateCardinality\<close> throws for every non-empty list of relations, whatever the statistics
  and the configuration are, since it reads \<open>filterString.at\<close> for a relation of the list.
\<close>

theorem no_where_no_estimate:
  assumes "str_find ''WHERE'' sql = None" "rels \<noteq> []"
  shows "fst (ParsePredicate sql sm) = Inr () \<and>
    (\<exists>e. fst (EstimateCardinality elapsed rels (snd (ParsePredicate sql sm))) = Inl e)"
proof -
  let ?s = "snd (ParsePredicate sql sm)"
  have p: "parse_predicate sql (sm_filterString sm) = (Inr (), Map.empty)"
    using assms(1) by (simp add: parse_predicate_def sx_simps)
  then have f: "sm_filterString ?s = Map.empty" by (simp add: ParsePredicate_def)
  obtain e where "GetSubquery rels (GetAttrEsetFromRels rels ?s) ?s = Inl e"
    using GetSubquery_no_filter [OF f assms(2)] by blast
  moreover obtain e' t where "estimate_from_stats (GetAttrEsetFromRels rels ?s) ?s = (Inl e', t)"
    using estimate_from_stats_no_filter [OF f GetAttrEsetFromRels_some [OF assms(2)]]
      GetAttrEsetFromRels_nonempty by blast
  ultimately have "\<exists>e. fst (EstimateCardinality elapsed rels ?s) = Inl e"
    by (simp add: EstimateCardinality_def sx_simps sx_bind_eval)
  then show ?thesis using p by (simp add: ParsePredicate_def)
qed

theorem no_where_no_estimate_witness:
  "fst (ParsePredicate ''SELECT COUNT(*) FROM a AS a, b AS b;'' StatisticManager_init) = Inr () \<and>
    (\<exists>e. fst (EstimateCardinality 0 [0, 1]
        (snd (ParsePredicate ''SELECT COUNT(*) FROM a AS a, b AS b;'' StatisticManager_init))) = Inl e)"
  by (rule no_where_no_estimate) (code_simp, simp)

section \<open>The order of the relations\<close>

text \<open>
  When no table occurs twice, the alias of a relation is its table followed by \<open>1\<close>, whatever
  the order of the relations. Every exception of \<open>GetSubquery\<close> is the one of \<open>map::at\<close>.
\<close>

definition at_error :: "'a res \<Rightarrow> bool" where
  "at_error r \<longleftrightarrow> (\<forall>e. r = Inl e \<longrightarrow> e = Out_of_range)"

lemma at_error_simps [simp]:
  "at_error (map_at m k)" "at_error (Inr x)" "at_error (res_map f r) = at_error r"
  by (auto simp: at_error_def map_at_def res_map_def split: option.split sum.splits)

lemma at_error_bind [intro]: "at_error r \<Longrightarrow> (\<And>x. r = Inr x \<Longrightarrow> at_error (f x)) \<Longrightarrow> at_error (res_bind r f)"
  by (cases r) (auto simp: at_error_def)

definition res_list :: "('a \<Rightarrow> 'b res) \<Rightarrow> 'a list \<Rightarrow> 'b list res" where
  "res_list f xs =
     (if \<exists>x \<in> set xs. \<exists>e. f x = Inl e then Inl Out_of_range else Inr (map (\<lambda>x. projr (f x)) xs))"

lemma res_mapM_list: "\<forall>x \<in> set xs. at_error (f x) \<Longrightarrow> res_mapM f xs = res_list f xs"
proof (induction xs)
  case (Cons x xs)
  then show ?case by (cases "f x") (auto simp: res_list_def at_error_def)
qed (simp add: res_list_def)

lemma res_list_perm:
  assumes "mset xs = mset ys"
  shows "res_map mset (res_list f xs) = res_map mset (res_list f ys)"
proof -
  have "set xs = set ys" using assms by (rule mset_eq_setD)
  moreover have "mset (map (\<lambda>x. projr (f x)) xs) = mset (map (\<lambda>x. projr (f x)) ys)" using assms by simp
  ultimately show ?thesis by (simp add: res_list_def)
qed

lemma sort_mset: "mset xs = mset ys \<Longrightarrow> sort xs = sort ys"
  by (metis sorted_list_of_multiset_mset)

lemma sort_concat_mset:
  assumes "mset xs = mset ys"
  shows "sort (concat xs) = sort (concat ys)"
proof (rule sort_mset)
  have "mset (concat zs) = \<Sum>\<^sub># (image_mset mset (mset zs))" for zs :: "'a list list"
    by (induction zs) simp_all
  then show "mset (concat xs) = mset (concat ys)" using assms by metis
qed

definition subquery_text :: "string list \<Rightarrow> string list list \<Rightarrow> string list list \<Rightarrow> string" where
  "subquery_text items conds preds =
     (let sql = ''SELECT COUNT(*) FROM '' @ join_with '','' (sort items);
          (sql, is_first) = append_conditions (sort (concat conds)) True sql;
          (sql, is_first) = append_conditions (sort (concat preds)) is_first sql
      in sql @ '';'')"

lemma subquery_text_mset:
  "mset i = mset i' \<Longrightarrow> mset c = mset c' \<Longrightarrow> mset p = mset p' \<Longrightarrow> subquery_text i c p = subquery_text i' c' p'"
  unfolding subquery_text_def by (simp only: sort_mset [of i i'] sort_concat_mset [of c c'] sort_concat_mset [of p p'])

lemma at_error_parts:
  "at_error (from_item al sm r)" "at_error (join_conditions al sm es)" "at_error (rel_predicates al sm r)"
proof -
  have a: "at_error (to_alias al sm r)" for r by (simp add: to_alias_def)
  have "at_error (eset_conditions al sm l es)" for l
    by (induction es arbitrary: l) (auto simp: a Let_def intro!: at_error_bind)
  then show "at_error (join_conditions al sm es)" by (simp add: join_conditions_def)
  show "at_error (from_item al sm r)" "at_error (rel_predicates al sm r)"
    by (auto simp: from_item_def rel_predicates_def a)
qed

lemma alias_ids_distinct:
  assumes "\<forall>r \<in> set rels. sm_tableName sm r \<noteq> None" "distinct (map (sm_tableName sm) rels)"
  shows "alias_ids rels sm = Inr (\<lambda>r. if r \<in> set rels then Some 1 else None)"
proof -
  define f where "f = (\<lambda>rel (alias_id :: nat \<Rightarrow> nat option, cur). res_bind (map_at (sm_tableName sm) rel) (\<lambda>t.
      let n = Suc (case cur t of None \<Rightarrow> 0 | Some k \<Rightarrow> k) in Inr (alias_id(rel \<mapsto> n), cur(t \<mapsto> n))))"
  have step: "sm_tableName sm r = Some t \<Longrightarrow> cur t = None \<Longrightarrow> f r (al, cur) = Inr (al(r \<mapsto> 1), cur(t \<mapsto> 1))"
    for r t al cur by (simp add: f_def)
  have "\<exists>cur'. res_fold f rels (al, cur) = Inr (\<lambda>r. if r \<in> set rels then Some 1 else al r, cur')"
    if "\<forall>r \<in> set rels. cur (the (sm_tableName sm r)) = None" for al cur
    using assms that
  proof (induction rels arbitrary: al cur)
    case (Cons r rs)
    then obtain t where t: "sm_tableName sm r = Some t" by auto
    have "cur t = None" using Cons.prems(3) t by simp
    moreover have "\<forall>r' \<in> set rs. (cur(t \<mapsto> 1)) (the (sm_tableName sm r')) = None"
      using Cons.prems t by (force simp: image_iff)
    then obtain cur' where "res_fold f rs (al(r \<mapsto> 1), cur(t \<mapsto> 1)) =
        Inr (\<lambda>x. if x \<in> set rs then Some 1 else (al(r \<mapsto> 1)) x, cur')"
      using Cons.IH [of "cur(t \<mapsto> 1)" "al(r \<mapsto> 1)"] Cons.prems(1,2) unfolding list.map distinct.simps list.set
      by blast
    moreover have "(\<lambda>x. if x \<in> set rs then Some 1 else (al(r \<mapsto> 1)) x) = (\<lambda>x. if x \<in> set (r # rs) then Some 1 else al x)"
      by (auto simp: fun_eq_iff)
    ultimately show ?case using step [OF t] by simp
  qed simp
  from this [of Map.empty Map.empty] obtain cur'
    where "res_fold f rels (Map.empty, Map.empty) = Inr (\<lambda>r. if r \<in> set rels then Some 1 else None, cur')" by auto
  moreover have "alias_ids rels sm = res_map fst (res_fold f rels (Map.empty, Map.empty))"
    unfolding alias_ids_def f_def ..
  ultimately show ?thesis by simp
qed

lemma GetSubquery_lists:
  assumes "alias_ids rels sm = Inr al"
  shows "GetSubquery rels ess sm =
     res_bind (res_list (from_item al sm) rels) (\<lambda>items.
     res_bind (res_list (join_conditions al sm) ess) (\<lambda>conds.
     res_bind (res_list (rel_predicates al sm) rels) (\<lambda>preds.
       Inr (subquery_text items conds preds))))"
  using assms by (simp add: GetSubquery_def res_mapM_list at_error_parts subquery_text_def Let_def case_prod_beta)

lemma res_bind_mset:
  assumes "res_map mset r = res_map mset r'" "\<And>xs ys. mset xs = mset ys \<Longrightarrow> f xs = g ys"
  shows "res_bind r f = res_bind r' g"
  using assms by (cases r; cases r') auto

text \<open>
  C28: The text that identifies a subquery does not depend on the order in which the optimizer
  lists its relations and attribute sets: for relations of different tables,
  \<open>GetSubquery\<close> gives the same text, or the same exception, for every order. An injected
  cardinality is therefore found however the join order enumeration reaches the set.
\<close>

theorem subquery_text_order_independent:
  assumes "mset rels = mset rels'" "mset ess = mset ess'"
    "\<forall>r \<in> set rels. sm_tableName sm r \<noteq> None" "distinct (map (sm_tableName sm) rels)"
  shows "GetSubquery rels ess sm = GetSubquery rels' ess' sm"
proof -
  let ?al = "\<lambda>r. if r \<in> set rels then Some 1 else None"
  have s: "set rels = set rels'" using assms(1) by (rule mset_eq_setD)
  have "mset (map (sm_tableName sm) rels) = mset (map (sm_tableName sm) rels')" using assms(1) by simp
  then have "distinct (map (sm_tableName sm) rels')" using assms(4) mset_eq_imp_distinct_iff by blast
  then have al: "alias_ids rels sm = Inr ?al" "alias_ids rels' sm = Inr ?al"
    using alias_ids_distinct assms(3,4) s by simp_all
  note p = res_list_perm [OF assms(1), of "from_item ?al sm"]
    res_list_perm [OF assms(2), of "join_conditions ?al sm"]
    res_list_perm [OF assms(1), of "rel_predicates ?al sm"]
  show ?thesis
    unfolding GetSubquery_lists [OF al(1)] GetSubquery_lists [OF al(2)]
    by (intro res_bind_mset p arg_cong [of _ _ Inr] subquery_text_mset)
qed

text \<open>Two relations of different tables, joined and without filters.\<close>

definition two_table_manager :: StatisticManager where
  "two_table_manager = StatisticManager_init\<lparr>
     sm_tableName := [0 \<mapsto> ''posts'', 1 \<mapsto> ''users''],
     sm_columnName := [(0, 1) \<mapsto> ''OwnerUserId'', (1, 0) \<mapsto> ''Id''],
     sm_filterString := [0 \<mapsto> '''', 1 \<mapsto> '''']\<rparr>"

theorem subquery_text_order_independent_witness:
  "GetSubquery [0, 1] [[(0, 1), (1, 0)]] two_table_manager = GetSubquery [1, 0] [[(0, 1), (1, 0)]] two_table_manager"
  by (rule subquery_text_order_independent) (simp_all add: two_table_manager_def add_mset_commute)

end
