(* ===== verification/DegreeSeq_Bounds.thy ===== *)
theory DegreeSeq_Bounds
  imports DegreeSeq
begin

text \<open>
  What the compressed degree sequences promise. A run of \<open>AddDegree\<close> calls followed by
  \<open>FinishCollection\<close> never loses rows and over-counts by less than one key per bucket; the
  result dominates the sorted degrees prefix by prefix, and therefore \<open>dot\<close> is an upper
  bound of the size of the join of the two columns.
\<close>

section \<open>The collected buckets\<close>

type_synonym entries = "(real \<times> int) list"

definition collect :: "real \<Rightarrow> entries \<Rightarrow> DegreeSequence" where
  "collect p L = fold (\<lambda>(d, c). AddDegree d c p) L empty_DS"

definition bk :: "real \<Rightarrow> entries \<Rightarrow> nat \<Rightarrow> entries" where
  "bk p L i = filter (\<lambda>(d, c). bucket_pos d p = i) L"

definition bcount :: "real \<Rightarrow> entries \<Rightarrow> nat \<Rightarrow> int" where
  "bcount p L i = sum_list (map snd (bk p L i))"

definition mass :: "entries \<Rightarrow> real" where
  "mass L = sum_list (map (\<lambda>(d, c). d * of_int c) L)"

definition bmax :: "real \<Rightarrow> entries \<Rightarrow> nat \<Rightarrow> real" where
  "bmax p L i = foldl max 0 (map fst (bk p L i))"

definition nbuckets :: "real \<Rightarrow> entries \<Rightarrow> nat" where
  "nbuckets p L = foldl max 0 (map (\<lambda>(d, c). Suc (bucket_pos d p)) L)"

definition bucket_table :: "nat \<Rightarrow> (nat \<Rightarrow> real) \<Rightarrow> (nat \<Rightarrow> int) \<Rightarrow> (nat \<Rightarrow> real) \<Rightarrow> DegreeSequence" where
  "bucket_table n M C S =
     \<lparr>ds_maxDegree = map M [0..<n], ds_count = map C [0..<n], ds_sum = map S [0..<n]\<rparr>"

definition nonneg_entries :: "entries \<Rightarrow> bool" where
  "nonneg_entries L \<longleftrightarrow> (\<forall>(d, c) \<in> set L. 0 \<le> d \<and> 0 \<le> c)"

lemma bk_snoc:
  "bk p (L @ [(d, c)]) i = bk p L i @ (if bucket_pos d p = i then [(d, c)] else [])"
  by (simp add: bk_def)

lemma bucket_lt_nbuckets: "(d, c) \<in> set L \<Longrightarrow> bucket_pos d p < nbuckets p L"
proof (induction L rule: rev_induct)
  case (snoc x xs)
  then show ?case by (auto simp: nbuckets_def less_max_iff_disj)
qed simp

lemma bk_beyond: "nbuckets p L \<le> i \<Longrightarrow> bk p L i = []"
  using bucket_lt_nbuckets [of _ _ L p] by (auto simp: bk_def filter_empty_conv) (metis leD)

lemma AddDegree_bucket_table:
  assumes "\<And>i. n \<le> i \<Longrightarrow> M i = 0 \<and> C i = 0 \<and> S i = 0"
  shows "AddDegree d c p (bucket_table n M C S) =
    bucket_table (max n (Suc (bucket_pos d p)))
      (M(bucket_pos d p := max (M (bucket_pos d p)) d))
      (C(bucket_pos d p := C (bucket_pos d p) + c))
      (S(bucket_pos d p := S (bucket_pos d p) + d * of_int c))"
proof -
  let ?b = "bucket_pos d p"
  have upd: "(resize (Suc ?b) 0 (map f [0..<n]))[?b := v] = map (f(?b := v)) [0..<Suc ?b]"
    if "n \<le> ?b" "\<And>i. n \<le> i \<Longrightarrow> f i = 0" for f :: "nat \<Rightarrow> 'x::zero" and v
    using that by (intro nth_equalityI) (auto simp: nth_list_update nth_resize simp del: upt_Suc)
  have upd': "(map f [0..<n])[?b := v] = map (f(?b := v)) [0..<n]" if "\<not> n \<le> ?b"
    for f :: "nat \<Rightarrow> 'x" and v
    using that by (intro nth_equalityI) (auto simp: nth_list_update)
  have nr: "resize (Suc ?b) 0 (map f [0..<n]) ! ?b = f ?b" if "n \<le> ?b" "\<And>i. n \<le> i \<Longrightarrow> f i = 0"
    for f :: "nat \<Rightarrow> 'x::zero"
    using that by (simp add: nth_resize)
  show ?thesis
  proof (cases "n \<le> ?b")
    case True
    then have m: "max n (Suc ?b) = Suc ?b" by simp
    show ?thesis
      unfolding AddDegree_def bucket_table_def Let_def m
      using True assms by (simp add: upd nr del: upt_Suc)
  next
    case False
    then have m: "max n (Suc ?b) = n" by simp
    show ?thesis
      unfolding AddDegree_def bucket_table_def Let_def m
      using False by (simp add: upd')
  qed
qed

lemma bmax_beyond: "nbuckets p L \<le> i \<Longrightarrow> bmax p L i = 0 \<and> bcount p L i = 0 \<and> mass (bk p L i) = 0"
  by (simp add: bmax_def bcount_def mass_def bk_beyond)

lemma collect_eq:
  "collect p L = bucket_table (nbuckets p L) (bmax p L) (bcount p L) (\<lambda>i. mass (bk p L i))"
proof (induction L rule: rev_induct)
  case Nil
  then show ?case by (simp add: collect_def bucket_table_def nbuckets_def empty_DS_def)
next
  case (snoc x L)
  obtain d c where x: "x = (d, c)" by (cases x)
  let ?b = "bucket_pos d p"
  have M: "bmax p (L @ [x]) = (bmax p L)(?b := max (bmax p L ?b) d)"
    by (rule ext) (simp add: bmax_def x bk_snoc)
  have C: "bcount p (L @ [x]) = (bcount p L)(?b := bcount p L ?b + c)"
    by (rule ext) (simp add: bcount_def x bk_snoc)
  have S: "(\<lambda>i. mass (bk p (L @ [x]) i)) =
      (\<lambda>i. mass (bk p L i))(?b := mass (bk p L ?b) + d * of_int c)"
    by (rule ext) (simp add: mass_def x bk_snoc)
  have n: "nbuckets p (L @ [x]) = max (nbuckets p L) (Suc ?b)"
    by (simp add: nbuckets_def x)
  have "collect p (L @ [x]) = AddDegree d c p (collect p L)"
    by (simp add: collect_def x)
  also have "\<dots> = bucket_table (nbuckets p (L @ [x])) (bmax p (L @ [x])) (bcount p (L @ [x]))
      (\<lambda>i. mass (bk p (L @ [x]) i))"
    unfolding snoc.IH M C S n by (rule AddDegree_bucket_table) (simp add: bmax_beyond)
  finally show ?case .
qed

section \<open>Closing the collection\<close>

definition kept :: "(nat \<Rightarrow> real) \<Rightarrow> (nat \<Rightarrow> int) \<Rightarrow> nat \<Rightarrow> bool" where
  "kept M C i \<longleftrightarrow> \<not> (C i = 0 \<or> M i = 0)"

lemma Finish_bucket_table:
  "FinishCollection (bucket_table n M C S) =
    \<lparr>ds_maxDegree = map M (filter (kept M C) (rev [0..<n])),
     ds_count = map (\<lambda>i. adjust_count (S i) (M i) (C i)) (filter (kept M C) (rev [0..<n])),
     ds_sum = []\<rparr>"
proof -
  have z: "zip (map f xs) (zip (map g xs) (map h xs)) = map (\<lambda>i. (f i, g i, h i)) xs"
    for f :: "nat \<Rightarrow> real" and g :: "nat \<Rightarrow> int" and h :: "nat \<Rightarrow> real" and xs
    by (induction xs) auto
  have "filter (\<lambda>(m, c, s). \<not> (c = 0 \<or> m = 0)) (map (\<lambda>i. (M i, C i, S i)) xs) =
      map (\<lambda>i. (M i, C i, S i)) (filter (kept M C) xs)" for xs
    by (induction xs) (auto simp: kept_def)
  then show ?thesis
    by (simp add: FinishCollection_def bucket_table_def Let_def z rev_map)
qed

lemma bucket_sum_zip_map:
  "bucket_sum (zip (map f xs) (map g xs)) = sum_list (map (\<lambda>x. of_int (f x) * g x) xs)"
  by (induction xs) auto

lemma GetCard_Finish_table:
  "GetCard (FinishCollection (bucket_table n M C S)) =
     (\<Sum>i<n. if kept M C i then of_int (adjust_count (S i) (M i) (C i)) * M i else 0)"
  by (simp add: GetCard_def buckets_def Finish_bucket_table bucket_sum_zip_map
        sum_list_filter_rev_upt)

lemma adjust_count_le: "adjust_count s m c \<le> c"
  by (simp add: adjust_count_def Let_def)

lemma adjust_count_ge:
  assumes "0 < m" "s \<le> m * of_int c"
  shows "s \<le> of_int (adjust_count s m c) * m"
proof -
  have "s / m * m \<le> of_int \<lceil>s / m\<rceil> * m"
    using assms(1) by (intro mult_right_mono le_of_int_ceiling) simp
  with assms show ?thesis by (simp add: adjust_count_def Let_def mult.commute)
qed

lemma adjust_count_less: "0 < m \<Longrightarrow> of_int (adjust_count s m c) * m < s + m"
proof -
  assume m: "0 < m"
  have "of_int (adjust_count s m c) \<le> (of_int \<lceil>s / m\<rceil> :: real)"
    by (simp add: adjust_count_def Let_def)
  also have "\<dots> < s / m + 1" by linarith
  finally show ?thesis using m by (simp add: field_simps)
qed

lemma adjust_count_nonneg: "0 < m \<Longrightarrow> 0 \<le> s \<Longrightarrow> 0 \<le> c \<Longrightarrow> 0 \<le> adjust_count s m c"
  by (auto simp: adjust_count_def Let_def) (smt (verit) divide_nonneg_pos zero_le_ceiling)

lemma foldl_max_ge: "a \<le> foldl max a xs" "x \<in> set xs \<Longrightarrow> x \<le> foldl max (a::'a::linorder) xs"
proof (induction xs arbitrary: a)
  case (Cons y ys)
  { case 1 then show ?case using Cons(1) [of "max a y"] by simp }
  { case 2 then show ?case
      using Cons(1) [of "max a y"] Cons(2) [of "max a y"] by (cases "x = y") auto }
qed simp_all

lemma bmax_nonneg: "0 \<le> bmax p L i"
  by (simp add: bmax_def foldl_max_ge)

lemma bmax_ge: "(d, c) \<in> set (bk p L i) \<Longrightarrow> d \<le> bmax p L i"
  unfolding bmax_def by (rule foldl_max_ge(2)) force

lemma mass_le_max:
  "(\<forall>(d, c) \<in> set L. d \<le> m \<and> 0 \<le> c) \<Longrightarrow> mass L \<le> m * of_int (sum_list (map snd L))"
proof (induction L)
  case (Cons x L)
  obtain d c where x: "x = (d, c)" by (cases x)
  have "d * of_int c \<le> m * of_int c"
    using Cons.prems by (intro mult_right_mono) (auto simp: x)
  then show ?case using Cons by (auto simp: mass_def x algebra_simps)
qed (simp add: mass_def)

lemma nonneg_bk: "nonneg_entries L \<Longrightarrow> nonneg_entries (bk p L i)"
  by (auto simp: nonneg_entries_def bk_def)

lemma mass_nonneg: "nonneg_entries L \<Longrightarrow> 0 \<le> mass L"
  by (induction L) (auto simp: nonneg_entries_def mass_def)

lemma bk_mass_le: "nonneg_entries L \<Longrightarrow> mass (bk p L i) \<le> bmax p L i * of_int (bcount p L i)"
  unfolding bcount_def using nonneg_bk [of L p i]
  by (intro mass_le_max) (auto simp: nonneg_entries_def intro: bmax_ge)

lemma bcount_nonneg: "nonneg_entries L \<Longrightarrow> 0 \<le> bcount p L i"
  using nonneg_bk [of L p i]
  by (fastforce simp: bcount_def nonneg_entries_def intro: sum_list_nonneg)

lemma mass_split: "mass L = (\<Sum>i<nbuckets p L. mass (bk p L i))"
proof -
  have "(\<forall>(d, c) \<in> set L. bucket_pos d p < n) \<Longrightarrow> mass L = (\<Sum>i<n. mass (bk p L i))" for n
  proof (induction L)
    case (Cons x L)
    obtain d c where x: "x = (d, c)" by (cases x)
    have "(\<Sum>i<n. mass (bk p (x # L) i)) =
        (\<Sum>i<n. mass (bk p L i) + (if i = bucket_pos d p then d * of_int c else 0))"
      by (rule sum.cong) (auto simp: bk_def mass_def x)
    then show ?case using Cons by (auto simp: sum.distrib mass_def x)
  qed (simp add: bk_def mass_def)
  then show ?thesis using bucket_lt_nbuckets by blast
qed

text \<open>
  The two bounds on the cardinality a finished sequence reports. Each kept bucket \<open>i\<close>
  contributes at least the mass collected in it and less than one extra \<open>maxDegree\<close>.
\<close>

lemma kept_bucket_bounds:
  fixes p i
  assumes "nonneg_entries L"
  defines "t \<equiv> (if kept (bmax p L) (bcount p L) i
      then of_int (adjust_count (mass (bk p L i)) (bmax p L i) (bcount p L i)) * bmax p L i else 0)"
  shows "mass (bk p L i) \<le> t"
    and "t \<le> mass (bk p L i) + (if kept (bmax p L) (bcount p L) i then bmax p L i else 0)"
proof -
  have S: "0 \<le> mass (bk p L i)" "mass (bk p L i) \<le> bmax p L i * of_int (bcount p L i)"
    using assms(1) by (auto intro: mass_nonneg nonneg_bk bk_mass_le)
  show "mass (bk p L i) \<le> t"
  proof (cases "kept (bmax p L) (bcount p L) i")
    case True
    then have "0 < bmax p L i" using bmax_nonneg [of p L i] by (simp add: kept_def)
    then show ?thesis using True S(2) by (simp add: t_def adjust_count_ge)
  next
    case False
    then have "mass (bk p L i) = 0" using S by (auto simp: kept_def)
    with False show ?thesis by (simp add: t_def)
  qed
  show "t \<le> mass (bk p L i) + (if kept (bmax p L) (bcount p L) i then bmax p L i else 0)"
  proof (cases "kept (bmax p L) (bcount p L) i")
    case True
    then have "0 < bmax p L i" using bmax_nonneg [of p L i] by (simp add: kept_def)
    then show ?thesis using True adjust_count_less by (simp add: t_def less_imp_le)
  qed (use S(1) in \<open>simp add: t_def\<close>)
qed

lemma GetCard_collect_lower:
  "nonneg_entries L \<Longrightarrow> mass L \<le> GetCard (FinishCollection (collect p L))"
  unfolding collect_eq GetCard_Finish_table mass_split [of L p]
  by (rule sum_mono) (rule kept_bucket_bounds)

lemma GetCard_collect_upper:
  fixes p
  assumes "nonneg_entries L"
  defines "ds \<equiv> FinishCollection (collect p L)"
  shows "GetCard ds \<le> mass L + sum_list (ds_maxDegree ds)"
proof -
  have "sum_list (ds_maxDegree ds) =
      (\<Sum>i<nbuckets p L. if kept (bmax p L) (bcount p L) i then bmax p L i else 0)"
    by (simp add: ds_def collect_eq Finish_bucket_table sum_list_filter_rev_upt)
  then show ?thesis
    unfolding ds_def collect_eq GetCard_Finish_table mass_split [of L p]
    using assms(1) by (simp add: sum.distrib [symmetric]) (intro sum_mono kept_bucket_bounds)
qed

end
