(* ===== verification/DegreeSeq_Dot.thy ===== *)
theory DegreeSeq_Dot
  imports DegreeSeq_Bounds
begin

text \<open>
  The upper-bound guarantee of \<open>dot\<close>. The size of an equi-join is the sum over the keys of
  the products of the two frequencies. By the rearrangement inequality it is at most the
  product sum of the two sorted frequency lists; a finished degree sequence dominates the
  sorted list it was collected from in every prefix sum, and summation by parts turns this
  into an inequality of the product sums.
\<close>

section \<open>Product sums and dominance\<close>

definition dotp :: "real list \<Rightarrow> real list \<Rightarrow> real" where
  "dotp xs ys = sum_list (map2 (*) xs ys)"

definition dominated :: "real list \<Rightarrow> real list \<Rightarrow> bool" where
  "dominated xs ys \<longleftrightarrow> (\<forall>k. sum_list (take k xs) \<le> sum_list (take k ys))"

definition nonneg :: "real list \<Rightarrow> bool" where
  "nonneg xs \<longleftrightarrow> (\<forall>x \<in> set xs. 0 \<le> x)"

fun insort_desc :: "real \<Rightarrow> real list \<Rightarrow> real list" where
  "insort_desc x [] = [x]"
| "insort_desc x (y # ys) = (if y \<le> x then x # y # ys else y # insort_desc x ys)"

fun desc :: "real list \<Rightarrow> real list" where
  "desc [] = []"
| "desc (x # xs) = insort_desc x (desc xs)"

definition expand :: "(int \<times> real) list \<Rightarrow> real list" where
  "expand bs = concat (map (\<lambda>(c, d). replicate (nat c) d) bs)"

definition hd0 :: "real list \<Rightarrow> real" where
  "hd0 xs = (case xs of [] \<Rightarrow> 0 | x # _ \<Rightarrow> x)"

lemma dotp_Nil [simp]: "dotp [] ys = 0" "dotp xs [] = 0"
  by (simp_all add: dotp_def)

lemma dotp_Cons [simp]: "dotp (x # xs) (y # ys) = x * y + dotp xs ys"
  by (simp add: dotp_def)

lemma dotp_Cons2: "dotp xs (y # ys) = hd0 xs * y + dotp (tl xs) ys"
  by (cases xs) (simp_all add: hd0_def)

lemma dotp_commute: "dotp xs ys = dotp ys xs"
proof (induction xs arbitrary: ys)
  case (Cons x xs)
  then show ?case by (cases ys) (simp_all add: mult.commute)
qed simp

lemma take_Suc_sum: "sum_list (take (Suc k) xs) = hd0 xs + sum_list (take k (tl xs))"
  by (cases xs) (simp_all add: hd0_def)

lemma sum_take_mono: "nonneg xs \<Longrightarrow> j \<le> k \<Longrightarrow> sum_list (take j xs) \<le> sum_list (take k xs)"
proof (induction xs arbitrary: j k)
  case (Cons x xs)
  then show ?case
    by (cases j; cases k) (auto simp: nonneg_def intro!: add_nonneg_nonneg sum_list_nonneg dest: in_set_takeD)
qed simp

lemma sum_take_le: "nonneg xs \<Longrightarrow> sum_list (take k xs) \<le> sum_list xs"
  using sum_take_mono [of xs "min k (length xs)" "length xs"] by (cases "k \<le> length xs") auto

text \<open>Summation by parts, as an induction over the weights with the deficits \<open>a \<le> b\<close> carried along.\<close>

lemma abel_aux:
  assumes "sorted_wrt (\<ge>) ys" "nonneg ys" "\<forall>y \<in> set ys. y \<le> B" "0 \<le> B"
    and "\<And>k. a + sum_list (take k xs) \<le> b + sum_list (take k xs')"
  shows "a * B + dotp xs ys \<le> b * B + dotp xs' ys"
  using assms
proof (induction ys arbitrary: a b B xs xs')
  case Nil
  from Nil.prems(5) [of 0] Nil.prems(4) show ?case by (simp add: mult_right_mono)
next
  case (Cons y ys)
  have IH: "(a + hd0 xs) * y + dotp (tl xs) ys \<le> (b + hd0 xs') * y + dotp (tl xs') ys"
  proof (rule Cons.IH)
    show "a + hd0 xs + sum_list (take k (tl xs)) \<le> b + hd0 xs' + sum_list (take k (tl xs'))" for k
      using Cons.prems(5) [of "Suc k"] by (simp add: take_Suc_sum)
  qed (use Cons.prems in \<open>auto simp: nonneg_def\<close>)
  have "a * (B - y) \<le> b * (B - y)"
    using Cons.prems(3) Cons.prems(5) [of 0] by (intro mult_right_mono) auto
  with IH show ?case by (simp add: dotp_Cons2 algebra_simps)
qed

lemma dotp_mono_dom:
  assumes "sorted_wrt (\<ge>) ys" "nonneg ys" "dominated xs xs'"
  shows "dotp xs ys \<le> dotp xs' ys"
  using abel_aux [of ys "hd0 ys" 0 xs 0 xs'] assms
  by (cases ys) (auto simp: dominated_def hd0_def nonneg_def)

section \<open>Sorting\<close>

lemma mset_insort_desc [simp]: "mset (insort_desc x ys) = add_mset x (mset ys)"
  by (induction ys) auto

lemma mset_desc [simp]: "mset (desc xs) = mset xs"
  by (induction xs) auto

lemma set_insort_desc [simp]: "set (insort_desc x ys) = insert x (set ys)"
  by (metis mset_insort_desc set_mset_add_mset_insert set_mset_mset)

lemma set_desc [simp]: "set (desc xs) = set xs"
  by (metis mset_desc set_mset_mset)

lemma sorted_desc [simp]: "sorted_wrt (\<ge>) (desc xs)"
proof -
  have "sorted_wrt (\<ge>) ys \<Longrightarrow> sorted_wrt (\<ge>) (insort_desc x ys)" for x ys
    by (induction ys) auto
  then show ?thesis by (induction xs) auto
qed

lemma desc_unique: "sorted_wrt (\<ge>) ys \<Longrightarrow> mset ys = mset xs \<Longrightarrow> ys = desc xs"
proof -
  assume ys: "sorted_wrt (\<ge>) ys" "mset ys = mset xs"
  have "sort xs = rev zs" if "sorted_wrt (\<ge>) zs" "mset zs = mset xs" for zs
    using that by (intro properties_for_sort) (simp_all add: sorted_wrt_rev)
  then have "rev ys = rev (desc xs)" using ys by (metis mset_desc sorted_desc)
  then show ?thesis by simp
qed

lemma desc_cong: "mset xs = mset ys \<Longrightarrow> desc xs = desc ys"
  by (rule desc_unique) simp_all

lemma dom_desc: "dominated xs (desc xs)"
proof -
  have ins: "x + sum_list (take k ys) \<le> sum_list (take (Suc k) (insort_desc x ys))" for x k ys
  proof (induction ys arbitrary: k)
    case (Cons y ys)
    then show ?case by (cases k) auto
  qed simp
  have "sum_list (take k xs) \<le> sum_list (take k (desc xs))" for k
  proof (induction xs arbitrary: k)
    case (Cons x xs)
    show ?case
    proof (cases k)
      case (Suc j)
      then show ?thesis using Cons.IH [of j] ins [of x j "desc xs"] by simp
    qed simp
  qed simp
  then show ?thesis by (simp add: dominated_def)
qed

text \<open>The rearrangement inequality.\<close>

lemma dotp_desc:
  assumes "length xs = length ys" "nonneg ys"
  shows "dotp xs ys \<le> dotp (desc xs) (desc ys)"
proof -
  define P where "P = rev (sort_key snd (zip xs ys))"
  have mP: "mset P = mset (zip xs ys)" by (simp add: P_def)
  have "mset (map snd P) = mset (map snd (zip xs ys))" by (simp add: mP)
  then have s: "mset (map snd P) = mset ys" using assms(1) by simp
  have "sorted (rev (map snd P))" by (simp add: P_def rev_map)
  then have "sorted_wrt (\<ge>) (map snd P)" by (simp add: sorted_wrt_rev)
  then have ys: "map snd P = desc ys" using s by (rule desc_unique)
  have "mset (map fst P) = mset (map fst (zip xs ys))" by (simp add: mP)
  then have xs: "desc (map fst P) = desc xs" using assms(1) by (intro desc_cong) simp
  have "dotp (map fst P) (map snd P) = sum_mset (image_mset (\<lambda>(x, y). x * y) (mset P))"
    by (simp add: dotp_def zip_map_fst_snd sum_mset_sum_list [symmetric])
  moreover have "dotp xs ys = sum_mset (image_mset (\<lambda>(x, y). x * y) (mset (zip xs ys)))"
    by (simp add: dotp_def sum_mset_sum_list [symmetric])
  ultimately have "dotp (map fst P) (map snd P) = dotp xs ys"
    by (simp add: mP)
  moreover have "dotp (map fst P) (desc ys) \<le> dotp (desc (map fst P)) (desc ys)"
    using assms(2) by (intro dotp_mono_dom dom_desc) (auto simp: nonneg_def)
  ultimately show ?thesis using ys xs by simp
qed

section \<open>A bucket dominates its keys\<close>

lemma sum_list_le_length: "(\<forall>x \<in> set xs. x \<le> M) \<Longrightarrow> sum_list xs \<le> of_nat (length xs) * (M :: real)"
  by (induction xs) (auto simp: algebra_simps)

lemma dom_replicate:
  assumes "nonneg zs" "\<forall>z \<in> set zs. z \<le> M" "sum_list zs \<le> of_nat n * M" "0 \<le> M"
  shows "dominated zs (replicate n M)"
proof -
  have "sum_list (take k zs) \<le> of_nat (min k n) * M" for k
  proof (cases "k \<le> n")
    case True
    have "sum_list (take k zs) \<le> of_nat (length (take k zs)) * M"
      using assms(2) by (intro sum_list_le_length) (auto dest: in_set_takeD)
    also have "\<dots> \<le> of_nat k * M" using assms(4) by (intro mult_right_mono) auto
    finally show ?thesis using True by simp
  next
    case False
    then show ?thesis using sum_take_le [OF assms(1), of k] assms(3) by simp
  qed
  then show ?thesis by (simp add: dominated_def sum_list_replicate)
qed

lemma dom_append:
  assumes d: "dominated zs rs" "dominated zs' rs'" and len: "length rs \<le> length zs"
    and n: "nonneg zs" "nonneg rs" "nonneg rs'"
  shows "dominated (zs @ zs') (rs @ rs')"
  unfolding dominated_def
proof
  fix k
  have tot: "sum_list zs \<le> sum_list rs"
    using d(1) len by (auto simp: dominated_def dest: spec [of _ "length zs"])
  have "sum_list (take k zs) \<le> sum_list (take k rs)" using d(1) by (simp add: dominated_def)
  moreover have "sum_list (take (k - length zs) zs') \<le> sum_list (take (k - length rs) rs')"
  proof -
    have "sum_list (take (k - length zs) zs') \<le> sum_list (take (k - length zs) rs')"
      using d(2) by (simp add: dominated_def)
    also have "\<dots> \<le> sum_list (take (k - length rs) rs')"
      using n(3) len by (intro sum_take_mono) auto
    finally show ?thesis .
  qed
  ultimately show "sum_list (take k (zs @ zs')) \<le> sum_list (take k (rs @ rs'))" by simp
qed

section \<open>A finished sequence dominates the keys it was collected from\<close>

definition keys :: "entries \<Rightarrow> real list" where
  "keys L = concat (map (\<lambda>(d, c). replicate (nat c) d) L)"

lemma keys_simps [simp]: "keys [] = []" "keys ((d, c) # L) = replicate (nat c) d @ keys L"
  by (simp_all add: keys_def)

lemma set_keys: "x \<in> set (keys L) \<Longrightarrow> \<exists>c. (x, c) \<in> set L"
  by (force simp: keys_def)

lemma nonneg_keys: "nonneg_entries L \<Longrightarrow> nonneg (keys L)"
  using set_keys by (fastforce simp: nonneg_def nonneg_entries_def)

lemma sum_keys: "nonneg_entries L \<Longrightarrow> sum_list (keys L) = mass L"
  by (induction L) (auto simp: mass_def nonneg_entries_def sum_list_replicate)

lemma length_keys: "nonneg_entries L \<Longrightarrow> int (length (keys L)) = sum_list (map snd L)"
  by (induction L) (auto simp: nonneg_entries_def)

lemma bucket_pos_mono:
  assumes "d \<le> d'"
  shows "bucket_pos d p \<le> bucket_pos d' p"
proof (cases "1 < d \<and> 1 < p")
  case True
  then have "ln d / ln p \<le> ln d' / ln p"
    using assms by (intro divide_right_mono) auto
  then have "nat \<lceil>ln d / ln p\<rceil> \<le> nat \<lceil>ln d' / ln p\<rceil>"
    by (intro nat_mono ceiling_mono)
  with True assms show ?thesis by (simp add: bucket_pos_def)
qed (use assms in \<open>auto simp: bucket_pos_def\<close>)

lemma bucket_pos_keys: "x \<in> set (keys (bk p L i)) \<Longrightarrow> bucket_pos x p = i"
  using set_keys by (fastforce simp: bk_def)

lemma mset_concat_rev_upt:
  "mset (concat (map f (rev [0..<n]))) = (\<Sum>i<n. mset (f i))"
  by (induction n) (auto simp: add.commute)

lemma mset_keys_split:
  "(\<forall>(d, c) \<in> set L. bucket_pos d p < n) \<Longrightarrow> (\<Sum>i<n. mset (keys (bk p L i))) = mset (keys L)"
proof (induction L)
  case (Cons x L)
  obtain d c where x: "x = (d, c)" by (cases x)
  have "(\<Sum>i<n. mset (keys (bk p (x # L) i))) =
      (\<Sum>i<n. mset (keys (bk p L i)) + (if i = bucket_pos d p then mset (replicate (nat c) d) else {#}))"
    by (rule sum.cong) (auto simp: bk_def x)
  then show ?case using Cons by (auto simp: sum.distrib x)
qed (simp add: bk_def)

definition sorted_buckets :: "real \<Rightarrow> entries \<Rightarrow> nat \<Rightarrow> real list" where
  "sorted_buckets p L n = concat (map (\<lambda>i. desc (keys (bk p L i))) (rev [0..<n]))"

lemma sorted_buckets_Suc:
  "sorted_buckets p L (Suc n) = desc (keys (bk p L n)) @ sorted_buckets p L n"
  by (simp add: sorted_buckets_def)

lemma bucket_sorted_buckets: "x \<in> set (sorted_buckets p L n) \<Longrightarrow> bucket_pos x p < n"
  by (auto simp: sorted_buckets_def dest: bucket_pos_keys)

lemma bucket_less_imp_le: "bucket_pos x p < bucket_pos y p \<Longrightarrow> x \<le> y"
  using bucket_pos_mono [of y x p] by (cases "x \<le> y") auto

lemma sorted_sorted_buckets: "sorted_wrt (\<ge>) (sorted_buckets p L n)"
proof (induction n)
  case (Suc n)
  then show ?case
    by (auto simp: sorted_buckets_Suc sorted_wrt_append
          intro!: bucket_less_imp_le dest: bucket_pos_keys bucket_sorted_buckets)
qed (simp add: sorted_buckets_def)

lemma sorted_buckets_eq: "sorted_buckets p L (nbuckets p L) = desc (keys L)"
proof (rule desc_unique [OF sorted_sorted_buckets])
  have "\<forall>(d, c) \<in> set L. bucket_pos d p < nbuckets p L" using bucket_lt_nbuckets by blast
  from mset_keys_split [OF this] show "mset (sorted_buckets p L (nbuckets p L)) = mset (keys L)"
    by (simp add: sorted_buckets_def mset_concat_rev_upt)
qed

text \<open>The keys that the finished bucket \<open>i\<close> stands for.\<close>

definition bucket_rep :: "real \<Rightarrow> entries \<Rightarrow> nat \<Rightarrow> real list" where
  "bucket_rep p L i =
     (if kept (bmax p L) (bcount p L) i
      then replicate (nat (adjust_count (mass (bk p L i)) (bmax p L i) (bcount p L i))) (bmax p L i)
      else [])"

lemma expand_Finish:
  "expand (buckets (FinishCollection (collect p L))) =
     concat (map (bucket_rep p L) (rev [0..<nbuckets p L]))"
proof -
  have "expand (zip (map f xs) (map g xs)) = concat (map (\<lambda>i. replicate (nat (f i)) (g i)) xs)"
    for f g and xs :: "nat list"
    by (induction xs) (auto simp: expand_def)
  then have "expand (buckets (FinishCollection (collect p L))) =
      concat (map (\<lambda>i. replicate (nat (adjust_count (mass (bk p L i)) (bmax p L i) (bcount p L i))) (bmax p L i))
        (filter (kept (bmax p L) (bcount p L)) (rev [0..<nbuckets p L])))"
    by (simp add: buckets_def collect_eq Finish_bucket_table)
  also have "\<dots> = concat (map (bucket_rep p L) (rev [0..<nbuckets p L]))"
    by (simp add: concat_map_filter_if bucket_rep_def [abs_def])
  finally show ?thesis .
qed

lemma foldl_max_mem: "foldl max a xs = a \<or> foldl max (a::'a::linorder) xs \<in> set xs"
proof (induction xs arbitrary: a)
  case (Cons x xs)
  from Cons [of "max a x"] show ?case by (auto simp: max_def split: if_splits)
qed simp

lemma bucket_rep_mem:
  assumes "x \<in> set (bucket_rep p L i)"
  shows "bucket_pos x p = i" and "0 \<le> x"
proof -
  from assms have x: "x = bmax p L i" "bmax p L i \<noteq> 0"
    by (auto simp: bucket_rep_def kept_def split: if_splits)
  then obtain c where "(x, c) \<in> set (bk p L i)"
    using foldl_max_mem [of 0 "map fst (bk p L i)"] by (auto simp: bmax_def)
  then show "bucket_pos x p = i" by (simp add: bk_def)
  show "0 \<le> x" using x bmax_nonneg by simp
qed

lemma nonneg_bucket_reps: "nonneg (concat (map (bucket_rep p L) (rev [0..<n])))"
  by (auto simp: nonneg_def dest: bucket_rep_mem(2))

lemma sorted_bucket_reps: "sorted_wrt (\<ge>) (concat (map (bucket_rep p L) (rev [0..<n])))"
proof (induction n)
  case (Suc n)
  have "sorted_wrt (\<ge>) (bucket_rep p L n)"
    by (simp add: bucket_rep_def sorted_wrt_iff_nth_less)
  with Suc show ?case
    by (auto simp: sorted_wrt_append intro!: bucket_less_imp_le dest!: bucket_rep_mem(1))
qed simp

lemma dom_bucket:
  assumes "nonneg_entries L"
  shows "dominated (desc (keys (bk p L i))) (bucket_rep p L i)"
    and "length (bucket_rep p L i) \<le> length (desc (keys (bk p L i)))"
proof -
  let ?n = "if kept (bmax p L) (bcount p L) i
    then nat (adjust_count (mass (bk p L i)) (bmax p L i) (bcount p L i)) else 0"
  have rep: "bucket_rep p L i = replicate ?n (bmax p L i)" by (simp add: bucket_rep_def)
  have nn: "nonneg_entries (bk p L i)" using assms by (rule nonneg_bk)
  have sum: "sum_list (desc (keys (bk p L i))) = mass (bk p L i)"
    using sum_keys [OF nn] by (metis mset_desc sum_mset_sum_list)
  have adj: "0 \<le> adjust_count (mass (bk p L i)) (bmax p L i) (bcount p L i)"
    if "kept (bmax p L) (bcount p L) i"
    using that bmax_nonneg [of p L i] mass_nonneg [OF nn] bcount_nonneg [OF assms]
    by (intro adjust_count_nonneg) (auto simp: kept_def)
  have "mass (bk p L i) \<le> of_nat ?n * bmax p L i"
    using kept_bucket_bounds(1) [OF assms, of p i] adj by (auto split: if_splits)
  moreover have "\<forall>z \<in> set (desc (keys (bk p L i))). z \<le> bmax p L i"
    using set_keys bmax_ge by fastforce
  ultimately show "dominated (desc (keys (bk p L i))) (bucket_rep p L i)"
    unfolding rep using nonneg_keys [OF nn] sum bmax_nonneg
    by (intro dom_replicate) (auto simp: nonneg_def)
  have "int (length (desc (keys (bk p L i)))) = bcount p L i"
    using length_keys [OF nn] by (metis bcount_def mset_desc size_mset)
  then show "length (bucket_rep p L i) \<le> length (desc (keys (bk p L i)))"
    using adjust_count_le [of "mass (bk p L i)" "bmax p L i" "bcount p L i"]
      bcount_nonneg [OF assms, of p i] by (auto simp: rep)
qed

lemma dom_Finish:
  assumes "nonneg_entries L"
  shows "dominated (desc (keys L)) (expand (buckets (FinishCollection (collect p L))))"
proof -
  have "dominated (sorted_buckets p L n) (concat (map (bucket_rep p L) (rev [0..<n])))" for n
  proof (induction n)
    case (Suc n)
    have "nonneg (desc (keys (bk p L n)))" "nonneg (bucket_rep p L n)"
      using nonneg_keys [OF nonneg_bk [OF assms]]
      by (auto simp: nonneg_def dest: bucket_rep_mem(2))
    then show ?case
      using dom_append [OF dom_bucket(1) [OF assms] Suc dom_bucket(2) [OF assms]]
        nonneg_bucket_reps by (simp add: sorted_buckets_Suc)
  qed (simp add: dominated_def sorted_buckets_def)
  then show ?thesis by (simp add: expand_Finish sorted_buckets_eq [of p, symmetric])
qed

section \<open>The alignment loop computes the product sum\<close>

definition align_entries :: "(int \<times> real) list \<Rightarrow> (int \<times> real) list \<Rightarrow> entries" where
  "align_entries xs ys = map (\<lambda>(c, d1, d2). (d1 * d2, c)) (align xs 0 0 ys 0 0)"

definition nonneg_buckets :: "(int \<times> real) list \<Rightarrow> bool" where
  "nonneg_buckets bs \<longleftrightarrow> (\<forall>(c, d) \<in> set bs. 0 \<le> c \<and> 0 \<le> d)"

lemma dot_collect:
  "dot a b p = FinishCollection (collect p (align_entries (buckets a) (buckets b)))"
proof -
  have "fold (\<lambda>(c, d1, d2). (\<lambda>result. AddDegree (d1 * d2) c p result)) l s =
      fold (\<lambda>(d, c). AddDegree d c p) (map (\<lambda>(c, d1, d2). (d1 * d2, c)) l) s" for l s
    by (induction l arbitrary: s) auto
  then show ?thesis
    by (simp add: dot_def pair_loop_fold collect_def align_entries_def)
qed

lemma dotp_replicate:
  "dotp (replicate m d1 @ xs) (replicate m d2 @ ys) = of_nat m * (d1 * d2) + dotp xs ys"
  by (induction m) (auto simp: algebra_simps)

lemma expand_fetch:
  assumes "fetch xs c d = Some (xs', c', d')" "0 \<le> c" "0 \<le> d" "nonneg_buckets xs"
  shows "replicate (nat c) d @ expand xs = replicate (nat c') d' @ expand xs'"
    and "0 \<le> c'" "0 \<le> d'" "nonneg_buckets xs'"
  using assms by (auto simp: expand_def nonneg_buckets_def split: if_splits list.splits)

lemma align_mass:
  assumes "0 \<le> c1" "0 \<le> c2" "0 \<le> d1" "0 \<le> d2" "nonneg_buckets xs" "nonneg_buckets ys"
  shows "mass (map (\<lambda>(c, d1, d2). (d1 * d2, c)) (align xs c1 d1 ys c2 d2)) =
      dotp (replicate (nat c1) d1 @ expand xs) (replicate (nat c2) d2 @ expand ys)"
    and "nonneg_entries (map (\<lambda>(c, d1, d2). (d1 * d2, c)) (align xs c1 d1 ys c2 d2))"
proof -
  have "mass (map (\<lambda>(c, d1, d2). (d1 * d2, c)) (align xs c1 d1 ys c2 d2)) =
      dotp (replicate (nat c1) d1 @ expand xs) (replicate (nat c2) d2 @ expand ys) \<and>
    nonneg_entries (map (\<lambda>(c, d1, d2). (d1 * d2, c)) (align xs c1 d1 ys c2 d2))"
    using assms
  proof (induction xs c1 d1 ys c2 d2 rule: pair_loop_induct)
    case (stop1 xs c1 d1 ys c2 d2)
    then show ?case
      by (auto simp: align_simps mass_def expand_def nonneg_entries_def split: if_splits list.splits)
  next
    case (stop2 ys c2 d2 xs c1 d1)
    then show ?case
      by (auto simp: align_simps mass_def expand_def nonneg_entries_def split: if_splits list.splits)
  next
    case (step xs c1 d1 ys c2 d2 xs' e1 f1 ys' e2 f2)
    note x = expand_fetch [OF step.hyps(1) step.prems(1,3,5)]
    note y = expand_fetch [OF step.hyps(2) step.prems(2,4,6)]
    let ?m = "min e1 e2"
    have split: "replicate (nat e) f = replicate (nat ?m) f @ replicate (nat (e - ?m)) f"
      if "?m \<le> e" for e and f :: real
      using that x(2) y(2) by (simp add: replicate_add [symmetric] nat_diff_distrib)
    have "dotp (replicate (nat e1) f1 @ expand xs') (replicate (nat e2) f2 @ expand ys') =
      of_int ?m * (f1 * f2) + dotp (replicate (nat (e1 - ?m)) f1 @ expand xs')
        (replicate (nat (e2 - ?m)) f2 @ expand ys')"
      using split [of e1 f1] split [of e2 f2] x(2) y(2)
      by (simp add: dotp_replicate)
    with step.IH x y step.hyps show ?case
      by (simp add: align_simps mass_def nonneg_entries_def del: fetch.simps)
  qed
  then show "mass (map (\<lambda>(c, d1, d2). (d1 * d2, c)) (align xs c1 d1 ys c2 d2)) =
      dotp (replicate (nat c1) d1 @ expand xs) (replicate (nat c2) d2 @ expand ys)"
    and "nonneg_entries (map (\<lambda>(c, d1, d2). (d1 * d2, c)) (align xs c1 d1 ys c2 d2))"
    by simp_all
qed

lemma GetCard_dot_ge:
  assumes "nonneg_buckets (buckets a)" "nonneg_buckets (buckets b)"
  shows "dotp (expand (buckets a)) (expand (buckets b)) \<le> GetCard (dot a b p)"
  using align_mass [of 0 0 0 0 "buckets a" "buckets b"] assms
    GetCard_collect_lower [of "align_entries (buckets a) (buckets b)" p]
  by (simp add: dot_collect align_entries_def)

section \<open>Properties\<close>

text \<open>The frequencies of the join keys of one column, collected as \<open>AddDegreeForSingleDS\<close> does.\<close>

definition single_ds :: "real \<Rightarrow> real list \<Rightarrow> DegreeSequence" where
  "single_ds p xs = FinishCollection (collect p (map (\<lambda>x. (x, 1)) (filter (\<lambda>x. x \<noteq> 0) xs)))"

lemma nonneg_single: "nonneg xs \<Longrightarrow> nonneg_entries (map (\<lambda>x. (x, 1)) (filter P xs))"
  by (auto simp: nonneg_def nonneg_entries_def)

lemma keys_single: "keys (map (\<lambda>x. (x, 1)) xs) = xs"
  by (induction xs) auto

lemma desc_drop_zeros:
  assumes "nonneg xs"
  shows "desc xs = desc (filter (\<lambda>x. x \<noteq> 0) xs) @ replicate (length (filter (\<lambda>x. x = 0) xs)) 0"
proof (rule desc_unique [symmetric])
  show "sorted_wrt (\<ge>) (desc (filter (\<lambda>x. x \<noteq> 0) xs) @ replicate (length (filter (\<lambda>x. x = 0) xs)) 0)"
    using assms by (auto simp: sorted_wrt_append nonneg_def sorted_wrt_replicate)
  have "replicate (length (filter (\<lambda>x. x = 0) xs)) 0 = filter (\<lambda>x. x = 0) xs"
    by (induction xs) auto
  then show "mset (desc (filter (\<lambda>x. x \<noteq> 0) xs) @ replicate (length (filter (\<lambda>x. x = 0) xs)) 0) = mset xs"
    by (simp add: add.commute)
qed

lemma dominated_single:
  assumes "nonneg xs"
  shows "dominated (desc xs) (expand (buckets (single_ds p xs)))"
proof -
  let ?f = "filter (\<lambda>x. x \<noteq> 0) xs"
  have "sum_list (take k (desc xs)) = sum_list (take k (desc ?f))" for k
    by (subst desc_drop_zeros [OF assms]) simp
  then show ?thesis
    using dom_Finish [OF nonneg_single [OF assms], of "\<lambda>x. x \<noteq> 0" p]
    by (simp add: dominated_def single_ds_def keys_single)
qed

lemma nonneg_buckets_Finish:
  assumes "nonneg_entries L"
  shows "nonneg_buckets (buckets (FinishCollection (collect p L)))"
proof -
  have "0 \<le> adjust_count (mass (bk p L i)) (bmax p L i) (bcount p L i) \<and> 0 \<le> bmax p L i"
    if "kept (bmax p L) (bcount p L) i" for i
    using that bmax_nonneg [of p L i] mass_nonneg [OF nonneg_bk [OF assms]] bcount_nonneg [OF assms]
    by (auto simp: kept_def intro!: adjust_count_nonneg)
  moreover have "buckets (FinishCollection (collect p L)) =
      map (\<lambda>i. (adjust_count (mass (bk p L i)) (bmax p L i) (bcount p L i), bmax p L i))
        (filter (kept (bmax p L) (bcount p L)) (rev [0..<nbuckets p L]))"
    by (simp add: buckets_def collect_eq Finish_bucket_table zip_map_same)
  ultimately show ?thesis by (auto simp: nonneg_buckets_def)
qed

lemma dotp_single_bound:
  assumes "length xs = length ys" "nonneg xs" "nonneg ys"
  shows "dotp xs ys \<le> dotp (expand (buckets (single_ds p xs))) (expand (buckets (single_ds q ys)))"
proof -
  let ?A = "expand (buckets (single_ds p xs))" and ?B = "expand (buckets (single_ds q ys))"
  have A: "sorted_wrt (\<ge>) ?A" "nonneg ?A"
    by (simp_all add: single_ds_def expand_Finish sorted_bucket_reps nonneg_bucket_reps)
  have "dotp xs ys \<le> dotp (desc xs) (desc ys)" using assms by (intro dotp_desc)
  also have "\<dots> \<le> dotp ?A (desc ys)"
    using assms(3) by (intro dotp_mono_dom dominated_single assms(2)) (auto simp: nonneg_def)
  also have "\<dots> = dotp (desc ys) ?A" by (rule dotp_commute)
  also have "\<dots> \<le> dotp ?B ?A" using A by (intro dotp_mono_dom dominated_single assms(3))
  also have "\<dots> = dotp ?A ?B" by (rule dotp_commute)
  finally show ?thesis .
qed

text \<open>
  C1: \<open>DegreeSequence::dot\<close> never underestimates a join. Let \<open>xs\<close> and \<open>ys\<close> be the
  frequencies of the join keys in two columns (key by key, zero where a key is missing). The
  join has \<open>\<Sum> xs\<^sub>i ys\<^sub>i\<close> rows, and the cardinality of the \<open>dot\<close> of the two compressed
  sequences is at least that, for every compression precision.
\<close>

theorem dot_upper_bound:
  assumes "length xs = length ys" "nonneg xs" "nonneg ys"
  shows "dotp xs ys \<le> GetCard (dot (single_ds p xs) (single_ds q ys) r)"
proof -
  have "nonneg_buckets (buckets (single_ds p xs))" "nonneg_buckets (buckets (single_ds q ys))"
    using assms(2,3) by (simp_all add: single_ds_def nonneg_buckets_Finish nonneg_single)
  from GetCard_dot_ge [OF this, of r] dotp_single_bound [OF assms, of p q] show ?thesis by simp
qed

theorem dot_upper_bound_witness:
  "dotp [3, 0, 5] [2, 4, 1] = 11 \<and>
   dotp [3, 0, 5] [2, 4, 1] \<le> GetCard (dot (single_ds 2 [3, 0, 5]) (single_ds 2 [2, 4, 1]) 2)"
proof
  show "dotp [3, 0, 5] [2, 4, 1] = 11" by simp
  show "dotp [3, 0, 5] [2, 4, 1] \<le> GetCard (dot (single_ds 2 [3, 0, 5]) (single_ds 2 [2, 4, 1]) 2)"
    by (rule dot_upper_bound) (simp_all add: nonneg_def)
qed

text \<open>
  Collecting degrees and closing the collection keeps the cardinality: whatever degrees
  and counts were added, the finished sequence reports at least their total, and at most that
  total plus one \<open>maxDegree\<close> per bucket. The correction of the counts by the sums never cuts
  below the true total.
\<close>

theorem collection_card_bounds:
  assumes "nonneg_entries L"
  shows "mass L \<le> GetCard (FinishCollection (collect p L)) \<and>
    GetCard (FinishCollection (collect p L)) \<le> mass L + sum_list (ds_maxDegree (FinishCollection (collect p L)))"
  using GetCard_collect_lower [OF assms] GetCard_collect_upper [OF assms] by blast

theorem collection_card_bounds_witness:
  "mass [(3, 2), (1/2, 4)] = 8 \<and>
   mass [(3, 2), (1/2, 4)] \<le> GetCard (FinishCollection (collect 2 [(3, 2), (1/2, 4)])) \<and>
   GetCard (FinishCollection (collect 2 [(3, 2), (1/2, 4)])) \<le>
     mass [(3, 2), (1/2, 4)] + sum_list (ds_maxDegree (FinishCollection (collect 2 [(3, 2), (1/2, 4)])))"
proof
  show "mass [(3, 2), (1/2, 4)] = 8" by (simp add: mass_def)
qed (rule collection_card_bounds, simp add: nonneg_entries_def)

text \<open>
  The bucket of a degree above 1 under a precision \<open>p > 1\<close> is the one whose range
  \<open>(p ^ (k - 1), p ^ k]\<close> holds the degree, so a bucket overstates a degree by less than the
  factor \<open>p\<close>.
\<close>

theorem bucket_pos_range:
  assumes "1 < p" "1 < d"
  shows "0 < bucket_pos d p \<and> p ^ (bucket_pos d p - 1) < d \<and> d \<le> p ^ bucket_pos d p"
proof -
  let ?x = "ln d / ln p"
  have x: "0 < ?x" using assms by simp
  have k: "real (bucket_pos d p) = of_int \<lceil>?x\<rceil>" "0 < bucket_pos d p"
    using x assms by (simp_all add: bucket_pos_def)
  have d: "p powr ?x = d" using assms by (simp add: powr_def)
  have pw: "p powr real n = p ^ n" for n using assms(1) by (simp add: powr_realpow)
  have "p powr ?x \<le> p powr real (bucket_pos d p)"
    using k(1) assms by (intro powr_mono) auto
  then have up: "d \<le> p ^ bucket_pos d p" unfolding d pw .
  have "real (bucket_pos d p - 1) < ?x" using k by linarith
  then have "p powr real (bucket_pos d p - 1) < p powr ?x"
    using assms by (intro powr_less_mono)
  then have "p ^ (bucket_pos d p - 1) < d" unfolding d pw .
  with up k(2) show ?thesis by blast
qed

theorem bucket_pos_range_witness:
  "0 < bucket_pos 5 2 \<and> (2::real) ^ (bucket_pos 5 2 - 1) < 5 \<and> (5::real) \<le> 2 ^ bucket_pos 5 2"
  by (rule bucket_pos_range) simp_all

end
