(* ===== verification/DSStat_Props.thy ===== *)
theory DSStat_Props
  imports DSStat DegreeSeq_Dot
begin

text \<open>
  Properties of the star degree summaries: the cut to the cardinality, success and result of
  \<open>Merge\<close>, the loss of the central sequence, and the adjustments.
\<close>

section \<open>Cutting a sequence to the cardinality\<close>

lemma limit_buckets_upper:
  assumes "s \<le> crd" "\<forall>(c, d) \<in> set bs. 0 \<le> d"
  shows "s + bucket_sum (limit_buckets crd s bs) \<le> crd"
  using assms
proof (induction crd s bs rule: limit_buckets.induct)
  case (2 crd s c d bs)
  have fl: "of_int \<lfloor>(crd - s) / d\<rfloor> * d \<le> crd - s" if "0 < d"
    using that of_int_floor_le [of "(crd - s) / d"] by (simp add: pos_le_divide_eq del: of_int_floor_le)
  have "0 < d" if "\<not> s + of_int c * d \<le> crd"
    using that "2.prems" by (cases "d = 0") auto
  with fl 2 show ?case by (auto simp: Let_def algebra_simps)
qed simp

lemma limit_buckets_same:
  assumes "s + bucket_sum bs \<le> crd" "\<forall>(c, d) \<in> set bs. 0 \<le> c \<and> 0 \<le> d"
  shows "limit_buckets crd s bs = bs"
  using assms
proof (induction crd s bs rule: limit_buckets.induct)
  case (2 crd s c d bs)
  have nn: "(\<forall>(c, d) \<in> set bs. 0 \<le> c \<and> 0 \<le> d) \<Longrightarrow> 0 \<le> bucket_sum bs"
    by (induction bs) auto
  with 2 have "s + of_int c * d \<le> crd" by auto
  with 2 show ?case by (simp add: algebra_simps)
qed simp

lemma limit_buckets_lower:
  assumes "s \<le> crd" "crd \<le> s + bucket_sum bs" "\<forall>(c, d) \<in> set bs. 0 \<le> d"
  shows "crd - 1 / 10 ^ 6 \<le> s + bucket_sum (limit_buckets crd s bs)"
  using assms
proof (induction crd s bs rule: limit_buckets.induct)
  case (2 crd s c d bs)
  then show ?case by (auto simp: Let_def algebra_simps)
qed simp

lemma buckets_LimitDsToCard [simp]:
  "buckets (LimitDsToCard crd ds) = limit_buckets crd 0 (buckets ds)"
  by (simp add: LimitDsToCard_def buckets_def zip_map_fst_snd)

lemma map_fst_snd_buckets:
  "ds_wf ds \<Longrightarrow> map fst (buckets ds) = ds_count ds \<and> map snd (buckets ds) = ds_maxDegree ds"
  by (simp add: buckets_def ds_wf_def)

section \<open>Frames of the map updates\<close>

lemma upd_ds_simps [simp]:
  "st_card (upd_ds t f s) = st_card s"
  "st_precision (upd_ds t f s) = st_precision s"
  "st_centralDs (upd_ds t f s) = st_centralDs s"
  "st_tables (upd_ds t f s) = st_tables s"
  "dom (st_ds (upd_ds t f s)) = insert t (dom (st_ds s))"
  "ds_at (upd_ds t f s) u = (if u = t then f (ds_at s t) else ds_at s u)"
  by (simp_all add: upd_ds_def ds_at_def)

lemma ds_at_update [simp]:
  "ds_at (s\<lparr>st_centralDs := c\<rparr>) t = ds_at s t"
  "ds_at (s\<lparr>st_card := x\<rparr>) t = ds_at s t"
  "ds_at (s\<lparr>st_card := x, st_centralDs := c\<rparr>) t = ds_at s t"
  by (simp_all add: ds_at_def)

definition same_frame :: "DSStatistic \<Rightarrow> DSStatistic \<Rightarrow> bool" where
  "same_frame s s' \<longleftrightarrow> st_card s' = st_card s \<and> st_precision s' = st_precision s \<and>
     st_centralDs s' = st_centralDs s \<and> st_tables s' = st_tables s \<and>
     dom (st_ds s) \<subseteq> dom (st_ds s')"

lemma same_frame_refl [simp]: "same_frame s s"
  by (simp add: same_frame_def)

lemma same_frame_trans: "same_frame a b \<Longrightarrow> same_frame b c \<Longrightarrow> same_frame a c"
  by (auto simp: same_frame_def)

lemma same_frame_dom: "same_frame s s' \<Longrightarrow> A \<subseteq> dom (st_ds s) \<Longrightarrow> A \<subseteq> dom (st_ds s')"
  by (auto simp: same_frame_def)

lemma same_frame_upd [simp, intro]: "same_frame s (upd_ds t f s)"
  by (auto simp: same_frame_def)

text \<open>Sequences under construction: the vectors have one length and no degree is negative.\<close>

definition ds_open :: "DegreeSequence \<Rightarrow> bool" where
  "ds_open ds \<longleftrightarrow> ds_collecting ds \<and> nonneg (ds_maxDegree ds)"

definition all_open :: "DSStatistic \<Rightarrow> bool" where
  "all_open s \<longleftrightarrow> (\<forall>t. ds_open (ds_at s t))"

lemma nonneg_list_update: "nonneg xs \<Longrightarrow> 0 \<le> v \<Longrightarrow> nonneg (xs[i := v])"
  using set_update_subset_insert by (fastforce simp: nonneg_def)

lemma nonneg_resize: "nonneg xs \<Longrightarrow> nonneg (resize n 0 xs)"
  by (auto simp: nonneg_def resize_def dest: in_set_takeD)

lemma nonneg_nth: "nonneg xs \<Longrightarrow> i < length xs \<Longrightarrow> 0 \<le> xs ! i"
  by (simp add: nonneg_def)

lemma AddDegree_open [simp]: "ds_open ds \<Longrightarrow> ds_open (AddDegree d c p ds)"
proof -
  assume o: "ds_open ds"
  let ?m = "if length (ds_maxDegree ds) \<le> bucket_pos d p
    then resize (bucket_pos d p + 1) 0 (ds_maxDegree ds) else ds_maxDegree ds"
  have m: "nonneg ?m" "bucket_pos d p < length ?m"
    using o nonneg_resize by (auto simp: ds_open_def)
  have "ds_maxDegree (AddDegree d c p ds) = ?m[bucket_pos d p := max (?m ! bucket_pos d p) d]"
    by (simp add: AddDegree_def Let_def)
  moreover have "0 \<le> max (?m ! bucket_pos d p) d"
    using nonneg_nth [OF m] by (simp add: le_max_iff_disj del: Suc_eq_plus1)
  ultimately have "nonneg (ds_maxDegree (AddDegree d c p ds))"
    using nonneg_list_update m(1) by presburger
  with o show ?thesis by (simp add: ds_open_def)
qed

lemma empty_DS_open [simp]: "ds_open empty_DS"
  by (simp add: ds_open_def) (simp add: nonneg_def empty_DS_def)

lemma all_open_upd: "all_open s \<Longrightarrow> (ds_open (ds_at s t) \<Longrightarrow> ds_open (f (ds_at s t))) \<Longrightarrow> all_open (upd_ds t f s)"
  by (auto simp: all_open_def)

section \<open>The edge cursors\<close>

lemma edge_step_open:
  assumes "ds_open nd"
  shows "(case edge_step p g r c m e nd of Next r' e' nd' \<Rightarrow> ds_open nd' | Break e' nd' \<Rightarrow> ds_open nd')"
  using assms by (simp add: edge_step_def edge_counts_def edge_fresh_def Let_def)

lemma edge_loop_open: "ds_open nd \<Longrightarrow> ds_open (snd (edge_loop p g r bs e nd))"
proof (induction p g r bs e nd rule: edge_loop.induct)
  case (2 p g r c m bs e nd)
  show ?case
    using 2 edge_step_open [OF "2.prems", of p g r c m e]
    by (cases "edge_step p g r c m e nd") auto
qed simp

lemma MergeEdge_loop_ok:
  assumes "length es = length ts" "set ts \<subseteq> dom (st_ds old)" "all_open s"
  shows "\<exists>es' s'. MergeEdge_loop row g old ts es s = Inr (es', s') \<and>
    length es' = length es \<and> same_frame s s' \<and> all_open s'"
  using assms
proof (induction row g old ts es s rule: MergeEdge_loop.induct)
  case (3 row g old t ts e es s)
  obtain oldDs where od: "st_ds old t = Some oldDs" using "3.prems"(2) by auto
  obtain e' nd where el: "edge_loop (st_precision s) g row (drop (e_pos e) (buckets oldDs)) e (ds_at s t) = (e', nd)"
    by (metis surj_pair)
  have "ds_open (ds_at s t)" using "3.prems"(3) by (simp add: all_open_def)
  from edge_loop_open [OF this] el have "ds_open nd" by (metis snd_conv)
  then have "all_open (upd_ds t (\<lambda>_. nd) s)" using "3.prems"(3) by (intro all_open_upd)
  with "3.IH" [OF el [symmetric]] "3.prems"
  obtain es' s' where r: "MergeEdge_loop row g old ts es (upd_ds t (\<lambda>_. nd) s) = Inr (es', s')"
      "length es' = length es" "same_frame (upd_ds t (\<lambda>_. nd) s) s'" "all_open s'"
    by auto
  have "same_frame s s'" using r(3) same_frame_trans same_frame_upd by blast
  then show ?case using r od el by simp
qed simp_all

lemma AddCurDegree_loop_ok:
  assumes "length es = length ts" "all_open s"
  shows "\<exists>s'. AddCurDegree_loop ts es s = Inr s' \<and> same_frame s s' \<and> all_open s'"
  using assms
proof (induction ts es s rule: AddCurDegree_loop.induct)
  case (3 t ts e es s)
  let ?s = "upd_ds t (AddDegree (e_curDegree e) 1 (st_precision s)) s"
  have "all_open ?s" using "3.prems"(2) by (intro all_open_upd) auto
  with 3 obtain s' where "AddCurDegree_loop ts es ?s = Inr s'" "same_frame ?s s'" "all_open s'"
    by auto
  then show ?case using same_frame_trans [OF same_frame_upd] by auto
qed simp_all

section \<open>\<open>Merge\<close> succeeds, and its cardinality is the product sum\<close>

definition stat_wf :: "DSStatistic \<Rightarrow> bool" where
  "stat_wf s \<longleftrightarrow> distinct (st_tables s) \<and> set (st_tables s) \<subseteq> dom (st_ds s)"

definition merge_inv :: "DSStatistic \<Rightarrow> DSStatistic \<Rightarrow> DSStatistic \<Rightarrow> merge_state \<Rightarrow> bool" where
  "merge_inv this other new0 m \<longleftrightarrow>
     length (m_edges1 m) = length (st_tables this) - 1 \<and>
     length (m_edges2 m) = length (st_tables other) - 1 \<and>
     same_frame new0 (m_stat m) \<and> all_open (m_stat m)"

lemma length_filter_others:
  "distinct ts \<Longrightarrow> t \<in> set ts \<Longrightarrow> length (filter (\<lambda>u. u \<noteq> t) ts) = length ts - 1"
proof -
  assume "distinct ts" "t \<in> set ts"
  then have "filter (\<lambda>u. u \<noteq> t) ts = remove1 t ts"
    by (simp add: distinct_remove1_removeAll removeAll_filter_not_eq eq_commute)
  then show ?thesis using \<open>t \<in> set ts\<close> by (simp add: length_remove1)
qed

lemma MergeEdge_ok:
  assumes "stat_wf old" "t \<in> set (st_tables old)" "length es = length (st_tables old) - 1" "all_open s"
  shows "\<exists>es' s'. MergeEdgeDegreeSequences old t row g es s = Inr (es', s') \<and>
    length es' = length es \<and> same_frame s s' \<and> all_open s'"
  unfolding MergeEdgeDegreeSequences_def
  using assms length_filter_others [of "st_tables old" t]
  by (intro MergeEdge_loop_ok) (auto simp: stat_wf_def)

lemma Merge_body_ok:
  assumes wf: "stat_wf this" "t \<in> set (st_tables this)" "stat_wf other" "t \<in> set (st_tables other)"
    and inv: "merge_inv this other n0 m"
  shows "\<exists>m'. Merge_body this other t c d1 d2 m = Inr m' \<and> merge_inv this other n0 m' \<and>
    m_card m' = m_card m + of_int c * d1 * d2"
proof -
  let ?s = "upd_ds t (AddDegree (d1 * d2) c (st_precision (m_stat m))) (m_stat m)"
  have s: "all_open ?s" "same_frame n0 ?s"
    using inv same_frame_trans [OF _ same_frame_upd] by (auto simp: merge_inv_def intro: all_open_upd)
  have len: "length (m_edges1 m) = length (st_tables this) - 1"
      "length (m_edges2 m) = length (st_tables other) - 1"
    using inv by (simp_all add: merge_inv_def)
  obtain es1 s1 where e1: "MergeEdgeDegreeSequences this t (d1 * of_int c) d2 (m_edges1 m) ?s = Inr (es1, s1)"
      "length es1 = length (m_edges1 m)" "same_frame ?s s1" "all_open s1"
    using MergeEdge_ok [OF wf(1,2) len(1) s(1)] by blast
  obtain es2 s2 where e2: "MergeEdgeDegreeSequences other t (d2 * of_int c) d1 (m_edges2 m) s1 = Inr (es2, s2)"
      "length es2 = length (m_edges2 m)" "same_frame s1 s2" "all_open s2"
    using MergeEdge_ok [OF wf(3,4) len(2) e1(4)] by blast
  have "same_frame n0 s2" using s(2) e1(3) e2(3) same_frame_trans by blast
  then show ?thesis
    using e1 e2 inv by (simp add: Merge_body_def merge_inv_def)
qed

lemma Merge_loop_ok:
  assumes wf: "stat_wf this" "t \<in> set (st_tables this)" "stat_wf other" "t \<in> set (st_tables other)"
    and inv: "merge_inv this other n0 m"
  shows "\<exists>m'. fold (\<lambda>(c, d1, d2) r. res_bind r (Merge_body this other t c d1 d2)) l (Inr m) = Inr m' \<and>
    merge_inv this other n0 m' \<and>
    m_card m' = m_card m + mass (map (\<lambda>(c, d1, d2). (d1 * d2, c)) l)"
  using inv
proof (induction l arbitrary: m)
  case (Cons x l)
  obtain c d1 d2 where x: "x = (c, d1, d2)" by (cases x)
  obtain m1 where m1: "Merge_body this other t c d1 d2 m = Inr m1" "merge_inv this other n0 m1"
      "m_card m1 = m_card m + of_int c * d1 * d2"
    using Merge_body_ok [OF wf Cons.prems] by blast
  from Cons.IH [OF m1(2)] m1 show ?case by (auto simp: x mass_def algebra_simps)
qed (simp add: mass_def)

definition ds_closed :: "DegreeSequence \<Rightarrow> bool" where
  "ds_closed ds \<longleftrightarrow> ds_wf ds \<and> nonneg (ds_maxDegree ds)"

lemma FinishCollection_closed: "ds_open ds \<Longrightarrow> ds_closed (FinishCollection ds)"
  by (fastforce simp: ds_open_def ds_closed_def nonneg_def FinishCollection_def Let_def ds_wf_def
      dest: in_set_zipE)

lemma closed_buckets: "ds_closed ds \<Longrightarrow> \<forall>(c, d) \<in> set (buckets ds). 0 \<le> d"
  by (auto simp: ds_closed_def nonneg_def buckets_def dest: set_zip_rightD)

lemma limit_buckets_nonneg:
  "\<forall>(c, d) \<in> set bs. 0 \<le> d \<Longrightarrow> (c, d) \<in> set (limit_buckets crd s bs) \<Longrightarrow> 0 \<le> d"
  by (induction crd s bs rule: limit_buckets.induct)
     (auto simp: Let_def field_simps split: if_splits)

lemma LimitDsToCard_closed: "ds_closed ds \<Longrightarrow> ds_closed (LimitDsToCard crd ds)"
  using limit_buckets_nonneg [OF closed_buckets]
  by (fastforce simp: ds_closed_def ds_wf_def nonneg_def LimitDsToCard_def)

lemma fold_upd_frame: "same_frame s (fold (\<lambda>t s. upd_ds t (f s) s) ts s)"
proof (induction ts arbitrary: s)
  case (Cons t ts)
  show ?case using same_frame_trans [OF same_frame_upd Cons.IH] by simp
qed simp

lemma LimitAll_frame: "same_frame s (LimitAllDsToCard s)"
  unfolding LimitAllDsToCard_def by (rule fold_upd_frame)

text \<open>Every sequence of a listed table is cut to the cardinality of the statistic.\<close>

lemma LimitAll_bound:
  assumes "\<And>t. t \<in> set (st_tables s) \<Longrightarrow> ds_closed (ds_at s t)" "0 \<le> st_card s" "t \<in> set (st_tables s)"
  shows "GetCard (ds_at (LimitAllDsToCard s) t) \<le> st_card s"
    and "ds_closed (ds_at (LimitAllDsToCard s) t)"
proof -
  have "set ts \<subseteq> set (st_tables s) \<Longrightarrow> st_card s' = st_card s \<Longrightarrow>
      (\<forall>u \<in> set (st_tables s). ds_closed (ds_at s' u)) \<Longrightarrow>
      (\<forall>u \<in> done. GetCard (ds_at s' u) \<le> st_card s) \<Longrightarrow>
      (\<forall>u \<in> set (st_tables s). ds_closed (ds_at (fold (\<lambda>t s. upd_ds t (LimitDsToCard (st_card s)) s) ts s') u)) \<and>
      (\<forall>u \<in> done \<union> set ts. GetCard (ds_at (fold (\<lambda>t s. upd_ds t (LimitDsToCard (st_card s)) s) ts s') u) \<le> st_card s)"
    for ts s' "done"
  proof (induction ts arbitrary: s' "done")
    case (Cons a ts)
    have "GetCard (LimitDsToCard (st_card s) (ds_at s' a)) \<le> st_card s"
      using limit_buckets_upper [of 0 "st_card s" "buckets (ds_at s' a)"] Cons.prems assms(2)
        closed_buckets by (auto simp: GetCard_def)
    with Cons.prems LimitDsToCard_closed
      Cons.IH [of "upd_ds a (LimitDsToCard (st_card s')) s'" "insert a done"]
    show ?case by auto
  qed simp
  from this [of "st_tables s" s "{}"] assms
  show "GetCard (ds_at (LimitAllDsToCard s) t) \<le> st_card s"
    "ds_closed (ds_at (LimitAllDsToCard s) t)"
    by (auto simp: LimitAllDsToCard_def)
qed

lemma stat_Finish_ok:
  assumes "distinct (st_tables s)" "all_open s" "ds_open (st_centralDs s)" "0 \<le> st_card s"
    "set (st_tables s) \<subseteq> dom (st_ds s)"
  shows "\<exists>s'. stat_FinishCollection s = Inr s' \<and> st_card s' = st_card s \<and>
    st_tables s' = st_tables s \<and> st_precision s' = st_precision s \<and>
    set (st_tables s) \<subseteq> dom (st_ds s') \<and>
    (st_centralDs s = empty_DS \<longrightarrow> buckets (st_centralDs s') = []) \<and> (\<forall>t \<in> set (st_tables s). ds_closed (ds_at s' t))"
proof -
  let ?f = "\<lambda>t s. if ds_collecting (ds_at s t) then Inr (upd_ds t FinishCollection s)
    else Inl (Undefined ''sum[i]'')"
  have "distinct ts \<Longrightarrow> (\<forall>t \<in> set ts. ds_open (ds_at u t)) \<Longrightarrow> (\<forall>t \<in> done. ds_closed (ds_at u t)) \<Longrightarrow>
      done \<inter> set ts = {} \<Longrightarrow>
      \<exists>u'. res_fold ?f ts u = Inr u' \<and> same_frame u u' \<and> (\<forall>t \<in> done \<union> set ts. ds_closed (ds_at u' t))"
    for ts "done" and u :: DSStatistic
  proof (induction ts arbitrary: u "done")
    case (Cons a ts)
    let ?u = "upd_ds a FinishCollection u"
    have "\<exists>u'. res_fold ?f ts ?u = Inr u' \<and> same_frame ?u u' \<and>
        (\<forall>t \<in> insert a done \<union> set ts. ds_closed (ds_at u' t))"
      using Cons.prems FinishCollection_closed by (intro Cons.IH) auto
    then show ?case
      using Cons.prems same_frame_trans [OF same_frame_upd] by (auto simp: ds_open_def)
  qed auto
  from this [of "st_tables s" s "{}"] assms(1,2) obtain u where
    u: "res_fold ?f (st_tables s) s = Inr u" "same_frame s u"
      "\<forall>t \<in> set (st_tables s). ds_closed (ds_at u t)"
    by (auto simp: all_open_def)
  let ?v = "u\<lparr>st_centralDs := FinishCollection (st_centralDs u)\<rparr>"
  have "same_frame ?v (LimitAllDsToCard ?v)" by (rule LimitAll_frame)
  then have v: "st_card (LimitAllDsToCard ?v) = st_card s" "st_tables (LimitAllDsToCard ?v) = st_tables s"
      "st_precision (LimitAllDsToCard ?v) = st_precision s"
      "st_centralDs (LimitAllDsToCard ?v) = FinishCollection (st_centralDs s)"
    using u(2) by (simp_all add: same_frame_def)
  have v5: "set (st_tables s) \<subseteq> dom (st_ds (LimitAllDsToCard ?v))"
  proof (rule same_frame_dom [OF \<open>same_frame ?v (LimitAllDsToCard ?v)\<close>])
    show "set (st_tables s) \<subseteq> dom (st_ds ?v)" using same_frame_dom [OF u(2) assms(5)] by simp
  qed
  have "\<forall>t \<in> set (st_tables s). ds_closed (ds_at (LimitAllDsToCard ?v) t)"
    using LimitAll_bound(2) [of ?v] u assms(4) by (auto simp: same_frame_def ds_at_def)
  moreover have "buckets (FinishCollection empty_DS) = []"
    by (simp add: buckets_def FinishCollection_def empty_DS_def)
  moreover have "ds_collecting (st_centralDs u)"
    using u(2) assms(3) by (simp add: same_frame_def ds_open_def)
  ultimately show ?thesis using u(1) v v5 by (auto simp: stat_FinishCollection_def ds_at_def)
qed

lemma set_merge_tables: "set (merge_tables ts ts') = set ts \<union> set ts'"
  unfolding merge_tables_def by (induction ts' arbitrary: ts) auto

lemma distinct_merge_tables: "distinct ts \<Longrightarrow> distinct (merge_tables ts ts')"
  unfolding merge_tables_def by (induction ts' arbitrary: ts) auto

lemma DSStatistic_tables_simps [simp]:
  "st_card (DSStatistic_tables ts p) = 0"
  "st_precision (DSStatistic_tables ts p) = p"
  "st_centralDs (DSStatistic_tables ts p) = empty_DS"
  "st_tables (DSStatistic_tables ts p) = ts"
  "dom (st_ds (DSStatistic_tables ts p)) = set ts"
  "ds_at (DSStatistic_tables ts p) t = empty_DS"
proof -
  have "dom (fold (\<lambda>t m. m(t \<mapsto> empty_DS)) ts m) = dom m \<union> set ts" for m
    by (induction ts arbitrary: m) auto
  then show "dom (st_ds (DSStatistic_tables ts p)) = set ts" by (simp add: DSStatistic_tables_def)
  have "(\<And>t. m t = None \<or> m t = Some empty_DS) \<Longrightarrow>
      (fold (\<lambda>t m. m(t \<mapsto> empty_DS)) ts m) t = None \<or> (fold (\<lambda>t m. m(t \<mapsto> empty_DS)) ts m) t = Some empty_DS" for m
    by (induction ts arbitrary: m) auto
  from this [of Map.empty] show "ds_at (DSStatistic_tables ts p) t = empty_DS"
    by (auto simp: DSStatistic_tables_def ds_at_def split: option.splits)
qed (simp_all add: DSStatistic_tables_def)

lemma Merge_ok:
  assumes wf: "stat_wf this" "t \<in> set (st_tables this)" "stat_wf other" "t \<in> set (st_tables other)"
    and ds: "st_ds this t = Some ds1" "st_ds other t = Some ds2"
    and nn: "nonneg_buckets (buckets ds1)" "nonneg_buckets (buckets ds2)"
  shows "\<exists>s. Merge this other t = Inr s \<and>
    st_card s = dotp (expand (buckets ds1)) (expand (buckets ds2)) \<and>
    st_tables s = merge_tables (st_tables this) (st_tables other) \<and> stat_wf s \<and>
    buckets (st_centralDs s) = [] \<and>
    (\<forall>u \<in> set (st_tables s). ds_closed (ds_at s u) \<and> GetCard (ds_at s u) \<le> st_card s)"
proof -
  let ?new = "upd_ds t (\<lambda>d. d) (DSStatistic_tables (merge_tables (st_tables this) (st_tables other)) (st_precision this))"
  let ?m0 = "\<lparr>m_card = 0, m_stat = ?new,
    m_edges1 = replicate (length (st_tables this) - 1) edge_init,
    m_edges2 = replicate (length (st_tables other) - 1) edge_init\<rparr>"
  let ?l = "align (buckets ds1) 0 0 (buckets ds2) 0 0"
  have "merge_inv this other ?new ?m0" by (simp add: merge_inv_def all_open_def)
  from Merge_loop_ok [OF wf this, of ?l] obtain m where
    m: "fold (\<lambda>(c, d1, d2) r. res_bind r (Merge_body this other t c d1 d2)) ?l (Inr ?m0) = Inr m"
       "merge_inv this other ?new m" "m_card m = mass (map (\<lambda>(c, d1, d2). (d1 * d2, c)) ?l)"
    by auto
  have loop: "pair_loop (\<lambda>c d1 d2 r. res_bind r (Merge_body this other t c d1 d2))
      (buckets ds1) 0 0 (buckets ds2) 0 0 (Inr ?m0) = Inr m"
    using m(1) by (simp add: pair_loop_fold case_prod_unfold)
  note am = align_mass [of 0 0 0 0 "buckets ds1" "buckets ds2", simplified, OF nn]
  have crd: "m_card m = dotp (expand (buckets ds1)) (expand (buckets ds2))" "0 \<le> m_card m"
    using m(3) am(1) mass_nonneg [OF am(2)] by simp_all
  have lens: "length (m_edges1 m) = length (filter (\<lambda>u. u \<noteq> t) (st_tables this))"
      "length (m_edges2 m) = length (filter (\<lambda>u. u \<noteq> t) (st_tables other))"
    using m(2) wf by (simp_all add: merge_inv_def stat_wf_def length_filter_others)
  obtain s1 where s1: "AddCurDegree this t (m_edges1 m) (m_stat m) = Inr s1" "same_frame (m_stat m) s1" "all_open s1"
    using AddCurDegree_loop_ok [OF lens(1), of "m_stat m"] m(2) by (auto simp: AddCurDegree_def merge_inv_def)
  obtain s2 where s2: "AddCurDegree other t (m_edges2 m) s1 = Inr s2" "same_frame s1 s2" "all_open s2"
    using AddCurDegree_loop_ok [OF lens(2) s1(3)] by (auto simp: AddCurDegree_def)
  have fr: "same_frame ?new s2"
    using m(2) s1(2) s2(2) same_frame_trans by (metis merge_inv_def)
  let ?s2 = "s2\<lparr>st_card := m_card m\<rparr>"
  have ao: "all_open ?s2" using s2(3) by (simp add: all_open_def ds_at_def)
  obtain s3 where s3: "stat_FinishCollection ?s2 = Inr s3" "st_card s3 = m_card m"
      "st_tables s3 = merge_tables (st_tables this) (st_tables other)"
      "set (st_tables s3) \<subseteq> dom (st_ds s3)"
      "buckets (st_centralDs s3) = []" "\<forall>t \<in> set (st_tables s3). ds_closed (ds_at s3 t)"
    using stat_Finish_ok [of ?s2] ao fr crd(2) wf
    by (auto simp: same_frame_def stat_wf_def distinct_merge_tables)
  have nonempty: "st_tables this \<noteq> []" "st_tables other \<noteq> []" using wf by auto
  have "Merge this other t = Inr (LimitAllDsToCard s3)"
    using ds loop s1(1) s2(1) s3(1) nonempty by (simp add: Merge_def Let_def)
  moreover have f3: "same_frame s3 (LimitAllDsToCard s3)" by (rule LimitAll_frame)
  moreover have "stat_wf (LimitAllDsToCard s3)"
    using f3 s3(3) same_frame_dom [OF f3 s3(4)] wf
    by (simp add: same_frame_def stat_wf_def distinct_merge_tables)
  moreover have "\<forall>u \<in> set (st_tables s3).
      ds_closed (ds_at (LimitAllDsToCard s3) u) \<and> GetCard (ds_at (LimitAllDsToCard s3) u) \<le> st_card s3"
    using LimitAll_bound [of s3] s3(2,6) crd(2) by simp
  ultimately show ?thesis
    using s3(2,3,5) crd(1) by (simp add: same_frame_def)
qed

section \<open>Point-wise updates\<close>

lemma ds_at_fold_upd:
  "distinct ts \<Longrightarrow> ds_at (fold (\<lambda>t. upd_ds t f) ts s) u = (if u \<in> set ts then f (ds_at s u) else ds_at s u)"
  by (induction ts arbitrary: s) auto

lemma fold_upd_card: "fold (\<lambda>t s. upd_ds t (LimitDsToCard (st_card s)) s) ts s =
    fold (\<lambda>t. upd_ds t (LimitDsToCard (st_card s))) ts s"
proof -
  have "st_card s = c \<Longrightarrow> fold (\<lambda>t s. upd_ds t (LimitDsToCard (st_card s)) s) ts s =
      fold (\<lambda>t. upd_ds t (LimitDsToCard c)) ts s" for c
    by (induction ts arbitrary: s) auto
  then show ?thesis by simp
qed

lemma ds_at_LimitAll:
  "distinct (st_tables s) \<Longrightarrow> u \<in> set (st_tables s) \<Longrightarrow>
   ds_at (LimitAllDsToCard s) u = LimitDsToCard (st_card s) (ds_at s u)"
  by (simp add: LimitAllDsToCard_def fold_upd_card ds_at_fold_upd)

lemma bucket_sum_affine:
  "length cs = length ms \<Longrightarrow> bucket_sum (zip cs (map (\<lambda>d. d * k + a) ms)) =
     k * bucket_sum (zip cs ms) + a * of_int (sum_list cs)"
  by (induction cs ms rule: list_induct2) (auto simp: algebra_simps)

lemma bucket_sum_append: "bucket_sum (xs @ ys) = bucket_sum xs + bucket_sum ys"
  by (induction xs rule: bucket_sum.induct) auto

text \<open>Averaging interpolates linearly between the sequence and the uniform distribution.\<close>

lemma GetCard_adjust_ds:
  assumes "ds_wf ds" "0 < n" "sum_list (ds_count ds) \<le> n" "k \<le> 1" "0 \<le> crd"
  shows "GetCard (adjust_ds crd n k ds) = k * GetCard ds + (1 - k) * crd"
proof -
  let ?a = "crd / of_int n * (1 - k)"
  let ?z = "n - sum_list (ds_count ds)"
  have base: "bucket_sum (zip (ds_count ds) (map (\<lambda>d. d * k + ?a) (ds_maxDegree ds))) =
      k * GetCard ds + ?a * of_int (sum_list (ds_count ds))"
    using assms(1) by (simp add: bucket_sum_affine GetCard_def buckets_def ds_wf_def)
  have tot: "?a * of_int (sum_list (ds_count ds)) + ?a * of_int ?z = (1 - k) * crd"
    using assms(2) by (simp add: field_simps)
  have a: "0 \<le> ?a" using assms by simp
  show ?thesis
  proof (cases "0 < ?z \<and> 0 < ?a")
    case True
    then have "GetCard (adjust_ds crd n k ds) =
        bucket_sum (zip (ds_count ds) (map (\<lambda>d. d * k + ?a) (ds_maxDegree ds))) + of_int ?z * ?a"
      using assms(1) by (simp add: adjust_ds_def Let_def ds_wf_def GetCard_def buckets_def bucket_sum_append)
    then show ?thesis using base tot by (simp add: mult.commute)
  next
    case False
    then have "?a * of_int ?z = 0" using a assms(3) by auto
    moreover have "GetCard (adjust_ds crd n k ds) =
        bucket_sum (zip (ds_count ds) (map (\<lambda>d. d * k + ?a) (ds_maxDegree ds)))"
      using assms(1) False by (auto simp: adjust_ds_def Let_def ds_wf_def GetCard_def buckets_def)
    ultimately show ?thesis using base tot by linarith
  qed
qed

lemma nonneg_buckets_adjust:
  assumes "ds_wf ds" "nonneg_buckets (buckets ds)" "0 < n" "0 \<le> k" "k \<le> 1" "0 \<le> crd"
  shows "nonneg_buckets (buckets (adjust_ds crd n k ds))"
proof -
  have d: "0 \<le> c \<and> 0 \<le> d * k + crd / of_int n * (1 - k)"
    if "(c, d) \<in> set (zip (ds_count ds) (ds_maxDegree ds))" for c d
    using that assms by (fastforce simp: nonneg_buckets_def buckets_def)
  have "zip (ds_count ds) (map f (ds_maxDegree ds)) =
      map (\<lambda>(c, d). (c, f d)) (zip (ds_count ds) (ds_maxDegree ds))" for f :: "real \<Rightarrow> real"
    by (simp add: zip_map2)
  then show ?thesis
    using d assms(1) by (auto simp: nonneg_buckets_def adjust_ds_def Let_def buckets_def ds_wf_def)
qed

section \<open>Properties\<close>

text \<open>
  C2: Merging two star summaries over a shared table never underestimates. If the shared
  table's sequences were collected from the key frequencies \<open>xs\<close> and \<open>ys\<close>, \<open>Merge\<close>
  succeeds, its cardinality is at least the size \<open>\<Sum> xs\<^sub>i ys\<^sub>i\<close> of the join, the tables of the
  result are those of both sides, and every sequence it keeps is cut to that cardinality.
\<close>

theorem Merge_upper_bound:
  assumes "stat_wf this" "t \<in> set (st_tables this)" "stat_wf other" "t \<in> set (st_tables other)"
    and "st_ds this t = Some (single_ds p xs)" "st_ds other t = Some (single_ds q ys)"
    and "length xs = length ys" "nonneg xs" "nonneg ys"
  shows "\<exists>s. Merge this other t = Inr s \<and> stat_wf s \<and> dotp xs ys \<le> st_card s \<and>
    set (st_tables s) = set (st_tables this) \<union> set (st_tables other) \<and>
    (\<forall>u \<in> set (st_tables s). GetCard (ds_at s u) \<le> st_card s)"
proof -
  have nn: "nonneg_buckets (buckets (single_ds p xs))" "nonneg_buckets (buckets (single_ds q ys))"
    using assms(8,9) by (simp_all add: single_ds_def nonneg_buckets_Finish nonneg_single)
  from Merge_ok [OF assms(1-6) nn] dotp_single_bound [OF assms(7-9), of p q]
  show ?thesis by (auto simp: set_merge_tables)
qed

definition stat_xy :: "real list \<Rightarrow> Table \<Rightarrow> DSStatistic" where
  "stat_xy xs u = \<lparr>st_card = sum_list xs, st_precision = 2, st_centralDs = single_ds 2 xs,
     st_ds = [''t'' \<mapsto> single_ds 2 xs, u \<mapsto> empty_DS], st_tables = [''t'', u]\<rparr>"

theorem Merge_upper_bound_witness:
  "\<exists>s. Merge (stat_xy [3, 1] ''a'') (stat_xy [2, 2] ''b'') ''t'' = Inr s \<and> stat_wf s \<and>
    dotp [3, 1] [2, 2] \<le> st_card s \<and>
    set (st_tables s) = set (st_tables (stat_xy [3, 1] ''a'')) \<union> set (st_tables (stat_xy [2, 2] ''b'')) \<and>
    (\<forall>u \<in> set (st_tables s). GetCard (ds_at s u) \<le> st_card s)"
  by (rule Merge_upper_bound [where p = 2 and q = 2]) (simp_all add: stat_xy_def stat_wf_def nonneg_def)

text \<open>
  C3: \<open>MergeByCenter\<close> drops the central sequence of its result, so joining a third piece of a
  split star gives cardinality zero: whatever the three statistics are, the first
  \<open>MergeByCenter\<close> succeeds with the product sum of the two central sequences, and a second
  one on its result succeeds with cardinality 0.
\<close>

theorem MergeByCenter_twice_zero:
  assumes wf: "stat_wf a" "stat_wf b" "stat_wf c"
    and fresh: "center_table \<notin> set (st_tables a)" "center_table \<notin> set (st_tables b)"
      "center_table \<notin> set (st_tables c)"
    and nn: "nonneg_buckets (buckets (st_centralDs a))" "nonneg_buckets (buckets (st_centralDs b))"
      "nonneg_buckets (buckets (st_centralDs c))"
  shows "\<exists>s s'. MergeByCenter a b = Inr s \<and>
    st_card s = dotp (expand (buckets (st_centralDs a))) (expand (buckets (st_centralDs b))) \<and>
    MergeByCenter s c = Inr s' \<and> st_card s' = 0"
proof -
  have wc: "stat_wf (with_center x) \<and> center_table \<in> set (st_tables (with_center x)) \<and>
      st_ds (with_center x) center_table = Some (st_centralDs x)"
    if "stat_wf x" "center_table \<notin> set (st_tables x)" for x
    using that by (auto simp: with_center_def stat_wf_def)
  note A = wc [OF wf(1) fresh(1)] and B = wc [OF wf(2) fresh(2)] and C = wc [OF wf(3) fresh(3)]
  obtain m where m: "Merge (with_center a) (with_center b) center_table = Inr m"
      "st_card m = dotp (expand (buckets (st_centralDs a))) (expand (buckets (st_centralDs b)))"
      "stat_wf m" "buckets (st_centralDs m) = []"
    using Merge_ok [of "with_center a" center_table "with_center b"] A B nn(1,2) by blast
  define s where "s = m\<lparr>st_tables := remove1 center_table (st_tables m),
      st_ds := (st_ds m)(center_table := None)\<rparr>"
  have ab: "MergeByCenter a b = Inr s" "st_card s = st_card m" "buckets (st_centralDs s) = []"
    using m by (simp_all add: MergeByCenter_def s_def)
  have "stat_wf s" "center_table \<notin> set (st_tables s)"
    using m(3) by (auto simp: s_def stat_wf_def set_remove1_eq)
  from wc [OF this] have S: "stat_wf (with_center s)" "center_table \<in> set (st_tables (with_center s))"
      "st_ds (with_center s) center_table = Some (st_centralDs s)"
    by simp_all
  have "nonneg_buckets (buckets (st_centralDs s))" using ab(3) by (simp add: nonneg_buckets_def)
  obtain m' where m': "Merge (with_center s) (with_center c) center_table = Inr m'"
      "st_card m' = dotp (expand (buckets (st_centralDs s))) (expand (buckets (st_centralDs c)))"
    using Merge_ok [of "with_center s" center_table "with_center c", OF S(1,2) _ _ S(3)] C nn(3)
      \<open>nonneg_buckets (buckets (st_centralDs s))\<close> by blast
  have "st_card m' = 0" using m'(2) ab(3) by (simp add: expand_def)
  then show ?thesis using ab m(2) m'(1) by (auto simp: MergeByCenter_def)
qed

definition piece :: "Table \<Rightarrow> DSStatistic" where
  "piece u = \<lparr>st_card = 6, st_precision = 2,
     st_centralDs = \<lparr>ds_maxDegree = [2], ds_count = [3], ds_sum = []\<rparr>,
     st_ds = [u \<mapsto> \<lparr>ds_maxDegree = [2], ds_count = [3], ds_sum = []\<rparr>], st_tables = [u]\<rparr>"

theorem MergeByCenter_twice_zero_witness:
  "\<exists>s s'. MergeByCenter (piece ''a'') (piece ''b'') = Inr s \<and> st_card s = 12 \<and>
     MergeByCenter s (piece ''c'') = Inr s' \<and> st_card s' = 0"
proof -
  have c: "dotp (expand (buckets (st_centralDs (piece ''a'')))) (expand (buckets (st_centralDs (piece ''b'')))) = 12"
    by (simp add: piece_def buckets_def expand_def numeral_eq_Suc)
  have "stat_wf (piece u) \<and> nonneg_buckets (buckets (st_centralDs (piece u)))" for u
    by (simp add: piece_def stat_wf_def buckets_def nonneg_buckets_def)
  moreover have "center_table \<notin> set (st_tables (piece [x]))" for x
    by (simp add: piece_def center_table_def)
  ultimately show ?thesis
    using MergeByCenter_twice_zero [of "piece ''a''" "piece ''b''" "piece ''c''"] unfolding c by blast
qed

text \<open>
  \<open>LimitDsToCard\<close> cuts a sequence to a cardinality: the result never exceeds it, a
  sequence within the cardinality keeps its buckets, and a larger one ends within \<open>10\<^sup>-\<^sup>6\<close> of it.
\<close>

theorem LimitDsToCard_exact:
  assumes "0 \<le> crd" "nonneg_buckets (buckets ds)"
  shows "GetCard (LimitDsToCard crd ds) \<le> crd \<and>
    (GetCard ds \<le> crd \<longrightarrow> buckets (LimitDsToCard crd ds) = buckets ds) \<and>
    (crd \<le> GetCard ds \<longrightarrow> crd - 1 / 10 ^ 6 \<le> GetCard (LimitDsToCard crd ds))"
proof -
  have nn: "\<forall>(c, d) \<in> set (buckets ds). 0 \<le> d" "\<forall>(c, d) \<in> set (buckets ds). 0 \<le> c \<and> 0 \<le> d"
    using assms(2) by (auto simp: nonneg_buckets_def)
  show ?thesis
    using limit_buckets_upper [OF assms(1) nn(1)] limit_buckets_same [OF _ nn(2), of 0 crd]
      limit_buckets_lower [OF assms(1) _ nn(1)]
    by (simp add: GetCard_def)
qed

theorem LimitDsToCard_exact_witness:
  "GetCard (LimitDsToCard 7 \<lparr>ds_maxDegree = [3, 2], ds_count = [2, 2], ds_sum = []\<rparr>) \<le> 7 \<and>
   7 - 1 / 10 ^ 6 \<le> GetCard (LimitDsToCard 7 \<lparr>ds_maxDegree = [3, 2], ds_count = [2, 2], ds_sum = []\<rparr>)"
  using LimitDsToCard_exact [of 7 "\<lparr>ds_maxDegree = [3, 2], ds_count = [2, 2], ds_sum = []\<rparr>"]
  by (simp add: GetCard_def buckets_def nonneg_buckets_def)

text \<open>
  \<open>AdjustToAverage\<close> moves every sequence linearly towards the uniform distribution and
  keeps it below the cardinality: with rate \<open>k\<close> the sequence of a table with \<open>ndv\<close> at least the
  number of its keys reports \<open>k\<close> times its old total plus \<open>1 - k\<close> times the cardinality.
\<close>

theorem AdjustToAverage_interpolates:
  assumes wf: "stat_wf s" and k: "0 \<le> k" "k \<le> 1" and crd: "0 \<le> st_card s"
    and ndv: "\<And>t. t \<in> set (st_tables s) \<Longrightarrow> ndv t = Some (n t) \<and> 0 < n t \<and> sum_list (ds_count (ds_at s t)) \<le> n t"
    and ds: "\<And>t. t \<in> set (st_tables s) \<Longrightarrow>
      ds_wf (ds_at s t) \<and> nonneg_buckets (buckets (ds_at s t)) \<and> GetCard (ds_at s t) \<le> st_card s"
  shows "\<exists>s'. AdjustToAverage ndv k s = Inr s' \<and> st_card s' = st_card s \<and>
    (\<forall>t \<in> set (st_tables s). GetCard (ds_at s' t) = k * GetCard (ds_at s t) + (1 - k) * st_card s)"
proof -
  let ?f = "\<lambda>t s. res_bind (map_at ndv t) (\<lambda>n. if n = 0 then Inl (Not_finite ''card / ndv'')
      else Inr (upd_ds t (adjust_ds (st_card s) n k) s))"
  have "distinct ts \<Longrightarrow> set ts \<subseteq> set (st_tables s) \<Longrightarrow> st_card u = st_card s \<Longrightarrow>
      \<exists>u'. res_fold ?f ts u = Inr u' \<and> same_frame u u' \<and>
        (\<forall>t. ds_at u' t = (if t \<in> set ts then adjust_ds (st_card s) (n t) k (ds_at u t) else ds_at u t))"
    for ts u
  proof (induction ts arbitrary: u)
    case (Cons a ts)
    have a: "ndv a = Some (n a)" "n a \<noteq> 0" using ndv [of a] Cons.prems by auto
    let ?u = "upd_ds a (adjust_ds (st_card u) (n a) k) u"
    obtain u' where "res_fold ?f ts ?u = Inr u'" "same_frame ?u u'"
        "\<forall>t. ds_at u' t = (if t \<in> set ts then adjust_ds (st_card s) (n t) k (ds_at ?u t) else ds_at ?u t)"
      using Cons.IH [of ?u] Cons.prems by auto
    then show ?case using a Cons.prems same_frame_trans [OF same_frame_upd] by auto
  qed auto
  from this [of "st_tables s" s] wf obtain u where
    u: "res_fold ?f (st_tables s) s = Inr u" "same_frame s u"
       "\<forall>t \<in> set (st_tables s). ds_at u t = adjust_ds (st_card s) (n t) k (ds_at s t)"
    by (auto simp: stat_wf_def)
  have same: "GetCard (ds_at (LimitAllDsToCard u) t) = k * GetCard (ds_at s t) + (1 - k) * st_card s"
    if t: "t \<in> set (st_tables s)" for t
  proof -
    have g: "GetCard (ds_at u t) = k * GetCard (ds_at s t) + (1 - k) * st_card s"
      using u(3) t ndv [OF t] ds [OF t] k crd by (simp add: GetCard_adjust_ds)
    have "k * GetCard (ds_at s t) \<le> k * st_card s" using k ds [OF t] by (simp add: mult_left_mono)
    then have "GetCard (ds_at u t) \<le> st_card s" using g by (simp add: algebra_simps)
    moreover have "nonneg_buckets (buckets (ds_at u t))"
      using u(3) t ndv [OF t] ds [OF t] k crd by (simp add: nonneg_buckets_adjust)
    ultimately have "limit_buckets (st_card s) 0 (buckets (ds_at u t)) = buckets (ds_at u t)"
      by (intro limit_buckets_same) (auto simp: GetCard_def nonneg_buckets_def)
    then have "GetCard (ds_at (LimitAllDsToCard u) t) = GetCard (ds_at u t)"
      using u(2) t wf by (simp add: ds_at_LimitAll same_frame_def stat_wf_def GetCard_def)
    with g show ?thesis by simp
  qed
  have "st_card (LimitAllDsToCard u) = st_card s"
    using LimitAll_frame [of u] u(2) by (simp add: same_frame_def)
  with u(1) same show ?thesis by (simp add: AdjustToAverage_def)
qed

theorem AdjustToAverage_interpolates_witness:
  "\<exists>s'. AdjustToAverage [''a'' \<mapsto> 4] (1/2) (piece ''a'') = Inr s' \<and>
    st_card s' = st_card (piece ''a'') \<and>
    (\<forall>t \<in> set (st_tables (piece ''a'')).
       GetCard (ds_at s' t) = 1/2 * GetCard (ds_at (piece ''a'') t) + (1 - 1/2) * st_card (piece ''a''))"
  by (rule AdjustToAverage_interpolates [where n = "\<lambda>_. 4"])
     (simp_all add: piece_def stat_wf_def ds_at_def ds_wf_def buckets_def nonneg_buckets_def GetCard_def)

text \<open>
  \<open>NormalizeSubOneDegrees\<close> leaves no degree below 1 in any sequence and never lowers what a
  sequence reports; \<open>ApplyFilterCoefficient\<close> leaves no degree below 1, no empty bucket and a
  cardinality of at least 1.
\<close>

theorem sub_one_degrees_removed:
  assumes "stat_wf s" "t \<in> set (st_tables s)" "ds_wf (ds_at s t)"
    and "\<forall>c \<in> set (ds_count (ds_at s t)). 1 \<le> c"
  shows "(\<forall>d \<in> set (ds_maxDegree (ds_at (NormalizeSubOneDegrees s) t)). 1 \<le> d) \<and>
    GetCard (ds_at s t) \<le> GetCard (ds_at (NormalizeSubOneDegrees s) t) \<and>
    1 \<le> st_card (ApplyFilterCoefficient coeff s) \<and>
    (\<forall>(c, d) \<in> set (buckets (ds_at (ApplyFilterCoefficient coeff s) t)). 1 \<le> c \<and> 1 \<le> d)"
proof -
  have n: "ds_at (NormalizeSubOneDegrees s) t = map_buckets normalize_bucket (ds_at s t)"
    and f: "ds_at (ApplyFilterCoefficient coeff s) t = map_buckets (filter_bucket coeff) (ds_at s t)"
    using assms(1,2)
    by (simp_all add: NormalizeSubOneDegrees_def ApplyFilterCoefficient_def Let_def stat_wf_def ds_at_fold_upd)
  have b: "buckets (map_buckets g ds) = map g (buckets ds)" for g ds
    by (simp add: map_buckets_def buckets_def zip_map_same)
  have mono: "bucket_sum bs \<le> bucket_sum (map normalize_bucket bs)" for bs
  proof (induction bs rule: bucket_sum.induct)
    case (2 c d bs)
    have "of_int c * d \<le> (of_int \<lceil>of_int c * d\<rceil> :: real)" by (rule le_of_int_ceiling)
    also have "\<dots> \<le> of_int (max 1 \<lceil>of_int c * d\<rceil>)" by simp
    finally show ?case using 2 by (auto simp: normalize_bucket_def)
  qed simp
  have c: "1 \<le> c" if "(c, d) \<in> set (buckets (ds_at s t))" for c d
    using that assms(4) by (auto simp: buckets_def dest: set_zip_leftD)
  have "\<forall>d \<in> set (ds_maxDegree (ds_at (NormalizeSubOneDegrees s) t)). 1 \<le> d"
    by (auto simp: n map_buckets_def normalize_bucket_def)
  moreover have "GetCard (ds_at s t) \<le> GetCard (ds_at (NormalizeSubOneDegrees s) t)"
    using mono by (simp add: n GetCard_def b)
  moreover have "1 \<le> st_card (ApplyFilterCoefficient coeff s)"
    by (simp add: ApplyFilterCoefficient_def Let_def)
  moreover have "\<forall>(c, d) \<in> set (buckets (ds_at (ApplyFilterCoefficient coeff s) t)). 1 \<le> c \<and> 1 \<le> d"
    using c by (fastforce simp: f b filter_bucket_def Let_def)
  ultimately show ?thesis by blast
qed

theorem sub_one_degrees_removed_witness:
  "list_all (\<lambda>d. 1 \<le> d) (ds_maxDegree (ds_at (NormalizeSubOneDegrees (piece ''a'')) ''a'')) \<and>
    GetCard (ds_at (piece ''a'') ''a'') \<le> GetCard (ds_at (NormalizeSubOneDegrees (piece ''a'')) ''a'') \<and>
    1 \<le> st_card (ApplyFilterCoefficient (1/5) (piece ''a'')) \<and>
    list_all (\<lambda>(c, d). 1 \<le> c \<and> 1 \<le> d) (buckets (ds_at (ApplyFilterCoefficient (1/5) (piece ''a'')) ''a''))"
  unfolding list_all_iff
  by (rule sub_one_degrees_removed) (simp_all add: piece_def stat_wf_def ds_at_def ds_wf_def)

end
