(* ===== verification/StatCollect_Total.thy ===== *)
theory StatCollect_Total
  imports StatCollect DSStat_Props
begin

text \<open>
  When a collection succeeds and what it computes: for an equal set with one column per table
  and counts whose products fit in \<open>int64_t\<close> no step of \<open>CollectEqualSet\<close> throws, and the
  cardinality of every new statistic is the sum over the count vectors of the product of the
  counts of its tables.
\<close>

section \<open>Products of counts\<close>

definition count_of :: "counts \<Rightarrow> string \<Rightarrow> int" where
  "count_of cnt t = (case map_of cnt t of None \<Rightarrow> 0 | Some c \<Rightarrow> c)"

text \<open>Nonnegative counts of distinct tables, whose products fit in \<open>int64_t\<close>.\<close>

definition counts_fit :: "counts \<Rightarrow> bool" where
  "counts_fit cnt \<longleftrightarrow> distinct (map fst cnt) \<and> list_all (\<lambda>(t, c). 0 \<le> c) cnt \<and>
     prod_list (map (\<lambda>(t, c). max 1 c) cnt) < 2 ^ 63"

lemma count_of_nonneg: "counts_fit cnt \<Longrightarrow> 0 \<le> count_of cnt t"
  by (auto simp: counts_fit_def count_of_def list_all_iff split: option.split dest: map_of_SomeD)

lemma prod_list_ge_1: "(\<And>x. x \<in> set xs \<Longrightarrow> (1::int) \<le> f x) \<Longrightarrow> 1 \<le> prod_list (map f xs)"
proof (induction xs)
  case (Cons x xs)
  then have "1 \<le> f x" "1 \<le> prod_list (map f xs)" by simp_all
  then show ?case using mult_mono [of 1 "f x" 1 "prod_list (map f xs)"] by simp
qed simp

lemma counts_fit_product:
  assumes "counts_fit cnt" "distinct ts"
  shows "prod_list (map (\<lambda>t. max 1 (count_of cnt t)) ts) < 2 ^ 63"
proof -
  let ?g = "\<lambda>t. max 1 (count_of cnt t)"
  have d: "distinct (map fst cnt)" using assms(1) by (simp add: counts_fit_def)
  have "prod_list (map ?g ts) = prod ?g (set ts)"
    by (rule prod.distinct_set_conv_list [OF assms(2), symmetric])
  also have "\<dots> = prod ?g (set ts \<inter> set (map fst cnt))"
  proof (rule prod.mono_neutral_right)
    show "\<forall>t \<in> set ts - set ts \<inter> set (map fst cnt). ?g t = 1"
    proof
      fix t assume "t \<in> set ts - set ts \<inter> set (map fst cnt)"
      then have "map_of cnt t = None" by (simp add: map_of_eq_None_iff)
      then show "?g t = 1" by (simp add: count_of_def)
    qed
  qed simp_all
  also have "\<dots> \<le> prod ?g (set (map fst cnt))"
    by (rule prod_mono2) auto
  also have "\<dots> = prod_list (map ?g (map fst cnt))"
    by (rule prod.distinct_set_conv_list [OF d])
  also have "map ?g (map fst cnt) = map (\<lambda>(t, c). max 1 c) cnt"
    using d by (auto simp: count_of_def)
  finally show ?thesis using assms(1) by (simp add: counts_fit_def)
qed

lemma count_product_eval:
  assumes "\<And>t. 0 \<le> count_of cnt t" "1 \<le> p" "p * prod_list (map (\<lambda>t. max 1 (count_of cnt t)) ts) < 2 ^ 63"
  shows "count_product (map_of cnt) ts p =
    Inr (if \<exists>t \<in> set ts. count_of cnt t = 0 then None else Some (p * prod_list (map (count_of cnt) ts)))"
  using assms(2,3)
proof (induction ts arbitrary: p)
  case (Cons t ts)
  have ge: "1 \<le> prod_list (map (\<lambda>t. max 1 (count_of cnt t)) ts)" by (rule prod_list_ge_1) simp
  show ?case
  proof (cases "map_of cnt t")
    case None
    then show ?thesis by (simp add: count_of_def)
  next
    case (Some c)
    then have c: "count_of cnt t = c" "0 \<le> c" using assms(1) [of t] by (simp_all add: count_of_def)
    show ?thesis
    proof (cases "c = 0")
      case True
      then show ?thesis using Some c by simp
    next
      case False
      then have pc: "1 \<le> p * c" using c Cons.prems(1) by (metis mult_mono' mult_1 int_one_le_iff_zero_less order_le_less zero_le_one)
      have fit: "p * c * prod_list (map (\<lambda>t. max 1 (count_of cnt t)) ts) < 2 ^ 63"
        using Cons.prems(2) c False by (simp add: mult.assoc max_def split: if_splits)
      then have "p * c < 2 ^ 63" using mult_left_mono [OF ge, of "p * c"] pc by simp
      then have "int64 (p * c)" using pc by (simp add: int64_def)
      then show ?thesis
        using Some False c Cons.IH [OF pc fit] by (simp add: mult.assoc)
    qed
  qed
qed simp

section \<open>One statistic\<close>

definition collecting :: "string list \<Rightarrow> DSStatistic \<Rightarrow> bool" where
  "collecting ts st \<longleftrightarrow> st_tables st = ts \<and> all_open st \<and> ds_open (st_centralDs st) \<and> set ts \<subseteq> dom (st_ds st)"

lemma fold_upd_collecting:
  assumes "all_open s" "\<And>t d. ds_open d \<Longrightarrow> ds_open (f t d)"
  shows "all_open (fold (\<lambda>t. upd_ds t (f t)) ts s)" "same_frame s (fold (\<lambda>t. upd_ds t (f t)) ts s)"
proof -
  show "all_open (fold (\<lambda>t. upd_ds t (f t)) ts s)"
    using assms(1) by (induction ts arbitrary: s) (simp_all add: all_open_upd assms(2))
  show "same_frame s (fold (\<lambda>t. upd_ds t (f t)) ts s)"
  proof (induction ts arbitrary: s)
    case (Cons t ts)
    show ?case using same_frame_trans [OF same_frame_upd Cons.IH] by simp
  qed simp
qed

lemma stat_AddDegree_eval:
  assumes "collecting ts st" "counts_fit cnt" "distinct ts"
  shows "\<exists>st'. stat_AddDegree (map_of cnt) freq st = Inr st' \<and> collecting ts st' \<and>
    st_card st' = st_card st + of_int (freq * prod_list (map (count_of cnt) ts))"
proof (cases "\<exists>t \<in> set ts. count_of cnt t = 0")
  case True
  then have "prod_list (map (count_of cnt) ts) = 0" by (metis image_eqI image_set prod_list_zero_iff)
  then show ?thesis
    using True assms count_product_eval [of cnt 1 ts] count_of_nonneg counts_fit_product [OF assms(2,3)]
    by (simp add: stat_AddDegree_def collecting_def)
next
  case False
  let ?p = "prod_list (map (count_of cnt) ts)"
  have c: "count_product (map_of cnt) (st_tables st) 1 = Inr (Some ?p)"
    using False assms count_product_eval [of cnt 1 ts] count_of_nonneg counts_fit_product [OF assms(2,3)]
    by (simp add: collecting_def)
  have p: "?p \<noteq> 0" using False by (auto simp: prod_list_zero_iff)
  define s1 where "s1 = fold (\<lambda>t. upd_ds t (AddDegree (of_int ?p / of_int (the (map_of cnt t)))
      (the (map_of cnt t) * freq) (st_precision st))) (st_tables st) st"
  have s1: "all_open s1" "same_frame st s1"
    unfolding s1_def using assms(1) by (auto simp: collecting_def intro!: fold_upd_collecting)
  have "stat_AddDegree (map_of cnt) freq st =
      Inr (s1\<lparr>st_centralDs := AddDegree (of_int ?p) freq (st_precision st) (st_centralDs s1),
              st_card := st_card s1 + of_int ?p * of_int freq\<rparr>)"
    using c p by (simp add: stat_AddDegree_def Let_def s1_def)
  then show ?thesis
    using assms(1) s1 same_frame_dom [OF s1(2), of "set ts"]
    by (simp add: collecting_def all_open_def same_frame_def mult.commute)
qed

lemma add_counts_eval:
  assumes "collecting ts st" "distinct ts" "\<forall>(cnt, freq) \<in> set count_num. counts_fit cnt"
  shows "\<exists>st'. add_counts count_num st = Inr st' \<and> collecting ts st' \<and>
    st_card st' = st_card st + of_int (\<Sum>(cnt, freq) \<leftarrow> count_num. freq * prod_list (map (count_of cnt) ts))"
  using assms(1,3)
proof (induction count_num arbitrary: st)
  case (Cons e count_num)
  obtain cnt freq where e: "e = (cnt, freq)" by (cases e)
  obtain st1 where 1: "stat_AddDegree (map_of cnt) freq st = Inr st1" "collecting ts st1"
    "st_card st1 = st_card st + of_int (freq * prod_list (map (count_of cnt) ts))"
    using stat_AddDegree_eval [OF Cons.prems(1) _ assms(2), of cnt freq] Cons.prems(2) e by auto
  with Cons.IH [OF 1(2)] Cons.prems(2) show ?case by (simp add: add_counts_def e add.assoc)
qed (simp add: add_counts_def)

lemma collecting_fresh: "collecting ts (DSStatistic_tables ts p)"
  by (simp add: collecting_def all_open_def)

lemma finish_collecting:
  assumes "collecting ts st" "distinct ts" "0 \<le> st_card st"
  shows "\<exists>st'. stat_FinishCollection st = Inr st' \<and> st_card st' = st_card st"
  using stat_Finish_ok [of st] assms by (auto simp: collecting_def)

lemma counts_nonneg:
  assumes "\<forall>(cnt, freq) \<in> set count_num. counts_fit cnt \<and> 0 \<le> freq"
  shows "0 \<le> (\<Sum>(cnt, freq) \<leftarrow> count_num. freq * prod_list (map (count_of cnt) ts))"
  using assms
  by (intro sum_list_nonneg) (auto intro!: mult_nonneg_nonneg prod_list_nonneg count_of_nonneg)

lemma collect_alone_card:
  assumes "distinct (GetTableList sub)" "\<forall>(cnt, freq) \<in> set count_num. counts_fit cnt \<and> 0 \<le> freq"
  shows "\<exists>st. collect_alone p count_num sub = Inr st \<and>
    st_card st = of_int (\<Sum>(cnt, freq) \<leftarrow> count_num. freq * prod_list (map (count_of cnt) (GetTableList sub)))"
proof -
  obtain st where st: "add_counts count_num (DSStatistic_tables (GetTableList sub) p) = Inr st"
      "collecting (GetTableList sub) st"
      "st_card st = of_int (\<Sum>(cnt, freq) \<leftarrow> count_num. freq * prod_list (map (count_of cnt) (GetTableList sub)))"
    using add_counts_eval [OF collecting_fresh assms(1), of count_num p] assms(2) by fastforce
  with finish_collecting [OF st(2) assms(1)] counts_nonneg [OF assms(2)] show ?thesis
    by (auto simp: collect_alone_def)
qed

section \<open>Success of the steps of the manager\<close>

lemma prepared_subset_of:
  assumes "prepared_subsets es sm = Inr subs" "std_set (Entries es)" "k \<in> set subs"
  shows "\<exists>ys. subseq ys (Entries es) \<and> k = EqualSet (collapse_singleton ys)"
proof -
  obtain m where "m < 2 ^ length (Entries es)" "k = EqualSet (collapse_singleton (pick_bits m 0 (Entries es) []))"
    using assms(1,3) by (auto simp: prepared_subsets_def GetAllSubset_def GetAllSubsetLimitSize_def split: if_splits)
  moreover from this(1) have "pick_bits m 0 (Entries es) [] \<in> {ys. subseq ys (Entries es)}"
    unfolding pick_bits_subsets [OF assms(2), symmetric] by simp
  ultimately show ?thesis by blast
qed

lemma GetTableList_collapse [simp]: "GetTableList (EqualSet (collapse_singleton ys)) = map TableName ys"
  by (cases ys) (auto simp: GetTableList_def collapse_singleton_def)

lemma for_slots_total:
  assumes "\<forall>(sub, skip, p) \<in> set slots. \<not> skip \<longrightarrow> p = Some sub"
    "distinct (map fst (filter (\<lambda>(sub, skip, p). \<not> skip) slots))"
    "\<forall>k \<in> set (map fst (filter (\<lambda>(sub, skip, p). \<not> skip) slots)).
       \<exists>st st'. sm_statistics sm k = Some st \<and> f st = Inr st'"
  shows "\<exists>sm'. sx_for (\<lambda>(sub, skip, p) _. if skip then sx_ret () else upd_statistic f p) slots () sm = (Inr (), sm')"
  using assms
proof (induction slots arbitrary: sm)
  case (Cons slot slots)
  obtain sub skip p where slot: "slot = (sub, skip, p)" by (cases slot)
  show ?case
  proof (cases skip)
    case True
    then show ?thesis using Cons slot by (simp add: sx_simps)
  next
    case False
    obtain st st' where st: "sm_statistics sm sub = Some st" "f st = Inr st'" and p: "p = Some sub"
      using Cons.prems(1,3) slot False by auto
    let ?s = "sm\<lparr>sm_statistics := (sm_statistics sm)(sub \<mapsto> st')\<rparr>"
    have u: "upd_statistic f p sm = (Inr (), ?s)" using st p by (simp add: upd_statistic_def sx_simps)
    let ?K = "set (map fst (filter (\<lambda>(sub, skip, p). \<not> skip) slots))"
    have K: "sub \<notin> ?K" using Cons.prems(2) slot False by simp
    have "\<exists>st st'. sm_statistics ?s k = Some st \<and> f st = Inr st'" if "k \<in> ?K" for k
      using bspec [OF Cons.prems(3), of k] that K slot False by (cases "k = sub") simp_all
    then have "\<exists>sm'. sx_for (\<lambda>(sub, skip, p) _. if skip then sx_ret () else upd_statistic f p) slots () ?s = (Inr (), sm')"
      using Cons.prems(1,2) slot False by (intro Cons.IH ballI) simp_all
    then show ?thesis using slot False u by (simp add: sx_bind_unfold)
  qed
qed (simp add: sx_simps)

lemma for_subsets_wp:
  assumes "slots_ok sm" "\<forall>k \<in> set (new_keys sm). \<exists>st st'. sm_statistics sm k = Some st \<and> f st = Inr st'"
  shows "sx_wp (for_subsets f) (\<lambda>_ t. t = map_new f (set (new_keys sm)) sm) sm"
proof -
  obtain sm' where "for_subsets f sm = (Inr (), sm')"
    using for_slots_total [of "subset_slots sm" sm f] assms
    by (auto simp: for_subsets_def sx_simps slots_ok_def new_keys_def)
  with for_subsets_eval(1) [OF this assms(1)] show ?thesis by (simp add: sx_wp_result)
qed

text \<open>What all steps of the collection of \<open>es\<close> rely on.\<close>

definition collect_inv :: "EqualSet \<Rightarrow> StatisticManager \<Rightarrow> bool" where
  "collect_inv es sm \<longleftrightarrow> slots_ok sm \<and> sm_eset sm = es \<and>
     (\<forall>k \<in> set (map fst (subset_slots sm)). distinct (GetTableList k) \<and> set (GetTableList k) \<subseteq> set (GetTableList es)) \<and>
     set (GetTableList es) \<subseteq> dom (sm_singleDS sm)"

definition singles_open :: "string list \<Rightarrow> StatisticManager \<Rightarrow> bool" where
  "singles_open ts sm \<longleftrightarrow> (\<forall>t \<in> set ts. \<exists>d. sm_singleDS sm t = Some d \<and> ds_collecting d)"

lemma collect_inv_keys:
  "collect_inv es sm \<Longrightarrow> k \<in> set (new_keys sm) \<Longrightarrow>
   distinct (GetTableList k) \<and> set (GetTableList k) \<subseteq> set (GetTableList es)"
  by (auto simp: collect_inv_def new_keys_def)

lemma collect_inv_map_new: "collect_inv es sm \<Longrightarrow> collect_inv es (map_new f (set (new_keys sm)) sm)"
  by (auto simp: collect_inv_def slots_ok_def)

lemma collect_inv_update:
  "collect_inv es s \<Longrightarrow> set (GetTableList es) \<subseteq> dom m \<Longrightarrow> collect_inv es (s\<lparr>sm_singleDS := m\<rparr>)"
  "collect_inv es s \<Longrightarrow> collect_inv es (s\<lparr>sm_rateSum := x, sm_rateCount := n\<rparr>)"
  by (simp_all add: collect_inv_def slots_ok_def new_keys_def subset_slots_def)

lemma AddDegreeForSingleDS_wp:
  assumes "set (map fst cnt) \<subseteq> set ts" "singles_open ts sm" "collect_inv es sm"
  shows "sx_wp (AddDegreeForSingleDS cnt freq) (\<lambda>_ t. singles_open ts t \<and> collect_inv es t \<and>
     sm_statistics t = sm_statistics sm) sm"
  unfolding AddDegreeForSingleDS_def
proof (rule sx_wp_for_keep)
  fix x s assume x: "x \<in> set cnt"
    and s: "singles_open ts s \<and> collect_inv es s \<and> sm_statistics s = sm_statistics sm"
  obtain t c where tc: "x = (t, c)" by (cases x)
  obtain d where d: "sm_singleDS s t = Some d" "ds_collecting d"
    using x s assms(1) tc by (force simp: singles_open_def)
  show "sx_wp ((case x of (t, c) \<Rightarrow> \<lambda>_. if c = 0 then sx_ret ()
         else sx_bind (sx_read (\<lambda>sm. case sm_singleDS sm t of
                 None \<Rightarrow> Inl (Runtime_error ''Table not found in singleDS'')
               | Some d \<Rightarrow> Inr d)) (\<lambda>d.
           sx_mod (\<lambda>sm. sm\<lparr>sm_singleDS := (sm_singleDS sm)
             (t \<mapsto> AddDegree (of_int c) freq (sm_CompressPrecision sm) d)\<rparr>))) ())
      (\<lambda>_ s. singles_open ts s \<and> collect_inv es s \<and> sm_statistics s = sm_statistics sm) s"
  proof (cases "c = 0")
    case True
    then show ?thesis using s by (simp add: tc sx_wp)
  next
    case False
    have "collect_inv es (s\<lparr>sm_singleDS := (sm_singleDS s)(t \<mapsto> d')\<rparr>)" for d'
      using s by (intro collect_inv_update) (auto simp: collect_inv_def)
    then show ?thesis using s d False by (simp add: tc sx_wp sx_wp_read singles_open_def)
  qed
qed (use assms in simp_all)

lemma singles_wp:
  assumes "\<forall>(cnt, freq) \<in> set count_num. set (map fst cnt) \<subseteq> set ts" "singles_open ts sm" "collect_inv es sm"
  shows "sx_wp (sx_for (\<lambda>(cnt, freq) _. AddDegreeForSingleDS cnt (to_int32 freq)) count_num ())
    (\<lambda>_ t. singles_open ts t \<and> collect_inv es t \<and> sm_statistics t = sm_statistics sm) sm"
proof (rule sx_wp_for_keep)
  fix x s assume "x \<in> set count_num"
    and s: "singles_open ts s \<and> collect_inv es s \<and> sm_statistics s = sm_statistics sm"
  then show "sx_wp ((case x of (cnt, freq) \<Rightarrow> \<lambda>_. AddDegreeForSingleDS cnt (to_int32 freq)) ())
      (\<lambda>_ t. singles_open ts t \<and> collect_inv es t \<and> sm_statistics t = sm_statistics sm) s"
    using assms(1) AddDegreeForSingleDS_wp [of "fst x" ts s es "to_int32 (snd x)"] by (cases x) auto
qed (use assms in simp_all)

text \<open>Each table occurs once, so its sequence is still open when its turn comes.\<close>

lemma finish_singles_wp:
  assumes "collect_inv es sm" "singles_open (map TableName cs) sm" "distinct (map TableName cs)"
  shows "sx_wp (sx_for (\<lambda>e _. finish_single e) cs ())
    (\<lambda>_ t. collect_inv es t \<and> sm_statistics t = sm_statistics sm) sm"
  using assms
proof (induction cs arbitrary: sm)
  case (Cons c cs)
  obtain d where d: "sm_singleDS sm (TableName c) = Some d" "ds_collecting d"
    using Cons.prems(2) by (auto simp: singles_open_def)
  let ?s = "sm\<lparr>sm_singleDS := (sm_singleDS sm)(TableName c \<mapsto> FinishCollection d)\<rparr>"
  have "collect_inv es ?s"
    using Cons.prems(1) by (intro collect_inv_update) (auto simp: collect_inv_def)
  moreover have "singles_open (map TableName cs) ?s"
    unfolding singles_open_def
  proof
    fix t assume t: "t \<in> set (map TableName cs)"
    then have "t \<noteq> TableName c" using Cons.prems(3) by (metis distinct.simps(2) list.simps(9))
    then show "\<exists>d. sm_singleDS ?s t = Some d \<and> ds_collecting d"
      using bspec [OF Cons.prems(2) [unfolded singles_open_def], of t] t by simp
  qed
  ultimately have "sx_wp (sx_for (\<lambda>e _. finish_single e) cs ())
      (\<lambda>_ t. collect_inv es t \<and> sm_statistics t = sm_statistics ?s) ?s"
    using Cons.prems(3) by (intro Cons.IH) simp_all
  then show ?case using d by (simp add: sx_wp sx_wp_read finish_single_def)
qed (simp add: sx_wp)

lemma rate_loop_ok:
  assumes "set ts \<subseteq> dom singles"
  shows "\<exists>r. rate_loop singles p ts acc = Inr r"
  using assms by (induction singles p ts acc rule: rate_loop.induct)
    (auto simp: Let_def split: option.split)

lemma finish_rate_wp:
  assumes "collect_inv es sm" "slot \<in> set (subset_slots sm)"
  shows "sx_wp (finish_rate slot) (\<lambda>_ t. collect_inv es t \<and> subset_slots t = subset_slots sm) sm"
proof -
  obtain sub skip p where slot: "slot = (sub, skip, p)" by (cases slot)
  have sub: "set (GetTableList sub) \<subseteq> dom (sm_singleDS sm)"
    using assms by (force simp: collect_inv_def slot)
  obtain acc where acc: "rate_loop (sm_singleDS sm) (sm_CompressPrecision sm) (GetTableList sub) None = Inr acc"
    using rate_loop_ok [OF sub] by blast
  have key: "p = Some sub \<and> (\<exists>st. sm_statistics sm sub = Some st)" if "\<not> skip"
    using assms that by (force simp: collect_inv_def slots_ok_def new_keys_def slot)
  have upd: "subset_slots (sm\<lparr>sm_rateSum := x, sm_rateCount := n\<rparr>) = subset_slots sm" for x n
    by (simp add: subset_slots_def)
  show ?thesis
  proof (cases skip)
    case False
    then obtain st where "p = Some sub" "sm_statistics sm sub = Some st" using key by blast
    then show ?thesis
      using assms(1) acc False
      by (auto simp: slot finish_rate_def sx_wp sx_wp_read collect_inv_update upd
          split: option.split prod.split)
  qed (use assms(1) in \<open>simp add: slot finish_rate_def sx_wp\<close>)
qed

lemma finish_rates_wp:
  assumes "collect_inv es sm"
  shows "sx_wp (sx_for (\<lambda>slot _. finish_rate slot) (subset_slots sm) ()) (\<lambda>_ t. True) sm"
proof (rule sx_wp_mono)
  show "sx_wp (sx_for (\<lambda>slot _. finish_rate slot) (subset_slots sm) ())
      (\<lambda>_ t. collect_inv es t \<and> subset_slots t = subset_slots sm) sm"
    using assms finish_rate_wp by (intro sx_wp_for_keep) force+
qed simp

lemma sm_FinishCollection_wp:
  assumes "collect_inv es sm" "singles_open (GetTableList es) sm" "distinct (GetTableList es)"
    "\<forall>k \<in> set (new_keys sm). \<exists>st. sm_statistics sm k = Some st \<and> collecting (GetTableList k) st \<and> 0 \<le> st_card st"
  shows "sx_wp sm_FinishCollection (\<lambda>_ _. True) sm"
proof -
  let ?t = "map_new stat_FinishCollection (set (new_keys sm)) sm"
  have "\<forall>k \<in> set (new_keys sm). \<exists>st st'. sm_statistics sm k = Some st \<and> stat_FinishCollection st = Inr st'"
    using assms(4) collect_inv_keys [OF assms(1)] finish_collecting by blast
  note sub = for_subsets_wp [OF _ this]
  have t: "collect_inv es ?t" "singles_open (map TableName (Entries es)) ?t"
    using collect_inv_map_new [OF assms(1)] assms(2) by (simp_all add: singles_open_def GetTableList_def)
  have es: "sm_eset ?t = es" using t(1) by (simp add: collect_inv_def)
  note fin = finish_singles_wp [OF t, of] assms(3)
  have "sx_wp (sx_for (\<lambda>e _. finish_single e) (Entries es) ())
      (\<lambda>_. sx_wp (sx_bind (sx_read (\<lambda>sm. Inr (subset_slots sm))) (\<lambda>slots.
         sx_for (\<lambda>slot _. finish_rate slot) slots ())) (\<lambda>_ _. True)) ?t"
    using fin by (intro sx_wp_mono [OF finish_singles_wp [OF t]])
      (auto simp: GetTableList_def sx_wp sx_wp_read intro: finish_rates_wp)
  then show ?thesis
    unfolding sm_FinishCollection_def sx_wp_bind
    using assms(1) by (intro sx_wp_mono [OF sub]) (auto simp: collect_inv_def sx_wp sx_wp_read es)
qed

section \<open>A whole collection\<close>

lemma subseq_sub: "subseq xs ys \<Longrightarrow> set xs \<subseteq> set ys \<and> (distinct ys \<longrightarrow> distinct xs)"
  by (induction rule: list_emb.induct) auto

lemma PrepareCollection_wp:
  assumes subs: "prepared_subsets es sm = Inr subs" and es: "std_set (Entries es)" "distinct (GetTableList es)"
  shows "sx_wp (PrepareCollection es) (\<lambda>_ t. collect_inv es t \<and> singles_open (GetTableList es) t \<and>
    (\<forall>k \<in> set (new_keys t). sm_statistics t k = Some (DSStatistic_tables (GetTableList k) (sm_CompressPrecision sm)))) sm"
proof -
  obtain sm' where sm': "PrepareCollection es sm = (Inr (), sm')"
    by (cases "PrepareCollection es sm") (simp add: PrepareCollection_alt subs)
  have p: "slots_ok sm'" "set (new_keys sm') = set subs - dom (sm_statistics sm)"
    "sm_statistics sm' = fresh_statistics subs sm"
    using PrepareCollection_eval [OF sm'] subs by auto
  have slots: "map fst (subset_slots sm') = take (length (subset_slots sm')) subs"
    and rest: "sm_eset sm' = es" "sm_singleDS sm' = fold (\<lambda>e m. m(TableName e \<mapsto> empty_DS)) (Entries es) Map.empty"
    using sm' by (auto simp: PrepareCollection_alt subs prepare_subset_fold subset_slots_def
        map_fst_zip_take intro: arg_cong)
  have single: "fold (\<lambda>e m. m(TableName e \<mapsto> empty_DS)) cs m t =
      (if t \<in> set (map TableName cs) then Some empty_DS else m t)" for cs m t
    by (induction cs arbitrary: m) auto
  have "distinct (GetTableList k) \<and> set (GetTableList k) \<subseteq> set (GetTableList es)" if k: "k \<in> set subs" for k
  proof -
    obtain ys where ys: "subseq ys (Entries es)" "k = EqualSet (collapse_singleton ys)"
      using prepared_subset_of [OF subs es(1) k] by blast
    from subseq_map [OF ys(1), of TableName] have "subseq (GetTableList k) (GetTableList es)"
      by (simp add: ys(2)) (simp add: GetTableList_def)
    with es(2) show ?thesis using subseq_sub by blast
  qed
  then have "collect_inv es sm'"
    using p(1) rest slots by (auto simp: collect_inv_def single GetTableList_def dest!: in_set_takeD split: if_splits)
  moreover have "singles_open (GetTableList es) sm'"
    using rest by (auto simp: singles_open_def single GetTableList_def)
  ultimately show ?thesis
    using p(2,3) sm' by (auto simp: sx_wp_result fresh_statistics_def)
qed

definition counts_for :: "EqualSet \<Rightarrow> (counts \<times> int) list \<Rightarrow> bool" where
  "counts_for es count_num \<longleftrightarrow> list_all (\<lambda>(cnt, freq). counts_fit cnt \<and> 0 \<le> freq \<and>
     set (map fst cnt) \<subseteq> set (GetTableList es)) count_num"

lemma CollectEqualSet_wp:
  assumes subs: "prepared_subsets es sm = Inr subs" and es: "std_set (Entries es)" "distinct (GetTableList es)"
    and cn: "counts_for es count_num"
  shows "sx_wp (CollectEqualSet es count_num) (\<lambda>_ _. True) sm"
proof -
  have cn': "\<forall>(cnt, freq) \<in> set count_num. counts_fit cnt" "\<forall>(cnt, freq) \<in> set count_num. counts_fit cnt \<and> 0 \<le> freq"
    "\<forall>(cnt, freq) \<in> set count_num. set (map fst cnt) \<subseteq> set (GetTableList es)"
    using cn unfolding counts_for_def list_all_iff by (blast, blast, blast)
  let ?P = "\<lambda>Q t. collect_inv es t \<and> singles_open (GetTableList es) t \<and>
    (\<forall>k \<in> set (new_keys t). \<exists>st. sm_statistics t k = Some st \<and> collecting (GetTableList k) st \<and> Q (st_card st))"
  have 1: "sx_wp (PrepareCollection es) (\<lambda>_. ?P (\<lambda>x. x = 0)) sm"
    by (rule sx_wp_mono [OF PrepareCollection_wp [OF subs es]]) (auto simp: collecting_fresh)
  have 2: "sx_wp (for_subsets (add_counts count_num)) (\<lambda>_. ?P (\<lambda>x. 0 \<le> x)) t" if t: "?P (\<lambda>x. x = 0) t" for t
  proof -
    have ok: "\<exists>st st'. sm_statistics t k = Some st \<and> add_counts count_num st = Inr st' \<and>
        collecting (GetTableList k) st' \<and> 0 \<le> st_card st'" if k: "k \<in> set (new_keys t)" for k
    proof -
      obtain st where st: "sm_statistics t k = Some st" "collecting (GetTableList k) st" "st_card st = 0"
        using t k by auto
      have d: "distinct (GetTableList k)" using collect_inv_keys [of es t k] t k by blast
      show ?thesis
        using st add_counts_eval [OF st(2) d cn'(1)] counts_nonneg [OF cn'(2)] by fastforce
    qed
    have w: "sx_wp (for_subsets (add_counts count_num)) (\<lambda>_ u. u = map_new (add_counts count_num) (set (new_keys t)) t) t"
    proof (rule for_subsets_wp)
      show "slots_ok t" using t by (simp add: collect_inv_def)
      show "\<forall>k \<in> set (new_keys t). \<exists>st st'. sm_statistics t k = Some st \<and> add_counts count_num st = Inr st'"
        using ok by blast
    qed
    have "\<exists>st. sm_statistics (map_new (add_counts count_num) (set (new_keys t)) t) k = Some st \<and>
        collecting (GetTableList k) st \<and> 0 \<le> st_card st" if k: "k \<in> set (new_keys t)" for k
      using ok [OF k] k by auto
    then have "?P (\<lambda>x. 0 \<le> x) (map_new (add_counts count_num) (set (new_keys t)) t)"
      using t collect_inv_map_new [of es t "add_counts count_num"]
      by (simp add: singles_open_def del: map_new_simps(1))
    then show ?thesis by (intro sx_wp_mono [OF w]) blast
  qed
  have 3: "sx_wp (sx_for (\<lambda>(cnt, freq) _. AddDegreeForSingleDS cnt (to_int32 freq)) count_num ()) (\<lambda>_. ?P (\<lambda>x. 0 \<le> x)) t"
    if t: "?P (\<lambda>x. 0 \<le> x) t" for t
  proof -
    have "sx_wp (sx_for (\<lambda>(cnt, freq) _. AddDegreeForSingleDS cnt (to_int32 freq)) count_num ())
      (\<lambda>_ u. (singles_open (GetTableList es) u \<and> collect_inv es u \<and> sm_statistics u = sm_statistics t) \<and>
         same_collection t u) t"
      by (rule sx_wp_keeps [OF same_collection_singles]) (use singles_wp [OF cn'(3)] t in blast)
    then show ?thesis using t same_collection_slots by (elim sx_wp_mono) force
  qed
  have 4: "sx_wp sm_FinishCollection (\<lambda>_ _. True) t" if "?P (\<lambda>x. 0 \<le> x) t" for t
    using that es(2) by (intro sm_FinishCollection_wp) auto
  show ?thesis
    unfolding CollectEqualSet_def sx_wp_bind
    by (intro sx_wp_mono [OF 1] sx_wp_mono [OF 2] sx_wp_mono [OF 3] 4)
qed

end
