(* ===== verification/StarJoin.thy ===== *)
theory StarJoin
  imports StatCollect_Total Driver
begin

text \<open>
  What a collection counts. The database is given by the values of each column (\<open>None\<close> is SQL's
  null); the size of the star join of some columns is the number of tuples of rows, one of each
  column's table, that agree on one value that is not null. The rows of the counting query of
  \<^verbatim>\<open>main.cpp\<close> are the distinct vectors of counts with their frequencies.
\<close>

section \<open>Star joins\<close>

type_synonym 'v database = "TableColumn \<Rightarrow> 'v option list"

definition same_key :: "'v option list \<Rightarrow> bool" where
  "same_key vs \<longleftrightarrow> hd vs \<noteq> None \<and> list_all (\<lambda>x. x = hd vs) vs"

definition star_join_size :: "'v database \<Rightarrow> TableColumn list \<Rightarrow> nat" where
  "star_join_size db cs = length (filter same_key (product_lists (map db cs)))"

definition key_count :: "'v database \<Rightarrow> 'v \<Rightarrow> TableColumn \<Rightarrow> int" where
  "key_count db v c = int (count_list (db c) (Some v))"

definition column_keys :: "'v database \<Rightarrow> TableColumn list \<Rightarrow> 'v list" where
  "column_keys db cs = remdups (concat (map (\<lambda>c. map the (filter (\<lambda>x. x \<noteq> None) (db c))) cs))"

lemma column_keys_set: "v \<in> set (column_keys db cs) \<longleftrightarrow> (\<exists>c \<in> set cs. Some v \<in> set (db c))"
  by (force simp: column_keys_def)

lemma count_list_concat_Cons:
  "count_list (concat (map (\<lambda>x. map ((#) x) L) xs)) (y # ys) = count_list xs y * count_list L ys"
proof -
  have "count_list (map ((#) x) L) (y # ys) = (if x = y then count_list L ys else 0)" for x
    by (induction L) auto
  then show ?thesis by (induction xs) (auto simp: count_list_append)
qed

lemma count_product_lists:
  "int (count_list (product_lists (map db cs)) (replicate (length cs) (Some v))) = prod_list (map (key_count db v) cs)"
  by (induction cs) (simp_all add: count_list_concat_Cons key_count_def)

lemma same_key_replicate:
  assumes "length vs = n" "n \<noteq> 0"
  shows "same_key vs \<longleftrightarrow> (\<exists>v. vs = replicate n (Some v))"
proof
  assume k: "same_key vs"
  then obtain v where v: "hd vs = Some v" by (auto simp: same_key_def)
  have "vs = replicate n (Some v)"
    using k assms by (intro replicate_eqI) (auto simp: same_key_def list_all_iff v)
  then show "\<exists>v. vs = replicate n (Some v)" ..
next
  assume "\<exists>v. vs = replicate n (Some v)"
  then obtain v where v: "vs = replicate n (Some v)" ..
  then have "hd vs = Some v" using assms by simp
  then show "same_key vs" unfolding v by (simp add: same_key_def list_all_iff)
qed

lemma length_filter_sum:
  assumes "finite K" "\<And>x. x \<in> set L \<Longrightarrow> P x \<Longrightarrow> \<exists>v \<in> K. x = f v" "inj_on f K" "\<And>v. v \<in> K \<Longrightarrow> P (f v)"
  shows "length (filter P L) = (\<Sum>v \<in> K. count_list L (f v))"
  using assms(2)
proof (induction L)
  case (Cons x L)
  show ?case
  proof (cases "P x")
    case True
    then obtain v where v: "v \<in> K" "x = f v" using Cons.prems by auto
    have "(\<Sum>u \<in> K. count_list (x # L) (f u)) = (\<Sum>u \<in> K. count_list L (f u) + (if u = v then 1 else 0))"
      using v assms(3) by (intro sum.cong) (auto simp: inj_on_eq_iff)
    also have "\<dots> = (\<Sum>u \<in> K. count_list L (f u)) + 1"
      using assms(1) v by (simp add: sum.distrib)
    finally show ?thesis using Cons True by simp
  next
    case False
    then have "f u \<noteq> x" if "u \<in> K" for u using assms(4) that by auto
    then have "(\<Sum>u \<in> K. count_list (x # L) (f u)) = (\<Sum>u \<in> K. count_list L (f u))"
      by (intro sum.cong) auto
    then show ?thesis using Cons False by simp
  qed
qed simp

lemma star_join_size_sum:
  assumes "cs \<noteq> []" "finite K" "\<And>v. Some v \<in> set (db (hd cs)) \<Longrightarrow> v \<in> K"
  shows "int (star_join_size db cs) = (\<Sum>v \<in> K. prod_list (map (key_count db v) cs))"
proof -
  let ?f = "\<lambda>v. replicate (length cs) (Some v)"
  have "length (filter same_key (product_lists (map db cs))) = (\<Sum>v \<in> K. count_list (product_lists (map db cs)) (?f v))"
  proof (rule length_filter_sum)
    fix x assume x: "x \<in> set (product_lists (map db cs))" "same_key x"
    have len: "length x = length cs" using x(1) in_set_product_lists_length by fastforce
    then obtain v where v: "x = ?f v" using same_key_replicate [OF len] x(2) assms(1) by auto
    have "hd x \<in> set (db (hd cs))" using x(1) assms(1) by (cases cs) auto
    then have "Some v \<in> set (db (hd cs))" using v assms(1) by (cases cs) auto
    then show "\<exists>v \<in> K. x = ?f v" using assms(3) v by blast
  next
    show "inj_on ?f K" using assms(1) by (auto simp: inj_on_def)
    show "same_key (?f v)" for v using assms(1) by (subst same_key_replicate) auto
  qed (rule assms(2))
  then show ?thesis by (simp add: star_join_size_def count_product_lists)
qed


section \<open>The counting query\<close>

text \<open>
  The rows of \<open>countNumQuery\<close>, for an equal set with one column per table: per value that occurs,
  the counts in the columns; then the distinct vectors with their frequencies.
\<close>

definition pivot_rows :: "'v database \<Rightarrow> EqualSet \<Rightarrow> int list list" where
  "pivot_rows db es = map (\<lambda>v. map (key_count db v) (Entries es)) (column_keys db (Entries es))"

definition count_rows :: "'v database \<Rightarrow> EqualSet \<Rightarrow> int list list" where
  "count_rows db es =
     map (\<lambda>r. r @ [int (count_list (pivot_rows db es) r)]) (remdups (pivot_rows db es))"

text \<open>SQL returns the rows in any order.\<close>

definition answers :: "(string \<Rightarrow> int list list res) \<Rightarrow> 'v database \<Rightarrow> EqualSet \<Rightarrow> bool" where
  "answers sql db es \<longleftrightarrow> (case sql (countNumQuery es) of
     Inl e \<Rightarrow> False | Inr rows \<Rightarrow> mset rows = mset (count_rows db es))"

section \<open>From the rows to the counts\<close>

lemma map_put_new: "k \<notin> fst ` set m \<Longrightarrow> mset (map_put k v m) = add_mset (k, v) (mset m)"
  by (induction m) auto

lemma map_put_ascending: "sorted_wrt (<) (map fst kvs @ ts) \<Longrightarrow>
  fold (\<lambda>(t, c). map_put t c) (zip ts row) kvs = kvs @ zip ts row"
proof (induction ts arbitrary: kvs row)
  case (Cons t ts)
  show ?case
  proof (cases row)
    case (Cons c row')
    have "list_all (\<lambda>(t', c'). t' < t) kvs"
      using Cons.prems by (auto simp: list_all_iff sorted_wrt_append)
    then have "map_put t c kvs = kvs @ [(t, c)]" by (rule map_put_last(2))
    then show ?thesis using Cons Cons.prems Cons.IH [of "kvs @ [(t, c)]" row'] by simp
  qed simp
qed simp

definition star_eset :: "EqualSet \<Rightarrow> bool" where
  "star_eset es \<longleftrightarrow> std_set (Entries es) \<and> distinct (GetTableList es) \<and> length (Entries es) \<le> 30"

lemma star_eset_tables: "star_eset es \<Longrightarrow> sorted_wrt (<) (GetTableList es)"
proof -
  assume es: "star_eset es"
  have "sorted_wrt (<) cs \<Longrightarrow> distinct (map TableName cs) \<Longrightarrow> sorted_wrt (<) (map TableName cs)" for cs
    by (induction cs) (auto simp: less_TableColumn_iff split: if_splits)
  with es show ?thesis by (simp add: star_eset_def std_set_def GetTableList_def)
qed

text \<open>A row of counts followed by its frequency.\<close>

definition entry_of :: "EqualSet \<Rightarrow> int list \<Rightarrow> counts \<times> int" where
  "entry_of es row = (zip (GetTableList es) row, row ! length (Entries es))"

lemma row_counts_eval:
  assumes "star_eset es" "length row = length (Entries es) + 1"
  shows "row_counts es row = Inr (entry_of es row)"
  using assms map_put_ascending [of "[]" "GetTableList es" row] star_eset_tables [OF assms(1)]
  by (simp add: row_counts_def entry_of_def GetTableList_def)

lemma fold_counts:
  assumes es: "star_eset es" and "\<forall>row \<in> set rows. length row = length (Entries es) + 1"
    and "distinct (map (fst \<circ> entry_of es) rows)" "fst ` set m \<inter> set (map (fst \<circ> entry_of es) rows) = {}"
  shows "\<exists>m'. res_fold (\<lambda>row m. res_map (\<lambda>(cnt, freq). map_put cnt freq m) (row_counts es row)) rows m = Inr m' \<and>
    mset m' = mset m + image_mset (entry_of es) (mset rows)"
  using assms(2-)
proof (induction rows arbitrary: m)
  case (Cons row rows)
  obtain cnt freq where e: "entry_of es row = (cnt, freq)" by (cases "entry_of es row")
  have r: "row_counts es row = Inr (cnt, freq)" using row_counts_eval [OF es] Cons.prems(1) e by simp
  have new: "cnt \<notin> fst ` set m" using Cons.prems(3) e by auto
  have put: "mset (map_put cnt freq m) = add_mset (cnt, freq) (mset m)" by (rule map_put_new [OF new])
  then have "set (map_put cnt freq m) = insert (cnt, freq) (set m)" by (metis set_mset_add_mset_insert set_mset_mset)
  then have "fst ` set (map_put cnt freq m) \<inter> set (map (fst \<circ> entry_of es) rows) = {}"
    using Cons.prems(2,3) e by auto
  with Cons.IH [of "map_put cnt freq m"] Cons.prems(1,2) r e put show ?case by auto
qed simp

lemma length_count_rows: "row \<in> set (count_rows db es) \<Longrightarrow> length row = length (Entries es) + 1"
  by (auto simp: count_rows_def pivot_rows_def)

lemma zip_inj: "length xs = length ys \<Longrightarrow> length xs = length zs \<Longrightarrow> zip xs ys = zip xs zs \<Longrightarrow> ys = zs"
  by (metis map_snd_zip)

lemma distinct_count_rows: "distinct (map (fst \<circ> entry_of es) (count_rows db es))"
proof -
  have "map (fst \<circ> entry_of es) (count_rows db es) = map (zip (GetTableList es)) (remdups (pivot_rows db es))"
    by (auto simp: count_rows_def entry_of_def pivot_rows_def GetTableList_def zip_append2)
  moreover have "inj_on (zip (GetTableList es)) (set (pivot_rows db es))"
    by (auto simp: inj_on_def pivot_rows_def GetTableList_def dest!: zip_inj [rotated 2])
  ultimately show ?thesis by (simp add: distinct_map)
qed

lemma count_num_of_eval:
  assumes "star_eset es" "answers sql db es"
  shows "\<exists>cn. res_bind (sql (countNumQuery es)) (count_num_of es) = Inr cn \<and>
    mset cn = mset (map (entry_of es) (count_rows db es))"
proof -
  obtain rows where rows: "sql (countNumQuery es) = Inr rows" "mset rows = mset (count_rows db es)"
    using assms(2) by (auto simp: answers_def split: sum.splits)
  have s: "set rows = set (count_rows db es)" by (rule mset_eq_setD [OF rows(2)])
  have "mset (map (fst \<circ> entry_of es) rows) = mset (map (fst \<circ> entry_of es) (count_rows db es))"
    using rows(2) by simp
  then have "distinct (map (fst \<circ> entry_of es) rows)"
    using distinct_count_rows mset_eq_imp_distinct_iff by blast
  with fold_counts [OF assms(1), of rows "[]"] length_count_rows s rows show ?thesis
    by (auto simp: count_num_of_def)
qed


section \<open>The counts give the sizes of the star joins\<close>

lemma sum_list_counts:
  assumes "finite S" "set xs \<subseteq> S"
  shows "(\<Sum>r \<leftarrow> xs. f r) = (\<Sum>r \<in> S. int (count_list xs r) * f r)"
  using assms(2)
proof (induction xs)
  case (Cons x xs)
  have "(\<Sum>r \<in> S. int (count_list (x # xs) r) * f r) =
      (\<Sum>r \<in> S. int (count_list xs r) * f r + (if r = x then f r else 0))"
    by (intro sum.cong) (auto simp: algebra_simps)
  also have "\<dots> = (\<Sum>r \<in> S. int (count_list xs r) * f r) + f x"
    using assms(1) Cons.prems by (simp add: sum.distrib)
  finally show ?case using Cons by simp
qed simp

lemma sum_remdups: "(\<Sum>r \<leftarrow> remdups xs. int (count_list xs r) * f r) = (\<Sum>r \<leftarrow> xs. f r)"
  using sum_list_counts [of "set xs" xs f]
  by (simp add: sum.distinct_set_conv_list [OF distinct_remdups, simplified])

lemma sum_list_mset_eq: "mset xs = mset ys \<Longrightarrow> sum_list (map f xs) = sum_list (map f ys)"
  for f :: "'a \<Rightarrow> int"
proof -
  assume "mset xs = mset ys"
  then have "mset (map f xs) = mset (map f ys)" by simp
  then have "sum_mset (mset (map f xs)) = sum_mset (mset (map f ys))" by (rule arg_cong)
  then show ?thesis by (simp only: sum_mset_sum_list)
qed

lemma zip_both: "zip (map f cs) (map g cs @ r) = map (\<lambda>c. (f c, g c)) cs"
  by (induction cs) auto

lemma count_of_zip:
  assumes "distinct (map TableName cs)" "c \<in> set cs"
  shows "count_of (zip (map TableName cs) (map g cs @ r)) (TableName c) = g c"
proof -
  have "map_of (map (\<lambda>c. (TableName c, g c)) cs) (TableName c) = Some (g c)"
    using assms by (intro map_of_is_SomeI) (auto simp: comp_def)
  then show ?thesis by (simp add: count_of_def zip_both)
qed

lemma counted_star:
  assumes es: "star_eset es" and cn: "mset cn = mset (map (entry_of es) (count_rows db es))"
    and ys: "set ys \<subseteq> set (Entries es)" "ys \<noteq> []"
  shows "(\<Sum>(cnt, freq) \<leftarrow> cn. freq * prod_list (map (count_of cnt) (map TableName ys))) = int (star_join_size db ys)"
proof -
  let ?g = "\<lambda>(cnt, freq). freq * prod_list (map (count_of cnt) (map TableName ys))"
  let ?G = "\<lambda>r. prod_list (map (count_of (zip (GetTableList es) r)) (map TableName ys))"
  let ?piv = "\<lambda>v. map (key_count db v) (Entries es)"
  have d: "distinct (map TableName (Entries es))" using es by (simp add: star_eset_def GetTableList_def)
  have G: "prod_list (map (count_of (zip (GetTableList es) (?piv v @ r))) (map TableName ys)) =
      prod_list (map (key_count db v) ys)" for v r
  proof -
    have "map (count_of (zip (GetTableList es) (?piv v @ r))) (map TableName ys) = map (key_count db v) ys"
      using ys(1) count_of_zip [OF d, of _ "key_count db v" r] by (auto simp: GetTableList_def)
    then show ?thesis by (rule arg_cong)
  qed
  have "(\<Sum>e \<leftarrow> cn. ?g e) = (\<Sum>e \<leftarrow> map (entry_of es) (count_rows db es). ?g e)"
    by (rule sum_list_mset_eq [OF cn])
  also have "\<dots> = (\<Sum>r \<leftarrow> remdups (pivot_rows db es). int (count_list (pivot_rows db es) r) * ?G r)"
  proof -
    have "?g (entry_of es (r @ [k])) = k * ?G r" if r: "r \<in> set (remdups (pivot_rows db es))" for r k
    proof -
      obtain v where v: "r = ?piv v" using r by (auto simp: pivot_rows_def)
      have e: "entry_of es (r @ [k]) = (zip (GetTableList es) (?piv v @ [k]), k)"
        by (simp add: entry_of_def v nth_append)
      show ?thesis unfolding e using G [of v "[k]"] G [of v "[]"] by (simp add: v)
    qed
    then show ?thesis
      unfolding count_rows_def map_map comp_def by (intro arg_cong [where f = sum_list] map_cong refl)
  qed
  also have "\<dots> = (\<Sum>r \<leftarrow> pivot_rows db es. ?G r)" by (rule sum_remdups)
  also have "\<dots> = (\<Sum>v \<leftarrow> column_keys db (Entries es). prod_list (map (key_count db v) ys))"
    using G [of _ "[]"] by (simp add: pivot_rows_def comp_def)
  also have "\<dots> = (\<Sum>v \<in> set (column_keys db (Entries es)). prod_list (map (key_count db v) ys))"
    by (rule sum.distinct_set_conv_list [symmetric]) (simp add: column_keys_def)
  also have "\<dots> = int (star_join_size db ys)"
    using ys subsetD [OF ys(1) hd_in_set [OF ys(2)]]
    by (intro star_join_size_sum [symmetric]) (auto simp: column_keys_set simp del: hd_in_set)
  finally show ?thesis .
qed

text \<open>The products of the counts of a key fit in \<open>int64_t\<close>.\<close>

definition keys_fit :: "'v database \<Rightarrow> EqualSet \<Rightarrow> bool" where
  "keys_fit db es \<longleftrightarrow> list_all (\<lambda>v. prod_list (map (\<lambda>c. max 1 (key_count db v c)) (Entries es)) < 2 ^ 63)
     (column_keys db (Entries es))"

lemma counts_for_rows:
  assumes es: "star_eset es" and cn: "mset cn = mset (map (entry_of es) (count_rows db es))" and fit: "keys_fit db es"
  shows "counts_for es cn"
  unfolding counts_for_def list_all_iff
proof
  fix e assume "e \<in> set cn"
  then have "e \<in> set (map (entry_of es) (count_rows db es))" using cn mset_eq_setD by blast
  then obtain r where r: "r \<in> set (pivot_rows db es)"
    and e: "e = entry_of es (r @ [int (count_list (pivot_rows db es) r)])"
    by (auto simp: count_rows_def)
  obtain v where v: "v \<in> set (column_keys db (Entries es))" "r = map (key_count db v) (Entries es)"
    using r by (auto simp: pivot_rows_def)
  have cnt: "fst e = map (\<lambda>c. (TableName c, key_count db v c)) (Entries es)"
    by (simp add: e entry_of_def v(2) GetTableList_def zip_both)
  have "counts_fit (fst e)"
    using es fit v(1) unfolding counts_fit_def cnt
    by (simp add: star_eset_def GetTableList_def comp_def list_all_iff keys_fit_def key_count_def)
  moreover have "0 \<le> snd e" by (simp add: e entry_of_def v(2) nth_append)
  moreover have "set (map fst (fst e)) \<subseteq> set (GetTableList es)" by (auto simp: cnt GetTableList_def)
  ultimately show "case e of (cnt, freq) \<Rightarrow> counts_fit cnt \<and> 0 \<le> freq \<and> set (map fst cnt) \<subseteq> set (GetTableList es)"
    by (cases e) simp
qed


section \<open>The collection of all equal sets\<close>

text \<open>Every statistic of two or more columns has the size of its star join as cardinality.\<close>

definition exact_cards :: "'v database \<Rightarrow> StatisticManager \<Rightarrow> bool" where
  "exact_cards db sm \<longleftrightarrow> (\<forall>k st. sm_statistics sm k = Some st \<and> 2 \<le> length (Entries k) \<longrightarrow>
     st_card st = real (star_join_size db (Entries k)))"

definition has_stars :: "StatisticManager \<Rightarrow> EqualSet \<Rightarrow> bool" where
  "has_stars sm es \<longleftrightarrow> (\<forall>ys. subseq ys (Entries es) \<and>
     (sm_EnableStarSplit sm \<longrightarrow> length ys \<le> size_t_of_int (sm_MaxStarSize sm)) \<longrightarrow>
     sm_statistics sm (EqualSet (collapse_singleton ys)) \<noteq> None)"

definition same_settings :: "StatisticManager \<Rightarrow> StatisticManager \<Rightarrow> bool" where
  "same_settings s t \<longleftrightarrow> sm_EnableStarSplit s = sm_EnableStarSplit t \<and> sm_MaxStarSize s = sm_MaxStarSize t \<and>
     sm_CompressPrecision s = sm_CompressPrecision t"

interpretation settings: frame same_settings
  by unfold_locales (simp_all add: same_settings_def)

lemma settings_Prepare: "sx_keeps same_settings (PrepareCollection es)"
  unfolding sx_keeps_def
proof
  fix s
  show "same_settings s (snd (PrepareCollection es s))"
    by (cases "prepared_subsets es s")
      (simp_all add: PrepareCollection_alt prepare_subset_fold same_settings_def)
qed

lemma settings_upd: "sx_keeps same_settings (upd_statistic f p)"
  unfolding upd_statistic_def
  by (cases p) (auto intro!: settings.keeps_intros settings.keeps_mod simp: same_settings_def)

lemma settings_for_subsets: "sx_keeps same_settings (for_subsets f)"
  unfolding for_subsets_def case_prod_beta
  by (intro settings.keeps_intros settings_upd)

lemma settings_singles: "sx_keeps same_settings (AddDegreeForSingleDS cnt freq)"
  unfolding AddDegreeForSingleDS_def case_prod_beta
  by (intro settings.keeps_intros settings.keeps_mod) (simp add: same_settings_def)

lemma settings_finish_single: "sx_keeps same_settings (finish_single e)"
  unfolding finish_single_def
  by (intro settings.keeps_intros settings.keeps_mod) (simp add: same_settings_def)

lemma settings_finish_rate: "sx_keeps same_settings (finish_rate slot)"
  unfolding finish_rate_def
  by (cases slot) (auto intro!: settings.keeps_intros settings.keeps_mod simp: same_settings_def split: option.split)

lemma settings_Collect: "sx_keeps same_settings (CollectEqualSet es cn)"
  unfolding CollectEqualSet_def sm_FinishCollection_def case_prod_beta
  by (intro settings.keeps_intros settings_Prepare settings_for_subsets settings_singles
      settings_finish_single settings_finish_rate)

lemma collect_eset_run:
  assumes es: "star_eset es" "answers sql db es" "keys_fit db es" and par: "0 < par"
  obtains cn subs sm' where "mset cn = mset (map (entry_of es) (count_rows db es))" "counts_for es cn"
    "prepared_subsets es sm = Inr subs" "collect_eset sql par es sm = (Inr (), sm')" "same_settings sm sm'"
    "\<And>k. if k \<in> set subs \<and> sm_statistics sm k = None
      then \<exists>st. sm_statistics sm' k = Some st \<and> collect_alone (sm_CompressPrecision sm) cn k = Inr st
      else sm_statistics sm' k = sm_statistics sm k"
proof -
  have std: "std_set (Entries es)" "distinct (GetTableList es)" "length (Entries es) \<le> 30"
    using es(1) by (simp_all add: star_eset_def)
  obtain cn where cn: "res_bind (sql (countNumQuery es)) (count_num_of es) = Inr cn"
    "mset cn = mset (map (entry_of es) (count_rows db es))"
    using count_num_of_eval [OF es(1,2)] by blast
  have cf: "counts_for es cn" by (rule counts_for_rows [OF es(1) cn(2) es(3)])
  obtain subs where subs: "prepared_subsets es sm = Inr subs"
    using std(3) by (cases "sm_EnableStarSplit sm")
      (auto simp: prepared_subsets_def GetAllSubset_def GetAllSubsetLimitSize_def)
  obtain sm' where run: "CollectEqualSet es cn sm = (Inr (), sm')"
    using CollectEqualSet_wp [OF subs std(1,2) cf] unfolding sx_wp_result by auto
  have "if k \<in> set subs \<and> sm_statistics sm k = None
      then \<exists>st. sm_statistics sm' k = Some st \<and> collect_alone (sm_CompressPrecision sm) cn k = Inr st
      else sm_statistics sm' k = sm_statistics sm k" for k
    using CollectEqualSet_eval [OF run] subs by auto
  moreover have "collect_eset sql par es sm = (Inr (), sm')"
    using run cn(1) par by (simp add: collect_eset_def sx_simps)
  ultimately show ?thesis
    using that cn(2) cf subs sx_keepsD [OF settings_Collect run] by blast
qed

lemma collect_eset_wp:
  assumes es: "star_eset es" "answers sql db es" "keys_fit db es" and par: "0 < par" and ex: "exact_cards db sm"
  shows "sx_wp (collect_eset sql par es) (\<lambda>_ t. exact_cards db t \<and> has_stars t es \<and> same_settings sm t \<and>
    dom (sm_statistics sm) \<subseteq> dom (sm_statistics t)) sm"
proof -
  have std: "std_set (Entries es)" "distinct (GetTableList es)"
    using es(1) by (simp_all add: star_eset_def)
  obtain cn subs sm' where cn: "mset cn = mset (map (entry_of es) (count_rows db es))" and cf: "counts_for es cn"
    and subs: "prepared_subsets es sm = Inr subs" and run: "collect_eset sql par es sm = (Inr (), sm')"
    and set: "same_settings sm sm'"
    and ev: "\<And>k. if k \<in> set subs \<and> sm_statistics sm k = None
      then \<exists>st. sm_statistics sm' k = Some st \<and> collect_alone (sm_CompressPrecision sm) cn k = Inr st
      else sm_statistics sm' k = sm_statistics sm k"
    using collect_eset_run [OF es par] by metis
  have new: "st_card st = real (star_join_size db (Entries k))"
    if k: "k \<in> set subs" "2 \<le> length (Entries k)"
      and st: "collect_alone (sm_CompressPrecision sm) cn k = Inr st" for k st
  proof -
    obtain ys where ys: "subseq ys (Entries es)" "k = EqualSet (collapse_singleton ys)"
      using prepared_subset_of [OF subs std(1) k(1)] by blast
    then have e: "Entries k = ys" using k(2) by (auto simp: collapse_singleton_def split: if_splits)
    have t: "GetTableList k = map TableName ys" by (simp add: GetTableList_def e)
    have "distinct (GetTableList k)"
      using std(2) subseq_sub [OF subseq_map [OF ys(1), of TableName]] by (simp add: t GetTableList_def [of es])
    moreover have "\<forall>(cnt, freq) \<in> set cn. counts_fit cnt \<and> 0 \<le> freq"
      using cf by (auto simp: counts_for_def list_all_iff)
    ultimately have "st_card st = of_int (\<Sum>(cnt, freq) \<leftarrow> cn. freq * prod_list (map (count_of cnt) (GetTableList k)))"
      using collect_alone_card [of k cn "sm_CompressPrecision sm"] st by auto
    also have "\<dots> = of_int (int (star_join_size db ys))"
    proof -
      have "set ys \<subseteq> set (Entries es)" "ys \<noteq> []" using subseq_sub [OF ys(1)] k(2) e by auto
      from counted_star [OF es(1) cn this] show ?thesis unfolding t by (rule arg_cong)
    qed
    finally show ?thesis by (simp add: e)
  qed
  have exact: "exact_cards db sm'"
    unfolding exact_cards_def
  proof (intro allI impI, elim conjE)
    fix k st assume k: "sm_statistics sm' k = Some st" "2 \<le> length (Entries k)"
    show "st_card st = real (star_join_size db (Entries k))"
      using ev [of k] k new [of k st] ex by (auto simp: exact_cards_def split: if_splits)
  qed
  have "sm_statistics sm' k \<noteq> None" if "k \<in> set subs" for k
    using ev [of k] that by (auto split: if_splits)
  then have "has_stars sm' es"
    using prepared_subsets_mem [OF subs std(1)] set unfolding has_stars_def same_settings_def by auto
  moreover have "dom (sm_statistics sm) \<subseteq> dom (sm_statistics sm')"
  proof
    fix k assume "k \<in> dom (sm_statistics sm)"
    then show "k \<in> dom (sm_statistics sm')" using ev [of k] by (auto split: if_splits)
  qed
  ultimately show ?thesis
    using exact set run by (simp add: sx_wp_result)
qed

end
