(* ===== verification/Collected.thy ===== *)
theory Collected
  imports StarJoin Driver_Files
begin

text \<open>
  The collection of \<^verbatim>\<open>main.cpp\<close> from the schema file to the statistics file, and a later run
  that reads the file: every stored cardinality of two or more columns is the exact size of
  their star join, and nothing is lost on the way through the file.
\<close>

section \<open>The shape of collected statistics\<close>

text \<open>The domain of the sequences is the list of tables, before and after a collection.\<close>

definition domain_ok :: "DSStatistic \<Rightarrow> bool" where
  "domain_ok st \<longleftrightarrow> dom (st_ds st) = set (st_tables st)"

lemma dom_upd: "t \<in> dom (st_ds s) \<Longrightarrow> dom (st_ds (upd_ds t g s)) = dom (st_ds s)"
  by (simp add: insert_absorb)

lemma fold_upd_domain:
  assumes "set ts \<subseteq> dom (st_ds s)"
  shows "dom (st_ds (fold (\<lambda>t s. upd_ds t (f t s) s) ts s)) = dom (st_ds s) \<and>
     st_tables (fold (\<lambda>t s. upd_ds t (f t s) s) ts s) = st_tables s"
  using assms
proof (induction ts arbitrary: s)
  case (Cons t ts)
  have d: "dom (st_ds (upd_ds t (f t s) s)) = dom (st_ds s)" using Cons.prems by (intro dom_upd) simp
  then have "set ts \<subseteq> dom (st_ds (upd_ds t (f t s) s))" using Cons.prems by simp
  from Cons.IH [OF this] d show ?case by simp
qed simp

lemma stat_AddDegree_domain:
  assumes "stat_AddDegree cnt freq st = Inr st'" "domain_ok st"
  shows "domain_ok st' \<and> st_tables st' = st_tables st"
proof -
  obtain r where r: "count_product cnt (st_tables st) 1 = Inr r"
    using assms(1) by (auto simp: stat_AddDegree_def res_bind_def split: sum.splits)
  show ?thesis
  proof (cases "r = None \<or> r = Some 0")
    case True
    then show ?thesis using assms r by (auto simp: stat_AddDegree_def)
  next
    case False
    then obtain p where p: "r = Some p" "p \<noteq> 0" by auto
    let ?s = "fold (\<lambda>t. upd_ds t (AddDegree (of_int p / of_int (the (cnt t))) (the (cnt t) * freq) (st_precision st)))
        (st_tables st) st"
    have "set (st_tables st) \<subseteq> dom (st_ds st)" using assms(2) by (simp add: domain_ok_def)
    from fold_upd_domain [OF this, of "\<lambda>t s. AddDegree (of_int p / of_int (the (cnt t))) (the (cnt t) * freq) (st_precision st)"]
    have d: "dom (st_ds ?s) = dom (st_ds st)" "st_tables ?s = st_tables st" by simp_all
    have "\<exists>c x. st' = ?s\<lparr>st_centralDs := c, st_card := x\<rparr>"
      using assms(1) r p by (auto simp: stat_AddDegree_def Let_def)
    then obtain c x where "st' = ?s\<lparr>st_centralDs := c, st_card := x\<rparr>" by blast
    then show ?thesis using d assms(2) by (simp add: domain_ok_def)
  qed
qed

lemma add_counts_domain:
  assumes "add_counts cn st = Inr st'" "domain_ok st"
  shows "domain_ok st' \<and> st_tables st' = st_tables st"
proof (rule res_fold_invariant [where P = "\<lambda>s. domain_ok s \<and> st_tables s = st_tables st"])
  show "res_fold (\<lambda>(cnt, freq). stat_AddDegree (map_of cnt) freq) cn st = Inr st'"
    using assms(1) by (simp add: add_counts_def)
qed (use assms(2) stat_AddDegree_domain in auto)

lemma ds_stored_FinishCollection [simp]: "ds_stored (FinishCollection d)"
  by (simp add: ds_stored_def) (simp add: FinishCollection_def Let_def)

lemma ds_stored_LimitDsToCard [simp]: "ds_stored d \<Longrightarrow> ds_stored (LimitDsToCard c d)"
  by (simp add: ds_stored_def ds_wf_def LimitDsToCard_def)

lemma finish_tables_stored:
  assumes "res_fold (\<lambda>t s. if ds_collecting (ds_at s t) then Inr (upd_ds t FinishCollection s)
                        else Inl (Undefined ''sum[i]'')) ts s = Inr s'" "set ts \<subseteq> dom (st_ds s)"
  shows "dom (st_ds s') = dom (st_ds s) \<and> st_tables s' = st_tables s \<and>
    (\<forall>t. t \<in> set ts \<or> ds_stored (ds_at s t) \<longrightarrow> ds_stored (ds_at s' t))"
  using assms
proof (induction ts arbitrary: s)
  case (Cons t ts)
  have d: "dom (st_ds (upd_ds t FinishCollection s)) = dom (st_ds s)" using Cons.prems(2) by (intro dom_upd) simp
  have r: "res_fold (\<lambda>t s. if ds_collecting (ds_at s t) then Inr (upd_ds t FinishCollection s)
        else Inl (Undefined ''sum[i]'')) ts (upd_ds t FinishCollection s) = Inr s'"
    using Cons.prems(1) by (auto split: if_splits)
  from Cons.IH [OF r] d Cons.prems(2) show ?case by auto
qed simp

lemma limit_all_stored:
  assumes "set (st_tables s) \<subseteq> dom (st_ds s)"
  shows "dom (st_ds (LimitAllDsToCard s)) = dom (st_ds s) \<and> st_tables (LimitAllDsToCard s) = st_tables s \<and>
    st_centralDs (LimitAllDsToCard s) = st_centralDs s \<and>
    (\<forall>t. ds_stored (ds_at s t) \<longrightarrow> ds_stored (ds_at (LimitAllDsToCard s) t))"
proof -
  have "\<forall>t. ds_stored (ds_at s t) \<longrightarrow> ds_stored (ds_at (fold (\<lambda>t s. upd_ds t (LimitDsToCard (st_card s)) s) ts s) t)" for ts s
  proof (induction ts arbitrary: s)
    case (Cons a ts)
    have "ds_stored (ds_at (upd_ds a (LimitDsToCard (st_card s)) s) t)" if "ds_stored (ds_at s t)" for t
      using that by auto
    then show ?case using Cons.IH [of "upd_ds a (LimitDsToCard (st_card s)) s"] by simp
  qed simp
  then show ?thesis
    using fold_upd_domain [OF assms, of "\<lambda>t s. LimitDsToCard (st_card s)"] LimitAll_frame [of s]
    unfolding LimitAllDsToCard_def same_frame_def by blast
qed

lemma stat_Finish_stored:
  assumes "stat_FinishCollection s = Inr s'" "domain_ok s"
  shows "domain_ok s' \<and> st_tables s' = st_tables s \<and> ds_stored (st_centralDs s') \<and>
    (\<forall>t \<in> set (st_tables s). ds_stored (ds_at s' t))"
proof -
  obtain u where u: "res_fold (\<lambda>t s. if ds_collecting (ds_at s t) then Inr (upd_ds t FinishCollection s)
      else Inl (Undefined ''sum[i]'')) (st_tables s) s = Inr u"
    and s': "s' = (let s2 = LimitAllDsToCard (u\<lparr>st_centralDs := FinishCollection (st_centralDs u)\<rparr>)
       in s2\<lparr>st_centralDs := LimitDsToCard (st_card s2) (st_centralDs s2)\<rparr>)"
    using assms(1) by (auto simp: stat_FinishCollection_def res_bind_def Let_def split: sum.splits if_splits)
  have sub: "set (st_tables s) \<subseteq> dom (st_ds s)" using assms(2) by (simp add: domain_ok_def)
  note f = finish_tables_stored [OF u sub]
  let ?v = "u\<lparr>st_centralDs := FinishCollection (st_centralDs u)\<rparr>"
  have l: "dom (st_ds (LimitAllDsToCard ?v)) = dom (st_ds ?v) \<and> st_tables (LimitAllDsToCard ?v) = st_tables ?v \<and>
      st_centralDs (LimitAllDsToCard ?v) = st_centralDs ?v \<and>
      (\<forall>t. ds_stored (ds_at ?v t) \<longrightarrow> ds_stored (ds_at (LimitAllDsToCard ?v) t))"
    using f sub by (intro limit_all_stored) simp
  show ?thesis
    using f l assms(2) unfolding s' Let_def domain_ok_def by simp
qed

lemma collect_alone_stored:
  assumes "collect_alone p cn k = Inr st" "Entries k \<noteq> []" "eset_stored k"
  shows "stat_stored st"
proof -
  obtain u where u: "add_counts cn (DSStatistic_tables (GetTableList k) p) = Inr u" "stat_FinishCollection u = Inr st"
    using assms(1) by (auto simp: collect_alone_def res_bind_def split: sum.splits)
  have d: "domain_ok u \<and> st_tables u = GetTableList k"
    using add_counts_domain [OF u(1)] by (simp add: domain_ok_def)
  note f = stat_Finish_stored [OF u(2) conjunct1 [OF d]]
  have "ds_stored (the (st_ds st t))" if "t \<in> set (GetTableList k)" for t
  proof -
    have "t \<in> dom (st_ds st)" "ds_stored (ds_at st t)" using f d that by (auto simp: domain_ok_def)
    then show ?thesis by (auto simp: ds_at_def)
  qed
  then show ?thesis
    using f d assms(2,3) by (auto simp: stat_stored_def domain_ok_def list_all_iff eset_stored_def GetTableList_def)
qed


section \<open>The collection of a schema file\<close>

definition collectable :: "(string \<Rightarrow> int list list res) \<Rightarrow> 'v database \<Rightarrow> EqualSet \<Rightarrow> bool" where
  "collectable sql db es \<longleftrightarrow> star_eset es \<and> eset_stored es \<and> answers sql db es \<and> keys_fit db es"

lemma eset_stored_sub:
  assumes "eset_stored es" "subseq ys (Entries es)" "ys \<noteq> []"
  shows "eset_stored (EqualSet (collapse_singleton ys))"
proof -
  have "std_set ys" using assms(1,2) std_set_bits_sub by (auto simp: eset_stored_def bits_sub_subseq)
  with assms(3) show ?thesis
    by (cases ys) (auto simp: eset_stored_def collapse_singleton_def std_set_def)
qed

lemma collect_eset_stored:
  assumes es: "star_eset es" "answers sql db es" "keys_fit db es" "eset_stored es" and st: "sm_stored sm"
    and par: "0 < par"
  shows "sx_wp (collect_eset sql par es) (\<lambda>_. sm_stored) sm"
proof -
  have std: "std_set (Entries es)" using es(4) by (simp add: eset_stored_def)
  obtain cn subs sm' where subs: "prepared_subsets es sm = Inr subs"
    and run: "collect_eset sql par es sm = (Inr (), sm')"
    and ev: "\<And>k. if k \<in> set subs \<and> sm_statistics sm k = None
      then \<exists>st. sm_statistics sm' k = Some st \<and> collect_alone (sm_CompressPrecision sm) cn k = Inr st
      else sm_statistics sm' k = sm_statistics sm k"
    using collect_eset_run [OF es(1-3) par] by metis
  have "dom (sm_statistics sm') \<subseteq> dom (sm_statistics sm) \<union> set subs"
  proof
    fix k assume "k \<in> dom (sm_statistics sm')"
    then obtain st where "sm_statistics sm' k = Some st" by blast
    then show "k \<in> dom (sm_statistics sm) \<union> set subs" using ev [of k] by (cases "k \<in> set subs") auto
  qed
  then have "finite (dom (sm_statistics sm'))"
    using st by (auto simp: sm_stored_iff intro: finite_subset)
  moreover have "eset_stored k \<and> stat_stored u" if k: "sm_statistics sm' k = Some u" "Entries k \<noteq> []" for k u
  proof (cases "k \<in> set subs \<and> sm_statistics sm k = None")
    case True
    obtain ys where ys: "subseq ys (Entries es)" "k = EqualSet (collapse_singleton ys)"
      using prepared_subset_of [OF subs std] True by blast
    have "ys \<noteq> []" using k(2) ys(2) by (auto simp: collapse_singleton_def)
    then have e: "eset_stored k" using eset_stored_sub [OF es(4) ys(1)] ys(2) by simp
    have "collect_alone (sm_CompressPrecision sm) cn k = Inr u" using ev [of k] True k(1) by auto
    from collect_alone_stored [OF this k(2) e] e show ?thesis by blast
  next
    case False
    then show ?thesis using ev [of k] k st by (auto simp: sm_stored_iff)
  qed
  ultimately have "sm_stored sm'" unfolding sm_stored_iff by blast
  then show ?thesis using run by (simp add: sx_wp_result)
qed

text \<open>What holds after some equal sets of the schema were collected.\<close>

definition collected :: "'v database \<Rightarrow> StatisticManager \<Rightarrow> EqualSet list \<Rightarrow> StatisticManager \<Rightarrow> bool" where
  "collected db sm esets t \<longleftrightarrow> exact_cards db t \<and> sm_stored t \<and> same_settings sm t \<and> list_all (has_stars t) esets"

lemma has_stars_mono:
  assumes "has_stars s es" "same_settings s t" "dom (sm_statistics s) \<subseteq> dom (sm_statistics t)"
  shows "has_stars t es"
  unfolding has_stars_def
proof (intro allI impI, elim conjE)
  fix ys
  assume "subseq ys (Entries es)" "sm_EnableStarSplit t \<longrightarrow> length ys \<le> size_t_of_int (sm_MaxStarSize t)"
  then have "EqualSet (collapse_singleton ys) \<in> dom (sm_statistics s)"
    using assms(1,2) by (simp add: has_stars_def same_settings_def dom_def)
  then show "sm_statistics t (EqualSet (collapse_singleton ys)) \<noteq> None" using assms(3) by auto
qed

lemma collect_all_wp:
  assumes "list_all (collectable sql db) esets" "exact_cards db sm" "sm_stored sm" and par: "0 < par"
  shows "sx_wp (sx_for (\<lambda>es _. collect_eset sql par es) esets ()) (\<lambda>_. collected db sm esets) sm"
proof (rule sx_wp_for [where I = "\<lambda>done _. collected db sm done"])
  show "collected db sm [] sm" using assms(2,3) by (simp add: collected_def same_settings_def)
  fix "done" es rest acc t
  assume split: "esets = done @ es # rest" and t: "collected db sm done t"
  have es: "star_eset es" "answers sql db es" "keys_fit db es" "eset_stored es"
    using assms(1) by (simp_all add: split collectable_def)
  have "exact_cards db t" "sm_stored t" using t by (simp_all add: collected_def)
  from collect_eset_wp [OF es(1-3) par this(1)] collect_eset_stored [OF es this(2) par]
  obtain u where u: "collect_eset sql par es t = (Inr (), u)" "exact_cards db u" "has_stars u es" "same_settings t u"
    "dom (sm_statistics t) \<subseteq> dom (sm_statistics u)" "sm_stored u"
    unfolding sx_wp_result by auto
  have "same_settings sm u" using t u(4) by (simp add: collected_def same_settings_def)
  moreover have "list_all (has_stars u) done"
    using t has_stars_mono [OF _ u(4,5)] by (auto simp: collected_def list_all_iff)
  ultimately have "collected db sm (done @ [es]) u" using u by (simp add: collected_def)
  then show "sx_wp (collect_eset sql par es) (\<lambda>_. collected db sm (done @ [es])) t"
    using u(1) by (simp add: sx_wp_result)
qed

lemma collected_CalcAdjustRate: "collected db sm esets t \<Longrightarrow> collected db sm esets (CalcAdjustRate t)"
proof -
  have "sm_statistics (CalcAdjustRate t) = sm_statistics t" "same_settings t (CalcAdjustRate t)"
    by (simp_all add: CalcAdjustRate_def same_settings_def)
  then show "collected db sm esets t \<Longrightarrow> ?thesis"
    by (simp add: collected_def exact_cards_def sm_stored_iff same_settings_def has_stars_def list_all_iff)
qed

lemma in_sm_wp: "sx_wp (in_sm m) Q w \<longleftrightarrow> sx_wp m (\<lambda>x t. Q x (w\<lparr>w_sm := t\<rparr>)) (w_sm w)"
  by (simp add: sx_wp_def in_sm_def split: prod.split sum.split)

lemma CollectStatistics_wp:
  assumes schema: "w_files w path = Some s" "parse s = Inr j" "read_esets j = Inr esets"
    and ok: "list_all (collectable sql db) esets" "exact_cards db (w_sm w)" "sm_stored (w_sm w)"
    and out: "w_writable w (c_STATS_PATH cfg)" and par: "0 < c_CollectParallel cfg"
  shows "sx_wp (CollectStatistics dump parse sql cfg path) (\<lambda>_ u. collected db (w_sm w) esets (w_sm u) \<and>
    w_files u (c_STATS_PATH cfg) = Some (dump (sm_doc (w_sm u)))) w"
proof -
  have rest: "sx_wp (sx_bind (in_sm (sx_mod CalcAdjustRate)) (\<lambda>_.
     sx_bind (open_out (c_STATS_PATH cfg)) (\<lambda>_.
     sx_bind (sx_read (\<lambda>w. sm_serialize dump (w_sm w))) (\<lambda>text. put (c_STATS_PATH cfg) text))))
     (\<lambda>_ u. collected db (w_sm w) esets (w_sm u) \<and>
        w_files u (c_STATS_PATH cfg) = Some (dump (sm_doc (w_sm u)))) (w\<lparr>w_sm := t\<rparr>)"
    if "collected db (w_sm w) esets t" for t
  proof -
    have c: "collected db (w_sm w) esets (CalcAdjustRate t)" by (rule collected_CalcAdjustRate [OF that])
    then have "sm_to_json (CalcAdjustRate t) = Inr (sm_doc (CalcAdjustRate t))"
      by (intro sm_to_json_doc) (simp add: collected_def)
    then show ?thesis
      using out c by (simp add: sx_wp in_sm_wp open_out_def put_def sx_wp_read sm_serialize_def)
  qed
  have loop: "sx_wp (in_sm (sx_for (\<lambda>es _. collect_eset sql (c_CollectParallel cfg) es) esets ()))
      (\<lambda>_ u. \<exists>t. u = w\<lparr>w_sm := t\<rparr> \<and> collected db (w_sm w) esets t) w"
    unfolding in_sm_wp by (rule sx_wp_mono [OF collect_all_wp [OF ok par]]) blast
  have r: "sx_wp (CollectStatistics dump parse sql cfg path) Q w \<longleftrightarrow>
        sx_wp (sx_bind (in_sm (sx_for (\<lambda>es _. collect_eset sql (c_CollectParallel cfg) es) esets ())) (\<lambda>_.
          sx_bind (in_sm (sx_mod CalcAdjustRate)) (\<lambda>_.
          sx_bind (open_out (c_STATS_PATH cfg)) (\<lambda>_.
          sx_bind (sx_read (\<lambda>w. sm_serialize dump (w_sm w))) (\<lambda>text.
            put (c_STATS_PATH cfg) text))))) Q w" for Q
      using schema by (simp add: CollectStatistics_def read_file_def sx_wp_bind [where m = "sx_read f" for f] sx_wp_read)
  show ?thesis
    unfolding r by (subst sx_wp_bind, rule sx_wp_mono [OF loop]) (use rest in blast)
qed


text \<open>
  C4: if the engine answers the counting query of every equal set of the schema file with the
  distinct count vectors of the database and their frequencies, and the equal sets have one
  column per table and counts whose products fit in \<open>int64_t\<close>, then \<open>CollectStatistics\<close> succeeds,
  the cardinality of every statistic of two or more columns is exactly the size of the star
  join of these columns, and every subset of an equal set (every small one, with star
  splitting) has a statistic.
\<close>

theorem collected_cards_exact:
  assumes "w_files w path = Some s" "parse s = Inr j" "read_esets j = Inr esets"
    "list_all (collectable sql db) esets" "exact_cards db (w_sm w)" "sm_stored (w_sm w)"
    "w_writable w (c_STATS_PATH cfg)" "0 < c_CollectParallel cfg"
  shows "\<exists>w'. CollectStatistics dump parse sql cfg path w = (Inr (), w') \<and>
    exact_cards db (w_sm w') \<and> list_all (has_stars (w_sm w')) esets"
  using CollectStatistics_wp [where w = w and path = path and parse = parse and sql = sql and db = db and cfg = cfg and dump = dump,
    OF assms] unfolding sx_wp_result collected_def by auto

text \<open>
  C5: a second run of the program does not need the database: if the JSON library reads back the
  documents it wrote, \<open>TryReadStatistics\<close> gives a fresh manager the statistics and adjustment
  rates of the collection that wrote the file, and its cardinalities are the exact sizes of
  the star joins.
\<close>

theorem collection_survives_restart:
  assumes run: "CollectStatistics dump parse sql cfg path w = (Inr (), w')"
    and law: "json_law dump parse (file_docs (w_sm w'))"
    and schema: "w_files w path = Some s" "parse s = Inr j" "read_esets j = Inr esets"
    and ok: "list_all (collectable sql db) esets" "exact_cards db (w_sm w)" "sm_stored (w_sm w)"
    and out: "w_writable w (c_STATS_PATH cfg)" and par: "0 < c_CollectParallel cfg"
    and some: "\<not> list_all (\<lambda>es. Entries es = []) esets"
      "\<not> sm_EnableStarSplit (w_sm w) \<or> 3 \<le> sm_MaxStarSize (w_sm w) \<and> sm_MaxStarSize (w_sm w) < 2 ^ 31"
    and second: "\<not> c_RefreshStatistics cfg'" "sm_statistics sm = Map.empty"
  shows "\<exists>w''. TryReadStatistics dump parse cfg' (c_STATS_PATH cfg) (w'\<lparr>w_sm := sm\<rparr>) = (Inr True, w'') \<and>
    w_sm w'' = reloaded (w_sm w') sm \<and> exact_cards db (w_sm w'')"
proof -
  have c: "collected db (w_sm w) esets (w_sm w')"
    and written: "w_files w' (c_STATS_PATH cfg) = Some (dump (sm_doc (w_sm w')))"
    using CollectStatistics_wp [where w = w and path = path and parse = parse and sql = sql and db = db and cfg = cfg and dump = dump,
        OF schema ok out par] run by (auto simp: sx_wp_def)
  have st: "sm_stored (w_sm w')" and ex: "exact_cards db (w_sm w')" using c by (simp_all add: collected_def)
  obtain es where "es \<in> set esets" "Entries es \<noteq> []" using some(1) by (auto simp: list_all_iff)
  then obtain e where es: "es \<in> set esets" "e \<in> set (Entries es)" using list.set_sel(1) by blast
  have "sm_EnableStarSplit (w_sm w') \<longrightarrow> length [e] \<le> size_t_of_int (sm_MaxStarSize (w_sm w'))"
    using c some(2) by (auto simp: collected_def same_settings_def size_t_of_int_def le_nat_iff)
  then have "sm_statistics (w_sm w') (EqualSet (collapse_singleton [e])) \<noteq> None"
    using c es by (auto simp: collected_def list_all_iff has_stars_def subseq_singleton_left)
  then have "EqualSet (collapse_singleton [e]) \<in> set (file_keys (w_sm w'))"
    using st by (auto simp: file_keys_def sm_stored_def collapse_singleton_def)
  then have "file_keys (w_sm w') \<noteq> []" by auto
  note d = sm_deserialize_doc [OF law st this]
  have "TryReadStatistics dump parse cfg' (c_STATS_PATH cfg) (w'\<lparr>w_sm := sm\<rparr>) =
      (Inr True, w'\<lparr>w_sm := reloaded (w_sm w') sm\<rparr>)"
    using second(1) by (simp add: TryReadStatistics_def sx_simps written d)
  moreover have "exact_cards db (reloaded (w_sm w') sm)"
    unfolding exact_cards_def
  proof (intro allI impI, elim conjE)
    fix k u assume k: "sm_statistics (reloaded (w_sm w') sm) k = Some u" "2 \<le> length (Entries k)"
    then obtain st where "sm_statistics (w_sm w') k = Some st" "st_card u = st_card st"
      using second(2) by (auto simp: reloaded_def split: if_splits)
    then show "st_card u = real (star_join_size db (Entries k))"
      using ex k(2) by (simp add: exact_cards_def)
  qed
  ultimately show ?thesis by auto
qed

text \<open>
  Two tables with a common column; the engine answers from the specification of the query.
\<close>

definition small_db :: "nat database" where
  "small_db c = (if TableName c = ''a'' then [Some 1, Some 1, Some 2, None] else [Some 1, Some 2, Some 2])"

definition small_schema :: json where
  "small_schema = JObj [(''EqualSets'', JArr [EqualSet_doc two_columns])]"

definition small_sql :: "string \<Rightarrow> int list list res" where
  "small_sql q = (if q = countNumQuery two_columns then Inr (count_rows small_db two_columns) else Inl type_error)"

definition small_world :: World where
  "small_world = \<lparr>w_files = [''s'' \<mapsto> ''schema''], w_writable = (\<lambda>_. True), w_sm = StatisticManager_init\<rparr>"

lemma small_collectable: "collectable small_sql small_db two_columns"
proof -
  have "star_eset two_columns \<and> eset_stored two_columns"
    by (simp add: star_eset_def eset_stored_def two_columns_def std_set_def less_TableColumn_iff GetTableList_def)
  moreover have "keys_fit small_db two_columns"
    by (simp add: keys_fit_def column_keys_def two_columns_def small_db_def key_count_def)
  ultimately show ?thesis by (simp add: collectable_def answers_def small_sql_def)
qed

lemma small_read: "read_esets small_schema = Inr [two_columns]"
  by (simp add: read_esets_def small_schema_def EqualSet_of_doc two_columns_def std_set_def less_TableColumn_iff)

lemma small_start: "exact_cards small_db (w_sm small_world)" "sm_stored (w_sm small_world)"
  by (simp_all add: small_world_def exact_cards_def sm_stored_iff StatisticManager_init_def)

theorem collected_cards_exact_witness:
  "\<exists>w'. CollectStatistics (\<lambda>j. ''text'') (\<lambda>s. Inr small_schema) small_sql reload_config ''s'' small_world = (Inr (), w') \<and>
    exact_cards small_db (w_sm w') \<and> list_all (has_stars (w_sm w')) [two_columns]"
  by (rule collected_cards_exact [where s = "''schema''" and j = small_schema and sql = small_sql])
    (simp_all add: small_read small_collectable small_start, simp_all add: small_world_def reload_config_def)

text \<open>A library that numbers the documents of the file.\<close>

definition nth_dump :: "json list \<Rightarrow> json \<Rightarrow> string" where
  "nth_dump docs j = replicate (length (takeWhile (\<lambda>x. x \<noteq> j) docs)) CHR ''x''"

definition nth_parse :: "json list \<Rightarrow> string \<Rightarrow> json res" where
  "nth_parse docs s = (if s = ''schema'' then Inr small_schema
     else if length s < length docs then Inr (docs ! length s) else Inl type_error)"

lemma nth_law: "json_law (nth_dump docs) (nth_parse docs) docs"
  unfolding json_law_def
proof
  fix j assume "j \<in> set docs"
  then have "length (takeWhile (\<lambda>x. x \<noteq> j) docs) < length docs \<and> docs ! length (takeWhile (\<lambda>x. x \<noteq> j) docs) = j"
    by (induction docs) auto
  moreover have "replicate n CHR ''x'' \<noteq> ''schema''" for n by (cases n) auto
  ultimately show "nth_parse docs (nth_dump docs j) = Inr j"
    by (simp add: nth_parse_def nth_dump_def)
qed


text \<open>What the loop of the collection leaves does not depend on the JSON library.\<close>

definition small_result :: StatisticManager where
  "small_result = CalcAdjustRate (snd (sx_for (\<lambda>es _. collect_eset small_sql 8 es) [two_columns] () (w_sm small_world)))"

lemma small_run:
  assumes "parse ''schema'' = Inr small_schema"
  shows "\<exists>w'. CollectStatistics dump parse small_sql reload_config ''s'' small_world = (Inr (), w') \<and> w_sm w' = small_result"
proof -
  obtain t where t: "sx_for (\<lambda>es _. collect_eset small_sql 8 es) [two_columns] () (w_sm small_world) = (Inr (), t)"
    and c: "collected small_db (w_sm small_world) [two_columns] t"
    using collect_all_wp [of small_sql small_db "[two_columns]" "w_sm small_world" 8] small_collectable small_start
    unfolding sx_wp_result by auto
  have r: "small_result = CalcAdjustRate t" unfolding small_result_def t by simp
  have j: "sm_to_json (CalcAdjustRate t) = Inr (sm_doc (CalcAdjustRate t))"
    using collected_CalcAdjustRate [OF c] by (intro sm_to_json_doc) (simp add: collected_def)
  show ?thesis
    using t assms unfolding r
    by (simp add: CollectStatistics_def read_file_def sx_simps small_read in_sm_def
        open_out_def put_def sx_bind_unfold sm_serialize_def j small_world_def reload_config_def del: sx_for.simps)
qed

theorem collection_survives_restart_witness:
  "\<exists>w' w''. CollectStatistics (nth_dump (file_docs small_result)) (nth_parse (file_docs small_result)) small_sql
      reload_config ''s'' small_world = (Inr (), w') \<and>
    TryReadStatistics (nth_dump (file_docs small_result)) (nth_parse (file_docs small_result)) reload_config
      ''stats'' (w'\<lparr>w_sm := StatisticManager_init\<rparr>) = (Inr True, w'') \<and> exact_cards small_db (w_sm w'')"
proof -
  let ?dump = "nth_dump (file_docs small_result)" and ?parse = "nth_parse (file_docs small_result)"
  obtain w' where run: "CollectStatistics ?dump ?parse small_sql reload_config ''s'' small_world = (Inr (), w')"
    and sm: "w_sm w' = small_result"
    using small_run [of ?parse ?dump] by (auto simp: nth_parse_def)
  have law: "json_law ?dump ?parse (file_docs (w_sm w'))" unfolding sm by (rule nth_law)
  have "\<exists>w''. TryReadStatistics ?dump ?parse reload_config (c_STATS_PATH reload_config) (w'\<lparr>w_sm := StatisticManager_init\<rparr>) =
      (Inr True, w'') \<and> w_sm w'' = reloaded (w_sm w') StatisticManager_init \<and> exact_cards small_db (w_sm w'')"
    by (rule collection_survives_restart [OF run law, where s = "''schema''" and j = small_schema])
      (simp_all add: small_read small_collectable small_start two_columns_def,
       simp_all add: small_world_def nth_parse_def small_read [unfolded two_columns_def] small_collectable [unfolded two_columns_def]
         StatisticManager_init_def reload_config_def)
  with run show ?thesis by (auto simp: reload_config_def)
qed

end
