(* ===== verification/StatCollect_Repeat.thy ===== *)
theory StatCollect_Repeat
  imports StatCollect_Total
begin

text \<open>
  An equal set with two columns of one table, as the schema files of the JOB workloads have
  (\<^verbatim>\<open>complete_cast\<close> with \<^verbatim>\<open>subject_id\<close> and \<^verbatim>\<open>status_id\<close>): \<open>FinishCollection\<close> finishes the sequence of the
  table once per column, and the second time it reads the elements of the vector of sums that it
  cleared. The C++ standard gives such a run no meaning. It need not stop: where the memory of the
  cleared vector is still there, the sequence is reversed a second time and its counts are
  compared with the sums of other buckets.
\<close>

section \<open>Sequences that were filled or finished\<close>

definition counting :: "DegreeSequence \<Rightarrow> bool" where
  "counting d \<longleftrightarrow> ds_collecting d \<and> (\<forall>c \<in> set (ds_count d). 0 \<le> c)"

definition filled :: "DegreeSequence \<Rightarrow> bool" where
  "filled d \<longleftrightarrow> counting d \<and> (\<exists>i < length (ds_count d). 0 < ds_count d ! i \<and> 0 < ds_maxDegree d ! i)"

definition finished :: "DegreeSequence \<Rightarrow> bool" where
  "finished d \<longleftrightarrow> ds_count d \<noteq> [] \<and> ds_sum d = []"

lemma AddDegree_filled:
  assumes "counting d" "0 < deg" "0 < c"
  shows "filled (AddDegree deg c p d)"
proof -
  let ?pos = "bucket_pos deg p"
  define e where "e = (if ?pos \<ge> length (ds_maxDegree d)
    then \<lparr>ds_maxDegree = resize (?pos + 1) 0 (ds_maxDegree d), ds_count = resize (?pos + 1) 0 (ds_count d),
          ds_sum = resize (?pos + 1) 0 (ds_sum d)\<rparr> else d)"
  have d: "ds_collecting e" "\<forall>c \<in> set (ds_count e). 0 \<le> c" "?pos < length (ds_count e)"
    using assms(1) by (auto simp: e_def counting_def ds_collecting_def resize_def dest: in_set_takeD)
  have a: "AddDegree deg c p d = \<lparr>ds_maxDegree = (ds_maxDegree e)[?pos := max (ds_maxDegree e ! ?pos) deg],
      ds_count = (ds_count e)[?pos := ds_count e ! ?pos + c],
      ds_sum = (ds_sum e)[?pos := ds_sum e ! ?pos + deg * of_int c]\<rparr>"
    by (simp add: AddDegree_def Let_def e_def)
  have "0 \<le> ds_count e ! ?pos" using d by simp
  then have "0 < ds_count e ! ?pos + c" using assms(3) by simp
  moreover have "\<forall>x \<in> set ((ds_count e)[?pos := ds_count e ! ?pos + c]). 0 \<le> x"
    using d(2) \<open>0 < ds_count e ! ?pos + c\<close> set_update_subset_insert [of "ds_count e" ?pos "ds_count e ! ?pos + c"] by fastforce
  moreover have "?pos < length (ds_maxDegree e)" using d by (simp add: ds_collecting_def)
  moreover have "0 < max (ds_maxDegree e ! ?pos) deg" using assms(2) by (simp add: less_max_iff_disj)
  ultimately show ?thesis
    unfolding a filled_def counting_def using d by (auto simp: ds_collecting_def intro!: exI [of _ ?pos])
qed

lemma FinishCollection_finished:
  assumes "filled d"
  shows "finished (FinishCollection d)"
proof -
  obtain i where i: "i < length (ds_count d)" "0 < ds_count d ! i" "0 < ds_maxDegree d ! i"
    and len: "length (ds_count d) = length (ds_maxDegree d)" "length (ds_sum d) = length (ds_maxDegree d)"
    using assms by (auto simp: filled_def counting_def ds_collecting_def)
  let ?z = "zip (rev (ds_maxDegree d)) (zip (rev (ds_count d)) (rev (ds_sum d)))"
  let ?j = "length (ds_count d) - Suc i"
  have "?z ! ?j = (ds_maxDegree d ! i, ds_count d ! i, ds_sum d ! i)" "?j < length ?z"
    using i(1) len by (simp_all add: rev_nth)
  then have "(ds_maxDegree d ! i, ds_count d ! i, ds_sum d ! i) \<in> set (filter (\<lambda>(m, c, s). \<not> (c = 0 \<or> m = 0)) ?z)"
    using i(2,3) nth_mem [of ?j ?z] by simp
  then have "filter (\<lambda>(m, c, s). \<not> (c = 0 \<or> m = 0)) ?z \<noteq> []" by (metis empty_iff empty_set)
  then show ?thesis by (simp add: finished_def FinishCollection_def Let_def)
qed

lemma finished_not_collecting: "finished d \<Longrightarrow> \<not> ds_collecting d"
  by (auto simp: finished_def ds_collecting_def)

section \<open>The loop that finishes the single sequences\<close>

lemma finish_single_eval:
  "finish_single e sm =
     (case sm_singleDS sm (TableName e) of
        None \<Rightarrow> (Inl (Runtime_error ''Table not found in singleDS''), sm)
      | Some d \<Rightarrow> if ds_collecting d
          then (Inr (), sm\<lparr>sm_singleDS := (sm_singleDS sm)(TableName e \<mapsto> FinishCollection d)\<rparr>)
          else (Inl (Undefined ''sum[i]''), sm))"
  by (simp add: finish_single_def sx_simps split: option.split)

lemma finish_twice_fails:
  assumes "sm_singleDS sm t = Some d" "finished d" "t \<in> set (map TableName cs)"
    and "set (map TableName cs) \<subseteq> dom (sm_singleDS sm)"
  shows "fst (sx_for (\<lambda>e _. finish_single e) cs () sm) = Inl (Undefined ''sum[i]'')"
  using assms
proof (induction cs arbitrary: sm)
  case (Cons c cs)
  show ?case
  proof (cases "TableName c = t")
    case True
    then show ?thesis using Cons.prems(1,2) finished_not_collecting
      by (simp add: finish_single_eval [of c sm] sx_bind_def)
  next
    case False
    obtain d' where d': "sm_singleDS sm (TableName c) = Some d'" using Cons.prems(4) by auto
    let ?s = "sm\<lparr>sm_singleDS := (sm_singleDS sm)(TableName c \<mapsto> FinishCollection d')\<rparr>"
    have "set (map TableName cs) \<subseteq> dom (sm_singleDS ?s)" using Cons.prems(4) by auto
    moreover have "sm_singleDS ?s t = Some d" using False Cons.prems(1) by simp
    ultimately have "fst (sx_for (\<lambda>e _. finish_single e) cs () ?s) = Inl (Undefined ''sum[i]'')"
      using False Cons.prems(2,3) by (intro Cons.IH) (assumption | simp)+
    then show ?thesis by (simp add: finish_single_eval [of c sm] sx_bind_def d')
  qed
qed simp

lemma finish_repeated_fails:
  assumes "sm_singleDS sm t = Some d" "filled d" "2 \<le> count_list (map TableName cs) t"
    and "set (map TableName cs) \<subseteq> dom (sm_singleDS sm)"
  shows "fst (sx_for (\<lambda>e _. finish_single e) cs () sm) = Inl (Undefined ''sum[i]'')"
  using assms
proof (induction cs arbitrary: sm)
  case (Cons c cs)
  show ?case
  proof (cases "TableName c = t")
    case True
    have "count_list (map TableName cs) t \<noteq> 0" using Cons.prems(3) True by simp
    then have "t \<in> set (map TableName cs)" by (simp add: count_list_0_iff)
    moreover have "ds_collecting d" using Cons.prems(2) by (simp add: filled_def counting_def)
    moreover have "set (map TableName cs) \<subseteq> dom ((sm_singleDS sm)(t \<mapsto> FinishCollection d))" using Cons.prems(4) by auto
    ultimately show ?thesis
      using Cons.prems(1,2) True FinishCollection_finished
        finish_twice_fails [of "sm\<lparr>sm_singleDS := (sm_singleDS sm)(t \<mapsto> FinishCollection d)\<rparr>" t "FinishCollection d" cs]
      by (simp add: finish_single_eval [of c sm] sx_bind_def)
  next
    case False
    obtain d' where d': "sm_singleDS sm (TableName c) = Some d'" using Cons.prems(4) by auto
    let ?s = "sm\<lparr>sm_singleDS := (sm_singleDS sm)(TableName c \<mapsto> FinishCollection d')\<rparr>"
    have "set (map TableName cs) \<subseteq> dom (sm_singleDS ?s)" using Cons.prems(4) by auto
    moreover have "sm_singleDS ?s t = Some d" using False Cons.prems(1) by simp
    ultimately have "fst (sx_for (\<lambda>e _. finish_single e) cs () ?s) = Inl (Undefined ''sum[i]'')"
      using False Cons.prems(2,3) by (intro Cons.IH) (assumption | simp)+
    then show ?thesis by (simp add: finish_single_eval [of c sm] sx_bind_def d')
  qed
qed simp

section \<open>Finishing fails in no other way\<close>

lemma res_fold_error:
  "res_fold f xs s = Inl e \<Longrightarrow> (\<And>x s e. f x s = Inl e \<Longrightarrow> Q e) \<Longrightarrow> Q e"
  by (induction xs arbitrary: s) (auto simp: res_bind_def split: sum.splits)

lemma stat_Finish_error:
  assumes "stat_FinishCollection st = Inl e"
  shows "e = Undefined ''sum[i]''"
proof (cases "res_fold (\<lambda>t s. if ds_collecting (ds_at s t) then Inr (upd_ds t FinishCollection s)
    else Inl (Undefined ''sum[i]'')) (st_tables st) st")
  case (Inl e')
  then have "e' = Undefined ''sum[i]''" by (rule res_fold_error) (simp split: if_splits)
  then show ?thesis using assms Inl by (simp add: stat_FinishCollection_def)
next
  case (Inr st')
  then show ?thesis using assms by (simp add: stat_FinishCollection_def Let_def split: if_splits)
qed

lemma for_slots_error:
  assumes "sx_for (\<lambda>(sub, skip, p) _. if skip then sx_ret () else upd_statistic f p) slots () sm = (Inl e, t)"
    "\<forall>(sub, skip, p) \<in> set slots. \<not> skip \<longrightarrow> p = Some sub \<and> sm_statistics sm sub \<noteq> None"
    "\<And>st e. f st = Inl e \<Longrightarrow> e = e0"
  shows "e = e0"
  using assms(1,2)
proof (induction slots arbitrary: sm)
  case (Cons x slots)
  obtain sub skip p where x: "x = (sub, skip, p)" by (cases x)
  show ?case
  proof (cases skip)
    case True
    then show ?thesis using Cons by (simp add: x sx_simps)
  next
    case False
    then obtain st where st: "p = Some sub" "sm_statistics sm sub = Some st" using Cons.prems(2) by (auto simp: x)
    show ?thesis
    proof (cases "f st")
      case (Inl e')
      then have "e = e'" using Cons.prems(1) False st
        by (simp add: x sx_bind_unfold upd_statistic_def sx_eval)
      then show ?thesis using Inl assms(3) by simp
    next
      case (Inr st')
      then have "sx_for (\<lambda>(sub, skip, p) _. if skip then sx_ret () else upd_statistic f p) slots ()
          (sm\<lparr>sm_statistics := (sm_statistics sm)(sub \<mapsto> st')\<rparr>) = (Inl e, t)"
        using Cons.prems(1) False st by (simp add: x sx_bind_unfold upd_statistic_def sx_eval)
      moreover have "\<forall>(u, b, q) \<in> set slots. \<not> b \<longrightarrow> q = Some u \<and>
          sm_statistics (sm\<lparr>sm_statistics := (sm_statistics sm)(sub \<mapsto> st')\<rparr>) u \<noteq> None"
        using Cons.prems(2) by (auto simp: Ball_def)
      ultimately show ?thesis by (rule Cons.IH)
    qed
  qed
qed (simp add: sx_eval)

lemma for_subsets_error:
  assumes "for_subsets f sm = (Inl e, t)" "slots_ok sm" "\<And>st e. f st = Inl e \<Longrightarrow> e = e0"
  shows "e = e0"
proof (rule for_slots_error)
  show "sx_for (\<lambda>(sub, skip, p) _. if skip then sx_ret () else upd_statistic f p) (subset_slots sm) () sm = (Inl e, t)"
    using assms(1) by (simp add: for_subsets_def sx_bind_prim)
  show "\<forall>(sub, skip, p) \<in> set (subset_slots sm). \<not> skip \<longrightarrow> p = Some sub \<and> sm_statistics sm sub \<noteq> None"
    using assms(2) by (force simp: slots_ok_def new_keys_def)
qed (rule assms(3))

section \<open>Adding the counts succeeds\<close>

text \<open>
  Nonnegative counts of the tables of the set whose product over the columns fits in
  \<open>int64_t\<close>, with positive frequencies that fit in an \<open>int\<close>.
\<close>

definition counts_small :: "EqualSet \<Rightarrow> (counts \<times> int) list \<Rightarrow> bool" where
  "counts_small es count_num \<longleftrightarrow> list_all (\<lambda>(cnt, freq). 0 < freq \<and> freq < 2 ^ 31 \<and>
     list_all (\<lambda>(t, c). 0 \<le> c) cnt \<and> set (map fst cnt) \<subseteq> set (GetTableList es) \<and>
     prod_list (map (\<lambda>t. max 1 (count_of cnt t)) (GetTableList es)) < 2 ^ 63) count_num"

lemma prod_list_subseq: "subseq xs ys \<Longrightarrow> (\<And>x. (1::int) \<le> g x) \<Longrightarrow> prod_list (map g xs) \<le> prod_list (map g ys)"
proof (induction rule: list_emb.induct)
  case (list_emb_Cons xs ys y)
  have "1 \<le> prod_list (map g ys)" using list_emb_Cons(3) by (intro prod_list_ge_1)
  then have "prod_list (map g ys) \<le> g y * prod_list (map g ys)"
    using mult_right_mono [OF list_emb_Cons(3) [of y], of "prod_list (map g ys)"] by simp
  then show ?case using list_emb_Cons by simp
next
  case (list_emb_Cons2 x y xs ys)
  then show ?case using order_trans [OF zero_le_one list_emb_Cons2(4) [of y]] by (simp add: mult_left_mono)
qed (simp add: prod_list_ge_1)

lemma fold_upd_tables [simp]: "st_tables (fold (\<lambda>t. upd_ds t (f t)) ts s) = st_tables s"
  by (induction ts arbitrary: s) (simp_all add: upd_ds_def)

lemma stat_AddDegree_small:
  assumes "\<And>t. 0 \<le> count_of cnt t" "prod_list (map (\<lambda>t. max 1 (count_of cnt t)) (st_tables st)) < 2 ^ 63"
  shows "\<exists>st'. stat_AddDegree (map_of cnt) freq st = Inr st' \<and> st_tables st' = st_tables st"
  using count_product_eval [of cnt 1 "st_tables st"] assms by (auto simp: stat_AddDegree_def Let_def)

lemma add_counts_small:
  assumes "\<forall>(cnt, freq) \<in> set count_num. (\<forall>t. 0 \<le> count_of cnt t) \<and>
    prod_list (map (\<lambda>t. max 1 (count_of cnt t)) (st_tables st)) < 2 ^ 63"
  shows "\<exists>st'. add_counts count_num st = Inr st'"
  using assms
proof (induction count_num arbitrary: st)
  case (Cons x count_num)
  obtain cnt freq where x: "x = (cnt, freq)" by (cases x)
  obtain st1 where "stat_AddDegree (map_of cnt) freq st = Inr st1" "st_tables st1 = st_tables st"
    using stat_AddDegree_small [of cnt st freq] Cons.prems by (auto simp: x)
  with Cons show ?case by (simp add: add_counts_def x)
qed (simp add: add_counts_def)

lemma AddDegreeForSingleDS_dom:
  assumes "set (map fst cnt) \<subseteq> T" "T \<subseteq> dom (sm_singleDS sm)"
  shows "sx_wp (AddDegreeForSingleDS cnt freq) (\<lambda>_ t. T \<subseteq> dom (sm_singleDS t)) sm"
  unfolding AddDegreeForSingleDS_def
proof (rule sx_wp_for_keep [where I = "\<lambda>s. T \<subseteq> dom (sm_singleDS s)", OF assms(2)])
  fix x and s :: StatisticManager assume x: "x \<in> set cnt" and s: "T \<subseteq> dom (sm_singleDS s)"
  obtain t c where tc: "x = (t, c)" by (cases x)
  obtain d where "sm_singleDS s t = Some d" using x s assms(1) by (force simp: tc)
  then show "sx_wp ((case x of (t, c) \<Rightarrow> \<lambda>_. if c = 0 then sx_ret ()
         else sx_bind (sx_read (\<lambda>sm. case sm_singleDS sm t of
                 None \<Rightarrow> Inl (Runtime_error ''Table not found in singleDS'')
               | Some d \<Rightarrow> Inr d)) (\<lambda>d.
           sx_mod (\<lambda>sm. sm\<lparr>sm_singleDS := (sm_singleDS sm)
             (t \<mapsto> AddDegree (of_int c) freq (sm_CompressPrecision sm) d)\<rparr>))) ()) (\<lambda>_ t. T \<subseteq> dom (sm_singleDS t)) s"
    using s by (auto simp: tc sx_wp sx_wp_read)
qed

lemma singles_dom:
  assumes "\<forall>(cnt, freq) \<in> set count_num. set (map fst cnt) \<subseteq> T" "T \<subseteq> dom (sm_singleDS sm)"
  shows "sx_wp (sx_for (\<lambda>(cnt, freq) _. AddDegreeForSingleDS cnt (to_int32 freq)) count_num ())
    (\<lambda>_ t. T \<subseteq> dom (sm_singleDS t)) sm"
proof (rule sx_wp_for_keep [where I = "\<lambda>s. T \<subseteq> dom (sm_singleDS s)", OF assms(2)])
  fix x and s :: StatisticManager assume "x \<in> set count_num" and s: "T \<subseteq> dom (sm_singleDS s)"
  then have "set (map fst (fst x)) \<subseteq> T" using assms(1) by (auto simp: case_prod_beta)
  then show "sx_wp ((case x of (cnt, freq) \<Rightarrow> \<lambda>_. AddDegreeForSingleDS cnt (to_int32 freq)) ()) (\<lambda>_ t. T \<subseteq> dom (sm_singleDS t)) s"
    using s by (simp add: case_prod_beta AddDegreeForSingleDS_dom)
qed

section \<open>The whole collection\<close>

lemma AddDegreeForSingleDS_run:
  assumes "AddDegreeForSingleDS cnt freq sm = (Inr (), sm')" "0 < freq" "\<forall>(u, c) \<in> set cnt. 0 \<le> c"
    "sm_singleDS sm t = Some d" "counting d" "b \<longrightarrow> filled d"
  shows "\<exists>d'. sm_singleDS sm' t = Some d' \<and> counting d' \<and> (b \<or> (\<exists>c. (t, c) \<in> set cnt \<and> 0 < c) \<longrightarrow> filled d')"
proof (rule sx_for_run [where I = "\<lambda>done _ s. \<exists>d'. sm_singleDS s t = Some d' \<and> counting d' \<and>
      (b \<or> (\<exists>c. (t, c) \<in> set done \<and> 0 < c) \<longrightarrow> filled d')"])
  show "sx_for (\<lambda>(t, c) _. if c = 0 then sx_ret ()
         else sx_bind (sx_read (\<lambda>sm. case sm_singleDS sm t of
                 None \<Rightarrow> Inl (Runtime_error ''Table not found in singleDS'')
               | Some d \<Rightarrow> Inr d)) (\<lambda>d.
           sx_mod (\<lambda>sm. sm\<lparr>sm_singleDS := (sm_singleDS sm)
             (t \<mapsto> AddDegree (of_int c) freq (sm_CompressPrecision sm) d)\<rparr>)))
       cnt () sm = (Inr (), sm')" using assms(1) by (simp only: AddDegreeForSingleDS_def)
  show "\<exists>d'. sm_singleDS sm t = Some d' \<and> counting d' \<and>
      (b \<or> (\<exists>c. (t, c) \<in> set [] \<and> 0 < c) \<longrightarrow> filled d')" using assms(4-6) by simp
  fix "done" x rest acc s acc' s'
  assume split: "cnt = done @ x # rest" and I: "\<exists>d'. sm_singleDS s t = Some d' \<and> counting d' \<and>
      (b \<or> (\<exists>c. (t, c) \<in> set done \<and> 0 < c) \<longrightarrow> filled d')"
    and step: "(case x of (t, c) \<Rightarrow> \<lambda>_. if c = 0 then sx_ret ()
         else sx_bind (sx_read (\<lambda>sm. case sm_singleDS sm t of
                 None \<Rightarrow> Inl (Runtime_error ''Table not found in singleDS'')
               | Some d \<Rightarrow> Inr d)) (\<lambda>d.
           sx_mod (\<lambda>sm. sm\<lparr>sm_singleDS := (sm_singleDS sm)
             (t \<mapsto> AddDegree (of_int c) freq (sm_CompressPrecision sm) d)\<rparr>))) acc s = (Inr acc', s')"
  obtain u c where x: "x = (u, c)" by (cases x)
  have c: "0 \<le> c" using assms(3) by (simp add: split x)
  obtain d' where d': "sm_singleDS s t = Some d'" "counting d'"
    "b \<or> (\<exists>c. (t, c) \<in> set done \<and> 0 < c) \<longrightarrow> filled d'" using I by blast
  show "\<exists>d'. sm_singleDS s' t = Some d' \<and> counting d' \<and>
      (b \<or> (\<exists>c. (t, c) \<in> set (done @ [x]) \<and> 0 < c) \<longrightarrow> filled d')"
  proof (cases "c = 0")
    case True
    then show ?thesis using step d' by (auto simp: x sx_simps)
  next
    case False
    then have f: "filled (AddDegree (of_int c) freq (sm_CompressPrecision s) d')"
      using c assms(2) by (intro AddDegree_filled d'(2)) simp_all
    then have "counting (AddDegree (of_int c) freq (sm_CompressPrecision s) d')" by (simp add: filled_def)
    with f show ?thesis using step d' False
      by (cases "u = t") (auto simp: x sx_simps split: option.splits)
  qed
qed

lemma singles_run:
  assumes "sx_for (\<lambda>(cnt, freq) _. AddDegreeForSingleDS cnt (to_int32 freq)) count_num () sm = (Inr (), sm')"
    "\<forall>(cnt, freq) \<in> set count_num. 0 < to_int32 freq \<and> (\<forall>(u, c) \<in> set cnt. 0 \<le> c)"
    "sm_singleDS sm t = Some d" "counting d"
  shows "\<exists>d'. sm_singleDS sm' t = Some d' \<and> counting d' \<and>
    ((\<exists>(cnt, freq) \<in> set count_num. \<exists>c. (t, c) \<in> set cnt \<and> 0 < c) \<longrightarrow> filled d')"
proof (rule sx_for_run [OF assms(1), where I = "\<lambda>done _ s. \<exists>d'. sm_singleDS s t = Some d' \<and> counting d' \<and>
      ((\<exists>(cnt, freq) \<in> set done. \<exists>c. (t, c) \<in> set cnt \<and> 0 < c) \<longrightarrow> filled d')"])
  show "\<exists>d'. sm_singleDS sm t = Some d' \<and> counting d' \<and>
      ((\<exists>(cnt, freq) \<in> set []. \<exists>c. (t, c) \<in> set cnt \<and> 0 < c) \<longrightarrow> filled d')" using assms(3,4) by simp
  fix "done" x rest acc s acc' s'
  assume split: "count_num = done @ x # rest" and I: "\<exists>d'. sm_singleDS s t = Some d' \<and> counting d' \<and>
      ((\<exists>(cnt, freq) \<in> set done. \<exists>c. (t, c) \<in> set cnt \<and> 0 < c) \<longrightarrow> filled d')"
    and step: "(case x of (cnt, freq) \<Rightarrow> \<lambda>_. AddDegreeForSingleDS cnt (to_int32 freq)) acc s = (Inr acc', s')"
  obtain cnt freq where x: "x = (cnt, freq)" by (cases x)
  obtain d' where d': "sm_singleDS s t = Some d'" "counting d'"
    "(\<exists>(cnt, freq) \<in> set done. \<exists>c. (t, c) \<in> set cnt \<and> 0 < c) \<longrightarrow> filled d'" using I by blast
  have run: "AddDegreeForSingleDS cnt (to_int32 freq) s = (Inr (), s')" using step by (simp add: x)
  have "0 < to_int32 freq" "\<forall>(u, c) \<in> set cnt. 0 \<le> c" using assms(2) by (simp_all add: split x)
  from AddDegreeForSingleDS_run [OF run this d']
  show "\<exists>d'. sm_singleDS s' t = Some d' \<and> counting d' \<and>
      ((\<exists>(cnt, freq) \<in> set (done @ [x]). \<exists>c. (t, c) \<in> set cnt \<and> 0 < c) \<longrightarrow> filled d')"
    by (auto simp: x)
qed

definition same_eset :: "StatisticManager \<Rightarrow> StatisticManager \<Rightarrow> bool" where
  "same_eset s t \<longleftrightarrow> sm_eset s = sm_eset t"

interpretation eset: frame same_eset
  by unfold_locales (simp_all add: same_eset_def)

lemma same_eset_singles:
  "sx_keeps same_eset (sx_for (\<lambda>(cnt, freq) _. AddDegreeForSingleDS cnt (to_int32 freq)) count_num ())"
  unfolding AddDegreeForSingleDS_def case_prod_beta
  by (intro eset.keeps_intros eset.keeps_mod) (simp add: same_eset_def)

lemma to_int32_small: "0 < f \<Longrightarrow> f < 2 ^ 31 \<Longrightarrow> to_int32 f = f"
  by (simp add: to_int32_def)

lemma count_of_small: "list_all (\<lambda>(t, c). 0 \<le> c) cnt \<Longrightarrow> 0 \<le> count_of cnt t"
  by (auto simp: count_of_def list_all_iff split: option.split dest: map_of_SomeD)

text \<open>The state before the finishing, for counts that fit.\<close>

lemma collected_counts:
  assumes es: "std_set (Entries es)" "length (Entries es) \<le> 30" and cn: "counts_small es count_num"
  shows "\<exists>s1 s2 s3. PrepareCollection es sm = (Inr (), s1) \<and> for_subsets (add_counts count_num) s1 = (Inr (), s2) \<and>
    sx_for (\<lambda>(cnt, freq) _. AddDegreeForSingleDS cnt (to_int32 freq)) count_num () s2 = (Inr (), s3) \<and>
    slots_ok s3 \<and> sm_eset s3 = es \<and> set (GetTableList es) \<subseteq> dom (sm_singleDS s3) \<and>
    (\<forall>t \<in> set (GetTableList es). sm_singleDS s2 t = Some empty_DS)"
proof -
  obtain subs where subs: "prepared_subsets es sm = Inr subs"
    using es(2) by (cases "sm_EnableStarSplit sm")
      (auto simp: prepared_subsets_def GetAllSubset_def GetAllSubsetLimitSize_def)
  obtain s1 where 1: "PrepareCollection es sm = (Inr (), s1)"
    by (cases "PrepareCollection es sm") (simp add: PrepareCollection_alt subs)
  have s1: "slots_ok s1" "set (new_keys s1) = set subs - dom (sm_statistics sm)" "sm_statistics s1 = fresh_statistics subs sm"
    using PrepareCollection_eval [OF 1] subs by auto
  have single: "fold (\<lambda>e m. m(TableName e \<mapsto> empty_DS)) cs m u =
      (if u \<in> set (map TableName cs) then Some empty_DS else m u)" for cs m u
    by (induction cs arbitrary: m) auto
  have t1: "\<forall>t \<in> set (GetTableList es). sm_singleDS s1 t = Some empty_DS" "sm_eset s1 = es"
    using 1 by (auto simp: PrepareCollection_alt subs prepare_subset_fold single GetTableList_def)
  have "\<exists>st st'. sm_statistics s1 k = Some st \<and> add_counts count_num st = Inr st'" if k: "k \<in> set (new_keys s1)" for k
  proof -
    have st: "sm_statistics s1 k = Some (DSStatistic_tables (GetTableList k) (sm_CompressPrecision sm))"
      using k s1(2,3) by (auto simp: fresh_statistics_def)
    obtain ys where ys: "subseq ys (Entries es)" "k = EqualSet (collapse_singleton ys)"
      using prepared_subset_of [OF subs es(1)] k s1(2) by blast
    from subseq_map [OF ys(1), of TableName] have sub: "subseq (GetTableList k) (GetTableList es)"
      by (simp add: ys(2)) (simp add: GetTableList_def)
    have "prod_list (map (\<lambda>t. max 1 (count_of cnt t)) (GetTableList k)) < 2 ^ 63" if "(cnt, freq) \<in> set count_num" for cnt freq
      using prod_list_subseq [OF sub, of "\<lambda>t. max 1 (count_of cnt t)"] cn that
      by (fastforce simp: counts_small_def list_all_iff)
    moreover have "\<forall>t. 0 \<le> count_of cnt t" if "(cnt, freq) \<in> set count_num" for cnt freq
      using cn that count_of_small by (fastforce simp: counts_small_def list_all_iff)
    ultimately have "\<exists>st'. add_counts count_num (DSStatistic_tables (GetTableList k) (sm_CompressPrecision sm)) = Inr st'"
      by (intro add_counts_small) (auto simp: DSStatistic_tables_def)
    then show ?thesis using st by blast
  qed
  then have "sx_wp (for_subsets (add_counts count_num)) (\<lambda>_ t. t = map_new (add_counts count_num) (set (new_keys s1)) s1) s1"
    by (intro for_subsets_wp [OF s1(1)] ballI)
  then obtain s2 where 2: "for_subsets (add_counts count_num) s1 = (Inr (), s2)"
    unfolding sx_wp_result by (elim exE conjE) simp
  note f2 = for_subsets_eval [OF 2 s1(1)]
  have t2: "\<forall>t \<in> set (GetTableList es). sm_singleDS s2 t = Some empty_DS" "sm_eset s2 = es"
    using t1 by (simp_all add: f2(1))
  then have "set (GetTableList es) \<subseteq> dom (sm_singleDS s2)" by auto
  moreover have "\<forall>(cnt, freq) \<in> set count_num. set (map fst cnt) \<subseteq> set (GetTableList es)"
    using cn unfolding counts_small_def list_all_iff by blast
  ultimately have "sx_wp (sx_for (\<lambda>(cnt, freq) _. AddDegreeForSingleDS cnt (to_int32 freq)) count_num ())
      (\<lambda>_ t. set (GetTableList es) \<subseteq> dom (sm_singleDS t)) s2"
    by (intro singles_dom)
  then obtain s3 where 3: "sx_for (\<lambda>(cnt, freq) _. AddDegreeForSingleDS cnt (to_int32 freq)) count_num () s2 = (Inr (), s3)"
    "set (GetTableList es) \<subseteq> dom (sm_singleDS s3)"
    unfolding sx_wp_result by (elim exE conjE) simp
  have "same_collection s2 s3" "same_eset s2 s3"
    using sx_keepsD [OF same_collection_singles 3(1)] sx_keepsD [OF same_eset_singles 3(1)] by auto
  then have "slots_ok s3" "sm_eset s3 = es"
    using same_collection_slots f2(2) t2(2) by (auto simp: same_eset_def)
  then show ?thesis using 1 2 3 t2(1) by blast
qed

text \<open>
  C27: the collection of an equal set in which a table occurs with two columns reads beyond the end
  of a cleared vector. Whenever the set has at most 30 columns, some value of the table is not
  null, the products of the counts fit in \<open>int64_t\<close> and the frequencies in an \<open>int\<close>, every step
  up to \<open>FinishCollection\<close> succeeds, and \<open>FinishCollection\<close> ends in the undefined read of
  \<open>sum[i]\<close> and in nothing else. The schema files of the JOB workloads contain such a set, and the
  statistics committed for it were collected by a run that went on after the read.
\<close>

theorem repeated_table_undefined:
  assumes es: "std_set (Entries es)" "length (Entries es) \<le> 30" "2 \<le> count_list (GetTableList es) t"
    and cn: "counts_small es count_num" "list_ex (\<lambda>(cnt, freq). list_ex (\<lambda>(u, c). u = t \<and> 0 < c) cnt) count_num"
  shows "fst (CollectEqualSet es count_num sm) = Inl (Undefined ''sum[i]'')"
proof -
  from collected_counts [OF es(1,2) cn(1), of sm] obtain s1 s2 s3 where run: "PrepareCollection es sm = (Inr (), s1)"
      "for_subsets (add_counts count_num) s1 = (Inr (), s2)"
    and 3: "sx_for (\<lambda>(cnt, freq) _. AddDegreeForSingleDS cnt (to_int32 freq)) count_num () s2 = (Inr (), s3)"
    and s3: "slots_ok s3" "sm_eset s3 = es" "set (GetTableList es) \<subseteq> dom (sm_singleDS s3)"
    and s2: "\<forall>t \<in> set (GetTableList es). sm_singleDS s2 t = Some empty_DS"
    by (elim exE conjE) (rule that)
  have "t \<in> set (GetTableList es)" using es(3) count_list_0_iff [of "GetTableList es" t] by auto
  then have "sm_singleDS s2 t = Some empty_DS" "counting empty_DS"
    using s2 by (auto simp: counting_def) (simp add: empty_DS_def)
  moreover have "\<forall>(cnt, freq) \<in> set count_num. 0 < to_int32 freq \<and> (\<forall>(u, c) \<in> set cnt. 0 \<le> c)"
    using cn(1) by (auto simp: counts_small_def list_all_iff to_int32_small)
  ultimately obtain d where d: "sm_singleDS s3 t = Some d" "filled d"
    using singles_run [OF 3, of t empty_DS] cn(2) by (fastforce simp: list_ex_iff)
  have "fst (sm_FinishCollection s3) = Inl (Undefined ''sum[i]'')"
  proof (cases "for_subsets stat_FinishCollection s3")
    case (Pair r s4)
    show ?thesis
    proof (cases r)
      case (Inl e)
      then show ?thesis using for_subsets_error [of stat_FinishCollection s3 e s4] stat_Finish_error s3(1) Pair
        by (simp add: sm_FinishCollection_def sx_bind_unfold)
    next
      case (Inr u)
      then have "s4 = map_new stat_FinishCollection (set (new_keys s3)) s3"
        using for_subsets_eval(1) [of stat_FinishCollection s3 s4] Pair s3(1) by simp
      then have "fst (sx_for (\<lambda>e _. finish_single e) (Entries es) () s4) = Inl (Undefined ''sum[i]'')"
        using d s3(3) es(3) by (intro finish_repeated_fails [of _ t d]) (simp_all add: GetTableList_def)
      moreover have "sm_eset s4 = es" using \<open>s4 = _\<close> s3(2) by simp
      ultimately show ?thesis using Pair Inr by (simp add: sm_FinishCollection_def sx_bind_unfold sx_eval)
    qed
  qed
  then show ?thesis using run 3 by (simp add: CollectEqualSet_def sx_bind_unfold)
qed

text \<open>The set of the schema file \<^verbatim>\<open>schema_jobm.json\<close>.\<close>

definition cast_types :: EqualSet where
  "cast_types = EqualSet (set_of_list [TableColumn ''comp_cast_type'' ''id'',
     TableColumn ''complete_cast'' ''subject_id'', TableColumn ''complete_cast'' ''status_id''])"

theorem repeated_table_undefined_witness:
  "fst (CollectEqualSet cast_types [([(''comp_cast_type'', 1), (''complete_cast'', 3)], 2)] StatisticManager_init) =
     Inl (Undefined ''sum[i]'')"
proof -
  have entries: "Entries cast_types = [TableColumn ''comp_cast_type'' ''id'',
     TableColumn ''complete_cast'' ''status_id'', TableColumn ''complete_cast'' ''subject_id'']"
    by (simp add: cast_types_def set_of_list_def less_TableColumn_iff)
  show ?thesis
    by (rule repeated_table_undefined [where t = "''complete_cast''"])
      (simp_all add: entries std_set_def less_TableColumn_iff GetTableList_def counts_small_def count_of_def)
qed

end
