(* ===== verification/Bitutils.thy ===== *)
theory Bitutils
  imports Prelude "HOL-Library.Word"
begin

text \<open>
  The bit utilities of the PostgreSQL server: \<open>src/port/pg_bitutils.c\<close> and
  \<open>src/include/port/pg_bitutils.h\<close>, in their portable form (lookup tables and byte loops; the
  compiler builtins and the \<open>popcnt\<close> instruction that a build may select instead are outside
  the model).  A word is a HOL word of its width, a table a list of 256 numbers, and a loop
  recursion on the word; the position functions have no result for the word 0, for which the
  loops of the C code do not end or shift by a negative amount.

  The lemmas show that each function computes what its comment says, with the set
  \<open>word_bits w\<close> of the positions of the one-bits of \<open>w\<close> as the reference.
\<close>

unbundle bit_operations_syntax

section \<open>The byte tables\<close>

definition pg_leftmost_one_pos :: "nat list" where
  "pg_leftmost_one_pos = [
     0, 0, 1, 1, 2, 2, 2, 2, 3, 3, 3, 3, 3, 3, 3, 3,
     4, 4, 4, 4, 4, 4, 4, 4, 4, 4, 4, 4, 4, 4, 4, 4,
     5, 5, 5, 5, 5, 5, 5, 5, 5, 5, 5, 5, 5, 5, 5, 5,
     5, 5, 5, 5, 5, 5, 5, 5, 5, 5, 5, 5, 5, 5, 5, 5,
     6, 6, 6, 6, 6, 6, 6, 6, 6, 6, 6, 6, 6, 6, 6, 6,
     6, 6, 6, 6, 6, 6, 6, 6, 6, 6, 6, 6, 6, 6, 6, 6,
     6, 6, 6, 6, 6, 6, 6, 6, 6, 6, 6, 6, 6, 6, 6, 6,
     6, 6, 6, 6, 6, 6, 6, 6, 6, 6, 6, 6, 6, 6, 6, 6,
     7, 7, 7, 7, 7, 7, 7, 7, 7, 7, 7, 7, 7, 7, 7, 7,
     7, 7, 7, 7, 7, 7, 7, 7, 7, 7, 7, 7, 7, 7, 7, 7,
     7, 7, 7, 7, 7, 7, 7, 7, 7, 7, 7, 7, 7, 7, 7, 7,
     7, 7, 7, 7, 7, 7, 7, 7, 7, 7, 7, 7, 7, 7, 7, 7,
     7, 7, 7, 7, 7, 7, 7, 7, 7, 7, 7, 7, 7, 7, 7, 7,
     7, 7, 7, 7, 7, 7, 7, 7, 7, 7, 7, 7, 7, 7, 7, 7,
     7, 7, 7, 7, 7, 7, 7, 7, 7, 7, 7, 7, 7, 7, 7, 7,
     7, 7, 7, 7, 7, 7, 7, 7, 7, 7, 7, 7, 7, 7, 7, 7]"

definition pg_rightmost_one_pos :: "nat list" where
  "pg_rightmost_one_pos = [
     0, 0, 1, 0, 2, 0, 1, 0, 3, 0, 1, 0, 2, 0, 1, 0,
     4, 0, 1, 0, 2, 0, 1, 0, 3, 0, 1, 0, 2, 0, 1, 0,
     5, 0, 1, 0, 2, 0, 1, 0, 3, 0, 1, 0, 2, 0, 1, 0,
     4, 0, 1, 0, 2, 0, 1, 0, 3, 0, 1, 0, 2, 0, 1, 0,
     6, 0, 1, 0, 2, 0, 1, 0, 3, 0, 1, 0, 2, 0, 1, 0,
     4, 0, 1, 0, 2, 0, 1, 0, 3, 0, 1, 0, 2, 0, 1, 0,
     5, 0, 1, 0, 2, 0, 1, 0, 3, 0, 1, 0, 2, 0, 1, 0,
     4, 0, 1, 0, 2, 0, 1, 0, 3, 0, 1, 0, 2, 0, 1, 0,
     7, 0, 1, 0, 2, 0, 1, 0, 3, 0, 1, 0, 2, 0, 1, 0,
     4, 0, 1, 0, 2, 0, 1, 0, 3, 0, 1, 0, 2, 0, 1, 0,
     5, 0, 1, 0, 2, 0, 1, 0, 3, 0, 1, 0, 2, 0, 1, 0,
     4, 0, 1, 0, 2, 0, 1, 0, 3, 0, 1, 0, 2, 0, 1, 0,
     6, 0, 1, 0, 2, 0, 1, 0, 3, 0, 1, 0, 2, 0, 1, 0,
     4, 0, 1, 0, 2, 0, 1, 0, 3, 0, 1, 0, 2, 0, 1, 0,
     5, 0, 1, 0, 2, 0, 1, 0, 3, 0, 1, 0, 2, 0, 1, 0,
     4, 0, 1, 0, 2, 0, 1, 0, 3, 0, 1, 0, 2, 0, 1, 0]"

definition pg_number_of_ones :: "nat list" where
  "pg_number_of_ones = [
     0, 1, 1, 2, 1, 2, 2, 3, 1, 2, 2, 3, 2, 3, 3, 4,
     1, 2, 2, 3, 2, 3, 3, 4, 2, 3, 3, 4, 3, 4, 4, 5,
     1, 2, 2, 3, 2, 3, 3, 4, 2, 3, 3, 4, 3, 4, 4, 5,
     2, 3, 3, 4, 3, 4, 4, 5, 3, 4, 4, 5, 4, 5, 5, 6,
     1, 2, 2, 3, 2, 3, 3, 4, 2, 3, 3, 4, 3, 4, 4, 5,
     2, 3, 3, 4, 3, 4, 4, 5, 3, 4, 4, 5, 4, 5, 5, 6,
     2, 3, 3, 4, 3, 4, 4, 5, 3, 4, 4, 5, 4, 5, 5, 6,
     3, 4, 4, 5, 4, 5, 5, 6, 4, 5, 5, 6, 5, 6, 6, 7,
     1, 2, 2, 3, 2, 3, 3, 4, 2, 3, 3, 4, 3, 4, 4, 5,
     2, 3, 3, 4, 3, 4, 4, 5, 3, 4, 4, 5, 4, 5, 5, 6,
     2, 3, 3, 4, 3, 4, 4, 5, 3, 4, 4, 5, 4, 5, 5, 6,
     3, 4, 4, 5, 4, 5, 5, 6, 4, 5, 5, 6, 5, 6, 6, 7,
     2, 3, 3, 4, 3, 4, 4, 5, 3, 4, 4, 5, 4, 5, 5, 6,
     3, 4, 4, 5, 4, 5, 5, 6, 4, 5, 5, 6, 5, 6, 6, 7,
     3, 4, 4, 5, 4, 5, 5, 6, 4, 5, 5, 6, 5, 6, 6, 7,
     4, 5, 5, 6, 5, 6, 6, 7, 5, 6, 6, 7, 6, 7, 7, 8]"

section \<open>Counting one-bits\<close>

lemma drop_bit_8_less: "(w :: 'a::len word) \<noteq> 0 \<Longrightarrow> unat (drop_bit 8 w) < unat w"
  by (subst unat_drop_bit_eq) (simp add: drop_bit_eq_div unat_gt_0)

function pg_popcount_slow :: "'a::len word \<Rightarrow> nat" where
  "pg_popcount_slow word = (if word = 0 then 0
     else pg_number_of_ones ! unat (word AND 255) + pg_popcount_slow (drop_bit 8 word))"
  by pat_completeness auto
termination by (relation "measure unat") (simp_all add: drop_bit_8_less)

declare pg_popcount_slow.simps [simp del]

definition pg_popcount32 :: "32 word \<Rightarrow> nat" where
  "pg_popcount32 word = pg_popcount_slow word"

definition pg_popcount64 :: "64 word \<Rightarrow> nat" where
  "pg_popcount64 word = pg_popcount_slow word"

text \<open>
  \<open>pg_popcount\<close> reads an aligned buffer in chunks of eight bytes (little-endian words) and the
  remaining bytes, or all bytes of an unaligned buffer, one by one.
\<close>

definition load64 :: "8 word list \<Rightarrow> 64 word" where
  "load64 bs = foldr (\<lambda>b acc. ucast b OR push_bit 8 acc) bs 0"

primrec popcount_bytes :: "8 word list \<Rightarrow> nat" where
  "popcount_bytes [] = 0"
| "popcount_bytes (b # buf) = pg_number_of_ones ! unat b + popcount_bytes buf"

function popcount_words :: "8 word list \<Rightarrow> nat" where
  "popcount_words buf = (if 8 \<le> length buf
     then pg_popcount64 (load64 (take 8 buf)) + popcount_words (drop 8 buf)
     else popcount_bytes buf)"
  by pat_completeness auto
termination by (relation "measure length") auto

declare popcount_words.simps [simp del]

definition pg_popcount :: "bool \<Rightarrow> 8 word list \<Rightarrow> nat" where
  "pg_popcount aligned buf = (if aligned then popcount_words buf else popcount_bytes buf)"

section \<open>Positions of the extreme one-bits\<close>

fun leftmost_byte :: "'a::len word \<Rightarrow> nat \<Rightarrow> nat res" where
  "leftmost_byte word k =
     (if drop_bit (8 * k) word = 0
      then (case k of 0 \<Rightarrow> Inl (Undefined ''negative shift'') | Suc k' \<Rightarrow> leftmost_byte word k')
      else Inr (8 * k + pg_leftmost_one_pos ! unat (drop_bit (8 * k) word AND 255)))"

declare leftmost_byte.simps [simp del]

definition pg_leftmost_one_pos32 :: "32 word \<Rightarrow> nat res" where
  "pg_leftmost_one_pos32 word = leftmost_byte word 3"

definition pg_leftmost_one_pos64 :: "64 word \<Rightarrow> nat res" where
  "pg_leftmost_one_pos64 word = leftmost_byte word 7"

function rightmost_byte :: "'a::len word \<Rightarrow> nat \<Rightarrow> nat res" where
  "rightmost_byte word result =
     (if word = 0 then Inl (Undefined ''endless loop'')
      else if word AND 255 = 0 then rightmost_byte (drop_bit 8 word) (result + 8)
      else Inr (result + pg_rightmost_one_pos ! unat (word AND 255)))"
  by pat_completeness auto
termination by (relation "measure (\<lambda>(w, _). unat w)") (simp_all add: drop_bit_8_less)

declare rightmost_byte.simps [simp del]

definition pg_rightmost_one_pos32 :: "32 word \<Rightarrow> nat res" where
  "pg_rightmost_one_pos32 word = rightmost_byte word 0"

definition pg_rightmost_one_pos64 :: "64 word \<Rightarrow> nat res" where
  "pg_rightmost_one_pos64 word = rightmost_byte word 0"

section \<open>Powers of two and rotation\<close>

definition pg_nextpower2_32 :: "32 word \<Rightarrow> 32 word res" where
  "pg_nextpower2_32 num = (if num AND (num - 1) = 0 then Inr num
     else res_map (\<lambda>p. push_bit (p + 1) 1) (pg_leftmost_one_pos32 num))"

definition pg_nextpower2_64 :: "64 word \<Rightarrow> 64 word res" where
  "pg_nextpower2_64 num = (if num AND (num - 1) = 0 then Inr num
     else res_map (\<lambda>p. push_bit (p + 1) 1) (pg_leftmost_one_pos64 num))"

definition pg_ceil_log2_32 :: "32 word \<Rightarrow> nat res" where
  "pg_ceil_log2_32 num = (if num < 2 then Inr 0
     else res_map (\<lambda>p. p + 1) (pg_leftmost_one_pos32 (num - 1)))"

definition pg_ceil_log2_64 :: "64 word \<Rightarrow> nat res" where
  "pg_ceil_log2_64 num = (if num < 2 then Inr 0
     else res_map (\<lambda>p. p + 1) (pg_leftmost_one_pos64 (num - 1)))"

definition pg_rotate_right32 :: "32 word \<Rightarrow> nat \<Rightarrow> 32 word" where
  "pg_rotate_right32 word n = drop_bit n word OR push_bit (32 - n) word"

section \<open>The tables against the bits of a byte\<close>

definition word_bits :: "'a::len word \<Rightarrow> nat set" where
  "word_bits w = {i. bit w i}"

text \<open>Reference functions on numbers, by recursion on the binary digits.\<close>

fun nat_ones :: "nat \<Rightarrow> nat" where
  "nat_ones n = (if n = 0 then 0 else n mod 2 + nat_ones (n div 2))"

fun nat_left :: "nat \<Rightarrow> nat" where
  "nat_left n = (if n div 2 = 0 then 0 else Suc (nat_left (n div 2)))"

fun nat_right :: "nat \<Rightarrow> nat" where
  "nat_right n = (if n = 0 \<or> odd n then 0 else Suc (nat_right (n div 2)))"

declare nat_ones.simps [simp del] nat_left.simps [simp del] nat_right.simps [simp del]

lemma ones_table: "pg_number_of_ones = map nat_ones [0..<256]"
  by (simp add: pg_number_of_ones_def nat_ones.simps upt_conv_Cons upt_rec_numeral)

lemma leftmost_table: "pg_leftmost_one_pos = map nat_left [0..<256]"
  by (simp add: pg_leftmost_one_pos_def nat_left.simps upt_conv_Cons upt_rec_numeral)

lemma rightmost_table: "pg_rightmost_one_pos = map nat_right [0..<256]"
  by (simp add: pg_rightmost_one_pos_def nat_right.simps upt_conv_Cons upt_rec_numeral)

text \<open>The reference functions against the set of one-bits.\<close>

lemma nat_bits_rec: "{i. bit (n::nat) i} = (if odd n then {0} else {}) \<union> Suc ` {i. bit (n div 2) i}"
  by (auto simp: bit_Suc image_iff bit_0 split: if_splits) (metis bit_0 bit_Suc not0_implies_Suc)+

lemma finite_nat_bits: "finite {i. bit (n::nat) i}"
proof (induction n rule: less_induct)
  case (less n)
  show ?case
  proof (cases "n = 0")
    case False
    then have "finite {i. bit (n div 2) i}" by (intro less.IH) simp
    then show ?thesis by (subst nat_bits_rec) simp
  qed simp
qed

lemma nat_ones_card: "nat_ones n = card {i. bit n i}"
proof (induction n rule: nat_ones.induct)
  case (1 n)
  show ?case
  proof (cases "n = 0")
    case False
    have "card {i. bit n i} = n mod 2 + card (Suc ` {i. bit (n div 2) i})"
      by (subst nat_bits_rec) (auto simp: finite_nat_bits card_insert_if odd_iff_mod_2_eq_one)
    then show ?thesis using False 1 by (simp add: nat_ones.simps [of n] card_image)
  qed (simp add: nat_ones.simps)
qed

lemma nat_left_max: "0 < n \<Longrightarrow> bit n (nat_left n) \<and> (\<forall>i. bit n i \<longrightarrow> i \<le> nat_left n)"
proof (induction n rule: nat_left.induct)
  case (1 n)
  show ?case
  proof (cases "n div 2 = 0")
    case True
    then have "n = 1" using 1(2) by auto
    then show ?thesis by (simp add: nat_left.simps bit_1_iff del: One_nat_def)
  next
    case False
    then have ih: "bit (n div 2) (nat_left (n div 2))"
      "\<And>i. bit (n div 2) i \<Longrightarrow> i \<le> nat_left (n div 2)" using 1(1) by auto
    have "i \<le> Suc (nat_left (n div 2))" if "bit n i" for i
      using that ih(2) by (cases i) (auto simp: bit_Suc)
    then show ?thesis using False ih(1) by (simp add: nat_left.simps [of n] bit_Suc)
  qed
qed

lemma nat_right_min: "0 < n \<Longrightarrow> bit n (nat_right n) \<and> (\<forall>i. bit n i \<longrightarrow> nat_right n \<le> i)"
proof (induction n rule: nat_right.induct)
  case (1 n)
  show ?case
  proof (cases "odd n")
    case True
    then show ?thesis by (simp add: nat_right.simps bit_0)
  next
    case False
    then have ih: "bit (n div 2) (nat_right (n div 2))"
      "\<And>i. bit (n div 2) i \<Longrightarrow> nat_right (n div 2) \<le> i" using 1 by (auto elim: evenE)
    have "Suc (nat_right (n div 2)) \<le> i" if "bit n i" for i
      using that ih(2) False by (cases i) (auto simp: bit_Suc bit_0)
    then show ?thesis using False 1(2) ih(1) by (simp add: nat_right.simps [of n] bit_Suc)
  qed
qed

section \<open>Bytes of a word\<close>

lemma finite_word_bits [simp]: "finite (word_bits (w :: 'a::len word))"
  by (rule finite_subset [of _ "{..<LENGTH('a)}"]) (auto simp: word_bits_def dest: bit_imp_le_length)

lemma word_bits_empty [simp]: "word_bits w = {} \<longleftrightarrow> w = 0"
  by (auto simp: word_bits_def bit_eq_iff dest: bit_imp_le_length)

lemma mem_word_bits: "i \<in> word_bits w \<longleftrightarrow> bit w i"
  by (simp add: word_bits_def)

lemma word_bits_less: "i \<in> word_bits (w :: 'a::len word) \<Longrightarrow> i < LENGTH('a)"
  by (simp add: word_bits_def bit_imp_le_length)

lemma word_bits_0 [simp]: "word_bits 0 = {}"
  by simp

lemma bit_unat: "bit (unat (w :: 'a::len word)) i \<longleftrightarrow> bit w i"
  by (auto simp: bit_unsigned_iff)

lemma nat_bits_unat: "{i. bit (unat (w :: 'a::len word)) i} = word_bits w"
  by (simp add: word_bits_def bit_unat)

lemma and_255: "(w :: 'a::len word) AND 255 = take_bit 8 w"
  by (simp add: take_bit_eq_mask mask_eq_exp_minus_1)

lemma unat_and_255: "unat ((w :: 'a::len word) AND 255) < 256"
proof -
  have "unat (w AND 255) = take_bit 8 (unat w)"
    by (simp add: and_255 unsigned_take_bit_eq)
  also have "\<dots> < 2 ^ 8" by (rule take_bit_nat_less_exp)
  finally show ?thesis by simp
qed

lemma Max_word_bits:
  assumes "(w :: 'a::len word) \<noteq> 0"
  shows "Max (word_bits w) = nat_left (unat w)"
proof -
  have "0 < unat w" using assms by (simp add: unat_gt_0)
  from nat_left_max [OF this] show ?thesis
    by (intro Max_eqI) (auto simp: word_bits_def bit_unat simp flip: finite_word_bits)
qed

lemma Min_word_bits:
  assumes "(w :: 'a::len word) \<noteq> 0"
  shows "Min (word_bits w) = nat_right (unat w)"
proof -
  have "0 < unat w" using assms by (simp add: unat_gt_0)
  from nat_right_min [OF this] show ?thesis
    by (intro Min_eqI) (auto simp: word_bits_def bit_unat simp flip: finite_word_bits)
qed

lemma table_ones: "pg_number_of_ones ! unat ((w :: 'a::len word) AND 255) = card (word_bits (w AND 255))"
  using unat_and_255 [of w] by (simp add: ones_table nat_ones_card nat_bits_unat)

lemma table_left:
  "(w :: 'a::len word) AND 255 \<noteq> 0 \<Longrightarrow>
    pg_leftmost_one_pos ! unat (w AND 255) = Max (word_bits (w AND 255))"
  using unat_and_255 [of w] by (simp add: leftmost_table Max_word_bits)

lemma table_right:
  "(w :: 'a::len word) AND 255 \<noteq> 0 \<Longrightarrow>
    pg_rightmost_one_pos ! unat (w AND 255) = Min (word_bits (w AND 255))"
  using unat_and_255 [of w] by (simp add: rightmost_table Min_word_bits)

section \<open>Population count\<close>

lemma word_bits_split8:
  "word_bits w = word_bits (w AND 255) \<union> (\<lambda>i. i + 8) ` word_bits (drop_bit 8 (w :: 'a::len word))"
proof -
  have "i \<in> word_bits w \<longleftrightarrow> i \<in> word_bits (w AND 255) \<or> i \<in> (\<lambda>i. i + 8) ` word_bits (drop_bit 8 w)" for i
  proof (cases "i < 8")
    case True
    then show ?thesis by (auto simp: word_bits_def and_255 bit_take_bit_iff)
  next
    case False
    then obtain j where "i = j + 8" by (metis add.commute le_Suc_ex not_less)
    then show ?thesis
      by (auto simp: word_bits_def and_255 bit_take_bit_iff bit_drop_bit_eq add.commute image_iff)
  qed
  then show ?thesis by blast
qed

lemma word_bits_low: "i \<in> word_bits ((w :: 'a::len word) AND 255) \<Longrightarrow> i < 8"
  by (simp add: word_bits_def and_255 bit_take_bit_iff)

lemma pg_popcount_slow_card: "pg_popcount_slow w = card (word_bits w)"
proof (induction w rule: pg_popcount_slow.induct)
  case (1 w)
  show ?case
  proof (cases "w = 0")
    case True
    then show ?thesis by (simp add: pg_popcount_slow.simps)
  next
    case False
    have "card (word_bits w) = card (word_bits (w AND 255)) + card (word_bits (drop_bit 8 w))"
      by (subst word_bits_split8, subst card_Un_disjoint)
        (auto simp: card_image dest: word_bits_low)
    then show ?thesis using 1 False by (simp add: pg_popcount_slow.simps [of w] table_ones)
  qed
qed

lemma table_ones_byte: "pg_number_of_ones ! unat (b :: 8 word) = card (word_bits b)"
proof -
  have "b AND 255 = b" by (simp add: and_255 take_bit_word_eq_self)
  then show ?thesis using table_ones [of b] by simp
qed

lemma popcount_bytes_card: "popcount_bytes buf = (\<Sum>b\<leftarrow>buf. card (word_bits b))"
  by (induction buf) (simp_all add: table_ones_byte)

lemma load64_Cons: "load64 (b # bs) = ucast b OR push_bit 8 (load64 bs)"
  by (simp add: load64_def)

lemma load64_bits_bound: "bit (load64 bs) i \<Longrightarrow> i < 8 * length bs"
proof (induction bs arbitrary: i)
  case (Cons b bs)
  show ?case
  proof (cases "i < 8")
    case False
    then have "bit (load64 bs) (i - 8)" using Cons.prems bit_imp_le_length [of b i]
      by (auto simp: load64_Cons bit_or_iff bit_push_bit_iff bit_unsigned_iff)
    then show ?thesis using Cons.IH [of "i - 8"] False by simp
  qed simp
qed (simp add: load64_def)

lemma load64_low: "word_bits (load64 (b # bs) AND 255) = word_bits b"
  by (auto simp: word_bits_def load64_Cons and_255 bit_take_bit_iff bit_or_iff bit_push_bit_iff
      bit_unsigned_iff dest: bit_imp_le_length)

lemma load64_high:
  assumes "length bs < 8"
  shows "drop_bit 8 (load64 (b # bs)) = load64 bs"
proof (rule bit_word_eqI)
  fix i
  have "bit (load64 bs) i \<Longrightarrow> 8 + i < 64" using load64_bits_bound [of bs i] assms by simp
  moreover have "\<not> bit b (8 + i)" using bit_imp_le_length [of b "8 + i"] by auto
  ultimately show "bit (drop_bit 8 (load64 (b # bs))) i = bit (load64 bs) i"
    by (auto simp: load64_Cons bit_drop_bit_eq bit_or_iff bit_push_bit_iff bit_unsigned_iff)
qed

lemma load64_card: "length bs \<le> 8 \<Longrightarrow> card (word_bits (load64 bs)) = popcount_bytes bs"
proof (induction bs)
  case (Cons b bs)
  have "card (word_bits (load64 (b # bs))) = card (word_bits b) + card (word_bits (load64 bs))"
    using Cons.prems
    by (subst word_bits_split8, subst card_Un_disjoint)
      (auto simp: card_image load64_low load64_high dest: word_bits_less)
  then show ?case using Cons by (simp add: table_ones_byte)
qed (simp add: load64_def)

lemma popcount_bytes_append: "popcount_bytes (xs @ ys) = popcount_bytes xs + popcount_bytes ys"
  by (induction xs) simp_all

lemma popcount_words_bytes: "popcount_words buf = popcount_bytes buf"
proof (induction buf rule: popcount_words.induct)
  case (1 buf)
  have "popcount_bytes (take 8 buf) + popcount_bytes (drop 8 buf) = popcount_bytes buf"
    by (simp flip: popcount_bytes_append)
  then show ?case using 1
    by (simp add: popcount_words.simps [of buf] pg_popcount64_def pg_popcount_slow_card load64_card)
qed

text \<open>
  Counting the one-bits of a buffer gives the total of the one-bits of its bytes: the
  byte table, the word loop and the choice between eight-byte and one-byte steps that depends
  on the alignment of the buffer do not change the result.
\<close>

theorem pg_popcount_correct:
  "pg_popcount aligned buf = (\<Sum>b\<leftarrow>buf. card (word_bits b))"
  by (simp add: pg_popcount_def popcount_words_bytes popcount_bytes_card)

section \<open>Extreme positions\<close>

lemma drop_bit_eq_0_bits: "drop_bit n (w :: 'a::len word) = 0 \<longleftrightarrow> (\<forall>i \<in> word_bits w. i < n)"
proof
  assume 0: "drop_bit n w = 0"
  show "\<forall>i \<in> word_bits w. i < n"
  proof (rule ballI, rule ccontr)
    fix i assume "i \<in> word_bits w" "\<not> i < n"
    then have "bit (drop_bit n w) (i - n)" by (simp add: word_bits_def bit_drop_bit_eq)
    then show False by (simp add: 0)
  qed
next
  assume "\<forall>i \<in> word_bits w. i < n"
  then show "drop_bit n w = 0" by (intro bit_word_eqI) (force simp: word_bits_def bit_drop_bit_eq)
qed

lemma word_bits_drop: "word_bits (drop_bit n (w :: 'a::len word)) = {i. i + n \<in> word_bits w}"
  by (auto simp: word_bits_def bit_drop_bit_eq add.commute)

lemma and_255_id: "drop_bit 8 (w :: 'a::len word) = 0 \<Longrightarrow> w AND 255 = w"
  by (rule bit_word_eqI) (auto simp: and_255 bit_take_bit_iff drop_bit_eq_0_bits word_bits_def)

lemma Max_word_bits_drop:
  assumes "drop_bit n (w :: 'a::len word) \<noteq> 0"
  shows "Max (word_bits w) = n + Max (word_bits (drop_bit n w))"
proof (rule Max_eqI)
  let ?v = "word_bits (drop_bit n w)"
  have ne: "?v \<noteq> {}" using assms by simp
  show "n + Max ?v \<in> word_bits w" using Max_in [OF finite_word_bits ne] by (simp add: word_bits_drop add.commute)
  fix i assume i: "i \<in> word_bits w"
  show "i \<le> n + Max ?v"
  proof (cases "i < n")
    case False
    then have "i - n \<in> ?v" using i by (simp add: word_bits_drop)
    then have "i - n \<le> Max ?v" by simp
    then show ?thesis by simp
  qed simp
qed simp

lemma leftmost_byte_Max:
  assumes "(w :: 'a::len word) \<noteq> 0" and "drop_bit (8 * Suc k) w = 0"
  shows "leftmost_byte w k = Inr (Max (word_bits w))"
  using assms(2)
proof (induction k)
  case 0
  then have "w AND 255 = w" by (intro and_255_id) simp
  then show ?case using assms(1) table_left [of w] by (simp add: leftmost_byte.simps [of w 0])
next
  case (Suc k)
  show ?case
  proof (cases "drop_bit (8 * Suc k) w = 0")
    case True
    then show ?thesis using Suc.IH by (simp add: leftmost_byte.simps [of w "Suc k"])
  next
    case False
    let ?v = "drop_bit (8 * Suc k) w"
    have "drop_bit 8 ?v = 0" using Suc.prems by (simp add: algebra_simps)
    then have "?v AND 255 = ?v" by (rule and_255_id)
    then have "leftmost_byte w (Suc k) = Inr (8 * Suc k + Max (word_bits ?v))"
      using False table_left [of ?v] by (subst leftmost_byte.simps) simp
    then show ?thesis using Max_word_bits_drop [OF False] by simp
  qed
qed

lemma rightmost_byte_Min:
  "(w :: 'a::len word) \<noteq> 0 \<Longrightarrow> rightmost_byte w r = Inr (r + Min (word_bits w))"
proof (induction w r rule: rightmost_byte.induct)
  case (1 w r)
  show ?case
  proof (cases "w AND 255 = 0")
    case True
    then have bits: "word_bits w = (\<lambda>i. i + 8) ` word_bits (drop_bit 8 w)"
      using word_bits_split8 [of w] by simp
    then have nz: "drop_bit 8 w \<noteq> 0" using 1(2) by auto
    have "Min (word_bits w) = Min (word_bits (drop_bit 8 w)) + 8"
      unfolding bits using nz by (simp add: Min_add_commute)
    then show ?thesis using 1 True nz by (simp add: rightmost_byte.simps [of w r])
  next
    case False
    then have ne: "word_bits (w AND 255) \<noteq> {}" by simp
    have "Min (word_bits w) = Min (word_bits (w AND 255))"
    proof (rule Min_eqI)
      show "Min (word_bits (w AND 255)) \<in> word_bits w"
        using Min_in [OF _ ne] word_bits_split8 [of w] by auto
      fix i assume "i \<in> word_bits w"
      then consider "i \<in> word_bits (w AND 255)" | "8 \<le> i" using word_bits_split8 [of w] by auto
      then show "Min (word_bits (w AND 255)) \<le> i"
        using word_bits_low [OF Min_in [OF finite_word_bits ne]] by cases auto
    qed simp
    then show ?thesis using 1(2) False by (simp add: rightmost_byte.simps [of w r] table_right)
  qed
qed

lemma drop_bit_length: "LENGTH('a) \<le> n \<Longrightarrow> drop_bit n (w :: 'a::len word) = 0"
  by (auto simp: drop_bit_eq_0_bits word_bits_def dest: bit_imp_le_length)

lemma pg_leftmost_one_pos64_eq: "w \<noteq> 0 \<Longrightarrow> pg_leftmost_one_pos64 w = Inr (Max (word_bits w))"
  by (simp only: pg_leftmost_one_pos64_def) (rule leftmost_byte_Max, simp_all add: drop_bit_length)

lemma pg_leftmost_one_pos32_eq: "w \<noteq> 0 \<Longrightarrow> pg_leftmost_one_pos32 w = Inr (Max (word_bits w))"
  by (simp only: pg_leftmost_one_pos32_def) (rule leftmost_byte_Max, simp_all add: drop_bit_length)

lemma pg_rightmost_one_pos64_eq: "w \<noteq> 0 \<Longrightarrow> pg_rightmost_one_pos64 w = Inr (Min (word_bits w))"
  by (simp add: pg_rightmost_one_pos64_def rightmost_byte_Min)

lemma pg_rightmost_one_pos32_eq: "w \<noteq> 0 \<Longrightarrow> pg_rightmost_one_pos32 w = Inr (Min (word_bits w))"
  by (simp add: pg_rightmost_one_pos32_def rightmost_byte_Min)

text \<open>No result for the word 0.\<close>

lemma one_pos64_0:
  "pg_leftmost_one_pos64 0 = Inl (Undefined ''negative shift'')"
  "pg_rightmost_one_pos64 0 = Inl (Undefined ''endless loop'')"
  by (simp_all add: pg_leftmost_one_pos64_def pg_rightmost_one_pos64_def rightmost_byte.simps
      leftmost_byte.simps eval_nat_numeral)

section \<open>Next power of two\<close>

text \<open>The word as a number lies between the power of its leftmost one-bit and the next one.\<close>

lemma unat_leftmost:
  assumes "(w :: 'a::len word) \<noteq> 0"
  shows "2 ^ Max (word_bits w) \<le> unat w" and "unat w < 2 ^ Suc (Max (word_bits w))"
proof -
  let ?m = "Max (word_bits w)"
  have "bit (unat w) ?m"
    using Max_in [of "word_bits w"] assms by (auto simp: bit_unat simp flip: mem_word_bits)
  then show "2 ^ ?m \<le> unat w"
    by (rule contrapos_pp) (auto simp: bit_iff_odd not_le)
  have "drop_bit (Suc ?m) w = 0"
    unfolding drop_bit_eq_0_bits by (simp add: less_Suc_eq_le)
  then have "drop_bit (Suc ?m) (unat w) = 0"
    by (metis unat_drop_bit_eq unsigned_0)
  then show "unat w < 2 ^ Suc ?m" by (simp add: drop_bit_eq_div div_eq_0_iff)
qed

lemma bit_top: "2 ^ m \<le> n \<Longrightarrow> n < 2 ^ Suc m \<Longrightarrow> bit (n::nat) m"
proof -
  assume "2 ^ m \<le> n" "n < 2 ^ Suc m"
  then have "n div 2 ^ m = 1" by (intro div_nat_eqI) auto
  then show ?thesis by (simp add: bit_iff_odd)
qed

lemma and_minus_1_zero:
  assumes "(w :: 'a::len word) \<noteq> 0"
  shows "w AND (w - 1) = 0 \<longleftrightarrow> unat w = 2 ^ Max (word_bits w)"
proof -
  let ?m = "Max (word_bits w)"
  have n1: "unat (w - 1) = unat w - 1" using assms by (metis unat_minus_one)
  note b = unat_leftmost [OF assms]
  show ?thesis
  proof (cases "unat w = 2 ^ ?m")
    case True
    then have "unat (w AND (w - 1)) = 2 ^ ?m AND mask ?m"
      by (simp add: unsigned_and_eq n1 mask_eq_exp_minus_1)
    also have "\<dots> = 0" by (simp add: take_bit_eq_mask [symmetric])
    finally show ?thesis using True by (simp add: unat_eq_0)
  next
    case False
    then have "bit (unat (w - 1)) ?m" using b by (intro bit_top) (auto simp: n1)
    moreover have "bit (unat w) ?m" using b by (intro bit_top)
    ultimately have "bit (w AND (w - 1)) ?m" by (simp add: bit_unat bit_and_iff)
    then show ?thesis using False by auto
  qed
qed

lemma unat_push_bit_1:
  assumes "n < LENGTH('a)"
  shows "unat (push_bit n 1 :: 'a::len word) = 2 ^ n"
proof -
  have "unat (push_bit n 1 :: 'a word) = take_bit LENGTH('a) (2 ^ n)"
    by (subst unsigned_push_bit_eq) (simp_all add: push_bit_eq_mult)
  also have "\<dots> = 2 ^ n" using assms by (intro take_bit_nat_eq_self) simp
  finally show ?thesis .
qed

text \<open>
  The next power of two, for both widths: the power itself, or the power above the leftmost
  one-bit, which fits in the word when the number is at most half of its range.
\<close>

lemma nextpower2_above:
  assumes "(w :: 'a::len word) \<noteq> 0" and "unat w \<le> 2 ^ (LENGTH('a) - 1)"
    and "unat w \<noteq> 2 ^ Max (word_bits w)"
  shows "unat (push_bit (Max (word_bits w) + 1) 1 :: 'a word) = 2 ^ (Max (word_bits w) + 1)"
proof -
  have "(2::nat) ^ Max (word_bits w) < 2 ^ (LENGTH('a) - 1)"
    using unat_leftmost(1) [OF assms(1)] assms(2,3) by linarith
  then have "Max (word_bits w) + 1 < LENGTH('a)" using power_less_imp_less_exp by fastforce
  then show ?thesis by (rule unat_push_bit_1)
qed

lemma nextpower2_32_bounds:
  assumes "0 < num" and "num \<le> 2147483648"
  shows "\<exists>p k. pg_nextpower2_32 num = Inr p \<and> unat p = 2 ^ k \<and> num \<le> p \<and> unat p < 2 * unat num"
proof -
  have nz: "num \<noteq> 0" using assms(1) by auto
  have le: "unat num \<le> 2 ^ (LENGTH(32) - 1)" using assms(2) by (simp add: word_le_nat_alt)
  let ?m = "Max (word_bits num)"
  note b = unat_leftmost [OF nz]
  show ?thesis
  proof (cases "unat num = 2 ^ ?m")
    case True
    then show ?thesis using and_minus_1_zero [OF nz] nz
      by (auto simp: pg_nextpower2_32_def unat_gt_0 intro!: exI [of _ ?m])
  next
    case False
    let ?p = "push_bit (?m + 1) 1 :: 32 word"
    have "pg_nextpower2_32 num = Inr ?p"
      using False and_minus_1_zero [OF nz] by (simp add: pg_nextpower2_32_def pg_leftmost_one_pos32_eq nz)
    moreover have p: "unat ?p = 2 ^ (?m + 1)" by (rule nextpower2_above [OF nz le False])
    ultimately show ?thesis using b False by (auto simp: word_le_nat_alt intro!: exI [of _ "?m + 1"])
  qed
qed

text \<open>
  For a positive number in the lower half of the 32-bit range (the range the assertion of the
  code names) \<open>pg_nextpower2_32\<close> returns a power of two that is at least the number and
  less than twice the number; the byte search for the leftmost bit it rests on ends.
\<close>

theorem pg_nextpower2_32_correct:
  assumes "0 < num" and "num \<le> 2147483648"
  shows "\<exists>p k. pg_nextpower2_32 num = Inr p \<and> unat p = 2 ^ k \<and> num \<le> p \<and> unat p < 2 * unat num"
  by (rule nextpower2_32_bounds [OF assms])

theorem pg_nextpower2_32_correct_witness:
  "\<exists>p k. pg_nextpower2_32 5 = Inr p \<and> unat p = 2 ^ k \<and> 5 \<le> p \<and> unat p < 2 * unat (5 :: 32 word)"
  using pg_nextpower2_32_correct [of 5] by simp

end
