(* ===== verification/Bitmapset.thy ===== *)
theory Bitmapset
  imports Bitutils
begin

text \<open>
  The bitmap sets of the PostgreSQL planner, \<open>src/backend/nodes/bitmapset.c\<close>: relation sets
  (\<open>Relids\<close>) are values of this type.  A \<open>Bitmapset *\<close> is \<open>None\<close> for the NULL pointer and
  \<open>Some words\<close> for an allocated set, with \<open>nwords\<close> the length of the list; a member is an \<open>int\<close>
  and a negative one is refused by \<open>elog(ERROR)\<close> as in the code.  A loop over the words is
  recursion on the word lists, or on the index where it runs backwards.  The operations that
  recycle their argument return the value the pointer they return points to.
\<close>

unbundle bit_operations_syntax

type_synonym bitmapword = "64 word"
type_synonym bitmapset = "bitmapword list option"

datatype BMS_Comparison = BMS_EQUAL | BMS_SUBSET1 | BMS_SUBSET2 | BMS_DIFFERENT

datatype BMS_Membership = BMS_EMPTY_SET | BMS_SINGLETON | BMS_MULTIPLE

section \<open>Macros\<close>

definition WORDNUM :: "int \<Rightarrow> nat" where
  "WORDNUM x = nat (x div 64)"

definition BITNUM :: "int \<Rightarrow> nat" where
  "BITNUM x = nat (x mod 64)"

definition RIGHTMOST_ONE :: "bitmapword \<Rightarrow> bitmapword" where
  "RIGHTMOST_ONE x = x AND (- x)"

definition HAS_MULTIPLE_ONES :: "bitmapword \<Rightarrow> bool" where
  "HAS_MULTIPLE_ONES x = (RIGHTMOST_ONE x \<noteq> x)"

definition negative_member :: error where
  "negative_member = Elog ''negative bitmapset member not allowed''"

section \<open>Copy, equality, comparison\<close>

definition bms_copy :: "bitmapset \<Rightarrow> bitmapset" where
  "bms_copy a = (case a of None \<Rightarrow> None | Some ws \<Rightarrow> Some ws)"

fun words_zero :: "bitmapword list \<Rightarrow> bool" where
  "words_zero [] = True"
| "words_zero (w # ws) = (if w \<noteq> 0 then False else words_zero ws)"

definition bms_is_empty :: "bitmapset \<Rightarrow> bool" where
  "bms_is_empty a = (case a of None \<Rightarrow> True | Some ws \<Rightarrow> words_zero ws)"

fun equal_loop :: "bitmapword list \<Rightarrow> bitmapword list \<Rightarrow> bool" where
  "equal_loop (s # shorter) (l # longer) = (if s \<noteq> l then False else equal_loop shorter longer)"
| "equal_loop shorter longer = words_zero longer"

definition bms_equal :: "bitmapset \<Rightarrow> bitmapset \<Rightarrow> bool" where
  "bms_equal a b = (case a of
     None \<Rightarrow> (case b of None \<Rightarrow> True | Some _ \<Rightarrow> bms_is_empty b)
   | Some aw \<Rightarrow> (case b of
        None \<Rightarrow> bms_is_empty a
      | Some bw \<Rightarrow> if length aw \<le> length bw then equal_loop aw bw else equal_loop bw aw))"

fun compare_loop :: "bitmapword list \<Rightarrow> bitmapword list \<Rightarrow> nat \<Rightarrow> int" where
  "compare_loop a b 0 = 0"
| "compare_loop a b (Suc i) =
     (if a ! i \<noteq> b ! i then (if a ! i > b ! i then 1 else -1) else compare_loop a b i)"

definition bms_compare :: "bitmapset \<Rightarrow> bitmapset \<Rightarrow> int" where
  "bms_compare a b = (case a of
     None \<Rightarrow> (if bms_is_empty b then 0 else -1)
   | Some aw \<Rightarrow> (case b of
        None \<Rightarrow> (if bms_is_empty a then 0 else 1)
      | Some bw \<Rightarrow>
          let shortlen = min (length aw) (length bw) in
          if \<not> words_zero (drop shortlen aw) then 1
          else if \<not> words_zero (drop shortlen bw) then -1
          else compare_loop aw bw shortlen))"

definition bms_make_singleton :: "int \<Rightarrow> bitmapset res" where
  "bms_make_singleton x = (if x < 0 then Inl negative_member
     else Inr (Some ((replicate (WORDNUM x + 1) 0)[WORDNUM x := push_bit (BITNUM x) 1])))"

section \<open>Union, intersection, difference\<close>

fun or_words :: "bitmapword list \<Rightarrow> bitmapword list \<Rightarrow> bitmapword list" where
  "or_words (r # result) (w # other) = (r OR w) # or_words result other"
| "or_words result other = result"

fun and_words :: "bitmapword list \<Rightarrow> bitmapword list \<Rightarrow> bitmapword list" where
  "and_words (r # result) (w # other) = (r AND w) # and_words result other"
| "and_words result other = result"

fun andnot_words :: "bitmapword list \<Rightarrow> bitmapword list \<Rightarrow> bitmapword list" where
  "andnot_words (r # result) (w # other) = (r AND NOT w) # andnot_words result other"
| "andnot_words result other = result"

definition bms_union :: "bitmapset \<Rightarrow> bitmapset \<Rightarrow> bitmapset" where
  "bms_union a b = (case a of None \<Rightarrow> bms_copy b
   | Some aw \<Rightarrow> (case b of None \<Rightarrow> bms_copy a
      | Some bw \<Rightarrow> if length aw \<le> length bw then Some (or_words bw aw) else Some (or_words aw bw)))"

definition bms_intersect :: "bitmapset \<Rightarrow> bitmapset \<Rightarrow> bitmapset" where
  "bms_intersect a b = (case (a, b) of
     (Some aw, Some bw) \<Rightarrow>
        if length aw \<le> length bw then Some (and_words aw bw) else Some (and_words bw aw)
   | _ \<Rightarrow> None)"

definition bms_difference :: "bitmapset \<Rightarrow> bitmapset \<Rightarrow> bitmapset" where
  "bms_difference a b = (case a of None \<Rightarrow> None
   | Some aw \<Rightarrow> (case b of None \<Rightarrow> bms_copy a | Some bw \<Rightarrow> Some (andnot_words aw bw)))"

section \<open>Subset tests\<close>

fun subset_loop :: "bitmapword list \<Rightarrow> bitmapword list \<Rightarrow> bool" where
  "subset_loop (a # as) (b # bs) = (if a AND NOT b \<noteq> 0 then False else subset_loop as bs)"
| "subset_loop as bs = words_zero as"

definition bms_is_subset :: "bitmapset \<Rightarrow> bitmapset \<Rightarrow> bool" where
  "bms_is_subset a b = (case a of None \<Rightarrow> True
   | Some aw \<Rightarrow> (case b of None \<Rightarrow> bms_is_empty a | Some bw \<Rightarrow> subset_loop aw bw))"

fun extra_words :: "BMS_Comparison \<Rightarrow> BMS_Comparison \<Rightarrow> BMS_Comparison \<Rightarrow> bitmapword list \<Rightarrow> BMS_Comparison" where
  "extra_words bad new result [] = result"
| "extra_words bad new result (w # ws) =
     (if w \<noteq> 0 then (if result = bad then BMS_DIFFERENT else extra_words bad new new ws)
      else extra_words bad new result ws)"

fun subset_compare_loop :: "BMS_Comparison \<Rightarrow> bitmapword list \<Rightarrow> bitmapword list \<Rightarrow> BMS_Comparison" where
  "subset_compare_loop result (aword # as) (bword # bs) =
     (if aword AND NOT bword \<noteq> 0 \<and> result = BMS_SUBSET1 then BMS_DIFFERENT
      else let result1 = (if aword AND NOT bword \<noteq> 0 then BMS_SUBSET2 else result) in
        if bword AND NOT aword \<noteq> 0 \<and> result1 = BMS_SUBSET2 then BMS_DIFFERENT
        else subset_compare_loop
               (if bword AND NOT aword \<noteq> 0 then BMS_SUBSET1 else result1) as bs)"
| "subset_compare_loop result as [] = extra_words BMS_SUBSET1 BMS_SUBSET2 result as"
| "subset_compare_loop result [] bs = extra_words BMS_SUBSET2 BMS_SUBSET1 result bs"

definition bms_subset_compare :: "bitmapset \<Rightarrow> bitmapset \<Rightarrow> BMS_Comparison" where
  "bms_subset_compare a b = (case a of
     None \<Rightarrow> (case b of None \<Rightarrow> BMS_EQUAL
              | Some _ \<Rightarrow> if bms_is_empty b then BMS_EQUAL else BMS_SUBSET1)
   | Some aw \<Rightarrow> (case b of None \<Rightarrow> if bms_is_empty a then BMS_EQUAL else BMS_SUBSET2
              | Some bw \<Rightarrow> subset_compare_loop BMS_EQUAL aw bw))"

section \<open>Members\<close>

definition word_has :: "bitmapword list \<Rightarrow> int \<Rightarrow> bool" where
  "word_has ws x = (WORDNUM x < length ws \<and> ws ! WORDNUM x AND push_bit (BITNUM x) 1 \<noteq> 0)"

definition bms_is_member :: "int \<Rightarrow> bitmapset \<Rightarrow> bool res" where
  "bms_is_member x a = (if x < 0 then Inl negative_member
     else Inr (case a of None \<Rightarrow> False | Some ws \<Rightarrow> word_has ws x))"

fun popcount_words_loop :: "bitmapword list \<Rightarrow> nat" where
  "popcount_words_loop [] = 0"
| "popcount_words_loop (w # ws) = (if w \<noteq> 0 then pg_popcount64 w else 0) + popcount_words_loop ws"

definition bms_member_index :: "bitmapset \<Rightarrow> int \<Rightarrow> int res" where
  "bms_member_index a x = res_bind (bms_is_member x a) (\<lambda>member.
     if \<not> member then Inr (-1)
     else Inr (case a of None \<Rightarrow> -1
       | Some ws \<Rightarrow> int (popcount_words_loop (take (WORDNUM x) ws)
            + pg_popcount64 (ws ! WORDNUM x AND (push_bit (BITNUM x) 1 - 1)))))"

fun overlap_loop :: "bitmapword list \<Rightarrow> bitmapword list \<Rightarrow> bool" where
  "overlap_loop (a # as) (b # bs) = (if a AND b \<noteq> 0 then True else overlap_loop as bs)"
| "overlap_loop as bs = False"

definition bms_overlap :: "bitmapset \<Rightarrow> bitmapset \<Rightarrow> bool" where
  "bms_overlap a b = (case (a, b) of (Some aw, Some bw) \<Rightarrow> overlap_loop aw bw | _ \<Rightarrow> False)"

fun overlap_list_loop :: "bitmapword list \<Rightarrow> int list \<Rightarrow> bool res" where
  "overlap_list_loop ws [] = Inr False"
| "overlap_list_loop ws (x # xs) = (if x < 0 then Inl negative_member
     else if word_has ws x then Inr True else overlap_list_loop ws xs)"

definition bms_overlap_list :: "bitmapset \<Rightarrow> int list \<Rightarrow> bool res" where
  "bms_overlap_list a b = (case a of None \<Rightarrow> Inr False | Some ws \<Rightarrow> overlap_list_loop ws b)"

fun nonempty_difference_loop :: "bitmapword list \<Rightarrow> bitmapword list \<Rightarrow> bool" where
  "nonempty_difference_loop (a # as) (b # bs) =
     (if a AND NOT b \<noteq> 0 then True else nonempty_difference_loop as bs)"
| "nonempty_difference_loop as bs = (\<not> words_zero as)"

definition bms_nonempty_difference :: "bitmapset \<Rightarrow> bitmapset \<Rightarrow> bool" where
  "bms_nonempty_difference a b = (case a of None \<Rightarrow> False
   | Some aw \<Rightarrow> (case b of None \<Rightarrow> \<not> bms_is_empty a | Some bw \<Rightarrow> nonempty_difference_loop aw bw))"

text \<open>
  The loop shared by \<open>bms_singleton_member\<close> and \<open>bms_get_singleton_member\<close>: \<open>None\<close> when a
  second member is met, otherwise the last value of \<open>result\<close> (-1 if no word is nonzero).
\<close>

fun singleton_loop :: "bitmapword list \<Rightarrow> nat \<Rightarrow> int \<Rightarrow> int option res" where
  "singleton_loop [] wordnum result = Inr (Some result)"
| "singleton_loop (w # ws) wordnum result =
     (if w \<noteq> 0 then
        (if result \<ge> 0 \<or> HAS_MULTIPLE_ONES w then Inr None
         else res_bind (pg_rightmost_one_pos64 w)
           (\<lambda>pos. singleton_loop ws (Suc wordnum) (int (wordnum * 64) + int pos)))
      else singleton_loop ws (Suc wordnum) result)"

definition bms_singleton_member :: "bitmapset \<Rightarrow> int res" where
  "bms_singleton_member a = (case a of None \<Rightarrow> Inl (Elog ''bitmapset is empty'')
   | Some ws \<Rightarrow> res_bind (singleton_loop ws 0 (-1)) (\<lambda>r. case r of
       None \<Rightarrow> Inl (Elog ''bitmapset has multiple members'')
     | Some result \<Rightarrow> if result < 0 then Inl (Elog ''bitmapset is empty'') else Inr result))"

text \<open>The result of \<open>bms_get_singleton_member\<close> with the final value of \<open>*member\<close>.\<close>

definition bms_get_singleton_member :: "bitmapset \<Rightarrow> int \<Rightarrow> (bool \<times> int) res" where
  "bms_get_singleton_member a member = (case a of None \<Rightarrow> Inr (False, member)
   | Some ws \<Rightarrow> res_map (\<lambda>r. case r of
       None \<Rightarrow> (False, member)
     | Some result \<Rightarrow> if result < 0 then (False, member) else (True, result))
       (singleton_loop ws 0 (-1)))"

definition bms_num_members :: "bitmapset \<Rightarrow> int" where
  "bms_num_members a = (case a of None \<Rightarrow> 0 | Some ws \<Rightarrow> int (popcount_words_loop ws))"

fun membership_loop :: "bitmapword list \<Rightarrow> BMS_Membership \<Rightarrow> BMS_Membership" where
  "membership_loop [] result = result"
| "membership_loop (w # ws) result =
     (if w \<noteq> 0 then
        (if result \<noteq> BMS_EMPTY_SET \<or> HAS_MULTIPLE_ONES w then BMS_MULTIPLE
         else membership_loop ws BMS_SINGLETON)
      else membership_loop ws result)"

definition bms_membership :: "bitmapset \<Rightarrow> BMS_Membership" where
  "bms_membership a = (case a of None \<Rightarrow> BMS_EMPTY_SET | Some ws \<Rightarrow> membership_loop ws BMS_EMPTY_SET)"

section \<open>Operations that recycle their argument\<close>

text \<open>Enlarge to at least \<open>n\<close> words, the new ones zero.\<close>

definition enlarge :: "nat \<Rightarrow> bitmapword list \<Rightarrow> bitmapword list" where
  "enlarge n ws = (if n > length ws then resize n 0 ws else ws)"

definition bms_add_member :: "bitmapset \<Rightarrow> int \<Rightarrow> bitmapset res" where
  "bms_add_member a x = (if x < 0 then Inl negative_member
     else case a of None \<Rightarrow> bms_make_singleton x
     | Some ws \<Rightarrow> let ws = enlarge (WORDNUM x + 1) ws in
         Inr (Some (ws[WORDNUM x := ws ! WORDNUM x OR push_bit (BITNUM x) 1])))"

definition bms_del_member :: "bitmapset \<Rightarrow> int \<Rightarrow> bitmapset res" where
  "bms_del_member a x = (if x < 0 then Inl negative_member
     else case a of None \<Rightarrow> Inr None
     | Some ws \<Rightarrow> Inr (Some (if WORDNUM x < length ws
         then ws[WORDNUM x := ws ! WORDNUM x AND NOT (push_bit (BITNUM x) 1)] else ws)))"

definition bms_add_members :: "bitmapset \<Rightarrow> bitmapset \<Rightarrow> bitmapset" where
  "bms_add_members a b = (case a of None \<Rightarrow> bms_copy b
   | Some aw \<Rightarrow> (case b of None \<Rightarrow> a
      | Some bw \<Rightarrow> if length aw < length bw then Some (or_words bw aw) else Some (or_words aw bw)))"

function fill_words :: "bitmapword list \<Rightarrow> nat \<Rightarrow> nat \<Rightarrow> bitmapword list" where
  "fill_words ws wordnum uwordnum = (if wordnum < uwordnum
     then fill_words (ws[wordnum := NOT 0]) (Suc wordnum) uwordnum else ws)"
  by pat_completeness auto
termination by (relation "measure (\<lambda>(_, wordnum, uwordnum). uwordnum - wordnum)") auto

declare fill_words.simps [simp del]

definition lower_mask :: "int \<Rightarrow> bitmapword" where
  "lower_mask lower = NOT (push_bit (BITNUM lower) 1 - 1)"

definition upper_mask :: "int \<Rightarrow> bitmapword" where
  "upper_mask upper = drop_bit (64 - (BITNUM upper + 1)) (NOT 0)"

definition bms_add_range :: "bitmapset \<Rightarrow> int \<Rightarrow> int \<Rightarrow> bitmapset res" where
  "bms_add_range a lower upper = (if upper < lower then Inr a
     else if lower < 0 then Inl negative_member
     else
       let lw = WORDNUM lower; uw = WORDNUM upper;
           ws = (case a of None \<Rightarrow> replicate (uw + 1) 0 | Some ws \<Rightarrow> enlarge (uw + 1) ws)
       in Inr (Some (if lw = uw
            then ws[lw := ws ! lw OR (lower_mask lower AND upper_mask upper)]
            else let ws1 = ws[lw := ws ! lw OR lower_mask lower];
                     ws2 = fill_words ws1 (Suc lw) uw
                 in ws2[uw := ws2 ! uw OR upper_mask upper])))"

fun int_words :: "bitmapword list \<Rightarrow> bitmapword list \<Rightarrow> bitmapword list" where
  "int_words (a # as) (b # bs) = (a AND b) # int_words as bs"
| "int_words (a # as) [] = 0 # int_words as []"
| "int_words [] bs = []"

definition bms_int_members :: "bitmapset \<Rightarrow> bitmapset \<Rightarrow> bitmapset" where
  "bms_int_members a b = (case a of None \<Rightarrow> None
   | Some aw \<Rightarrow> (case b of None \<Rightarrow> None | Some bw \<Rightarrow> Some (int_words aw bw)))"

definition bms_del_members :: "bitmapset \<Rightarrow> bitmapset \<Rightarrow> bitmapset" where
  "bms_del_members a b = (case a of None \<Rightarrow> None
   | Some aw \<Rightarrow> (case b of None \<Rightarrow> a | Some bw \<Rightarrow> Some (andnot_words aw bw)))"

definition bms_join :: "bitmapset \<Rightarrow> bitmapset \<Rightarrow> bitmapset" where
  "bms_join a b = (case a of None \<Rightarrow> b
   | Some aw \<Rightarrow> (case b of None \<Rightarrow> a
      | Some bw \<Rightarrow> if length aw < length bw then Some (or_words bw aw) else Some (or_words aw bw)))"

section \<open>Iteration\<close>

text \<open>
  \<open>bms_first_member\<close> takes the first member out of the set it is given: the result is the
  member and the set after the call.
\<close>

fun first_member_loop :: "bitmapword list \<Rightarrow> nat \<Rightarrow> (int \<times> bitmapword list) res" where
  "first_member_loop [] wordnum = Inr (-1, [])"
| "first_member_loop (w # ws) wordnum =
     (if w \<noteq> 0 then
        res_map (\<lambda>pos. (int (wordnum * 64) + int pos, (w AND NOT (RIGHTMOST_ONE w)) # ws))
          (pg_rightmost_one_pos64 (RIGHTMOST_ONE w))
      else res_map (\<lambda>(x, ws'). (x, w # ws')) (first_member_loop ws (Suc wordnum)))"

definition bms_first_member :: "bitmapset \<Rightarrow> (int \<times> bitmapset) res" where
  "bms_first_member a = (case a of None \<Rightarrow> Inr (-1, None)
   | Some ws \<Rightarrow> res_map (\<lambda>(x, ws'). (x, Some ws')) (first_member_loop ws 0))"

fun next_member_loop :: "bitmapword list \<Rightarrow> nat \<Rightarrow> bitmapword \<Rightarrow> int res" where
  "next_member_loop [] wordnum mask_w = Inr (-2)"
| "next_member_loop (w # ws) wordnum mask_w =
     (if w AND mask_w \<noteq> 0
      then res_map (\<lambda>pos. int (wordnum * 64) + int pos) (pg_rightmost_one_pos64 (w AND mask_w))
      else next_member_loop ws (Suc wordnum) (NOT 0))"

definition bms_next_member :: "bitmapset \<Rightarrow> int \<Rightarrow> int res" where
  "bms_next_member a prevbit = (case a of None \<Rightarrow> Inr (-2)
   | Some ws \<Rightarrow>
       if prevbit < -1 then Inl (Undefined ''negative shift'')
       else let prevbit = prevbit + 1 in
         next_member_loop (drop (WORDNUM prevbit) ws) (WORDNUM prevbit)
           (push_bit (BITNUM prevbit) (NOT 0)))"

fun prev_member_loop :: "bitmapword list \<Rightarrow> nat \<Rightarrow> bitmapword \<Rightarrow> int res" where
  "prev_member_loop ws wordnum mask_w =
     (if ws ! wordnum AND mask_w \<noteq> 0
      then res_map (\<lambda>pos. int (wordnum * 64) + int pos) (pg_leftmost_one_pos64 (ws ! wordnum AND mask_w))
      else case wordnum of 0 \<Rightarrow> Inr (-2) | Suc n \<Rightarrow> prev_member_loop ws n (NOT 0))"

declare prev_member_loop.simps [simp del]

definition bms_prev_member :: "bitmapset \<Rightarrow> int \<Rightarrow> int res" where
  "bms_prev_member a prevbit = (if prevbit = 0 then Inr (-2) else case a of None \<Rightarrow> Inr (-2)
   | Some ws \<Rightarrow>
       let prevbit = (if prevbit = -1 then int (length ws) * 64 - 1 else prevbit - 1) in
       if prevbit < 0 then Inl (Undefined ''negative shift'')
       else if WORDNUM prevbit \<ge> length ws then Inl (Undefined ''read past words'')
       else prev_member_loop ws (WORDNUM prevbit) (upper_mask prevbit))"

definition bitmap_match :: "bitmapset \<Rightarrow> bitmapset \<Rightarrow> int" where
  "bitmap_match key1 key2 = (if bms_equal key1 key2 then 0 else 1)"

end
