(* ===== verification/Bitmapset_Set.thy ===== *)
theory Bitmapset_Set
  imports Bitmapset
begin

text \<open>
  The bitmap sets as an implementation of finite sets of natural numbers.  \<open>bms_set\<close> is the
  abstraction function, and each operation of \<open>Bitmapset\<close> refines its set counterpart: the
  interface \<open>set_ops\<close> states the laws a client relies on and is interpreted on the operations
  of the code; \<open>set_iter\<close> adds the iteration protocol of \<open>bms_next_member\<close>.
\<close>

unbundle bit_operations_syntax

section \<open>Abstraction\<close>

definition nth_word :: "bitmapword list \<Rightarrow> nat \<Rightarrow> bitmapword" where
  "nth_word ws i = (if i < length ws then ws ! i else 0)"

definition words_set :: "bitmapword list \<Rightarrow> nat set" where
  "words_set ws = {x. bit (nth_word ws (x div 64)) (x mod 64)}"

definition bms_set :: "bitmapset \<Rightarrow> nat set" where
  "bms_set a = (case a of None \<Rightarrow> {} | Some ws \<Rightarrow> words_set ws)"

named_theorems bms_simps \<open>the abstraction of each operation\<close>

lemma bms_set_simps [simp]: "bms_set None = {}" "bms_set (Some ws) = words_set ws"
  by (simp_all add: bms_set_def)

lemma nth_word_Nil [simp]: "nth_word [] i = 0"
  by (simp add: nth_word_def)

lemma nth_word_0 [simp]: "nth_word (w # ws) 0 = w"
  by (simp add: nth_word_def)

lemma nth_word_Suc [simp]: "nth_word (w # ws) (Suc i) = nth_word ws i"
  by (simp add: nth_word_def)

lemma nth_word_Cons: "nth_word (w # ws) i = (case i of 0 \<Rightarrow> w | Suc j \<Rightarrow> nth_word ws j)"
  by (cases i) simp_all

lemma mem_words_set: "x \<in> words_set ws \<longleftrightarrow> bit (nth_word ws (x div 64)) (x mod 64)"
  by (simp add: words_set_def)

lemma mem_words_set_pair: "j < 64 \<Longrightarrow> 64 * i + j \<in> words_set ws \<longleftrightarrow> bit (nth_word ws i) j"
  by (simp add: words_set_def)

lemma words_set_all:
  "(\<forall>x. (x \<in> words_set a \<longrightarrow> x \<in> words_set b)) \<longleftrightarrow> (\<forall>i. nth_word a i AND NOT (nth_word b i) = 0)"
  (is "?l \<longleftrightarrow> ?r")
proof
  assume l: ?l
  show ?r
  proof
    fix i
    show "nth_word a i AND NOT (nth_word b i) = 0"
    proof (rule bit_word_eqI)
      fix j :: nat assume "j < LENGTH(64)"
      then have "bit (nth_word a i) j \<Longrightarrow> bit (nth_word b i) j"
        using l mem_words_set_pair [of j i a] mem_words_set_pair [of j i b] by simp
      then show "bit (nth_word a i AND NOT (nth_word b i)) j \<longleftrightarrow> bit (0 :: bitmapword) j"
        by (auto simp: bit_and_iff bit_not_iff)
    qed
  qed
next
  assume r: ?r
  show ?l
  proof (intro allI impI)
    fix x assume "x \<in> words_set a"
    moreover have "\<not> bit (nth_word a (x div 64) AND NOT (nth_word b (x div 64))) (x mod 64)"
      using r by simp
    ultimately show "x \<in> words_set b" by (simp add: mem_words_set bit_and_iff bit_not_iff)
  qed
qed

lemma words_subset_iff:
  "words_set a \<subseteq> words_set b \<longleftrightarrow> (\<forall>i. nth_word a i AND NOT (nth_word b i) = 0)"
  using words_set_all by blast

lemma and_not_antisym: "(a :: 64 word) AND NOT b = 0 \<Longrightarrow> b AND NOT a = 0 \<Longrightarrow> a = b"
proof (rule bit_word_eqI)
  fix n :: nat
  assume "a AND NOT b = 0" and "b AND NOT a = 0" and "n < LENGTH(64)"
  then have "\<not> bit (a AND NOT b) n" "\<not> bit (b AND NOT a) n" by simp_all
  with \<open>n < LENGTH(64)\<close> show "bit a n = bit b n" by (auto simp: bit_and_iff bit_not_iff)
qed

lemma words_set_eq_iff: "words_set a = words_set b \<longleftrightarrow> (\<forall>i. nth_word a i = nth_word b i)"
proof
  assume "words_set a = words_set b"
  then have "words_set a \<subseteq> words_set b" "words_set b \<subseteq> words_set a" by auto
  then show "\<forall>i. nth_word a i = nth_word b i"
    unfolding words_subset_iff using and_not_antisym by blast
qed (simp add: words_set_def)

lemma words_set_empty_iff: "words_set a = {} \<longleftrightarrow> (\<forall>i. nth_word a i = 0)"
  using words_set_eq_iff [of a "[]"] by (simp add: words_set_def)

lemma words_set_disjoint_iff:
  "words_set a \<inter> words_set b = {} \<longleftrightarrow> (\<forall>i. nth_word a i AND nth_word b i = 0)"
proof -
  define c where "c = map (\<lambda>i. nth_word a i AND nth_word b i) [0..<length a]"
  have c: "nth_word c i = nth_word a i AND nth_word b i" for i
    by (cases "i < length a") (simp_all add: c_def nth_word_def)
  have "words_set c = words_set a \<inter> words_set b"
    by (auto simp: mem_words_set c bit_and_iff)
  then show ?thesis using words_set_empty_iff [of c] by (simp add: c)
qed

lemma all_nat_Suc: "(\<forall>i. P i) \<longleftrightarrow> P 0 \<and> (\<forall>i. P (Suc i))"
  by (metis not0_implies_Suc)

section \<open>Word loops\<close>

lemma words_zero_iff: "words_zero ws \<longleftrightarrow> words_set ws = {}"
  unfolding words_set_empty_iff
proof (induction ws)
  case (Cons w ws)
  show ?case by (subst all_nat_Suc) (simp add: Cons.IH)
qed simp

lemma words_zero_nth: "words_zero ws \<longleftrightarrow> (\<forall>i. nth_word ws i = 0)"
  by (simp add: words_zero_iff words_set_empty_iff)

lemma equal_loop_iff: "length a \<le> length b \<Longrightarrow> equal_loop a b \<longleftrightarrow> (\<forall>i. nth_word a i = nth_word b i)"
proof (induction a b rule: equal_loop.induct)
  case (1 s shorter l longer)
  then show ?case by (subst all_nat_Suc) simp
qed (auto simp: words_zero_nth)

lemma nth_or_words: "length b \<le> length a \<Longrightarrow> nth_word (or_words a b) i = nth_word a i OR nth_word b i"
  by (induction a b arbitrary: i rule: or_words.induct) (simp_all add: nth_word_Cons split: nat.split)

lemma nth_and_words: "length a \<le> length b \<Longrightarrow> nth_word (and_words a b) i = nth_word a i AND nth_word b i"
  by (induction a b arbitrary: i rule: and_words.induct) (simp_all add: nth_word_Cons split: nat.split)

lemma nth_andnot_words: "nth_word (andnot_words a b) i = nth_word a i AND NOT (nth_word b i)"
  by (induction a b arbitrary: i rule: andnot_words.induct) (simp_all add: nth_word_Cons split: nat.split)

lemma nth_int_words: "nth_word (int_words a b) i = nth_word a i AND nth_word b i"
  by (induction a b arbitrary: i rule: int_words.induct) (simp_all add: nth_word_Cons split: nat.split)

lemma subset_loop_iff: "subset_loop a b \<longleftrightarrow> (\<forall>i. nth_word a i AND NOT (nth_word b i) = 0)"
proof (induction a b rule: subset_loop.induct)
  case (1 a as b bs)
  then show ?case by (subst all_nat_Suc) simp
qed (simp_all add: words_zero_nth)

lemma nonempty_difference_loop_iff: "nonempty_difference_loop a b \<longleftrightarrow> \<not> subset_loop a b"
  by (induction a b rule: nonempty_difference_loop.induct) simp_all

lemma overlap_loop_iff: "overlap_loop a b \<longleftrightarrow> \<not> (\<forall>i. nth_word a i AND nth_word b i = 0)"
proof (induction a b rule: overlap_loop.induct)
  case (1 a as b bs)
  then show ?case by (subst all_nat_Suc) simp
qed simp_all

section \<open>Refinement of the set operations\<close>

lemma bms_copy_id [simp]: "bms_copy a = a"
  by (simp add: bms_copy_def split: option.split)

lemma bms_is_empty_iff [bms_simps]: "bms_is_empty a \<longleftrightarrow> bms_set a = {}"
  by (simp add: bms_is_empty_def words_zero_iff split: option.split)

lemma bms_equal_iff [bms_simps]: "bms_equal a b \<longleftrightarrow> bms_set a = bms_set b"
  by (auto simp: bms_equal_def bms_is_empty_iff equal_loop_iff words_set_eq_iff split: option.split)

lemma bms_union_set [bms_simps]: "bms_set (bms_union a b) = bms_set a \<union> bms_set b"
  by (auto simp: bms_union_def mem_words_set nth_or_words bit_or_iff split: option.split)

lemma bms_intersect_set [bms_simps]: "bms_set (bms_intersect a b) = bms_set a \<inter> bms_set b"
  by (auto simp: bms_intersect_def mem_words_set nth_and_words bit_and_iff split: option.split)

lemma bit_andnot: "j < 64 \<Longrightarrow> bit ((a :: bitmapword) AND NOT b) j \<longleftrightarrow> bit a j \<and> \<not> bit b j"
  by (auto simp: bit_and_iff bit_not_iff)

lemma bms_difference_set [bms_simps]: "bms_set (bms_difference a b) = bms_set a - bms_set b"
  by (auto simp: bms_difference_def mem_words_set nth_andnot_words bit_andnot split: option.split)

lemma bms_is_subset_iff [bms_simps]: "bms_is_subset a b \<longleftrightarrow> bms_set a \<subseteq> bms_set b"
  by (auto simp: bms_is_subset_def bms_is_empty_iff subset_loop_iff simp flip: words_subset_iff
      split: option.split)

lemma bms_nonempty_difference_iff [bms_simps]:
  "bms_nonempty_difference a b \<longleftrightarrow> bms_set a - bms_set b \<noteq> {}"
  by (auto simp: bms_nonempty_difference_def bms_is_empty_iff nonempty_difference_loop_iff
      subset_loop_iff simp flip: words_subset_iff split: option.split)

lemma bms_overlap_iff [bms_simps]: "bms_overlap a b \<longleftrightarrow> bms_set a \<inter> bms_set b \<noteq> {}"
  by (auto simp: bms_overlap_def overlap_loop_iff simp flip: words_set_disjoint_iff split: option.split)

lemma bms_add_members_set [bms_simps]: "bms_set (bms_add_members a b) = bms_set a \<union> bms_set b"
  by (auto simp: bms_add_members_def mem_words_set nth_or_words bit_or_iff split: option.split)

lemma bms_join_set [bms_simps]: "bms_set (bms_join a b) = bms_set a \<union> bms_set b"
  by (auto simp: bms_join_def mem_words_set nth_or_words bit_or_iff split: option.split)

lemma bms_int_members_set [bms_simps]: "bms_set (bms_int_members a b) = bms_set a \<inter> bms_set b"
  by (auto simp: bms_int_members_def mem_words_set nth_int_words bit_and_iff split: option.split)

lemma bms_del_members_set [bms_simps]: "bms_set (bms_del_members a b) = bms_set a - bms_set b"
  by (auto simp: bms_del_members_def mem_words_set nth_andnot_words bit_andnot split: option.split)

section \<open>Single members\<close>

lemma WORDNUM_nat: "0 \<le> x \<Longrightarrow> WORDNUM x = nat x div 64"
  by (simp add: WORDNUM_def nat_div_distrib)

lemma BITNUM_nat: "0 \<le> x \<Longrightarrow> BITNUM x = nat x mod 64"
  by (simp add: BITNUM_def nat_mod_distrib)

lemma word_has_iff: "0 \<le> x \<Longrightarrow> word_has ws x \<longleftrightarrow> nat x \<in> words_set ws"
  by (auto simp: word_has_def WORDNUM_nat BITNUM_nat mem_words_set nth_word_def
      bit_iff_and_push_bit_not_eq_0)

lemma bms_is_member_eq [bms_simps]:
  "bms_is_member x a = (if x < 0 then Inl negative_member else Inr (nat x \<in> bms_set a))"
  by (auto simp: bms_is_member_def word_has_iff split: option.split)

lemma nth_word_update: "nth_word (ws[k := v]) i = (if i = k \<and> k < length ws then v else nth_word ws i)"
  by (auto simp: nth_word_def)

lemma nth_word_enlarge [simp]: "nth_word (enlarge n ws) i = nth_word ws i"
  by (auto simp: enlarge_def nth_word_def nth_resize)

lemma length_enlarge: "n \<le> length (enlarge n ws)"
  by (simp add: enlarge_def)

lemma nth_word_replicate_0 [simp]: "nth_word (replicate n 0) i = 0"
  by (simp add: nth_word_def)

lemma nth_word_in: "i < length ws \<Longrightarrow> ws ! i = nth_word ws i"
  by (simp add: nth_word_def)

lemma bit_push_1: "k < 64 \<Longrightarrow> bit (2 ^ j :: bitmapword) k \<longleftrightarrow> j = k"
  by (auto simp: bit_exp_iff)

lemma div_mod_64_eq: "(x::nat) div 64 = y div 64 \<and> x mod 64 = y mod 64 \<longleftrightarrow> x = y"
  by (metis div_mult_mod_eq)

lemma words_set_or_bit:
  assumes "x div 64 < length ws"
  shows "words_set (ws[x div 64 := nth_word ws (x div 64) OR push_bit (x mod 64) 1])
    = insert x (words_set ws)"
proof (rule set_eqI)
  fix y
  show "y \<in> words_set (ws[x div 64 := nth_word ws (x div 64) OR push_bit (x mod 64) 1])
    \<longleftrightarrow> y \<in> insert x (words_set ws)"
    using assms div_mod_64_eq [of y x]
    by (auto simp: mem_words_set nth_word_update bit_or_iff bit_push_1)
qed

lemma bms_make_singleton_eq:
  "0 \<le> x \<Longrightarrow> \<exists>b. bms_make_singleton x = Inr b \<and> bms_set b = {nat x}"
  using words_set_or_bit [of "nat x" "replicate (WORDNUM x + 1) 0"]
  by (auto simp: bms_make_singleton_def WORDNUM_nat BITNUM_nat words_set_def
      simp flip: replicate.simps(2))

lemma bms_add_member_eq:
  assumes "0 \<le> x"
  shows "\<exists>b. bms_add_member a x = Inr b \<and> bms_set b = insert (nat x) (bms_set a)"
proof (cases a)
  case None
  then show ?thesis using bms_make_singleton_eq [OF assms] assms by (auto simp: bms_add_member_def)
next
  case (Some ws)
  let ?ws = "enlarge (WORDNUM x + 1) ws"
  have l: "nat x div 64 < length ?ws"
    using length_enlarge [of "WORDNUM x + 1" ws] by (simp add: WORDNUM_nat assms)
  have "words_set ?ws = words_set ws" by (simp add: words_set_def)
  then show ?thesis using Some assms words_set_or_bit [OF l] l
    by (simp add: bms_add_member_def Let_def WORDNUM_nat BITNUM_nat nth_word_in)
qed

lemma bms_del_member_eq:
  assumes "0 \<le> x"
  shows "\<exists>b. bms_del_member a x = Inr b \<and> bms_set b = bms_set a - {nat x}"
proof (cases a)
  case (Some ws)
  let ?k = "nat x div 64"
  have "words_set (ws[?k := ws ! ?k AND NOT (push_bit (nat x mod 64) 1)]) = words_set ws - {nat x}"
    if "?k < length ws"
  proof (rule set_eqI)
    fix y
    show "y \<in> words_set (ws[?k := ws ! ?k AND NOT (push_bit (nat x mod 64) 1)])
      \<longleftrightarrow> y \<in> words_set ws - {nat x}"
      using that div_mod_64_eq [of y "nat x"]
      by (auto simp: mem_words_set nth_word_update bit_andnot bit_push_1 nth_word_in)
  qed
  moreover have "nat x \<notin> words_set ws" if "\<not> ?k < length ws"
    using that by (simp add: mem_words_set nth_word_def)
  ultimately show ?thesis using Some assms
    by (auto simp: bms_del_member_def WORDNUM_nat BITNUM_nat)
qed (use assms in \<open>simp add: bms_del_member_def\<close>)

lemma negative_members [simp]:
  "x < 0 \<Longrightarrow> bms_make_singleton x = Inl negative_member"
  "x < 0 \<Longrightarrow> bms_add_member a x = Inl negative_member"
  "x < 0 \<Longrightarrow> bms_del_member a x = Inl negative_member"
  by (simp_all add: bms_make_singleton_def bms_add_member_def bms_del_member_def)

section \<open>Counting\<close>

lemma words_set_Cons: "words_set (w # ws) = word_bits w \<union> (\<lambda>x. x + 64) ` words_set ws"
proof (rule set_eqI)
  fix x
  show "x \<in> words_set (w # ws) \<longleftrightarrow> x \<in> word_bits w \<union> (\<lambda>x. x + 64) ` words_set ws"
  proof (cases "x < 64")
    case True
    then show ?thesis by (auto simp: mem_words_set mem_word_bits)
  next
    case False
    then obtain y where y: "x = y + 64" by (metis add.commute le_Suc_ex not_less)
    then have "x \<notin> word_bits w" using word_bits_less [of x w] by auto
    then show ?thesis using y by (auto simp: mem_words_set)
  qed
qed

lemma words_set_Nil [simp]: "words_set [] = {}"
  by (simp add: words_set_def)

lemma finite_words_set [simp]: "finite (words_set ws)"
  by (induction ws) (simp_all add: words_set_Cons)

lemma finite_bms_set [simp]: "finite (bms_set a)"
  by (simp add: bms_set_def split: option.split)

lemma words_set_bound: "x \<in> words_set ws \<Longrightarrow> x < 64 * length ws"
  by (rule ccontr) (auto simp: mem_words_set nth_word_def not_less div_less_iff_less_mult split: if_splits)

lemma words_Cons_disjoint: "word_bits (w :: bitmapword) \<inter> (\<lambda>x. x + 64) ` A = {}"
  by (auto dest: word_bits_less)

lemma card_words_set_Cons: "card (words_set (w # ws)) = card (word_bits w) + card (words_set ws)"
  using words_Cons_disjoint [of w "words_set ws"]
  by (simp add: words_set_Cons card_Un_disjoint card_image)

lemma popcount_words_loop_card: "popcount_words_loop ws = card (words_set ws)"
  by (induction ws) (simp_all add: card_words_set_Cons pg_popcount64_def pg_popcount_slow_card)

lemma bms_num_members_card [bms_simps]: "bms_num_members a = int (card (bms_set a))"
  by (simp add: bms_num_members_def popcount_words_loop_card split: option.split)

section \<open>The rightmost one-bit\<close>

lemma bit_minus_1:
  assumes "(w :: bitmapword) \<noteq> 0"
  shows "bit (w - 1) i \<longleftrightarrow> i < Min (word_bits w) \<or> bit w i \<and> i \<noteq> Min (word_bits w)"
proof -
  let ?m = "Min (word_bits w)"
  have m: "?m \<in> word_bits w" using assms by simp
  then have m64: "?m < 64" using word_bits_less [of ?m w] by simp
  define u where "u = unset_bit ?m w"
  have u: "bit u i \<longleftrightarrow> bit w i \<and> i \<noteq> ?m" for i by (auto simp: u_def bit_unset_bit_iff)
  have low: "\<not> bit w j" if "j < ?m" for j
  proof
    assume "bit w j"
    then have "?m \<le> j" by (intro Min_le) (simp_all add: mem_word_bits)
    then show False using that by simp
  qed
  have "u AND 2 ^ ?m = 0" by (rule bit_word_eqI) (simp add: bit_and_iff u bit_exp_iff)
  moreover have "u OR 2 ^ ?m = w"
    by (rule bit_word_eqI) (use m in \<open>auto simp: bit_or_iff u bit_exp_iff mem_word_bits\<close>)
  ultimately have "w = u + 2 ^ ?m" by (simp add: disjunctive_add_eq_or)
  then have "w - 1 = u + mask ?m" by (simp add: mask_eq_exp_minus_1)
  moreover have "u AND mask ?m = 0"
    by (rule bit_word_eqI) (auto simp: bit_and_iff u bit_mask_iff dest: low)
  ultimately have "w - 1 = u OR mask ?m" by (simp add: disjunctive_add_eq_or)
  then show ?thesis using m64 by (auto simp: bit_or_iff u bit_mask_iff)
qed

lemma RIGHTMOST_ONE_bits: "w \<noteq> 0 \<Longrightarrow> word_bits (RIGHTMOST_ONE w) = {Min (word_bits w)}"
  using Min_in [OF finite_word_bits, of w] Min_le [OF finite_word_bits, of _ w]
    bit_imp_le_length [of w "Min (word_bits w)"]
  by (auto simp: RIGHTMOST_ONE_def mem_word_bits bit_and_iff minus_eq_not_minus_1 bit_not_iff bit_minus_1)

lemma word_bits_eq_iff: "word_bits v = word_bits w \<longleftrightarrow> v = (w :: 'a::len word)"
  by (auto simp: word_bits_def set_eq_iff intro: bit_word_eqI)

lemma HAS_MULTIPLE_ONES_iff: "w \<noteq> 0 \<Longrightarrow> HAS_MULTIPLE_ONES w \<longleftrightarrow> card (word_bits w) \<noteq> 1"
proof -
  assume nz: "w \<noteq> 0"
  have "RIGHTMOST_ONE w = w \<longleftrightarrow> word_bits w = {Min (word_bits w)}"
    using RIGHTMOST_ONE_bits [OF nz] word_bits_eq_iff by metis
  also have "\<dots> \<longleftrightarrow> card (word_bits w) = 1"
    by (metis Min_singleton card_1_singleton_iff One_nat_def)
  finally show ?thesis by (simp add: HAS_MULTIPLE_ONES_def)
qed

section \<open>Singletons\<close>

lemma card_word_bits_pos: "(w :: bitmapword) \<noteq> 0 \<Longrightarrow> 0 < card (word_bits w)"
  by (simp add: card_gt_0_iff)

lemma membership_loop_eq:
  "membership_loop ws BMS_SINGLETON = (if words_set ws = {} then BMS_SINGLETON else BMS_MULTIPLE)"
  "membership_loop ws BMS_EMPTY_SET = (if card (words_set ws) = 0 then BMS_EMPTY_SET
     else if card (words_set ws) = 1 then BMS_SINGLETON else BMS_MULTIPLE)"
proof (induction ws)
  case (Cons w ws)
  {
    case 1
    show ?case using Cons by (simp add: words_set_Cons)
  next
    case 2
    show ?case using Cons card_word_bits_pos [of w] HAS_MULTIPLE_ONES_iff [of w]
      by (auto simp: card_words_set_Cons)
  }
qed simp_all

lemma bms_membership_eq [bms_simps]:
  "bms_membership a = (if card (bms_set a) = 0 then BMS_EMPTY_SET
     else if card (bms_set a) = 1 then BMS_SINGLETON else BMS_MULTIPLE)"
  by (simp add: bms_membership_def membership_loop_eq split: option.split)

lemma singleton_loop_ge: "0 \<le> r \<Longrightarrow>
    singleton_loop ws k r = Inr (if words_set ws = {} then Some r else None)"
  by (induction ws arbitrary: k) (simp_all add: words_set_Cons)

lemma singleton_loop_start:
  "singleton_loop ws k (-1) = Inr (if card (words_set ws) = 0 then Some (-1)
     else if card (words_set ws) = 1 then Some (int (64 * k + Min (words_set ws))) else None)"
proof (induction ws arbitrary: k)
  case (Cons w ws)
  show ?case
  proof (cases "w = 0")
    case True
    have "Min ((\<lambda>x. x + 64) ` words_set ws) = Min (words_set ws) + 64" if "words_set ws \<noteq> {}"
      using that by (simp add: Min_add_commute)
    then show ?thesis using True Cons by (auto simp: words_set_Cons card_image card_eq_0_iff)
  next
    case False
    have pos: "0 < card (word_bits w)" using False by (rule card_word_bits_pos)
    note h = False HAS_MULTIPLE_ONES_iff [OF False] pg_rightmost_one_pos64_eq [OF False]
    show ?thesis
    proof (cases "words_set ws = {}")
      case True
      then show ?thesis using h pos by (auto simp: singleton_loop_ge words_set_Cons)
    next
      case nonempty: False
      then have "0 < card (words_set ws)" by (simp add: card_gt_0_iff)
      then show ?thesis using h pos nonempty by (simp add: singleton_loop_ge card_words_set_Cons)
    qed
  qed
qed simp

lemma bms_singleton_member_eq [bms_simps]:
  "bms_singleton_member a = (if card (bms_set a) = 1 then Inr (int (Min (bms_set a)))
     else Inl (Elog (if bms_set a = {} then ''bitmapset is empty'' else ''bitmapset has multiple members'')))"
  by (auto simp: bms_singleton_member_def singleton_loop_start split: option.split)

lemma bms_get_singleton_member_eq [bms_simps]:
  "bms_get_singleton_member a m = Inr (if card (bms_set a) = 1 then (True, int (Min (bms_set a))) else (False, m))"
  by (auto simp: bms_get_singleton_member_def singleton_loop_start split: option.split)

section \<open>Index of a member\<close>

lemma words_set_take: "words_set (take n ws) = {x \<in> words_set ws. x < 64 * n}"
  by (auto simp: mem_words_set nth_word_def div_less_iff_less_mult mult.commute split: if_splits)

lemma card_shift: "card {j. 64 * i + j \<in> A \<and> j < n} = card {x \<in> A. 64 * i \<le> x \<and> x < 64 * i + (n::nat)}"
proof -
  have "{x \<in> A. 64 * i \<le> x \<and> x < 64 * i + n} = (\<lambda>j. 64 * i + j) ` {j. 64 * i + j \<in> A \<and> j < n}"
    by (auto simp: image_iff) (metis add_less_cancel_left le_Suc_ex)
  then show ?thesis by (simp add: card_image)
qed

lemma bms_member_index_eq:
  assumes "0 \<le> x"
  shows "bms_member_index a x =
    Inr (if nat x \<in> bms_set a then int (card {y \<in> bms_set a. y < nat x}) else -1)"
proof (cases "nat x \<in> bms_set a")
  case False
  then show ?thesis using assms by (simp add: bms_member_index_def bms_is_member_eq)
next
  case True
  then obtain ws where ws: "a = Some ws" by (cases a) auto
  let ?k = "nat x div 64" and ?j = "nat x mod 64"
  have k: "?k < length ws" using True ws by (auto simp: mem_words_set nth_word_def split: if_splits)
  have x: "nat x = 64 * ?k + ?j" by simp
  have "word_bits (ws ! ?k AND (2 ^ ?j - 1)) = {j. 64 * ?k + j \<in> words_set ws \<and> j < ?j}"
    using nth_word_in [OF k] mem_words_set_pair [of _ ?k ws]
    by (auto simp: mem_word_bits bit_and_iff bit_mask_iff simp flip: mask_eq_exp_minus_1)
  then have c: "card (word_bits (ws ! ?k AND (2 ^ ?j - 1))) = card {y \<in> words_set ws. 64 * ?k \<le> y \<and> y < nat x}"
    using card_shift [of ?k "words_set ws" ?j] x by simp
  have "{y \<in> words_set ws. y < nat x} = words_set (take ?k ws) \<union> {y \<in> words_set ws. 64 * ?k \<le> y \<and> y < nat x}"
    using x by (auto simp: words_set_take)
  then have "card {y \<in> words_set ws. y < nat x} = card (words_set (take ?k ws))
      + card {y \<in> words_set ws. 64 * ?k \<le> y \<and> y < nat x}"
    by (simp add: card_Un_disjoint words_set_take disjoint_iff)
  then show ?thesis using assms True ws c
    by (simp add: bms_member_index_def bms_is_member_eq WORDNUM_nat BITNUM_nat popcount_words_loop_card
        pg_popcount64_def pg_popcount_slow_card)
qed

section \<open>Subset comparison\<close>

text \<open>The comparison status for "the first set has a member of its own" and "the second has".\<close>

definition own_members :: "bool \<Rightarrow> bool \<Rightarrow> BMS_Comparison" where
  "own_members p q = (if p then (if q then BMS_DIFFERENT else BMS_SUBSET2)
     else if q then BMS_SUBSET1 else BMS_EQUAL)"

lemma extra_words_eq:
  "\<not> (p \<and> q) \<Longrightarrow>
    extra_words BMS_SUBSET1 BMS_SUBSET2 (own_members p q) ws = own_members (p \<or> \<not> words_zero ws) q"
  "\<not> (p \<and> q) \<Longrightarrow>
    extra_words BMS_SUBSET2 BMS_SUBSET1 (own_members p q) ws = own_members p (q \<or> \<not> words_zero ws)"
proof (induction ws arbitrary: p q)
  case (Cons w ws)
  note ih = Cons.IH(1) [of True False] Cons.IH(2) [of False True]
  {
    case 1
    then show ?case using Cons.IH(1) [of p q] ih by (cases p; cases q) (simp_all add: own_members_def)
  next
    case 2
    then show ?case using Cons.IH(2) [of p q] ih by (cases p; cases q) (simp_all add: own_members_def)
  }
qed simp_all

lemma subset_compare_loop_eq:
  "\<not> (p \<and> q) \<Longrightarrow>
    subset_compare_loop (own_members p q) as bs = own_members (p \<or> \<not> subset_loop as bs) (q \<or> \<not> subset_loop bs as)"
proof (induction as bs arbitrary: p q rule: list_induct2')
  case (4 a as b bs)
  note ih = "4.IH" [of True False] "4.IH" [of False True] "4.IH" [of False False]
  show ?case using "4.prems" ih
    by (cases p; cases q; cases "a AND NOT b = 0"; cases "b AND NOT a = 0")
      (simp_all add: own_members_def)
next
  case (2 a as)
  then show ?case using extra_words_eq(1) [of p q "a # as"]
    by (simp del: extra_words.simps words_zero.simps(2))
next
  case (3 b bs)
  then show ?case using extra_words_eq(2) [of p q "b # bs"]
    by (simp del: extra_words.simps words_zero.simps(2))
qed simp

lemma bms_subset_compare_eq [bms_simps]:
  "bms_subset_compare a b = own_members (\<not> bms_set a \<subseteq> bms_set b) (\<not> bms_set b \<subseteq> bms_set a)"
  using subset_compare_loop_eq [of False False]
  by (auto simp: bms_subset_compare_def bms_is_empty_iff own_members_def subset_loop_iff
      simp flip: words_subset_iff split: option.split)

section \<open>Ranges\<close>

lemma lower_mask_bit: "j < 64 \<Longrightarrow> bit (lower_mask l) j \<longleftrightarrow> BITNUM l \<le> j"
  by (auto simp: lower_mask_def bit_not_iff bit_mask_iff simp flip: mask_eq_exp_minus_1)

lemma BITNUM_less: "BITNUM x < 64"
  by (simp add: BITNUM_def nat_less_iff)

lemma upper_mask_bit: "bit (upper_mask u) j \<longleftrightarrow> j \<le> BITNUM u"
  using BITNUM_less [of u] by (auto simp: upper_mask_def bit_mask_iff)

lemma length_fill_words [simp]: "length (fill_words ws k u) = length ws"
  by (induction ws k u rule: fill_words.induct) (subst fill_words.simps, simp)

lemma nth_fill_words:
  "nth_word (fill_words ws k u) i = (if k \<le> i \<and> i < u \<and> i < length ws then NOT 0 else nth_word ws i)"
proof (induction ws k u rule: fill_words.induct)
  case (1 ws k u)
  then show ?case by (subst fill_words.simps) (auto simp: nth_word_update)
qed

lemma le_div_mod_64: "(x::nat) \<le> y \<longleftrightarrow> x div 64 < y div 64 \<or> x div 64 = y div 64 \<and> x mod 64 \<le> y mod 64"
proof -
  have "x = 64 * (x div 64) + x mod 64" "y = 64 * (y div 64) + y mod 64" "x mod 64 < 64" "y mod 64 < 64"
    by simp_all
  then show ?thesis by linarith
qed

lemma bms_add_range_eq:
  assumes "0 \<le> lower" and "lower \<le> upper"
  shows "\<exists>b. bms_add_range a lower upper = Inr b \<and> bms_set b = bms_set a \<union> {nat lower..nat upper}"
proof -
  let ?lw = "nat lower div 64" and ?uw = "nat upper div 64"
  define ws where "ws = (case a of None \<Rightarrow> replicate (?uw + 1) 0 | Some ws \<Rightarrow> enlarge (?uw + 1) ws)"
  define ws' where "ws' = (if ?lw = ?uw
            then ws[?lw := ws ! ?lw OR (lower_mask lower AND upper_mask upper)]
            else let ws1 = ws[?lw := ws ! ?lw OR lower_mask lower];
                     ws2 = fill_words ws1 (Suc ?lw) ?uw
                 in ws2[?uw := ws2 ! ?uw OR upper_mask upper])"
  have u: "?uw < length ws" using length_enlarge [of "?uw + 1"]
    by (auto simp: ws_def less_eq_Suc_le split: option.split)
  have lu: "?lw \<le> ?uw" using assms by (intro div_le_mono) simp
  have run: "bms_add_range a lower upper = Inr (Some ws')"
    using assms by (simp add: bms_add_range_def ws'_def ws_def WORDNUM_nat Let_def)
  have n: "nth_word ws' i = (if i < ?lw \<or> ?uw < i then nth_word ws i
      else nth_word ws i OR ((if i = ?lw then lower_mask lower else NOT 0) AND
                         (if i = ?uw then upper_mask upper else NOT 0)))" for i
  proof (cases "?lw = ?uw")
    case True
    then show ?thesis using u by (auto simp: ws'_def nth_word_update nth_word_in)
  next
    case False
    define ws1 where "ws1 = ws[?lw := ws ! ?lw OR lower_mask lower]"
    define ws2 where "ws2 = fill_words ws1 (Suc ?lw) ?uw"
    have l: "?uw < length ws2" "length ws1 = length ws" "?lw < length ws"
      using u lu by (simp_all add: ws1_def ws2_def)
    have "ws' = ws2[?uw := nth_word ws2 ?uw OR upper_mask upper]"
      using False nth_word_in [OF l(1)] by (simp add: ws'_def Let_def ws1_def ws2_def)
    then have w: "nth_word ws' i = (if i = ?uw then nth_word ws2 ?uw OR upper_mask upper else nth_word ws2 i)"
      using l(1) by (simp add: nth_word_update)
    have w2: "nth_word ws2 j = (if ?lw < j \<and> j < ?uw then NOT 0 else nth_word ws1 j)" for j
      using u l(2) by (simp add: ws2_def nth_fill_words Suc_le_eq)
    have w1: "nth_word ws1 j = (if j = ?lw then nth_word ws j OR lower_mask lower else nth_word ws j)" for j
      using l(3) by (simp add: ws1_def nth_word_update nth_word_in [OF l(3)])
    show ?thesis unfolding w w2 w1 using False lu by auto
  qed
  have "y \<in> words_set ws' \<longleftrightarrow> y \<in> words_set ws \<or> nat lower \<le> y \<and> y \<le> nat upper" for y
  proof -
    have "nat lower \<le> y \<longleftrightarrow> ?lw < y div 64 \<or> ?lw = y div 64 \<and> nat lower mod 64 \<le> y mod 64"
      and "y \<le> nat upper \<longleftrightarrow> y div 64 < ?uw \<or> y div 64 = ?uw \<and> y mod 64 \<le> nat upper mod 64"
      by (rule le_div_mod_64)+
    then show ?thesis using assms
      by (auto simp: mem_words_set n bit_or_iff bit_and_iff lower_mask_bit upper_mask_bit BITNUM_nat)
  qed
  moreover have "words_set ws = bms_set a"
    by (auto simp: ws_def words_set_def simp del: replicate_Suc add_Suc_right split: option.split)
  ultimately show ?thesis using run by auto
qed

lemma overlap_list_loop_eq:
  "\<forall>x \<in> set xs. 0 \<le> x \<Longrightarrow> overlap_list_loop ws xs = Inr (words_set ws \<inter> nat ` set xs \<noteq> {})"
  by (induction xs) (auto simp: word_has_iff)

lemma bms_overlap_list_eq [bms_simps]:
  "\<forall>x \<in> set xs. 0 \<le> x \<Longrightarrow> bms_overlap_list a xs = Inr (bms_set a \<inter> nat ` set xs \<noteq> {})"
  by (auto simp: bms_overlap_list_def overlap_list_loop_eq split: option.split)

section \<open>Iteration\<close>

definition mask_first :: "bitmapword \<Rightarrow> bitmapword list \<Rightarrow> bitmapword list" where
  "mask_first m ws = (case ws of [] \<Rightarrow> [] | w # ws' \<Rightarrow> (w AND m) # ws')"

lemma mask_first_all [simp]: "mask_first (-1) ws = ws"
  by (simp add: mask_first_def split: list.split)

lemma mask_first_Cons: "mask_first m (w # ws) = (w AND m) # ws"
  by (simp add: mask_first_def)

lemma Min_words_set_zero:
  "words_set ws \<noteq> {} \<Longrightarrow> Min (words_set (0 # ws)) = 64 + Min (words_set ws)"
  by (simp add: words_set_Cons Min_add_commute)

lemma Min_words_set_Cons: "w \<noteq> 0 \<Longrightarrow> Min (words_set (w # ws)) = Min (word_bits w)"
proof (rule Min_eqI)
  assume nz: "w \<noteq> 0"
  then have m: "Min (word_bits w) \<in> word_bits w" by simp
  then show "Min (word_bits w) \<in> words_set (w # ws)" by (simp add: words_set_Cons)
  fix y assume "y \<in> words_set (w # ws)"
  then show "Min (word_bits w) \<le> y" using word_bits_less [OF m] by (auto simp: words_set_Cons)
qed simp

lemma next_member_loop_eq:
  "next_member_loop ws k m = Inr (if words_set (mask_first m ws) = {} then -2
     else int (64 * k + Min (words_set (mask_first m ws))))"
proof (induction ws arbitrary: k m)
  case (Cons w ws)
  show ?case
  proof (cases "w AND m = 0")
    case True
    then show ?thesis using Cons.IH [of "Suc k" "-1"] Min_words_set_zero [of ws]
      by (auto simp: mask_first_Cons words_set_Cons)
  next
    case False
    then show ?thesis
      by (simp add: mask_first_Cons Min_words_set_Cons pg_rightmost_one_pos64_eq)
        (simp add: words_set_Cons)
  qed
qed (simp add: mask_first_def)

lemma nth_word_drop: "nth_word (drop k ws) i = nth_word ws (k + i)"
  by (auto simp: nth_word_def)

lemma nth_mask_first: "nth_word (mask_first m ws) i = (if i = 0 then nth_word ws i AND m else nth_word ws i)"
  by (cases ws; cases i) (simp_all add: mask_first_def)

lemma high_mask_bit: "i < 64 \<Longrightarrow> bit (NOT (mask j) :: bitmapword) i \<longleftrightarrow> j \<le> i"
  by (auto simp: bit_not_iff bit_mask_iff)

lemma words_set_mask_drop:
  assumes "j < 64"
  shows "y \<in> words_set (mask_first (push_bit j (NOT 0)) (drop k ws)) \<longleftrightarrow> 64 * k + y \<in> words_set ws \<and> j \<le> y"
proof (cases "y < 64")
  case True
  then show ?thesis
    by (simp add: mem_words_set nth_mask_first nth_word_drop bit_and_iff high_mask_bit)
next
  case False
  then have "y div 64 \<noteq> 0" by simp
  then show ?thesis using False assms by (simp add: mem_words_set nth_mask_first nth_word_drop)
qed

lemma Min_shift:
  assumes "finite A" and "{x \<in> A. n \<le> x} \<noteq> {}"
  shows "n + Min {y. n + y \<in> A} = Min {x \<in> A. (n::nat) \<le> x}"
proof -
  have eq: "{x \<in> A. n \<le> x} = (\<lambda>y. n + y) ` {y. n + y \<in> A}"
    by (auto simp: image_iff le_iff_add)
  then have "finite {y. n + y \<in> A}" 
    using finite_vimageI [OF assms(1), of "(+) n"] by (simp add: vimage_def)
  then show ?thesis using eq assms(2) by (simp add: Min_add_commute add.commute)
qed

lemma bms_next_member_eq:
  assumes "-1 \<le> p"
  shows "bms_next_member a p = Inr (if {x \<in> bms_set a. p < int x} = {} then -2
    else int (Min {x \<in> bms_set a. p < int x}))"
proof (cases a)
  case None
  then show ?thesis by (simp add: bms_next_member_def)
next
  case (Some ws)
  let ?n = "nat (p + 1)"
  let ?k = "?n div 64" and ?j = "?n mod 64"
  let ?T = "words_set (mask_first (push_bit ?j (NOT 0)) (drop ?k ws))"
  have T: "?T = {y. 64 * ?k + y \<in> {x \<in> words_set ws. ?n \<le> x}}"
  proof (rule set_eqI)
    fix y
    have "?n = 64 * ?k + ?j" by simp
    then have "?j \<le> y \<longleftrightarrow> ?n \<le> 64 * ?k + y" by linarith
    then show "y \<in> ?T \<longleftrightarrow> y \<in> {y. 64 * ?k + y \<in> {x \<in> words_set ws. ?n \<le> x}}"
      using words_set_mask_drop [of ?j y ?k ws] by simp
  qed
  have A: "{x \<in> words_set ws. p < int x} = {x \<in> words_set ws. ?n \<le> x}" using assms by auto
  have k: "64 * ?k \<le> ?n" by simp
  have run: "bms_next_member a p = Inr (if ?T = {} then -2 else int (64 * ?k + Min ?T))"
    using Some assms by (simp add: bms_next_member_def Let_def WORDNUM_nat BITNUM_nat next_member_loop_eq
        nat_add_distrib del: push_bit_minus_one)
  show ?thesis
  proof (cases "{x \<in> words_set ws. ?n \<le> x} = {}")
    case True
    then show ?thesis unfolding run T using Some A by simp
  next
    case False
    then obtain x where x: "x \<in> words_set ws" "?n \<le> x" by auto
    then have "x - 64 * ?k \<in> ?T" unfolding T using k by simp
    then have ne: "?T \<noteq> {}" by blast
    have "{x \<in> {x \<in> words_set ws. ?n \<le> x}. 64 * ?k \<le> x} = {x \<in> words_set ws. ?n \<le> x}" using k by auto
    then have "64 * ?k + Min ?T = Min {x \<in> words_set ws. ?n \<le> x}"
      unfolding T using Min_shift [of "{x \<in> words_set ws. ?n \<le> x}" "64 * ?k"] False by simp
    then show ?thesis unfolding run using ne False Some A by simp
  qed
qed

lemma words_set_word:
  assumes "k < length ws"
  shows "{x \<in> words_set ws. x div 64 = k \<and> bit m (x mod 64)} = (\<lambda>j. 64 * k + j) ` word_bits (ws ! k AND m)"
proof (rule set_eqI)
  fix x
  have "x = 64 * k + x mod 64" if "x div 64 = k" using that by (metis mult_div_mod_eq)
  then have "x \<in> {x \<in> words_set ws. x div 64 = k \<and> bit m (x mod 64)} \<longleftrightarrow>
      (\<exists>j<64. x = 64 * k + j \<and> bit (ws ! k) j \<and> bit m j)"
    using nth_word_in [OF assms] by (auto simp: mem_words_set intro!: exI [of _ "x mod 64"])
  also have "\<dots> \<longleftrightarrow> x \<in> (\<lambda>j. 64 * k + j) ` word_bits (ws ! k AND m)"
    using bit_imp_le_length [of "ws ! k"] by (auto simp: mem_word_bits bit_and_iff image_iff)
  finally show "x \<in> {x \<in> words_set ws. x div 64 = k \<and> bit m (x mod 64)} \<longleftrightarrow>
      x \<in> (\<lambda>j. 64 * k + j) ` word_bits (ws ! k AND m)" .
qed

lemma prev_member_loop_eq:
  assumes "k < length ws"
  shows "prev_member_loop ws k m =
    (let T = {x \<in> words_set ws. x div 64 < k \<or> x div 64 = k \<and> bit m (x mod 64)} in
     Inr (if T = {} then -2 else int (Max T)))"
  using assms
proof (induction k arbitrary: m)
  case (0 m)
  have T: "{x \<in> words_set ws. x div 64 < 0 \<or> x div 64 = 0 \<and> bit m (x mod 64)} = word_bits (ws ! 0 AND m)"
    using words_set_word [OF 0, of m] by simp
  show ?case unfolding T by (simp add: prev_member_loop.simps [of ws 0] pg_leftmost_one_pos64_eq Let_def)
next
  case (Suc k m)
  let ?T = "{x \<in> words_set ws. x div 64 < Suc k \<or> x div 64 = Suc k \<and> bit m (x mod 64)}"
  let ?v = "word_bits (ws ! Suc k AND m)"
  have v: "x \<in> words_set ws \<and> x div 64 = Suc k \<and> bit m (x mod 64) \<longleftrightarrow> x \<in> (\<lambda>j. 64 * Suc k + j) ` ?v" for x
    using words_set_word [OF Suc.prems, of m] by blast
  show ?case
  proof (cases "ws ! Suc k AND m = 0")
    case True
    then have "?T = {x \<in> words_set ws. x div 64 < k \<or> x div 64 = k \<and> bit (-1 :: bitmapword) (x mod 64)}"
      using v by (auto simp: less_Suc_eq)
    then show ?thesis using True Suc.IH [of "-1"] Suc.prems by (simp add: prev_member_loop.simps [of ws "Suc k"])
  next
    case False
    have "Max ?v \<in> ?v" using False by (intro Max_in) simp_all
    then have "64 * Suc k + Max ?v \<in> (\<lambda>j. 64 * Suc k + j) ` ?v" by blast
    then have mem: "64 * Suc k + Max ?v \<in> ?T" using v by blast
    have "Max ?T = 64 * Suc k + Max ?v"
    proof (rule Max_eqI)
      show "64 * Suc k + Max ?v \<in> ?T" by (rule mem)
      fix y assume y: "y \<in> ?T"
      show "y \<le> 64 * Suc k + Max ?v"
      proof (cases "y div 64 < Suc k")
        case True
        then have "y < 64 * Suc k" by (simp add: div_less_iff_less_mult)
        then show ?thesis by simp
      next
        case False
        then obtain j where "j \<in> ?v" "y = 64 * Suc k + j" using y v [of y] by auto
        then show ?thesis by simp
      qed
    qed simp
    moreover have "?T \<noteq> {}" using mem by blast
    ultimately show ?thesis using False
      by (simp add: prev_member_loop.simps [of ws "Suc k"] pg_leftmost_one_pos64_eq Let_def)
  qed
qed

lemma bms_prev_member_eq:
  assumes "a = Some ws" and "ws \<noteq> []" and "p = -1 \<or> 0 \<le> p \<and> p \<le> int (length ws) * 64"
  shows "bms_prev_member a p = Inr (let T = {x \<in> bms_set a. p = -1 \<or> int x < p} in
    if T = {} then -2 else int (Max T))"
proof (cases "p = 0")
  case True
  then show ?thesis using assms(1) by (simp add: bms_prev_member_def)
next
  case False
  define n where "n = (if p = -1 then 64 * length ws - 1 else nat (p - 1))"
  have "1 \<le> 64 * length ws" using assms(2) by (cases ws) simp_all
  then have len: "int (64 * length ws - 1) = int (length ws) * 64 - 1" by (subst of_nat_diff) simp_all
  have n: "int n = (if p = -1 then int (length ws) * 64 - 1 else p - 1)" "n < 64 * length ws"
    using assms(2,3) False len by (auto simp: n_def)
  then have k: "n div 64 < length ws" by (simp add: div_less_iff_less_mult mult.commute)
  have "{x \<in> words_set ws. x div 64 < n div 64 \<or> x div 64 = n div 64 \<and> bit (upper_mask (int n)) (x mod 64)}
      = {x \<in> words_set ws. x \<le> n}"
    using le_div_mod_64 [of _ n] by (auto simp: upper_mask_bit BITNUM_nat)
  also have "\<dots> = {x \<in> words_set ws. p = -1 \<or> int x < p}"
    using words_set_bound [of _ ws] n False assms(3) by (fastforce simp: n_def split: if_splits)
  finally have T: "{x \<in> words_set ws. x div 64 < n div 64 \<or> x div 64 = n div 64 \<and> bit (upper_mask (int n)) (x mod 64)}
      = {x \<in> words_set ws. p = -1 \<or> int x < p}" .
  have "bms_prev_member a p = prev_member_loop ws (n div 64) (upper_mask (int n))"
    using assms(1) False k n(1) [symmetric]
    by (simp add: bms_prev_member_def Let_def WORDNUM_nat split: if_splits)
  then show ?thesis using prev_member_loop_eq [OF k, of "upper_mask (int n)"] T assms(1) by (simp add: Let_def)
qed

text \<open>\<open>bms_first_member\<close> returns the least member and removes it.\<close>

lemma words_bits_clear_min:
  "w \<noteq> 0 \<Longrightarrow> word_bits (w AND NOT (RIGHTMOST_ONE w)) = word_bits w - {Min (word_bits w)}"
proof (rule set_eqI)
  fix i assume "w \<noteq> 0"
  then have "bit (RIGHTMOST_ONE w) i \<longleftrightarrow> i = Min (word_bits w)"
    using RIGHTMOST_ONE_bits [of w] mem_word_bits [of i "RIGHTMOST_ONE w"] by simp
  moreover have "bit w i \<Longrightarrow> i < 64" using bit_imp_le_length [of w i] by simp
  ultimately show "i \<in> word_bits (w AND NOT (RIGHTMOST_ONE w)) \<longleftrightarrow> i \<in> word_bits w - {Min (word_bits w)}"
    by (auto simp: mem_word_bits bit_and_iff bit_not_iff)
qed

lemma RIGHTMOST_ONE_nonzero: "w \<noteq> 0 \<Longrightarrow> RIGHTMOST_ONE w \<noteq> 0"
  using RIGHTMOST_ONE_bits [of w] by (metis insert_not_empty word_bits_empty)

lemma first_member_loop_eq:
  "\<exists>ws'. words_set ws' = words_set ws - {Min (words_set ws)} \<and>
     first_member_loop ws k = Inr (if words_set ws = {} then -1 else int (64 * k + Min (words_set ws)), ws')"
proof (induction ws arbitrary: k)
  case (Cons w ws)
  show ?case
  proof (cases "w = 0")
    case False
    then have "Min (word_bits w) \<notin> (\<lambda>x. x + 64) ` words_set ws"
      using word_bits_less [OF Min_in [of "word_bits w"]] by auto
    then show ?thesis using False
      by (auto simp: RIGHTMOST_ONE_nonzero pg_rightmost_one_pos64_eq RIGHTMOST_ONE_bits Min_words_set_Cons)
        (auto simp: words_set_Cons words_bits_clear_min)
  next
    case True
    obtain ws' where ws': "words_set ws' = words_set ws - {Min (words_set ws)}"
      "first_member_loop ws (Suc k) = Inr (if words_set ws = {} then -1 else int (64 * Suc k + Min (words_set ws)), ws')"
      using Cons.IH by blast
    show ?thesis
    proof (cases "words_set ws = {}")
      case True
      then show ?thesis using ws' \<open>w = 0\<close> by (auto simp: words_set_Cons)
    next
      case False
      have "words_set (0 # ws') = words_set (0 # ws) - {Min (words_set (0 # ws))}"
        by (subst Min_words_set_zero [OF False]) (simp add: words_set_Cons ws'(1) image_set_diff add.commute)
      moreover have "words_set (0 # ws) \<noteq> {}" using False by (simp add: words_set_Cons)
      moreover have "first_member_loop (0 # ws) k = Inr (int (64 * k + Min (words_set (0 # ws))), 0 # ws')"
        using ws'(2) False Min_words_set_zero [OF False] by simp
      ultimately show ?thesis unfolding \<open>w = 0\<close> by (simp only: if_False) blast
    qed
  qed
qed simp

lemma bms_first_member_eq:
  "\<exists>b. bms_set b = bms_set a - {Min (bms_set a)} \<and>
     bms_first_member a = Inr (if bms_set a = {} then -1 else int (Min (bms_set a)), b)"
proof (cases a)
  case (Some ws)
  obtain ws' where "words_set ws' = words_set ws - {Min (words_set ws)}"
    "first_member_loop ws 0 = Inr (if words_set ws = {} then -1 else int (64 * 0 + Min (words_set ws)), ws')"
    using first_member_loop_eq [of ws 0] by blast
  then have "bms_set (Some ws') = bms_set a - {Min (bms_set a)} \<and>
     bms_first_member a = Inr (if bms_set a = {} then -1 else int (Min (bms_set a)), Some ws')"
    by (simp only: Some bms_set_simps bms_first_member_def option.case res_map_simps prod.case
        mult_0_right add_0_left)
  then show ?thesis by blast
qed (simp add: bms_first_member_def)

section \<open>Comparison\<close>

text \<open>
  The number whose binary digits are the members: \<open>bms_compare\<close> orders sets like these
  numbers, so by the highest member in which they differ.
\<close>

fun words_val :: "bitmapword list \<Rightarrow> nat" where
  "words_val [] = 0"
| "words_val (w # ws) = unat w + 2 ^ 64 * words_val ws"

definition set_val :: "nat set \<Rightarrow> nat" where
  "set_val A = (\<Sum>x\<in>A. 2 ^ x)"

lemma nat_bits_val: "set_val {i. bit (n::nat) i} = n"
proof (induction n rule: less_induct)
  case (less n)
  show ?case
  proof (cases "n = 0")
    case False
    have "set_val (Suc ` {i. bit (n div 2) i}) = 2 * set_val {i. bit (n div 2) i}"
      by (simp add: set_val_def sum.reindex sum_distrib_left)
    also have "\<dots> = 2 * (n div 2)" using False by (simp add: less.IH)
    finally have "set_val {i. bit n i} = n mod 2 + 2 * (n div 2)"
      by (subst nat_bits_rec) (auto simp: set_val_def finite_nat_bits sum.insert_if odd_iff_mod_2_eq_one)
    then show ?thesis by simp
  qed (simp add: set_val_def)
qed

lemma word_bits_val: "set_val (word_bits w) = unat w"
  using nat_bits_val [of "unat w"] by (simp add: nat_bits_unat)

lemma set_val_words: "set_val (words_set ws) = words_val ws"
proof (induction ws)
  case (Cons w ws)
  have "set_val ((\<lambda>x. x + 64) ` words_set ws) = 2 ^ 64 * set_val (words_set ws)"
    by (simp add: set_val_def sum.reindex sum_distrib_left sum_distrib_right power_add mult.commute)
  then have "set_val (words_set (w # ws)) = set_val (word_bits w) + 2 ^ 64 * set_val (words_set ws)"
    using words_Cons_disjoint [of w "words_set ws"]
    by (simp add: words_set_Cons set_val_def sum.union_disjoint)
  then show ?case using Cons.IH by (simp add: word_bits_val)
qed (simp add: set_val_def)

lemma words_val_less: "words_val ws < 2 ^ (64 * length ws)"
proof (induction ws)
  case (Cons w ws)
  have "unat w < 2 ^ 64" using unsigned_less [of w] by simp
  moreover have "words_val ws + 1 \<le> 2 ^ (64 * length ws)" using Cons.IH by simp
  then have "2 ^ 64 * (words_val ws + 1) \<le> 2 ^ 64 * 2 ^ (64 * length ws)" by (rule mult_le_mono2)
  ultimately show ?case by (simp add: power_add)
qed simp

lemma words_val_append: "words_val (xs @ ys) = words_val xs + 2 ^ (64 * length xs) * words_val ys"
  by (induction xs) (simp_all add: power_add algebra_simps)

lemma words_zero_val: "words_zero ws \<longleftrightarrow> words_val ws = 0"
  by (induction ws) (auto simp: unat_eq_0)

lemma sgn_high_digit:
  assumes "(x::nat) < n" and "y < n" and "c \<noteq> (d::nat)"
  shows "sgn (int (x + n * c) - int (y + n * d)) = (if c > d then 1 else -1)"
proof (cases "c > d")
  case True
  then have "n * (d + 1) \<le> n * c" by (intro mult_le_mono2) simp
  then have "y + n * d < x + n * c" using assms by simp
  then have "int (y + n * d) < int (x + n * c)" by (simp only: of_nat_less_iff)
  then show ?thesis using True by (simp only: sgn_if) simp
next
  case False
  then have "n * (c + 1) \<le> n * d" using assms(3) by (intro mult_le_mono2) simp
  then have "x + n * c < y + n * d" using assms by simp
  then have "int (x + n * c) < int (y + n * d)" by (simp only: of_nat_less_iff)
  then show ?thesis using False by (simp only: sgn_if) simp
qed

lemma words_val_take_Suc:
  "n < length a \<Longrightarrow> words_val (take (Suc n) a) = words_val (take n a) + 2 ^ (64 * n) * unat (a ! n)"
  by (simp add: take_Suc_conv_app_nth words_val_append)

lemma compare_loop_eq:
  "n \<le> length a \<Longrightarrow> n \<le> length b \<Longrightarrow>
    compare_loop a b n = sgn (int (words_val (take n a)) - int (words_val (take n b)))"
proof (induction n)
  case (Suc n)
  have "words_val (take n a) < 2 ^ (64 * n)" "words_val (take n b) < 2 ^ (64 * n)"
    using words_val_less [of "take n a"] words_val_less [of "take n b"] Suc.prems by simp_all
  note digit = sgn_high_digit [OF this, of "unat (a ! n)" "unat (b ! n)"]
  show ?case
  proof (cases "a ! n = b ! n")
    case True
    then show ?thesis using Suc by (simp add: words_val_take_Suc)
  next
    case False
    then have "unat (a ! n) \<noteq> unat (b ! n)" by (simp add: word_unat_eq_iff)
    from digit [OF this] False show ?thesis
      using Suc.prems by (simp add: words_val_take_Suc word_less_nat_alt)
  qed
qed simp

lemma words_val_zero_tail:
  "words_zero (drop n a) \<Longrightarrow> words_val a = words_val (take n a)"
  using words_val_append [of "take n a" "drop n a"] by (simp add: words_zero_val)

lemma words_val_long:
  assumes "\<not> words_zero (drop n a)" and "n \<le> length a" and "length b \<le> n"
  shows "words_val b < words_val a"
proof -
  have "words_val b < 2 ^ (64 * length b)" by (rule words_val_less)
  also have "\<dots> \<le> 2 ^ (64 * n)" using assms(3) by (intro power_increasing) simp_all
  also have "\<dots> \<le> 2 ^ (64 * n) * words_val (drop n a)" using assms(1) by (simp add: words_zero_val)
  also have "\<dots> \<le> words_val a"
    using words_val_append [of "take n a" "drop n a"] assms(2) by simp
  finally show ?thesis .
qed

lemma words_compare_eq:
  "bms_compare (Some a) (Some b) = sgn (int (words_val a) - int (words_val b))"
proof -
  let ?n = "min (length a) (length b)"
  consider (a) "\<not> words_zero (drop ?n a)" | (b) "words_zero (drop ?n a)" "\<not> words_zero (drop ?n b)"
    | (common) "words_zero (drop ?n a)" "words_zero (drop ?n b)" by blast
  then show ?thesis
  proof cases
    case a
    then have "?n = length b" by (cases "length a \<le> length b") (auto simp: min_def)
    then have "words_val b < words_val a" using words_val_long [OF a, of b] by (metis min.cobounded1 order_refl)
    then show ?thesis using a by (simp add: bms_compare_def sgn_if)
  next
    case b
    then have "?n = length a" by (cases "length a \<le> length b") (auto simp: min_def)
    then have "words_val a < words_val b" using words_val_long [OF b(2), of a] by (metis min.cobounded2 order_refl)
    then show ?thesis using b by (simp add: bms_compare_def sgn_if)
  next
    case common
    then show ?thesis using compare_loop_eq [of ?n a b] words_val_zero_tail [OF common(1)]
        words_val_zero_tail [OF common(2)] by (simp add: bms_compare_def Let_def)
  qed
qed

lemma set_val_empty_iff: "finite A \<Longrightarrow> set_val A = 0 \<longleftrightarrow> A = {}"
  by (auto simp: set_val_def)

lemma bms_compare_eq: "bms_compare a b = sgn (int (set_val (bms_set a)) - int (set_val (bms_set b)))"
proof (cases "a = None \<or> b = None")
  case True
  have e: "set_val (bms_set c) = 0 \<longleftrightarrow> bms_set c = {}" for c by (simp add: set_val_empty_iff)
  have n: "set_val (bms_set None) = 0" by (simp add: set_val_def)
  from True show ?thesis using e [of a] e [of b] n
    by (cases a; cases b) (auto simp: bms_compare_def bms_is_empty_iff sgn_if simp del: bms_set_simps)
next
  case False
  then obtain aw bw where "a = Some aw" "b = Some bw" by auto
  then show ?thesis using words_compare_eq by (simp add: set_val_words)
qed

end
