(* ===== verification/Bitmapset_Spec.thy ===== *)
theory Bitmapset_Spec
  imports Bitmapset_Set
begin

text \<open>
  The contract of the bitmap sets.  The locale \<open>set_ops\<close> is the interface the planner code
  relies on, a finite set of natural numbers with the operations of \<open>bitmapset.c\<close>; \<open>set_iter\<close>
  extends it with the two iteration protocols (\<open>bms_next_member\<close>, which leaves the set alone,
  and \<open>bms_first_member\<close>, which empties it).  Both are interpreted on the operations of the
  code, and the properties of the package are stated over those.
\<close>

section \<open>The set interface\<close>

locale set_ops =
  fixes aset :: "'s \<Rightarrow> nat set"
    and empty :: 's
    and is_empty :: "'s \<Rightarrow> bool"
    and equal subset overlap :: "'s \<Rightarrow> 's \<Rightarrow> bool"
    and union inter diff :: "'s \<Rightarrow> 's \<Rightarrow> 's"
    and mem :: "int \<Rightarrow> 's \<Rightarrow> bool res"
    and add del :: "'s \<Rightarrow> int \<Rightarrow> 's res"
  assumes aset_finite: "finite (aset a)"
    and aset_empty: "aset empty = {}"
    and is_empty_law: "is_empty a \<longleftrightarrow> aset a = {}"
    and equal_law: "equal a b \<longleftrightarrow> aset a = aset b"
    and subset_law: "subset a b \<longleftrightarrow> aset a \<subseteq> aset b"
    and overlap_law: "overlap a b \<longleftrightarrow> aset a \<inter> aset b \<noteq> {}"
    and union_law: "aset (union a b) = aset a \<union> aset b"
    and inter_law: "aset (inter a b) = aset a \<inter> aset b"
    and diff_law: "aset (diff a b) = aset a - aset b"
    and mem_law: "0 \<le> x \<Longrightarrow> mem x a = Inr (nat x \<in> aset a)"
    and add_law: "0 \<le> x \<Longrightarrow> \<exists>b. add a x = Inr b \<and> aset b = insert (nat x) (aset a)"
    and del_law: "0 \<le> x \<Longrightarrow> \<exists>b. del a x = Inr b \<and> aset b = aset a - {nat x}"
begin

lemmas laws = aset_empty is_empty_law equal_law subset_law overlap_law union_law inter_law diff_law

lemma union_commute: "equal (union a b) (union b a)"
  by (auto simp: laws)

lemma union_assoc: "equal (union (union a b) c) (union a (union b c))"
  by (auto simp: laws)

lemma equal_subset: "equal a b \<longleftrightarrow> subset a b \<and> subset b a"
  by (auto simp: laws)

lemma overlap_inter: "overlap a b \<longleftrightarrow> \<not> is_empty (inter a b)"
  by (simp add: laws)

lemma subset_diff: "subset a b \<longleftrightarrow> is_empty (diff a b)"
  by (auto simp: laws)

lemma union_diff_disjoint: "\<not> overlap a b \<Longrightarrow> equal (diff (union a b) b) a"
  by (auto simp: laws)

text \<open>Adding the elements of a list one after the other to a set.\<close>

lemma add_all:
  "\<forall>x \<in> set xs. 0 \<le> x \<Longrightarrow>
    \<exists>b. res_fold (\<lambda>x a. add a x) xs a = Inr b \<and> aset b = aset a \<union> nat ` set xs"
proof (induction xs arbitrary: a)
  case (Cons x xs)
  then obtain b where b: "add a x = Inr b" "aset b = insert (nat x) (aset a)"
    using add_law [of x a] by auto
  obtain c where "res_fold (\<lambda>x a. add a x) xs b = Inr c" "aset c = aset b \<union> nat ` set xs"
    using Cons.IH [of b] Cons.prems by auto
  then show ?case using b by auto
qed simp

lemma mem_after_add: "0 \<le> x \<Longrightarrow> 0 \<le> y \<Longrightarrow> add a x = Inr b \<Longrightarrow> mem y b = Inr (x = y \<or> nat y \<in> aset a)"
  using add_law [of x a] mem_law [of y b] by auto

end

section \<open>Iteration\<close>

text \<open>
  The two loops of the comments in \<open>bitmapset.c\<close>, with the processed members as the result:
  \<open>x = -1; while ((x = bms_next_member(set, x)) >= 0) process x\<close>, and
  \<open>while ((x = bms_first_member(set)) >= 0) process x\<close>.  The first argument bounds the number
  of rounds; a run that reaches the bound has no result.
\<close>

fun next_loop :: "nat \<Rightarrow> ('s \<Rightarrow> int \<Rightarrow> int res) \<Rightarrow> 's \<Rightarrow> int \<Rightarrow> int list res" where
  "next_loop 0 nxt s x = Inl (Undefined ''endless loop'')"
| "next_loop (Suc n) nxt s x = res_bind (nxt s x) (\<lambda>y.
     if y \<ge> 0 then res_map ((#) y) (next_loop n nxt s y) else Inr [])"

fun pop_loop :: "nat \<Rightarrow> ('s \<Rightarrow> (int \<times> 's) res) \<Rightarrow> 's \<Rightarrow> (int list \<times> 's) res" where
  "pop_loop 0 pop s = Inl (Undefined ''endless loop'')"
| "pop_loop (Suc n) pop s = res_bind (pop s) (\<lambda>(x, s').
     if x \<ge> 0 then res_map (\<lambda>(xs, s''). (x # xs, s'')) (pop_loop n pop s') else Inr ([], s'))"

lemma sorted_list_above:
  assumes "finite A" and "{x \<in> A. p < int x} \<noteq> {}"
  shows "sorted_list_of_set {x \<in> A. p < int x} = Min {x \<in> A. p < int x} #
    sorted_list_of_set {x \<in> A. int (Min {x \<in> A. p < int x}) < int x}"
proof -
  let ?T = "{x \<in> A. p < int x}"
  have f: "finite ?T" using assms(1) by simp
  have "?T - {Min ?T} = {x \<in> A. int (Min ?T) < int x}"
    using Min_in [OF f assms(2)] Min_le [OF f] by (auto simp: le_less)
  then show ?thesis using sorted_list_of_set_nonempty [OF f assms(2)] by simp
qed

locale set_iter = set_ops aset empty is_empty equal subset overlap union inter diff mem add del
  for aset :: "'s \<Rightarrow> nat set"
    and empty :: 's
    and is_empty :: "'s \<Rightarrow> bool"
    and equal subset overlap :: "'s \<Rightarrow> 's \<Rightarrow> bool"
    and union inter diff :: "'s \<Rightarrow> 's \<Rightarrow> 's"
    and mem :: "int \<Rightarrow> 's \<Rightarrow> bool res"
    and add del :: "'s \<Rightarrow> int \<Rightarrow> 's res" +
  fixes nxt :: "'s \<Rightarrow> int \<Rightarrow> int res"
    and pop :: "'s \<Rightarrow> (int \<times> 's) res"
  assumes next_none: "-1 \<le> p \<Longrightarrow> {x \<in> aset a. p < int x} = {} \<Longrightarrow> nxt a p = Inr (-2)"
    and next_some: "-1 \<le> p \<Longrightarrow> {x \<in> aset a. p < int x} \<noteq> {} \<Longrightarrow>
          nxt a p = Inr (int (Min {x \<in> aset a. p < int x}))"
    and pop_none: "aset a = {} \<Longrightarrow> \<exists>b. pop a = Inr (-1, b) \<and> aset b = {}"
    and pop_some: "aset a \<noteq> {} \<Longrightarrow>
          \<exists>b. pop a = Inr (int (Min (aset a)), b) \<and> aset b = aset a - {Min (aset a)}"
begin

lemma next_loop_above:
  assumes "-1 \<le> p" and "card {x \<in> aset a. p < int x} < n"
  shows "next_loop n nxt a p = Inr (map int (sorted_list_of_set {x \<in> aset a. p < int x}))"
  using assms
proof (induction n arbitrary: p)
  case (Suc n)
  let ?T = "{x \<in> aset a. p < int x}"
  show ?case
  proof (cases "?T = {}")
    case True
    have "sorted_list_of_set ?T = []" by (subst True) simp
    then show ?thesis using next_none [OF Suc.prems(1) True] by simp
  next
    case False
    let ?m = "Min ?T" and ?T' = "{x \<in> aset a. int (Min {x \<in> aset a. p < int x}) < int x}"
    have f: "finite ?T" using aset_finite by simp
    have s: "sorted_list_of_set ?T = ?m # sorted_list_of_set ?T'"
      by (rule sorted_list_above [OF aset_finite False])
    have "length (sorted_list_of_set ?T) = card ?T" "length (sorted_list_of_set ?T') = card ?T'"
      using aset_finite by simp_all
    then have "card ?T' < n" using s Suc.prems(2) by simp
    then have "next_loop n nxt a (int ?m) = Inr (map int (sorted_list_of_set ?T'))"
      using Suc.IH [of "int ?m"] by simp
    then show ?thesis using next_some [OF Suc.prems(1) False] s by simp
  qed
qed simp

lemma next_loop_members:
  "card (aset a) < n \<Longrightarrow> next_loop n nxt a (-1) = Inr (map int (sorted_list_of_set (aset a)))"
  using next_loop_above [of "-1" a n] by simp

lemma pop_loop_members:
  "card (aset a) < n \<Longrightarrow>
    \<exists>b. pop_loop n pop a = Inr (map int (sorted_list_of_set (aset a)), b) \<and> aset b = {}"
proof (induction n arbitrary: a)
  case (Suc n)
  show ?case
  proof (cases "aset a = {}")
    case True
    then show ?thesis using pop_none [OF True] by auto
  next
    case False
    obtain b where b: "pop a = Inr (int (Min (aset a)), b)" "aset b = aset a - {Min (aset a)}"
      using pop_some [OF False] by blast
    have "0 < card (aset a)" using False aset_finite by (simp add: card_gt_0_iff)
    moreover have "card (aset b) = card (aset a) - 1"
      unfolding b(2) using Min_in [OF aset_finite False] by (rule card_Diff_singleton)
    ultimately have "card (aset b) < n" using Suc.prems by linarith
    then obtain c where "pop_loop n pop b = Inr (map int (sorted_list_of_set (aset b)), c)" "aset c = {}"
      using Suc.IH by blast
    then show ?thesis using b sorted_list_of_set_nonempty [OF aset_finite False]
      by (intro exI [of _ c]) simp
  qed
qed simp

end

section \<open>The bitmap sets implement the interface\<close>

interpretation bms: set_ops bms_set None bms_is_empty bms_equal bms_is_subset bms_overlap
  bms_union bms_intersect bms_difference bms_is_member bms_add_member bms_del_member
  by unfold_locales (auto simp: bms_simps bms_add_member_eq bms_del_member_eq)

text \<open>The operations that recycle their first argument implement the same interface.\<close>

interpretation bms_recycle: set_ops bms_set None bms_is_empty bms_equal bms_is_subset bms_overlap
  bms_add_members bms_int_members bms_del_members bms_is_member bms_add_member bms_del_member
  by unfold_locales (auto simp: bms_simps bms_add_member_eq bms_del_member_eq)

interpretation bms_it: set_iter bms_set None bms_is_empty bms_equal bms_is_subset bms_overlap
  bms_union bms_intersect bms_difference bms_is_member bms_add_member bms_del_member
  bms_next_member bms_first_member
proof unfold_locales
  fix p a
  show "-1 \<le> p \<Longrightarrow> {x \<in> bms_set a. p < int x} = {} \<Longrightarrow> bms_next_member a p = Inr (-2)"
    by (simp add: bms_next_member_eq)
  show "-1 \<le> p \<Longrightarrow> {x \<in> bms_set a. p < int x} \<noteq> {} \<Longrightarrow>
      bms_next_member a p = Inr (int (Min {x \<in> bms_set a. p < int x}))"
    by (simp only: bms_next_member_eq if_False)
next
  fix a
  show "bms_set a = {} \<Longrightarrow> \<exists>b. bms_first_member a = Inr (-1, b) \<and> bms_set b = {}"
    using bms_first_member_eq [of a] by auto
  show "bms_set a \<noteq> {} \<Longrightarrow>
      \<exists>b. bms_first_member a = Inr (int (Min (bms_set a)), b) \<and> bms_set b = bms_set a - {Min (bms_set a)}"
    using bms_first_member_eq [of a] by (simp only: if_False) blast
qed

section \<open>Properties of the package\<close>

text \<open>
  C37: The operations on two sets are the set operations: union, intersection and difference,
  in the copying and in the recycling form, and the tests for equality, subset, overlap,
  nonempty difference and emptiness, whatever the word counts of the two sets and whether or
  not one of them is the NULL pointer; \<open>bms_subset_compare\<close> reports the four cases of the
  subset relation.
\<close>

theorem bms_set_algebra:
  "bms_set (bms_union a b) = bms_set a \<union> bms_set b \<and>
   bms_set (bms_add_members a b) = bms_set a \<union> bms_set b \<and>
   bms_set (bms_join a b) = bms_set a \<union> bms_set b \<and>
   bms_set (bms_intersect a b) = bms_set a \<inter> bms_set b \<and>
   bms_set (bms_int_members a b) = bms_set a \<inter> bms_set b \<and>
   bms_set (bms_difference a b) = bms_set a - bms_set b \<and>
   bms_set (bms_del_members a b) = bms_set a - bms_set b \<and>
   bms_is_empty a = (bms_set a = {}) \<and>
   bms_equal a b = (bms_set a = bms_set b) \<and>
   bms_is_subset a b = (bms_set a \<subseteq> bms_set b) \<and>
   bms_overlap a b = (bms_set a \<inter> bms_set b \<noteq> {}) \<and>
   bms_nonempty_difference a b = (bms_set a - bms_set b \<noteq> {}) \<and>
   bms_subset_compare a b =
     (if bms_set a = bms_set b then BMS_EQUAL
      else if bms_set a \<subseteq> bms_set b then BMS_SUBSET1
      else if bms_set b \<subseteq> bms_set a then BMS_SUBSET2 else BMS_DIFFERENT)"
  by (auto simp: bms_simps own_members_def)

text \<open>
  The operations on one member: for a nonnegative member, \<open>bms_make_singleton\<close>,
  \<open>bms_add_member\<close> and \<open>bms_del_member\<close> return the set with the member alone, added or
  removed, the membership test says whether it is in the set, and \<open>bms_member_index\<close> the number
  of smaller members (-1 for a number that is not a member); a negative member is refused by each
  of them.
\<close>

theorem bms_single_member:
  "if 0 \<le> x then
     (\<exists>b. bms_make_singleton x = Inr b \<and> bms_set b = {nat x}) \<and>
     (\<exists>b. bms_add_member a x = Inr b \<and> bms_set b = insert (nat x) (bms_set a)) \<and>
     (\<exists>b. bms_del_member a x = Inr b \<and> bms_set b = bms_set a - {nat x}) \<and>
     bms_is_member x a = Inr (nat x \<in> bms_set a) \<and>
     bms_member_index a x =
       Inr (if nat x \<in> bms_set a then int (card {y \<in> bms_set a. y < nat x}) else -1)
   else
     bms_make_singleton x = Inl negative_member \<and> bms_add_member a x = Inl negative_member \<and>
     bms_del_member a x = Inl negative_member \<and> bms_is_member x a = Inl negative_member \<and>
     bms_member_index a x = Inl negative_member"
  using bms_make_singleton_eq [of x] bms_add_member_eq [of x a] bms_del_member_eq [of x a]
    bms_member_index_eq [of x a]
  by (simp add: bms_is_member_eq bms_member_index_def)

lemma image_int_nat_range: "0 \<le> lower \<Longrightarrow> lower \<le> upper \<Longrightarrow> nat ` {lower..upper} = {nat lower..nat upper}"
proof (rule set_eqI)
  fix y assume "0 \<le> lower" and "lower \<le> upper"
  then show "y \<in> nat ` {lower..upper} \<longleftrightarrow> y \<in> {nat lower..nat upper}"
    by (cases "nat lower \<le> y \<and> y \<le> nat upper") (auto simp: image_iff intro!: bexI [of _ "int y"])
qed

text \<open>
  Adding the range \<open>lower..upper\<close> word by word gives the same set as adding its members one
  after the other with \<open>bms_add_member\<close>, also when the range starts and ends in one word or
  reaches beyond the words of the set.
\<close>

theorem bms_add_range_members:
  assumes "0 \<le> lower" and "lower \<le> upper"
  shows "\<exists>b c. bms_add_range a lower upper = Inr b \<and>
    res_fold (\<lambda>x a. bms_add_member a x) [lower..upper] a = Inr c \<and>
    bms_equal b c \<and> bms_set b = bms_set a \<union> {nat lower..nat upper}"
proof -
  obtain b where b: "bms_add_range a lower upper = Inr b" "bms_set b = bms_set a \<union> {nat lower..nat upper}"
    using bms_add_range_eq [OF assms] by blast
  obtain c where c: "res_fold (\<lambda>x a. bms_add_member a x) [lower..upper] a = Inr c"
    "bms_set c = bms_set a \<union> nat ` {lower..upper}"
    using bms.add_all [of "[lower..upper]" a] assms(1) by auto
  have "nat ` {lower..upper} = {nat lower..nat upper}"
    using assms image_int_nat_range by blast
  then show ?thesis using b c by (auto simp: bms_equal_iff)
qed

theorem bms_add_range_members_witness:
  "\<exists>b c. bms_add_range (Some [1]) 60 70 = Inr b \<and>
    res_fold (\<lambda>x a. bms_add_member a x) [60..70] (Some [1]) = Inr c \<and>
    bms_equal b c \<and> bms_set b = bms_set (Some [1]) \<union> {nat 60..nat 70}"
  by (rule bms_add_range_members) simp_all

text \<open>
  C38: The iteration protocols.  Started with -1, repeated calls of \<open>bms_next_member\<close> deliver the
  members in ascending order, each once, and then stop; so do repeated calls of
  \<open>bms_first_member\<close>, after which the set is empty.  The loops end: one round more than the set
  has members is enough.
\<close>

theorem bms_iteration:
  "next_loop (Suc (card (bms_set a))) bms_next_member a (-1) =
     Inr (map int (sorted_list_of_set (bms_set a))) \<and>
   (\<exists>b. pop_loop (Suc (card (bms_set a))) bms_first_member a =
     Inr (map int (sorted_list_of_set (bms_set a)), b) \<and> bms_is_empty b)"
  using bms_it.next_loop_members [of a "Suc (card (bms_set a))"]
    bms_it.pop_loop_members [of a "Suc (card (bms_set a))"]
  by (auto simp: bms_is_empty_iff)

text \<open>
  Searching backwards: from a position inside the set (or -1, for the last member)
  \<open>bms_prev_member\<close> returns the largest smaller member, or -2 if there is none, and never reads
  outside the words of the set.
\<close>

theorem bms_prev_member_correct:
  assumes "ws \<noteq> []" and "p = -1 \<or> 0 \<le> p \<and> p \<le> int (length ws) * 64"
  shows "bms_prev_member (Some ws) p =
    (let T = {x \<in> bms_set (Some ws). p = -1 \<or> int x < p} in Inr (if T = {} then -2 else int (Max T)))"
  using bms_prev_member_eq [OF refl assms] by (simp only: Let_def)

theorem bms_prev_member_correct_witness:
  "bms_prev_member (Some [5, 1]) 64 =
    (let T = {x \<in> bms_set (Some [5, 1]). (64::int) = -1 \<or> int x < 64} in Inr (if T = {} then -2 else int (Max T)))"
  by (rule bms_prev_member_correct) simp_all

text \<open>
  Sizes: the population count is the number of members; \<open>bms_membership\<close>,
  \<open>bms_singleton_member\<close> and \<open>bms_get_singleton_member\<close> agree with it, and the latter two return
  the only member of a one-member set; the two errors of \<open>bms_singleton_member\<close> are raised
  for the empty set and for a set of several members.
\<close>

theorem bms_sizes:
  "bms_num_members a = int (card (bms_set a)) \<and>
   (bms_membership a = BMS_EMPTY_SET) = (bms_set a = {}) \<and>
   (bms_membership a = BMS_SINGLETON) = (bms_num_members a = 1) \<and>
   (bms_membership a = BMS_MULTIPLE) = (bms_num_members a > 1) \<and>
   (case bms_singleton_member a of
      Inr x \<Rightarrow> 0 \<le> x \<and> bms_set a = {nat x} \<and> bms_get_singleton_member a m = Inr (True, x)
    | Inl e \<Rightarrow> bms_num_members a \<noteq> 1 \<and> bms_get_singleton_member a m = Inr (False, m) \<and>
        e = Elog (if bms_is_empty a then ''bitmapset is empty'' else ''bitmapset has multiple members''))"
proof -
  have c0: "card (bms_set a) = 0 \<longleftrightarrow> bms_set a = {}" by simp
  have single: "bms_set a = {Min (bms_set a)}" if "card (bms_set a) = 1"
    using that by (metis Min_singleton card_1_singletonE)
  then show ?thesis using c0
    by (cases "card (bms_set a) = 1") (auto simp: bms_simps simp del: card_0_eq)
qed

lemma set_val_low: "finite A \<Longrightarrow> \<forall>x \<in> A. x < m \<Longrightarrow> set_val A < 2 ^ m"
proof -
  assume "finite A" and "\<forall>x \<in> A. x < m"
  then have "set_val A \<le> set_val {..<m}"
    unfolding set_val_def by (intro sum_mono2) auto
  also have "\<dots> < 2 ^ m" by (induction m) (simp_all add: set_val_def lessThan_Suc)
  finally show ?thesis .
qed

text \<open>The highest member in which two sets differ decides which number is larger.\<close>

lemma set_val_less:
  assumes "finite A" "finite B" and "m \<in> B" "m \<notin> A" and "\<forall>x > m. x \<in> A \<longleftrightarrow> x \<in> B"
  shows "set_val A < set_val B"
proof -
  let ?H = "{x \<in> A. m < x}"
  have "set_val ({x \<in> A. x < m} \<union> ?H) = set_val {x \<in> A. x < m} + set_val ?H"
    unfolding set_val_def using assms(1) by (intro sum.union_disjoint) auto
  moreover have "{x \<in> A. x < m} \<union> ?H = A" using assms(4) by (auto simp: not_less le_less)
  ultimately have "set_val A = set_val {x \<in> A. x < m} + set_val ?H" by simp
  also have "\<dots> < 2 ^ m + set_val ?H" using assms(1) by (simp add: set_val_low)
  also have "\<dots> = set_val (insert m ?H)" using assms(1) by (simp add: set_val_def)
  also have "\<dots> \<le> set_val B"
    unfolding set_val_def using assms by (intro sum_mono2) auto
  finally show ?thesis .
qed

lemma sgn_nat_less: "m < n \<Longrightarrow> sgn (int m - int n) = -1" "m < n \<Longrightarrow> sgn (int n - int m) = 1"
  by simp_all

lemma bms_compare_less: "bms_compare a b < 0 \<longleftrightarrow> set_val (bms_set a) < set_val (bms_set b)"
  by (simp add: bms_compare_eq sgn_if)

lemma bms_compare_swap: "bms_compare b a = - bms_compare a b"
  by (simp add: bms_compare_eq sgn_if)

lemma set_val_neq:
  assumes "finite A" and "finite B" and "A \<noteq> B"
  defines "m \<equiv> Max ((A - B) \<union> (B - A))"
  shows "if m \<in> A then set_val B < set_val A else set_val A < set_val B"
proof -
  let ?D = "(A - B) \<union> (B - A)"
  have m: "m \<in> ?D" unfolding m_def using assms(1,2,3) by (intro Max_in) auto
  have above: "x \<in> A \<longleftrightarrow> x \<in> B" if "m < x" for x
  proof (rule ccontr)
    assume "\<not> (x \<in> A \<longleftrightarrow> x \<in> B)"
    then have "x \<le> m" unfolding m_def using assms(1,2) by (intro Max_ge) auto
    then show False using that by simp
  qed
  show ?thesis using m set_val_less [of B A m] set_val_less [of A B m] assms(1,2) above by auto
qed

text \<open>
  \<open>bms_compare\<close> is a comparison function for sorting: it reports 0 exactly for sets that
  \<open>bms_equal\<close> calls equal, otherwise the sign tells which of the two contains the highest
  member in which they differ, exchanging the arguments negates it, and it is transitive.
\<close>

theorem bms_compare_order:
  "(bms_compare a b = 0) = bms_equal a b \<and>
   (\<not> bms_equal a b \<longrightarrow> bms_compare a b =
      (if Max ((bms_set a - bms_set b) \<union> (bms_set b - bms_set a)) \<in> bms_set a then 1 else -1)) \<and>
   bms_compare b a = - bms_compare a b \<and>
   (bms_compare a b < 0 \<longrightarrow> bms_compare b c < 0 \<longrightarrow> bms_compare a c < 0)"
proof -
  let ?m = "Max ((bms_set a - bms_set b) \<union> (bms_set b - bms_set a))"
  have neq: "if ?m \<in> bms_set a then set_val (bms_set b) < set_val (bms_set a)
      else set_val (bms_set a) < set_val (bms_set b)" if "\<not> bms_equal a b"
    using that set_val_neq [of "bms_set a" "bms_set b"] by (simp add: bms_equal_iff)
  then have 1: "bms_compare a b = (if ?m \<in> bms_set a then 1 else -1)" if "\<not> bms_equal a b"
    using that by (auto simp: bms_compare_eq sgn_nat_less split: if_splits)
  have 0: "bms_compare a b = 0" if "bms_equal a b"
    using that by (simp add: bms_equal_iff bms_compare_eq)
  have "(bms_compare a b = 0) = bms_equal a b" using 0 1 by (cases "bms_equal a b") (simp_all split: if_splits)
  moreover have "bms_compare a b < 0 \<longrightarrow> bms_compare b c < 0 \<longrightarrow> bms_compare a c < 0"
    by (simp add: bms_compare_less)
  ultimately show ?thesis using 1 by (intro conjI impI bms_compare_swap) simp_all
qed

theorem bms_compare_order_witness:
  "\<not> bms_equal (Some [2]) (Some [1]) \<and> bms_compare (Some [1]) (Some [3]) < 0"
  using bms_compare_order [of "Some [2]" "Some [1]" "Some [3]"] bms_compare_order [of "Some [1]" "Some [3]" None]
  by (simp add: bms_equal_def bms_compare_def)

end
