(* ===== verification/CardInject.thy ===== *)
theory CardInject
  imports Bitmapset_Spec
begin

text \<open>
  The cardinality injection in the planner of the benchmark's PostgreSQL,
  \<open>src/backend/optimizer/path/costsize.c\<close>: the estimates of an external method are read from a
  file and replace the planner's own row counts, for base relations in the order in which
  they are estimated (\<open>card_ests[query_no]\<close>) and for joins by the set of joined aliases
  (\<open>join_to_key\<close>, \<open>lookup_join_estimate\<close>).

  The global variables of the file are the record \<open>inject_state\<close>; a function that may raise an
  error after it changed them returns the state together with the result.  Files are an
  argument, from names to contents, and so is \<open>strtod\<close>, the number conversion of the C
  library; estimates are real numbers.  Text written to the debug files is not modelled.  A C
  string is a character list without NUL, and buffers keep their sizes: writing past
  \<open>key[JOIN_EST_KEY_MAX]\<close> or past the estimate array has no defined result.
\<close>

section \<open>Strings of the C library\<close>

fun strcmp :: "string \<Rightarrow> string \<Rightarrow> int" where
  "strcmp [] [] = 0"
| "strcmp [] (d # t) = - of_char d"
| "strcmp (c # s) [] = of_char c"
| "strcmp (c # s) (d # t) = (if c = d then strcmp s t else of_char c - of_char d)"

definition tolower :: "char \<Rightarrow> char" where
  "tolower c = (if 65 \<le> (of_char c :: nat) \<and> (of_char c :: nat) \<le> 90 then char_of (of_char c + 32 :: nat) else c)"

text \<open>\<open>strcat\<close> to a buffer of \<open>bufsize\<close> bytes, which must also hold the final NUL.\<close>

definition strcat :: "nat \<Rightarrow> string \<Rightarrow> string \<Rightarrow> string res" where
  "strcat bufsize key s = (if length key + length s + 1 \<le> bufsize then Inr (key @ s)
     else Inl (Undefined ''write past key''))"

text \<open>\<open>fgets(line, n, fp)\<close>: at most \<open>n - 1\<close> characters, up to and including a newline.\<close>

definition newline :: char where
  "newline = CHR 0x0A"

fun fgets :: "nat \<Rightarrow> string \<Rightarrow> string" where
  "fgets n [] = []"
| "fgets n (c # input) = (if n \<le> 1 then [] else if c = newline then [c] else c # fgets (n - 1) input)"

section \<open>Data\<close>

definition CARD_EST_QUERY_NUM :: nat where "CARD_EST_QUERY_NUM = 10000"
definition JOIN_EST_KEY_MAX :: nat where "JOIN_EST_KEY_MAX = 256"
definition JOIN_EST_MAX_ENTRIES :: nat where "JOIN_EST_MAX_ENTRIES = 2000"
definition NAMEDATALEN :: nat where "NAMEDATALEN = 64"

type_synonym JoinEstKV = "string \<times> real"

record inject_state =
  card_ests :: "real list"
  join_est_entries :: "JoinEstKV list"
  join_est_entry_count :: nat
  query_no :: nat
  join_est_no :: nat
  ml_cardest_enabled :: bool
  ml_joinest_enabled :: bool
  print_sub_queries :: bool
  print_single_tbl_queries :: bool
  ml_cardest_fname :: string
  ml_joinest_fname :: string

definition initial_state :: inject_state where
  "initial_state = \<lparr>card_ests = replicate CARD_EST_QUERY_NUM 0,
     join_est_entries = replicate JOIN_EST_MAX_ENTRIES ([], 0), join_est_entry_count = 0,
     query_no = 0, join_est_no = 0, ml_cardest_enabled = False, ml_joinest_enabled = False,
     print_sub_queries = False, print_single_tbl_queries = False,
     ml_cardest_fname = [], ml_joinest_fname = []\<rparr>"

datatype JoinType = JOIN_INNER | JOIN_LEFT | JOIN_FULL | JOIN_RIGHT | JOIN_SEMI | JOIN_ANTI
  | JOIN_UNIQUE_OUTER | JOIN_UNIQUE_INNER

record RestrictInfo =
  ri_id :: nat
  is_pushed_down :: bool
  required_relids :: bitmapset
  parent_ec :: "nat option"

record RelOptInfo =
  relids :: bitmapset
  relid :: nat
  rows :: real
  tuples :: real
  baserestrictinfo :: "RestrictInfo list"
  baserestrictcost :: "real \<times> real"
  width :: int

record ForeignKeyOptInfo =
  con_relid :: int
  ref_relid :: int
  fk_eclass :: "nat option list"
  fk_rinfos :: "nat list list"
  nmatched_ec :: nat
  nmatched_ri :: nat

text \<open>\<open>eref\<close> is \<open>None\<close> for a NULL pointer, otherwise the alias name.\<close>

record RangeTblEntry =
  eref :: "string option"

record PlannerInfo =
  simple_rte_array :: "RangeTblEntry option list"
  simple_rel_array :: "RelOptInfo option list"
  fkey_list :: "ForeignKeyOptInfo list"

text \<open>\<open>x < root->simple_rel_array_size && root->simple_rte_array[x]\<close>.\<close>

definition rte_at :: "PlannerInfo \<Rightarrow> int \<Rightarrow> RangeTblEntry option" where
  "rte_at pinfo x = (if x < int (length (simple_rte_array pinfo)) then simple_rte_array pinfo ! nat x else None)"

section \<open>Reading the estimate files\<close>

text \<open>
  \<open>fscanf(fp, "%lf")\<close> delivers the numbers of the file one by one; \<open>scan\<close> is this sequence.
\<close>

fun store_estimates :: "real list \<Rightarrow> nat \<Rightarrow> real list \<Rightarrow> real list res" where
  "store_estimates [] query_cnt ests = Inr ests"
| "store_estimates (card_est # scan) query_cnt ests =
     (if query_cnt < length ests then store_estimates scan (query_cnt + 1) (ests[query_cnt := card_est])
      else Inl (Undefined ''write past card_ests''))"

definition read_from_fspn_estimate ::
  "(string \<Rightarrow> real list) \<Rightarrow> (string \<Rightarrow> string option) \<Rightarrow> string \<Rightarrow> inject_state \<Rightarrow> inject_state res" where
  "read_from_fspn_estimate scan files filename st = (case files filename of
     None \<Rightarrow> Inl (Elog ''cannot open card estimate file'')
   | Some input \<Rightarrow> res_map (\<lambda>ests. st\<lparr>card_ests := ests\<rparr>) (store_estimates (scan input) 0 (card_ests st)))"

text \<open>
  A line of the join estimate file, \<open>key TAB value\<close>: \<open>None\<close> if it has no tab; a carriage
  return at the end of the key is dropped, and the key cut to the size of its field.
\<close>

definition parse_line :: "(string \<Rightarrow> real) \<Rightarrow> string \<Rightarrow> JoinEstKV option" where
  "parse_line atof line = (if CHR 0x09 \<notin> set line then None
     else let key = takeWhile (\<lambda>c. c \<noteq> CHR 0x09) line;
              value = atof (drop (length key + 1) line);
              key = (if key \<noteq> [] \<and> last key = CHR 0x0D then butlast key else key)
          in Some (take (JOIN_EST_KEY_MAX - 1) key, value))"

lemma length_fgets_le: "length (fgets n input) \<le> length input"
  by (induction n input rule: fgets.induct) auto

lemma fgets_nonempty: "input \<noteq> [] \<Longrightarrow> 1 < n \<Longrightarrow> fgets n input \<noteq> []"
  by (cases input) auto

function join_file_loop ::
  "(string \<Rightarrow> real) \<Rightarrow> string \<Rightarrow> nat \<Rightarrow> JoinEstKV list \<Rightarrow> nat \<times> JoinEstKV list" where
  "join_file_loop atof input cnt entries =
     (let line = fgets (JOIN_EST_KEY_MAX + 64) input in
      if input = [] \<or> \<not> cnt < JOIN_EST_MAX_ENTRIES then (cnt, entries)
      else case parse_line atof line of
        None \<Rightarrow> join_file_loop atof (drop (length line) input) cnt entries
      | Some kv \<Rightarrow> join_file_loop atof (drop (length line) input) (cnt + 1) (entries[cnt := kv]))"
  by pat_completeness auto
termination
  by (relation "measure (\<lambda>(_, input, _, _). length input)")
    (auto simp: JOIN_EST_KEY_MAX_def fgets_nonempty)

declare join_file_loop.simps [simp del]

definition read_from_fspn_join_estimate ::
  "(string \<Rightarrow> real) \<Rightarrow> (string \<Rightarrow> string option) \<Rightarrow> string \<Rightarrow> inject_state \<Rightarrow> inject_state res" where
  "read_from_fspn_join_estimate atof files filename st = (case files filename of
     None \<Rightarrow> Inl (Elog ''cannot open join estimate file'')
   | Some input \<Rightarrow> (let (cnt, entries) = join_file_loop atof input 0 (join_est_entries st) in
       Inr (st\<lparr>join_est_entries := entries, join_est_entry_count := cnt\<rparr>)))"

section \<open>Join keys\<close>

text \<open>The members of a set, by the \<open>bms_next_member\<close> loop; its rounds are bounded by the bits of the set.\<close>

definition bms_members :: "bitmapset \<Rightarrow> int list res" where
  "bms_members a = next_loop (Suc (case a of None \<Rightarrow> 0 | Some ws \<Rightarrow> 64 * length ws)) bms_next_member a (-1)"

fun collect_aliases :: "PlannerInfo \<Rightarrow> int list \<Rightarrow> string list" where
  "collect_aliases pinfo [] = []"
| "collect_aliases pinfo (x # xs) = (case rte_at pinfo x of
     None \<Rightarrow> collect_aliases pinfo xs
   | Some rte \<Rightarrow> (case eref rte of
       None \<Rightarrow> collect_aliases pinfo xs
     | Some alias \<Rightarrow> map tolower (take (NAMEDATALEN - 1) alias) # collect_aliases pinfo xs))"

text \<open>The exchange sort: \<open>for j = i + 1 .. n - 1\<close> swap \<open>aliases[i]\<close> and \<open>aliases[j]\<close> if out of order.\<close>

function exchange_inner :: "nat \<Rightarrow> nat \<Rightarrow> string list \<Rightarrow> string list" where
  "exchange_inner i j aliases = (if j < length aliases
     then exchange_inner i (j + 1)
       (if strcmp (aliases ! i) (aliases ! j) > 0
        then aliases[i := aliases ! j, j := aliases ! i] else aliases)
     else aliases)"
  by pat_completeness auto
termination by (relation "measure (\<lambda>(_, j, aliases). length aliases - j)") auto

declare exchange_inner.simps [simp del]

lemma length_exchange_inner [simp]: "length (exchange_inner i j xs) = length xs"
  by (induction i j xs rule: exchange_inner.induct) (subst exchange_inner.simps, simp)

function exchange_outer :: "nat \<Rightarrow> string list \<Rightarrow> string list" where
  "exchange_outer i aliases = (if i < length aliases - 1
     then exchange_outer (i + 1) (exchange_inner i (i + 1) aliases) else aliases)"
  by pat_completeness auto
termination by (relation "measure (\<lambda>(i, aliases). length aliases - i)") auto

declare exchange_outer.simps [simp del]

fun concat_aliases :: "nat \<Rightarrow> bool \<Rightarrow> string list \<Rightarrow> string \<Rightarrow> string res" where
  "concat_aliases bufsize first [] key = Inr key"
| "concat_aliases bufsize first (alias # aliases) key =
     res_bind (if first then Inr key else strcat bufsize key '','') (\<lambda>key.
     res_bind (strcat bufsize key alias) (concat_aliases bufsize False aliases))"

definition join_to_key :: "PlannerInfo \<Rightarrow> RelOptInfo \<Rightarrow> RelOptInfo \<Rightarrow> nat \<Rightarrow> string res" where
  "join_to_key pinfo inner_rel outer_rel key_size =
     res_bind (bms_members (bms_union (relids inner_rel) (relids outer_rel))) (\<lambda>xs.
       let aliases = collect_aliases pinfo xs in
       if length aliases > JOIN_EST_MAX_ENTRIES then Inl (Undefined ''write past aliases'')
       else res_bind (concat_aliases key_size True (exchange_outer 0 aliases) ''{'')
         (\<lambda>key. strcat key_size key ''}''))"

fun lookup_loop :: "nat \<Rightarrow> JoinEstKV list \<Rightarrow> string \<Rightarrow> real" where
  "lookup_loop 0 entries key = -1"
| "lookup_loop (Suc n) [] key = -1"
| "lookup_loop (Suc n) ((k, v) # entries) key = (if strcmp k key = 0 then v else lookup_loop n entries key)"

definition lookup_join_estimate :: "inject_state \<Rightarrow> string \<Rightarrow> real" where
  "lookup_join_estimate st key = lookup_loop (join_est_entry_count st) (join_est_entries st) key"

section \<open>Row counts\<close>

text \<open>\<open>rint\<close> rounds to the nearest integer, halves to the even one.\<close>

definition rint :: "real \<Rightarrow> real" where
  "rint x = (let f = \<lfloor>x\<rfloor>; d = x - of_int f in
     of_int (if d < 1 / 2 then f else if d > 1 / 2 then f + 1 else if even f then f else f + 1))"

definition clamp_row_est :: "real \<Rightarrow> real" where
  "clamp_row_est nrows = (if nrows \<le> 1 then 1 else rint nrows)"

text \<open>
  What the size estimates call in other files: the selectivity of a clause list, the cost of
  evaluating clauses and the width of a relation's rows.
\<close>

record planner_calls =
  clauselist_selectivity :: "RestrictInfo list \<Rightarrow> nat \<Rightarrow> JoinType \<Rightarrow> real"
  cost_qual_eval :: "RestrictInfo list \<Rightarrow> real \<times> real"
  set_rel_width :: "RelOptInfo \<Rightarrow> RelOptInfo"
  call_scan :: "string \<Rightarrow> real list"
  call_atof :: "string \<Rightarrow> real"
  call_files :: "string \<Rightarrow> string option"

definition set_baserel_size_estimates ::
  "planner_calls \<Rightarrow> RelOptInfo \<Rightarrow> inject_state \<Rightarrow> (inject_state \<times> RelOptInfo) res" where
  "set_baserel_size_estimates pc rel st =
     (let nrows = tuples rel * clauselist_selectivity pc (baserestrictinfo rel) 0 JOIN_INNER in
      res_bind
        (if ml_cardest_enabled st
         then res_bind (if query_no st = 0
                then read_from_fspn_estimate (call_scan pc) (call_files pc) (ml_cardest_fname st) st
                else Inr st) (\<lambda>st.
              if query_no st < CARD_EST_QUERY_NUM
              then Inr (st\<lparr>query_no := query_no st + 1\<rparr>, card_ests st ! query_no st)
              else Inl (Undefined ''read past card_ests''))
         else Inr (st, nrows))
        (\<lambda>(st, nrows).
          let rel = rel\<lparr>rows := clamp_row_est nrows\<rparr>;
              st = (if print_single_tbl_queries st then st\<lparr>query_no := query_no st + 1\<rparr> else st)
          in Inr (st, set_rel_width pc (rel\<lparr>baserestrictcost := cost_qual_eval pc (baserestrictinfo rel)\<rparr>))))"

definition get_parameterized_baserel_size ::
  "planner_calls \<Rightarrow> RelOptInfo \<Rightarrow> RestrictInfo list \<Rightarrow> real" where
  "get_parameterized_baserel_size pc rel param_clauses =
     (let allclauses = param_clauses @ baserestrictinfo rel;
          nrows = clamp_row_est (tuples rel * clauselist_selectivity pc allclauses (relid rel) JOIN_INNER)
      in if nrows > rows rel then rows rel else nrows)"

definition IS_OUTER_JOIN :: "JoinType \<Rightarrow> bool" where
  "IS_OUTER_JOIN jt = (jt \<in> {JOIN_LEFT, JOIN_FULL, JOIN_RIGHT, JOIN_ANTI})"

definition RINFO_IS_PUSHED_DOWN :: "RestrictInfo \<Rightarrow> bitmapset \<Rightarrow> bool" where
  "RINFO_IS_PUSHED_DOWN rinfo joinrelids = (is_pushed_down rinfo \<or> \<not> bms_is_subset (required_relids rinfo) joinrelids)"

section \<open>Foreign keys\<close>

text \<open>Does a clause match a column of the foreign key: by its equivalence class, or as a loose clause?\<close>

fun fk_match_loop :: "RestrictInfo \<Rightarrow> nat option list \<Rightarrow> nat list list \<Rightarrow> bool" where
  "fk_match_loop rinfo (eclass # eclasses) (rinfos # rinfoss) =
     (if (case parent_ec rinfo of Some ec \<Rightarrow> eclass = Some ec | None \<Rightarrow> ri_id rinfo \<in> set rinfos)
      then True else fk_match_loop rinfo eclasses rinfoss)"
| "fk_match_loop rinfo _ _ = False"

text \<open>The \<open>foreach\<close> with \<open>foreach_delete_current\<close>: the clauses kept and the ones removed.\<close>

fun remove_matching :: "ForeignKeyOptInfo \<Rightarrow> RestrictInfo list \<Rightarrow> RestrictInfo list \<times> RestrictInfo list" where
  "remove_matching fkinfo [] = ([], [])"
| "remove_matching fkinfo (rinfo # worklist) =
     (let (kept, removed) = remove_matching fkinfo worklist in
      if fk_match_loop rinfo (fk_eclass fkinfo) (fk_rinfos fkinfo)
      then (kept, rinfo # removed) else (rinfo # kept, removed))"

definition find_base_rel :: "PlannerInfo \<Rightarrow> int \<Rightarrow> RelOptInfo res" where
  "find_base_rel pinfo rid = (if rid < int (length (simple_rel_array pinfo)) then
     (case simple_rel_array pinfo ! nat rid of Some rel \<Rightarrow> Inr rel | None \<Rightarrow> Inl (Elog ''no relation entry for relid''))
     else Inl (Elog ''no relation entry for relid''))"

text \<open>\<open>Some ref_is_outer\<close> if the key connects the two sides of the join.\<close>

definition fk_connects :: "ForeignKeyOptInfo \<Rightarrow> bitmapset \<Rightarrow> bitmapset \<Rightarrow> bool option res" where
  "fk_connects fkinfo outer_relids inner_relids =
     res_bind (bms_is_member (con_relid fkinfo) outer_relids) (\<lambda>con_outer.
     res_bind (if con_outer then bms_is_member (ref_relid fkinfo) inner_relids else Inr False) (\<lambda>ref_inner.
       if con_outer \<and> ref_inner then Inr (Some False)
       else res_bind (bms_is_member (ref_relid fkinfo) outer_relids) (\<lambda>ref_outer.
         res_map (\<lambda>con_inner. if ref_outer \<and> con_inner then Some True else None)
           (if ref_outer then bms_is_member (con_relid fkinfo) inner_relids else Inr False))))"

fun fk_loop ::
  "PlannerInfo \<Rightarrow> bitmapset \<Rightarrow> bitmapset \<Rightarrow> JoinType \<Rightarrow> ForeignKeyOptInfo list
    \<Rightarrow> real \<Rightarrow> RestrictInfo list \<Rightarrow> (real \<times> RestrictInfo list) res" where
  "fk_loop pinfo outer_relids inner_relids jointype [] fkselec worklist = Inr (fkselec, worklist)"
| "fk_loop pinfo outer_relids inner_relids jointype (fkinfo # fkeys) fkselec worklist =
     res_bind (fk_connects fkinfo outer_relids inner_relids) (\<lambda>connects. case connects of
       None \<Rightarrow> fk_loop pinfo outer_relids inner_relids jointype fkeys fkselec worklist
     | Some ref_is_outer \<Rightarrow>
         if (jointype = JOIN_SEMI \<or> jointype = JOIN_ANTI) \<and>
            (ref_is_outer \<or> bms_membership inner_relids \<noteq> BMS_SINGLETON)
         then fk_loop pinfo outer_relids inner_relids jointype fkeys fkselec worklist
         else let (kept, removedlist) = remove_matching fkinfo worklist in
           if length removedlist \<noteq> nmatched_ec fkinfo + nmatched_ri fkinfo
           then fk_loop pinfo outer_relids inner_relids jointype fkeys fkselec (kept @ removedlist)
           else res_bind (find_base_rel pinfo (ref_relid fkinfo)) (\<lambda>ref_rel.
             let ref_tuples = max (tuples ref_rel) 1;
                 fkselec = (if jointype = JOIN_SEMI \<or> jointype = JOIN_ANTI
                            then fkselec * (rows ref_rel / ref_tuples)
                            else fkselec * (1 / ref_tuples))
             in fk_loop pinfo outer_relids inner_relids jointype fkeys fkselec kept))"

definition get_foreign_key_join_selectivity ::
  "PlannerInfo \<Rightarrow> bitmapset \<Rightarrow> bitmapset \<Rightarrow> JoinType \<Rightarrow> RestrictInfo list \<Rightarrow> (real \<times> RestrictInfo list) res" where
  "get_foreign_key_join_selectivity pinfo outer_relids inner_relids jointype restrictlist =
     fk_loop pinfo outer_relids inner_relids jointype (fkey_list pinfo) 1 restrictlist"

section \<open>Join sizes\<close>

text \<open>The selectivities of the join's own clauses and of the clauses pushed down to it.\<close>

definition join_selectivities ::
  "planner_calls \<Rightarrow> JoinType \<Rightarrow> bitmapset \<Rightarrow> RestrictInfo list \<Rightarrow> real \<times> real" where
  "join_selectivities pc jointype joinrelids restrictlist = (if IS_OUTER_JOIN jointype
     then (clauselist_selectivity pc (filter (\<lambda>r. \<not> RINFO_IS_PUSHED_DOWN r joinrelids) restrictlist) 0 jointype,
           clauselist_selectivity pc (filter (\<lambda>r. RINFO_IS_PUSHED_DOWN r joinrelids) restrictlist) 0 jointype)
     else (clauselist_selectivity pc restrictlist 0 jointype, 0))"

definition join_rows :: "JoinType \<Rightarrow> real \<Rightarrow> real \<Rightarrow> real \<Rightarrow> real \<Rightarrow> real \<Rightarrow> real res" where
  "join_rows jointype outer_rows inner_rows fkselec jselec pselec = (case jointype of
     JOIN_INNER \<Rightarrow> Inr (outer_rows * inner_rows * fkselec * jselec)
   | JOIN_LEFT \<Rightarrow>
       (let nrows = outer_rows * inner_rows * fkselec * jselec;
            nrows = (if nrows < outer_rows then outer_rows else nrows) in Inr (nrows * pselec))
   | JOIN_FULL \<Rightarrow>
       (let nrows = outer_rows * inner_rows * fkselec * jselec;
            nrows = (if nrows < outer_rows then outer_rows else nrows);
            nrows = (if nrows < inner_rows then inner_rows else nrows) in Inr (nrows * pselec))
   | JOIN_SEMI \<Rightarrow> Inr (outer_rows * fkselec * jselec)
   | JOIN_ANTI \<Rightarrow> Inr (outer_rows * (1 - fkselec * jselec) * pselec)
   | _ \<Rightarrow> Inl (Elog ''unrecognized join type''))"

text \<open>
  The injected estimate.  The counters are changed before the error for a missing key is
  raised, so the state is part of the result in both cases.
\<close>

definition inject_join_estimate ::
  "planner_calls \<Rightarrow> PlannerInfo \<Rightarrow> RelOptInfo \<Rightarrow> RelOptInfo \<Rightarrow> inject_state \<Rightarrow> inject_state \<times> real res" where
  "inject_join_estimate pc pinfo outer_rel inner_rel st0 =
     (let st = (if join_est_no st0 = 0 then st0\<lparr>join_est_entry_count := 0\<rparr> else st0) in
      case (if join_est_entry_count st = 0
            then read_from_fspn_join_estimate (call_atof pc) (call_files pc) (ml_joinest_fname st) st else Inr st) of
        Inl e \<Rightarrow> (st, Inl e)
      | Inr st \<Rightarrow>
          (case join_to_key pinfo inner_rel outer_rel JOIN_EST_KEY_MAX of
             Inl e \<Rightarrow> (st, Inl e)
           | Inr key \<Rightarrow>
               let join_est = lookup_join_estimate st key;
                   st = st\<lparr>join_est_no := join_est_no st + 1\<rparr>
               in (st, if join_est < 0 then Inl (Elog ''join estimate key not found in estimate file'')
                       else Inr (clamp_row_est join_est))))"

definition calc_joinrel_size_estimate ::
  "planner_calls \<Rightarrow> PlannerInfo \<Rightarrow> RelOptInfo \<Rightarrow> RelOptInfo \<Rightarrow> RelOptInfo \<Rightarrow> real \<Rightarrow> real
    \<Rightarrow> JoinType \<Rightarrow> RestrictInfo list \<Rightarrow> inject_state \<Rightarrow> inject_state \<times> real res" where
  "calc_joinrel_size_estimate pc pinfo joinrel outer_rel inner_rel outer_rows inner_rows jointype restrictlist st =
     (case get_foreign_key_join_selectivity pinfo (relids outer_rel) (relids inner_rel) jointype restrictlist of
        Inl e \<Rightarrow> (st, Inl e)
      | Inr (fkselec, restrictlist) \<Rightarrow>
          let (jselec, pselec) = join_selectivities pc jointype (relids joinrel) restrictlist in
          (case join_rows jointype outer_rows inner_rows fkselec jselec pselec of
             Inl e \<Rightarrow> (st, Inl e)
           | Inr nrows \<Rightarrow>
               let st = (if print_sub_queries st then st\<lparr>query_no := query_no st + 1\<rparr> else st) in
               if ml_joinest_enabled st then inject_join_estimate pc pinfo outer_rel inner_rel st
               else (st, Inr (clamp_row_est nrows))))"

text \<open>After the estimate, \<open>set_joinrel_size_estimates\<close> builds the key again for its trace.\<close>

definition set_joinrel_size_estimates ::
  "planner_calls \<Rightarrow> PlannerInfo \<Rightarrow> RelOptInfo \<Rightarrow> RelOptInfo \<Rightarrow> RelOptInfo
    \<Rightarrow> JoinType \<Rightarrow> RestrictInfo list \<Rightarrow> inject_state \<Rightarrow> inject_state \<times> RelOptInfo res" where
  "set_joinrel_size_estimates pc pinfo rel outer_rel inner_rel jointype restrictlist st =
     (case calc_joinrel_size_estimate pc pinfo rel outer_rel inner_rel (rows outer_rel) (rows inner_rel)
             jointype restrictlist st of
        (st, r) \<Rightarrow> (st, res_bind r (\<lambda>nrows.
          res_map (\<lambda>_. rel\<lparr>rows := nrows\<rparr>) (join_to_key pinfo inner_rel outer_rel JOIN_EST_KEY_MAX))))"

text \<open>A path is its parent relation and its row count.\<close>

definition get_parameterized_joinrel_size ::
  "planner_calls \<Rightarrow> PlannerInfo \<Rightarrow> RelOptInfo \<Rightarrow> RelOptInfo \<times> real \<Rightarrow> RelOptInfo \<times> real
    \<Rightarrow> JoinType \<Rightarrow> RestrictInfo list \<Rightarrow> inject_state \<Rightarrow> inject_state \<times> real res" where
  "get_parameterized_joinrel_size pc pinfo rel outer_path inner_path jointype restrict_clauses st =
     (case calc_joinrel_size_estimate pc pinfo rel (fst outer_path) (fst inner_path) (snd outer_path) (snd inner_path)
             jointype restrict_clauses st of
        (st, r) \<Rightarrow> (st, res_map (\<lambda>nrows. if nrows > rows rel then rows rel else nrows) r))"

end
