(* ===== verification/CardInject_Keys.thy ===== *)
theory CardInject_Keys
  imports CardInject
begin

text \<open>
  Join keys and the table of join estimates: the key of a join is the sorted list of the
  aliases of its base relations, so it depends only on the set of joined relations, and a file
  written in the format of the loader is found again entry by entry.  \<open>strcmp\<close> as an order on
  C strings is the interface \<open>cmp_order\<close>, interpreted for \<open>strcmp\<close>; the exchange sort is shown
  correct for any such comparison.
\<close>

section \<open>Comparison functions and the exchange sort\<close>

locale cmp_order =
  fixes cmp :: "'a \<Rightarrow> 'a \<Rightarrow> int" and valid :: "'a \<Rightarrow> bool"
  assumes cmp_refl: "cmp x x = 0"
    and cmp_antisym: "valid x \<Longrightarrow> valid y \<Longrightarrow> cmp x y \<le> 0 \<Longrightarrow> cmp y x \<le> 0 \<Longrightarrow> x = y"
    and cmp_total: "valid x \<Longrightarrow> valid y \<Longrightarrow> 0 < cmp x y \<Longrightarrow> cmp y x \<le> 0"
    and cmp_trans: "valid x \<Longrightarrow> valid y \<Longrightarrow> valid z \<Longrightarrow> cmp x y \<le> 0 \<Longrightarrow> cmp y z \<le> 0 \<Longrightarrow> cmp x z \<le> 0"
begin

definition le :: "'a \<Rightarrow> 'a \<Rightarrow> bool" where
  "le x y = (cmp x y \<le> 0)"

lemma le_refl: "le x x"
  by (simp add: le_def cmp_refl)

lemma le_trans: "valid x \<Longrightarrow> valid y \<Longrightarrow> valid z \<Longrightarrow> le x y \<Longrightarrow> le y z \<Longrightarrow> le x z"
  unfolding le_def by (rule cmp_trans)

text \<open>Sorted lists with the same elements are equal.\<close>

lemma sorted_unique:
  "mset xs = mset ys \<Longrightarrow> sorted_wrt le xs \<Longrightarrow> sorted_wrt le ys \<Longrightarrow> \<forall>x \<in> set xs. valid x \<Longrightarrow> xs = ys"
proof (induction xs arbitrary: ys)
  case (Cons x xs)
  then obtain y ys' where ys: "ys = y # ys'" by (cases ys) auto
  have valid: "\<forall>z \<in> set (y # ys'). valid z" using Cons.prems(1,4) ys by (metis set_mset_mset)
  have "x \<in> set (y # ys')" "y \<in> set (x # xs)" using Cons.prems(1) ys by (metis list.set_intros(1) set_mset_mset)+
  then have "le y x" "le x y" using Cons.prems(2,3) ys le_refl by auto
  then have "x = y" using cmp_antisym [of x y] Cons.prems(4) valid by (auto simp: le_def)
  then show ?case using Cons ys by simp
qed simp

end

definition cstring :: "string \<Rightarrow> bool" where
  "cstring s = (CHR 0x00 \<notin> set s)"

lemma of_char_int_inj [simp]: "(of_char c :: int) = of_char d \<longleftrightarrow> c = d"
  by simp

lemma of_char_pos: "c \<noteq> CHR 0x00 \<Longrightarrow> 0 < (of_char c :: int)"
proof -
  assume "c \<noteq> CHR 0x00"
  then have "(of_char c :: int) \<noteq> of_char (CHR 0x00)" using of_char_int_inj by blast
  moreover have "0 \<le> (of_char c :: int)" by (cases c) simp
  ultimately show ?thesis by simp
qed

lemma strcmp_refl [simp]: "strcmp s s = 0"
  by (induction s) auto

lemma strcmp_0: "cstring s \<Longrightarrow> cstring t \<Longrightarrow> strcmp s t = 0 \<longleftrightarrow> s = t"
proof (induction s t rule: strcmp.induct)
  case (2 d t)
  then show ?case using of_char_pos [of d] by (auto simp: cstring_def)
next
  case (3 c s)
  then show ?case using of_char_pos [of c] by (auto simp: cstring_def)
qed (auto simp: cstring_def)

lemma strcmp_swap: "strcmp t s = - strcmp s t"
  by (induction s t rule: strcmp.induct) auto

lemma strcmp_trans:
  "cstring s \<Longrightarrow> cstring t \<Longrightarrow> cstring u \<Longrightarrow> strcmp s t \<le> 0 \<Longrightarrow> strcmp t u \<le> 0 \<Longrightarrow> strcmp s u \<le> 0"
proof (induction s t arbitrary: u rule: strcmp.induct)
  case (2 d t)
  then show ?case by (cases u) (auto simp: less_imp_le of_char_pos cstring_def)
next
  case (3 c s)
  then show ?case using of_char_pos [of c] by (auto simp: cstring_def)
next
  case (4 c s d t)
  show ?case
  proof (cases u)
    case Nil
    then show ?thesis using 4 of_char_pos [of d] by (auto simp: cstring_def)
  next
    case (Cons e v)
    then show ?thesis using 4 by (auto simp: cstring_def split: if_splits)
  qed
qed auto

interpretation str_order: cmp_order strcmp cstring
proof unfold_locales
  fix x y z :: string
  show "strcmp x x = 0" by simp
  show "cstring x \<Longrightarrow> cstring y \<Longrightarrow> strcmp x y \<le> 0 \<Longrightarrow> strcmp y x \<le> 0 \<Longrightarrow> x = y"
    using strcmp_swap [of y x] strcmp_0 [of x y] by simp
  show "0 < strcmp x y \<Longrightarrow> strcmp y x \<le> 0" using strcmp_swap [of y x] by simp
  show "cstring x \<Longrightarrow> cstring y \<Longrightarrow> cstring z \<Longrightarrow> strcmp x y \<le> 0 \<Longrightarrow> strcmp y z \<le> 0 \<Longrightarrow> strcmp x z \<le> 0"
    by (rule strcmp_trans)
qed

abbreviation str_le :: "string \<Rightarrow> string \<Rightarrow> bool" where
  "str_le \<equiv> str_order.le"

lemma str_le_def: "str_le s t \<longleftrightarrow> strcmp s t \<le> 0"
  by (simp add: str_order.le_def)

section \<open>The exchange sort\<close>

lemma swap_mset: "i < length xs \<Longrightarrow> j < length xs \<Longrightarrow> mset (xs[i := xs ! j, j := xs ! i]) = mset xs"
  by (simp add: mset_swap)

lemma exchange_inner_mset: "i < j \<Longrightarrow> mset (exchange_inner i j xs) = mset xs"
proof (induction i j xs rule: exchange_inner.induct)
  case (1 i j xs)
  show ?case
  proof (cases "j < length xs")
    case True
    then have "mset (exchange_inner i j xs) = mset (if strcmp (xs ! i) (xs ! j) > 0
        then xs[i := xs ! j, j := xs ! i] else xs)"
      using 1 by (simp add: exchange_inner.simps [of i j xs])
    then show ?thesis using True 1(2) swap_mset [of i xs j] by simp
  qed (simp add: exchange_inner.simps [of i j xs])
qed

lemma exchange_inner_prefix: "i < j \<Longrightarrow> k < i \<Longrightarrow> exchange_inner i j xs ! k = xs ! k"
proof (induction i j xs rule: exchange_inner.induct)
  case (1 i j xs)
  then show ?case by (cases "j < length xs") (simp_all add: exchange_inner.simps [of i j xs])
qed

text \<open>After the inner loop, position \<open>i\<close> holds a least element of the rest.\<close>

lemma exchange_inner_least:
  assumes "i < j" and "j \<le> length xs" and "\<forall>x \<in> set xs. cstring x"
    and "\<forall>k. i \<le> k \<and> k < j \<longrightarrow> str_le (xs ! i) (xs ! k)"
  shows "\<forall>k. i \<le> k \<and> k < length xs \<longrightarrow> str_le (exchange_inner i j xs ! i) (exchange_inner i j xs ! k)"
  using assms
proof (induction i j xs rule: exchange_inner.induct)
  case (1 i j xs)
  show ?case
  proof (cases "j < length xs")
    case False
    then show ?thesis using 1(3,5) by (subst (1 2) exchange_inner.simps) simp
  next
    case True
    define ys where "ys = (if strcmp (xs ! i) (xs ! j) > 0 then xs[i := xs ! j, j := xs ! i] else xs)"
    have len: "length ys = length xs" by (simp add: ys_def)
    have v: "cstring (xs ! k)" if "k < length xs" for k using that 1(4) by simp
    have "mset ys = mset xs" using swap_mset [of i xs j] True 1(2) by (simp add: ys_def)
    then have valid: "\<forall>x \<in> set ys. cstring x" using 1(4) by (metis set_mset_mset)
    have least: "str_le (ys ! i) (ys ! k)" if "i \<le> k" "k < Suc j" for k
    proof (cases "strcmp (xs ! i) (xs ! j) > 0")
      case gt: True
      have ji: "str_le (xs ! j) (xs ! i)" using gt str_order.cmp_total v True 1(2) by (auto simp: str_le_def)
      have "str_le (xs ! j) (xs ! k)" if "i \<le> k" "k < j"
        using str_order.le_trans [OF _ _ _ ji, of "xs ! k"] 1(5) that v True 1(2) by auto
      then show ?thesis using gt that True 1(2) ji str_order.le_refl
        by (cases "k = j"; cases "k = i") (auto simp: ys_def less_Suc_eq)
    next
      case False
      then show ?thesis using that 1(5) by (auto simp: ys_def less_Suc_eq str_le_def)
    qed
    then have "\<forall>k. i \<le> k \<and> k < length xs \<longrightarrow>
        str_le (exchange_inner i (j + 1) ys ! i) (exchange_inner i (j + 1) ys ! k)"
      using 1(1) [OF True] True valid 1(2) len unfolding ys_def by simp
    then show ?thesis using True by (simp add: exchange_inner.simps [of i j xs] ys_def)
  qed
qed

lemma exchange_outer_mset: "mset (exchange_outer i xs) = mset xs"
proof (induction i xs rule: exchange_outer.induct)
  case (1 i xs)
  then show ?case by (subst exchange_outer.simps) (simp add: exchange_inner_mset)
qed

text \<open>The first \<open>i\<close> positions are final: sorted, and not above any later element.\<close>

definition settled :: "nat \<Rightarrow> string list \<Rightarrow> bool" where
  "settled i xs = (\<forall>k l. k < i \<and> k < l \<and> l < length xs \<longrightarrow> str_le (xs ! k) (xs ! l))"

lemma exchange_inner_settled:
  assumes "settled i xs" and "i < length xs" and "\<forall>x \<in> set xs. cstring x"
  shows "settled (Suc i) (exchange_inner i (Suc i) xs)"
proof -
  let ?ys = "exchange_inner i (Suc i) xs"
  have pre: "take i ?ys = take i xs"
    by (rule nth_equalityI) (simp_all add: exchange_inner_prefix)
  have "mset (take i ?ys @ drop i ?ys) = mset (take i xs @ drop i xs)"
    by (simp add: exchange_inner_mset)
  then have "mset (drop i ?ys) = mset (drop i xs)" unfolding mset_append by (simp add: pre)
  then have rest: "set (drop i ?ys) = set (drop i xs)" by (metis set_mset_mset)
  have "str_le (?ys ! k) (?ys ! l)" if k: "k < i" "k < l" "l < length xs" for k l
  proof (cases "l < i")
    case True
    then show ?thesis using assms(1) k by (simp add: settled_def exchange_inner_prefix)
  next
    case False
    then have "?ys ! l \<in> set (drop i ?ys)"
      using k by (auto simp: in_set_conv_nth intro!: exI [of _ "l - i"])
    then obtain m where "m < length xs - i" "?ys ! l = xs ! (i + m)"
      unfolding rest by (auto simp: in_set_conv_nth)
    then show ?thesis using assms(1) k by (simp add: settled_def exchange_inner_prefix)
  qed
  moreover have "str_le (?ys ! i) (?ys ! l)" if "i < l" "l < length xs" for l
  proof -
    have "\<forall>k. i \<le> k \<and> k < Suc i \<longrightarrow> str_le (xs ! i) (xs ! k)"
      using str_order.le_refl by (metis le_antisym less_Suc_eq_le)
    then show ?thesis using exchange_inner_least [of i "Suc i" xs] assms(2,3) that by simp
  qed
  ultimately show ?thesis by (auto simp: settled_def less_Suc_eq)
qed

lemma exchange_outer_sorted:
  "settled i xs \<Longrightarrow> \<forall>x \<in> set xs. cstring x \<Longrightarrow> sorted_wrt str_le (exchange_outer i xs)"
proof (induction i xs rule: exchange_outer.induct)
  case (1 i xs)
  show ?case
  proof (cases "i < length xs - 1")
    case True
    have "mset (exchange_inner i (Suc i) xs) = mset xs" by (simp add: exchange_inner_mset)
    then have "\<forall>x \<in> set (exchange_inner i (Suc i) xs). cstring x" using 1(3) by (metis set_mset_mset)
    then show ?thesis using 1(1) [OF True] True exchange_inner_settled [OF 1(2) _ 1(3)]
      by (subst exchange_outer.simps) simp
  next
    case False
    have "sorted_wrt str_le xs"
      unfolding sorted_wrt_iff_nth_less
    proof (intro allI impI)
      fix k l assume "k < l" "l < length xs"
      then show "str_le (xs ! k) (xs ! l)" using 1(2) False by (simp add: settled_def)
    qed
    then show ?thesis using False by (subst exchange_outer.simps) simp
  qed
qed

lemma exchange_sort:
  assumes "\<forall>x \<in> set xs. cstring x"
  shows "sorted_wrt str_le (exchange_outer 0 xs)" and "mset (exchange_outer 0 xs) = mset xs"
  using assms exchange_outer_sorted [of 0 xs] exchange_outer_mset by (auto simp: settled_def)

lemma exchange_sort_unique:
  assumes "\<forall>x \<in> set xs. cstring x" and "mset xs = mset ys"
  shows "exchange_outer 0 xs = exchange_outer 0 ys"
proof (rule str_order.sorted_unique)
  have ys: "\<forall>x \<in> set ys. cstring x" using assms by (metis set_mset_mset)
  show "mset (exchange_outer 0 xs) = mset (exchange_outer 0 ys)" using assms(2) by (simp add: exchange_outer_mset)
  show "sorted_wrt str_le (exchange_outer 0 xs)" "sorted_wrt str_le (exchange_outer 0 ys)"
    using exchange_sort assms(1) ys by auto
  have "set (exchange_outer 0 xs) = set xs" using exchange_sort(2) [OF assms(1)] by (metis set_mset_mset)
  then show "\<forall>x \<in> set (exchange_outer 0 xs). cstring x" using assms(1) by simp
qed

section \<open>Join keys\<close>

lemma bms_members_eq: "bms_members a = Inr (map int (sorted_list_of_set (bms_set a)))"
proof -
  have "card (bms_set a) \<le> (case a of None \<Rightarrow> 0 | Some ws \<Rightarrow> 64 * length ws)"
  proof (cases a)
    case (Some ws)
    have "card (words_set ws) \<le> card {..<64 * length ws}"
      by (rule card_mono) (auto dest: words_set_bound)
    then show ?thesis using Some by simp
  qed simp
  then show ?thesis unfolding bms_members_def by (intro bms_it.next_loop_members) simp
qed

fun comma_sep :: "bool \<Rightarrow> string list \<Rightarrow> string" where
  "comma_sep first [] = []"
| "comma_sep first (alias # aliases) = (if first then [] else '','') @ alias @ comma_sep False aliases"

lemma concat_aliases_eq:
  "length key < n \<Longrightarrow> concat_aliases n first aliases key =
    (if length key + length (comma_sep first aliases) < n then Inr (key @ comma_sep first aliases)
     else Inl (Undefined ''write past key''))"
proof (induction aliases arbitrary: first key)
  case (Cons a as)
  let ?key = "if first then key else key @ '',''"
  show ?case
  proof (cases "length (?key @ a) < n")
    case True
    then have "concat_aliases n first (a # as) key = concat_aliases n False as (?key @ a)"
      by (auto simp: strcat_def)
    then show ?thesis using Cons.IH [OF True, of False] by auto
  next
    case False
    then show ?thesis by (auto simp: strcat_def)
  qed
qed simp

text \<open>The key of a set of relations.\<close>

definition key_aliases :: "PlannerInfo \<Rightarrow> nat set \<Rightarrow> string list" where
  "key_aliases pinfo A = collect_aliases pinfo (map int (sorted_list_of_set A))"

definition set_key :: "PlannerInfo \<Rightarrow> nat set \<Rightarrow> string" where
  "set_key pinfo A = ''{'' @ comma_sep True (exchange_outer 0 (key_aliases pinfo A)) @ ''}''"

lemma join_to_key_eq:
  assumes "1 < n"
  shows "join_to_key pinfo inner_rel outer_rel n =
    (let A = bms_set (relids inner_rel) \<union> bms_set (relids outer_rel) in
     if length (key_aliases pinfo A) > JOIN_EST_MAX_ENTRIES then Inl (Undefined ''write past aliases'')
     else if length (set_key pinfo A) < n then Inr (set_key pinfo A) else Inl (Undefined ''write past key''))"
  using assms
  by (simp add: join_to_key_def bms_members_eq bms_union_set key_aliases_def set_key_def Let_def
      concat_aliases_eq strcat_def)

text \<open>
  C32: The injected estimate of a join depends only on the set of joined relations.  Whichever
  pair of component relations a join relation is built from, and in either order of inner and
  outer side, the planner computes the same key, the same row count or error and the same
  following state.
\<close>

theorem injected_estimate_by_relation_set:
  assumes "bms_equal (bms_union (relids outer1) (relids inner1)) (bms_union (relids outer2) (relids inner2))"
  shows "inject_join_estimate pc pinfo outer1 inner1 st = inject_join_estimate pc pinfo outer2 inner2 st"
proof -
  have "bms_set (relids inner1) \<union> bms_set (relids outer1) = bms_set (relids inner2) \<union> bms_set (relids outer2)"
    using assms by (simp add: bms_equal_iff bms_union_set Un_commute)
  then have "join_to_key pinfo inner1 outer1 JOIN_EST_KEY_MAX = join_to_key pinfo inner2 outer2 JOIN_EST_KEY_MAX"
    by (simp add: join_to_key_eq JOIN_EST_KEY_MAX_def)
  then show ?thesis unfolding inject_join_estimate_def by (simp only:)
qed

definition sample_rel :: "bitmapset \<Rightarrow> RelOptInfo" where
  "sample_rel a = \<lparr>relids = a, relid = 0, rows = 1, tuples = 1, baserestrictinfo = [],
     baserestrictcost = (0, 0), width = 0\<rparr>"

definition sample_pinfo :: PlannerInfo where
  "sample_pinfo = \<lparr>simple_rte_array = [None, Some \<lparr>eref = Some ''Users''\<rparr>, Some \<lparr>eref = Some ''badges''\<rparr>],
     simple_rel_array = [], fkey_list = []\<rparr>"

definition sample_calls :: planner_calls where
  "sample_calls = \<lparr>clauselist_selectivity = (\<lambda>clauses _ _. if clauses = [] then 1 else 1 / 2),
     cost_qual_eval = (\<lambda>_. (0, 0)), set_rel_width = (\<lambda>rel. rel), call_scan = (\<lambda>s. [real (length s)]),
     call_atof = (\<lambda>s. real (length s)), call_files = (\<lambda>_. Some [])\<rparr>"

theorem injected_estimate_by_relation_set_witness:
  "inject_join_estimate sample_calls sample_pinfo (sample_rel (Some [6])) (sample_rel (Some [8])) initial_state =
   inject_join_estimate sample_calls sample_pinfo (sample_rel (Some [10, 0])) (sample_rel (Some [4])) initial_state"
  by (rule injected_estimate_by_relation_set) (simp add: sample_rel_def bms_union_def bms_equal_def)

lemma cstring_map_tolower: "cstring s \<Longrightarrow> cstring (map tolower s)"
proof -
  have t: "tolower c \<noteq> CHR 0x00" if "c \<noteq> CHR 0x00" for c
  proof
    assume "tolower c = CHR 0x00"
    then have "(of_char (tolower c) :: int) = 0" by simp
    moreover have "0 < (of_char (tolower c) :: int)"
    proof (cases "65 \<le> (of_char c :: nat) \<and> (of_char c :: nat) \<le> 90")
      case True
      then have "(of_char (tolower c) :: nat) = of_char c + 32" by (simp add: tolower_def take_bit_nat_eq_self)
      then have "0 < (of_char (tolower c) :: nat)" by simp
      then show ?thesis by (metis of_nat_0_less_iff of_nat_of_char)
    next
      case False
      then show ?thesis using of_char_pos [OF that] by (auto simp: tolower_def)
    qed
    ultimately show False by simp
  qed
  show "cstring s \<Longrightarrow> cstring (map tolower s)"
    unfolding cstring_def by (metis imageE list.set_map t)
qed

definition aliases_ok :: "PlannerInfo \<Rightarrow> bool" where
  "aliases_ok pinfo = (\<forall>rte alias. Some rte \<in> set (simple_rte_array pinfo) \<longrightarrow> eref rte = Some alias \<longrightarrow> cstring alias)"

lemma collect_aliases_cstring:
  "aliases_ok pinfo \<Longrightarrow> \<forall>x \<in> set xs. 0 \<le> x \<Longrightarrow> s \<in> set (collect_aliases pinfo xs) \<Longrightarrow> cstring s"
proof (induction xs)
  case (Cons x xs)
  show ?case
  proof (cases "s \<in> set (collect_aliases pinfo xs)")
    case True
    then show ?thesis using Cons by simp
  next
    case False
    then obtain rte al where r: "rte_at pinfo x = Some rte" "eref rte = Some al"
      "s = map tolower (take (NAMEDATALEN - 1) al)"
      using Cons.prems(3) by (auto split: option.splits)
    then have "Some rte \<in> set (simple_rte_array pinfo)"
      using Cons.prems(2) by (auto simp: rte_at_def split: if_splits) (metis nat_less_iff nth_mem)
    then have "cstring (take (NAMEDATALEN - 1) al)"
      using Cons.prems(1) r(2) by (auto simp: aliases_ok_def cstring_def dest: in_set_takeD)
    then show ?thesis using r(3) cstring_map_tolower by simp
  qed
qed simp

lemma key_aliases_cstring: "aliases_ok pinfo \<Longrightarrow> \<forall>s \<in> set (key_aliases pinfo A). cstring s"
  unfolding key_aliases_def using collect_aliases_cstring by force

text \<open>
  C33: The key of a join is canonical: \<open>{a1,...,an}\<close> with the lower-case aliases (cut to 63
  characters) of all base relations of the join in \<open>strcmp\<close> order.  The key is produced exactly if
  it fits in the 256 bytes of the buffers of the callers; a longer key has no defined result,
  since \<open>join_to_key\<close> does not look at \<open>key_size\<close>.
\<close>

theorem join_to_key_canonical:
  assumes "aliases_ok pinfo"
    and "A = bms_set (relids inner_rel) \<union> bms_set (relids outer_rel)"
    and "length (key_aliases pinfo A) \<le> JOIN_EST_MAX_ENTRIES"
  shows "\<exists>as. sorted_wrt (\<lambda>s t. strcmp s t \<le> 0) as \<and> mset as = mset (key_aliases pinfo A) \<and>
    join_to_key pinfo inner_rel outer_rel JOIN_EST_KEY_MAX =
      (let key = ''{'' @ comma_sep True as @ ''}'' in
       if length key < JOIN_EST_KEY_MAX then Inr key else Inl (Undefined ''write past key''))"
proof -
  have c: "\<forall>s \<in> set (key_aliases pinfo A). cstring s" using key_aliases_cstring assms(1) by blast
  have "str_le = (\<lambda>s t. strcmp s t \<le> 0)" by (intro ext) (simp add: str_le_def)
  then show ?thesis using exchange_sort [OF c] assms(2,3)
    by (intro exI [of _ "exchange_outer 0 (key_aliases pinfo A)"])
      (simp add: join_to_key_eq JOIN_EST_KEY_MAX_def set_key_def)
qed

lemma length_collect_aliases: "length (collect_aliases pinfo xs) \<le> length xs"
  by (induction xs) (auto split: option.split)

lemma length_key_aliases: "finite A \<Longrightarrow> length (key_aliases pinfo A) \<le> card A"
  using length_collect_aliases [of pinfo "map int (sorted_list_of_set A)"] by (simp add: key_aliases_def)

theorem join_to_key_canonical_witness:
  "\<exists>as. sorted_wrt (\<lambda>s t. strcmp s t \<le> 0) as \<and>
    mset as = mset (key_aliases sample_pinfo (bms_set (Some [4]) \<union> bms_set (Some [2]))) \<and>
    join_to_key sample_pinfo (sample_rel (Some [4])) (sample_rel (Some [2])) JOIN_EST_KEY_MAX =
      (let key = ''{'' @ comma_sep True as @ ''}'' in
       if length key < JOIN_EST_KEY_MAX then Inr key else Inl (Undefined ''write past key''))"
proof (rule join_to_key_canonical)
  let ?A = "bms_set (Some [4]) \<union> bms_set (Some [2])"
  show "aliases_ok sample_pinfo" by (auto simp: aliases_ok_def sample_pinfo_def cstring_def)
  have "?A \<subseteq> {..<64}" using words_set_bound [of _ "[4]"] words_set_bound [of _ "[2]"] by auto
  then have "card ?A \<le> 64" using card_mono [of "{..<64}" ?A] by simp
  then show "length (key_aliases sample_pinfo ?A) \<le> JOIN_EST_MAX_ENTRIES"
    using length_key_aliases [of ?A sample_pinfo] by (simp add: JOIN_EST_MAX_ENTRIES_def)
qed (simp add: sample_rel_def)

section \<open>The estimate file\<close>

text \<open>A line of the file for an entry, as the exporting script writes it.\<close>

definition entry_line :: "string \<times> string \<Rightarrow> string" where
  "entry_line kv = fst kv @ CHR 0x09 # snd kv @ [newline]"

definition entry_ok :: "string \<times> string \<Rightarrow> bool" where
  "entry_ok kv = (cstring (fst kv) \<and> CHR 0x09 \<notin> set (fst kv) \<and> newline \<notin> set (fst kv) \<and> newline \<notin> set (snd kv) \<and>
     (fst kv = [] \<or> last (fst kv) \<noteq> CHR 0x0D) \<and> length (fst kv) < JOIN_EST_KEY_MAX \<and>
     length (entry_line kv) < JOIN_EST_KEY_MAX + 64)"

lemma fgets_line: "newline \<notin> set l \<Longrightarrow> length l + 1 < n \<Longrightarrow> fgets n (l @ newline # rest) = l @ [newline]"
  by (induction l arbitrary: n) auto

lemma takeWhile_key: "CHR 0x09 \<notin> set k \<Longrightarrow> takeWhile (\<lambda>c. c \<noteq> CHR 0x09) (k @ CHR 0x09 # r) = k"
  by (induction k) auto

lemma newline_not_tab: "newline \<noteq> CHR 0x09"
  by (simp add: newline_def)

lemma fgets_entry:
  assumes "entry_ok kv"
  shows "fgets (JOIN_EST_KEY_MAX + 64) (entry_line kv @ rest) = entry_line kv"
proof -
  have "newline \<notin> set (fst kv @ CHR 0x09 # snd kv)"
    using assms newline_not_tab by (auto simp: entry_ok_def)
  then show ?thesis using fgets_line [of "fst kv @ CHR 0x09 # snd kv" "JOIN_EST_KEY_MAX + 64" rest] assms
    by (simp add: entry_ok_def entry_line_def)
qed

lemma parse_entry: "entry_ok kv \<Longrightarrow> parse_line atof (entry_line kv) = Some (fst kv, atof (snd kv @ [newline]))"
  by (auto simp: parse_line_def entry_line_def entry_ok_def takeWhile_key Let_def)

lemma join_file_loop_entries:
  "\<forall>kv \<in> set kvs. entry_ok kv \<Longrightarrow> cnt + length kvs \<le> JOIN_EST_MAX_ENTRIES \<Longrightarrow>
    length entries = JOIN_EST_MAX_ENTRIES \<Longrightarrow>
    \<exists>es. join_file_loop atof (concat (map entry_line kvs)) cnt entries = (cnt + length kvs, es) \<and>
      length es = JOIN_EST_MAX_ENTRIES \<and>
      take (cnt + length kvs) es = take cnt entries @ map (\<lambda>kv. (fst kv, atof (snd kv @ [newline]))) kvs"
proof (induction kvs arbitrary: cnt entries)
  case Nil
  then show ?case by (simp add: join_file_loop.simps)
next
  case (Cons kv kvs)
  let ?e = "(fst kv, atof (snd kv @ [newline]))"
  have ok: "entry_ok kv" using Cons.prems(1) by simp
  have ne: "entry_line kv \<noteq> []" by (simp add: entry_line_def)
  have "join_file_loop atof (concat (map entry_line (kv # kvs))) cnt entries =
      join_file_loop atof (concat (map entry_line kvs)) (cnt + 1) (entries[cnt := ?e])"
    using Cons.prems(2) ne fgets_entry [OF ok] parse_entry [OF ok]
    by (subst join_file_loop.simps) (simp add: Let_def)
  moreover obtain es where "join_file_loop atof (concat (map entry_line kvs)) (cnt + 1) (entries[cnt := ?e]) =
        (cnt + 1 + length kvs, es)" "length es = JOIN_EST_MAX_ENTRIES"
      "take (cnt + 1 + length kvs) es = take (cnt + 1) (entries[cnt := ?e]) @
        map (\<lambda>kv. (fst kv, atof (snd kv @ [newline]))) kvs"
    using Cons.IH [of "cnt + 1" "entries[cnt := ?e]"] Cons.prems by auto
  moreover have "take (cnt + 1) (entries[cnt := ?e]) = take cnt entries @ [?e]"
    using Cons.prems(2,3) by (simp add: take_Suc_conv_app_nth)
  ultimately show ?case by (intro exI [of _ es]) simp
qed

lemma lookup_loop_map_of:
  "\<forall>e \<in> set (take n entries). cstring (fst e) \<Longrightarrow> cstring key \<Longrightarrow> n \<le> length entries \<Longrightarrow>
    lookup_loop n entries key = (case map_of (take n entries) key of Some v \<Rightarrow> v | None \<Rightarrow> -1)"
proof (induction n entries key rule: lookup_loop.induct)
  case (3 n k v entries key)
  then show ?case using strcmp_0 [of k key] by auto
qed simp_all

text \<open>
  C34: Loading and looking up join estimates: after a file of at most 2000 lines \<open>key TAB value\<close>,
  with keys shorter than the key field and lines shorter than the line buffer, has been read, a
  lookup returns the value of the first line with that key, and -1 for a key that is not in
  the file; entries of an earlier file are never found.
\<close>

theorem join_estimates_roundtrip:
  assumes "files fname = Some (concat (map entry_line kvs))" and "\<forall>kv \<in> set kvs. entry_ok kv"
    and "length kvs \<le> JOIN_EST_MAX_ENTRIES" and "length (join_est_entries st) = JOIN_EST_MAX_ENTRIES"
    and "cstring key"
  shows "\<exists>st'. read_from_fspn_join_estimate atof files fname st = Inr st' \<and>
    lookup_join_estimate st' key =
      (case map_of kvs key of Some value \<Rightarrow> atof (value @ [newline]) | None \<Rightarrow> -1)"
proof -
  obtain es where es: "join_file_loop atof (concat (map entry_line kvs)) 0 (join_est_entries st) = (length kvs, es)"
    "length es = JOIN_EST_MAX_ENTRIES"
    "take (length kvs) es = map (\<lambda>kv. (fst kv, atof (snd kv @ [newline]))) kvs"
    using join_file_loop_entries [OF assms(2), of 0 "join_est_entries st" atof] assms(3,4) by auto
  let ?st = "st\<lparr>join_est_entries := es, join_est_entry_count := length kvs\<rparr>"
  have "read_from_fspn_join_estimate atof files fname st = Inr ?st"
    by (simp add: read_from_fspn_join_estimate_def assms(1) es(1))
  moreover have "\<forall>e \<in> set (take (length kvs) es). cstring (fst e)"
    using assms(2) by (auto simp: es(3) entry_ok_def)
  then have "lookup_join_estimate ?st key =
      (case map_of (take (length kvs) es) key of Some v \<Rightarrow> v | None \<Rightarrow> -1)"
    using assms(3,5) es(2) by (simp add: lookup_join_estimate_def lookup_loop_map_of)
  moreover have "map_of (map (\<lambda>kv. (fst kv, atof (snd kv @ [newline]))) kvs) key =
      map_option (\<lambda>value. atof (value @ [newline])) (map_of kvs key)"
    by (induction kvs) auto
  ultimately show ?thesis by (intro exI [of _ ?st]) (simp add: es(3) split: option.split)
qed

theorem join_estimates_roundtrip_witness:
  "\<exists>st'. read_from_fspn_join_estimate (\<lambda>s. real (length s)) [''est.txt'' \<mapsto> concat (map entry_line [(''{a,b}'', ''120'')])]
      ''est.txt'' initial_state = Inr st' \<and>
    lookup_join_estimate st' ''{a,b}'' =
      (case map_of [(''{a,b}'', ''120'')] ''{a,b}'' of Some value \<Rightarrow> real (length (value @ [newline])) | None \<Rightarrow> -1)"
  by (rule join_estimates_roundtrip)
    (simp_all add: entry_ok_def entry_line_def cstring_def newline_def JOIN_EST_KEY_MAX_def
      JOIN_EST_MAX_ENTRIES_def initial_state_def)

end
