(* ===== verification/CardInject_Sizes.thy ===== *)
theory CardInject_Sizes
  imports CardInject_Keys
begin

text \<open>
  Row counts: rounding and clamping, the order in which base relations consume the estimates of
  the file, the bounds of the join size formulas and of the foreign-key selectivity, and the
  effect of the injection on them.
\<close>

section \<open>Rounding\<close>

lemma rint_Ints: "rint x \<in> \<int>"
  by (simp add: rint_def Let_def)

lemma rint_near: "\<bar>rint x - x\<bar> \<le> 1 / 2"
proof -
  define f where "f = \<lfloor>x\<rfloor>"
  have "of_int f \<le> x" "x < of_int f + 1" by (simp_all add: f_def)
  then show ?thesis by (auto simp: rint_def Let_def abs_le_iff simp flip: f_def)
qed

lemma rint_of_int: "rint (of_int n) = of_int n"
  by (simp add: rint_def)

lemma rint_mono:
  assumes "x \<le> y"
  shows "rint x \<le> rint y"
proof (cases "\<lfloor>x\<rfloor> = \<lfloor>y\<rfloor>")
  case True
  then show ?thesis using assms by (auto simp: rint_def Let_def)
next
  case False
  have "\<lfloor>x\<rfloor> + 1 \<le> \<lfloor>y\<rfloor>" using False floor_mono [OF assms] by simp
  then have "rint x \<le> of_int \<lfloor>y\<rfloor>" by (auto simp: rint_def Let_def)
  also have "\<dots> \<le> rint y" by (auto simp: rint_def Let_def)
  finally show ?thesis .
qed

lemma rint_Int: "x \<in> \<int> \<Longrightarrow> rint x = x"
  by (auto elim!: Ints_cases simp: rint_of_int)

lemma clamp_ge_1: "1 \<le> clamp_row_est x"
  using rint_mono [of 1 x] rint_of_int [of 1] by (simp add: clamp_row_est_def)

lemma clamp_Ints: "clamp_row_est x \<in> \<int>"
  by (simp add: clamp_row_est_def rint_Ints)

lemma clamp_mono: "x \<le> y \<Longrightarrow> clamp_row_est x \<le> clamp_row_est y"
  using clamp_ge_1 [of y] rint_mono [of x y] by (auto simp: clamp_row_est_def)

lemma clamp_id: "x \<in> \<int> \<Longrightarrow> 1 \<le> x \<Longrightarrow> clamp_row_est x = x"
  by (auto simp: clamp_row_est_def rint_Int)

text \<open>
  \<open>clamp_row_est\<close> yields a sane row count: a whole number of at least one row, within half a
  row of any estimate of at least one row, unchanged by clamping again, and monotone in the estimate.
\<close>

theorem clamp_row_est_sane:
  "1 \<le> clamp_row_est x \<and> clamp_row_est x \<in> \<int> \<and> (1 \<le> x \<longrightarrow> \<bar>clamp_row_est x - x\<bar> \<le> 1 / 2) \<and>
   clamp_row_est (clamp_row_est x) = clamp_row_est x \<and> (x \<le> y \<longrightarrow> clamp_row_est x \<le> clamp_row_est y)"
proof -
  have "\<bar>clamp_row_est x - x\<bar> \<le> 1 / 2" if "1 \<le> x"
    using that rint_near [of x] by (auto simp: clamp_row_est_def)
  then show ?thesis using clamp_ge_1 clamp_Ints clamp_mono clamp_id by blast
qed

theorem clamp_row_est_sane_witness:
  "(1::real) \<le> 5 / 2 \<and> \<bar>clamp_row_est (5 / 2) - 5 / 2\<bar> \<le> 1 / 2 \<and> clamp_row_est (5 / 2) \<le> clamp_row_est 3"
  using clamp_row_est_sane [of "5 / 2" 3] by simp

section \<open>Base relations\<close>

lemma store_estimates_ok:
  "n + length scan \<le> length ests \<Longrightarrow>
    store_estimates scan n ests = Inr (take n ests @ scan @ drop (n + length scan) ests)"
proof (induction scan arbitrary: n ests)
  case (Cons x scan)
  have "take (Suc n) (ests[n := x]) = take n ests @ [x]"
    using Cons.prems by (simp add: take_Suc_conv_app_nth)
  then show ?case using Cons by simp
qed simp

lemma store_estimates_overflow:
  "length ests < n + length scan \<Longrightarrow> n \<le> length ests \<Longrightarrow>
    store_estimates scan n ests = Inl (Undefined ''write past card_ests'')"
  by (induction scan arbitrary: n ests) auto

text \<open>Estimate a sequence of base relations one after the other.\<close>

fun estimate_baserels :: "planner_calls \<Rightarrow> RelOptInfo list \<Rightarrow> inject_state \<Rightarrow> (inject_state \<times> RelOptInfo list) res" where
  "estimate_baserels pc [] st = Inr (st, [])"
| "estimate_baserels pc (rel # rels) st = res_bind (set_baserel_size_estimates pc rel st)
     (\<lambda>(st, rel). res_map (\<lambda>(st, rels). (st, rel # rels)) (estimate_baserels pc rels st))"

definition keeps_rows :: "planner_calls \<Rightarrow> bool" where
  "keeps_rows pc = (\<forall>rel. rows (set_rel_width pc rel) = rows rel)"

text \<open>How far the query number moves for one base relation.\<close>

definition query_step :: "inject_state \<Rightarrow> nat" where
  "query_step st = (if print_single_tbl_queries st then 2 else 1)"

lemma baserel_step:
  assumes "ml_cardest_enabled st" and "0 < query_no st" and "query_no st < CARD_EST_QUERY_NUM" and "keeps_rows pc"
  shows "\<exists>rel'. set_baserel_size_estimates pc rel st = Inr (st\<lparr>query_no := query_no st + query_step st\<rparr>, rel') \<and>
    rows rel' = clamp_row_est (card_ests st ! query_no st)"
  using assms by (simp add: set_baserel_size_estimates_def Let_def query_step_def keeps_rows_def)

lemma estimate_baserels_later:
  "ml_cardest_enabled st \<Longrightarrow> 0 < query_no st \<Longrightarrow>
    query_no st + query_step st * length rels \<le> CARD_EST_QUERY_NUM \<Longrightarrow> keeps_rows pc \<Longrightarrow>
    \<exists>rels'. estimate_baserels pc rels st = Inr (st\<lparr>query_no := query_no st + query_step st * length rels\<rparr>, rels') \<and>
      map rows rels' = map (\<lambda>i. clamp_row_est (card_ests st ! (query_no st + query_step st * i))) [0..<length rels]"
proof (induction rels arbitrary: st)
  case (Cons rel rels)
  let ?st = "st\<lparr>query_no := query_no st + query_step st\<rparr>"
  have step: "query_step ?st = query_step st" by (simp add: query_step_def)
  have pos: "0 < query_step st" by (simp add: query_step_def)
  obtain rel' where rel': "set_baserel_size_estimates pc rel st = Inr (?st, rel')"
    "rows rel' = clamp_row_est (card_ests st ! query_no st)"
    using baserel_step [of st pc rel] Cons.prems pos by auto
  obtain rels' where "estimate_baserels pc rels ?st = Inr (?st\<lparr>query_no := query_no ?st + query_step st * length rels\<rparr>, rels')"
    "map rows rels' = map (\<lambda>i. clamp_row_est (card_ests st ! (query_no ?st + query_step st * i))) [0..<length rels]"
    using Cons.IH [of ?st] Cons.prems step by (auto simp: algebra_simps)
  moreover have "[0..<length (rel # rels)] = 0 # map Suc [0..<length rels]"
    by (simp add: map_Suc_upt upt_conv_Cons del: upt_Suc)
  ultimately show ?case using rel' by (auto simp: algebra_simps)
qed simp

text \<open>
  C35: Base relations get the estimates of the file in order.  With the injection for base
  relations enabled and \<open>query_no\<close> at 0, the file is read at the first base relation, and the
  i-th base relation gets the i-th number of the file, clamped, as its row count; with
  \<open>print_single_tbl_queries\<close> also enabled, \<open>print_single_rel\<close> advances the same counter, so every
  second number is skipped.
\<close>

theorem baserel_estimates_in_order:
  assumes "ml_cardest_enabled st" and "query_no st = 0" and "length (card_ests st) = CARD_EST_QUERY_NUM"
    and "call_files pc (ml_cardest_fname st) = Some input"
    and "length (call_scan pc input) \<le> CARD_EST_QUERY_NUM"
    and "query_step st * length rels \<le> length (call_scan pc input)" and "keeps_rows pc"
  shows "\<exists>st' rels'. estimate_baserels pc rels st = Inr (st', rels') \<and> length rels' = length rels \<and>
    (\<forall>i < length rels. rows (rels' ! i) = clamp_row_est (call_scan pc input ! (query_step st * i)))"
proof (cases rels)
  case (Cons rel rest)
  let ?nums = "call_scan pc input"
  define ests where "ests = ?nums @ drop (length ?nums) (card_ests st)"
  let ?st = "st\<lparr>card_ests := ests, query_no := query_step st\<rparr>"
  have step: "query_step ?st = query_step st" "0 < query_step st" by (simp_all add: query_step_def)
  have len: "query_step st + query_step st * length rest \<le> length ?nums" using assms(6) Cons by simp
  have "store_estimates ?nums 0 (card_ests st) = Inr ests"
    using store_estimates_ok [of 0 ?nums "card_ests st"] assms(3,5) by (simp add: ests_def)
  then have "\<exists>rel'. set_baserel_size_estimates pc rel st = Inr (?st, rel') \<and> rows rel' = clamp_row_est (ests ! 0)"
    using assms(1,2,4,7)
    by (simp add: set_baserel_size_estimates_def read_from_fspn_estimate_def Let_def query_step_def keeps_rows_def
        CARD_EST_QUERY_NUM_def)
  then obtain rel' where rel': "set_baserel_size_estimates pc rel st = Inr (?st, rel')"
    "rows rel' = clamp_row_est (ests ! 0)" by blast
  obtain st' rest' where rest': "estimate_baserels pc rest ?st = Inr (st', rest')"
    "map rows rest' = map (\<lambda>i. clamp_row_est (ests ! (query_step st + query_step st * i))) [0..<length rest]"
    using estimate_baserels_later [of ?st rest pc] assms(1,5,7) step len by auto
  have l: "length rest' = length rest" using arg_cong [OF rest'(2), of length] by simp
  have nums: "ests ! k = ?nums ! k" if "k < length ?nums" for k using that by (simp add: ests_def nth_append)
  have "rows ((rel' # rest') ! i) = clamp_row_est (?nums ! (query_step st * i))" if "i < length rels" for i
  proof (cases i)
    case 0
    have "0 < length ?nums" using len step(2) by linarith
    then show ?thesis using 0 rel'(2) nums [of 0] by simp
  next
    case (Suc j)
    then have j: "j < length rest" using that Cons by simp
    have "rows (rest' ! j) = clamp_row_est (ests ! (query_step st + query_step st * j))"
      using arg_cong [OF rest'(2), of "\<lambda>xs. xs ! j"] j l by simp
    moreover have "query_step st * j < query_step st * length rest" using j step(2) by simp
    ultimately show ?thesis using Suc nums [of "query_step st + query_step st * j"] len by simp
  qed
  then show ?thesis using rel'(1) rest'(1) l Cons
    by (intro exI [of _ st'] exI [of _ "rel' # rest'"]) simp
qed simp

theorem baserel_estimates_in_order_witness:
  "\<exists>st' rels'. estimate_baserels sample_calls [sample_rel None] (initial_state\<lparr>ml_cardest_enabled := True\<rparr>) = Inr (st', rels') \<and>
    length rels' = length [sample_rel None] \<and>
    (\<forall>i < length [sample_rel None]. rows (rels' ! i) =
       clamp_row_est (call_scan sample_calls [] ! (query_step (initial_state\<lparr>ml_cardest_enabled := True\<rparr>) * i)))"
  by (rule baserel_estimates_in_order)
    (simp_all add: initial_state_def sample_calls_def query_step_def keeps_rows_def CARD_EST_QUERY_NUM_def)

section \<open>Foreign keys\<close>

lemma remove_matching_mset:
  "remove_matching fk worklist = (kept, removed) \<Longrightarrow> mset kept + mset removed = mset worklist"
  by (induction worklist arbitrary: kept removed) (auto simp: Let_def split: prod.splits if_splits)

definition rels_sane :: "PlannerInfo \<Rightarrow> bool" where
  "rels_sane pinfo = (\<forall>rel. Some rel \<in> set (simple_rel_array pinfo) \<longrightarrow>
     0 \<le> rows rel \<and> rows rel \<le> max (tuples rel) 1)"

lemma find_base_rel_sane:
  "rels_sane pinfo \<Longrightarrow> 0 \<le> rid \<Longrightarrow> find_base_rel pinfo rid = Inr rel \<Longrightarrow> 0 \<le> rows rel \<and> rows rel \<le> max (tuples rel) 1"
  by (auto simp: find_base_rel_def rels_sane_def split: if_splits option.splits) (metis nat_less_iff nth_mem)+

lemma fk_factor:
  assumes "0 \<le> s" and "s \<le> 1" and "0 \<le> r" and "r \<le> max t (1::real)"
  shows "0 \<le> s * (r / max t 1) \<and> s * (r / max t 1) \<le> 1" and "0 \<le> s * (1 / max t 1) \<and> s * (1 / max t 1) \<le> 1"
proof -
  have "0 \<le> r / max t 1" "r / max t 1 \<le> 1" "0 \<le> 1 / max t 1" "1 / max t 1 \<le> 1"
    using assms(3,4) by (auto simp: divide_le_eq)
  then show "0 \<le> s * (r / max t 1) \<and> s * (r / max t 1) \<le> 1" "0 \<le> s * (1 / max t 1) \<and> s * (1 / max t 1) \<le> 1"
    using assms(1,2) by (simp_all only: mult_nonneg_nonneg mult_le_one simp_thms)
qed

lemma fk_loop_bounds:
  "fk_loop pinfo outer_relids inner_relids jt fks s ws = Inr (s', ws') \<Longrightarrow> rels_sane pinfo \<Longrightarrow>
    \<forall>fk \<in> set fks. 0 \<le> ref_relid fk \<Longrightarrow> 0 \<le> s \<Longrightarrow> s \<le> 1 \<Longrightarrow> 0 \<le> s' \<and> s' \<le> 1 \<and> mset ws' \<subseteq># mset ws"
proof (induction fks arbitrary: s ws)
  case (Cons fk fks)
  obtain c where c: "fk_connects fk outer_relids inner_relids = Inr c"
    using Cons.prems(1) by (cases "fk_connects fk outer_relids inner_relids") auto
  obtain kept removed where rm: "remove_matching fk ws = (kept, removed)" by (cases "remove_matching fk ws")
  have sub: "mset kept \<subseteq># mset ws" "mset (kept @ removed) = mset ws"
    using remove_matching_mset [OF rm] by (metis mset_subset_eq_add_left, simp)
  consider (skip) "fk_loop pinfo outer_relids inner_relids jt fks s ws = Inr (s', ws')"
    | (restored) "fk_loop pinfo outer_relids inner_relids jt fks s (kept @ removed) = Inr (s', ws')"
    | (taken) rel where "find_base_rel pinfo (ref_relid fk) = Inr rel"
        "fk_loop pinfo outer_relids inner_relids jt fks
          (if jt = JOIN_SEMI \<or> jt = JOIN_ANTI then s * (rows rel / max (tuples rel) 1)
           else s * (1 / max (tuples rel) 1)) kept = Inr (s', ws')"
    using Cons.prems(1) c rm by (auto simp: Let_def res_simps split: option.splits if_splits)
  then show ?case
  proof cases
    case skip
    then show ?thesis using Cons by auto
  next
    case restored
    then show ?thesis using Cons.IH [OF restored] Cons.prems sub by auto
  next
    case taken
    have "0 \<le> rows rel \<and> rows rel \<le> max (tuples rel) 1"
      using find_base_rel_sane [OF Cons.prems(2) _ taken(1)] Cons.prems(3) by simp
    then have f: "0 \<le> s * (rows rel / max (tuples rel) 1) \<and> s * (rows rel / max (tuples rel) 1) \<le> 1"
      "0 \<le> s * (1 / max (tuples rel) 1) \<and> s * (1 / max (tuples rel) 1) \<le> 1"
      using fk_factor [of s "rows rel" "tuples rel"] Cons.prems(4,5) by blast+
    have rest: "\<forall>fk \<in> set fks. 0 \<le> ref_relid fk" using Cons.prems(3) by simp
    have "0 \<le> s' \<and> s' \<le> 1 \<and> mset ws' \<subseteq># mset kept"
      by (rule Cons.IH [OF taken(2) Cons.prems(2) rest]) (use f in \<open>simp_all only: simp_thms split: if_split\<close>)
    then show ?thesis using sub(1) subset_mset.order_trans by blast
  qed
qed simp

text \<open>
  The foreign-key selectivity is a fraction and never counts a clause twice: if each base
  relation has at most as many estimated rows as tuples, the factor lies between 0 and 1, and the
  clauses left for the ordinary estimate are a part of the given ones; clauses that were taken
  out for a key that is then ignored come back.
\<close>

theorem foreign_key_selectivity_bounds:
  assumes "get_foreign_key_join_selectivity pinfo outer_relids inner_relids jt clauses = Inr (fkselec, left)"
    and "rels_sane pinfo" and "\<forall>fk \<in> set (fkey_list pinfo). 0 \<le> ref_relid fk"
  shows "0 \<le> fkselec \<and> fkselec \<le> 1 \<and> mset left \<subseteq># mset clauses"
  using fk_loop_bounds [of pinfo outer_relids inner_relids jt "fkey_list pinfo" 1 clauses fkselec left] assms
  by (simp add: get_foreign_key_join_selectivity_def)

theorem foreign_key_selectivity_bounds_witness:
  "get_foreign_key_join_selectivity sample_pinfo None None JOIN_INNER [] = Inr (1, []) \<and> (0::real) \<le> 1 \<and> mset ([]::RestrictInfo list) \<subseteq># mset []"
  using foreign_key_selectivity_bounds [of sample_pinfo None None JOIN_INNER "[]" 1 "[]"]
  by (simp add: get_foreign_key_join_selectivity_def sample_pinfo_def rels_sane_def)

section \<open>Join sizes\<close>

lemma unit_product: "0 \<le> a \<Longrightarrow> 0 \<le> s \<Longrightarrow> s \<le> 1 \<Longrightarrow> a * s \<le> (a::real)"
  by (simp add: mult_left_le)

text \<open>
  The size formulas respect the join type.  With selectivities between 0 and 1 and
  nonnegative inputs, an inner join has at most the product of the input sizes, a semi or anti
  join at most the rows of its outer side, and a left or full join to which no clause is pushed
  down (\<open>pselec\<close> is 1) at least the rows of its outer side, a full join also those of its inner
  side; every other join type is refused.
\<close>

theorem join_rows_by_type:
  assumes "0 \<le> outer_rows" and "0 \<le> inner_rows" and "0 \<le> fkselec" and "fkselec \<le> 1"
    and "0 \<le> jselec" and "jselec \<le> 1" and "0 \<le> pselec" and "pselec \<le> 1"
  shows "case join_rows jt outer_rows inner_rows fkselec jselec pselec of
      Inr nrows \<Rightarrow> 0 \<le> nrows \<and>
        (jt = JOIN_INNER \<longrightarrow> nrows \<le> outer_rows * inner_rows) \<and>
        (jt = JOIN_SEMI \<or> jt = JOIN_ANTI \<longrightarrow> nrows \<le> outer_rows) \<and>
        (jt = JOIN_LEFT \<and> pselec = 1 \<longrightarrow> outer_rows \<le> nrows) \<and>
        (jt = JOIN_FULL \<and> pselec = 1 \<longrightarrow> outer_rows \<le> nrows \<and> inner_rows \<le> nrows)
    | Inl e \<Rightarrow> jt \<in> {JOIN_RIGHT, JOIN_UNIQUE_OUTER, JOIN_UNIQUE_INNER} \<and> e = Elog ''unrecognized join type''"
proof -
  have fj: "0 \<le> fkselec * jselec" "fkselec * jselec \<le> 1"
    using assms by (simp_all add: mult_le_one)
  have inner: "outer_rows * inner_rows * fkselec * jselec \<le> outer_rows * inner_rows"
    "0 \<le> outer_rows * inner_rows * fkselec * jselec"
    using unit_product [of "outer_rows * inner_rows", OF _ fj] assms by (simp_all add: mult.assoc)
  have semi: "outer_rows * fkselec * jselec \<le> outer_rows" "0 \<le> outer_rows * fkselec * jselec"
    using unit_product [OF assms(1) fj] assms by (simp_all add: mult.assoc)
  have a: "0 \<le> outer_rows * (1 - fkselec * jselec)" "outer_rows * (1 - fkselec * jselec) \<le> outer_rows"
    using fj assms(1) by (simp_all add: mult_left_le)
  then have anti: "outer_rows * (1 - fkselec * jselec) * pselec \<le> outer_rows"
    using unit_product [OF a(1) assms(7,8)] by linarith
  show ?thesis using assms inner semi a anti by (cases jt) (simp_all add: join_rows_def Let_def)
qed

theorem join_rows_by_type_witness:
  "join_rows JOIN_SEMI 10 20 1 (1 / 2) 0 = Inr 5 \<and> (5::real) \<le> 10"
  using join_rows_by_type [of 10 20 1 "1 / 2" 0 JOIN_SEMI] by (simp add: join_rows_def)

lemma inject_clamped: "snd (inject_join_estimate pc pinfo o_rel i_rel st) = Inr r \<Longrightarrow> \<exists>x. r = clamp_row_est x"
  by (auto simp: inject_join_estimate_def Let_def split: sum.splits if_splits)

lemma calc_clamped:
  "snd (calc_joinrel_size_estimate pc pinfo jrel o_rel i_rel orows irows jt clauses st) = Inr r \<Longrightarrow> \<exists>x. r = clamp_row_est x"
  by (auto simp: calc_joinrel_size_estimate_def Let_def inject_clamped split: sum.splits prod.splits if_splits)

text \<open>
  C36: Sizes of parameterized paths never exceed the size set for the relation, and an estimate
  for a join relation that is not an error is a whole number of at least one row, with the
  injection on or off.
\<close>

theorem join_estimates_sane:
  assumes "snd (calc_joinrel_size_estimate pc pinfo jrel o_rel i_rel orows irows jt clauses st) = Inr r"
    and "snd (get_parameterized_joinrel_size pc pinfo rel opath ipath jt clauses st) = Inr p"
  shows "1 \<le> r \<and> r \<in> \<int> \<and> p \<le> rows rel \<and> get_parameterized_baserel_size pc rel params \<le> rows rel"
proof -
  obtain x where "r = clamp_row_est x" using calc_clamped [OF assms(1)] by blast
  then have "1 \<le> r" "r \<in> \<int>" by (simp_all add: clamp_ge_1 clamp_Ints)
  moreover have "p \<le> rows rel"
    using assms(2) by (auto simp: get_parameterized_joinrel_size_def res_simps split: prod.splits if_splits)
  moreover have "get_parameterized_baserel_size pc rel params \<le> rows rel"
    by (simp add: get_parameterized_baserel_size_def Let_def)
  ultimately show ?thesis by blast
qed

theorem join_estimates_sane_witness:
  "(1::real) \<le> 1 \<and> (1::real) \<in> \<int> \<and> (1::real) \<le> rows (sample_rel None) \<and>
    get_parameterized_baserel_size sample_calls (sample_rel None) [] \<le> rows (sample_rel None)"
  by (rule join_estimates_sane [of sample_calls sample_pinfo "sample_rel None" "sample_rel None" "sample_rel None"
        1 1 JOIN_INNER "[]" initial_state 1 "sample_rel None" "(sample_rel None, 1)" "(sample_rel None, 1)" 1])
    (simp_all add: calc_joinrel_size_estimate_def get_parameterized_joinrel_size_def
      get_foreign_key_join_selectivity_def sample_pinfo_def join_selectivities_def IS_OUTER_JOIN_def
      sample_calls_def join_rows_def initial_state_def clamp_row_est_def sample_rel_def)

end
