(* ===== verification/Hashfn.thy ===== *)
theory Hashfn
  imports Bitutils
begin

text \<open>
  The hash functions of \<open>src/common/hashfn.c\<close> (Bob Jenkins' hash).  The source has four code
  paths for each of \<open>hash_bytes\<close> and \<open>hash_bytes_extended\<close>: \<open>big\<close> says whether the build
  defines \<open>WORDS_BIGENDIAN\<close>, \<open>aligned\<close> whether the key starts at a multiple of four.  A key is
  the list of its \<open>keylen\<close> bytes; a word-wide fetch \<open>ka[i]\<close> reads four of them in the byte order of
  the machine.  A \<open>switch\<close> that falls through is a chain of conditional updates.

  The lemmas show that \<open>mix\<close> is reversible, that alignment never changes a hash value, and the
  equalities between the functions that callers rely on.
\<close>

unbundle bit_operations_syntax

type_synonym uint32 = "32 word"
type_synonym byte = "8 word"
type_synonym hash_state = "uint32 \<times> uint32 \<times> uint32"

section \<open>Mixing\<close>

definition rot :: "uint32 \<Rightarrow> nat \<Rightarrow> uint32" where
  "rot x k = push_bit k x OR drop_bit (32 - k) x"

text \<open>
  A line of the macro \<open>mix\<close>, \<open>x -= z; x ^= rot(z, k); z += y\<close>; its six lines apply it to the
  three variables in turn.
\<close>

fun mix_line :: "nat \<Rightarrow> hash_state \<Rightarrow> hash_state" where
  "mix_line k (x, y, z) = (let x = x - z; x = x XOR rot z k; z = z + y in (x, y, z))"

fun mix :: "hash_state \<Rightarrow> hash_state" where
  "mix (a, b, c) =
    (let (a, b, c) = mix_line 4 (a, b, c);
         (b, c, a) = mix_line 6 (b, c, a);
         (c, a, b) = mix_line 8 (c, a, b);
         (a, b, c) = mix_line 16 (a, b, c);
         (b, c, a) = mix_line 19 (b, c, a);
         (c, a, b) = mix_line 4 (c, a, b)
     in (a, b, c))"

fun final :: "hash_state \<Rightarrow> hash_state" where
  "final (a, b, c) =
    (let c = c XOR b; c = c - rot b 14;
         a = a XOR c; a = a - rot c 11;
         b = b XOR a; b = b - rot a 25;
         c = c XOR b; c = c - rot b 16;
         a = a XOR c; a = a - rot c 4;
         b = b XOR a; b = b - rot a 14;
         c = c XOR b; c = c - rot b 24
     in (a, b, c))"

declare mix_line.simps [simp del] mix.simps [simp del] final.simps [simp del]

section \<open>Fetching the key\<close>

text \<open>A word-wide load of four bytes from memory.\<close>

definition load32 :: "bool \<Rightarrow> byte list \<Rightarrow> uint32" where
  "load32 big bs = foldr (\<lambda>b acc. ucast b OR push_bit 8 acc) (if big then rev bs else bs) 0"

definition ka :: "bool \<Rightarrow> byte list \<Rightarrow> nat \<Rightarrow> uint32" where
  "ka big k i = load32 big (take 4 (drop (4 * i) k))"

text \<open>\<open>(uint32) k[i] << s\<close>.\<close>

definition sh :: "byte list \<Rightarrow> nat \<Rightarrow> nat \<Rightarrow> uint32" where
  "sh k i s = push_bit s (ucast (k ! i))"

text \<open>The sums by which the path for non-aligned keys builds a word from its bytes.\<close>

definition sum32 :: "bool \<Rightarrow> byte list \<Rightarrow> nat \<Rightarrow> uint32" where
  "sum32 big k i = (if big
     then sh k (i + 3) 0 + sh k (i + 2) 8 + sh k (i + 1) 16 + sh k i 24
     else sh k i 0 + sh k (i + 1) 8 + sh k (i + 2) 16 + sh k (i + 3) 24)"

text \<open>One arm of a \<open>switch (len)\<close>: it is run when \<open>len\<close> is at least its label.\<close>

definition arm :: "nat \<Rightarrow> nat \<Rightarrow> uint32 \<Rightarrow> uint32 \<Rightarrow> uint32" where
  "arm len label v x = (if label \<le> len then x + v else x)"

fun tail_aligned :: "bool \<Rightarrow> byte list \<Rightarrow> hash_state \<Rightarrow> hash_state" where
  "tail_aligned big k (a, b, c) =
    (let len = length k in
     if big then
       (if len \<ge> 8 then
          (a + ka big k 0, b + ka big k 1,
           arm len 9 (sh k 8 24) (arm len 10 (sh k 9 16) (arm len 11 (sh k 10 8) c)))
        else if len \<ge> 4 then
          (a + ka big k 0,
           arm len 5 (sh k 4 24) (arm len 6 (sh k 5 16) (arm len 7 (sh k 6 8) b)), c)
        else
          (arm len 1 (sh k 0 24) (arm len 2 (sh k 1 16) (arm len 3 (sh k 2 8) a)), b, c))
     else
       (if len \<ge> 8 then
          (a + ka big k 0, b + ka big k 1,
           arm len 9 (sh k 8 8) (arm len 10 (sh k 9 16) (arm len 11 (sh k 10 24) c)))
        else if len \<ge> 4 then
          (a + ka big k 0,
           arm len 5 (sh k 4 0) (arm len 6 (sh k 5 8) (arm len 7 (sh k 6 16) b)), c)
        else
          (arm len 1 (sh k 0 0) (arm len 2 (sh k 1 8) (arm len 3 (sh k 2 16) a)), b, c)))"

fun tail_unaligned :: "bool \<Rightarrow> byte list \<Rightarrow> hash_state \<Rightarrow> hash_state" where
  "tail_unaligned big k (a, b, c) =
    (let len = length k in
     if big then
       (arm len 1 (sh k 0 24) (arm len 2 (sh k 1 16) (arm len 3 (sh k 2 8) (arm len 4 (sh k 3 0) a))),
        arm len 5 (sh k 4 24) (arm len 6 (sh k 5 16) (arm len 7 (sh k 6 8) (arm len 8 (sh k 7 0) b))),
        arm len 9 (sh k 8 24) (arm len 10 (sh k 9 16) (arm len 11 (sh k 10 8) c)))
     else
       (arm len 1 (sh k 0 0) (arm len 2 (sh k 1 8) (arm len 3 (sh k 2 16) (arm len 4 (sh k 3 24) a))),
        arm len 5 (sh k 4 0) (arm len 6 (sh k 5 8) (arm len 7 (sh k 6 16) (arm len 8 (sh k 7 24) b))),
        arm len 9 (sh k 8 8) (arm len 10 (sh k 9 16) (arm len 11 (sh k 10 24) c))))"

declare tail_aligned.simps [simp del] tail_unaligned.simps [simp del]

function loop_aligned :: "bool \<Rightarrow> byte list \<Rightarrow> hash_state \<Rightarrow> hash_state" where
  "loop_aligned big k (a, b, c) = (if length k \<ge> 12
     then loop_aligned big (drop 12 k) (mix (a + ka big k 0, b + ka big k 1, c + ka big k 2))
     else tail_aligned big k (a, b, c))"
  by pat_completeness auto
termination by (relation "measure (\<lambda>(_, k, _). length k)") auto

function loop_unaligned :: "bool \<Rightarrow> byte list \<Rightarrow> hash_state \<Rightarrow> hash_state" where
  "loop_unaligned big k (a, b, c) = (if length k \<ge> 12
     then loop_unaligned big (drop 12 k) (mix (a + sum32 big k 0, b + sum32 big k 4, c + sum32 big k 8))
     else tail_unaligned big k (a, b, c))"
  by pat_completeness auto
termination by (relation "measure (\<lambda>(_, k, _). length k)") auto

declare loop_aligned.simps [simp del] loop_unaligned.simps [simp del]

section \<open>The hash functions\<close>

definition hash_init :: "nat \<Rightarrow> uint32" where
  "hash_init len = 0x9e3779b9 + of_nat len + 3923095"

definition hash_body :: "bool \<Rightarrow> bool \<Rightarrow> byte list \<Rightarrow> hash_state \<Rightarrow> hash_state" where
  "hash_body big aligned k s = final (if aligned then loop_aligned big k s else loop_unaligned big k s)"

definition hash_bytes :: "bool \<Rightarrow> bool \<Rightarrow> byte list \<Rightarrow> uint32" where
  "hash_bytes big aligned k =
    (let i = hash_init (length k); (a, b, c) = hash_body big aligned k (i, i, i) in c)"

definition seed_state :: "64 word \<Rightarrow> uint32 \<Rightarrow> hash_state" where
  "seed_state seed i =
    (if seed \<noteq> 0 then mix (i + ucast (drop_bit 32 seed), i + ucast seed, i) else (i, i, i))"

definition hash_bytes_extended :: "bool \<Rightarrow> bool \<Rightarrow> byte list \<Rightarrow> 64 word \<Rightarrow> 64 word" where
  "hash_bytes_extended big aligned k seed =
    (let (a, b, c) = hash_body big aligned k (seed_state seed (hash_init (length k)))
     in push_bit 32 (ucast b) OR ucast c)"

definition hash_bytes_uint32 :: "uint32 \<Rightarrow> uint32" where
  "hash_bytes_uint32 k =
    (let i = hash_init 4; (a, b, c) = final (i + k, i, i) in c)"

definition hash_bytes_uint32_extended :: "uint32 \<Rightarrow> 64 word \<Rightarrow> 64 word" where
  "hash_bytes_uint32_extended k seed =
    (let (a, b, c) = seed_state seed (hash_init 4); (a, b, c) = final (a + k, b, c)
     in push_bit 32 (ucast b) OR ucast c)"

text \<open>
  \<open>string_hash\<close> reads a NUL-terminated string: the list is the memory from the key on, and
  without a NUL \<open>strlen\<close> would leave it.  \<open>keysize - 1\<close> is computed in the unsigned type \<open>Size\<close>.
\<close>

definition string_hash :: "bool \<Rightarrow> bool \<Rightarrow> byte list \<Rightarrow> 64 word \<Rightarrow> uint32 res" where
  "string_hash big aligned mem keysize =
    (if 0 \<notin> set mem then Inl (Undefined ''strlen reads past the key'')
     else let s = takeWhile (\<lambda>b. b \<noteq> 0) mem
       in Inr (hash_bytes big aligned (take (min (length s) (unat (keysize - 1))) s)))"

definition tag_hash :: "bool \<Rightarrow> bool \<Rightarrow> byte list \<Rightarrow> uint32" where
  "tag_hash big aligned key = hash_bytes big aligned key"

definition uint32_hash :: "bool \<Rightarrow> byte list \<Rightarrow> uint32" where
  "uint32_hash big key = hash_bytes_uint32 (load32 big (take 4 key))"

section \<open>Mixing is reversible\<close>

text \<open>The lines of \<open>mix\<close> undone in reverse order.\<close>

fun unmix_line :: "nat \<Rightarrow> hash_state \<Rightarrow> hash_state" where
  "unmix_line k (x, y, z) = (let z = z - y; x = x XOR rot z k; x = x + z in (x, y, z))"

fun unmix :: "hash_state \<Rightarrow> hash_state" where
  "unmix (a, b, c) =
    (let (c, a, b) = unmix_line 4 (c, a, b);
         (b, c, a) = unmix_line 19 (b, c, a);
         (a, b, c) = unmix_line 16 (a, b, c);
         (c, a, b) = unmix_line 8 (c, a, b);
         (b, c, a) = unmix_line 6 (b, c, a);
         (a, b, c) = unmix_line 4 (a, b, c)
     in (a, b, c))"

declare unmix_line.simps [simp del] unmix.simps [simp del]

lemma xor_cancel: "(x XOR y) XOR y = (x :: 'a::len word)"
  by (simp add: xor.assoc)

lemma unmix_mix_line [simp]: "unmix_line k (mix_line k s) = s"
  by (cases s) (simp add: mix_line.simps unmix_line.simps Let_def xor_cancel)

lemma mix_unmix_line [simp]: "mix_line k (unmix_line k s) = s"
  by (cases s) (simp add: mix_line.simps unmix_line.simps Let_def xor_cancel)

lemma unmix_line_eq: "mix_line k s = t \<Longrightarrow> unmix_line k t = s"
  by auto

lemma mix_line_eq: "unmix_line k s = t \<Longrightarrow> mix_line k t = s"
  by auto

lemma unmix_mix: "unmix (mix s) = s"
  by (cases s) (simp add: mix.simps unmix.simps unmix_line_eq Let_def split: prod.split)

lemma mix_alt: "mix s =
    (case mix_line 4 s of (a, b, c) \<Rightarrow> case mix_line 6 (b, c, a) of (b, c, a) \<Rightarrow>
     case mix_line 8 (c, a, b) of (c, a, b) \<Rightarrow> case mix_line 16 (a, b, c) of (a, b, c) \<Rightarrow>
     case mix_line 19 (b, c, a) of (b, c, a) \<Rightarrow> case mix_line 4 (c, a, b) of (c, a, b) \<Rightarrow> (a, b, c))"
  by (cases s) (simp add: mix.simps)

lemma mix_unmix: "mix (unmix s) = s"
  by (cases s) (simp add: mix_alt unmix.simps mix_line_eq Let_def split: prod.split)

text \<open>
  \<open>mix\<close> loses no information, as the comment of the macro says: it is a bijection on the
  triples of 32-bit words, with the steps undone in reverse order as its inverse.
\<close>

theorem mix_reversible: "bij mix"
  by (rule bij_betw_byWitness [where f' = unmix]) (simp_all add: unmix_mix mix_unmix)

section \<open>Alignment does not matter\<close>

lemma bit_sh: "bit (push_bit s (ucast (b :: byte)) :: uint32) i \<longleftrightarrow> i < 32 \<and> s \<le> i \<and> bit b (i - s)"
  by (auto simp: bit_push_bit_iff bit_unsigned_iff)

lemma add_disjoint: "(\<And>i. \<not> (bit x i \<and> bit y i)) \<Longrightarrow> x + y = x OR (y :: uint32)"
  by (rule disjunctive_add_eq_or) (rule bit_word_eqI, simp add: bit_and_iff)

lemma load32_eq: "load32 False [p, q, r, s] =
    ucast p OR push_bit 8 (ucast q OR push_bit 8 (ucast r OR push_bit 8 (ucast s)))"
  by (simp add: load32_def)

lemma load32_rev: "load32 True [p, q, r, s] = load32 False [s, r, q, p]"
  by (simp add: load32_def)

lemma load32_sum:
  "load32 False [p, q, r, s] = ucast p + push_bit 8 (ucast q) + push_bit 16 (ucast r) + push_bit 24 (ucast s)"
proof -
  have l: "bit (b :: byte) i \<Longrightarrow> i < 8" for b i using bit_imp_le_length [of b i] by simp
  have "ucast p + push_bit 8 (ucast q) = ucast p OR (push_bit 8 (ucast q) :: uint32)"
    by (rule add_disjoint) (auto simp: bit_sh bit_unsigned_iff dest!: l)
  moreover have "(ucast p OR push_bit 8 (ucast q)) + push_bit 16 (ucast r)
      = (ucast p OR push_bit 8 (ucast q)) OR (push_bit 16 (ucast r) :: uint32)"
    by (rule add_disjoint) (auto simp: bit_sh bit_or_iff bit_unsigned_iff dest!: l)
  moreover have "((ucast p OR push_bit 8 (ucast q)) OR push_bit 16 (ucast r)) + push_bit 24 (ucast s)
      = ((ucast p OR push_bit 8 (ucast q)) OR push_bit 16 (ucast r)) OR (push_bit 24 (ucast s) :: uint32)"
    by (rule add_disjoint) (auto simp: bit_sh bit_or_iff bit_unsigned_iff dest!: l)
  moreover have "load32 False [p, q, r, s]
      = ((ucast p OR push_bit 8 (ucast q)) OR push_bit 16 (ucast r)) OR push_bit 24 (ucast s)"
    by (simp add: load32_eq push_bit_or or.assoc)
  ultimately show ?thesis by simp
qed

lemma take4_nth: "4 * i + 4 \<le> length k \<Longrightarrow>
    take 4 (drop (4 * i) k) = [k ! (4 * i), k ! (4 * i + 1), k ! (4 * i + 2), k ! (4 * i + 3)]"
  by (rule nth_equalityI) (auto simp: less_Suc_eq numeral_eq_Suc nth_Cons')

lemma ka_sum: "4 * i + 4 \<le> length k \<Longrightarrow> ka big k i = sum32 big k (4 * i)"
  by (cases big) (simp_all add: ka_def take4_nth load32_rev load32_sum sum32_def sh_def)

lemma arm_skip [simp]: "len < label \<Longrightarrow> arm len label v x = x"
  by (simp add: arm_def)

lemma arm_run [simp]: "label \<le> len \<Longrightarrow> arm len label v x = x + v"
  by (simp add: arm_def)

lemma tail_eq: "length k < 12 \<Longrightarrow> tail_aligned big k s = tail_unaligned big k s"
proof -
  obtain a b c where s: "s = (a, b, c)" by (cases s)
  consider "length k < 4" | "4 \<le> length k" "length k < 8" | "8 \<le> length k" by linarith
  then show ?thesis
  proof cases
    case 1
    then show ?thesis by (simp add: s tail_aligned.simps tail_unaligned.simps Let_def)
  next
    case 2
    then show ?thesis using ka_sum [of 0 k]
      by (simp add: s tail_aligned.simps tail_unaligned.simps Let_def sum32_def add_ac numeral_2_eq_2)
  next
    case 3
    then show ?thesis using ka_sum [of 0 k] ka_sum [of 1 k]
      by (simp add: s tail_aligned.simps tail_unaligned.simps Let_def sum32_def add_ac numeral_2_eq_2)
  qed
qed

lemma loop_eq: "loop_aligned big k s = loop_unaligned big k s"
proof (induction big k s rule: loop_aligned.induct)
  case (1 big k a b c)
  show ?case
  proof (cases "12 \<le> length k")
    case True
    then show ?thesis using 1 ka_sum [of 0 k] ka_sum [of 1 k] ka_sum [of 2 k]
      by (simp add: loop_aligned.simps [of big k] loop_unaligned.simps [of big k])
  next
    case False
    then show ?thesis by (simp add: loop_aligned.simps [of big k] loop_unaligned.simps [of big k] tail_eq)
  qed
qed

text \<open>
  C39: The four code paths of the hash functions agree: for either byte order the value does not
  depend on the alignment of the key, for every key length, so for the word-wide and the
  byte-wise fetches, for the loop over twelve bytes and for the different fall-through
  orders of the last eleven bytes; the same holds for the 64-bit function with any seed and for
  the string and tag hashes.
\<close>

theorem hash_alignment_independent:
  "hash_bytes big aligned k = hash_bytes big aligned' k \<and>
   hash_bytes_extended big aligned k seed = hash_bytes_extended big aligned' k seed \<and>
   string_hash big aligned k keysize = string_hash big aligned' k keysize \<and>
   tag_hash big aligned k = tag_hash big aligned' k"
proof -
  have body: "hash_body big aligned = hash_body big aligned'"
    by (intro ext) (simp add: hash_body_def loop_eq)
  show ?thesis
    by (simp only: hash_bytes_def hash_bytes_extended_def string_hash_def tag_hash_def body simp_thms)
qed

section \<open>Equalities between the functions\<close>

text \<open>The bytes of a word in memory.\<close>

definition store32 :: "bool \<Rightarrow> uint32 \<Rightarrow> byte list" where
  "store32 big w = (let bs = map (\<lambda>i. ucast (drop_bit (8 * i) w)) [0..<4] in if big then rev bs else bs)"

lemma load_store32: "load32 big (store32 big w) = w"
proof -
  let ?b = "\<lambda>i. ucast (drop_bit (8 * i) w) :: byte"
  have l: "map ?b [0..<4] = [?b 0, ?b 1, ?b 2, ?b 3]" by (simp add: upt_rec)
  have "load32 big (store32 big w) = load32 False [?b 0, ?b 1, ?b 2, ?b 3]"
    by (simp add: store32_def Let_def l load32_rev)
  also have "\<dots> = w"
  proof (rule bit_word_eqI)
    fix i assume "i < LENGTH(32)"
    then consider "i < 8" | "8 \<le> i" "i < 16" | "16 \<le> i" "i < 24" | "24 \<le> i" "i < 32" by fastforce
    then show "bit (load32 False [?b 0, ?b 1, ?b 2, ?b 3]) i = bit w i"
      by cases (auto simp: load32_eq bit_or_iff bit_push_bit_iff bit_unsigned_iff bit_drop_bit_eq)
  qed
  finally show ?thesis .
qed

lemma length_store32 [simp]: "length (store32 big w) = 4"
  by (simp add: store32_def Let_def)

lemma body_4: "length k = 4 \<Longrightarrow> hash_body big aligned k (a, b, c) = final (a + load32 big k, b, c)"
proof -
  assume "length k = 4"
  then have "loop_aligned big k (a, b, c) = (a + load32 big k, b, c)"
    by (simp add: loop_aligned.simps tail_aligned.simps Let_def ka_def)
  then show ?thesis by (simp add: hash_body_def flip: loop_eq)
qed

lemma low_word: "ucast (push_bit 32 (ucast (b :: uint32)) OR ucast (c :: uint32) :: 64 word) = c"
  by (rule bit_word_eqI) (auto simp: bit_unsigned_iff bit_or_iff bit_push_bit_iff)

text \<open>
  The shortcuts agree with the general functions: hashing a 32-bit word directly gives the
  hash of its four bytes in memory, with and without seed and for both byte orders, and the low
  half of the 64-bit hash with seed 0 is the 32-bit hash.
\<close>

theorem hash_shortcuts:
  "hash_bytes_uint32 w = hash_bytes big aligned (store32 big w) \<and>
   hash_bytes_uint32_extended w seed = hash_bytes_extended big aligned (store32 big w) seed \<and>
   uint32_hash big (store32 big w) = tag_hash big aligned (store32 big w) \<and>
   ucast (hash_bytes_extended big aligned k 0) = hash_bytes big aligned k"
proof -
  have 1: "hash_bytes_uint32 w = hash_bytes big aligned (store32 big w)"
    by (simp add: hash_bytes_uint32_def hash_bytes_def body_4 load_store32)
  have 2: "hash_bytes_uint32_extended w seed = hash_bytes_extended big aligned (store32 big w) seed"
    by (simp add: hash_bytes_uint32_extended_def hash_bytes_extended_def body_4 load_store32 split: prod.split)
  have 3: "uint32_hash big (store32 big w) = tag_hash big aligned (store32 big w)"
    using 1 by (simp add: uint32_hash_def tag_hash_def load_store32)
  have 4: "ucast (hash_bytes_extended big aligned k 0) = hash_bytes big aligned k"
    by (simp add: hash_bytes_extended_def hash_bytes_def seed_state_def Let_def low_word split: prod.split)
  show ?thesis using 1 2 3 4 by simp
qed

end
