(* ===== verification/Bitmapset_Hash.thy ===== *)
theory Bitmapset_Hash
  imports Bitmapset_Spec Hashfn
begin

text \<open>
  Hashing of bitmap sets (end of \<open>src/backend/nodes/bitmapset.c\<close>), used for the hash table of
  join relations.  Equal sets may have different word counts, so the trailing zero words are
  stripped before the bytes of the words are hashed.
\<close>

unbundle bit_operations_syntax

definition store64 :: "bool \<Rightarrow> bitmapword \<Rightarrow> byte list" where
  "store64 big w = (let bs = map (\<lambda>i. ucast (drop_bit (8 * i) w)) [0..<8] in if big then rev bs else bs)"

fun lastword_loop :: "bitmapword list \<Rightarrow> nat \<Rightarrow> nat option" where
  "lastword_loop ws 0 = None"
| "lastword_loop ws (Suc lastword) = (if ws ! lastword \<noteq> 0 then Some lastword else lastword_loop ws lastword)"

definition bms_hash_value :: "bool \<Rightarrow> bitmapset \<Rightarrow> uint32" where
  "bms_hash_value big a = (case a of None \<Rightarrow> 0
   | Some ws \<Rightarrow> (case lastword_loop ws (length ws) of
       None \<Rightarrow> 0
     | Some lastword \<Rightarrow> hash_bytes big True (concat (map (store64 big) (take (lastword + 1) ws)))))"

definition bitmap_hash :: "bool \<Rightarrow> bitmapset \<Rightarrow> uint32" where
  "bitmap_hash big key = bms_hash_value big key"

section \<open>Stripping\<close>

lemma lastword_loop_None: "n \<le> length ws \<Longrightarrow> lastword_loop ws n = None \<longleftrightarrow> (\<forall>i<n. nth_word ws i = 0)"
  by (induction n) (auto simp: nth_word_def less_Suc_eq)

lemma lastword_loop_Some:
  "n \<le> length ws \<Longrightarrow> lastword_loop ws n = Some l \<Longrightarrow>
    l < n \<and> nth_word ws l \<noteq> 0 \<and> (\<forall>i. l < i \<and> i < n \<longrightarrow> nth_word ws i = 0)"
  by (induction n) (auto simp: nth_word_def less_Suc_eq split: if_splits)

lemma lastword_Some:
  assumes "lastword_loop ws (length ws) = Some l"
  shows "l < length ws" "nth_word ws l \<noteq> 0" "\<And>i. l < i \<Longrightarrow> nth_word ws i = 0"
  using lastword_loop_Some [OF order_refl assms] by (auto simp: nth_word_def)

lemma lastword_None: "lastword_loop ws (length ws) = None \<longleftrightarrow> words_set ws = {}"
  unfolding words_set_empty_iff lastword_loop_None [OF order_refl] by (auto simp: nth_word_def)

lemma lastword_unique:
  assumes "words_set v = words_set w"
    and "lastword_loop v (length v) = Some l" and "lastword_loop w (length w) = Some m"
  shows "l = m"
proof -
  have eq: "nth_word v i = nth_word w i" for i using assms(1) by (simp add: words_set_eq_iff)
  note lv = lastword_Some [OF assms(2)] and lw = lastword_Some [OF assms(3)]
  have "\<not> l < m" using lv(3) lw(2) eq by metis
  moreover have "\<not> m < l" using lw(3) lv(2) eq by metis
  ultimately show ?thesis by simp
qed

lemma take_words_eq:
  assumes "words_set v = words_set w" and "n \<le> length v" and "n \<le> length w"
  shows "take n v = take n w"
proof (rule nth_equalityI)
  fix i assume "i < length (take n v)"
  then show "take n v ! i = take n w ! i"
    using assms words_set_eq_iff [of v w] nth_word_in [of i v] nth_word_in [of i w] by simp
qed (use assms in simp)

text \<open>
  Two sets that \<open>bitmap_match\<close> reports as the same key have the same hash value, whatever
  the number of their trailing zero words and whether an empty set is NULL or allocated, so a
  hash table with these two functions finds an entry under every representation of its key.
\<close>

theorem bitmap_hash_consistent:
  assumes "bitmap_match a b = 0"
  shows "bitmap_hash big a = bitmap_hash big b"
proof -
  have eq: "bms_set a = bms_set b" using assms by (simp add: bitmap_match_def bms_equal_iff split: if_splits)
  have zero: "bms_hash_value big c = 0" if "bms_set c = {}" for c
  proof (cases c)
    case (Some ws)
    then have "lastword_loop ws (length ws) = None" using that lastword_None [of ws] by simp
    then show ?thesis using Some by (simp add: bms_hash_value_def)
  qed (simp add: bms_hash_value_def)
  show ?thesis
  proof (cases "bms_set a = {}")
    case True
    then show ?thesis using eq zero by (simp add: bitmap_hash_def)
  next
    case False
    then obtain v w where vw: "a = Some v" "b = Some w" "words_set v = words_set w" "words_set w \<noteq> {}"
      using eq by (cases a; cases b) auto
    then obtain l m where lm: "lastword_loop v (length v) = Some l" "lastword_loop w (length w) = Some m"
      using lastword_None by (metis option.exhaust)
    then have "l = m" using lastword_unique vw by blast
    moreover have "take (l + 1) v = take (l + 1) w"
      using take_words_eq [OF vw(3), of "l + 1"] lastword_Some(1) [OF lm(1)] lastword_Some(1) [OF lm(2)] \<open>l = m\<close>
      by simp
    ultimately show ?thesis using vw lm by (simp add: bitmap_hash_def bms_hash_value_def)
  qed
qed

theorem bitmap_hash_consistent_witness:
  "bitmap_match (Some [5]) (Some [5, 0]) = 0 \<and> bitmap_hash False (Some [5]) = bitmap_hash False (Some [5, 0])"
  using bitmap_hash_consistent [of "Some [5]" "Some [5, 0]" False] by (simp add: bitmap_match_def bms_equal_def)

end
