(* ===== verification/PgList.thy ===== *)
theory PgList
  imports Bitutils
begin

text \<open>
  The expansible lists of PostgreSQL, \<open>src/backend/nodes/list.c\<close>.  A \<open>List *\<close> is \<open>None\<close> for
  \<open>NIL\<close> and otherwise the header with its array of cells: \<open>elements\<close> has \<open>max_length\<close> cells,
  of which the first \<open>llen\<close> (the field \<open>length\<close>) are in use, and \<open>inline_elements\<close> tells whether
  \<open>elements == initial_elements\<close>.  Cells that were allocated and never written are \<open>Junk\<close>.  Moving
  and storing cells is checked against the bounds of the array, and allocations against the
  limit of \<open>palloc\<close>, so an operation with a result never wrote outside its array.

  The four variants of an operation (\<open>equal\<close> nodes, pointers, integers, OIDs) share a
  definition with the cell accessor and the comparison as arguments.
\<close>

datatype NodeTag = T_List | T_IntList | T_OidList

datatype ListCell = Ptr nat | IntCell int | OidCell "32 word" | Junk

record List =
  ltype :: NodeTag
  llen :: nat
  max_length :: nat
  elements :: "ListCell list"
  inline_elements :: bool

type_synonym plist = "List option"

section \<open>Memory\<close>

text \<open>\<open>palloc\<close> of \<open>extra\<close> bytes and \<open>n\<close> cells of eight bytes, refused above \<open>MaxAllocSize\<close>.\<close>

definition palloc_cells :: "nat \<Rightarrow> nat \<Rightarrow> ListCell list res" where
  "palloc_cells extra n = (if extra + 8 * n \<le> 0x3fffffff then Inr (replicate n Junk)
     else Inl (Elog ''invalid memory alloc request size''))"

text \<open>\<open>memcpy(&xs[pos], ys, ...)\<close> inside an array.\<close>

definition store_cells :: "nat \<Rightarrow> ListCell list \<Rightarrow> ListCell list \<Rightarrow> ListCell list res" where
  "store_cells pos ys xs = (if pos + length ys \<le> length xs
     then Inr (take pos xs @ ys @ drop (pos + length ys) xs) else Inl (Undefined ''write past the array''))"

text \<open>\<open>memmove(&xs[dst], &xs[src], n * sizeof(ListCell))\<close>.\<close>

definition memmove_cells :: "nat \<Rightarrow> nat \<Rightarrow> nat \<Rightarrow> ListCell list \<Rightarrow> ListCell list res" where
  "memmove_cells dst src n xs = (if src + n \<le> length xs then store_cells dst (take n (drop src xs)) xs
     else Inl (Undefined ''read past the array''))"

definition set_cell :: "nat \<Rightarrow> ListCell \<Rightarrow> List \<Rightarrow> List res" where
  "set_cell i v l = res_map (\<lambda>els. l\<lparr>elements := els\<rparr>) (store_cells i [v] (elements l))"

section \<open>Allocation\<close>

definition LIST_HEADER_OVERHEAD :: nat where
  "LIST_HEADER_OVERHEAD = 3"

definition next_capacity :: "nat \<Rightarrow> nat res" where
  "next_capacity n = (if n < 2 ^ 31 then res_map unat (pg_nextpower2_32 (of_nat n))
     else Inl (Undefined ''int overflow''))"

definition new_list :: "NodeTag \<Rightarrow> nat \<Rightarrow> List res" where
  "new_list t min_size =
     res_bind (next_capacity (max 8 (min_size + LIST_HEADER_OVERHEAD))) (\<lambda>p.
       let max_size = p - LIST_HEADER_OVERHEAD in
       res_map (\<lambda>els. \<lparr>ltype = t, llen = min_size, max_length = max_size,
                       elements = els, inline_elements = True\<rparr>)
         (palloc_cells (8 * LIST_HEADER_OVERHEAD) max_size))"

definition enlarge_list :: "nat \<Rightarrow> List \<Rightarrow> List res" where
  "enlarge_list min_size l =
     res_bind (next_capacity (max 16 min_size)) (\<lambda>new_max_len.
     res_bind (palloc_cells 0 new_max_len) (\<lambda>fresh.
       if inline_elements l
       then res_map (\<lambda>els. l\<lparr>elements := els, inline_elements := False, max_length := new_max_len\<rparr>)
              (store_cells 0 (take (llen l) (elements l)) fresh)
       else res_map (\<lambda>els. l\<lparr>elements := els, max_length := new_max_len\<rparr>)
              (store_cells 0 (elements l) fresh)))"

definition list_make1 :: "NodeTag \<Rightarrow> ListCell \<Rightarrow> plist res" where
  "list_make1 t datum1 = res_bind (new_list t 1) (\<lambda>l. res_map Some (set_cell 0 datum1 l))"

definition list_make2 :: "NodeTag \<Rightarrow> ListCell \<Rightarrow> ListCell \<Rightarrow> plist res" where
  "list_make2 t datum1 datum2 = res_bind (new_list t 2) (\<lambda>l.
     res_bind (set_cell 0 datum1 l) (\<lambda>l. res_map Some (set_cell 1 datum2 l)))"

definition list_make3 :: "NodeTag \<Rightarrow> ListCell \<Rightarrow> ListCell \<Rightarrow> ListCell \<Rightarrow> plist res" where
  "list_make3 t datum1 datum2 datum3 = res_bind (new_list t 3) (\<lambda>l.
     res_bind (set_cell 0 datum1 l) (\<lambda>l. res_bind (set_cell 1 datum2 l) (\<lambda>l.
       res_map Some (set_cell 2 datum3 l))))"

definition list_make4 :: "NodeTag \<Rightarrow> ListCell \<Rightarrow> ListCell \<Rightarrow> ListCell \<Rightarrow> ListCell \<Rightarrow> plist res" where
  "list_make4 t datum1 datum2 datum3 datum4 = res_bind (new_list t 4) (\<lambda>l.
     res_bind (set_cell 0 datum1 l) (\<lambda>l. res_bind (set_cell 1 datum2 l) (\<lambda>l.
       res_bind (set_cell 2 datum3 l) (\<lambda>l. res_map Some (set_cell 3 datum4 l)))))"

section \<open>Adding cells\<close>

definition make_room :: "List \<Rightarrow> List res" where
  "make_room l = (if llen l \<ge> max_length l then enlarge_list (llen l + 1) l else Inr l)"

definition new_head_cell :: "List \<Rightarrow> List res" where
  "new_head_cell l = res_bind (make_room l) (\<lambda>l.
     res_map (\<lambda>els. l\<lparr>elements := els, llen := llen l + 1\<rparr>)
       (memmove_cells 1 0 (llen l) (elements l)))"

definition new_tail_cell :: "List \<Rightarrow> List res" where
  "new_tail_cell l = res_map (\<lambda>l. l\<lparr>llen := llen l + 1\<rparr>) (make_room l)"

definition lappend_cell :: "NodeTag \<Rightarrow> plist \<Rightarrow> ListCell \<Rightarrow> plist res" where
  "lappend_cell t list datum = res_bind
     (case list of None \<Rightarrow> new_list t 1 | Some l \<Rightarrow> new_tail_cell l)
     (\<lambda>l. res_map Some (set_cell (llen l - 1) datum l))"

definition lappend :: "plist \<Rightarrow> nat \<Rightarrow> plist res" where
  "lappend list datum = lappend_cell T_List list (Ptr datum)"

definition lappend_int :: "plist \<Rightarrow> int \<Rightarrow> plist res" where
  "lappend_int list datum = lappend_cell T_IntList list (IntCell datum)"

definition lappend_oid :: "plist \<Rightarrow> 32 word \<Rightarrow> plist res" where
  "lappend_oid list datum = lappend_cell T_OidList list (OidCell datum)"

definition insert_new_cell :: "List \<Rightarrow> nat \<Rightarrow> List res" where
  "insert_new_cell l pos = res_bind (make_room l) (\<lambda>l.
     res_map (\<lambda>els. l\<lparr>elements := els, llen := llen l + 1\<rparr>)
       (if pos < llen l then memmove_cells (pos + 1) pos (llen l - pos) (elements l)
        else Inr (elements l)))"

definition insert_nth_cell :: "NodeTag \<Rightarrow> plist \<Rightarrow> nat \<Rightarrow> ListCell \<Rightarrow> plist res" where
  "insert_nth_cell t list pos datum = (case list of
     None \<Rightarrow> list_make1 t datum
   | Some l \<Rightarrow> res_bind (insert_new_cell l pos) (\<lambda>l. res_map Some (set_cell pos datum l)))"

definition list_insert_nth :: "plist \<Rightarrow> nat \<Rightarrow> nat \<Rightarrow> plist res" where
  "list_insert_nth list pos datum = insert_nth_cell T_List list pos (Ptr datum)"

definition list_insert_nth_int :: "plist \<Rightarrow> nat \<Rightarrow> int \<Rightarrow> plist res" where
  "list_insert_nth_int list pos datum = insert_nth_cell T_IntList list pos (IntCell datum)"

definition list_insert_nth_oid :: "plist \<Rightarrow> nat \<Rightarrow> 32 word \<Rightarrow> plist res" where
  "list_insert_nth_oid list pos datum = insert_nth_cell T_OidList list pos (OidCell datum)"

definition lcons_cell :: "NodeTag \<Rightarrow> ListCell \<Rightarrow> plist \<Rightarrow> plist res" where
  "lcons_cell t datum list = res_bind
     (case list of None \<Rightarrow> new_list t 1 | Some l \<Rightarrow> new_head_cell l)
     (\<lambda>l. res_map Some (set_cell 0 datum l))"

definition lcons :: "nat \<Rightarrow> plist \<Rightarrow> plist res" where
  "lcons datum list = lcons_cell T_List (Ptr datum) list"

definition lcons_int :: "int \<Rightarrow> plist \<Rightarrow> plist res" where
  "lcons_int datum list = lcons_cell T_IntList (IntCell datum) list"

definition lcons_oid :: "32 word \<Rightarrow> plist \<Rightarrow> plist res" where
  "lcons_oid datum list = lcons_cell T_OidList (OidCell datum) list"

section \<open>Copying, concatenation, truncation\<close>

definition copy_cells :: "NodeTag \<Rightarrow> ListCell list \<Rightarrow> plist res" where
  "copy_cells t cells = res_bind (new_list t (length cells)) (\<lambda>l.
     res_map (\<lambda>els. Some (l\<lparr>elements := els\<rparr>)) (store_cells 0 cells (elements l)))"

definition list_copy :: "plist \<Rightarrow> plist res" where
  "list_copy oldlist = (case oldlist of None \<Rightarrow> Inr None
   | Some l \<Rightarrow> copy_cells (ltype l) (take (llen l) (elements l)))"

definition list_copy_tail :: "plist \<Rightarrow> int \<Rightarrow> plist res" where
  "list_copy_tail oldlist nskip = (let nskip = (if nskip < 0 then 0 else nat nskip) in
     case oldlist of None \<Rightarrow> Inr None
     | Some l \<Rightarrow> if nskip \<ge> llen l then Inr None
         else copy_cells (ltype l) (take (llen l - nskip) (drop nskip (elements l))))"

text \<open>\<open>copyObjectImpl\<close> copies a node; it is an argument here.\<close>

definition list_copy_deep :: "(nat \<Rightarrow> nat) \<Rightarrow> plist \<Rightarrow> plist res" where
  "list_copy_deep copyObjectImpl oldlist = (case oldlist of None \<Rightarrow> Inr None
   | Some l \<Rightarrow> copy_cells (ltype l)
       (map (\<lambda>c. case c of Ptr p \<Rightarrow> Ptr (copyObjectImpl p) | _ \<Rightarrow> c) (take (llen l) (elements l))))"

definition list_concat :: "plist \<Rightarrow> plist \<Rightarrow> plist res" where
  "list_concat list1 list2 = (case list1 of None \<Rightarrow> list_copy list2
   | Some l1 \<Rightarrow> (case list2 of None \<Rightarrow> Inr list1
      | Some l2 \<Rightarrow>
          let new_len = llen l1 + llen l2 in
          res_bind (if new_len > max_length l1 then enlarge_list new_len l1 else Inr l1) (\<lambda>l.
          res_map (\<lambda>els. Some (l\<lparr>elements := els, llen := new_len\<rparr>))
            (store_cells (llen l) (take (llen l2) (elements l2)) (elements l)))))"

definition list_concat_copy :: "plist \<Rightarrow> plist \<Rightarrow> plist res" where
  "list_concat_copy list1 list2 = (case list1 of None \<Rightarrow> list_copy list2
   | Some l1 \<Rightarrow> (case list2 of None \<Rightarrow> list_copy list1
      | Some l2 \<Rightarrow>
          let new_len = llen l1 + llen l2 in
          res_bind (new_list (ltype l1) new_len) (\<lambda>l.
          res_bind (store_cells 0 (take (llen l1) (elements l1)) (elements l)) (\<lambda>els.
          res_map (\<lambda>els. Some (l\<lparr>elements := els\<rparr>))
            (store_cells (llen l1) (take (llen l2) (elements l2)) els)))))"

definition list_length :: "plist \<Rightarrow> nat" where
  "list_length list = (case list of None \<Rightarrow> 0 | Some l \<Rightarrow> llen l)"

definition list_truncate :: "plist \<Rightarrow> int \<Rightarrow> plist" where
  "list_truncate list new_size = (if new_size \<le> 0 then None
     else case list of None \<Rightarrow> None
     | Some l \<Rightarrow> if new_size < int (llen l) then Some (l\<lparr>llen := nat new_size\<rparr>) else list)"

section \<open>Reading cells\<close>

definition lfirst :: "ListCell \<Rightarrow> nat res" where
  "lfirst c = (case c of Ptr p \<Rightarrow> Inr p | _ \<Rightarrow> Inl (Undefined ''not a pointer cell''))"

definition lfirst_int :: "ListCell \<Rightarrow> int res" where
  "lfirst_int c = (case c of IntCell i \<Rightarrow> Inr i | _ \<Rightarrow> Inl (Undefined ''not an integer cell''))"

definition lfirst_oid :: "ListCell \<Rightarrow> 32 word res" where
  "lfirst_oid c = (case c of OidCell w \<Rightarrow> Inr w | _ \<Rightarrow> Inl (Undefined ''not an OID cell''))"

text \<open>The cells that \<open>foreach\<close> visits.\<close>

definition cells :: "plist \<Rightarrow> ListCell list" where
  "cells list = (case list of None \<Rightarrow> [] | Some l \<Rightarrow> take (llen l) (elements l))"

fun member_loop :: "(ListCell \<Rightarrow> 'v res) \<Rightarrow> ('v \<Rightarrow> 'v \<Rightarrow> bool) \<Rightarrow> ListCell list \<Rightarrow> 'v \<Rightarrow> bool res" where
  "member_loop rd eq [] datum = Inr False"
| "member_loop rd eq (c # cs) datum =
     res_bind (rd c) (\<lambda>v. if eq v datum then Inr True else member_loop rd eq cs datum)"

definition list_member :: "(nat \<Rightarrow> nat \<Rightarrow> bool) \<Rightarrow> plist \<Rightarrow> nat \<Rightarrow> bool res" where
  "list_member equal list datum = member_loop lfirst equal (cells list) datum"

definition list_member_ptr :: "plist \<Rightarrow> nat \<Rightarrow> bool res" where
  "list_member_ptr list datum = member_loop lfirst (=) (cells list) datum"

definition list_member_int :: "plist \<Rightarrow> int \<Rightarrow> bool res" where
  "list_member_int list datum = member_loop lfirst_int (=) (cells list) datum"

definition list_member_oid :: "plist \<Rightarrow> 32 word \<Rightarrow> bool res" where
  "list_member_oid list datum = member_loop lfirst_oid (=) (cells list) datum"

section \<open>Deletion\<close>

definition list_delete_nth_cell :: "plist \<Rightarrow> nat \<Rightarrow> plist res" where
  "list_delete_nth_cell list n = (case list of None \<Rightarrow> Inl (Undefined ''NULL list'')
   | Some l \<Rightarrow> if llen l = 1 then Inr None
       else if llen l \<le> n then Inl (Undefined ''negative size'')
       else res_map (\<lambda>els. Some (l\<lparr>elements := els, llen := llen l - 1\<rparr>))
         (memmove_cells n (n + 1) (llen l - 1 - n) (elements l)))"

text \<open>The index of the first cell with a given value: the cell that the \<open>foreach\<close> loop deletes.\<close>

fun find_loop :: "(ListCell \<Rightarrow> 'v res) \<Rightarrow> ('v \<Rightarrow> 'v \<Rightarrow> bool) \<Rightarrow> ListCell list \<Rightarrow> 'v \<Rightarrow> nat \<Rightarrow> nat option res" where
  "find_loop rd eq [] datum n = Inr None"
| "find_loop rd eq (c # cs) datum n =
     res_bind (rd c) (\<lambda>v. if eq v datum then Inr (Some n) else find_loop rd eq cs datum (Suc n))"

definition delete_value :: "(ListCell \<Rightarrow> 'v res) \<Rightarrow> ('v \<Rightarrow> 'v \<Rightarrow> bool) \<Rightarrow> plist \<Rightarrow> 'v \<Rightarrow> plist res" where
  "delete_value rd eq list datum = res_bind (find_loop rd eq (cells list) datum 0) (\<lambda>r.
     case r of None \<Rightarrow> Inr list | Some n \<Rightarrow> list_delete_nth_cell list n)"

definition list_delete :: "(nat \<Rightarrow> nat \<Rightarrow> bool) \<Rightarrow> plist \<Rightarrow> nat \<Rightarrow> plist res" where
  "list_delete equal list datum = delete_value lfirst equal list datum"

definition list_delete_ptr :: "plist \<Rightarrow> nat \<Rightarrow> plist res" where
  "list_delete_ptr list datum = delete_value lfirst (=) list datum"

definition list_delete_int :: "plist \<Rightarrow> int \<Rightarrow> plist res" where
  "list_delete_int list datum = delete_value lfirst_int (=) list datum"

definition list_delete_oid :: "plist \<Rightarrow> 32 word \<Rightarrow> plist res" where
  "list_delete_oid list datum = delete_value lfirst_oid (=) list datum"

definition list_delete_first :: "plist \<Rightarrow> plist res" where
  "list_delete_first list = (case list of None \<Rightarrow> Inr None | Some l \<Rightarrow> list_delete_nth_cell list 0)"

definition list_delete_last :: "plist \<Rightarrow> plist res" where
  "list_delete_last list = (case list of None \<Rightarrow> Inr None
   | Some l \<Rightarrow> if list_length list \<le> 1 then Inr None
       else Inr (list_truncate list (int (list_length list) - 1)))"

section \<open>Lists as sets\<close>

text \<open>Append the values of \<open>cs\<close> that \<open>keep\<close> selects (given the list so far) one after the other.\<close>

definition append_selected ::
  "(ListCell \<Rightarrow> 'v res) \<Rightarrow> (plist \<Rightarrow> 'v \<Rightarrow> bool res) \<Rightarrow> (plist \<Rightarrow> 'v \<Rightarrow> plist res)
    \<Rightarrow> ListCell list \<Rightarrow> plist \<Rightarrow> plist res" where
  "append_selected rd keep app cs result = res_fold (\<lambda>c result.
     res_bind (rd c) (\<lambda>v. res_bind (keep result v) (\<lambda>k. if k then app result v else Inr result))) cs result"

definition absent :: "bool res \<Rightarrow> bool res" where
  "absent m = res_map Not m"

definition list_union :: "(nat \<Rightarrow> nat \<Rightarrow> bool) \<Rightarrow> plist \<Rightarrow> plist \<Rightarrow> plist res" where
  "list_union equal list1 list2 = res_bind (list_copy list1)
     (append_selected lfirst (\<lambda>r v. absent (list_member equal r v)) lappend (cells list2))"

definition list_union_ptr :: "plist \<Rightarrow> plist \<Rightarrow> plist res" where
  "list_union_ptr list1 list2 = res_bind (list_copy list1)
     (append_selected lfirst (\<lambda>r v. absent (list_member_ptr r v)) lappend (cells list2))"

definition list_union_int :: "plist \<Rightarrow> plist \<Rightarrow> plist res" where
  "list_union_int list1 list2 = res_bind (list_copy list1)
     (append_selected lfirst_int (\<lambda>r v. absent (list_member_int r v)) lappend_int (cells list2))"

definition list_union_oid :: "plist \<Rightarrow> plist \<Rightarrow> plist res" where
  "list_union_oid list1 list2 = res_bind (list_copy list1)
     (append_selected lfirst_oid (\<lambda>r v. absent (list_member_oid r v)) lappend_oid (cells list2))"

definition list_intersection :: "(nat \<Rightarrow> nat \<Rightarrow> bool) \<Rightarrow> plist \<Rightarrow> plist \<Rightarrow> plist res" where
  "list_intersection equal list1 list2 = (if list1 = None \<or> list2 = None then Inr None
     else append_selected lfirst (\<lambda>_ v. list_member equal list2 v) lappend (cells list1) None)"

definition list_intersection_int :: "plist \<Rightarrow> plist \<Rightarrow> plist res" where
  "list_intersection_int list1 list2 = (if list1 = None \<or> list2 = None then Inr None
     else append_selected lfirst_int (\<lambda>_ v. list_member_int list2 v) lappend_int (cells list1) None)"

definition list_difference :: "(nat \<Rightarrow> nat \<Rightarrow> bool) \<Rightarrow> plist \<Rightarrow> plist \<Rightarrow> plist res" where
  "list_difference equal list1 list2 = (if list2 = None then list_copy list1
     else append_selected lfirst (\<lambda>_ v. absent (list_member equal list2 v)) lappend (cells list1) None)"

definition list_difference_ptr :: "plist \<Rightarrow> plist \<Rightarrow> plist res" where
  "list_difference_ptr list1 list2 = (if list2 = None then list_copy list1
     else append_selected lfirst (\<lambda>_ v. absent (list_member_ptr list2 v)) lappend (cells list1) None)"

definition list_difference_int :: "plist \<Rightarrow> plist \<Rightarrow> plist res" where
  "list_difference_int list1 list2 = (if list2 = None then list_copy list1
     else append_selected lfirst_int (\<lambda>_ v. absent (list_member_int list2 v)) lappend_int (cells list1) None)"

definition list_difference_oid :: "plist \<Rightarrow> plist \<Rightarrow> plist res" where
  "list_difference_oid list1 list2 = (if list2 = None then list_copy list1
     else append_selected lfirst_oid (\<lambda>_ v. absent (list_member_oid list2 v)) lappend_oid (cells list1) None)"

definition append_unique :: "bool res \<Rightarrow> plist \<Rightarrow> plist res \<Rightarrow> plist res" where
  "append_unique member list appended = res_bind member (\<lambda>m. if m then Inr list else appended)"

definition list_append_unique :: "(nat \<Rightarrow> nat \<Rightarrow> bool) \<Rightarrow> plist \<Rightarrow> nat \<Rightarrow> plist res" where
  "list_append_unique equal list datum = append_unique (list_member equal list datum) list (lappend list datum)"

definition list_append_unique_ptr :: "plist \<Rightarrow> nat \<Rightarrow> plist res" where
  "list_append_unique_ptr list datum = append_unique (list_member_ptr list datum) list (lappend list datum)"

definition list_append_unique_int :: "plist \<Rightarrow> int \<Rightarrow> plist res" where
  "list_append_unique_int list datum = append_unique (list_member_int list datum) list (lappend_int list datum)"

definition list_append_unique_oid :: "plist \<Rightarrow> 32 word \<Rightarrow> plist res" where
  "list_append_unique_oid list datum = append_unique (list_member_oid list datum) list (lappend_oid list datum)"

definition list_concat_unique :: "(nat \<Rightarrow> nat \<Rightarrow> bool) \<Rightarrow> plist \<Rightarrow> plist \<Rightarrow> plist res" where
  "list_concat_unique equal list1 list2 =
     append_selected lfirst (\<lambda>r v. absent (list_member equal r v)) lappend (cells list2) list1"

definition list_concat_unique_ptr :: "plist \<Rightarrow> plist \<Rightarrow> plist res" where
  "list_concat_unique_ptr list1 list2 =
     append_selected lfirst (\<lambda>r v. absent (list_member_ptr r v)) lappend (cells list2) list1"

definition list_concat_unique_int :: "plist \<Rightarrow> plist \<Rightarrow> plist res" where
  "list_concat_unique_int list1 list2 =
     append_selected lfirst_int (\<lambda>r v. absent (list_member_int r v)) lappend_int (cells list2) list1"

definition list_concat_unique_oid :: "plist \<Rightarrow> plist \<Rightarrow> plist res" where
  "list_concat_unique_oid list1 list2 =
     append_selected lfirst_oid (\<lambda>r v. absent (list_member_oid r v)) lappend_oid (cells list2) list1"

text \<open>\<open>list_deduplicate_oid\<close> works in place on a sorted list: \<open>i\<close> is the last kept cell, \<open>j\<close> the next one read.\<close>

function dedup_loop :: "nat \<Rightarrow> nat \<Rightarrow> nat \<Rightarrow> ListCell list \<Rightarrow> (nat \<times> ListCell list)" where
  "dedup_loop len i j els = (if j < len
     then (if els ! i \<noteq> els ! j then dedup_loop len (Suc i) (Suc j) (els[Suc i := els ! j])
           else dedup_loop len i (Suc j) els)
     else (i, els))"
  by pat_completeness auto
termination by (relation "measure (\<lambda>(len, _, j, _). len - j)") auto

declare dedup_loop.simps [simp del]

definition list_deduplicate_oid :: "plist \<Rightarrow> plist" where
  "list_deduplicate_oid list = (case list of None \<Rightarrow> None
   | Some l \<Rightarrow> if llen l > 1
       then (let (i, els) = dedup_loop (llen l) 0 1 (elements l) in
             Some (l\<lparr>elements := els, llen := i + 1\<rparr>))
       else list)"

definition list_oid_cmp :: "ListCell \<Rightarrow> ListCell \<Rightarrow> int res" where
  "list_oid_cmp p1 p2 = res_bind (lfirst_oid p1) (\<lambda>v1. res_bind (lfirst_oid p2) (\<lambda>v2.
     Inr (if v1 < v2 then -1 else if v1 > v2 then 1 else 0)))"

end
