(* ===== verification/PgList_Spec.thy ===== *)
theory PgList_Spec
  imports PgList
begin

text \<open>
  The lists as sequences.  \<open>represents t cs list\<close> says that a list satisfies the invariants that
  \<open>check_list_invariants\<close> asserts and holds the cells \<open>cs\<close>; each operation is shown to succeed on
  such lists (of at most \<open>2 ^ 26\<close> cells, below the allocation limit) and to return a list that
  represents the expected sequence.  The locale \<open>list_kind\<close> is the interface of a kind of cells
  to the set-like operations, interpreted for pointers, integers, OIDs and nodes compared by
  \<open>equal\<close>.
\<close>

section \<open>Invariant\<close>

definition list_ok :: "plist \<Rightarrow> bool" where
  "list_ok list = (case list of None \<Rightarrow> True
   | Some l \<Rightarrow> 0 < llen l \<and> llen l \<le> max_length l \<and> length (elements l) = max_length l)"

definition represents :: "NodeTag \<Rightarrow> ListCell list \<Rightarrow> plist \<Rightarrow> bool" where
  "represents t cs list = (list_ok list \<and> cells list = cs \<and>
     (case list of None \<Rightarrow> True | Some l \<Rightarrow> ltype l = t))"

abbreviation max_cells :: nat where
  "max_cells \<equiv> 2 ^ 26"

lemma represents_None [simp]: "represents t cs None \<longleftrightarrow> cs = []"
  by (auto simp: represents_def list_ok_def cells_def)

lemma represents_Some:
  "represents t cs (Some l) \<longleftrightarrow> ltype l = t \<and> 0 < llen l \<and> llen l \<le> max_length l \<and>
     length (elements l) = max_length l \<and> cs = take (llen l) (elements l)"
  by (auto simp: represents_def list_ok_def cells_def)

lemma represents_length: "represents t cs (Some l) \<Longrightarrow> length cs = llen l"
  by (auto simp: represents_Some)

lemma represents_cells: "represents t cs list \<Longrightarrow> cells list = cs"
  by (simp add: represents_def)

lemma represents_empty: "represents t cs list \<Longrightarrow> list = None \<longleftrightarrow> cs = []"
  by (cases list) (auto simp: represents_Some)

section \<open>Capacity\<close>

lemma next_capacity_ok:
  assumes "0 < n" and "n \<le> max_cells"
  shows "\<exists>p. next_capacity n = Inr p \<and> n \<le> p \<and> p < 2 * n"
proof -
  let ?w = "of_nat n :: 32 word"
  have u: "unat ?w = n" using assms by (simp add: unat_of_nat)
  have "0 < ?w" using assms u by (metis unat_gt_0 word_neq_0_conv less_not_refl)
  moreover have "?w \<le> 2147483648" using assms u by (simp add: word_le_nat_alt)
  ultimately obtain p where "pg_nextpower2_32 ?w = Inr p" "?w \<le> p" "unat p < 2 * n"
    using nextpower2_32_bounds [of ?w] u by auto
  then show ?thesis using assms u by (auto simp: next_capacity_def word_le_nat_alt)
qed

lemma palloc_cells_ok: "extra + 8 * n \<le> 0x3fffffff \<Longrightarrow> palloc_cells extra n = Inr (replicate n Junk)"
  by (simp add: palloc_cells_def)

lemma new_list_ok:
  assumes "0 < m" and "m + 3 \<le> max_cells"
  shows "\<exists>l. new_list t m = Inr l \<and> ltype l = t \<and> llen l = m \<and> m \<le> max_length l \<and>
    length (elements l) = max_length l"
proof -
  let ?n = "max 8 (m + 3)"
  have "0 < ?n" "?n \<le> max_cells" using assms by auto
  then obtain p where p: "next_capacity ?n = Inr p" "?n \<le> p" "p < 2 * ?n"
    using next_capacity_ok by blast
  have "p < 2 ^ 27" using p(3) assms(2) by (simp add: max_def split: if_splits)
  then have "palloc_cells (8 * LIST_HEADER_OVERHEAD) (p - LIST_HEADER_OVERHEAD) = Inr (replicate (p - 3) Junk)"
    using p(2) by (simp add: palloc_cells_def LIST_HEADER_OVERHEAD_def)
  then show ?thesis using p by (auto simp: new_list_def LIST_HEADER_OVERHEAD_def Let_def)
qed

lemma store_cells_ok:
  "pos + length ys \<le> length xs \<Longrightarrow> store_cells pos ys xs = Inr (take pos xs @ ys @ drop (pos + length ys) xs)"
  by (simp add: store_cells_def)

lemma enlarge_list_ok:
  assumes "llen l \<le> max_length l" and "length (elements l) = max_length l"
    and "max_length l < n" and "n \<le> max_cells"
  shows "\<exists>l'. enlarge_list n l = Inr l' \<and> ltype l' = ltype l \<and> llen l' = llen l \<and> n \<le> max_length l' \<and>
    length (elements l') = max_length l' \<and> take (llen l) (elements l') = take (llen l) (elements l)"
proof -
  have "0 < max 16 n" "max 16 n \<le> max_cells" using assms by auto
  then obtain p where p: "next_capacity (max 16 n) = Inr p" "max 16 n \<le> p" "p < 2 * max 16 n"
    using next_capacity_ok by blast
  have "p < 2 ^ 27" using p(3) \<open>max 16 n \<le> max_cells\<close> by simp
  then have "palloc_cells 0 p = Inr (replicate p Junk)" by (simp add: palloc_cells_def)
  then show ?thesis using p assms
    by (cases "inline_elements l") (simp_all add: enlarge_list_def store_cells_ok)
qed

lemma make_room_ok:
  assumes "represents t cs (Some l)" and "length cs < max_cells"
  shows "\<exists>l'. make_room l = Inr l' \<and> ltype l' = t \<and> llen l' = llen l \<and> llen l < max_length l' \<and>
    length (elements l') = max_length l' \<and> take (llen l) (elements l') = cs"
proof (cases "llen l < max_length l")
  case True
  then show ?thesis using assms by (auto simp: make_room_def represents_Some)
next
  case False
  then have "max_length l = llen l" using assms by (simp add: represents_Some)
  then show ?thesis using enlarge_list_ok [of l "llen l + 1"] assms represents_length [OF assms(1)]
    by (auto simp: make_room_def represents_Some)
qed

section \<open>Cell operations\<close>

lemma set_cell_ok:
  "i < length (elements l) \<Longrightarrow> set_cell i v l = Inr (l\<lparr>elements := (elements l)[i := v]\<rparr>)"
  by (simp add: set_cell_def store_cells_ok upd_conv_take_nth_drop)

lemma new_list_one:
  "\<exists>l'. res_bind (new_list t 1) (\<lambda>l. res_map Some (set_cell 0 c l)) = Inr l' \<and> represents t [c] l'"
proof -
  obtain l where "new_list t 1 = Inr l" "ltype l = t" "llen l = 1" "1 \<le> max_length l"
    "length (elements l) = max_length l" using new_list_ok [of 1 t] by auto
  then show ?thesis by (auto simp: set_cell_ok represents_Some take_Suc_conv_app_nth)
qed

lemma lappend_cell_ok:
  assumes "represents t cs list" and "length cs < max_cells"
  shows "\<exists>l'. lappend_cell t list c = Inr l' \<and> represents t (cs @ [c]) l'"
proof (cases list)
  case None
  obtain l where "new_list t 1 = Inr l" "ltype l = t" "llen l = 1" "1 \<le> max_length l"
    "length (elements l) = max_length l" using new_list_ok [of 1 t] by auto
  then show ?thesis using None assms
    by (auto simp: lappend_cell_def set_cell_ok represents_Some take_Suc_conv_app_nth)
next
  case (Some l)
  then obtain l' where l': "make_room l = Inr l'" "ltype l' = t" "llen l' = llen l"
    "llen l < max_length l'" "length (elements l') = max_length l'" "take (llen l) (elements l') = cs"
    using make_room_ok assms by blast
  then show ?thesis using Some
    by (auto simp: lappend_cell_def new_tail_cell_def set_cell_ok represents_Some take_Suc_conv_app_nth)
qed

lemma list_make1_ok: "\<exists>l'. list_make1 t c = Inr l' \<and> represents t [c] l'"
  using new_list_one by (simp add: list_make1_def)

lemma insert_new_cell_ok:
  assumes "represents t cs (Some l)" and "length cs < max_cells" and "pos \<le> length cs"
  shows "\<exists>l'. insert_new_cell l pos = Inr l' \<and> ltype l' = t \<and> llen l' = Suc (length cs) \<and>
    length cs < max_length l' \<and> length (elements l') = max_length l' \<and>
    take pos (elements l') = take pos cs \<and>
    take (length cs - pos) (drop (Suc pos) (elements l')) = drop pos cs"
proof -
  obtain m where m: "make_room l = Inr m" "ltype m = t" "llen m = llen l"
    "llen l < max_length m" "length (elements m) = max_length m" "take (llen l) (elements m) = cs"
    using make_room_ok assms by blast
  have len: "llen l = length cs" using represents_length assms(1) by simp
  have cs: "take pos (elements m) = take pos cs"
    using m(6) assms(3) len by (metis min.absorb1 take_take)
  have ds: "take (length cs - pos) (drop pos (elements m)) = drop pos cs"
    using m(6) len by (metis drop_take)
  show ?thesis
  proof (cases "pos < length cs")
    case True
    then have "memmove_cells (pos + 1) pos (length cs - pos) (elements m) =
        Inr (take (Suc pos) (elements m) @ drop pos cs @ drop (Suc (length cs)) (elements m))"
      using m(4,5) len ds by (simp add: memmove_cells_def store_cells_ok)
    then show ?thesis using m len True cs by (simp add: insert_new_cell_def)
  next
    case False
    then have "pos = length cs" using assms(3) by simp
    then show ?thesis using m len cs by (simp add: insert_new_cell_def)
  qed
qed

lemma insert_nth_cell_ok:
  assumes "represents t cs list" and "length cs < max_cells" and "pos \<le> length cs"
  shows "\<exists>l'. insert_nth_cell t list pos c = Inr l' \<and> represents t (take pos cs @ c # drop pos cs) l'"
proof (cases list)
  case None
  then show ?thesis using assms list_make1_ok by (simp add: insert_nth_cell_def)
next
  case (Some l)
  then obtain m where m: "insert_new_cell l pos = Inr m" "ltype m = t" "llen m = Suc (length cs)"
    "length cs < max_length m" "length (elements m) = max_length m" "take pos (elements m) = take pos cs"
    "take (length cs - pos) (drop (Suc pos) (elements m)) = drop pos cs"
    using insert_new_cell_ok [of t cs l pos] assms by blast
  have "take (Suc (length cs)) ((elements m)[pos := c]) = take pos cs @ c # drop pos cs"
    using m(4-7) assms(3) by (simp add: upd_conv_take_nth_drop Suc_diff_le)
  then show ?thesis using Some m assms(3)
    by (simp add: insert_nth_cell_def set_cell_ok represents_Some)
qed

lemma lcons_cell_ok:
  assumes "represents t cs list" and "length cs < max_cells"
  shows "\<exists>l'. lcons_cell t c list = Inr l' \<and> represents t (c # cs) l'"
proof (cases list)
  case None
  then show ?thesis using assms new_list_one by (simp add: lcons_cell_def)
next
  case (Some l)
  have pos: "0 < llen l" using assms Some by (simp add: represents_Some)
  have "insert_new_cell l 0 = new_head_cell l"
  proof (cases "make_room l")
    case (Inr m)
    then have "llen m = llen l" using make_room_ok [of t cs l] assms Some by auto
    then show ?thesis using Inr pos by (simp add: insert_new_cell_def new_head_cell_def)
  qed (simp add: insert_new_cell_def new_head_cell_def)
  then have "lcons_cell t c list = insert_nth_cell t list 0 c"
    using Some by (simp add: lcons_cell_def insert_nth_cell_def)
  then show ?thesis using insert_nth_cell_ok [OF assms, of 0 c] by simp
qed

lemma copy_cells_ok:
  assumes "cs \<noteq> []" and "length cs + 3 \<le> max_cells"
  shows "\<exists>l'. copy_cells t cs = Inr l' \<and> represents t cs l'"
proof -
  obtain l where "new_list t (length cs) = Inr l" "ltype l = t" "llen l = length cs"
    "length cs \<le> max_length l" "length (elements l) = max_length l"
    using new_list_ok [of "length cs" t] assms by auto
  then show ?thesis using assms by (simp add: copy_cells_def store_cells_ok represents_Some)
qed

lemma list_copy_ok:
  assumes "represents t cs list" and "length cs + 3 \<le> max_cells"
  shows "\<exists>l'. list_copy list = Inr l' \<and> represents t cs l'"
proof (cases list)
  case (Some l)
  then have "cs = take (llen l) (elements l)" "cs \<noteq> []" "ltype l = t"
    using assms represents_empty [OF assms(1)] by (auto simp: represents_Some)
  then show ?thesis using Some copy_cells_ok [of cs t] assms(2) by (simp add: list_copy_def)
qed (use assms in \<open>simp add: list_copy_def\<close>)

lemma list_copy_tail_ok:
  assumes "represents t cs list" and "length cs + 3 \<le> max_cells"
  shows "\<exists>l'. list_copy_tail list nskip = Inr l' \<and> represents t (drop (nat nskip) cs) l'"
proof (cases "nat nskip < length cs")
  case True
  then obtain l where l: "list = Some l" using assms by (cases list) auto
  have "take (llen l - nat nskip) (drop (nat nskip) (elements l)) = drop (nat nskip) cs"
    using assms(1) l by (simp add: represents_Some drop_take)
  moreover have "(if nskip < 0 then 0 else nat nskip) = nat nskip" by simp
  ultimately show ?thesis using True l assms represents_length [of t cs l] copy_cells_ok [of "drop (nat nskip) cs" t]
    by (simp add: list_copy_tail_def represents_Some [of t cs l] Let_def)
next
  case False
  then show ?thesis using assms represents_length [of t cs]
    by (cases list) (auto simp: list_copy_tail_def)
qed

lemma list_concat_ok:
  assumes "represents t cs list1" and "represents t ds list2" and "length cs + length ds + 3 \<le> max_cells"
  shows "\<exists>l'. list_concat list1 list2 = Inr l' \<and> represents t (cs @ ds) l'"
proof (cases "list1 = None \<or> list2 = None")
  case True
  then show ?thesis using assms list_copy_ok [OF assms(2)]
    by (cases list1; cases list2) (auto simp: list_concat_def)
next
  case False
  then obtain l1 l2 where l: "list1 = Some l1" "list2 = Some l2" by auto
  let ?n = "llen l1 + llen l2"
  have r: "represents t cs (Some l1)" "represents t ds (Some l2)" using assms l by simp_all
  have n: "?n = length cs + length ds" using represents_length r by simp
  obtain l' where l': "(if ?n > max_length l1 then enlarge_list ?n l1 else Inr l1) = Inr l'"
    "ltype l' = t" "llen l' = llen l1" "?n \<le> max_length l'" "length (elements l') = max_length l'"
    "take (llen l1) (elements l') = cs"
  proof (cases "?n > max_length l1")
    case True
    then show ?thesis using that enlarge_list_ok [of l1 ?n] r(1) assms(3) n by (auto simp: represents_Some)
  next
    case False
    then show ?thesis using that r(1) by (auto simp: represents_Some)
  qed
  have "store_cells (llen l1) ds (elements l') = Inr (cs @ ds @ drop ?n (elements l'))"
    using l'(4-6) represents_length [OF r(2)] by (simp add: store_cells_ok)
  moreover have "take (llen l2) (elements l2) = ds" using r(2) by (simp add: represents_Some)
  ultimately show ?thesis using l l' n r(1)
    by (auto simp: list_concat_def Let_def represents_Some)
qed

lemma list_concat_copy_ok:
  assumes "represents t cs list1" and "represents t ds list2" and "length cs + length ds + 3 \<le> max_cells"
  shows "\<exists>l'. list_concat_copy list1 list2 = Inr l' \<and> represents t (cs @ ds) l'"
proof (cases "list1 = None \<or> list2 = None")
  case True
  then show ?thesis using assms list_copy_ok [OF assms(2)] list_copy_ok [OF assms(1)]
    by (cases list1; cases list2) (auto simp: list_concat_copy_def)
next
  case False
  then obtain l1 l2 where l: "list1 = Some l1" "list2 = Some l2" by auto
  have r: "represents t cs (Some l1)" "represents t ds (Some l2)" using assms l by simp_all
  have n: "llen l1 = length cs" "llen l2 = length ds" using represents_length r by simp_all
  have c: "take (length cs) (elements l1) = cs" "take (length ds) (elements l2) = ds" "ltype l1 = t"
    using r n by (simp_all add: represents_Some)
  obtain m where m: "new_list t (length cs + length ds) = Inr m" "ltype m = t" "llen m = length cs + length ds"
    "length cs + length ds \<le> max_length m" "length (elements m) = max_length m"
    using new_list_ok [of "length cs + length ds" t] assms(3) n r by (auto simp: represents_Some)
  have "store_cells 0 cs (elements m) = Inr (cs @ drop (length cs) (elements m))"
    using m by (simp add: store_cells_ok)
  moreover have "store_cells (length cs) ds (cs @ drop (length cs) (elements m)) =
      Inr (cs @ ds @ drop (length cs + length ds) (elements m))"
    using m by (simp add: store_cells_ok add.commute)
  ultimately show ?thesis using l n c m r
    by (auto simp: list_concat_copy_def Let_def represents_Some)
qed

lemma list_truncate_ok:
  assumes "represents t cs list"
  shows "represents t (take (nat new_size) cs) (list_truncate list new_size)"
proof (cases list)
  case (Some l)
  then show ?thesis using assms by (auto simp: list_truncate_def represents_Some min_def nat_le_iff)
qed (use assms in \<open>simp add: list_truncate_def\<close>)

lemma list_delete_nth_cell_ok:
  assumes "represents t cs list" and "n < length cs"
  shows "\<exists>l'. list_delete_nth_cell list n = Inr l' \<and> represents t (take n cs @ drop (Suc n) cs) l'"
proof -
  obtain l where l: "list = Some l" using assms by (cases list) auto
  then have r: "represents t cs (Some l)" "llen l = length cs" using assms represents_length by auto
  show ?thesis
  proof (cases "length cs = 1")
    case True
    then show ?thesis using l r assms(2) by (simp add: list_delete_nth_cell_def)
  next
    case False
    have e: "elements l = cs @ drop (length cs) (elements l)"
      using r by (metis append_take_drop_id represents_Some)
    have "memmove_cells n (n + 1) (length cs - 1 - n) (elements l) =
        Inr (take n (elements l) @ take (length cs - 1 - n) (drop (n + 1) (elements l)) @ drop (length cs - 1) (elements l))"
    proof -
      have le: "length cs \<le> length (elements l)" using r by (simp add: represents_Some)
      then have "length (take (length cs - 1 - n) (drop (n + 1) (elements l))) = length cs - 1 - n"
        using assms(2) by simp
      then show ?thesis using le assms(2) by (simp add: memmove_cells_def store_cells_ok)
    qed
    moreover have "take (length cs - 1)
        (take n (elements l) @ take (length cs - 1 - n) (drop (n + 1) (elements l)) @ drop (length cs - 1) (elements l))
        = take n cs @ drop (Suc n) cs"
      using assms(2) by (subst (1 2) e) (simp add: drop_take)
    ultimately show ?thesis using l r assms(2) False
      by (auto simp: list_delete_nth_cell_def represents_Some)
  qed
qed

lemma list_delete_first_ok:
  "represents t cs list \<Longrightarrow> \<exists>l'. list_delete_first list = Inr l' \<and> represents t (tl cs) l'"
  using list_delete_nth_cell_ok [of t cs list 0]
  by (cases list; cases cs) (auto simp: list_delete_first_def represents_Some drop_Suc)

lemma list_delete_last_ok:
  "represents t cs list \<Longrightarrow> \<exists>l'. list_delete_last list = Inr l' \<and> represents t (butlast cs) l'"
proof (cases list)
  case (Some l)
  assume r: "represents t cs list"
  then have "llen l = length cs" using represents_length Some by simp
  then show ?thesis using Some r list_truncate_ok [OF r, of "int (length cs) - 1"]
    by (cases "length cs \<le> 1") (auto simp: list_delete_last_def list_length_def butlast_conv_take nat_diff_distrib)
qed (simp add: list_delete_last_def)

section \<open>Kinds of cells\<close>

text \<open>Append the elements of a list that have no equivalent in the list so far.\<close>

definition add_new :: "('v \<Rightarrow> 'v \<Rightarrow> bool) \<Rightarrow> 'v list \<Rightarrow> 'v list \<Rightarrow> 'v list" where
  "add_new eq xs ys = foldl (\<lambda>r y. if \<exists>x \<in> set r. eq x y then r else r @ [y]) xs ys"

lemma add_new_Nil [simp]: "add_new eq xs [] = xs"
  by (simp add: add_new_def)

lemma add_new_Cons:
  "add_new eq xs (y # ys) = add_new eq (if \<exists>x \<in> set xs. eq x y then xs else xs @ [y]) ys"
  by (simp add: add_new_def)

lemma set_add_new: "set (add_new (=) xs ys) = set xs \<union> set ys"
  by (induction ys arbitrary: xs) (auto simp: add_new_Cons)

lemma distinct_add_new: "distinct xs \<Longrightarrow> distinct (add_new (=) xs ys)"
  by (induction ys arbitrary: xs) (auto simp: add_new_Cons)

text \<open>Remove the first element equivalent to \<open>v\<close>.\<close>

fun delete_first :: "('v \<Rightarrow> 'v \<Rightarrow> bool) \<Rightarrow> 'v \<Rightarrow> 'v list \<Rightarrow> 'v list" where
  "delete_first eq v [] = []"
| "delete_first eq v (x # xs) = (if eq x v then xs else x # delete_first eq v xs)"

lemma delete_first_eq: "delete_first (=) v xs = remove1 v xs"
  by (induction xs) auto

locale list_kind =
  fixes t :: NodeTag
    and rd :: "ListCell \<Rightarrow> 'v res"
    and mk :: "'v \<Rightarrow> ListCell"
    and eq :: "'v \<Rightarrow> 'v \<Rightarrow> bool"
    and mem :: "plist \<Rightarrow> 'v \<Rightarrow> bool res"
    and app :: "plist \<Rightarrow> 'v \<Rightarrow> plist res"
  assumes rd_mk: "rd (mk v) = Inr v"
    and mem_loop: "mem list v = member_loop rd eq (cells list) v"
    and app_cell: "app list v = lappend_cell t list (mk v)"
begin

definition holds :: "'v list \<Rightarrow> plist \<Rightarrow> bool" where
  "holds xs list = represents t (map mk xs) list"

lemma holds_None: "holds xs None \<longleftrightarrow> xs = []"
  by (simp add: holds_def)

lemma holds_empty: "holds xs list \<Longrightarrow> list = None \<longleftrightarrow> xs = []"
  using represents_empty by (fastforce simp: holds_def)

lemma member_loop_mk: "member_loop rd eq (map mk xs) v = Inr (\<exists>x \<in> set xs. eq x v)"
  by (induction xs) (auto simp: rd_mk)

lemma mem_ok: "holds xs list \<Longrightarrow> mem list v = Inr (\<exists>x \<in> set xs. eq x v)"
  by (simp add: mem_loop holds_def represents_cells member_loop_mk)

lemma app_ok: "holds xs list \<Longrightarrow> length xs < max_cells \<Longrightarrow> \<exists>l'. app list v = Inr l' \<and> holds (xs @ [v]) l'"
  using lappend_cell_ok [of t "map mk xs" list "mk v"] by (simp add: app_cell holds_def)

lemma append_unique_ok:
  assumes "holds xs list" and "length xs < max_cells"
  shows "\<exists>l'. append_unique (mem list v) list (app list v) = Inr l' \<and> holds (add_new eq xs [v]) l'"
  using assms app_ok [OF assms, of v] by (auto simp: append_unique_def mem_ok add_new_Cons)

lemma add_new_loop:
  "holds xs list \<Longrightarrow> length xs + length ys \<le> max_cells \<Longrightarrow>
    \<exists>l'. append_selected rd (\<lambda>r v. absent (mem r v)) app (map mk ys) list = Inr l' \<and> holds (add_new eq xs ys) l'"
proof (induction ys arbitrary: xs list)
  case (Cons y ys)
  show ?case
  proof (cases "\<exists>x \<in> set xs. eq x y")
    case True
    then show ?thesis using Cons.IH [OF Cons.prems(1)] Cons.prems
      by (simp add: append_selected_def rd_mk mem_ok absent_def add_new_Cons)
  next
    case False
    obtain l' where l': "app list y = Inr l'" "holds (xs @ [y]) l'"
      using app_ok [OF Cons.prems(1), of y] Cons.prems(2) by auto
    then show ?thesis using False Cons.IH [OF l'(2)] Cons.prems
      by (simp add: append_selected_def rd_mk mem_ok absent_def add_new_Cons)
  qed
qed (simp add: append_selected_def)

lemma filter_loop:
  assumes "\<And>r v. keep r v = Inr (P v)"
  shows "holds xs list \<Longrightarrow> length xs + length ys \<le> max_cells \<Longrightarrow>
    \<exists>l'. append_selected rd keep app (map mk ys) list = Inr l' \<and> holds (xs @ filter P ys) l'"
proof (induction ys arbitrary: xs list)
  case (Cons y ys)
  show ?case
  proof (cases "P y")
    case False
    then show ?thesis using Cons.IH [OF Cons.prems(1)] Cons.prems
      by (simp add: append_selected_def rd_mk assms)
  next
    case True
    obtain l' where l': "app list y = Inr l'" "holds (xs @ [y]) l'"
      using app_ok [OF Cons.prems(1), of y] Cons.prems(2) by auto
    then show ?thesis using True Cons.IH [OF l'(2)] Cons.prems
      by (simp add: append_selected_def rd_mk assms)
  qed
qed (simp add: append_selected_def)

lemma union_ok:
  assumes "holds xs list1" and "holds ys list2" and "length xs + length ys + 3 \<le> max_cells"
  shows "\<exists>l'. res_bind (list_copy list1) (append_selected rd (\<lambda>r v. absent (mem r v)) app (cells list2)) = Inr l'
    \<and> holds (add_new eq xs ys) l'"
proof -
  obtain l where l: "list_copy list1 = Inr l" "holds xs l"
    using list_copy_ok [of t "map mk xs" list1] assms by (auto simp: holds_def)
  have "cells list2 = map mk ys" using assms(2) by (simp add: holds_def represents_cells)
  then show ?thesis using l add_new_loop [OF l(2), of ys] assms(3) by simp
qed

lemma concat_unique_ok:
  assumes "holds xs list1" and "holds ys list2" and "length xs + length ys \<le> max_cells"
  shows "\<exists>l'. append_selected rd (\<lambda>r v. absent (mem r v)) app (cells list2) list1 = Inr l'
    \<and> holds (add_new eq xs ys) l'"
  using add_new_loop [OF assms(1,3)] assms(2) by (simp add: holds_def represents_cells)

lemma intersection_ok:
  assumes "holds xs list1" and "holds ys list2" and "length xs \<le> max_cells"
  shows "\<exists>l'. (if list1 = None \<or> list2 = None then Inr None
      else append_selected rd (\<lambda>_ v. mem list2 v) app (cells list1) None) = Inr l'
    \<and> holds (filter (\<lambda>v. \<exists>y \<in> set ys. eq y v) xs) l'"
proof (cases "list1 = None \<or> list2 = None")
  case True
  then show ?thesis using holds_empty [OF assms(1)] holds_empty [OF assms(2)] by (auto simp: holds_None)
next
  case False
  have "cells list1 = map mk xs" using assms(1) by (simp add: holds_def represents_cells)
  then show ?thesis using False filter_loop [of "\<lambda>_ v. mem list2 v" "\<lambda>v. \<exists>y \<in> set ys. eq y v" "[]" None xs]
      assms mem_ok [OF assms(2)] by (auto simp: holds_None)
qed

lemma difference_ok:
  assumes "holds xs list1" and "holds ys list2" and "length xs + 3 \<le> max_cells"
  shows "\<exists>l'. (if list2 = None then list_copy list1
      else append_selected rd (\<lambda>_ v. absent (mem list2 v)) app (cells list1) None) = Inr l'
    \<and> holds (filter (\<lambda>v. \<not> (\<exists>y \<in> set ys. eq y v)) xs) l'"
proof (cases "list2 = None")
  case True
  then have "ys = []" using holds_empty [OF assms(2)] by simp
  then show ?thesis using True list_copy_ok [of t "map mk xs" list1] assms by (simp add: holds_def)
next
  case False
  have "cells list1 = map mk xs" using assms(1) by (simp add: holds_def represents_cells)
  then show ?thesis
    using False assms mem_ok [OF assms(2)]
      filter_loop [of "\<lambda>_ v. absent (mem list2 v)" "\<lambda>v. \<not> (\<exists>y \<in> set ys. eq y v)" "[]" None xs]
    by (auto simp: holds_None absent_def)
qed

lemma find_loop_mk:
  "find_loop rd eq (map mk xs) v n =
    Inr (if \<exists>x \<in> set xs. eq x v then Some (n + length (takeWhile (\<lambda>x. \<not> eq x v) xs)) else None)"
  by (induction xs arbitrary: n) (auto simp: rd_mk)

lemma delete_first_split:
  "\<exists>x \<in> set xs. eq x v \<Longrightarrow> (let k = length (takeWhile (\<lambda>x. \<not> eq x v) xs) in
    k < length xs \<and> take k xs @ drop (Suc k) xs = delete_first eq v xs)"
  by (induction xs) (auto simp: Let_def)

lemma delete_first_absent: "\<not> (\<exists>x \<in> set xs. eq x v) \<Longrightarrow> delete_first eq v xs = xs"
  by (induction xs) auto

lemma delete_ok:
  assumes "holds xs list"
  shows "\<exists>l'. delete_value rd eq list v = Inr l' \<and> holds (delete_first eq v xs) l'"
proof -
  have c: "cells list = map mk xs" using assms by (simp add: holds_def represents_cells)
  let ?k = "length (takeWhile (\<lambda>x. \<not> eq x v) xs)"
  show ?thesis
  proof (cases "\<exists>x \<in> set xs. eq x v")
    case True
    then have k: "?k < length xs" "take ?k xs @ drop (Suc ?k) xs = delete_first eq v xs"
      using delete_first_split by (simp_all add: Let_def)
    then show ?thesis
      using True list_delete_nth_cell_ok [of t "map mk xs" list ?k] assms
      by (simp add: delete_value_def c find_loop_mk holds_def take_map drop_map flip: map_append)
  next
    case False
    then show ?thesis using assms delete_first_absent [OF False] by (simp add: delete_value_def c find_loop_mk)
  qed
qed

end

interpretation ptr_kind: list_kind T_List lfirst Ptr "(=)" list_member_ptr lappend
  by unfold_locales (simp_all add: lfirst_def list_member_ptr_def lappend_def)

interpretation node_kind: list_kind T_List lfirst Ptr equal "list_member equal" lappend for equal
  by unfold_locales (simp_all add: lfirst_def list_member_def lappend_def)

interpretation int_kind: list_kind T_IntList lfirst_int IntCell "(=)" list_member_int lappend_int
  by unfold_locales (simp_all add: lfirst_int_def list_member_int_def lappend_int_def)

interpretation oid_kind: list_kind T_OidList lfirst_oid OidCell "(=)" list_member_oid lappend_oid
  by unfold_locales (simp_all add: lfirst_oid_def list_member_oid_def lappend_oid_def)

section \<open>Properties\<close>

abbreviation ptr_list :: "nat list \<Rightarrow> plist \<Rightarrow> bool" where
  "ptr_list xs \<equiv> represents T_List (map Ptr xs)"

abbreviation int_list :: "int list \<Rightarrow> plist \<Rightarrow> bool" where
  "int_list xs \<equiv> represents T_IntList (map IntCell xs)"

abbreviation oid_list :: "32 word list \<Rightarrow> plist \<Rightarrow> bool" where
  "oid_list xs \<equiv> represents T_OidList (map OidCell xs)"

text \<open>
  Adding a cell.  On a list that satisfies the invariants, the append, cons and insert
  operations of the three kinds succeed, keep the invariants (the array is enlarged when it is
  full, before a cell is moved) and put the datum at the end, at the front, or before the cell at
  the given position.
\<close>

theorem list_add_cell:
  assumes "ptr_list ps lp" and "int_list is li" and "oid_list os lo"
    and "length ps < max_cells" and "length is < max_cells" and "length os < max_cells"
    and "n \<le> length ps" and "n \<le> length is" and "n \<le> length os"
  shows "(\<exists>l. lappend lp p = Inr l \<and> ptr_list (ps @ [p]) l) \<and>
    (\<exists>l. lappend_int li i = Inr l \<and> int_list (is @ [i]) l) \<and>
    (\<exists>l. lappend_oid lo oid = Inr l \<and> oid_list (os @ [oid]) l) \<and>
    (\<exists>l. lcons p lp = Inr l \<and> ptr_list (p # ps) l) \<and>
    (\<exists>l. lcons_int i li = Inr l \<and> int_list (i # is) l) \<and>
    (\<exists>l. lcons_oid oid lo = Inr l \<and> oid_list (oid # os) l) \<and>
    (\<exists>l. list_insert_nth lp n p = Inr l \<and> ptr_list (take n ps @ p # drop n ps) l) \<and>
    (\<exists>l. list_insert_nth_int li n i = Inr l \<and> int_list (take n is @ i # drop n is) l) \<and>
    (\<exists>l. list_insert_nth_oid lo n oid = Inr l \<and> oid_list (take n os @ oid # drop n os) l)"
  using lappend_cell_ok [OF assms(1), of "Ptr p"] lappend_cell_ok [OF assms(2), of "IntCell i"]
    lappend_cell_ok [OF assms(3), of "OidCell oid"]
    lcons_cell_ok [OF assms(1), of "Ptr p"] lcons_cell_ok [OF assms(2), of "IntCell i"]
    lcons_cell_ok [OF assms(3), of "OidCell oid"]
    insert_nth_cell_ok [OF assms(1), of n "Ptr p"] insert_nth_cell_ok [OF assms(2), of n "IntCell i"]
    insert_nth_cell_ok [OF assms(3), of n "OidCell oid"] assms(4-9)
  by (simp add: lappend_def lappend_int_def lappend_oid_def lcons_def lcons_int_def lcons_oid_def
      list_insert_nth_def list_insert_nth_int_def list_insert_nth_oid_def take_map drop_map)

theorem list_add_cell_witness:
  "\<exists>l. list_insert_nth_int None 0 7 = Inr l \<and> int_list (take 0 [] @ 7 # drop 0 []) l"
  using list_add_cell [of "[]" None "[]" None "[]" None 0 0 7 0] by simp

text \<open>
  Copying, concatenating and removing cells.  The operations succeed on lists that satisfy
  the invariants and keep them: \<open>list_copy\<close>, \<open>list_copy_tail\<close> (a negative count skips nothing),
  \<open>list_concat\<close> and \<open>list_concat_copy\<close>, \<open>list_truncate\<close> (a size of 0 or less gives \<open>NIL\<close>),
  deleting the cell at a position, the first and the last cell.
\<close>

theorem list_copy_concat_delete:
  assumes "represents t cs list1" and "represents t ds list2"
    and "length cs + length ds + 3 \<le> max_cells" and "n < length cs"
  shows "(\<exists>l. list_copy list1 = Inr l \<and> represents t cs l) \<and>
    (\<exists>l. list_copy_tail list1 k = Inr l \<and> represents t (drop (nat k) cs) l) \<and>
    (\<exists>l. list_concat list1 list2 = Inr l \<and> represents t (cs @ ds) l) \<and>
    (\<exists>l. list_concat_copy list1 list2 = Inr l \<and> represents t (cs @ ds) l) \<and>
    represents t (take (nat k) cs) (list_truncate list1 k) \<and>
    (\<exists>l. list_delete_nth_cell list1 n = Inr l \<and> represents t (take n cs @ drop (Suc n) cs) l) \<and>
    (\<exists>l. list_delete_first list1 = Inr l \<and> represents t (tl cs) l) \<and>
    (\<exists>l. list_delete_last list1 = Inr l \<and> represents t (butlast cs) l)"
proof -
  have small: "length cs + 3 \<le> max_cells" using assms(3) by simp
  show ?thesis
    by (intro conjI list_copy_ok [OF assms(1) small] list_copy_tail_ok [OF assms(1) small]
        list_concat_ok [OF assms(1-3)] list_concat_copy_ok [OF assms(1-3)] list_truncate_ok [OF assms(1)]
        list_delete_nth_cell_ok [OF assms(1,4)] list_delete_first_ok [OF assms(1)]
        list_delete_last_ok [OF assms(1)])
qed

definition sample_list :: plist where
  "sample_list = Some \<lparr>ltype = T_IntList, llen = 2, max_length = 3,
     elements = [IntCell 4, IntCell 5, Junk], inline_elements = True\<rparr>"

lemma sample_list_ok: "represents T_IntList [IntCell 4, IntCell 5] sample_list"
  by (simp add: sample_list_def represents_Some)

theorem list_copy_concat_delete_witness:
  "\<exists>l. list_concat sample_list sample_list = Inr l \<and>
    represents T_IntList ([IntCell 4, IntCell 5] @ [IntCell 4, IntCell 5]) l"
  using list_copy_concat_delete [OF sample_list_ok sample_list_ok, of 1] by simp

text \<open>
  C40: Lists as sets.  For integer lists, and in the same way for pointers and OIDs, union,
  intersection, difference, \<open>list_concat_unique\<close>, \<open>list_append_unique\<close> and deletion succeed
  and return lists with the set-theoretic contents; the union of a list without duplicates with
  another list has no duplicates, and deletion removes one occurrence.
\<close>

theorem list_set_operations:
  assumes "int_list xs list1" and "int_list ys list2" and "length xs + length ys + 3 \<le> max_cells"
  shows "(\<exists>l zs. list_union_int list1 list2 = Inr l \<and> int_list zs l \<and>
      set zs = set xs \<union> set ys \<and> (distinct xs \<longrightarrow> distinct zs)) \<and>
    (\<exists>l zs. list_concat_unique_int list1 list2 = Inr l \<and> int_list zs l \<and>
      set zs = set xs \<union> set ys \<and> (distinct xs \<longrightarrow> distinct zs)) \<and>
    (\<exists>l. list_intersection_int list1 list2 = Inr l \<and> int_list (filter (\<lambda>x. x \<in> set ys) xs) l) \<and>
    (\<exists>l. list_difference_int list1 list2 = Inr l \<and> int_list (filter (\<lambda>x. x \<notin> set ys) xs) l) \<and>
    (\<exists>l. list_append_unique_int list1 v = Inr l \<and> int_list (if v \<in> set xs then xs else xs @ [v]) l) \<and>
    (\<exists>l. list_delete_int list1 v = Inr l \<and> int_list (remove1 v xs) l) \<and>
    list_member_int list1 v = Inr (v \<in> set xs)"
proof -
  have h: "int_kind.holds xs list1" "int_kind.holds ys list2"
    using assms by (simp_all add: int_kind.holds_def)
  have small: "length xs < max_cells" "length xs \<le> max_cells" "length xs + 3 \<le> max_cells"
    "length xs + length ys \<le> max_cells" using assms(3) by simp_all
  note facts = int_kind.union_ok [OF h assms(3)] int_kind.concat_unique_ok [OF h small(4)]
    int_kind.intersection_ok [OF h small(2)] int_kind.difference_ok [OF h small(3)]
    int_kind.append_unique_ok [OF h(1) small(1), of v] int_kind.delete_ok [OF h(1), of v]
    int_kind.mem_ok [OF h(1), of v]
  have new: "add_new (=) xs [v] = (if v \<in> set xs then xs else xs @ [v])" by (simp add: add_new_Cons)
  have n: "set (add_new (=) xs ys) = set xs \<union> set ys" "distinct xs \<longrightarrow> distinct (add_new (=) xs ys)"
    by (simp_all add: set_add_new distinct_add_new)
  show ?thesis using facts n
    unfolding list_union_int_def list_concat_unique_int_def list_intersection_int_def list_difference_int_def
      list_append_unique_int_def list_delete_int_def int_kind.holds_def new delete_first_eq
    by (intro conjI) (blast | simp)+
qed

theorem list_set_operations_witness:
  "\<exists>l. list_difference_int sample_list sample_list = Inr l \<and> int_list (filter (\<lambda>x. x \<notin> set [4, 5]) [4, 5]) l"
  using list_set_operations [of "[4, 5]" sample_list "[4, 5]" sample_list 0] sample_list_ok by simp

section \<open>Removing adjacent duplicates\<close>

lemma dedup_loop_ok:
  assumes "i < j" and "j \<le> n" and "n \<le> length els"
  shows "case dedup_loop n i j els of (i', els') \<Rightarrow> i' < n \<and> length els' = length els \<and>
    take (Suc i') els' = take i els @ remdups_adj (els ! i # take (n - j) (drop j els))"
  using assms
proof (induction n i j els rule: dedup_loop.induct)
  case (1 n i j els)
  show ?case
  proof (cases "j < n")
    case False
    then show ?thesis using 1(3-5) by (subst dedup_loop.simps) (simp add: take_Suc_conv_app_nth)
  next
    case True
    have step: "take (n - j) (drop j els) = els ! j # take (n - Suc j) (drop (Suc j) els)"
      using True 1(5) by (metis Cons_nth_drop_Suc Suc_diff_Suc less_le_trans take_Suc_Cons)
    show ?thesis
    proof (cases "els ! i = els ! j")
      case True
      then show ?thesis using 1(2) [OF \<open>j < n\<close>] \<open>j < n\<close> 1(3-5) step
        by (simp add: dedup_loop.simps [of n i j els])
    next
      case False
      let ?els = "els[Suc i := els ! j]"
      have "drop (Suc j) ?els = drop (Suc j) els" "take (Suc i) ?els = take i els @ [els ! i]"
        "?els ! Suc i = els ! j"
        using 1(3-5) \<open>j < n\<close> by (simp_all add: take_Suc_conv_app_nth)
      then show ?thesis using 1(1) [OF \<open>j < n\<close> False] False \<open>j < n\<close> 1(3-5) step
        by (simp add: dedup_loop.simps [of n i j els])
    qed
  qed
qed

lemma sorted_remdups_adj_distinct: "sorted xs \<Longrightarrow> distinct (remdups_adj xs)"
  by (induction xs rule: remdups_adj.induct) auto

text \<open>
  \<open>list_deduplicate_oid\<close> compacts a list in place: it keeps the invariants and leaves the list
  without adjacent duplicates, so for a sorted list, as its comment requires, exactly the
  distinct members in order.
\<close>

theorem list_deduplicate_oid_correct:
  assumes "oid_list xs list" and "sorted xs"
  shows "oid_list (remdups_adj xs) (list_deduplicate_oid list) \<and>
    set (remdups_adj xs) = set xs \<and> distinct (remdups_adj xs)"
proof -
  have "oid_list (remdups_adj xs) (list_deduplicate_oid list)"
  proof (cases list)
    case (Some l)
    then have l: "0 < llen l" "llen l \<le> max_length l" "length (elements l) = max_length l" "ltype l = T_OidList"
      "take (llen l) (elements l) = map OidCell xs"
      using assms(1) by (simp_all add: represents_Some)
    have len: "llen l = length xs" using assms(1) represents_length [of T_OidList "map OidCell xs" l] Some by simp
    show ?thesis
    proof (cases "llen l > 1")
      case False
      then have "length xs = 1" using l(1) len by linarith
      then show ?thesis using Some assms False by (cases xs) (simp_all add: list_deduplicate_oid_def)
    next
      case True
      obtain i els where run: "dedup_loop (llen l) 0 1 (elements l) = (i, els)" by (cases "dedup_loop (llen l) 0 1 (elements l)")
      have "elements l ! 0 # take (llen l - 1) (drop 1 (elements l)) = map OidCell xs"
        using l(1-3,5) by (cases "elements l"; cases "llen l") simp_all
      then have "i < llen l" "length els = max_length l" "take (Suc i) els = map OidCell (remdups_adj xs)"
        using dedup_loop_ok [of 0 1 "llen l" "elements l"] True l(2,3) run
        by (simp_all add: remdups_adj_map_injective inj_on_def)
      then show ?thesis using Some True l run by (simp add: list_deduplicate_oid_def represents_Some)
    qed
  qed (use assms in \<open>simp add: list_deduplicate_oid_def\<close>)
  then show ?thesis using assms(2) by (simp add: sorted_remdups_adj_distinct)
qed

theorem list_deduplicate_oid_correct_witness:
  "oid_list (remdups_adj [3, 3, 7]) (list_deduplicate_oid
     (Some \<lparr>ltype = T_OidList, llen = 3, max_length = 3,
        elements = [OidCell 3, OidCell 3, OidCell 7], inline_elements = True\<rparr>))"
  using list_deduplicate_oid_correct [of "[3, 3, 7]"
      "Some \<lparr>ltype = T_OidList, llen = 3, max_length = 3,
        elements = [OidCell 3, OidCell 3, OidCell 7], inline_elements = True\<rparr>"]
  by (simp add: represents_Some)

end
