(* ===== verification/Spec2Isabelle.thy ===== *)
theory Spec2Isabelle
  imports StatManager_Esets StatEstimate_Props PlanExamples StatQuery_Props Collected StatCollect_Repeat
    DegreeSeq_Dot DSStat_Props CardInject_Keys CardInject_Sizes Bitmapset_Spec Bitmapset_Hash
    Hashfn PgList_Spec Bitutils
begin

text \<open>
  \<^bold>\<open>Verification of StarCE: cardinality estimation by star degree sequences.\<close>

  \<^bold>\<open>The program.\<close> StarCE estimates the sizes of joins for a query optimizer. For every set of
  columns that queries equate (an equal set) it collects, per subset, the compressed degree
  sequences of the columns; at optimization time it looks the statistics of the stars of a
  query up, applies the filters of the tables, merges stars that share a relation, and
  multiplies over the components. The estimator consists of three headers
  (\<^verbatim>\<open>duckdb/src/include/duckdb/starce/equalset.hpp\<close>, \<^verbatim>\<open>statistic.hpp\<close>, \<^verbatim>\<open>starce.hpp\<close>), is called
  from the join order optimizer of DuckDB (\<^verbatim>\<open>duckdb/src/optimizer/join_order\<close>), which enumerates
  connected sets of relations and joins them along the cheapest plans, and is driven by
  \<^verbatim>\<open>main.cpp\<close>. Its estimates are compared end to end by injecting them into PostgreSQL 13.1,
  whose planner was changed in \<^verbatim>\<open>costsize.c\<close> to read estimates from files; that planner rests on
  the sets, lists, bit operations and hash functions of PostgreSQL
  (\<^verbatim>\<open>bitmapset.c\<close>, \<^verbatim>\<open>list.c\<close>, \<^verbatim>\<open>pg_bitutils.c\<close>, \<^verbatim>\<open>hashfn.c\<close>).

  \<^bold>\<open>Theories and sources.\<close>
  \<^item> \<open>Prelude\<close>: the error values, results (\<open>Inl\<close> an exception, \<open>elog(ERROR)\<close> or undefined
    behaviour, \<open>Inr\<close> a value), loops over results, \<open>vector::resize\<close>, sums over lists.
    \<open>ExnState\<close>: operations on an object that may throw and keep the changes made before
    (\<open>sx_bind\<close>, \<open>sx_for\<close>); its locale \<open>frame\<close> is the interface of the proofs that an operation
    leaves a part of the object alone. \<open>Equivalences\<close>: the locale \<open>equivalence_builder\<close> of
    structures that maintain an equivalence under new pairs.
  \<^item> \<open>EqualSet\<close>: \<^verbatim>\<open>equalset.hpp\<close>. A \<open>std::set\<close> is an ascending list; the orders are instances of
    \<open>linorder\<close>. Subset enumeration is complete and free of repetition, splitting is exact.
  \<^item> \<open>DegreeSeq\<close>, \<open>DegreeSeq_Bounds\<close>, \<open>DegreeSeq_Dot\<close>: class \<open>DegreeSequence\<close> of \<^verbatim>\<open>statistic.hpp\<close>.
    The record has the three vectors of the class; buckets are computed with the logarithm
    and evaluated by a search that is proved equal. A finished sequence dominates the collected
    degrees, and \<open>dot\<close> is an upper bound of the join size.
  \<^item> \<open>DSStat\<close>, \<open>DSStat_Props\<close>: class \<open>DSStatistic\<close>, with the cursors of \<open>Merge\<close> as a record per
    edge. \<open>Merge\<close> succeeds on well-formed statistics and does not underestimate;
    \<open>LimitDsToCard\<close>, \<open>AdjustToAverage\<close> and the two normalisations are characterised; the loss
    of the central sequence in \<open>MergeByCenter\<close> is proved.
  \<^item> \<open>SqlText\<close>: \<open>ParsePredicate\<close> of \<^verbatim>\<open>starce.hpp\<close> with its regular expressions as scanners.
    \<open>StatManager\<close>: the class \<open>StatisticManager\<close>, its members as a record, collection, the
    description of a query, query texts, records and injected numbers.
    \<open>StatEstimate\<close>: \<open>GetStatisticsFromEset\<close> and \<open>EstimateCardinality\<close>.
    \<open>StatManager_Esets\<close>: the attribute sets are the classes of the join predicates (first
    interpretation of \<open>equivalence_builder\<close>). \<open>StatEstimate_Forest\<close>, \<open>StatEstimate_Props\<close>: the
    parent array is a forest (second interpretation), the walks to the roots end, the trees
    are the connected components. \<open>StatSession\<close>: the calls of the optimizer for one query,
    \<open>QueryGraphManager::Build\<close> to \<open>JoinOrderOptimizer::Optimize\<close>; estimates change records only;
    exceptions lock the manager. \<open>StatQuery_Props\<close>: subquery texts as keys. \<open>StatCollect\<close>: the
    collection loop of \<^verbatim>\<open>main.cpp\<close> and what a later lookup finds; \<open>StatCollect_Total\<close>: it
    succeeds on equal sets with one column per table, by the total-correctness rules of
    \<open>ExnState\<close>; \<open>StatCollect_Repeat\<close>: it reads beyond a cleared vector when a table occurs
    twice.
  \<^item> \<open>StatJson\<close>: JSON values and the \<open>serialize\<close> and \<open>deserialize\<close> methods of all StarCE classes.
    The library is a pair \<open>dump\<close>, \<open>parse\<close>; \<open>json_law\<close> states that parsing undoes dumping, on the
    finitely many documents of one statistics file.
  \<^item> \<open>Driver\<close>, \<open>Driver_Files\<close>: the rest of \<^verbatim>\<open>main.cpp\<close>, from \<open>ReadConfig\<close> to \<open>main\<close>, on a state
    of the manager and the files; the files of recorded and injected numbers.
  \<^item> \<open>StarJoin\<close>, \<open>Collected\<close>: the size of a star join over a database of columns, the rows the
    counting query of \<open>CollectStatistics\<close> is to return (\<open>answers\<close>), and the whole path from the
    schema file through the engine, the collection and the statistics file to a second run.
  \<^item> \<open>JoinFilters\<close>, \<open>HyperGraph\<close>, \<open>HyperGraph_Spec\<close>: the filters of a query, from the operators of the
    logical plan to the query graph and to StarCE's predicates (\<open>ExtractEdges\<close> of
    \<^verbatim>\<open>relation_manager.cpp\<close>, \<open>CreateHyperGraphEdges\<close> of \<^verbatim>\<open>query_graph_manager.cpp\<close>). The loops are
    specified by the relations on the two sides of a condition.
  \<^item> \<open>CardEst\<close>, \<open>CardEst_Props\<close>, \<open>CardEst_Cases\<close>: DuckDB's own estimator, \<^verbatim>\<open>cardinality_estimator.cpp\<close>.
    Its total domains are the classes of equated columns (third interpretation of
    \<open>equivalence_builder\<close>), estimates are positive; two queries whose estimates ignore a predicate
    or a relation.
  \<^item> \<open>JoinSets\<close>, \<open>QueryGraph\<close>, \<open>PlanEnum\<close>: the join order optimizer that asks for the estimates,
    \<^verbatim>\<open>join_relation_set.cpp\<close>, \<^verbatim>\<open>query_graph.cpp\<close> and \<^verbatim>\<open>plan_enumerator.cpp\<close> with \<^verbatim>\<open>cost_model.cpp\<close>. A
    relation set is an ascending list (interning is injective), the graph a tree of edges (its
    abstraction a set of edges), the enumerator a state of plans, pairs and cached estimates.
    The theorems on plans are about queries
    whose edges link two single relations (\<open>simple_graph\<close>), as an equality of two columns gives;
    \<open>QueryGraph\<close> itself treats hyperedges. \<open>Csg\<close>, \<open>Csg_Order\<close>, \<open>Csg_Traversal\<close>: the order in which the recursion visits connected sets and
    their complements (locale \<open>csg_recursion\<close>, interpreted for both recursions): each once,
    smaller sets first. \<open>JoinTree\<close>: join trees and their cost. \<open>PlanExact\<close>, \<open>PlanSearch\<close>: the
    exact search finds a cheapest tree for every connected set. \<open>PlanSound\<close>, \<open>PlanGreedy\<close>: what the
    search keeps when it gives up; the greedy search joins all relations. \<open>PlanOrder\<close>: the whole
    search with its second round over cross products. \<open>QueryPlan\<close>: \<open>Build\<close> and \<open>Optimize\<close>, a query
    from its operators to the plan. \<open>PlanExamples\<close>: small queries.
  \<^item> \<open>CardInject\<close>, \<open>CardInject_Keys\<close>, \<open>CardInject_Sizes\<close>: the changed part of \<^verbatim>\<open>costsize.c\<close>, from
    \<open>read_from_fspn_estimate\<close> to \<open>get_foreign_key_join_selectivity\<close>. Keys are canonical
    (locale \<open>cmp_order\<close>), files are read back as written, sizes stay in their ranges.
  \<^item> \<open>Bitmapset\<close>, \<open>Bitmapset_Set\<close>, \<open>Bitmapset_Spec\<close>, \<open>Bitmapset_Hash\<close>: every operation of
    \<^verbatim>\<open>bitmapset.c\<close> on lists of 64-bit words (\<open>None\<close> for a null pointer), the abstraction to
    sets, the locales \<open>set_ops\<close> and \<open>set_iter\<close> with interpretations for the copying and the
    recycling variants, and hashing.
  \<^item> \<open>PgList\<close>, \<open>PgList_Spec\<close>: \<^verbatim>\<open>list.c\<close> on cell arrays with their capacity; the locale
    \<open>list_kind\<close> is interpreted for the pointer, node, integer and Oid variants.
  \<^item> \<open>Hashfn\<close>, \<open>Bitutils\<close>: \<^verbatim>\<open>hashfn.c\<close> on 32-bit words with all alignments and byte orders;
    the tables and loops of \<^verbatim>\<open>pg_bitutils.c\<close>.

  \<^bold>\<open>How the components interact.\<close> \<open>StatCollect\<close> connects the subset enumeration and splitting of
  equal sets with the lookups of the estimator: what a collection prepared is found.
  \<open>Collected\<close> composes the driver, the manager, the statistics and their file: the numbers in
  the statistics are the sizes of joins, and survive the file.
  \<open>StatQuery_Props\<close> connects recording and injection through the text of a subquery.
  \<open>StatSession\<close> runs a whole query through the manager; that its estimates repeat is what makes
  the costs in \<open>PlanExact\<close> well defined, so that the enumerator of DuckDB with StarCE's estimates
  finds an optimal join order. \<open>QueryPlan\<close> composes filters, graph, both estimators and the
  enumerator: without StarCE every query over its columns with single relations on the sides of its predicates
  is planned, if it is connected or cross products are allowed, and StarCE's attribute sets
  refine DuckDB's total domains. \<open>CardInject_Keys\<close> runs the planner's key
  computation on bitmap sets of relations, and \<open>Bitmapset_Hash\<close> composes sets and hash
  functions.

  \<^bold>\<open>Numbers.\<close> A \<open>double\<close> is a real number: rounding is not modelled, and an operation that
  would produce an infinity or a NaN is an error (\<open>Not_finite\<close>), except the NaN of an empty
  column in \<open>FinishCollection\<close>, which is modelled because the code goes on with it. The
  products of counts in \<open>DSStatistic::AddDegree\<close> are checked against \<open>int64_t\<close>; other counts
  are integers bounded by the number of rows. PostgreSQL's words keep their width
  (\<open>32 word\<close>, \<open>64 word\<close>), list lengths respect the limit of the allocator, and member
  numbers of bitmap sets are \<open>int\<close>s below \<open>2 ^ 31\<close>.

  \<^bold>\<open>Loops.\<close> Loops over vectors are structural recursion, the two-cursor loop of \<open>dot\<close> and
  \<open>Merge\<close>, the splitting loop and the string scanners are functions with a termination
  proof. The recursions of the plan enumerator and its greedy loop carry the number of relations
  plus one as fuel, which \<open>Csg_Traversal\<close> and \<open>PlanGreedy\<close> prove to be enough; \<open>SolveJoinOrder\<close> calls
  itself, and one repetition is proved to suffice (\<open>PlanOrder\<close>). Three more loops carry fuel: the walk to a root in \<open>EstimateCardinality\<close> (the number of
  attribute sets, proved to be enough in \<open>StatEstimate_Props\<close>) and the two iterations over a
  bitmap set (64 times the number of words, plus one; \<open>Bitmapset_Spec\<close>).

  \<^bold>\<open>Not modelled.\<close> The memory report of the StarCE classes, output on the console and under
  \<open>DEBUG\<close>, the four manual tests of \<^verbatim>\<open>main.cpp\<close> and the debug files of \<^verbatim>\<open>costsize.c\<close>. The JSON
  text format (third-party \<^verbatim>\<open>json.hpp\<close>), the SQL engine and the decimal form of a \<open>double\<close> are
  arguments of the model. Further, the release of memory, \<open>list_sort\<close>
  (the C library's \<open>qsort\<close>), the cost formulas of paths in \<^verbatim>\<open>costsize.c\<close>, in DuckDB's join order
  optimizer the extraction of relations and statistics from a logical plan and the reconstruction
  of one, the rest of DuckDB and PostgreSQL, which are host systems, and the Python code of competing methods. Threads
  of the collection write disjoint objects and are taken one after the other.

  \<^bold>\<open>Findings.\<close> Nine properties state behaviour that the code does not intend, each for every
  input it concerns: the collection of an equal set with a table twice has undefined behaviour, a statistics file
  without statistics cannot be read back, \<open>MergeByCenter\<close> loses the central sequence, an
  exception during optimization locks the manager, a statement without WHERE has no
  estimates, the greedy search ignores the prohibition of cross products, a predicate between two
  total domains makes DuckDB's estimator lose those of the second, the key buffer of \<open>join_to_key\<close> is written without its size, and printing
  single-table queries skips injected base estimates.
\<close>

end
